(* ===== verification/C_Prelude.thy ===== *)
theory C_Prelude
  imports Main "HOL-Library.Word" "HOL-Library.Signed_Division" "HOL-Library.Monad_Syntax"
begin

unbundle bit_operations_syntax

text \<open>
  Shared vocabulary of the development: the machine types of the AArch64 target, the C
  conversions between them, and the generic lemmas on words that the component theories use.

  \<^item> \<open>size_t\<close>, \<open>uint64_t\<close> and pointers are \<open>64 word\<close>; \<open>uint32_t\<close>, \<open>uint16_t\<close> and
    \<open>uint8_t\<close> are words of their width; \<open>char\<close> is unsigned on this target, hence \<open>8 word\<close>.
  \<^item> A C \<open>int\<close> is an \<open>int\<close> between \<open>INT_MIN\<close> and \<open>INT_MAX\<close>. A wider value stored in an
    \<open>int\<close> goes through \<open>c_int\<close>, which keeps the low 32 bits; an \<open>int\<close> used where a
    \<open>size_t\<close> is expected goes through \<open>of_int\<close>, which is sign extension. Division and
    remainder of \<open>int\<close>s are \<open>sdiv\<close> and \<open>smod\<close>, which truncate towards zero as C does.
  \<^item> A call that never returns to its caller, because it spins or because C gives it no
    meaning, is \<open>None\<close> in an \<open>option\<close> result; error codes and NULL are ordinary values.
    Unsigned division by zero yields 0 both in HOL and in the target's \<open>udiv\<close>.
\<close>

section \<open>Machine types\<close>

type_synonym u8 = "8 word"
type_synonym u16 = "16 word"
type_synonym u32 = "32 word"
type_synonym u64 = "64 word"
type_synonym addr = "64 word"

abbreviation (input) NULL :: addr where
  "NULL \<equiv> 0"

abbreviation (input) INT_MAX :: int where
  "INT_MAX \<equiv> 2147483647"

abbreviation (input) INT_MIN :: int where
  "INT_MIN \<equiv> - 2147483648"

named_theorems c_conv \<open>conversions between the C integer types\<close>
named_theorems c_mem \<open>loads after stores\<close>

section \<open>Conversions\<close>

definition c_int :: "u64 \<Rightarrow> int" where
  "c_int w = sint (ucast w :: u32)"

definition is_int :: "int \<Rightarrow> bool" where
  "is_int i \<longleftrightarrow> INT_MIN \<le> i \<and> i \<le> INT_MAX"

definition int_res :: "int \<Rightarrow> int option" where
  \<comment> \<open>the result of a signed operation: overflow is undefined\<close>
  "int_res i = (if is_int i then Some i else None)"

lemma int_res_small [c_conv]: "0 \<le> i \<Longrightarrow> i < 2 ^ 31 \<Longrightarrow> int_res i = Some i"
  by (simp add: int_res_def is_int_def)

lemma sint_small32:
  assumes "unat v < 2 ^ 31"
  shows "sint (v :: u32) = int (unat v)"
proof -
  have "uint v = int (unat v)" by simp
  moreover have "int (unat v) < int (2 ^ 31)" using assms by (simp only: of_nat_less_iff)
  ultimately show ?thesis
    using signed_take_bit_int_eq_self [of 31 "uint v"] unsigned_greater_eq [of v, where ?'a = int]
    by (simp add: sint_uint)
qed

lemma sint_of_nat32: "n < 2 ^ 31 \<Longrightarrow> sint (of_nat n :: u32) = int n"
  by (simp add: signed_of_nat signed_take_bit_int_eq_self)

lemma unat_ucast32: "unat (ucast (w :: u64) :: u32) = unat w mod 2 ^ 32"
  by (simp add: unsigned_ucast_eq take_bit_eq_mod)

lemma c_int_small [c_conv]:
  assumes "unat w < 2 ^ 31"
  shows "c_int w = int (unat w)"
proof -
  have "unat (ucast w :: u32) = unat w"
    using assms by (simp add: unat_ucast32)
  with assms show ?thesis
    unfolding c_int_def by (metis sint_small32)
qed

lemma c_int_minus_1 [simp]: "c_int (- 1) = - 1"
proof -
  have "(ucast (- 1 :: u64) :: u32) = - 1"
    by (rule bit_word_eqI) (simp add: bit_unsigned_iff)
  then show ?thesis by (simp add: c_int_def)
qed

lemma c_int_range: "is_int (c_int w)"
  using sint_ge [of "ucast w :: u32"] sint_lt [of "ucast w :: u32"]
  by (simp add: is_int_def c_int_def)

lemma of_int_of_nat_word [c_conv]: "(of_int (int n) :: 'a::len word) = of_nat n"
  by simp

lemma sdiv_nonneg: "0 \<le> a \<Longrightarrow> 0 < b \<Longrightarrow> (a::int) sdiv b = a div b"
  by (cases "a = 0") (simp_all add: signed_divide_int_def)

lemma smod_nonneg: "0 \<le> a \<Longrightarrow> 0 < b \<Longrightarrow> (a::int) smod b = a mod b"
  by (cases "a = 0") (simp_all add: signed_modulo_int_def)

lemma ucast_32_64 [c_conv]:
  assumes "unat (w :: u64) < 2 ^ 32"
  shows "(ucast (ucast w :: u32) :: u64) = w"
proof -
  have "unat (ucast (v :: u32) :: u64) = unat v" for v
    using unsigned_less [of v, where ?'a = nat] by (simp add: unsigned_ucast_eq take_bit_nat_eq_self)
  with assms show ?thesis by (simp add: word_unat_eq_iff unat_ucast32)
qed

lemma int_sdiv_numeral [c_conv]: "int n sdiv numeral k = int (n div numeral k)"
  by (simp add: sdiv_nonneg zdiv_int)

lemma int_smod_numeral [c_conv]: "int n smod numeral k = int (n mod numeral k)"
  by (simp add: smod_nonneg zmod_int)

section \<open>Naturals inside 64 bits\<close>

lemma unat_of_nat64 [c_conv]: "n < 2 ^ 64 \<Longrightarrow> unat (of_nat n :: u64) = n"
  by (simp add: unat_of_nat take_bit_nat_eq_self)

lemma unat_add64 [c_conv]:
  "unat (a :: u64) + unat b < 2 ^ 64 \<Longrightarrow> unat (a + b) = unat a + unat b"
  by (simp add: unat_word_ariths)

lemma unat_mult64 [c_conv]:
  "unat (a :: u64) * unat b < 2 ^ 64 \<Longrightarrow> unat (a * b) = unat a * unat b"
  by (simp add: unat_word_ariths)

lemma unat_sub64 [c_conv]: "b \<le> a \<Longrightarrow> unat ((a :: u64) - b) = unat a - unat b"
  by (rule unat_sub)

lemma unat_div64 [c_conv]: "unat ((a :: u64) div b) = unat a div unat b"
  by (rule unat_div)

lemma unat_mod64 [c_conv]: "unat ((a :: u64) mod b) = unat a mod unat b"
  by (rule unat_mod)

lemma unat_less64: "unat (a :: u64) < 18446744073709551616"
  using unsigned_less [of a, where ?'a = nat] by simp

lemma unat_uminus64: "x \<noteq> 0 \<Longrightarrow> unat (- x :: u64) = 2 ^ 64 - unat x"
  using unat_sub_if' [of 0 x] by (simp add: unat_eq_0)

lemma unat_uminus_of_nat64:
  "0 < k \<Longrightarrow> k < 2 ^ 64 \<Longrightarrow> unat (- of_nat k :: u64) = 2 ^ 64 - k"
  using unat_uminus64 [of "of_nat k"] unat_of_nat64 [of k] by fastforce

lemma uint_less_int: "uint (w :: 'a::len word) < int n \<longleftrightarrow> unat w < n"
  by (simp only: uint_nat of_nat_less_iff)

lemma uint_pos: "w \<noteq> 0 \<Longrightarrow> 0 < uint (w :: 'a::len word)"
  using word_gt_0 [of w] by (simp add: word_less_def)

lemma unat_eq_iff: "(a :: 'a::len word) = b \<longleftrightarrow> unat a = unat b"
  by (simp add: word_unat_eq_iff)

section \<open>Rounding up\<close>

definition ceil_div :: "nat \<Rightarrow> nat \<Rightarrow> nat" where
  "ceil_div a b = a div b + (if a mod b = 0 then 0 else 1)"

lemma ceil_div_bounds:
  assumes "0 < b"
  shows "a \<le> b * ceil_div a b \<and> b * ceil_div a b < a + b"
proof -
  define q r where "q = a div b" and "r = a mod b"
  have "a = b * q + r" and "r < b" using assms by (simp_all add: q_def r_def)
  then show ?thesis
    unfolding ceil_div_def q_def [symmetric] r_def [symmetric] by (auto simp: algebra_simps)
qed

lemmas ceil_div_ge = ceil_div_bounds [THEN conjunct1]
lemmas ceil_div_less = ceil_div_bounds [THEN conjunct2]

lemma ceil_div_pos: "0 < b \<Longrightarrow> 0 < a \<Longrightarrow> 0 < ceil_div a b"
  using ceil_div_ge [of b a] by (cases "ceil_div a b") auto

lemma word_ceil_div:
  assumes "0 < unat (b :: u64)"
  shows "a div b + (if a mod b = 0 then 0 else 1) = of_nat (ceil_div (unat a) (unat b))"
proof -
  have "unat a div unat b < 2 ^ 64"
    by (rule le_less_trans [OF div_le_dividend]) (use unat_less64 [of a] in simp)
  then have "a div b = of_nat (unat a div unat b)"
    by (simp add: unat_eq_iff unat_of_nat64 unat_div64)
  moreover have "a mod b = 0 \<longleftrightarrow> unat a mod unat b = 0"
    by (simp add: unat_eq_iff c_conv)
  ultimately show ?thesis by (simp add: ceil_div_def)
qed

end
