(* ===== verification/C_Memory.thy ===== *)
theory C_Memory
  imports C_Prelude
begin

text \<open>
  The memory the kernel's pointers point into: a total map from 64-bit addresses to bytes.
  Multi-byte loads and stores are little-endian, as on the target. A region is a start
  address and a length; addresses wrap around as pointer arithmetic does, so that membership
  is stated on the distance from the start.
\<close>

type_synonym mem = "addr \<Rightarrow> u8"

section \<open>Regions\<close>

definition region :: "addr \<Rightarrow> nat \<Rightarrow> addr set" where
  "region a n = {p. unat (p - a) < n}"

definition same_outside :: "addr set \<Rightarrow> mem \<Rightarrow> mem \<Rightarrow> bool" where
  "same_outside R m m' \<longleftrightarrow> (\<forall>p. p \<notin> R \<longrightarrow> m' p = m p)"

lemma in_region [simp]: "p \<in> region a n \<longleftrightarrow> unat (p - a) < n"
  by (simp add: region_def)

lemma region_0 [simp]: "region a 0 = {}"
  by (simp add: region_def)

lemma region_mono: "n \<le> k \<Longrightarrow> region a n \<subseteq> region a k"
  by (simp add: region_def subset_iff)

lemma region_offset: "i < n \<Longrightarrow> n \<le> 2 ^ 64 \<Longrightarrow> a + of_nat i \<in> region a n"
  by (simp add: c_conv)

lemma region_offsetE:
  assumes "p \<in> region a n"
  obtains i where "i < n" and "p = a + of_nat i"
  using assms that [of "unat (p - a)"] by simp

lemma unat_pred: "(x :: addr) \<noteq> 0 \<Longrightarrow> unat (x - 1) = unat x - 1"
  by (simp add: unat_minus_one)

lemma region_Suc: "region a (Suc n) = insert a (region (a + 1) n)"
proof (rule set_eqI)
  fix p
  show "p \<in> region a (Suc n) \<longleftrightarrow> p \<in> insert a (region (a + 1) n)"
  proof (cases "p = a")
    case False
    then have "unat (p - (a + 1)) = unat (p - a) - 1" and "unat (p - a) \<noteq> 0"
      using unat_pred [of "p - a"] by (simp_all add: diff_diff_eq unat_eq_0)
    with False show ?thesis by auto
  qed simp
qed

lemma not_in_region_next: "n < 2 ^ 64 \<Longrightarrow> a \<notin> region (a + 1) n"
  using unat_uminus64 [of 1] by simp

lemma region_add:
  assumes "n + k \<le> 2 ^ 64"
  shows "region a (n + k) = region a n \<union> region (a + of_nat n) k"
proof (rule set_eqI)
  fix p
  have "unat (p - a) < n + k \<longleftrightarrow> unat (p - a) < n \<or> unat (p - a - of_nat n) < k"
  proof (cases "unat (p - a) < n")
    case False
    then have "unat (p - a - of_nat n) = unat (p - a) - n"
      using unat_less64 [of "p - a"] by (subst unat_sub) (auto simp: word_le_nat_alt c_conv)
    with False show ?thesis by auto
  qed simp
  then show "p \<in> region a (n + k) \<longleftrightarrow> p \<in> region a n \<union> region (a + of_nat n) k"
    by (simp add: diff_diff_eq)
qed

lemma region_offsets_apart:
  assumes "i + n \<le> j" and "j + k \<le> 2 ^ 64"
  shows "region ((a :: addr) + of_nat i) n \<inter> region (a + of_nat j) k = {}"
proof (rule equals0I)
  fix p
  assume "p \<in> region (a + of_nat i) n \<inter> region (a + of_nat j) k"
  then obtain x y where xy: "x < n" "p = a + of_nat i + of_nat x" "y < k" "p = a + of_nat j + of_nat y"
    by (meson IntE region_offsetE)
  then have "(of_nat (i + x) :: addr) = of_nat (j + y)" by (simp add: add.assoc)
  then have "unat (of_nat (i + x) :: addr) = unat (of_nat (j + y) :: addr)" by simp
  moreover have "i + x < 2 ^ 64" "j + y < 2 ^ 64" using assms xy by linarith+
  ultimately show False using assms xy by (simp only: unat_of_nat64)
qed

lemma region_sub: "i + n \<le> b \<Longrightarrow> b \<le> 2 ^ 64 \<Longrightarrow> region (a + of_nat i) n \<subseteq> region a b"
  using region_add [of i n a] region_mono [of "i + n" b a] by auto

definition fill :: "addr \<Rightarrow> nat \<Rightarrow> u8 \<Rightarrow> mem \<Rightarrow> mem" where
  \<comment> \<open>a region set to one byte\<close>
  "fill a n v m = (\<lambda>p. if p \<in> region a n then v else m p)"

lemma fold_fill:
  "n \<le> 2 ^ 64 \<Longrightarrow> fold (\<lambda>i m. m(a + of_nat i := v)) [0..<n] m = fill a n v m"
proof (induction n)
  case 0
  show ?case by (simp add: fill_def)
next
  case (Suc n)
  have "region a (Suc n) = insert (a + of_nat n) (region a n)"
    using region_add [of n 1 a] Suc.prems region_Suc [of "a + of_nat n" 0] by simp
  with Suc show ?case by (auto simp: fill_def simp del: in_region)
qed

lemma fill_outside: "same_outside (region a n) m (fill a n v m)"
  by (simp add: same_outside_def fill_def)

lemma region_unat:
  assumes "unat a + n \<le> 2 ^ 64"
  shows "p \<in> region a n \<longleftrightarrow> unat a \<le> unat p \<and> unat p < unat a + n"
  using assms by (auto simp: unat_sub_if' word_le_nat_alt)

lemma regions_apart:
  assumes "unat a + n \<le> 2 ^ 64" and "unat b + k \<le> 2 ^ 64"
    and "unat a + n \<le> unat b \<or> unat b + k \<le> unat a"
  shows "region a n \<inter> region b k = {}"
proof -
  have "p \<notin> region b k" if "p \<in> region a n" for p
    using that assms by (auto simp only: region_unat)
  then show ?thesis by blast
qed

lemma same_outside_refl [simp, intro]: "same_outside R m m"
  by (simp add: same_outside_def)

lemma same_outside_trans [trans]:
  "same_outside R m m' \<Longrightarrow> same_outside R m' m'' \<Longrightarrow> same_outside R m m''"
  by (simp add: same_outside_def)

lemma same_outside_mono: "same_outside R m m' \<Longrightarrow> R \<subseteq> S \<Longrightarrow> same_outside S m m'"
  by (auto simp: same_outside_def)

lemma same_outside_join: "same_outside A m m1 \<Longrightarrow> same_outside B m1 m2 \<Longrightarrow> same_outside (A \<union> B) m m2"
  by (rule same_outside_trans [OF same_outside_mono same_outside_mono]) auto

lemma same_outsideD: "same_outside R m m' \<Longrightarrow> p \<notin> R \<Longrightarrow> m' p = m p"
  by (simp add: same_outside_def)

lemma same_outside_fun_upd [intro]: "p \<in> R \<Longrightarrow> same_outside R m (m(p := v))"
  by (auto simp: same_outside_def)

section \<open>Little-endian loads and stores\<close>

primrec load_le :: "nat \<Rightarrow> mem \<Rightarrow> addr \<Rightarrow> 'a::len word" where
  "load_le 0 m a = 0"
| "load_le (Suc k) m a = ucast (m a) OR push_bit 8 (load_le k m (a + 1))"

definition store_le :: "nat \<Rightarrow> mem \<Rightarrow> addr \<Rightarrow> 'a::len word \<Rightarrow> mem" where
  "store_le k m a v =
     (\<lambda>p. if unat (p - a) < k then ucast (drop_bit (8 * unat (p - a)) v) else m p)"

abbreviation load16 :: "mem \<Rightarrow> addr \<Rightarrow> u16" where
  "load16 \<equiv> load_le 2"

abbreviation load32 :: "mem \<Rightarrow> addr \<Rightarrow> u32" where
  "load32 \<equiv> load_le 4"

abbreviation load64 :: "mem \<Rightarrow> addr \<Rightarrow> u64" where
  "load64 \<equiv> load_le 8"

abbreviation store64 :: "mem \<Rightarrow> addr \<Rightarrow> u64 \<Rightarrow> mem" where
  "store64 \<equiv> store_le 8"

lemma bit_load_le:
  "bit (load_le k m a :: 'a::len word) n \<longleftrightarrow>
     n < LENGTH('a) \<and> n < 8 * k \<and> bit (m (a + of_nat (n div 8))) (n mod 8)"
proof (induction k arbitrary: a n)
  case 0
  show ?case by simp
next
  case (Suc k)
  show ?case
  proof (cases "n < 8")
    case True
    then show ?thesis
      by (auto simp: bit_or_iff bit_push_bit_iff bit_unsigned_iff)
  next
    case False
    then have "n div 8 = Suc ((n - 8) div 8)" and "n mod 8 = (n - 8) mod 8"
      by (simp_all add: le_div_geq le_mod_geq)
    moreover have "\<not> bit (m a) n"
      using False bit_imp_le_length [of "m a" n] by auto
    ultimately show ?thesis
      using False Suc.IH [of "a + 1" "n - 8"]
      by (auto simp: bit_or_iff bit_push_bit_iff bit_unsigned_iff add.assoc)
  qed
qed

lemma load_store_le [c_mem]:
  assumes "LENGTH('a) = 8 * k" and "k < 2 ^ 64"
  shows "load_le k (store_le k m a v) a = (v :: 'a::len word)"
proof (rule bit_word_eqI)
  fix n
  assume n: "n < LENGTH('a)"
  then have "n div 8 < k" using assms(1) by (simp add: less_mult_imp_div_less mult.commute)
  then have "unat (of_nat (n div 8) :: u64) = n div 8"
    using assms(2) by (simp add: c_conv)
  with n assms \<open>n div 8 < k\<close> show "bit (load_le k (store_le k m a v) a :: 'a word) n = bit v n"
    by (auto simp: bit_load_le store_le_def bit_unsigned_iff bit_drop_bit_eq)
qed

lemma load_le_cong:
  assumes "\<And>i. i < k \<Longrightarrow> m' (a + of_nat i) = m (a + of_nat i)"
  shows "(load_le k m' a :: 'a::len word) = load_le k m a"
  using assms
proof (induction k arbitrary: a)
  case 0
  show ?case by simp
next
  case (Suc k)
  have "(load_le k m' (a + 1) :: 'a word) = load_le k m (a + 1)"
    by (rule Suc.IH) (use Suc.prems [of "Suc i" for i] in \<open>simp add: add.assoc\<close>)
  moreover have "m' a = m a" using Suc.prems [of 0] by simp
  ultimately show ?case by simp
qed

lemma load_le_same_outside:
  assumes "same_outside R m m'" and "region a k \<inter> R = {}" and "k \<le> 2 ^ 64"
  shows "load_le k m' a = load_le k m a"
proof (rule load_le_cong)
  fix i
  assume "i < k"
  then have "a + of_nat i \<in> region a k" using assms(3) by (rule region_offset)
  with assms(1,2) show "m' (a + of_nat i) = m (a + of_nat i)"
    by (blast intro: same_outsideD)
qed

lemma store_le_outside: "same_outside (region a k) m (store_le k m a v)"
  by (simp add: same_outside_def store_le_def)

lemma load_store_le_other [c_mem]:
  assumes "region b j \<inter> region a k = {}" and "j \<le> 2 ^ 64"
  shows "load_le j (store_le k m a v) b = load_le j m b"
  by (rule load_le_same_outside [OF store_le_outside assms])

lemma store_le_zero: "store_le k m a 0 = fill a k 0 m"
  by (rule ext) (simp add: store_le_def fill_def)

lemma load_le_zero:
  assumes "\<And>i. i < k \<Longrightarrow> m (a + of_nat i) = 0"
  shows "(load_le k m a :: 'a::len word) = 0"
  using load_le_cong [of k m a "\<lambda>_. 0"] assms by (auto intro!: bit_word_eqI simp: bit_load_le)

lemma fill_fill:
  assumes "n + k \<le> 2 ^ 64"
  shows "fill (a + of_nat n) k v (fill a n v m) = fill a (n + k) v m"
  using region_add [OF assms, of a] by (auto simp: fill_def simp del: in_region)

section \<open>Pointers into an array\<close>

lemma ptr_index:
  assumes "unat (a :: addr) + n < 2 ^ 64" and "i \<le> n" and "j \<le> n"
  shows "a + of_nat i < a + of_nat j \<longleftrightarrow> i < j"
    and "a + of_nat i \<le> a + of_nat j \<longleftrightarrow> i \<le> j"
    and "a + of_nat i = a + of_nat j \<longleftrightarrow> i = j"
proof -
  have "unat (a + of_nat k) = unat a + k" if "k \<le> n" for k
    using that assms(1) by (subst unat_add64) (simp_all add: unat_of_nat64)
  with assms(2,3) show "a + of_nat i < a + of_nat j \<longleftrightarrow> i < j"
    and "a + of_nat i \<le> a + of_nat j \<longleftrightarrow> i \<le> j"
    and "a + of_nat i = a + of_nat j \<longleftrightarrow> i = j"
    by (simp_all add: word_less_nat_alt word_le_nat_alt word_unat_eq_iff)
qed

lemma region_index:
  assumes "unat (a :: addr) + b < 2 ^ 64" and "i + n \<le> b" and "j \<le> b"
  shows "a + of_nat j \<in> region (a + of_nat i) n \<longleftrightarrow> i \<le> j \<and> j < i + n"
proof (cases "i \<le> j")
  case True
  then have "a + of_nat j - (a + of_nat i) = of_nat (j - i)" by simp
  then show ?thesis using True assms(1,3) by (auto simp: unat_of_nat64 simp del: of_nat_diff)
next
  case False
  then have "a + of_nat j - (a + of_nat i) = - of_nat (i - j)" by simp
  then have "unat (a + of_nat j - (a + of_nat i)) = 2 ^ 64 - (i - j)"
    using False assms(1,2) unat_uminus_of_nat64 [of "i - j"] by (simp del: of_nat_diff)
  then show ?thesis using False assms(1,2) by (simp only: in_region) auto
qed

section \<open>Fields of a structure\<close>

definition fld :: "addr \<Rightarrow> nat \<Rightarrow> addr" where
  \<comment> \<open>the address at a byte offset from the start of an object\<close>
  "fld p k = p + of_nat k"

lemma fld_0 [simp]: "fld p 0 = p"
  by (simp add: fld_def)

lemma fld_apart:
  assumes "i + n \<le> j \<or> j + k \<le> i" and "i + n \<le> 2 ^ 64" and "j + k \<le> 2 ^ 64"
  shows "region (fld p i) n \<inter> region (fld p j) k = {}"
  using region_offsets_apart [of i n j k p] region_offsets_apart [of j k i n p] assms
  unfolding fld_def by (auto simp: Int_commute simp del: in_region)

lemma fld_sub: "i + n \<le> b \<Longrightarrow> b \<le> 2 ^ 64 \<Longrightarrow> region (fld p i) n \<subseteq> region p b"
  unfolding fld_def by (rule region_sub)

lemma fld_byte: "i < n \<Longrightarrow> n \<le> 2 ^ 64 \<Longrightarrow> fld p i \<in> region p n"
  unfolding fld_def by (rule region_offset)

lemma fld_byte_apart:
  assumes "i < j \<or> j + k \<le> i" and "i < 2 ^ 64" and "j + k \<le> 2 ^ 64"
  shows "fld p i \<notin> region (fld p j) k"
proof -
  have "region (fld p i) 1 \<inter> region (fld p j) k = {}"
    by (rule fld_apart) (use assms in auto)
  moreover have "fld p i \<in> region (fld p i) 1" by simp
  ultimately show ?thesis by blast
qed

lemma load_store_fld:
  assumes "i + n \<le> j \<or> j + k \<le> i" and "i + n \<le> 2 ^ 64" and "j + k \<le> 2 ^ 64"
  shows "load_le n (store_le k m (fld p j) v) (fld p i) = load_le n m (fld p i)"
  by (rule load_store_le_other [OF fld_apart [OF assms]]) (use assms in simp)

lemma byte_store_fld:
  assumes "i < j \<or> j + k \<le> i" and "i < 2 ^ 64" and "j + k \<le> 2 ^ 64"
  shows "store_le k m (fld p j) v (fld p i) = m (fld p i)"
  by (rule same_outsideD [OF store_le_outside fld_byte_apart [OF assms]])

lemma load_store_array:
  assumes "b + 8 * i + 8 \<le> 2 ^ 64" and "b + 8 * j + 8 \<le> 2 ^ 64"
  shows "load64 (store64 m (fld p (b + 8 * i)) v) (fld p (b + 8 * j)) =
    (if j = i then v else load64 m (fld p (b + 8 * j)))"
proof (cases "j = i")
  case False
  then have "b + 8 * j + 8 \<le> b + 8 * i \<or> b + 8 * i + 8 \<le> b + 8 * j" by auto
  from load_store_fld [OF this assms(2,1)] False show ?thesis by simp
qed (simp add: load_store_le)

lemma store_fld_outside: "j + k \<le> b \<Longrightarrow> b \<le> 2 ^ 64 \<Longrightarrow> same_outside (region p b) m (store_le k m (fld p j) v)"
  by (rule same_outside_mono [OF store_le_outside fld_sub])

lemma load_frame:
  assumes "same_outside X m m'" and "region p l \<inter> X = {}" and "i + a \<le> l" and "l \<le> 2 ^ 64"
  shows "load_le a m' (fld p i) = load_le a m (fld p i)"
  by (rule load_le_same_outside [OF assms(1)]) (use fld_sub [OF assms(3,4), of p] assms(2-4) in auto)

abbreviation store32 :: "mem \<Rightarrow> addr \<Rightarrow> u32 \<Rightarrow> mem" where
  "store32 \<equiv> store_le 4"

lemma region_inside: "unat (a - b) + k \<le> n \<Longrightarrow> n \<le> 2 ^ 64 \<Longrightarrow> region (a :: addr) k \<subseteq> region b n"
  using region_sub [of "unat (a - b)" k n b] by simp

lemma disj_sub: "A \<subseteq> B \<Longrightarrow> B \<inter> C = {} \<Longrightarrow> A \<inter> C = {}"
  by blast

lemma store_inside: "same_outside X m m1 \<Longrightarrow> region a k \<subseteq> X \<Longrightarrow> same_outside X m (store_le k m1 a v)"
  by (rule same_outside_trans [OF _ same_outside_mono [OF store_le_outside]])

end
