(* ===== verification/C_String.thy ===== *)
theory C_String
  imports C_Memory
begin

text \<open>
  The kernel's C library: \<open>kernel/string.c\<close> and \<open>kernel/math.c\<close>, over the byte memory. A
  string is a pointer to bytes ended by a zero byte (\<open>str_at\<close>). The loops that look for the
  terminator may run forever on a memory without one, so they are partial functions whose
  theorems show that they return.
\<close>

section \<open>Definitions\<close>

definition min_int :: "int \<Rightarrow> int \<Rightarrow> int" where
  "min_int a b = (if a < b then a else b)"

partial_function (option) strcpy :: "mem \<Rightarrow> addr \<Rightarrow> addr \<Rightarrow> (mem \<times> addr) option" where
  "strcpy m dest src =
     (if m src \<noteq> 0 then strcpy (m(dest := m src)) (dest + 1) (src + 1)
      else Some (m(dest := 0), dest))"

partial_function (option) strncpy ::
  "mem \<Rightarrow> addr \<Rightarrow> addr \<Rightarrow> u64 \<Rightarrow> (mem \<times> addr) option" where
  "strncpy m dest src n =
     (if m src \<noteq> 0 \<and> n > 0 then strncpy (m(dest := m src)) (dest + 1) (src + 1) (n - 1)
      else Some (m(dest := 0), dest))"

partial_function (option) strset :: "mem \<Rightarrow> addr \<Rightarrow> u8 \<Rightarrow> mem option" where
  "strset m dest c = (if m dest \<noteq> 0 then strset (m(dest := c)) (dest + 1) c else Some m)"

partial_function (option) str_end :: "mem \<Rightarrow> addr \<Rightarrow> addr option" where
  \<comment> \<open>the loop that moves a pointer to the terminator\<close>
  "str_end m dest = (if m dest \<noteq> 0 then str_end m (dest + 1) else Some dest)"

definition strcat :: "mem \<Rightarrow> addr \<Rightarrow> addr \<Rightarrow> (mem \<times> addr) option" where
  "strcat m dest src = do { dest' \<leftarrow> str_end m dest; strcpy m dest' src }"

definition strncat :: "mem \<Rightarrow> addr \<Rightarrow> addr \<Rightarrow> u64 \<Rightarrow> (mem \<times> addr) option" where
  "strncat m dest src n = do { dest' \<leftarrow> str_end m dest; strncpy m dest' src n }"

partial_function (option) strcmp :: "mem \<Rightarrow> addr \<Rightarrow> addr \<Rightarrow> int option" where
  "strcmp m s1 s2 =
     (if m s1 \<noteq> 0 \<and> m s1 = m s2 then strcmp m (s1 + 1) (s2 + 1)
      else Some (uint (m s1) - uint (m s2)))"

partial_function (option) strlen_loop :: "mem \<Rightarrow> addr \<Rightarrow> int \<Rightarrow> int option" where
  "strlen_loop m str len =
     (if m str \<noteq> 0 then do { len' \<leftarrow> int_res (len + 1); strlen_loop m (str + 1) len' }
      else Some len)"

definition strlen :: "mem \<Rightarrow> addr \<Rightarrow> int option" where
  "strlen m str = strlen_loop m str 0"

definition memset_big_c :: "int \<Rightarrow> u64" where
  "memset_big_c c = fold (\<lambda>i big_c. push_bit 8 big_c OR of_int c) [0..<8] 0"

definition memset :: "mem \<Rightarrow> addr \<Rightarrow> int \<Rightarrow> u64 \<Rightarrow> (mem \<times> addr) option" where
  "memset m str c n =
     (let big_c = memset_big_c c;
          big_writes = c_int (n div 8)
      in do {
        big_bytes \<leftarrow> int_res (big_writes * 8);
        let small_writes = c_int (n - of_int big_bytes);
        let m1 = fold (\<lambda>i m. store64 m (str + 8 * of_nat i) big_c) [0..<nat big_writes] m;
        let small_pointer = str + of_int big_bytes;
        let m2 = fold (\<lambda>i m. m(small_pointer + of_nat i := of_int c)) [0..<nat small_writes] m1;
        Some (m2, str)
      })"

definition memset_reference :: "mem \<Rightarrow> addr \<Rightarrow> int \<Rightarrow> u64 \<Rightarrow> mem \<times> addr" where
  \<comment> \<open>the byte-wise version the source keeps in a comment\<close>
  "memset_reference m str c n =
     (fold (\<lambda>i m. m(str + of_nat i := of_int c)) [0..<unat n] m, str)"

function strrev_loop :: "mem \<Rightarrow> addr \<Rightarrow> int \<Rightarrow> int \<Rightarrow> mem" where
  "strrev_loop m str left right =
     (if left < right then
        (let swap = m (str + of_int left);
             m1 = m(str + of_int left := m (str + of_int right));
             m2 = m1(str + of_int right := swap)
         in strrev_loop m2 str (left + 1) (right - 1))
      else m)"
  by pat_completeness auto
termination
  by (relation "measure (\<lambda>(m, str, left, right). nat (right - left))") auto

declare strrev_loop.simps [simp del]

definition strrev :: "mem \<Rightarrow> addr \<Rightarrow> mem option" where
  "strrev m str = do { len \<leftarrow> strlen m str; Some (strrev_loop m str 0 (len - 1)) }"

definition memcpy :: "mem \<Rightarrow> addr \<Rightarrow> addr \<Rightarrow> u64 \<Rightarrow> (mem \<times> addr) option" where
  \<comment> \<open>the \<open>int\<close> counter overflows when \<open>n\<close> exceeds \<open>INT_MAX\<close>\<close>
  "memcpy m dest src n =
     (if unat n \<le> 2147483647
      then Some (fold (\<lambda>i m. m(dest + of_nat i := m (src + of_nat i))) [0..<unat n] m, dest)
      else None)"

section \<open>Strings in memory\<close>

definition bytes_at :: "mem \<Rightarrow> addr \<Rightarrow> u8 list \<Rightarrow> bool" where
  "bytes_at m p bs \<longleftrightarrow> (\<forall>i < length bs. m (p + of_nat i) = bs ! i)"

definition str_at :: "mem \<Rightarrow> addr \<Rightarrow> u8 list \<Rightarrow> bool" where
  "str_at m p s \<longleftrightarrow> 0 \<notin> set s \<and> bytes_at m p (s @ [0])"

lemma bytes_at_Nil [simp]: "bytes_at m p []"
  by (simp add: bytes_at_def)

lemma bytes_at_Cons [simp]: "bytes_at m p (b # bs) \<longleftrightarrow> m p = b \<and> bytes_at m (p + 1) bs"
  by (auto simp: bytes_at_def nth_Cons add.assoc less_Suc_eq_0_disj split: nat.splits)

lemma bytes_at_append:
  "bytes_at m p (bs @ cs) \<longleftrightarrow> bytes_at m p bs \<and> bytes_at m (p + of_nat (length bs)) cs"
  by (induction bs arbitrary: p) (auto simp: add.assoc)

lemma str_at_Nil [simp]: "str_at m p [] \<longleftrightarrow> m p = 0"
  by (simp add: str_at_def)

lemma str_at_Cons [simp]: "str_at m p (b # s) \<longleftrightarrow> b \<noteq> 0 \<and> m p = b \<and> str_at m (p + 1) s"
  by (auto simp: str_at_def)

lemma str_at_nth: "str_at m p s \<Longrightarrow> i < length s \<Longrightarrow> m (p + of_nat i) = s ! i"
  by (simp add: str_at_def bytes_at_append) (simp add: bytes_at_def)

lemma str_at_unique: "str_at m p s \<Longrightarrow> str_at m p t \<Longrightarrow> s = t"
proof (induction s arbitrary: p t)
  case Nil
  then show ?case by (cases t) auto
next
  case (Cons b s)
  then show ?case by (cases t) auto
qed

lemma bytes_at_same_outside:
  assumes "same_outside R m m'" and "region p (length bs) \<inter> R = {}" and "length bs \<le> 2 ^ 64"
  shows "bytes_at m' p bs = bytes_at m p bs"
proof -
  have "m' (p + of_nat i) = m (p + of_nat i)" if "i < length bs" for i
    using that assms region_offset [of i "length bs" p] by (blast intro: same_outsideD)
  then show ?thesis by (simp add: bytes_at_def)
qed

lemma str_at_same_outside:
  assumes "same_outside R m m'" and "region p (Suc (length s)) \<inter> R = {}" and "length s < 2 ^ 64"
  shows "str_at m' p s = str_at m p s"
  using bytes_at_same_outside [OF assms(1), of p "s @ [0]"] assms(2,3) by (simp add: str_at_def)

section \<open>Correctness\<close>

lemma str_end_str_at: "str_at m p s \<Longrightarrow> str_end m p = Some (p + of_nat (length s))"
  by (induction s arbitrary: p) (subst str_end.simps, force simp: add.assoc)+

lemma strlen_loop_str_at:
  "str_at m p s \<Longrightarrow> 0 \<le> l \<Longrightarrow> l + int (length s) < 2 ^ 31 \<Longrightarrow>
   strlen_loop m p l = Some (l + int (length s))"
proof (induction s arbitrary: p l)
  case Nil
  then show ?case by (subst strlen_loop.simps) simp
next
  case (Cons b s)
  then have "strlen_loop m (p + 1) (l + 1) = Some (l + 1 + int (length s))" by simp
  with Cons.prems show ?case by (subst strlen_loop.simps) (simp add: int_res_small)
qed

lemma strlen_str_at: "str_at m p s \<Longrightarrow> length s < 2 ^ 31 \<Longrightarrow> strlen m p = Some (int (length s))"
  unfolding strlen_def by (subst strlen_loop_str_at) auto

lemma strcpy_str_at:
  assumes "str_at m src s"
    and "region src (Suc (length s)) \<inter> region dest (Suc (length s)) = {}"
    and "length s < 2 ^ 64 - 1"
  shows "\<exists>m'. strcpy m dest src = Some (m', dest + of_nat (length s)) \<and> str_at m' dest s \<and>
     same_outside (region dest (Suc (length s))) m m'"
  using assms
proof (induction s arbitrary: m dest src)
  case Nil
  then show ?case by (subst strcpy.simps) (auto simp: region_Suc)
next
  case (Cons b s)
  let ?m = "m(dest := b)"
  have apart: "region (src + 1) (Suc (length s)) \<inter> region (dest + 1) (Suc (length s)) = {}"
    and dest: "region (src + 1) (Suc (length s)) \<inter> {dest} = {}"
    using Cons.prems(2) by (auto simp: region_Suc [of _ "Suc n" for n])
  have "str_at ?m (src + 1) s"
    using Cons.prems str_at_same_outside [OF same_outside_fun_upd [of dest "{dest}"] dest]
    by simp
  have len: "length s < 2 ^ 64 - 1" using Cons.prems(3) by simp
  from Cons.IH [OF \<open>str_at ?m (src + 1) s\<close> apart len] obtain m' where m':
    "strcpy ?m (dest + 1) (src + 1) = Some (m', dest + 1 + of_nat (length s))"
    "str_at m' (dest + 1) s"
    "same_outside (region (dest + 1) (Suc (length s))) ?m m'" by blast
  moreover have "m' dest = b"
    using same_outsideD [OF m'(3) not_in_region_next] Cons.prems(3) by simp
  moreover have "same_outside (region dest (Suc (length (b # s)))) m m'"
    using m'(3) by (auto simp: same_outside_def region_Suc [of _ "Suc n" for n])
  ultimately show ?case
    using Cons.prems(1) by (subst strcpy.simps) (auto simp: add.assoc)
qed

lemma strcat_str_at:
  assumes "str_at m dest d" and "str_at m src s"
    and "region src (Suc (length s)) \<inter> region dest (Suc (length d + length s)) = {}"
    and "length d + length s < 2 ^ 64 - 1"
  shows "\<exists>m'. strcat m dest src = Some (m', dest + of_nat (length d + length s)) \<and>
     str_at m' dest (d @ s) \<and>
     same_outside (region (dest + of_nat (length d)) (Suc (length s))) m m'"
proof -
  let ?e = "dest + of_nat (length d)"
  have sub: "region ?e (Suc (length s)) \<subseteq> region dest (Suc (length d + length s))"
  proof
    fix p
    assume "p \<in> region ?e (Suc (length s))"
    then obtain i where "i < Suc (length s)" "p = ?e + of_nat i" by (rule region_offsetE)
    then show "p \<in> region dest (Suc (length d + length s))"
      using region_offset [of "length d + i" "Suc (length d + length s)" dest] assms(4)
      by (simp add: add.assoc)
  qed
  obtain m' where m': "strcpy m ?e src = Some (m', ?e + of_nat (length s))"
    "str_at m' ?e s" "same_outside (region ?e (Suc (length s))) m m'"
    using strcpy_str_at [OF assms(2), of ?e] sub assms(3,4) by fastforce
  have "bytes_at m' dest d"
  proof -
    have "m' (dest + of_nat i) = m (dest + of_nat i)" if "i < length d" for i
    proof (rule same_outsideD [OF m'(3)])
      have "dest + of_nat i - ?e = - of_nat (length d - i)"
        using that by simp
      then show "dest + of_nat i \<notin> region ?e (Suc (length s))"
        using unat_uminus_of_nat64 [of "length d - i"] that assms(4)
        by (simp only: in_region)
    qed
    then show ?thesis
      using assms(1) by (auto simp: str_at_def bytes_at_append) (simp add: bytes_at_def)
  qed
  then have "str_at m' dest (d @ s)"
    using m'(2) assms(1,2) by (auto simp: str_at_def bytes_at_append add.assoc)
  with m' assms(1) show ?thesis
    by (simp add: strcat_def str_end_str_at add.assoc)
qed

lemma strncpy_str_at:
  assumes "str_at m src s"
    and "region src (Suc (length s)) \<inter> region dest (Suc (min (unat n) (length s))) = {}"
    and "length s < 2 ^ 64 - 1"
  shows "\<exists>m'. strncpy m dest src n = Some (m', dest + of_nat (min (unat n) (length s))) \<and>
     str_at m' dest (take (unat n) s) \<and>
     same_outside (region dest (Suc (min (unat n) (length s)))) m m'"
  using assms
proof (induction s arbitrary: m dest src n)
  case Nil
  then show ?case by (subst strncpy.simps) (auto simp: region_Suc)
next
  case (Cons b s)
  show ?case
  proof (cases "n = 0")
    case True
    then show ?thesis by (subst strncpy.simps) (auto simp: region_Suc)
  next
    case False
    let ?m = "m(dest := b)" and ?k = "min (unat (n - 1)) (length s)"
    have n: "unat n = Suc (unat (n - 1))" using unat_pred [OF False] False by (simp add: unat_gt_0)
    then have k: "min (unat n) (length (b # s)) = Suc ?k" by simp
    have apart: "region (src + 1) (Suc (length s)) \<inter> region (dest + 1) (Suc ?k) = {}"
      and dest: "region (src + 1) (Suc (length s)) \<inter> {dest} = {}"
      using Cons.prems(2) unfolding k by (auto simp: region_Suc [of _ "Suc n" for n])
    have "str_at ?m (src + 1) s"
      using Cons.prems str_at_same_outside [OF same_outside_fun_upd [of dest "{dest}"] dest] by simp
    have len: "length s < 2 ^ 64 - 1" using Cons.prems(3) by simp
    from Cons.IH [OF \<open>str_at ?m (src + 1) s\<close> apart len] obtain m' where m':
      "strncpy ?m (dest + 1) (src + 1) (n - 1) = Some (m', dest + 1 + of_nat ?k)"
      "str_at m' (dest + 1) (take (unat (n - 1)) s)"
      "same_outside (region (dest + 1) (Suc ?k)) ?m m'" by blast
    moreover have "m' dest = b"
      using same_outsideD [OF m'(3) not_in_region_next] Cons.prems(3) by simp
    moreover have "same_outside (region dest (Suc (Suc ?k))) m m'"
      using m'(3) by (auto simp: same_outside_def region_Suc [of _ "Suc n" for n])
    moreover have "strncpy m dest src n = strncpy ?m (dest + 1) (src + 1) (n - 1)"
      using Cons.prems(1) False by (subst strncpy.simps) (simp add: word_gt_0)
    moreover have "take (unat n) (b # s) = b # take (unat (n - 1)) s" unfolding n by simp
    ultimately show ?thesis
      unfolding k using Cons.prems(1) by (simp add: add.assoc)
  qed
qed

lemma char_order:
  "uint (a :: u8) = uint b \<longleftrightarrow> a = b" "uint a < uint b \<longleftrightarrow> a < b"
  by (simp_all only: word_uint_eq_iff word_less_def)

lemma strcmp_str_at:
  "str_at m p s \<Longrightarrow> str_at m q t \<Longrightarrow>
   \<exists>r. strcmp m p q = Some r \<and> (r = 0 \<longleftrightarrow> s = t) \<and>
     (r < 0 \<longleftrightarrow> (s, t) \<in> lexord {(a, b). a < b})"
proof (induction s arbitrary: p q t)
  case Nil
  then show ?case
    by (cases t) (subst strcmp.simps, auto simp: char_order word_gt_0 dest: uint_pos)+
next
  case (Cons a s)
  show ?case
  proof (cases t)
    case Nil
    with Cons.prems show ?thesis
      by (subst strcmp.simps) (auto dest: uint_pos)
  next
    case (Cons b t')
    with Cons.prems Cons.IH [of "p + 1" "q + 1" t'] show ?thesis
      by (subst strcmp.simps) (auto simp: char_order)
  qed
qed

section \<open>Filling and copying\<close>

lemma bit_byte_replicate:
  assumes "0 \<le> c" "c < 256" and "k \<le> 8"
  shows "bit (fold (\<lambda>i w. push_bit 8 w OR of_int c) [0..<k] (0 :: u64)) n \<longleftrightarrow>
    n < 8 * k \<and> bit c (n mod 8)"
  using assms(3)
proof (induction k arbitrary: n)
  case 0
  show ?case by simp
next
  case (Suc k)
  have c: "bit (of_int c :: u64) n \<longleftrightarrow> n < 8 \<and> bit c n"
  proof -
    have "take_bit 8 c = c" using assms by (simp add: take_bit_int_eq_self)
    then have "bit c n \<Longrightarrow> n < 8" by (metis bit_take_bit_iff)
    then show ?thesis by (auto simp: bit_word_of_int_iff)
  qed
  show ?case
  proof (cases "n < 8")
    case True
    with c show ?thesis by (auto simp: bit_or_iff bit_push_bit_iff)
  next
    case False
    with c Suc.IH [of "n - 8"] Suc.prems show ?thesis
      by (auto simp: bit_or_iff bit_push_bit_iff le_mod_geq)
  qed
qed

lemma memset_big_c_byte:
  assumes "0 \<le> c" "c < 256" and "d < 8"
  shows "ucast (drop_bit (8 * d) (memset_big_c c)) = (of_int c :: u8)"
proof (rule bit_word_eqI)
  fix n
  assume "n < LENGTH(8)"
  moreover from this assms(3) have "8 * d + n < 64" by simp
  ultimately show "bit (ucast (drop_bit (8 * d) (memset_big_c c)) :: u8) n = bit (of_int c :: u8) n"
    using bit_byte_replicate [OF assms(1,2), of 8 "8 * d + n"]
    by (simp add: memset_big_c_def bit_unsigned_iff bit_drop_bit_eq bit_word_of_int_iff)
qed

lemma memset_wide_fill:
  assumes "0 \<le> c" "c < 256" and "8 * k \<le> 2 ^ 64"
  shows "fold (\<lambda>i m. store64 m (a + 8 * of_nat i) (memset_big_c c)) [0..<k] m =
    fill a (8 * k) (of_int c) m"
  using assms(3)
proof (induction k)
  case 0
  show ?case by (simp add: fill_def)
next
  case (Suc k)
  have "region a (8 * Suc k) = region a (8 * k) \<union> region (a + 8 * of_nat k) 8"
    using region_add [of "8 * k" 8 a] Suc.prems by (simp add: add.commute)
  with Suc show ?case
    by (auto simp: fill_def store_le_def memset_big_c_byte [OF assms(1,2)] fun_eq_iff)
qed

lemma memset_fill:
  assumes "0 \<le> c" "c < 256" and "unat n < 2 ^ 31"
  shows "memset m str c n = Some (fill str (unat n) (of_int c) m, str)"
proof -
  let ?b = "unat n div 8" and ?r = "unat n mod 8"
  have big: "c_int (n div 8) = int ?b" using assms(3) by (simp add: c_conv)
  have bytes: "int_res (int ?b * 8) = Some (int (8 * ?b))" using assms(3) by (simp add: c_conv)
  have "n = of_nat (8 * ?b + ?r)"
    by (simp only: mult_div_mod_eq) simp
  then have "n - of_nat (8 * ?b) = of_nat ?r"
    by (metis add_diff_cancel_left' of_nat_add)
  then have small: "c_int (n - 8 * of_nat ?b) = int ?r"
    by (simp add: c_conv)
  have "fill (str + of_nat (8 * ?b)) ?r v (fill str (8 * ?b) v m) = fill str (unat n) v m" for v
    using region_add [of "8 * ?b" ?r str] unat_less64 [of n] by (auto simp: fill_def)
  moreover have "8 * ?b \<le> 2 ^ 64" using unat_less64 [of n] by simp
  ultimately show ?thesis
    by (simp add: memset_def big bytes small memset_wide_fill [OF assms(1,2)] fold_fill)
qed

lemma memcpy_copy:
  assumes "region src (unat n) \<inter> region dest (unat n) = {}" and "unat n < 2 ^ 31"
  shows "memcpy m dest src n =
    Some (\<lambda>p. if p \<in> region dest (unat n) then m (src + (p - dest)) else m p, dest)"
proof -
  have "fold (\<lambda>i m. m(dest + of_nat i := m (src + of_nat i))) [0..<k] m =
    (\<lambda>p. if p \<in> region dest k then m (src + (p - dest)) else m p)" if "k \<le> unat n" for k
    using that
  proof (induction k)
    case 0
    show ?case by simp
  next
    case (Suc k)
    have "src + of_nat k \<in> region src (unat n)"
      using Suc.prems assms(2) by (intro region_offset) auto
    then have "src + of_nat k \<notin> region dest (unat n)" using assms(1) by blast
    then have "src + of_nat k \<notin> region dest k" using Suc.prems by simp
    moreover have "region dest (Suc k) = insert (dest + of_nat k) (region dest k)"
      using region_add [of k 1 dest] Suc.prems assms(2) region_Suc [of "dest + of_nat k" 0] by simp
    ultimately show ?case using Suc by (auto simp del: in_region)
  qed
  then show ?thesis using assms(2) by (simp add: memcpy_def)
qed

section \<open>Reversing\<close>

definition mirror :: "int \<Rightarrow> int \<Rightarrow> int \<Rightarrow> int" where
  \<comment> \<open>the position that trades places with \<open>d\<close> in a reversal of \<open>l..r\<close>\<close>
  "mirror l r d = l + r - d"

lemma mirror_step: "mirror (l + 1) (r - 1) d = mirror l r d"
  by (simp add: mirror_def)

lemma mirror_mid: "l < d \<Longrightarrow> d < r \<Longrightarrow> l < mirror l r d \<and> mirror l r d < r"
  by (simp add: mirror_def)

lemma mirror_ends: "mirror l r l = r" "mirror l r r = l"
  by (simp_all add: mirror_def)

lemma strrev_loop_reverses:
  assumes "0 \<le> l" and "r < 2 ^ 64"
  shows "strrev_loop m str l r =
    (\<lambda>p. let d = uint (p - str) in
         if l \<le> d \<and> d \<le> r then m (str + of_int (mirror l r d)) else m p)"
  using assms
proof (induction m str l r rule: strrev_loop.induct)
  case (1 m str l r)
  have at: "p = str + of_int k \<longleftrightarrow> uint (p - str) = k" if "0 \<le> k" "k < 2 ^ 64" for p k
  proof -
    have "uint (of_int k :: addr) = k"
      using that by (simp add: uint_word_of_int_eq take_bit_int_eq_self)
    moreover have "p = str + of_int k \<longleftrightarrow> p - str = of_int k" by (auto simp: algebra_simps)
    ultimately show ?thesis by (simp only: word_uint_eq_iff)
  qed
  show ?case
  proof (cases "l < r")
    case False
    then have "strrev_loop m str l r = m" by (subst strrev_loop.simps) simp
    moreover have "m p = (let d = uint (p - str) in
        if l \<le> d \<and> d \<le> r then m (str + of_int (mirror l r d)) else m p)" for p
    proof (cases "l \<le> uint (p - str) \<and> uint (p - str) \<le> r")
      case inside: True
      with False have "mirror l r (uint (p - str)) = uint (p - str)" by (simp add: mirror_def)
      with inside show ?thesis unfolding Let_def by (simp only: if_True) simp
    qed (auto simp: Let_def)
    ultimately show ?thesis by (simp only: fun_eq_iff) blast
  next
    case True
    let ?m = "m(str + of_int l := m (str + of_int r), str + of_int r := m (str + of_int l))"
    have "strrev_loop m str l r = strrev_loop ?m str (l + 1) (r - 1)"
      using True by (subst strrev_loop.simps) (simp add: Let_def)
    also have "\<dots> = (\<lambda>p. let d = uint (p - str) in
         if l + 1 \<le> d \<and> d \<le> r - 1 then ?m (str + of_int (mirror (l + 1) (r - 1) d)) else ?m p)"
      using True "1.prems" by (intro "1.IH" [OF True refl refl refl]) auto
    finally have eq: "strrev_loop m str l r p = (let d = uint (p - str) in
         if l + 1 \<le> d \<and> d \<le> r - 1 then ?m (str + of_int (mirror l r d)) else ?m p)" for p
      by (simp only: mirror_step)
    have mid: "?m (str + of_int k) = m (str + of_int k)" if "l < k" "k < r" for k
    proof -
      have "uint (str + of_int k - str) = k"
        using that "1.prems" at [of k "str + of_int k"] by simp
      then show ?thesis
        using that "1.prems" at [of l "str + of_int k"] at [of r "str + of_int k"] by simp
    qed
    show ?thesis
    proof
      fix p
      show "strrev_loop m str l r p = (let d = uint (p - str) in
         if l \<le> d \<and> d \<le> r then m (str + of_int (mirror l r d)) else m p)"
        using eq [of p] mid [of "mirror l r (uint (p - str))"] True "1.prems" at [of l p] at [of r p]
          mirror_mid [of l "uint (p - str)" r]
        by (auto simp: Let_def mirror_ends split: if_splits)
    qed
  qed
qed

lemma strrev_str_at:
  assumes "str_at m p s" and "length s < 2 ^ 31"
  shows "\<exists>m'. strrev m p = Some m' \<and> str_at m' p (rev s) \<and> same_outside (region p (length s)) m m'"
proof -
  let ?m = "strrev_loop m p 0 (int (length s) - 1)"
  have eq: "?m q = (if unat (q - p) < length s then m (p + of_nat (length s - 1 - unat (q - p)))
      else m q)" for q
  proof -
    have rev: "?m = (\<lambda>q. let d = uint (q - p) in if 0 \<le> d \<and> d \<le> int (length s) - 1
        then m (p + of_int (mirror 0 (int (length s) - 1) d)) else m q)"
      by (rule strrev_loop_reverses) (use assms(2) in auto)
    have inside: "0 \<le> uint (q - p) \<and> uint (q - p) \<le> int (length s) - 1 \<longleftrightarrow> unat (q - p) < length s"
      using uint_less_int [of "q - p" "length s"] by auto
    show ?thesis
    proof (cases "unat (q - p) < length s")
      case True
      then have "mirror 0 (int (length s) - 1) (uint (q - p)) = int (length s - 1 - unat (q - p))"
        unfolding uint_nat mirror_def by linarith
      with True inside show ?thesis
        unfolding rev Let_def by (simp only: if_True of_int_of_nat_eq)
    qed (simp only: rev Let_def inside if_False)
  qed
  have "bytes_at ?m p (rev s)"
  proof -
    have "?m (p + of_nat i) = rev s ! i" if "i < length s" for i
    proof -
      have "unat (p + of_nat i - p) = i" using that assms(2) by (simp add: c_conv)
      then have "?m (p + of_nat i) = m (p + of_nat (length s - 1 - i))"
        using that eq [of "p + of_nat i"] by (simp only: if_True)
      also have "\<dots> = s ! (length s - 1 - i)"
        by (rule str_at_nth [OF assms(1)]) (use that in simp)
      finally show ?thesis using that by (simp only: rev_nth) simp
    qed
    then show ?thesis by (simp add: bytes_at_def)
  qed
  moreover have "?m (p + of_nat (length s)) = 0"
    using assms eq [of "p + of_nat (length s)"] by (simp add: c_conv str_at_def bytes_at_append)
  ultimately have "str_at ?m p (rev s)"
    using assms(1) by (simp add: str_at_def bytes_at_append)
  moreover have "same_outside (region p (length s)) m ?m"
    by (simp add: same_outside_def eq)
  ultimately show ?thesis
    using assms by (simp add: strrev_def strlen_str_at)
qed

section \<open>Properties\<close>

lemma bit_negative_byte:
  assumes "- 256 \<le> c" and "c < (0::int)" and "8 \<le> n"
  shows "bit c n"
proof -
  have "drop_bit 8 c = - 1" using assms by (simp add: drop_bit_eq_div)
  then have "bit (drop_bit 8 c) (n - 8)" by simp
  then show ?thesis using assms(3) by (simp add: bit_drop_bit_eq)
qed

lemma memset_big_c_negative:
  assumes "- 256 \<le> c" and "c < 0"
  shows "memset_big_c c = of_int c"
proof -
  have "push_bit 8 x OR of_int c = (of_int c :: u64)" for x
    by (rule bit_word_eqI) (use bit_negative_byte [OF assms] in \<open>auto simp: bit_simps\<close>)
  then show ?thesis by (simp add: memset_big_c_def upt_rec)
qed

lemma of_int_negative_bytes:
  assumes "- 256 \<le> c" and "c < 0"
  shows "(ucast (of_int c :: u64) :: u8) = of_int c" and "(ucast (drop_bit 8 (of_int c :: u64)) :: u8) = 0xFF"
proof -
  show "(ucast (of_int c :: u64) :: u8) = of_int c"
    by (rule bit_word_eqI) (simp add: bit_simps)
  have "(ucast (drop_bit 8 (of_int c :: u64)) :: u8) = - 1"
    by (rule bit_word_eqI) (simp add: bit_simps bit_negative_byte [OF assms])
  then show "(ucast (drop_bit 8 (of_int c :: u64)) :: u8) = 0xFF" by simp
qed

text \<open>
  C20. The word-wise \<open>memset\<close> writes what the byte-wise loop kept in a comment beside it writes,
  for every fill value of one byte and every length an \<open>int\<close> can count.
\<close>
theorem memset_equals_reference:
  assumes "0 \<le> c" "c < 256" and "unat n < 2 ^ 31"
  shows "memset m str c n = Some (memset_reference m str c n)"
  unfolding memset_fill [OF assms] memset_reference_def
  using fold_fill [of "unat n" str] unat_less64 [of n] by simp

theorem memset_equals_reference_witness:
  "memset (\<lambda>_. 0) 0x1003 65 19 = Some (memset_reference (\<lambda>_. 0) 0x1003 65 19)"
  by (rule memset_equals_reference) simp_all

text \<open>
  Outside that range the two differ: with a negative fill value whose low byte is not 0xFF
  the eight-byte stores are sign-extended, so bytes of the filled area become 0xFF where the
  byte-wise loop stores the low byte of the fill value.
\<close>
lemma memset_negative_differs:
  assumes "- 256 \<le> c" and "c < 0" and "(of_int c :: u8) \<noteq> 0xFF"
  shows "\<exists>m'. memset m str c 8 = Some (m', str) \<and> m' str = of_int c \<and> m' (str + 1) = 0xFF \<and>
    fst (memset_reference m str c 8) (str + 1) = of_int c \<and> m' \<noteq> fst (memset_reference m str c 8)"
proof -
  let ?m = "store64 m str (of_int c)"
  have "memset m str c 8 = Some (?m, str)"
    using memset_big_c_negative [OF assms(1,2)]
    by (simp add: memset_def c_int_small int_res_small)
  moreover have "?m str = of_int c" "?m (str + 1) = 0xFF"
    using of_int_negative_bytes [OF assms(1,2)] by (simp_all add: store_le_def)
  moreover have "fst (memset_reference m str c 8) (str + 1) = of_int c"
    unfolding memset_reference_def fst_conv by (subst fold_fill) (simp_all add: fill_def)
  ultimately show ?thesis using assms(3) by metis
qed

lemma memset_negative_differs_witness:
  "\<exists>m'. memset (\<lambda>_. 0) 0x1000 (- 2) 8 = Some (m', 0x1000) \<and>
    m' \<noteq> fst (memset_reference (\<lambda>_. 0) 0x1000 (- 2) 8)"
  using memset_negative_differs [where c = "- 2" and str = "0x1000"] by auto

text \<open>
  \<open>strcpy\<close> followed by \<open>strcat\<close> returns: the destination, which overlaps neither source,
  first holds the first string and then the concatenation, the returned pointers are those of
  the terminators, and no byte outside the concatenation and its terminator changes.
\<close>
lemma strcpy_then_strcat:
  assumes "str_at m p s" and "str_at m q t"
    and "region dest (Suc (length s + length t)) \<inter> region p (Suc (length s)) = {}"
    and "region dest (Suc (length s + length t)) \<inter> region q (Suc (length t)) = {}"
    and "length s + length t < 2 ^ 64 - 1"
  shows "\<exists>m1 m2. strcpy m dest p = Some (m1, dest + of_nat (length s)) \<and> str_at m1 dest s \<and>
    strcat m1 dest q = Some (m2, dest + of_nat (length s + length t)) \<and> str_at m2 dest (s @ t) \<and>
    same_outside (region dest (Suc (length s + length t))) m m2"
proof -
  let ?R = "region dest (Suc (length s + length t))"
  have sub: "region dest (Suc (length s)) \<subseteq> ?R" by (rule region_mono) simp
  obtain m1 where m1: "strcpy m dest p = Some (m1, dest + of_nat (length s))" "str_at m1 dest s"
    "same_outside (region dest (Suc (length s))) m m1"
    using strcpy_str_at [OF assms(1), of dest] assms(3,5) sub by force
  have "str_at m1 q t"
    using assms(2,4,5) sub by (subst str_at_same_outside [OF m1(3)]) auto
  then obtain m2 where m2: "strcat m1 dest q = Some (m2, dest + of_nat (length s + length t))" "str_at m2 dest (s @ t)"
    "same_outside (region (dest + of_nat (length s)) (Suc (length t))) m1 m2"
    using strcat_str_at [OF m1(2), of q t] assms(4,5) by blast
  have "region (dest + of_nat (length s)) (Suc (length t)) \<subseteq> ?R"
    using region_add [of "length s" "Suc (length t)" dest] assms(5) by auto
  then have "same_outside ?R m m2"
    using m1(3) m2(3) sub by (blast intro: same_outside_trans same_outside_mono)
  with m1 m2 show ?thesis by blast
qed

lemma strcpy_then_strcat_witness:
  "\<exists>m1 m2. strcpy ((\<lambda>_. 0)(0x1000 := 104, 0x1001 := 105, 0x1010 := 33)) 0x2000 0x1000 = Some (m1, 0x2002) \<and>
    strcat m1 0x2000 0x1010 = Some (m2, 0x2003) \<and> str_at m2 0x2000 [104, 105, 33]"
proof -
  let ?m = "(\<lambda>_. 0 :: u8)(0x1000 := 104, 0x1001 := 105, 0x1010 := 33) :: mem"
  have "region 0x2000 (Suc (Suc (Suc (Suc 0)))) \<inter> region 0x1000 (Suc (Suc (Suc 0))) = ({} :: addr set)"
    "region 0x2000 (Suc (Suc (Suc (Suc 0)))) \<inter> region 0x1010 (Suc (Suc 0)) = ({} :: addr set)"
    by (rule regions_apart; simp)+
  then show ?thesis
    using strcpy_then_strcat [of ?m "0x1000" "[104, 105]" "0x1010" "[33]" "0x2000"] by auto
qed

text \<open>
  \<open>strncpy\<close> with a limit below the length of the source copies that many characters and
  then writes a terminator after them: one byte more than the limit is written.
\<close>
lemma strncpy_overruns:
  assumes "str_at m src s" and "unat n \<le> length s" and "length s < 2 ^ 64 - 1"
    and "region src (Suc (length s)) \<inter> region dest (Suc (unat n)) = {}"
  shows "\<exists>m'. strncpy m dest src n = Some (m', dest + n) \<and> str_at m' dest (take (unat n) s) \<and>
    m' (dest + n) = 0 \<and> same_outside (region dest (Suc (unat n))) m m'"
proof -
  have k: "min (unat n) (length s) = unat n" using assms(2) by simp
  obtain m' where m': "strncpy m dest src n = Some (m', dest + of_nat (unat n))"
     "str_at m' dest (take (unat n) s)" "same_outside (region dest (Suc (unat n))) m m'"
    using strncpy_str_at [OF assms(1), of dest n] assms(3,4) unfolding k by blast
  moreover have "m' (dest + n) = 0"
    using m'(2) assms(2) by (auto simp: str_at_def bytes_at_append min_absorb2)
  ultimately show ?thesis by auto
qed

lemma strncpy_overruns_witness:
  "\<exists>m'. strncpy ((\<lambda>_. 0)(0x1000 := 104, 0x1001 := 105)) 0x2000 0x1000 1 = Some (m', 0x2001) \<and>
    str_at m' 0x2000 [104] \<and> m' 0x2001 = 0"
proof -
  let ?m = "(\<lambda>_. 0 :: u8)(0x1000 := 104, 0x1001 := 105) :: mem"
  have "region 0x1000 (Suc (Suc (Suc 0))) \<inter> region 0x2000 (Suc (Suc 0)) = ({} :: addr set)"
    by (rule regions_apart; simp)
  then show ?thesis using strncpy_overruns [of ?m "0x1000" "[104, 105]" 1 "0x2000"] by auto
qed

text \<open>
  C21. \<open>strcmp\<close> returns on any two strings: zero exactly when they are equal, negative exactly
  when the first precedes the second in the lexicographic order of the bytes.
\<close>
theorem strcmp_lexicographic:
  assumes "str_at m p s" and "str_at m q t"
  shows "\<exists>r. strcmp m p q = Some r \<and> (r = 0 \<longleftrightarrow> s = t) \<and> (r < 0 \<longleftrightarrow> (s, t) \<in> lexord {(a, b). a < b})"
  using assms by (rule strcmp_str_at)

theorem strcmp_lexicographic_witness:
  "\<exists>r. strcmp ((\<lambda>_. 0)(0x1000 := 97, 0x1001 := 98, 0x2000 := 97, 0x2001 := 99)) 0x1000 0x2000 = Some r \<and> r < 0"
  using strcmp_lexicographic [of "(\<lambda>_. 0)(0x1000 := 97, 0x1001 := 98, 0x2000 := 97, 0x2001 := 99)"
      "0x1000" "[97, 98]" "0x2000" "[97, 99]"] by auto

text \<open>
  \<open>strrev\<close> reverses a string in place, and reversing it again gives back exactly the memory
  it started from.
\<close>
lemma strrev_involution:
  assumes "str_at m p s" and "length s < 2 ^ 31"
  shows "\<exists>m'. strrev m p = Some m' \<and> str_at m' p (rev s) \<and> strrev m' p = Some m"
proof -
  obtain m' where m': "strrev m p = Some m'" "str_at m' p (rev s)" "same_outside (region p (length s)) m m'"
    using strrev_str_at [OF assms] by blast
  obtain m2 where m2: "strrev m' p = Some m2" "str_at m2 p s" "same_outside (region p (length s)) m' m2"
    using strrev_str_at [OF m'(2)] assms(2) by auto
  have "m2 q = m q" for q
  proof (cases "q \<in> region p (length s)")
    case True
    then obtain i where "i < length s" "q = p + of_nat i" by (rule region_offsetE)
    then show ?thesis using str_at_nth [OF assms(1)] str_at_nth [OF m2(2)] by simp
  next
    case False
    then show ?thesis using m'(3) m2(3) by (simp add: same_outsideD)
  qed
  then have "m2 = m" by (rule ext)
  with m' m2 show ?thesis by blast
qed

lemma strrev_involution_witness:
  "\<exists>m'. strrev ((\<lambda>_. 0)(0x1000 := 97, 0x1001 := 98, 0x1002 := 99)) 0x1000 = Some m' \<and>
    str_at m' 0x1000 [99, 98, 97] \<and>
    strrev m' 0x1000 = Some ((\<lambda>_. 0)(0x1000 := 97, 0x1001 := 98, 0x1002 := 99))"
  using strrev_involution [of "(\<lambda>_. 0)(0x1000 := 97, 0x1001 := 98, 0x1002 := 99)" "0x1000" "[97, 98, 99]"] by simp

end
