(* ===== verification/Alloc_Interface.thy ===== *)
theory Alloc_Interface
  imports C_Memory
begin

text \<open>
  What the kernel expects of an allocator of equal-sized objects: the page tables, the jobs,
  the inodes and the user pages are all taken from such a pool. \<open>slots\<close> are the addresses the
  pool can hand out, \<open>live\<close> those in use, \<open>book\<close> the bytes the pool keeps its own records in.
  The lemmas of the locale are proved once for every client; the interpretation on the slab
  allocator is in \<open>Slab_Alloc\<close>.
\<close>

locale object_pool =
  fixes alloc :: "mem \<Rightarrow> 's \<Rightarrow> (mem \<times> addr) option"
    and release :: "mem \<Rightarrow> 's \<Rightarrow> addr \<Rightarrow> (mem \<times> int) option"
    and valid :: "'s \<Rightarrow> bool"
    and slots :: "'s \<Rightarrow> addr set"
    and live :: "mem \<Rightarrow> 's \<Rightarrow> addr set"
    and book :: "'s \<Rightarrow> addr set"
    and obj_bytes :: "'s \<Rightarrow> nat"
  assumes finite_slots: "valid s \<Longrightarrow> finite (slots s)"
    and live_slots: "valid s \<Longrightarrow> live m s \<subseteq> slots s"
    and slots_not_NULL: "valid s \<Longrightarrow> NULL \<notin> slots s"
    and alloc_fresh: "valid s \<Longrightarrow> live m s \<noteq> slots s \<Longrightarrow>
      \<exists>m' p. alloc m s = Some (m', p) \<and> p \<in> slots s - live m s \<and>
        live m' s = insert p (live m s) \<and> same_outside (book s) m m'"
    and release_live: "valid s \<Longrightarrow> p \<in> live m s \<Longrightarrow>
      \<exists>m'. release m s p = Some (m', 1) \<and> live m' s = live m s - {p} \<and> same_outside (book s) m m'"
    and release_dead: "valid s \<Longrightarrow> p \<in> slots s - live m s \<Longrightarrow> release m s p = Some (m, 0)"
    and live_frame: "valid s \<Longrightarrow> same_outside R m m' \<Longrightarrow> R \<inter> book s = {} \<Longrightarrow> live m' s = live m s"
    and objects_apart: "valid s \<Longrightarrow> p \<in> slots s \<Longrightarrow> q \<in> slots s \<Longrightarrow> p \<noteq> q \<Longrightarrow>
      region p (obj_bytes s) \<inter> region q (obj_bytes s) = {}"
    and objects_off_book: "valid s \<Longrightarrow> p \<in> slots s \<Longrightarrow> region p (obj_bytes s) \<inter> book s = {}"

primrec alloc_list ::
  "(mem \<Rightarrow> 's \<Rightarrow> (mem \<times> addr) option) \<Rightarrow> nat \<Rightarrow> mem \<Rightarrow> 's \<Rightarrow> (mem \<times> addr list) option" where
  \<comment> \<open>\<open>n\<close> allocations in a row\<close>
  "alloc_list alloc 0 m s = Some (m, [])"
| "alloc_list alloc (Suc n) m s = do {
     (m1, p) \<leftarrow> alloc m s;
     (m2, ps) \<leftarrow> alloc_list alloc n m1 s;
     Some (m2, p # ps)
   }"

context object_pool
begin

lemma alloc_someE:
  assumes "valid s" and "live m s \<noteq> slots s"
  obtains m' p where "alloc m s = Some (m', p)" and "p \<in> slots s" and "p \<notin> live m s"
    and "p \<noteq> NULL" and "live m' s = insert p (live m s)" and "same_outside (book s) m m'"
  using alloc_fresh [OF assms] slots_not_NULL [OF assms(1)] by blast

lemma finite_live: "valid s \<Longrightarrow> finite (live m s)"
  by (rule finite_subset [OF live_slots finite_slots])

lemma object_write:
  assumes "valid s" and "p \<in> slots s" and "same_outside (region p (obj_bytes s)) m m'"
  shows "live m' s = live m s"
  using live_frame [OF assms(1,3) objects_off_book [OF assms(1,2)]] .

lemma alloc_keeps_objects:
  assumes "valid s" and "same_outside (book s) m m'" and "p \<in> slots s"
    and "q \<in> region p (obj_bytes s)"
  shows "m' q = m q"
  using assms objects_off_book [OF assms(1,3)] by (blast intro: same_outsideD)

lemma alloc_release:
  assumes "valid s" and "alloc m s = Some (m', p)" and "live m s \<noteq> slots s"
  shows "\<exists>m''. release m' s p = Some (m'', 1) \<and> live m'' s = live m s"
proof -
  from assms(1,3) have *: "p \<notin> live m s" "live m' s = insert p (live m s)"
    using assms(2) by (auto elim: alloc_someE)
  then obtain m'' where "release m' s p = Some (m'', 1)" "live m'' s = live m' s - {p}"
    using release_live [OF assms(1), of p m'] by auto
  with * show ?thesis by auto
qed

lemma double_release:
  assumes "valid s" and "p \<in> live m s" and "release m s p = Some (m', r)"
  shows "release m' s p = Some (m', 0)"
proof -
  have "live m' s = live m s - {p}" using release_live [OF assms(1,2)] assms(3) by auto
  then show ?thesis
    using assms(1,2) live_slots [OF assms(1), of m] by (intro release_dead) auto
qed

lemma alloc_list_distinct:
  assumes "valid s" and "n \<le> card (slots s - live m s)"
  shows "\<exists>m' ps. alloc_list alloc n m s = Some (m', ps) \<and> length ps = n \<and> distinct ps \<and>
    set ps \<subseteq> slots s - live m s \<and> live m' s = live m s \<union> set ps \<and> same_outside (book s) m m'"
  using assms(2)
proof (induction n arbitrary: m)
  case 0
  show ?case by simp
next
  case (Suc n)
  then have "live m s \<noteq> slots s" by auto
  with assms(1) obtain m1 p where p: "alloc m s = Some (m1, p)" "p \<in> slots s" "p \<notin> live m s"
    "live m1 s = insert p (live m s)" "same_outside (book s) m m1"
    by (rule alloc_someE)
  have "card (slots s - live m1 s) = card (slots s - live m s) - 1"
  proof -
    have "slots s - live m1 s = (slots s - live m s) - {p}" using p(4) by blast
    then show ?thesis using p(2,3) by (simp add: card_Diff_singleton)
  qed
  then have "n \<le> card (slots s - live m1 s)" using Suc.prems by simp
  from Suc.IH [OF this] obtain m2 ps where ps: "alloc_list alloc n m1 s = Some (m2, ps)"
    "length ps = n" "distinct ps" "set ps \<subseteq> slots s - live m1 s"
    "live m2 s = live m1 s \<union> set ps" "same_outside (book s) m1 m2" by blast
  have "p \<notin> set ps" using ps(4) p(4) by blast
  then show ?case
    using p ps by (auto intro: same_outside_trans)
qed

end

text \<open>
  The interface of \<open>kalloc\<close> and \<open>kfree\<close>: allocations of any size, known to the client as
  extents, that is an address with the number of bytes that are the client's to use. The
  state of the allocator is a memory and a handle, and \<open>r\<close> is the specification state that
  the invariant relates them to.
\<close>

locale byte_heap =
  fixes alloc :: "mem \<Rightarrow> 'h \<Rightarrow> u64 \<Rightarrow> (mem \<times> 'h \<times> addr) option"
    and free :: "mem \<Rightarrow> 'h \<Rightarrow> addr \<Rightarrow> (mem \<times> 'h) option"
    and inv :: "mem \<Rightarrow> 'h \<Rightarrow> 'r \<Rightarrow> bool"
    and extents :: "'h \<Rightarrow> 'r \<Rightarrow> (addr \<times> nat) set"
  assumes extents_apart: "inv m h r \<Longrightarrow> (p, l) \<in> extents h r \<Longrightarrow> (q, k) \<in> extents h r \<Longrightarrow>
      (p, l) \<noteq> (q, k) \<Longrightarrow> region p l \<inter> region q k = {}"
    and alloc_zero: "inv m h r \<Longrightarrow> alloc m h 0 = Some (m, h, NULL)"
    and alloc_cases: "inv m h r \<Longrightarrow> alloc m h sz = Some (m, h, NULL) \<or>
      (\<exists>m' h' r' p l. alloc m h sz = Some (m', h', p) \<and> p \<noteq> NULL \<and> unat sz \<le> l \<and> inv m' h' r' \<and>
        extents h' r' = insert (p, l) (extents h r) \<and> (p, l) \<notin> extents h r)"
    and free_extent: "inv m h r \<Longrightarrow> (p, l) \<in> extents h r \<Longrightarrow>
      \<exists>m' h' r'. free m h p = Some (m', h') \<and> inv m' h' r' \<and> extents h' r' = extents h r - {(p, l)}"

context byte_heap
begin

lemma alloc_returns: "inv m h r \<Longrightarrow> \<exists>m' h' p. alloc m h sz = Some (m', h', p)"
  using alloc_cases by blast

lemma alloc_not_NULL:
  assumes "inv m h r" and "alloc m h sz = Some (m', h', p)" and "p \<noteq> NULL"
  obtains r' l where "unat sz \<le> l" "inv m' h' r'" "extents h' r' = insert (p, l) (extents h r)"
    "(p, l) \<notin> extents h r"
  using alloc_cases [OF assms(1), of sz] assms(2,3) by auto

lemma alloc_apart:
  assumes "inv m h r" and "alloc m h sz = Some (m', h', p)" and "p \<noteq> NULL" and "(q, k) \<in> extents h r"
  shows "region p (unat sz) \<inter> region q k = {}"
proof -
  obtain r' l where l: "unat sz \<le> l" "inv m' h' r'" "extents h' r' = insert (p, l) (extents h r)"
    "(p, l) \<notin> extents h r"
    using assms(1-3) by (rule alloc_not_NULL)
  have "region p l \<inter> region q k = {}"
    by (rule extents_apart [OF l(2)]) (use l(3,4) assms(4) in auto)
  then show ?thesis using region_mono [OF l(1), of p] by blast
qed

lemma two_allocations_apart:
  assumes "inv m h r" and "alloc m h sz = Some (m1, h1, p)" "p \<noteq> NULL"
    and "alloc m1 h1 sz' = Some (m2, h2, q)" "q \<noteq> NULL"
  shows "region p (unat sz) \<inter> region q (unat sz') = {}"
proof -
  obtain r' l where l: "unat sz \<le> l" "inv m1 h1 r'" "extents h1 r' = insert (p, l) (extents h r)"
    using assms(1-3) by (rule alloc_not_NULL)
  then have "region q (unat sz') \<inter> region p l = {}" using alloc_apart [OF l(2) assms(4,5)] by blast
  then show ?thesis using region_mono [OF l(1), of p] by blast
qed

lemma alloc_then_free:
  assumes "inv m h r" and "alloc m h sz = Some (m1, h1, p)" "p \<noteq> NULL"
  shows "\<exists>m2 h2 r2. free m1 h1 p = Some (m2, h2) \<and> inv m2 h2 r2 \<and> extents h2 r2 = extents h r"
proof -
  obtain r' l where l: "inv m1 h1 r'" "extents h1 r' = insert (p, l) (extents h r)" "(p, l) \<notin> extents h r"
    using assms by (rule alloc_not_NULL)
  then show ?thesis using free_extent [OF l(1), of p l] by auto
qed

end

end
