(* ===== verification/Slab_Alloc.thy ===== *)
theory Slab_Alloc
  imports C_String Alloc_Interface
begin

text \<open>
  The slab allocator, \<open>kernel/alloc/slab.c\<close>: a zone of \<open>max_store\<close> objects of one size behind
  a header that holds one bit per object, 0 for a free slot. The header lives in the byte
  memory, so every operation takes the memory and returns the new one. \<open>wf_slab\<close> is what
  \<open>slab_create\<close> establishes for a zone that fits the address space; \<open>slab_used\<close> is the set of
  slots in use that the header stands for, and the operations are proved against it.
\<close>

section \<open>Definitions\<close>

record slab =
  starting_address :: addr
  max_store :: u64
  object_size :: u64
  header_size :: u64

definition slab_align_to_object :: "u64 \<Rightarrow> u64 \<Rightarrow> int" where
  "slab_align_to_object obj_size sz =
     (let count = c_int (sz div obj_size + (if sz mod obj_size = 0 then 0 else 1))
      in c_int (obj_size * of_int count))"

definition slab_get_header_size :: "u64 \<Rightarrow> u64 \<Rightarrow> u64" where
  \<comment> \<open>\<open>quot + 1\<close> stays an \<open>int\<close> below 2^34 objects; every well-formed zone has fewer\<close>
  "slab_get_header_size obj_size max_objs =
     (let offset = c_int (max_objs mod 8);
          quot = c_int (max_objs div 8);
          header_bytes = (if offset = 0 then quot else quot + 1)
      in of_int (slab_align_to_object obj_size (of_int header_bytes)))"

definition slab_get_needed_size :: "u64 \<Rightarrow> u64 \<Rightarrow> u64" where
  "slab_get_needed_size obj_size max_objs =
     (let header = slab_get_header_size obj_size max_objs;
          objects = obj_size * max_objs
      in header + objects)"

definition slab_header_reset_value :: int where
  "slab_header_reset_value = 0"

definition slab_create :: "mem \<Rightarrow> u64 \<Rightarrow> u64 \<Rightarrow> addr \<Rightarrow> (mem \<times> slab) option" where
  "slab_create m obj_size max_objs start =
     (let hdr_size = slab_get_header_size obj_size max_objs;
          slab = \<lparr>starting_address = start, max_store = max_objs,
                  object_size = obj_size, header_size = hdr_size\<rparr>;
          default_val = slab_header_reset_value
      in do { (m', _) \<leftarrow> memset m start default_val hdr_size; Some (m', slab) })"

definition slab_get_header_bit :: "mem \<Rightarrow> slab \<Rightarrow> int \<Rightarrow> int option" where
  \<comment> \<open>C does not define a shift by a negative amount: \<open>None\<close> here. What the AArch64 instruction makes of it
    is \<open>slab_get_header_bit_a64\<close> below\<close>
  "slab_get_header_bit m slab n =
     (let header_byte = starting_address slab; offset = n smod 8; quot = n sdiv 8
      in if offset < 0 then None
         else Some (if m (header_byte + of_int quot) AND push_bit (nat offset) 1 \<noteq> 0 then 1 else 0))"

definition slab_set_header_bit :: "mem \<Rightarrow> slab \<Rightarrow> int \<Rightarrow> int \<Rightarrow> mem option" where
  "slab_set_header_bit m slab n v =
     (let header_byte = starting_address slab; offset = n smod 8; quot = n sdiv 8
      in if offset < 0 then None
         else
           let p = header_byte + of_int quot;
               m1 = m(p := m p AND NOT (push_bit (nat offset) 1))
           in Some (m1(p := m1 p OR push_bit (nat offset) (of_int v))))"

lemma slab_get_header_bit_minus_1: "slab_get_header_bit m slab (c_int (- 1)) = None"
  by (simp add: slab_get_header_bit_def signed_modulo_int_def)

function slab_next_slot_loop :: "mem \<Rightarrow> slab \<Rightarrow> u64 \<Rightarrow> u64 option" where
  \<comment> \<open>\<open>count\<close> is unsigned, so the loop condition \<open>count >= 0\<close> never fails\<close>
  "slab_next_slot_loop m slab count =
     (case slab_get_header_bit m slab (c_int count) of
        None \<Rightarrow> None
      | Some b \<Rightarrow> if b = 0 then Some count else slab_next_slot_loop m slab (count - 1))"
  by pat_completeness auto
termination
proof (relation "measure (\<lambda>(m, slab, count). unat (count + 1))")
  fix m slab count b
  assume "slab_get_header_bit m slab (c_int count) = Some b"
  then have "count \<noteq> - 1" using slab_get_header_bit_minus_1 by auto
  then have "count + 1 \<noteq> 0" by (metis add_eq_0_iff2)
  then show "((m, slab, count - 1), (m, slab, count)) \<in> measure (\<lambda>(m, slab, count). unat (count + 1))"
    using unat_pred [of "count + 1"] by (simp add: unat_gt_0)
qed simp

declare slab_next_slot_loop.simps [simp del]

definition slab_get_next_slot :: "mem \<Rightarrow> slab \<Rightarrow> u64 option" where
  "slab_get_next_slot m slab = slab_next_slot_loop m slab (max_store slab - 1)"

definition slab_allocate :: "mem \<Rightarrow> slab \<Rightarrow> (mem \<times> addr) option" where
  "slab_allocate m slab = do {
     next \<leftarrow> slab_get_next_slot m slab;
     let slot = c_int next;
     if slot = - 1 then Some (m, NULL)
     else do {
       m' \<leftarrow> slab_set_header_bit m slab slot 1;
       let slot_position = (ucast (header_size slab) :: u32);
       let slot_position = (ucast (ucast slot_position + object_size slab * of_int slot) :: u32);
       Some (m', starting_address slab + ucast slot_position)
     }
   }"

text \<open>
  The shift by \<open>- 1\<close> that ends the search of a full slab is not defined by C, but the build for
  AArch64 without optimisation compiles it to \<open>lsl\<close> on a 32-bit register, which takes the amount modulo 32.
  The \<open>_a64\<close> definitions are the same three functions with that shift.
\<close>

definition slab_get_header_bit_a64 :: "mem \<Rightarrow> slab \<Rightarrow> int \<Rightarrow> int" where
  \<comment> \<open>the byte is promoted to a 32-bit int before the mask is applied\<close>
  "slab_get_header_bit_a64 m slab n =
     (let header_byte = starting_address slab; offset = n smod 8; quot = n sdiv 8
      in if (ucast (m (header_byte + of_int quot)) :: u32) AND push_bit (nat (offset mod 32)) 1 \<noteq> 0 then 1 else 0)"

lemma slab_get_header_bit_a64_minus_1: "slab_get_header_bit_a64 m slab (c_int (- 1)) = 0"
proof -
  have "(ucast (b :: u8) :: u32) AND push_bit k 1 = 0" if "8 \<le> k" for b k
    using that by (intro bit_word_eqI) (auto simp: bit_simps dest: bit_imp_le_length)
  from this [of 31] show ?thesis
    by (simp add: slab_get_header_bit_a64_def signed_modulo_int_def signed_divide_int_def Let_def)
qed

function slab_next_slot_loop_a64 :: "mem \<Rightarrow> slab \<Rightarrow> u64 \<Rightarrow> u64" where
  "slab_next_slot_loop_a64 m slab count =
     (if slab_get_header_bit_a64 m slab (c_int count) = 0 then count
      else slab_next_slot_loop_a64 m slab (count - 1))"
  by pat_completeness auto
termination
proof (relation "measure (\<lambda>(m, slab, count). unat (count + 1))")
  fix m slab count
  assume "slab_get_header_bit_a64 m slab (c_int count) \<noteq> 0"
  then have "count \<noteq> - 1" using slab_get_header_bit_a64_minus_1 by auto
  then have "count + 1 \<noteq> 0" by (metis add_eq_0_iff2)
  then show "((m, slab, count - 1), (m, slab, count)) \<in> measure (\<lambda>(m, slab, count). unat (count + 1))"
    using unat_pred [of "count + 1"] by (simp add: unat_gt_0)
qed simp

declare slab_next_slot_loop_a64.simps [simp del]

definition slab_get_next_slot_a64 :: "mem \<Rightarrow> slab \<Rightarrow> u64" where
  "slab_get_next_slot_a64 m slab = slab_next_slot_loop_a64 m slab (max_store slab - 1)"

definition slab_allocate_a64 :: "mem \<Rightarrow> slab \<Rightarrow> (mem \<times> addr) option" where
  "slab_allocate_a64 m slab =
     (let slot = c_int (slab_get_next_slot_a64 m slab)
      in if slot = - 1 then Some (m, NULL)
         else do {
           m' \<leftarrow> slab_set_header_bit m slab slot 1;
           let slot_position = (ucast (header_size slab) :: u32);
           let slot_position = (ucast (ucast slot_position + object_size slab * of_int slot) :: u32);
           Some (m', starting_address slab + ucast slot_position)
         })"

function slab_free_loop :: "u64 \<Rightarrow> u64 \<Rightarrow> int \<Rightarrow> (u64 \<times> int) option" where
  \<comment> \<open>division by repeated subtraction; it spins when \<open>obj_size\<close> is 0\<close>
  "slab_free_loop obj_size offset slot =
     (if obj_size = 0 then None
      else if offset \<ge> obj_size then
        (case int_res (slot + 1) of
           None \<Rightarrow> None
         | Some slot' \<Rightarrow> slab_free_loop obj_size (offset - obj_size) slot')
      else Some (offset, slot))"
  by pat_completeness auto
termination
  by (relation "measure (\<lambda>(obj_size, offset, slot). unat offset)")
    (auto simp: unat_sub word_le_nat_alt unat_eq_0 unat_gt_0 intro!: diff_less)

declare slab_free_loop.simps [simp del]

definition slab_free :: "mem \<Rightarrow> slab \<Rightarrow> addr \<Rightarrow> (mem \<times> int) option" where
  "slab_free m slab ptr =
     (let offset = ptr - starting_address slab - header_size slab
      in do {
        (offset, slot) \<leftarrow> slab_free_loop (object_size slab) offset 0;
        if offset \<noteq> 0 then Some (m, 0)
        else do {
          b \<leftarrow> slab_get_header_bit m slab slot;
          if b = 1 then do { m' \<leftarrow> slab_set_header_bit m slab slot 0; Some (m', 1) }
          else Some (m, 0)
        }
      })"

definition slab_get_size :: "slab \<Rightarrow> u64" where
  "slab_get_size slab = slab_get_needed_size (object_size slab) (max_store slab)"

section \<open>Layout\<close>

definition slab_span :: "u64 \<Rightarrow> u64 \<Rightarrow> nat" where
  \<comment> \<open>an upper bound on the bytes of a zone\<close>
  "slab_span obj_size max_objs =
     unat obj_size + unat max_objs + unat obj_size * unat max_objs"

definition slab_zone_ok :: "u64 \<Rightarrow> u64 \<Rightarrow> addr \<Rightarrow> bool" where
  "slab_zone_ok obj_size max_objs start \<longleftrightarrow>
     0 < unat obj_size \<and> 0 < unat max_objs \<and> 0 < unat start \<and>
     slab_span obj_size max_objs < 2 ^ 31 \<and> unat start + slab_span obj_size max_objs \<le> 2 ^ 64"

definition wf_slab :: "slab \<Rightarrow> bool" where
  "wf_slab s \<longleftrightarrow> slab_zone_ok (object_size s) (max_store s) (starting_address s) \<and>
     header_size s = slab_get_header_size (object_size s) (max_store s)"

definition slab_hdr_bytes :: "u64 \<Rightarrow> u64 \<Rightarrow> nat" where
  "slab_hdr_bytes obj_size max_objs = unat obj_size * ceil_div (ceil_div (unat max_objs) 8) (unat obj_size)"

lemma slab_hdr_bytes_bounds:
  assumes "0 < unat obj_size"
  shows "ceil_div (unat max_objs) 8 \<le> slab_hdr_bytes obj_size max_objs"
    and "slab_hdr_bytes obj_size max_objs < ceil_div (unat max_objs) 8 + unat obj_size"
    and "unat obj_size dvd slab_hdr_bytes obj_size max_objs"
  using ceil_div_bounds [OF assms] by (auto simp: slab_hdr_bytes_def)

lemma slab_hdr_bytes_le:
  assumes "0 < unat obj_size" and "0 < unat max_objs"
  shows "slab_hdr_bytes obj_size max_objs + unat obj_size * unat max_objs \<le> slab_span obj_size max_objs"
proof -
  have "ceil_div (unat max_objs) 8 \<le> unat max_objs"
    using assms(2) ceil_div_less [of 8 "unat max_objs"] by linarith
  then show ?thesis
    using slab_hdr_bytes_bounds(2) [OF assms(1), of max_objs] by (simp add: slab_span_def)
qed

lemma slab_get_header_size_eq:
  assumes "slab_zone_ok obj_size max_objs start"
  shows "slab_get_header_size obj_size max_objs = of_nat (slab_hdr_bytes obj_size max_objs)"
proof -
  let ?h = "ceil_div (unat max_objs) 8"
  have pos: "0 < unat obj_size" "0 < unat max_objs" and small: "slab_span obj_size max_objs < 2 ^ 31"
    using assms by (auto simp: slab_zone_ok_def)
  have total: "slab_hdr_bytes obj_size max_objs < 2 ^ 31"
    using slab_hdr_bytes_le [OF pos] small by simp
  have "?h < 2 ^ 31" and cnt: "ceil_div ?h (unat obj_size) < 2 ^ 31"
    using slab_hdr_bytes_bounds(1) [OF pos(1), of max_objs] total pos(1)
    by (auto simp: slab_hdr_bytes_def intro: le_less_trans [rotated])
  have "(if c_int (max_objs mod 8) = 0 then c_int (max_objs div 8) else c_int (max_objs div 8) + 1)
      = int ?h"
    using small by (auto simp: c_conv slab_span_def ceil_div_def)
  moreover have "slab_align_to_object obj_size (of_nat ?h) = int (slab_hdr_bytes obj_size max_objs)"
    using total cnt \<open>?h < 2 ^ 31\<close> pos(1)
    by (simp add: slab_align_to_object_def word_ceil_div c_conv slab_hdr_bytes_def)
  ultimately show ?thesis
    by (simp add: slab_get_header_size_def Let_def)
qed

section \<open>The header as a set of slots\<close>

definition slab_bit :: "mem \<Rightarrow> slab \<Rightarrow> nat \<Rightarrow> bool" where
  "slab_bit m s i \<longleftrightarrow> bit (m (starting_address s + of_nat (i div 8))) (i mod 8)"

definition slab_used :: "mem \<Rightarrow> slab \<Rightarrow> nat set" where
  "slab_used m s = {i. i < unat (max_store s) \<and> slab_bit m s i}"

definition slab_slot_addr :: "slab \<Rightarrow> nat \<Rightarrow> addr" where
  "slab_slot_addr s i =
     starting_address s + of_nat (unat (header_size s) + unat (object_size s) * i)"

definition slab_header :: "slab \<Rightarrow> addr set" where
  "slab_header s = region (starting_address s) (unat (header_size s))"

lemma slab_used_less: "i \<in> slab_used m s \<Longrightarrow> i < unat (max_store s)"
  by (simp add: slab_used_def)

lemma slab_used_subset: "slab_used m s \<subseteq> {..<unat (max_store s)}"
  by (auto simp: slab_used_def)

lemma slab_get_header_bit_eq:
  assumes "i < 2 ^ 31"
  shows "slab_get_header_bit m s (int i) = Some (if slab_bit m s i then 1 else 0)"
  unfolding slab_get_header_bit_def Let_def int_sdiv_numeral int_smod_numeral slab_bit_def
    bit_iff_and_push_bit_not_eq_0 by simp

definition upd_bit :: "bool \<Rightarrow> nat \<Rightarrow> u8 \<Rightarrow> u8" where
  "upd_bit v k w = (if v then set_bit k w else unset_bit k w)"

lemma bit_upd_bit: "l < 8 \<Longrightarrow> bit (upd_bit v k w) l = (if l = k then v else bit w l)"
  by (auto simp: upd_bit_def bit_set_bit_iff bit_unset_bit_iff)

definition slab_upd :: "mem \<Rightarrow> slab \<Rightarrow> nat \<Rightarrow> bool \<Rightarrow> mem" where
  "slab_upd m s i v = (let p = starting_address s + of_nat (i div 8) in m(p := upd_bit v (i mod 8) (m p)))"

lemma slab_set_header_bit_eq:
  assumes "i < 2 ^ 31"
  shows "slab_set_header_bit m s (int i) (of_bool v) = Some (slab_upd m s i v)"
proof -
  have "w AND NOT (push_bit k 1) OR push_bit k (of_bool v) = upd_bit v k w" for w :: u8 and k
    by (rule bit_word_eqI) (auto simp: bit_simps upd_bit_def)
  then show ?thesis
    unfolding slab_set_header_bit_def Let_def int_sdiv_numeral int_smod_numeral slab_upd_def by simp
qed

lemma slab_bit_upd:
  assumes "i < 2 ^ 31" and "j < 2 ^ 31"
  shows "slab_bit (slab_upd m s i v) s j = (if j = i then v else slab_bit m s j)"
proof (cases "i div 8 = j div 8")
  case True
  then have "j mod 8 = i mod 8 \<longleftrightarrow> j = i"
    by (metis div_mod_decomp)
  with True show ?thesis by (simp add: slab_bit_def slab_upd_def Let_def bit_upd_bit)
next
  case False
  have "(of_nat (i div 8) :: addr) \<noteq> of_nat (j div 8)"
    using False assms by (simp add: unat_eq_iff unat_of_nat64)
  then show ?thesis using False by (auto simp: slab_bit_def slab_upd_def Let_def)
qed

lemma slab_next_slot_loop_eq:
  "k < 2 ^ 31 \<Longrightarrow> slab_next_slot_loop m s (of_nat k) =
    (if \<forall>j \<le> k. slab_bit m s j then None
     else Some (of_nat (Max {j. j \<le> k \<and> \<not> slab_bit m s j})))"
proof (induction k)
  case 0
  have "slab_next_slot_loop m s (- 1) = None"
    by (subst slab_next_slot_loop.simps) (simp add: slab_get_header_bit_minus_1 [simplified])
  moreover have "slab_get_header_bit m s (c_int 0) = Some (if slab_bit m s 0 then 1 else 0)"
    using slab_get_header_bit_eq [of 0] by (simp add: c_conv)
  moreover have "{j. j = 0 \<and> \<not> slab_bit m s j} = (if slab_bit m s 0 then {} else {0})"
    by (auto intro!: gr0I)
  ultimately show ?case by (subst slab_next_slot_loop.simps) simp
next
  case (Suc k)
  have get: "slab_get_header_bit m s (c_int (of_nat (Suc k))) =
      Some (if slab_bit m s (Suc k) then 1 else 0)"
    using slab_get_header_bit_eq [of "Suc k"] Suc.prems
    by (simp add: c_int_small unat_of_nat64 del: of_nat_Suc)
  show ?case
  proof (cases "slab_bit m s (Suc k)")
    case True
    then have "(\<forall>j \<le> Suc k. slab_bit m s j) \<longleftrightarrow> (\<forall>j \<le> k. slab_bit m s j)"
      and "{j. j \<le> Suc k \<and> \<not> slab_bit m s j} = {j. j \<le> k \<and> \<not> slab_bit m s j}"
      by (auto simp: le_Suc_eq)
    with True get Suc show ?thesis by (subst slab_next_slot_loop.simps) simp
  next
    case False
    then have "Max {j. j \<le> Suc k \<and> \<not> slab_bit m s j} = Suc k" by (intro Max_eqI) auto
    with False get show ?thesis by (subst slab_next_slot_loop.simps) auto
  qed
qed

section \<open>Operations against the set of used slots\<close>

definition slab_free_slots :: "mem \<Rightarrow> slab \<Rightarrow> nat set" where
  "slab_free_slots m s = {..<unat (max_store s)} - slab_used m s"

lemma wf_slab_header:
  assumes "wf_slab s"
  shows "unat (header_size s) = slab_hdr_bytes (object_size s) (max_store s)"
    and "unat (header_size s) + unat (object_size s) * unat (max_store s) < 2 ^ 31"
    and "unat (starting_address s) + (unat (header_size s) + unat (object_size s) * unat (max_store s)) \<le> 2 ^ 64"
    and "ceil_div (unat (max_store s)) 8 \<le> unat (header_size s)"
    and "0 < unat (object_size s)" "0 < unat (max_store s)" "0 < unat (starting_address s)"
    and "unat (max_store s) < 2 ^ 31"
proof -
  show pos: "0 < unat (object_size s)" "0 < unat (max_store s)" "0 < unat (starting_address s)"
    using assms by (auto simp: wf_slab_def slab_zone_ok_def)
  have zone: "slab_zone_ok (object_size s) (max_store s) (starting_address s)"
    using assms by (simp add: wf_slab_def)
  note le = slab_hdr_bytes_le [OF pos(1,2)]
  show hdr: "unat (header_size s) = slab_hdr_bytes (object_size s) (max_store s)"
    using assms slab_get_header_size_eq [OF zone] le zone
    by (simp add: wf_slab_def unat_of_nat64 slab_zone_ok_def)
  show "unat (header_size s) + unat (object_size s) * unat (max_store s) < 2 ^ 31"
    "unat (starting_address s) + (unat (header_size s) + unat (object_size s) * unat (max_store s)) \<le> 2 ^ 64"
    using le zone by (auto simp: hdr slab_zone_ok_def)
  show "ceil_div (unat (max_store s)) 8 \<le> unat (header_size s)"
    using slab_hdr_bytes_bounds(1) [OF pos(1)] by (simp add: hdr)
  show "unat (max_store s) < 2 ^ 31"
    using zone by (simp add: slab_zone_ok_def slab_span_def)
qed

lemma slab_slot_end:
  assumes "wf_slab s" and "i < unat (max_store s)"
  shows "unat (header_size s) + unat (object_size s) * i + unat (object_size s) \<le>
    unat (header_size s) + unat (object_size s) * unat (max_store s)"
  using mult_le_mono2 [of "Suc i" "unat (max_store s)" "unat (object_size s)"] assms(2) by simp

lemma slab_slot_small:
  assumes "wf_slab s" and "i < unat (max_store s)"
  shows "unat (header_size s) + unat (object_size s) * i < 2147483648"
  using slab_slot_end [OF assms] wf_slab_header(2) [OF assms(1)] by simp

lemma unat_slab_slot_addr:
  assumes "wf_slab s" and "i < unat (max_store s)"
  shows "unat (slab_slot_addr s i) =
    unat (starting_address s) + (unat (header_size s) + unat (object_size s) * i)"
proof -
  have "unat (header_size s) + unat (object_size s) * i < 2 ^ 31"
    "unat (starting_address s) + (unat (header_size s) + unat (object_size s) * i) < 2 ^ 64"
    using slab_slot_end [OF assms] wf_slab_header [OF assms(1)] by linarith+
  moreover from this have "unat (of_nat (unat (header_size s) + unat (object_size s) * i) :: addr) =
      unat (header_size s) + unat (object_size s) * i"
    by (intro unat_of_nat64) linarith
  ultimately show ?thesis
    unfolding slab_slot_addr_def by (subst unat_add64) (simp_all only:)
qed

lemma slab_used_upd:
  assumes "wf_slab s" and "i < unat (max_store s)"
  shows "slab_used (slab_upd m s i v) s = (if v then insert i (slab_used m s) else slab_used m s - {i})"
  using assms wf_slab_header(8) [OF assms(1)]
  by (auto simp: slab_used_def slab_bit_upd split: if_splits)

lemma slab_header_byte:
  assumes "wf_slab s" and "i < unat (max_store s)"
  shows "starting_address s + of_nat (i div 8) \<in> slab_header s"
proof -
  have "i div 8 < ceil_div (unat (max_store s)) 8"
    using assms(2) ceil_div_ge [of 8 "unat (max_store s)"] by (simp add: div_less_iff_less_mult mult.commute)
  then have "i div 8 < unat (header_size s)" using wf_slab_header(4) [OF assms(1)] by simp
  then show ?thesis
    using unat_less64 [of "header_size s"] unfolding slab_header_def by (intro region_offset) auto
qed

lemma slab_upd_outside:
  assumes "wf_slab s" and "i < unat (max_store s)"
  shows "same_outside (slab_header s) m (slab_upd m s i v)"
  using slab_header_byte [OF assms] by (auto simp: slab_upd_def Let_def)

lemma slab_allocate_eq:
  assumes "wf_slab s" and "slab_free_slots m s \<noteq> {}"
  shows "slab_allocate m s =
    (let i = Max (slab_free_slots m s) in Some (slab_upd m s i True, slab_slot_addr s i))"
    and "Max (slab_free_slots m s) \<in> slab_free_slots m s"
proof -
  let ?i = "Max (slab_free_slots m s)" and ?k = "unat (max_store s) - 1"
  note hdr = wf_slab_header [OF assms(1)]
  have free: "{j. j \<le> ?k \<and> \<not> slab_bit m s j} = slab_free_slots m s"
    using hdr(6) by (auto simp: slab_free_slots_def slab_used_def)
  show i: "?i \<in> slab_free_slots m s"
    using assms(2) by (intro Max_in) (auto simp: slab_free_slots_def)
  have less: "?i < unat (max_store s)" "?i < 2 ^ 31"
    using i hdr(8) by (auto simp: slab_free_slots_def)
  have "max_store s - 1 = of_nat ?k" using hdr(6) by simp
  then have "slab_get_next_slot m s = Some (of_nat ?i)"
    using slab_next_slot_loop_eq [of ?k m s] hdr(8) i free
    by (auto simp: slab_get_next_slot_def)
  moreover have "c_int (of_nat ?i) = int ?i" using less by (simp add: c_int_small unat_of_nat64)
  moreover have "ucast (ucast (ucast (ucast (header_size s) :: u32) + object_size s * of_nat ?i) :: u32) =
      (of_nat (unat (header_size s) + unat (object_size s) * ?i) :: addr)"
  proof -
    have "unat (of_nat (unat (header_size s) + unat (object_size s) * ?i) :: addr) < 2 ^ 32"
      using slab_slot_small [OF assms(1) less(1)] by (subst unat_of_nat64) auto
    moreover have "unat (header_size s) < 2 ^ 32" using hdr(2) by simp
    ultimately show ?thesis by (simp add: ucast_32_64)
  qed
  ultimately show "slab_allocate m s = (let i = ?i in Some (slab_upd m s i True, slab_slot_addr s i))"
    using slab_set_header_bit_eq [OF less(2), of m s True]
    by (simp add: slab_allocate_def slab_slot_addr_def Let_def)
qed

lemma slab_get_next_slot_full:
  assumes "wf_slab s" and "slab_free_slots m s = {}"
  shows "slab_get_next_slot m s = None"
proof -
  note hdr = wf_slab_header [OF assms(1)]
  have "max_store s - 1 = of_nat (unat (max_store s) - 1)" using hdr(6) by simp
  moreover have "slab_bit m s j" if "j \<le> unat (max_store s) - 1" for j
  proof -
    have "j \<in> {..<unat (max_store s)}" using that hdr(6) by simp
    then show ?thesis using assms(2) by (auto simp: slab_free_slots_def slab_used_def)
  qed
  ultimately show ?thesis
    using slab_next_slot_loop_eq [of "unat (max_store s) - 1" m s] hdr(8)
    by (simp add: slab_get_next_slot_def)
qed

lemma slab_allocate_full:
  assumes "wf_slab s" and "slab_free_slots m s = {}"
  shows "slab_allocate m s = None"
  using slab_get_next_slot_full [OF assms] by (simp add: slab_allocate_def)

lemma slab_free_loop_eq:
  assumes "0 < unat obj_size" and "0 \<le> slot" and "slot + int (unat offset div unat obj_size) < 2 ^ 31"
  shows "slab_free_loop obj_size offset slot =
    Some (offset mod obj_size, slot + int (unat offset div unat obj_size))"
  using assms
proof (induction obj_size offset slot rule: slab_free_loop.induct)
  case (1 obj_size offset slot)
  have nz: "obj_size \<noteq> 0" using "1.prems"(1) by auto
  show ?case
  proof (cases "obj_size \<le> offset")
    case True
    then have le: "unat obj_size \<le> unat offset" by (simp add: word_le_nat_alt)
    have "unat (offset - obj_size) = unat offset - unat obj_size" using True by (rule unat_sub)
    then have "unat (offset - obj_size) div unat obj_size = unat offset div unat obj_size - 1"
      and "(offset - obj_size) mod obj_size = offset mod obj_size"
      and "0 < unat offset div unat obj_size"
      using le "1.prems"(1) by (simp_all add: unat_eq_iff unat_mod le_div_geq le_mod_geq)
    moreover from this "1.prems" have "int_res (slot + 1) = Some (slot + 1)"
      by (intro int_res_small) auto
    ultimately show ?thesis
      using "1.IH" [OF nz True] "1.prems" nz True by (subst slab_free_loop.simps) simp
  next
    case False
    then have "unat offset < unat obj_size" by (simp add: word_le_nat_alt)
    with nz False show ?thesis
      by (subst slab_free_loop.simps) (simp add: unat_eq_iff unat_mod)
  qed
qed

lemma slab_free_slot:
  assumes "wf_slab s" and "i < unat (max_store s)"
  shows "slab_free m s (slab_slot_addr s i) =
    Some (if i \<in> slab_used m s then (slab_upd m s i False, 1) else (m, 0))"
proof -
  let ?o = "unat (object_size s) * i"
  note hdr = wf_slab_header [OF assms(1)]
  have i: "i < 2 ^ 31" using assms(2) hdr(8) by simp
  have "slab_slot_addr s i - starting_address s - header_size s = of_nat ?o"
    by (simp add: slab_slot_addr_def)
  moreover have o: "unat (of_nat ?o :: u64) = ?o"
    using slab_slot_small [OF assms] by (intro unat_of_nat64) simp
  moreover have "slab_free_loop (object_size s) (of_nat ?o) 0 = Some (0, int i)"
    using slab_free_loop_eq [of "object_size s" 0 "of_nat ?o"] o hdr(5) i
    by (simp add: unat_eq_iff unat_mod del: of_nat_mult)
  ultimately show ?thesis
    using slab_set_header_bit_eq [OF i, of m s False] slab_get_header_bit_eq [OF i, of m s] assms(2)
    by (auto simp: slab_free_def slab_used_def)
qed

section \<open>Creation and the pool interface\<close>

lemma slab_create_eq:
  assumes "slab_zone_ok obj_size max_objs start"
  shows "\<exists>m' s. slab_create m obj_size max_objs start = Some (m', s) \<and> wf_slab s \<and>
    starting_address s = start \<and> max_store s = max_objs \<and> object_size s = obj_size \<and>
    slab_used m' s = {} \<and> same_outside (slab_header s) m m'"
proof -
  let ?s = "\<lparr>starting_address = start, max_store = max_objs, object_size = obj_size,
    header_size = slab_get_header_size obj_size max_objs\<rparr>"
  let ?m = "fill start (unat (header_size ?s)) 0 m"
  have wf: "wf_slab ?s" using assms by (simp add: wf_slab_def)
  note hdr = wf_slab_header [OF wf]
  have "memset m start 0 (header_size ?s) = Some (?m, start)"
    using memset_fill [of 0 "header_size ?s" m start] hdr(2) by simp
  then have "slab_create m obj_size max_objs start = Some (?m, ?s)"
    by (simp add: slab_create_def slab_header_reset_value_def Let_def)
  moreover have "\<not> slab_bit ?m ?s i" if "i < unat max_objs" for i
  proof -
    have "start + of_nat (i div 8) \<in> slab_header ?s"
      using slab_header_byte [OF wf, of i] that by simp
    then show ?thesis by (simp add: slab_bit_def fill_def slab_header_def)
  qed
  then have "slab_used ?m ?s = {}" by (auto simp: slab_used_def)
  moreover have "same_outside (slab_header ?s) m ?m"
    unfolding slab_header_def by (simp add: fill_outside)
  ultimately show ?thesis using wf by auto
qed

definition slab_slots :: "slab \<Rightarrow> addr set" where
  "slab_slots s = slab_slot_addr s ` {..<unat (max_store s)}"

definition slab_live :: "mem \<Rightarrow> slab \<Rightarrow> addr set" where
  "slab_live m s = slab_slot_addr s ` slab_used m s"

lemma slab_slot_addr_inj: "wf_slab s \<Longrightarrow> inj_on (slab_slot_addr s) {..<unat (max_store s)}"
  using wf_slab_header(5) [of s] unat_slab_slot_addr [of s]
  by (intro inj_onI) (metis add_left_cancel lessThan_iff mult_cancel1 not_gr_zero)

lemma slab_slot_addr_mem:
  assumes "wf_slab s" and "i < unat (max_store s)"
  shows "slab_slot_addr s i \<in> slab_live m s \<longleftrightarrow> i \<in> slab_used m s"
  using inj_on_image_mem_iff [OF slab_slot_addr_inj [OF assms(1)], of i "slab_used m s"]
    slab_used_subset [of m s] assms(2) by (simp add: slab_live_def)

lemma slab_live_full_iff:
  assumes "wf_slab s"
  shows "slab_live m s = slab_slots s \<longleftrightarrow> slab_free_slots m s = {}"
  using inj_on_image_eq_iff [OF slab_slot_addr_inj [OF assms] slab_used_subset order_refl, of m]
    slab_used_subset [of m s] by (auto simp: slab_live_def slab_slots_def slab_free_slots_def)

lemma slab_live_upd:
  assumes "wf_slab s" and "i < unat (max_store s)"
  shows "slab_live (slab_upd m s i True) s = insert (slab_slot_addr s i) (slab_live m s)"
    and "slab_live (slab_upd m s i False) s = slab_live m s - {slab_slot_addr s i}"
proof -
  show "slab_live (slab_upd m s i True) s = insert (slab_slot_addr s i) (slab_live m s)"
    by (simp add: slab_live_def slab_used_upd [OF assms])
  have "slab_slot_addr s ` (slab_used m s - {i}) = slab_slot_addr s ` slab_used m s - slab_slot_addr s ` {i}"
    using slab_used_subset [of m s] assms(2)
    by (intro inj_on_image_set_diff [OF slab_slot_addr_inj [OF assms(1)]]) auto
  then show "slab_live (slab_upd m s i False) s = slab_live m s - {slab_slot_addr s i}"
    by (simp add: slab_live_def slab_used_upd [OF assms])
qed

lemma slab_object_region:
  assumes "wf_slab s" and "i < unat (max_store s)"
  shows "unat (slab_slot_addr s i) + unat (object_size s) \<le> 2 ^ 64"
  using slab_slot_end [OF assms] wf_slab_header(3) [OF assms(1)]
  by (simp add: unat_slab_slot_addr [OF assms])

lemma slab_objects_apart:
  assumes "wf_slab s" and "i < unat (max_store s)" and "j < unat (max_store s)" and "i < j"
  shows "region (slab_slot_addr s i) (unat (object_size s)) \<inter>
    region (slab_slot_addr s j) (unat (object_size s)) = {}"
proof (rule regions_apart [OF slab_object_region slab_object_region])
  have "unat (object_size s) * Suc i \<le> unat (object_size s) * j"
    using assms(4) by (intro mult_le_mono2) simp
  then show "unat (slab_slot_addr s i) + unat (object_size s) \<le> unat (slab_slot_addr s j) \<or>
      unat (slab_slot_addr s j) + unat (object_size s) \<le> unat (slab_slot_addr s i)"
    using unat_slab_slot_addr [OF assms(1,2)] unat_slab_slot_addr [OF assms(1,3)] by simp
qed (use assms in auto)

lemma slab_object_off_header:
  assumes "wf_slab s" and "i < unat (max_store s)"
  shows "region (slab_slot_addr s i) (unat (object_size s)) \<inter> slab_header s = {}"
  unfolding slab_header_def
  by (rule regions_apart [OF slab_object_region [OF assms]])
    (use wf_slab_header(3) [OF assms(1)] unat_slab_slot_addr [OF assms] in auto)

lemma slab_used_frame:
  assumes "wf_slab s" and "same_outside R m m'" and "R \<inter> slab_header s = {}"
  shows "slab_used m' s = slab_used m s"
proof -
  have "m' (starting_address s + of_nat (i div 8)) = m (starting_address s + of_nat (i div 8))"
    if "i < unat (max_store s)" for i
    using slab_header_byte [OF assms(1) that] assms(3) by (intro same_outsideD [OF assms(2)]) blast
  then show ?thesis by (auto simp: slab_used_def slab_bit_def)
qed

lemma slab_slotsE:
  assumes "p \<in> slab_slots s"
  obtains i where "i < unat (max_store s)" and "p = slab_slot_addr s i"
  using assms by (auto simp: slab_slots_def)

interpretation slab_pool: object_pool slab_allocate slab_free wf_slab slab_slots slab_live slab_header
  "\<lambda>s. unat (object_size s)"
proof unfold_locales
  fix s m m' p q R
  assume wf: "wf_slab s"
  show "finite (slab_slots s)" by (simp add: slab_slots_def)
  show "slab_live m s \<subseteq> slab_slots s"
    using slab_used_subset [of m s] by (auto simp: slab_live_def slab_slots_def)
  show "NULL \<notin> slab_slots s"
  proof
    assume "NULL \<in> slab_slots s"
    then obtain i where "i < unat (max_store s)" "NULL = slab_slot_addr s i" by (rule slab_slotsE)
    then show False using unat_slab_slot_addr [OF wf, of i] wf_slab_header(7) [OF wf] by simp
  qed
  show "\<exists>m' p. slab_allocate m s = Some (m', p) \<and> p \<in> slab_slots s - slab_live m s \<and>
      slab_live m' s = insert p (slab_live m s) \<and> same_outside (slab_header s) m m'"
    if "slab_live m s \<noteq> slab_slots s"
  proof -
    have free: "slab_free_slots m s \<noteq> {}" using that slab_live_full_iff [OF wf] by blast
    let ?i = "Max (slab_free_slots m s)"
    have i: "?i < unat (max_store s)" "?i \<notin> slab_used m s"
      using slab_allocate_eq(2) [OF wf free] by (simp_all add: slab_free_slots_def)
    then show ?thesis
      using slab_allocate_eq(1) [OF wf free] slab_slot_addr_mem [OF wf i(1), of m]
        slab_live_upd(1) [OF wf i(1)] slab_upd_outside [OF wf i(1)]
      by (simp add: Let_def slab_slots_def)
  qed
  show "\<exists>m'. slab_free m s p = Some (m', 1) \<and> slab_live m' s = slab_live m s - {p} \<and>
      same_outside (slab_header s) m m'" if live: "p \<in> slab_live m s"
  proof -
    obtain i where i: "i \<in> slab_used m s" "p = slab_slot_addr s i"
      using live by (auto simp: slab_live_def)
    with slab_used_less [OF i(1)] show ?thesis
      using slab_free_slot [OF wf] slab_live_upd(2) [OF wf] slab_upd_outside [OF wf] by auto
  qed
  show "slab_free m s p = Some (m, 0)" if "p \<in> slab_slots s - slab_live m s"
    using that slab_free_slot [OF wf, of _ m] slab_slot_addr_mem [OF wf, of _ m]
    by (auto elim: slab_slotsE)
  show "slab_live m' s = slab_live m s" if "same_outside R m m'" "R \<inter> slab_header s = {}"
    using slab_used_frame [OF wf that] by (simp add: slab_live_def)
  show "region p (unat (object_size s)) \<inter> region q (unat (object_size s)) = {}"
    if pq: "p \<in> slab_slots s" "q \<in> slab_slots s" "p \<noteq> q"
  proof -
    obtain i j where "i < unat (max_store s)" "j < unat (max_store s)" "i \<noteq> j"
      "p = slab_slot_addr s i" "q = slab_slot_addr s j"
      using pq by (metis slab_slotsE)
    then show ?thesis using slab_objects_apart [OF wf] by (metis Int_commute nat_neq_iff)
  qed
  show "region p (unat (object_size s)) \<inter> slab_header s = {}" if "p \<in> slab_slots s"
    using that slab_object_off_header [OF wf] by (auto elim!: slab_slotsE simp del: in_region)
qed

section \<open>Properties\<close>

abbreviation example_slab :: slab where
  "example_slab \<equiv> \<lparr>starting_address = 0x1000, max_store = 10, object_size = 64, header_size = 64\<rparr>"

lemma wf_example_slab: "wf_slab example_slab"
  by (simp add: wf_slab_def slab_zone_ok_def slab_span_def slab_get_header_size_def
      slab_align_to_object_def c_int_small Let_def)

lemma example_slab_empty: "slab_used (\<lambda>_. 0) example_slab = {}"
  by (simp add: slab_used_def slab_bit_def)

lemma example_slab_free:
  "slab_free_slots (\<lambda>_. 0) example_slab = {..<10}" "slab_free_slots (\<lambda>_. 0) example_slab \<noteq> {}"
  by (auto simp: slab_free_slots_def example_slab_empty lessThan_empty_iff)

text \<open>
  C13. \<open>slab_allocate\<close> on a slab with a free slot returns the object of the highest free slot and
  marks exactly that slot used; it writes to nothing but the header.
\<close>
theorem slab_allocate_highest_free:
  assumes "wf_slab s" and "slab_free_slots m s \<noteq> {}"
  shows "\<exists>m' i. slab_allocate m s = Some (m', slab_slot_addr s i) \<and> i = Max (slab_free_slots m s) \<and>
    slab_used m' s = insert i (slab_used m s) \<and> i \<notin> slab_used m s \<and> same_outside (slab_header s) m m'"
proof -
  let ?i = "Max (slab_free_slots m s)"
  have i: "?i < unat (max_store s)" "?i \<notin> slab_used m s"
    using slab_allocate_eq(2) [OF assms] by (simp_all add: slab_free_slots_def)
  then show ?thesis
    using slab_allocate_eq(1) [OF assms] slab_used_upd [OF assms(1) i(1)] slab_upd_outside [OF assms(1) i(1)]
    by (simp add: Let_def)
qed

theorem slab_allocate_highest_free_witness:
  "\<exists>m'. slab_allocate (\<lambda>_. 0) example_slab = Some (m', 0x1280) \<and> slab_used m' example_slab = {9}"
proof -
  have "Max {..<10 :: nat} = 9" by (simp add: lessThan_nat_numeral lessThan_Suc)
  moreover have "slab_slot_addr example_slab 9 = 0x1280" by (simp add: slab_slot_addr_def)
  ultimately show ?thesis
    using slab_allocate_highest_free [OF wf_example_slab example_slab_free(2)]
    by (auto simp: example_slab_free(1) example_slab_empty)
qed

lemma slab_get_header_bit_a64_eq:
  assumes "slab_get_header_bit m s n = Some b"
  shows "slab_get_header_bit_a64 m s n = b"
proof -
  have off: "0 \<le> n smod 8" using assms by (simp add: slab_get_header_bit_def Let_def split: if_splits)
  moreover have "n smod 8 < 8" 
    using pos_mod_bound [of 8 n] pos_mod_sign [of 8 "- n"]
    by (simp add: signed_modulo_int_def sgn_if split: abs_split) linarith
  ultimately have k: "nat (n smod 8 mod 32) = nat (n smod 8)" "nat (n smod 8) < 8" by auto
  have "((ucast (w :: u8) :: u32) AND push_bit j 1 \<noteq> 0) = (w AND push_bit j 1 \<noteq> 0)" if "j < 8" for w j
    unfolding bit_iff_and_push_bit_not_eq_0 [symmetric] using that by (simp add: bit_unsigned_iff)
  with k off assms show ?thesis
    by (simp add: slab_get_header_bit_def slab_get_header_bit_a64_def Let_def split: if_splits)
qed

lemma slab_next_slot_loop_a64_eq:
  assumes "k < 2 ^ 31"
  shows "slab_next_slot_loop_a64 m s (of_nat k) =
    (case slab_next_slot_loop m s (of_nat k) of None \<Rightarrow> - 1 | Some i \<Rightarrow> i)"
  using assms
proof (induction k)
  case 0
  have stop: "slab_next_slot_loop m s (- 1) = None" "slab_next_slot_loop_a64 m s (- 1) = - 1"
    by (subst slab_next_slot_loop.simps, simp add: slab_get_header_bit_minus_1 [simplified])
      (subst slab_next_slot_loop_a64.simps, simp add: slab_get_header_bit_a64_minus_1 [simplified])
  obtain b where b: "slab_get_header_bit m s (c_int 0) = Some b"
    using slab_get_header_bit_eq [of 0] by (simp add: c_conv)
  show ?case
    using stop b slab_get_header_bit_a64_eq [OF b]
    by (subst slab_next_slot_loop.simps, subst slab_next_slot_loop_a64.simps) simp
next
  case (Suc k)
  obtain b where b: "slab_get_header_bit m s (c_int (of_nat (Suc k))) = Some b"
    using slab_get_header_bit_eq [of "Suc k"] Suc.prems
    by (simp add: c_int_small unat_of_nat64 del: of_nat_Suc)
  show ?case
    using Suc b slab_get_header_bit_a64_eq [OF b]
    by (subst slab_next_slot_loop.simps, subst slab_next_slot_loop_a64.simps) simp
qed

lemma slab_get_next_slot_a64_eq:
  assumes "wf_slab s"
  shows "slab_get_next_slot_a64 m s = (case slab_get_next_slot m s of None \<Rightarrow> - 1 | Some i \<Rightarrow> i)"
proof -
  note hdr = wf_slab_header [OF assms(1)]
  have "max_store s - 1 = of_nat (unat (max_store s) - 1)" using hdr(6) by simp
  then show ?thesis
    using slab_next_slot_loop_a64_eq [of "unat (max_store s) - 1" m s] hdr(8)
    by (simp add: slab_get_next_slot_def slab_get_next_slot_a64_def)
qed

text \<open>
  C16. The full slab. Read as C, \<open>slab_allocate\<close> has no defined result exactly when every slot is in use: the search index is
  unsigned, the test that should end the search is always true, and after slot 0 the search shifts by \<open>- 1\<close>.
  Compiled for AArch64 that shift is one by 31, the bit it finds is 0, and the call returns
  \<open>NULL\<close> with the memory unchanged, as its callers expect; with a free slot both readings agree.
\<close>
theorem slab_allocate_compiled:
  assumes "wf_slab s"
  shows "(slab_allocate m s = None \<longleftrightarrow> slab_used m s = {..<unat (max_store s)}) \<and>
    slab_allocate_a64 m s = (if slab_used m s = {..<unat (max_store s)} then Some (m, NULL) else slab_allocate m s)"
proof (cases "slab_free_slots m s = {}")
  case True
  then have full: "slab_used m s = {..<unat (max_store s)}"
    using slab_used_subset [of m s] by (auto simp: slab_free_slots_def)
  have "slab_get_next_slot m s = None" using slab_get_next_slot_full [OF assms True] .
  then show ?thesis
    using slab_get_next_slot_a64_eq [OF assms] full slab_allocate_full [OF assms True]
    by (simp add: slab_allocate_a64_def c_conv)
next
  case False
  then have some: "slab_used m s \<noteq> {..<unat (max_store s)}" by (auto simp: slab_free_slots_def)
  have a: "slab_allocate m s \<noteq> None" using slab_allocate_eq(1) [OF assms False] by (simp add: Let_def)
  then obtain i where i: "slab_get_next_slot m s = Some i" by (auto simp: slab_allocate_def split: bind_splits)
  then have "slab_allocate_a64 m s = slab_allocate m s"
    using slab_get_next_slot_a64_eq [OF assms, of m] by (simp add: slab_allocate_a64_def slab_allocate_def Let_def)
  with some a show ?thesis by simp
qed

theorem slab_allocate_compiled_witness:
  "slab_allocate (\<lambda>_. 0xFF) example_slab = None \<and> slab_allocate_a64 (\<lambda>_. 0xFF) example_slab = Some (\<lambda>_. 0xFF, NULL) \<and>
   (\<exists>m'. slab_allocate_a64 (\<lambda>_. 0) example_slab = Some (m', 0x1280))"
proof -
  have "(0xFF :: u8) = - 1" by simp
  then have "bit (0xFF :: u8) k" if "k < 8" for k
    using that by (simp only: bit_minus_1_iff) simp
  then have full: "slab_used (\<lambda>_. 0xFF) example_slab = {..<unat (max_store example_slab)}"
    by (auto simp: slab_used_def slab_bit_def)
  have "0 \<in> {..<unat (max_store example_slab)}" by simp
  then have some: "slab_used (\<lambda>_. 0) example_slab \<noteq> {..<unat (max_store example_slab)}"
    unfolding example_slab_empty by blast
  have "Max {..<10 :: nat} = 9" by (simp add: lessThan_nat_numeral lessThan_Suc)
  moreover have "slab_slot_addr example_slab 9 = 0x1280" by (simp add: slab_slot_addr_def)
  ultimately have "\<exists>m'. slab_allocate (\<lambda>_. 0) example_slab = Some (m', 0x1280)"
    using slab_allocate_eq(1) [OF wf_example_slab example_slab_free(2)] by (simp add: example_slab_free(1) Let_def)
  then show ?thesis
    using slab_allocate_compiled [OF wf_example_slab, of "\<lambda>_. 0xFF"] full
      slab_allocate_compiled [OF wf_example_slab, of "\<lambda>_. 0"] some
    by simp
qed

lemma slab_upd_undo:
  assumes "\<not> slab_bit m s i"
  shows "slab_upd (slab_upd m s i True) s i False = m"
proof -
  have "upd_bit False k (upd_bit True k w) = w" if "\<not> bit w k" for w :: u8 and k
    using that by (intro bit_word_eqI) (auto simp: bit_upd_bit upd_bit_def bit_simps)
  then show ?thesis using assms by (simp add: slab_upd_def slab_bit_def Let_def)
qed

text \<open>
  C15. Freeing what \<open>slab_allocate\<close> has just returned succeeds and restores the memory byte for
  byte; freeing it a second time is refused with 0 and changes nothing.
\<close>
theorem slab_allocate_free_roundtrip:
  assumes "wf_slab s" and "slab_allocate m s = Some (m', p)"
  shows "slab_free m' s p = Some (m, 1) \<and> slab_free m s p = Some (m, 0)"
proof -
  let ?i = "Max (slab_free_slots m s)"
  have free: "slab_free_slots m s \<noteq> {}" using assms slab_allocate_full by force
  have i: "?i < unat (max_store s)" "?i \<notin> slab_used m s"
    using slab_allocate_eq(2) [OF assms(1) free] by (simp_all add: slab_free_slots_def)
  have mp: "m' = slab_upd m s ?i True" "p = slab_slot_addr s ?i"
    using slab_allocate_eq(1) [OF assms(1) free] assms(2) by (simp_all add: Let_def)
  have "slab_upd m' s ?i False = m"
    unfolding mp by (rule slab_upd_undo) (use i in \<open>simp add: slab_used_def\<close>)
  then show ?thesis
    using slab_free_slot [OF assms(1) i(1), of m'] slab_free_slot [OF assms(1) i(1), of m] i
    by (simp add: mp(2) slab_used_upd [OF assms(1) i(1)] mp(1))
qed

theorem slab_allocate_free_roundtrip_witness:
  "\<exists>m' p. slab_allocate (\<lambda>_. 0) example_slab = Some (m', p) \<and> slab_free m' example_slab p = Some (\<lambda>_. 0, 1)"
proof -
  have "slab_allocate (\<lambda>_. 0) example_slab \<noteq> None"
    using slab_allocate_eq(1) [OF wf_example_slab example_slab_free(2)] by (simp add: Let_def)
  then obtain m' p where mp: "slab_allocate (\<lambda>_. 0) example_slab = Some (m', p)" by auto
  with slab_allocate_free_roundtrip [OF wf_example_slab mp] show ?thesis by blast
qed

text \<open>
  C14. A slab just made by \<open>slab_create\<close> in a zone that fits serves as many allocations as it was
  made for: the addresses are distinct, none is \<open>NULL\<close>, the objects overlap neither each other
  nor the header, and no byte outside the header is written.
\<close>
theorem slab_create_serves_all:
  assumes "slab_zone_ok obj_size max_objs start"
  shows "\<exists>m1 s m2 ps. slab_create m obj_size max_objs start = Some (m1, s) \<and>
    alloc_list slab_allocate (unat max_objs) m1 s = Some (m2, ps) \<and>
    length ps = unat max_objs \<and> distinct ps \<and> NULL \<notin> set ps \<and>
    (\<forall>p \<in> set ps. \<forall>q \<in> set ps. p \<noteq> q \<longrightarrow> region p (unat obj_size) \<inter> region q (unat obj_size) = {}) \<and>
    (\<forall>p \<in> set ps. region p (unat obj_size) \<inter> slab_header s = {}) \<and> same_outside (slab_header s) m m2"
proof -
  obtain m1 s where s: "slab_create m obj_size max_objs start = Some (m1, s)" "wf_slab s"
    "max_store s = max_objs" "object_size s = obj_size" "slab_used m1 s = {}" "same_outside (slab_header s) m m1"
    using slab_create_eq [OF assms] by blast
  have "card (slab_slots s - slab_live m1 s) = unat max_objs"
    using s(3,5) card_image [OF slab_slot_addr_inj [OF s(2)]] by (simp add: slab_live_def slab_slots_def)
  then have "unat max_objs \<le> card (slab_slots s - slab_live m1 s)" by simp
  from slab_pool.alloc_list_distinct [OF s(2) this] obtain m2 ps where ps: "alloc_list slab_allocate (unat max_objs) m1 s = Some (m2, ps)"
    "length ps = unat max_objs" "distinct ps" "set ps \<subseteq> slab_slots s" "same_outside (slab_header s) m1 m2"
    by blast
  moreover have "NULL \<notin> set ps" using slab_pool.slots_not_NULL [OF s(2)] ps(4) by blast
  moreover have "region p (unat obj_size) \<inter> region q (unat obj_size) = {}"
    if "p \<in> set ps" "q \<in> set ps" "p \<noteq> q" for p q
    using slab_pool.objects_apart [OF s(2), of p q] that ps(4) s(4) by blast
  moreover have "region p (unat obj_size) \<inter> slab_header s = {}" if "p \<in> set ps" for p
    using slab_pool.objects_off_book [OF s(2), of p] that ps(4) s(4) by blast
  moreover have "same_outside (slab_header s) m m2" using s(6) ps(5) by (rule same_outside_trans)
  ultimately show ?thesis using s(1) by blast
qed

theorem slab_create_serves_all_witness:
  "\<exists>m1 s m2 ps. slab_create (\<lambda>_. 0xFF) 4096 16 0x40100000 = Some (m1, s) \<and>
    alloc_list slab_allocate 16 m1 s = Some (m2, ps) \<and> length ps = 16 \<and> distinct ps"
proof -
  have "slab_zone_ok 4096 16 0x40100000" by (simp add: slab_zone_ok_def slab_span_def)
  from slab_create_serves_all [OF this, of "\<lambda>_. 0xFF"] show ?thesis by auto
qed

end
