(* ===== verification/Heap_Alloc.thy ===== *)
theory Heap_Alloc
  imports Alloc_Interface
begin

text \<open>
  The block heap, \<open>kernel/alloc/heap.c\<close>: memory is handed out in runs of 4096-byte blocks, and
  a table with one byte per block records which blocks are taken and where each run starts and
  ends. The table lives in the byte memory. \<open>heap_ok\<close> relates table and counters to the set of
  runs that are allocated; allocation is proved to be first fit on that set and release to
  remove exactly the run that starts at the pointer.
\<close>

section \<open>Definitions\<close>

abbreviation (input) HEAP_BLOCK_SIZE_BYTES :: u64 where
  "HEAP_BLOCK_SIZE_BYTES \<equiv> 4096"

abbreviation (input) HEAP_BLOCK_TAKEN :: u8 where
  "HEAP_BLOCK_TAKEN \<equiv> 0x80"

abbreviation (input) HEAP_BLOCK_FIRST :: u8 where
  "HEAP_BLOCK_FIRST \<equiv> 0x40"

abbreviation (input) HEAP_BLOCK_LAST :: u8 where
  "HEAP_BLOCK_LAST \<equiv> 0x20"

record heap =
  heap_start_address :: addr
  heap_table :: addr
  blocks :: u64
  free_blocks :: u64

definition heap_createtable :: "mem \<Rightarrow> addr \<Rightarrow> addr \<Rightarrow> u64 \<Rightarrow> (mem \<times> heap) option" where
  \<comment> \<open>the loop stores through \<open>table\<close>, which it never advances; its \<open>int\<close> counter overflows
    beyond \<open>INT_MAX\<close> blocks\<close>
  "heap_createtable m start_address table_address heap_blocks =
     (if unat heap_blocks \<le> 2147483647 then
        let table = table_address;
            m' = fold (\<lambda>i m. m(table := 0)) [0..<unat heap_blocks] m
        in Some (m', \<lparr>heap_start_address = start_address, heap_table = table_address,
                      blocks = heap_blocks, free_blocks = heap_blocks\<rparr>)
      else None)"

lemma unat_dist_less:
  assumes "(block :: addr) < stop"
  shows "unat (stop - (block + 1)) < unat (stop - block)"
proof -
  have "stop - block \<noteq> 0" using assms by auto
  then show ?thesis
    using unat_pred [of "stop - block"] by (simp add: diff_diff_eq unat_gt_0)
qed

lemma ptr_next:
  assumes "(p :: addr) < q"
  shows "p < p + 1" and "p + 1 \<le> q" and "unat (p + 1) = Suc (unat p)"
proof -
  have "unat p + 1 < 2 ^ 64"
    using assms unat_less64 [of q] by (simp add: word_less_nat_alt)
  then show "unat (p + 1) = Suc (unat p)" by (simp add: unat_add64)
  with assms show "p < p + 1" "p + 1 \<le> q" by (simp_all add: word_less_nat_alt word_le_nat_alt)
qed

function heap_skip_taken :: "mem \<Rightarrow> addr \<Rightarrow> addr \<Rightarrow> addr" where
  "heap_skip_taken m last_block block =
     (if m block AND HEAP_BLOCK_TAKEN \<noteq> 0 \<and> block < last_block
      then heap_skip_taken m last_block (block + 1) else block)"
  by pat_completeness auto
termination
  by (relation "measure (\<lambda>(m, last_block, block). unat (last_block - block))")
    (auto simp: unat_dist_less)

declare heap_skip_taken.simps [simp del]

function heap_count_free :: "mem \<Rightarrow> u64 \<Rightarrow> addr \<Rightarrow> addr \<Rightarrow> u64 \<Rightarrow> addr \<times> u64" where
  "heap_count_free m alloc_blocks last_block block blocks_found =
     (if blocks_found < alloc_blocks \<and> block < last_block \<and> m block AND HEAP_BLOCK_TAKEN = 0
      then heap_count_free m alloc_blocks last_block (block + 1) (blocks_found + 1)
      else (block, blocks_found))"
  by pat_completeness auto
termination
  by (relation "measure (\<lambda>(m, alloc_blocks, last_block, block, blocks_found). unat (last_block - block))")
    (auto simp: unat_dist_less)

declare heap_count_free.simps [simp del]

lemma heap_skip_taken_bounds:
  "block < last_block \<Longrightarrow> block \<le> heap_skip_taken m last_block block \<and>
    heap_skip_taken m last_block block \<le> last_block \<and>
    (heap_skip_taken m last_block block \<noteq> last_block \<longrightarrow>
      m (heap_skip_taken m last_block block) AND HEAP_BLOCK_TAKEN = 0)"
proof (induction m last_block block rule: heap_skip_taken.induct)
  case (1 m last_block block)
  show ?case
  proof (cases "m block AND HEAP_BLOCK_TAKEN \<noteq> 0")
    case False
    with "1.prems" show ?thesis by (subst (1 2 3 4) heap_skip_taken.simps) auto
  next
    case True
    have eq: "heap_skip_taken m last_block block = heap_skip_taken m last_block (block + 1)"
      using True "1.prems" by (subst heap_skip_taken.simps) simp
    have le: "block < block + 1" "block + 1 \<le> last_block"
      using ptr_next [OF "1.prems"] by auto
    show ?thesis
    proof (cases "block + 1 < last_block")
      case True
      then show ?thesis
        using "1.IH" \<open>m block AND HEAP_BLOCK_TAKEN \<noteq> 0\<close> "1.prems" le(1) unfolding eq by auto
    next
      case False
      then have "heap_skip_taken m last_block (block + 1) = last_block"
        using le by (subst heap_skip_taken.simps) auto
      with "1.prems" show ?thesis unfolding eq by simp
    qed
  qed
qed

lemma heap_count_free_bounds:
  "block \<le> last_block \<Longrightarrow> block \<le> fst (heap_count_free m n last_block block k) \<and>
    fst (heap_count_free m n last_block block k) \<le> last_block"
proof (induction m n last_block block k rule: heap_count_free.induct)
  case (1 m n last_block block k)
  show ?case
  proof (cases "k < n \<and> block < last_block \<and> m block AND HEAP_BLOCK_TAKEN = 0")
    case True
    then have "block < block + 1" "block + 1 \<le> last_block"
      by (auto intro: ptr_next)
    with True "1.IH" show ?thesis by (subst (1 2) heap_count_free.simps) auto
  next
    case False
    with "1.prems" show ?thesis by (subst (1 2) heap_count_free.simps) auto
  qed
qed

lemma heap_search_progress:
  assumes "block < last_block" and "heap_skip_taken m last_block block \<noteq> last_block"
    and "(block', k) = heap_count_free m n last_block (heap_skip_taken m last_block block) 0"
    and "k \<noteq> n"
  shows "unat (last_block - block') < unat (last_block - block)"
proof -
  let ?s = "heap_skip_taken m last_block block"
  have s: "block \<le> ?s" "?s < last_block" "m ?s AND HEAP_BLOCK_TAKEN = 0"
    using heap_skip_taken_bounds [OF assms(1), of m] assms(2) by auto
  note pair = assms(3) [symmetric]
  then have "n \<noteq> 0" using assms(4) s by (subst (asm) heap_count_free.simps) auto
  then have "heap_count_free m n last_block (?s + 1) 1 = (block', k)"
    using pair s by (subst (asm) heap_count_free.simps) (auto simp: word_gt_0)
  then have "?s + 1 \<le> block'" "block' \<le> last_block"
    using heap_count_free_bounds [OF ptr_next(2) [OF s(2)], of m n 1] by auto
  then have "block < block'" "block' \<le> last_block"
    using s ptr_next(1) [OF s(2)] by auto
  then show ?thesis
    using assms(1) by (simp add: unat_sub word_le_nat_alt word_less_nat_alt)
qed

function heap_search :: "mem \<Rightarrow> u64 \<Rightarrow> addr \<Rightarrow> addr \<Rightarrow> (addr \<times> addr) option" where
  \<comment> \<open>the outer loop of \<open>heap_alloc\<close>: the run found, as its first entry and the one past it,
    or \<open>None\<close> for the jump to \<open>err\<close>\<close>
  "heap_search m alloc_blocks last_block block =
     (if block < last_block then
        (let start = heap_skip_taken m last_block block
         in if start = last_block then None
            else
              (case heap_count_free m alloc_blocks last_block start 0 of
                 (block', blocks_found) \<Rightarrow>
                   if blocks_found = alloc_blocks then Some (start, block')
                   else if block' = last_block then None
                   else heap_search m alloc_blocks last_block block'))
      else None)"
  by pat_completeness auto
termination
  by (relation "measure (\<lambda>(m, alloc_blocks, last_block, block). unat (last_block - block))")
    (auto intro: heap_search_progress)

declare heap_search.simps [simp del]

partial_function (option) mark_taken_loop :: "mem \<Rightarrow> addr \<Rightarrow> addr \<Rightarrow> mem option" where
  "mark_taken_loop m from to =
     (if from \<le> to then mark_taken_loop (m(from := m from OR HEAP_BLOCK_TAKEN)) (from + 1) to
      else Some m)"

definition mark_region_taken :: "mem \<Rightarrow> addr \<Rightarrow> addr \<Rightarrow> mem option" where
  "mark_region_taken m from to =
     (let m1 = m(from := m from OR HEAP_BLOCK_FIRST);
          m2 = m1(to := m1 to OR HEAP_BLOCK_LAST)
      in mark_taken_loop m2 from to)"

definition heap_alloc :: "mem \<Rightarrow> heap \<Rightarrow> u64 \<Rightarrow> (mem \<times> heap \<times> addr) option" where
  "heap_alloc m heap sz =
     (if sz = 0 then Some (m, heap, NULL)
      else
        let block = heap_table heap;
            alloc_blocks = sz div HEAP_BLOCK_SIZE_BYTES;
            alloc_blocks =
              (if sz mod HEAP_BLOCK_SIZE_BYTES \<noteq> 0 then alloc_blocks + 1 else alloc_blocks);
            last_block = block + blocks heap
        in case heap_search m alloc_blocks last_block block of
             None \<Rightarrow> Some (m, heap, NULL)
           | Some (start, block') \<Rightarrow> do {
               m' \<leftarrow> mark_region_taken m start (block' - 1);
               let heap' = heap\<lparr>free_blocks := free_blocks heap - alloc_blocks\<rparr>;
               offset \<leftarrow> int_res (c_int (start - heap_table heap) * 4096);
               Some (m', heap', heap_start_address heap + of_int offset)
             })"

partial_function (option) mark_free_loop :: "mem \<Rightarrow> addr \<Rightarrow> u64 \<Rightarrow> (mem \<times> u64) option" where
  "mark_free_loop m from freed =
     (if m from AND HEAP_BLOCK_LAST = 0
      then mark_free_loop (m(from := 0)) (from + 1) (freed + 1)
      else Some (m(from := 0), freed))"

definition mark_region_free :: "mem \<Rightarrow> addr \<Rightarrow> (mem \<times> u64) option" where
  "mark_region_free m from = mark_free_loop m from 1"

definition heap_free :: "mem \<Rightarrow> heap \<Rightarrow> addr \<Rightarrow> (mem \<times> heap) option" where
  "heap_free m heap ptr =
     (let offset = c_int (ptr - heap_start_address heap);
          start = heap_table heap + of_int (offset sdiv 4096)
      in if m start AND HEAP_BLOCK_FIRST = 0 then Some (m, heap)
         else do {
           (m', freed) \<leftarrow> mark_region_free m start;
           let freed_blocks = c_int freed;
           Some (m', heap\<lparr>free_blocks := free_blocks heap + of_int freed_blocks\<rparr>)
         })"

definition heap_table_size :: "u64 \<Rightarrow> u64" where
  \<comment> \<open>\<open>heap_table_t\<close> is a pointer type of 8 bytes\<close>
  "heap_table_size n = n * 8"

definition heap_get_free_blocks :: "heap \<Rightarrow> u64" where
  "heap_get_free_blocks heap = free_blocks heap"

section \<open>The search is first fit\<close>

definition blk_free :: "mem \<Rightarrow> addr \<Rightarrow> nat \<Rightarrow> bool" where
  "blk_free m tbl j \<longleftrightarrow> m (tbl + of_nat j) AND HEAP_BLOCK_TAKEN = 0"

definition blk_fits :: "mem \<Rightarrow> addr \<Rightarrow> nat \<Rightarrow> nat \<Rightarrow> nat \<Rightarrow> bool" where
  "blk_fits m tbl b n i \<longleftrightarrow> i + n \<le> b \<and> (\<forall>j \<in> {i..<i + n}. blk_free m tbl j)"

lemma heap_skip_taken_eq:
  assumes "unat tbl + b < 2 ^ 64" and "k \<le> b"
  shows "\<exists>k'. heap_skip_taken m (tbl + of_nat b) (tbl + of_nat k) = tbl + of_nat k' \<and> k \<le> k' \<and> k' \<le> b \<and>
    (\<forall>j \<in> {k..<k'}. \<not> blk_free m tbl j) \<and> (k' < b \<longrightarrow> blk_free m tbl k')"
  using assms(2)
proof (induction rule: inc_induct)
  case base
  show ?case by (subst heap_skip_taken.simps) auto
next
  case (step k)
  show ?case
  proof (cases "blk_free m tbl k")
    case True
    then show ?thesis using step.hyps
      by (subst heap_skip_taken.simps) (auto simp: blk_free_def intro!: exI [of _ k])
  next
    case False
    then have "heap_skip_taken m (tbl + of_nat b) (tbl + of_nat k) =
        heap_skip_taken m (tbl + of_nat b) (tbl + of_nat (Suc k))"
      using step.hyps ptr_index(1) [OF assms(1), of k b]
      by (subst heap_skip_taken.simps) (simp add: blk_free_def add.assoc add.commute [of 1])
    moreover obtain k' where "heap_skip_taken m (tbl + of_nat b) (tbl + of_nat (Suc k)) = tbl + of_nat k'"
      "Suc k \<le> k'" "k' \<le> b" "\<forall>j \<in> {Suc k..<k'}. \<not> blk_free m tbl j" "k' < b \<longrightarrow> blk_free m tbl k'"
      using step.IH by blast
    moreover from this False have "\<forall>j \<in> {k..<k'}. \<not> blk_free m tbl j"
      by (metis Suc_leI atLeastLessThan_iff le_neq_implies_less)
    ultimately show ?thesis by (metis Suc_leD)
  qed
qed

lemma heap_count_free_eq:
  assumes "unat tbl + b < 2 ^ 64" and "n < 2 ^ 64" and "k \<le> b" and "f \<le> n"
  shows "\<exists>c. heap_count_free m (of_nat n) (tbl + of_nat b) (tbl + of_nat k) (of_nat f) =
      (tbl + of_nat (k + c), of_nat (f + c)) \<and> f + c \<le> n \<and> k + c \<le> b \<and>
    (\<forall>j \<in> {k..<k + c}. blk_free m tbl j) \<and> (f + c = n \<or> k + c = b \<or> \<not> blk_free m tbl (k + c))"
  using assms(3,4)
proof (induction arbitrary: f rule: inc_induct)
  case base
  then show ?case by (subst heap_count_free.simps) (auto intro!: exI [of _ 0])
next
  case (step k)
  show ?case
  proof (cases "f < n \<and> blk_free m tbl k")
    case True
    have "(of_nat f :: u64) < of_nat n"
      using True assms(2) by (simp add: word_less_nat_alt unat_of_nat64)
    then have eq: "heap_count_free m (of_nat n) (tbl + of_nat b) (tbl + of_nat k) (of_nat f) =
        heap_count_free m (of_nat n) (tbl + of_nat b) (tbl + of_nat (Suc k)) (of_nat (Suc f))"
      using True step.hyps ptr_index(1) [OF assms(1), of k b]
      by (subst heap_count_free.simps) (simp add: blk_free_def add.assoc add.commute [of 1])
    obtain c where c: "heap_count_free m (of_nat n) (tbl + of_nat b) (tbl + of_nat (Suc k)) (of_nat (Suc f)) =
        (tbl + of_nat (Suc k + c), of_nat (Suc f + c))" "Suc f + c \<le> n" "Suc k + c \<le> b"
      "\<forall>j \<in> {Suc k..<Suc k + c}. blk_free m tbl j"
      "Suc f + c = n \<or> Suc k + c = b \<or> \<not> blk_free m tbl (Suc k + c)"
      using step.IH [of "Suc f"] True by auto
    have "\<forall>j \<in> {k..<k + Suc c}. blk_free m tbl j"
      using c(4) True by (metis Suc_leI add_Suc_shift atLeastLessThan_iff le_neq_implies_less)
    with c eq show ?thesis by (intro exI [of _ "Suc c"]) simp
  next
    case False
    have "(of_nat f :: u64) < of_nat n \<longleftrightarrow> f < n"
      using assms(2) step.prems by (simp add: word_less_nat_alt unat_of_nat64)
    with False step show ?thesis
      by (subst heap_count_free.simps) (auto simp: blk_free_def intro!: exI [of _ 0])
  qed
qed

definition first_fit :: "mem \<Rightarrow> addr \<Rightarrow> nat \<Rightarrow> nat \<Rightarrow> nat \<Rightarrow> nat option \<Rightarrow> bool" where
  \<comment> \<open>the outcome of a search from block \<open>k\<close>: the least position that fits, or none\<close>
  "first_fit m tbl b n k r \<longleftrightarrow>
     (case r of
        None \<Rightarrow> \<forall>i \<ge> k. \<not> blk_fits m tbl b n i
      | Some i \<Rightarrow> k \<le> i \<and> blk_fits m tbl b n i \<and> (\<forall>j. k \<le> j \<and> j < i \<longrightarrow> \<not> blk_fits m tbl b n j))"

lemma first_fit_skip:
  assumes "first_fit m tbl b n k' r" and "k \<le> k'" and "\<And>j. k \<le> j \<Longrightarrow> j < k' \<Longrightarrow> \<not> blk_fits m tbl b n j"
  shows "first_fit m tbl b n k r"
proof (cases r)
  case None
  with assms show ?thesis by (simp add: first_fit_def) (metis leI)
next
  case (Some i)
  with assms show ?thesis by (simp add: first_fit_def) (metis leI)
qed

lemma first_fit_None: "0 < n \<Longrightarrow> first_fit m tbl b n b None"
  by (simp add: first_fit_def blk_fits_def)

lemma heap_search_iteration:
  assumes "unat tbl + b < 2 ^ 64" and "n < 2 ^ 64" and "0 < n" and "k < b"
  shows "(\<exists>r. heap_search m (of_nat n) (tbl + of_nat b) (tbl + of_nat k) =
        map_option (\<lambda>i. (tbl + of_nat i, tbl + of_nat (i + n))) r \<and> first_fit m tbl b n k r) \<or>
    (\<exists>k' > k. k' \<le> b \<and> (\<forall>j. k \<le> j \<and> j < k' \<longrightarrow> \<not> blk_fits m tbl b n j) \<and>
      heap_search m (of_nat n) (tbl + of_nat b) (tbl + of_nat k) =
      heap_search m (of_nat n) (tbl + of_nat b) (tbl + of_nat k'))"
    (is "(\<exists>r. ?search k = _ \<and> _) \<or> _")
proof -
  note idx = ptr_index [OF assms(1)]
  note unfold = heap_search.simps [of m "of_nat n" "tbl + of_nat b" "tbl + of_nat k"]
  have lt: "tbl + of_nat k < tbl + of_nat b" using idx(1) assms(4) by simp
  obtain s where s: "heap_skip_taken m (tbl + of_nat b) (tbl + of_nat k) = tbl + of_nat s" "k \<le> s" "s \<le> b"
    "\<forall>j \<in> {k..<s}. \<not> blk_free m tbl j" "s < b \<longrightarrow> blk_free m tbl s"
    using heap_skip_taken_eq [OF assms(1) less_imp_le [OF assms(4)], of m] by blast
  have skip: "\<not> blk_fits m tbl b n j" if "k \<le> j" "j < s" for j
    using that s(4) assms(3) by (auto simp: blk_fits_def intro!: bexI [of _ j])
  have stop: ?thesis if "?search k = map_option (\<lambda>i. (tbl + of_nat i, tbl + of_nat (i + n))) r"
    "first_fit m tbl b n k' r" "k \<le> k'" "\<And>j. k \<le> j \<Longrightarrow> j < k' \<Longrightarrow> \<not> blk_fits m tbl b n j" for r k'
    using that first_fit_skip by blast
  obtain c where c: "heap_count_free m (of_nat n) (tbl + of_nat b) (tbl + of_nat s) 0 =
      (tbl + of_nat (s + c), of_nat c)" "c \<le> n" "s + c \<le> b" "\<forall>j \<in> {s..<s + c}. blk_free m tbl j"
    "c = n \<or> s + c = b \<or> \<not> blk_free m tbl (s + c)"
    using heap_count_free_eq [OF assms(1,2) s(3), of 0 m] by auto
  have c_n: "(of_nat c :: u64) = of_nat n \<longleftrightarrow> c = n"
    using c(2) assms(2) by (simp add: word_unat_eq_iff unat_of_nat64)
  have run: "\<not> blk_fits m tbl b n j" if "c \<noteq> n" "k \<le> j" "j < s + c" for j
  proof (cases "j < s")
    case False
    with that c(2,5) show ?thesis by (auto simp: blk_fits_def intro!: bexI [of _ "s + c"])
  qed (use that skip in simp)
  have eqs: "tbl + of_nat s = tbl + of_nat b \<longleftrightarrow> s = b" "tbl + of_nat (s + c) = tbl + of_nat b \<longleftrightarrow> s + c = b"
    using idx(3) [of s b] idx(3) [of "s + c" b] s(3) c(3) by simp_all
  consider "s = b" | "s \<noteq> b" "c = n" | "c \<noteq> n" "s + c = b" "s \<noteq> b" | "c \<noteq> n" "s + c \<noteq> b" "s \<noteq> b" by blast
  then show ?thesis
  proof cases
    case 1
    then show ?thesis
      using stop [of None b] s(2) skip first_fit_None [OF assms(3)] lt s(1) unfold by simp
  next
    case 2
    then have "first_fit m tbl b n s (Some s)" using c by (simp add: first_fit_def blk_fits_def)
    with 2 show ?thesis
      using stop [of "Some s" s] s(2) skip unfold lt s(1) eqs c(1) c_n by simp
  next
    case 3
    then show ?thesis
      using stop [of None b] run s(2) first_fit_None [OF assms(3)] lt s(1) unfold eqs c(1) c_n by auto
  next
    case 4
    have "0 < c" using s(3,5) c(5) 4 by (cases c) auto
    moreover have "?search k = ?search (s + c)"
      unfolding unfold using lt s(1) eqs c(1) c_n 4 by simp
    ultimately show ?thesis using 4(1) run s(2) c(3) by (intro disjI2 exI [of _ "s + c"]) auto
  qed
qed

lemma heap_search_first_fit:
  assumes "unat tbl + b < 2 ^ 64" and "n < 2 ^ 64" and "0 < n" and "k \<le> b"
  shows "\<exists>r. heap_search m (of_nat n) (tbl + of_nat b) (tbl + of_nat k) =
      map_option (\<lambda>i. (tbl + of_nat i, tbl + of_nat (i + n))) r \<and> first_fit m tbl b n k r"
  using assms(4)
proof (induction "b - k" arbitrary: k rule: less_induct)
  case less
  show ?case
  proof (cases "k < b")
    case False
    with less.prems have "k = b" by simp
    moreover have "heap_search m (of_nat n) (tbl + of_nat b) (tbl + of_nat b) = None"
      by (subst heap_search.simps) simp
    ultimately show ?thesis using first_fit_None [OF assms(3)] by (intro exI [of _ None]) simp
  next
    case True
    from heap_search_iteration [OF assms(1-3) True, of m] show ?thesis
    proof (elim disjE)
      assume "\<exists>k' > k. k' \<le> b \<and> (\<forall>j. k \<le> j \<and> j < k' \<longrightarrow> \<not> blk_fits m tbl b n j) \<and>
        heap_search m (of_nat n) (tbl + of_nat b) (tbl + of_nat k) =
        heap_search m (of_nat n) (tbl + of_nat b) (tbl + of_nat k')"
      then obtain k' where k': "k < k'" "k' \<le> b" "\<And>j. k \<le> j \<Longrightarrow> j < k' \<Longrightarrow> \<not> blk_fits m tbl b n j"
        "heap_search m (of_nat n) (tbl + of_nat b) (tbl + of_nat k) =
         heap_search m (of_nat n) (tbl + of_nat b) (tbl + of_nat k')" by blast
      from True k'(1) have "b - k' < b - k" by simp
      from less.hyps [OF this k'(2)] obtain r where r:
        "heap_search m (of_nat n) (tbl + of_nat b) (tbl + of_nat k') =
          map_option (\<lambda>i. (tbl + of_nat i, tbl + of_nat (i + n))) r"
        "first_fit m tbl b n k' r" by blast
      have "first_fit m tbl b n k r"
        by (rule first_fit_skip [OF r(2)]) (use k' in auto)
      with r(1) k'(4) show ?thesis by auto
    qed blast
  qed
qed

section \<open>Runs and the table that records them\<close>

type_synonym runs = "(nat \<times> nat) set"

definition runs_taken :: "runs \<Rightarrow> nat set" where
  "runs_taken R = (\<Union>(i, n) \<in> R. {i..<i + n})"

definition runs_last :: "runs \<Rightarrow> nat set" where
  "runs_last R = (\<lambda>(i, n). i + n - 1) ` R"

definition heap_entry :: "runs \<Rightarrow> nat \<Rightarrow> u8" where
  "heap_entry R j = (if j \<in> runs_taken R then HEAP_BLOCK_TAKEN else 0) OR
     (if j \<in> fst ` R then HEAP_BLOCK_FIRST else 0) OR (if j \<in> runs_last R then HEAP_BLOCK_LAST else 0)"

definition wf_runs :: "nat \<Rightarrow> runs \<Rightarrow> bool" where
  "wf_runs b R \<longleftrightarrow> (\<forall>(i, n) \<in> R. 0 < n \<and> i + n \<le> b) \<and>
     (\<forall>(i, n) \<in> R. \<forall>(j, k) \<in> R. (i, n) \<noteq> (j, k) \<longrightarrow> {i..<i + n} \<inter> {j..<j + k} = {})"

definition heap_ok :: "mem \<Rightarrow> heap \<Rightarrow> runs \<Rightarrow> bool" where
  "heap_ok m h R \<longleftrightarrow>
     unat (blocks h) \<le> 524288 \<and> unat (heap_table h) + unat (blocks h) < 2 ^ 64 \<and>
     0 < unat (heap_start_address h) \<and> unat (heap_start_address h) + 4096 * unat (blocks h) \<le> 2 ^ 64 \<and>
     wf_runs (unat (blocks h)) R \<and>
     (\<forall>j < unat (blocks h). m (heap_table h + of_nat j) = heap_entry R j) \<and>
     unat (free_blocks h) + card (runs_taken R) = unat (blocks h)"

definition heap_run_addr :: "heap \<Rightarrow> nat \<Rightarrow> addr" where
  "heap_run_addr h i = heap_start_address h + of_nat (4096 * i)"

lemma heap_entry_flags:
  "heap_entry R j AND HEAP_BLOCK_TAKEN = 0 \<longleftrightarrow> j \<notin> runs_taken R"
  "heap_entry R j AND HEAP_BLOCK_FIRST = 0 \<longleftrightarrow> j \<notin> fst ` R"
  "heap_entry R j AND HEAP_BLOCK_LAST = 0 \<longleftrightarrow> j \<notin> runs_last R"
  by (simp_all add: heap_entry_def)

lemma runs_taken_less: "wf_runs b R \<Longrightarrow> runs_taken R \<subseteq> {..<b}"
  by (fastforce simp: wf_runs_def runs_taken_def)

lemma runs_ends_taken: "wf_runs b R \<Longrightarrow> fst ` R \<union> runs_last R \<subseteq> runs_taken R"
  by (fastforce simp: wf_runs_def runs_taken_def runs_last_def)

lemma heap_entry_free: "wf_runs b R \<Longrightarrow> j \<notin> runs_taken R \<Longrightarrow> heap_entry R j = 0"
  using runs_ends_taken [of b R] by (auto simp: heap_entry_def)

lemma runs_insert:
  "runs_taken (insert (i, n) R) = {i..<i + n} \<union> runs_taken R"
  "runs_last (insert (i, n) R) = insert (i + n - 1) (runs_last R)"
  by (simp_all add: runs_taken_def runs_last_def)

lemma wf_runs_insert:
  assumes "wf_runs b R" and "0 < n" and "i + n \<le> b" and "{i..<i + n} \<inter> runs_taken R = {}"
  shows "wf_runs b (insert (i, n) R)"
proof -
  have new: "{i..<i + n} \<inter> {j..<j + k} = {}" if "(j, k) \<in> R" for j k
  proof -
    have "{j..<j + k} \<subseteq> runs_taken R" using that by (force simp: runs_taken_def)
    then show ?thesis using assms(4) by blast
  qed
  then have "{j..<j + k} \<inter> {i..<i + n} = {}" if "(j, k) \<in> R" for j k
    using that by blast
  with new assms(1-3) show ?thesis unfolding wf_runs_def by blast
qed

lemma wf_runs_remove: "wf_runs b R \<Longrightarrow> wf_runs b (R - X)"
  unfolding wf_runs_def by blast

lemma runs_unique:
  assumes "wf_runs b R" and "(i, n) \<in> R" and "(j, k) \<in> R" and "x \<in> {i..<i + n}" and "x \<in> {j..<j + k}"
  shows "(j, k) = (i, n)"
  using assms unfolding wf_runs_def by blast

lemma wf_runs_apart:
  "wf_runs b R \<Longrightarrow> (i, n) \<in> R \<Longrightarrow> (j, k) \<in> R \<Longrightarrow> (i, n) \<noteq> (j, k) \<Longrightarrow> {i..<i + n} \<inter> {j..<j + k} = {}"
  using runs_unique [of b R i n j k] by blast

lemma runs_remove:
  assumes "wf_runs b R" and "(i, n) \<in> R"
  shows "runs_taken (R - {(i, n)}) = runs_taken R - {i..<i + n}"
    and "fst ` (R - {(i, n)}) = fst ` R - {i}"
    and "runs_last (R - {(i, n)}) = runs_last R - {i + n - 1}"
proof -
  have pos: "0 < k" if "(j, k) \<in> R" for j k using that assms(1) by (auto simp: wf_runs_def)
  note unique = runs_unique [OF assms]
  show "runs_taken (R - {(i, n)}) = runs_taken R - {i..<i + n}"
    using unique unfolding runs_taken_def by (auto; blast)
  have "j \<noteq> i" if "(j, k) \<in> R" "(j, k) \<noteq> (i, n)" for j k
    using unique [of j k i] pos that assms(2) by auto
  then show "fst ` (R - {(i, n)}) = fst ` R - {i}" by force
  have "j + k - 1 \<noteq> i + n - 1" if "(j, k) \<in> R" "(j, k) \<noteq> (i, n)" for j k
  proof
    assume eq: "j + k - 1 = i + n - 1"
    have "i + n - 1 \<in> {i..<i + n}" using pos [OF assms(2)] by auto
    moreover have "i + n - 1 \<in> {j..<j + k}" using pos [OF that(1)] unfolding eq [symmetric] by auto
    ultimately show False using unique [OF that(1)] that(2) by blast
  qed
  then show "runs_last (R - {(i, n)}) = runs_last R - {i + n - 1}"
    unfolding runs_last_def by (fastforce simp: image_iff)
qed

section \<open>Marking\<close>

definition or_region :: "addr \<Rightarrow> nat \<Rightarrow> u8 \<Rightarrow> mem \<Rightarrow> mem" where
  "or_region a n v m = (\<lambda>p. if p \<in> region a n then m p OR v else m p)"

lemma mark_taken_loop_eq:
  assumes "unat tbl + b < 2 ^ 64" and "i \<le> e" and "0 < e" and "e \<le> b"
  shows "mark_taken_loop m (tbl + of_nat i) (tbl + of_nat (e - 1)) =
    Some (or_region (tbl + of_nat i) (e - i) HEAP_BLOCK_TAKEN m)"
  using assms(2)
proof (induction arbitrary: m rule: inc_induct)
  case base
  have "\<not> tbl + of_nat e \<le> tbl + of_nat (e - 1)"
    using ptr_index(2) [OF assms(1), of e "e - 1"] assms(3,4) by auto
  then show ?case by (subst mark_taken_loop.simps) (simp add: or_region_def)
next
  case (step k)
  let ?p = "tbl + of_nat k" and ?q = "tbl + of_nat (Suc k)"
  let ?m = "m(?p := m ?p OR HEAP_BLOCK_TAKEN)"
  have "?p \<le> tbl + of_nat (e - 1)"
    using ptr_index(2) [OF assms(1), of k "e - 1"] step.hyps assms(4) by simp
  then have "mark_taken_loop m ?p (tbl + of_nat (e - 1)) = mark_taken_loop ?m ?q (tbl + of_nat (e - 1))"
    by (subst mark_taken_loop.simps) (simp add: add.assoc add.commute [of 1])
  moreover have "or_region ?q (e - Suc k) HEAP_BLOCK_TAKEN ?m = or_region ?p (e - k) HEAP_BLOCK_TAKEN m"
  proof -
    have q: "?q = ?p + 1" by (simp add: algebra_simps)
    have "region ?p (e - k) = insert ?p (region ?q (e - Suc k))"
      unfolding q region_Suc [symmetric] using step.hyps by (simp add: Suc_diff_Suc)
    moreover have "?p \<notin> region ?q (e - Suc k)"
      unfolding q using assms(1,4) by (intro not_in_region_next) simp
    ultimately show ?thesis
      unfolding or_region_def by (auto simp only: fun_eq_iff fun_upd_apply insert_iff split: if_split)
  qed
  ultimately show ?case by (simp only: step.IH)
qed

lemma mark_region_taken_eq:
  assumes "unat tbl + b < 2 ^ 64" and "0 < n" and "i + n \<le> b"
  shows "\<exists>m'. mark_region_taken m (tbl + of_nat i) (tbl + of_nat (i + n) - 1) = Some m' \<and>
    same_outside (region (tbl + of_nat i) n) m m' \<and>
    (\<forall>j < b. m' (tbl + of_nat j) = m (tbl + of_nat j) OR (if j \<in> {i..<i + n} then HEAP_BLOCK_TAKEN else 0) OR
      (if j = i then HEAP_BLOCK_FIRST else 0) OR (if j = i + n - 1 then HEAP_BLOCK_LAST else 0))"
proof -
  let ?f = "tbl + of_nat i" and ?l = "tbl + of_nat (i + n - 1)"
  let ?m1 = "m(?f := m ?f OR HEAP_BLOCK_FIRST)"
  let ?m2 = "?m1(?l := ?m1 ?l OR HEAP_BLOCK_LAST)"
  let ?m' = "or_region ?f n HEAP_BLOCK_TAKEN ?m2"
  have l: "tbl + of_nat (i + n) - 1 = ?l" using assms(2) by simp
  have "mark_taken_loop ?m2 ?f ?l = Some ?m'"
    using mark_taken_loop_eq [OF assms(1), of i "i + n" ?m2] assms(2,3) by simp
  then have "mark_region_taken m ?f (tbl + of_nat (i + n) - 1) = Some ?m'"
    unfolding mark_region_taken_def Let_def l .
  moreover have in_run: "tbl + of_nat j \<in> region ?f n \<longleftrightarrow> j \<in> {i..<i + n}" if "j < b" for j
    using region_index [OF assms(1,3), of j] that by simp
  moreover have "?m' (tbl + of_nat j) = m (tbl + of_nat j) OR (if j \<in> {i..<i + n} then HEAP_BLOCK_TAKEN else 0) OR
      (if j = i then HEAP_BLOCK_FIRST else 0) OR (if j = i + n - 1 then HEAP_BLOCK_LAST else 0)" if "j < b" for j
    using ptr_index(3) [OF assms(1), of j i] ptr_index(3) [OF assms(1), of j "i + n - 1"] that in_run [OF that]
      assms(2,3) by (auto simp: or_region_def ac_simps simp del: in_region of_nat_diff)
  moreover have "same_outside (region ?f n) m ?m'"
    using in_run [of i] in_run [of "i + n - 1"] assms(2,3)
    by (auto simp: same_outside_def or_region_def simp del: in_region of_nat_diff)
  ultimately show ?thesis by blast
qed

lemma mark_free_loop_eq:
  assumes "unat tbl + b < 2 ^ 64" and "i \<le> l" and "l < b"
    and "m (tbl + of_nat l) AND HEAP_BLOCK_LAST \<noteq> 0"
    and "\<And>j. i \<le> j \<Longrightarrow> j < l \<Longrightarrow> m (tbl + of_nat j) AND HEAP_BLOCK_LAST = 0"
  shows "mark_free_loop m (tbl + of_nat i) f =
    Some (fill (tbl + of_nat i) (Suc (l - i)) 0 m, f + of_nat (l - i))"
  using assms(2,4,5)
proof (induction arbitrary: m f rule: inc_induct)
  case base
  then show ?case
    by (subst mark_free_loop.simps) (auto simp: fill_def region_Suc simp del: in_region)
next
  case (step k)
  let ?p = "tbl + of_nat k" and ?q = "tbl + of_nat (Suc k)"
  have q: "?q = ?p + 1" by (simp add: algebra_simps)
  have "mark_free_loop m ?p f = mark_free_loop (m(?p := 0)) ?q (f + 1)"
    using step.prems(2) [of k] step.hyps by (subst mark_free_loop.simps) (simp add: algebra_simps)
  also have "\<dots> = Some (fill ?q (Suc (l - Suc k)) 0 (m(?p := 0)), f + 1 + of_nat (l - Suc k))"
  proof (rule step.IH)
    show "(m(?p := 0)) (tbl + of_nat l) AND HEAP_BLOCK_LAST \<noteq> 0"
      using step ptr_index(3) [OF assms(1), of l k] assms(3) by simp
    show "(m(?p := 0)) (tbl + of_nat j) AND HEAP_BLOCK_LAST = 0" if "Suc k \<le> j" "j < l" for j
      using that step.prems(2) [of j] by simp
  qed
  also have "fill ?q (Suc (l - Suc k)) 0 (m(?p := 0)) = fill ?p (Suc (l - k)) 0 m"
  proof -
    have "region ?p (Suc (l - k)) = insert ?p (region ?q (Suc (l - Suc k)))"
      unfolding q region_Suc [symmetric] using step.hyps by (simp only: Suc_diff_Suc)
    then show ?thesis unfolding fill_def by (auto simp only: fun_eq_iff fun_upd_apply insert_iff split: if_split)
  qed
  also have "f + 1 + of_nat (l - Suc k) = f + of_nat (l - k)"
    using step.hyps by simp
  finally show ?case .
qed

section \<open>Operations against the set of runs\<close>

lemma heap_okD:
  assumes "heap_ok m h R"
  shows "unat (blocks h) \<le> 524288" "unat (heap_table h) + unat (blocks h) < 2 ^ 64"
    "wf_runs (unat (blocks h)) R" "\<And>j. j < unat (blocks h) \<Longrightarrow> m (heap_table h + of_nat j) = heap_entry R j"
    "unat (free_blocks h) + card (runs_taken R) = unat (blocks h)"
  using assms by (auto simp: heap_ok_def)

lemma heap_ok_fits:
  assumes "heap_ok m h R"
  shows "blk_fits m (heap_table h) (unat (blocks h)) n i \<longleftrightarrow>
    i + n \<le> unat (blocks h) \<and> {i..<i + n} \<inter> runs_taken R = {}"
proof -
  have "blk_free m (heap_table h) j \<longleftrightarrow> j \<notin> runs_taken R" if "j < unat (blocks h)" for j
    using heap_okD(4) [OF assms that] by (simp add: blk_free_def heap_entry_flags)
  then show ?thesis by (auto simp: blk_fits_def disjoint_iff)
qed

lemma heap_ok_alloc:
  assumes "heap_ok m h R" and "0 < n" and "i + n \<le> unat (blocks h)" and "{i..<i + n} \<inter> runs_taken R = {}"
  shows "\<exists>m'. mark_region_taken m (heap_table h + of_nat i) (heap_table h + of_nat (i + n) - 1) = Some m' \<and>
    same_outside (region (heap_table h + of_nat i) n) m m' \<and>
    heap_ok m' (h\<lparr>free_blocks := free_blocks h - of_nat n\<rparr>) (insert (i, n) R)"
proof -
  note ok = heap_okD [OF assms(1)]
  let ?tbl = "heap_table h"
  obtain m' where m': "mark_region_taken m (?tbl + of_nat i) (?tbl + of_nat (i + n) - 1) = Some m'"
    "same_outside (region (?tbl + of_nat i) n) m m'"
    "\<And>j. j < unat (blocks h) \<Longrightarrow> m' (?tbl + of_nat j) = m (?tbl + of_nat j) OR
      (if j \<in> {i..<i + n} then HEAP_BLOCK_TAKEN else 0) OR
      (if j = i then HEAP_BLOCK_FIRST else 0) OR (if j = i + n - 1 then HEAP_BLOCK_LAST else 0)"
    using mark_region_taken_eq [OF ok(2) assms(2,3), of m] by blast
  have entries: "m' (?tbl + of_nat j) = heap_entry (insert (i, n) R) j" if "j < unat (blocks h)" for j
  proof (cases "j \<in> {i..<i + n}")
    case True
    then have "j \<notin> runs_taken R" using assms(4) by blast
    then have "m (?tbl + of_nat j) = 0" "j \<notin> fst ` R" "j \<notin> runs_last R"
      using ok(4) [OF that] heap_entry_free [OF ok(3)] runs_ends_taken [OF ok(3)] by auto
    with True m'(3) [OF that] show ?thesis by (simp add: heap_entry_def runs_insert)
  next
    case False
    then have "j \<noteq> i" "j \<noteq> i + n - 1" using assms(2) by auto
    with False m'(3) [OF that] ok(4) [OF that] show ?thesis
      by (auto simp: heap_entry_def runs_insert)
  qed
  have card: "card (runs_taken (insert (i, n) R)) = n + card (runs_taken R)"
    using assms(4) finite_subset [OF runs_taken_less [OF ok(3)]]
    by (simp add: runs_insert card_Un_disjoint)
  have "card (runs_taken (insert (i, n) R)) \<le> unat (blocks h)"
    using card_mono [OF _ runs_taken_less [OF wf_runs_insert [OF ok(3) assms(2-4)]]] by simp
  then have "unat (free_blocks h - of_nat n) = unat (free_blocks h) - n" "n \<le> unat (free_blocks h)"
    using card ok(1,5) by (auto simp: unat_sub unat_of_nat64 word_le_nat_alt)
  then have "heap_ok m' (h\<lparr>free_blocks := free_blocks h - of_nat n\<rparr>) (insert (i, n) R)"
    using assms(1) entries card wf_runs_insert [OF ok(3) assms(2-4)] by (simp add: heap_ok_def)
  with m' show ?thesis by blast
qed

lemma heap_blocks_needed:
  "(if sz mod HEAP_BLOCK_SIZE_BYTES \<noteq> 0 then sz div HEAP_BLOCK_SIZE_BYTES + 1
    else sz div HEAP_BLOCK_SIZE_BYTES) = of_nat (ceil_div (unat sz) 4096)"
proof (cases "sz mod HEAP_BLOCK_SIZE_BYTES = 0")
  case True
  then show ?thesis using word_ceil_div [of 4096 sz] by (simp only: if_True if_False) simp
next
  case False
  then show ?thesis using word_ceil_div [of 4096 sz] by (simp only: if_True if_False) simp
qed

lemma heap_alloc_eq:
  assumes "heap_ok m h R" and "0 < unat sz"
  defines "n \<equiv> ceil_div (unat sz) 4096"
  shows "(\<nexists>i. blk_fits m (heap_table h) (unat (blocks h)) n i) \<and> heap_alloc m h sz = Some (m, h, NULL) \<or>
    (\<exists>i m'. blk_fits m (heap_table h) (unat (blocks h)) n i \<and>
      (\<forall>j < i. \<not> blk_fits m (heap_table h) (unat (blocks h)) n j) \<and>
      heap_alloc m h sz = Some (m', h\<lparr>free_blocks := free_blocks h - of_nat n\<rparr>, heap_run_addr h i) \<and>
      same_outside (region (heap_table h + of_nat i) n) m m' \<and>
      heap_ok m' (h\<lparr>free_blocks := free_blocks h - of_nat n\<rparr>) (insert (i, n) R))"
proof -
  note ok = heap_okD [OF assms(1)]
  let ?tbl = "heap_table h" and ?b = "unat (blocks h)"
  have n: "0 < n" "n < 2 ^ 64"
    using ceil_div_pos [of 4096 "unat sz"] ceil_div_less [of 4096 "unat sz"] assms(2) unat_less64 [of sz]
    by (simp_all add: n_def)
  obtain r where r: "heap_search m (of_nat n) (?tbl + of_nat ?b) (?tbl + of_nat 0) =
      map_option (\<lambda>i. (?tbl + of_nat i, ?tbl + of_nat (i + n))) r" "first_fit m ?tbl ?b n 0 r"
    using heap_search_first_fit [OF ok(2) n(2,1), of 0 m] by auto
  have alloc: "heap_alloc m h sz =
      (case heap_search m (of_nat n) (?tbl + of_nat ?b) (?tbl + of_nat 0) of
         None \<Rightarrow> Some (m, h, NULL)
       | Some (start, block') \<Rightarrow> do {
           m' \<leftarrow> mark_region_taken m start (block' - 1);
           offset \<leftarrow> int_res (c_int (start - ?tbl) * 4096);
           Some (m', h\<lparr>free_blocks := free_blocks h - of_nat n\<rparr>, heap_start_address h + of_int offset) })"
    using assms(2) unfolding heap_alloc_def Let_def heap_blocks_needed n_def [symmetric]
    by (auto split: option.split)
  show ?thesis
  proof (cases r)
    case None
    with r alloc show ?thesis by (simp add: first_fit_def)
  next
    case (Some i)
    with r(2) have fit: "blk_fits m ?tbl ?b n i" "\<forall>j < i. \<not> blk_fits m ?tbl ?b n j"
      by (auto simp: first_fit_def)
    then have i: "i + n \<le> ?b" "{i..<i + n} \<inter> runs_taken R = {}"
      using heap_ok_fits [OF assms(1)] by auto
    then have off: "c_int (of_nat i) = int i" "int_res (int i * 4096) = Some (int (4096 * i))"
      using n(1) ok(1) by (auto simp: c_int_small unat_of_nat64 int_res_def is_int_def)
    obtain m' where m': "mark_region_taken m (?tbl + of_nat i) (?tbl + of_nat (i + n) - 1) = Some m'"
      "same_outside (region (?tbl + of_nat i) n) m m'"
      "heap_ok m' (h\<lparr>free_blocks := free_blocks h - of_nat n\<rparr>) (insert (i, n) R)"
      using heap_ok_alloc [OF assms(1) n(1) i] by blast
    have "heap_alloc m h sz = Some (m', h\<lparr>free_blocks := free_blocks h - of_nat n\<rparr>, heap_run_addr h i)"
      unfolding alloc using r(1) Some off m'(1) by (simp add: heap_run_addr_def)
    with fit m' show ?thesis by blast
  qed
qed

lemma heap_free_index:
  assumes "heap_ok m h R" and "i < unat (blocks h)" and "d < 4096"
  shows "c_int (heap_run_addr h i + of_nat d - heap_start_address h) sdiv 4096 = int i"
proof -
  have "4096 * i + d < 2147483648" using heap_okD(1) [OF assms(1)] assms(2,3) by simp
  moreover have "heap_run_addr h i + of_nat d - heap_start_address h = of_nat (4096 * i + d)"
    by (simp add: heap_run_addr_def)
  moreover have "int (4096 * i + d) sdiv 4096 = int i"
    unfolding int_sdiv_numeral using assms(3) by simp
  ultimately show ?thesis
    by (simp only: c_int_small [of "of_nat (4096 * i + d)"] unat_of_nat64)
      (simp add: c_int_small unat_of_nat64 del: of_nat_add of_nat_mult)
qed

lemma heap_free_not_first:
  assumes "heap_ok m h R" and "i < unat (blocks h)" and "d < 4096" and "i \<notin> fst ` R"
  shows "heap_free m h (heap_run_addr h i + of_nat d) = Some (m, h)"
  using heap_free_index [OF assms(1-3)] heap_okD(4) [OF assms(1,2)] assms(4)
  by (simp add: heap_free_def heap_entry_flags)

lemma heap_ok_free:
  assumes "heap_ok m h R" and "(i, n) \<in> R"
  shows "heap_ok (fill (heap_table h + of_nat i) n 0 m) (h\<lparr>free_blocks := free_blocks h + of_nat n\<rparr>) (R - {(i, n)})"
proof -
  note ok = heap_okD [OF assms(1)]
  let ?tbl = "heap_table h" and ?b = "unat (blocks h)"
  note rem = runs_remove [OF ok(3) assms(2)]
  have run: "0 < n" "i + n \<le> ?b" using ok(3) assms(2) by (auto simp: wf_runs_def)
  have entries: "fill (?tbl + of_nat i) n 0 m (?tbl + of_nat j) = heap_entry (R - {(i, n)}) j" if "j < ?b" for j
  proof (cases "j \<in> {i..<i + n}")
    case True
    then have "heap_entry (R - {(i, n)}) j = 0"
      using rem(1) by (intro heap_entry_free [OF wf_runs_remove [OF ok(3)]]) blast
    with True region_index [OF ok(2) run(2), of j] that show ?thesis by (simp add: fill_def)
  next
    case False
    then have "heap_entry (R - {(i, n)}) j = heap_entry R j"
      using run(1) unfolding heap_entry_def rem by auto
    with False region_index [OF ok(2) run(2), of j] that ok(4) [OF that] show ?thesis
      by (auto simp: fill_def simp del: in_region)
  qed
  have sub: "{i..<i + n} \<subseteq> runs_taken R" using assms(2) by (force simp: runs_taken_def)
  then have "card (runs_taken (R - {(i, n)})) = card (runs_taken R) - n" "n \<le> card (runs_taken R)"
    using rem(1) card_Diff_subset [OF _ sub] card_mono [OF finite_subset [OF runs_taken_less [OF ok(3)]] sub]
    by simp_all
  moreover from this ok(1,5) have "unat (free_blocks h + of_nat n) = unat (free_blocks h) + n"
    by (subst unat_add64) (auto simp: unat_of_nat64)
  ultimately show ?thesis
    using assms(1) entries wf_runs_remove [OF ok(3)] ok(5) by (simp add: heap_ok_def)
qed

lemma heap_free_run:
  assumes "heap_ok m h R" and "(i, n) \<in> R"
  defines "m' \<equiv> fill (heap_table h + of_nat i) n 0 m"
    and "h' \<equiv> h\<lparr>free_blocks := free_blocks h + of_nat n\<rparr>"
  shows "heap_free m h (heap_run_addr h i) = Some (m', h') \<and> heap_ok m' h' (R - {(i, n)})"
proof -
  note ok = heap_okD [OF assms(1)]
  let ?tbl = "heap_table h" and ?b = "unat (blocks h)"
  have run: "0 < n" "i + n \<le> ?b" using ok(3) assms(2) by (auto simp: wf_runs_def)
  have last: "j \<in> runs_last R \<longleftrightarrow> j = i + n - 1" if "j \<in> {i..<i + n}" for j
  proof
    assume "j \<in> runs_last R"
    then obtain k l where kl: "(k, l) \<in> R" "j = k + l - 1" by (auto simp: runs_last_def)
    then have "0 < l" using ok(3) by (auto simp: wf_runs_def)
    then have "(k, l) = (i, n)" using runs_unique [OF ok(3) assms(2) kl(1) that] kl(2) by auto
    with kl show "j = i + n - 1" by simp
  qed (use assms(2) in \<open>force simp: runs_last_def\<close>)
  have "mark_free_loop m (?tbl + of_nat i) 1 =
      Some (fill (?tbl + of_nat i) (Suc (i + n - 1 - i)) 0 m, 1 + of_nat (i + n - 1 - i))"
  proof (rule mark_free_loop_eq [OF ok(2)])
    show "m (?tbl + of_nat (i + n - 1)) AND HEAP_BLOCK_LAST \<noteq> 0"
      using ok(4) [of "i + n - 1"] run last [of "i + n - 1"] by (simp add: heap_entry_flags)
    show "m (?tbl + of_nat j) AND HEAP_BLOCK_LAST = 0" if "i \<le> j" "j < i + n - 1" for j
      using ok(4) [of j] that run last [of j] by (auto simp: heap_entry_flags)
  qed (use run in auto)
  moreover have "(1 + of_nat (i + n - 1 - i) :: u64) = of_nat n" using run(1) by simp
  moreover have "Suc (i + n - 1 - i) = n" using run(1) by simp
  ultimately have "mark_free_loop m (?tbl + of_nat i) 1 = Some (m', of_nat n)"
    unfolding m'_def by (simp only:)
  moreover have "c_int (of_nat n) = int n"
    using run ok(1) by (simp add: c_int_small unat_of_nat64)
  moreover have "m (?tbl + of_nat i) AND HEAP_BLOCK_FIRST \<noteq> 0"
    using ok(4) [of i] run assms(2) by (force simp: heap_entry_flags)
  ultimately have "heap_free m h (heap_run_addr h i) = Some (m', h')"
    using heap_free_index [OF assms(1), of i 0] run
    by (simp add: heap_free_def mark_region_free_def h'_def)
  moreover have "heap_ok m' h' (R - {(i, n)})"
    unfolding m'_def h'_def by (rule heap_ok_free [OF assms(1,2)])
  ultimately show ?thesis ..
qed

section \<open>The allocator interface\<close>

definition heap_extents :: "heap \<Rightarrow> runs \<Rightarrow> (addr \<times> nat) set" where
  "heap_extents h R = (\<lambda>(i, n). (heap_run_addr h i, 4096 * n)) ` R"

lemma heap_extents_upd [simp]: "heap_extents (h\<lparr>free_blocks := f\<rparr>) R = heap_extents h R"
  by (simp add: heap_extents_def heap_run_addr_def)

lemma unat_heap_run_addr:
  assumes "heap_ok m h R" and "i < unat (blocks h)"
  shows "unat (heap_run_addr h i) = unat (heap_start_address h) + 4096 * i"
proof -
  have "unat (heap_start_address h) + 4096 * i < 2 ^ 64" and small: "4096 * i < 2 ^ 64"
    using assms by (auto simp: heap_ok_def)
  moreover have "unat (of_nat (4096 * i) :: addr) = 4096 * i" by (rule unat_of_nat64 [OF small])
  ultimately show ?thesis
    unfolding heap_run_addr_def by (subst unat_add64) (simp_all only:)
qed

lemma heap_run_region:
  assumes "heap_ok m h R" and "i + n \<le> unat (blocks h)" and "0 < n"
  shows "unat (heap_run_addr h i) + 4096 * n \<le> 2 ^ 64"
proof -
  have "unat (heap_start_address h) + 4096 * (i + n) \<le> 2 ^ 64"
    using assms(1,2) by (auto simp: heap_ok_def)
  with unat_heap_run_addr [OF assms(1), of i] assms(2,3) show ?thesis by simp
qed

lemma heap_runs_apart:
  assumes "heap_ok m h R" and "i + n \<le> unat (blocks h)" "0 < n" and "j + k \<le> unat (blocks h)" "0 < k"
    and "{i..<i + n} \<inter> {j..<j + k} = {}"
  shows "region (heap_run_addr h i) (4096 * n) \<inter> region (heap_run_addr h j) (4096 * k) = {}"
proof (rule regions_apart [OF heap_run_region [OF assms(1-3)] heap_run_region [OF assms(1,4,5)]])
  have "i + n \<le> j \<or> j + k \<le> i" using assms(3,5,6) by (auto simp: disjoint_iff)
  then show "unat (heap_run_addr h i) + 4096 * n \<le> unat (heap_run_addr h j) \<or>
      unat (heap_run_addr h j) + 4096 * k \<le> unat (heap_run_addr h i)"
    using unat_heap_run_addr [OF assms(1), of i] unat_heap_run_addr [OF assms(1), of j] assms(2-5) by auto
qed

lemma heap_extentsE:
  assumes "heap_ok m h R" and "(p, l) \<in> heap_extents h R"
  obtains i n where "(i, n) \<in> R" "p = heap_run_addr h i" "l = 4096 * n" "0 < n" "i + n \<le> unat (blocks h)"
  using assms heap_okD(3) [OF assms(1)] by (auto simp: heap_extents_def wf_runs_def)

lemma heap_run_addr_inj:
  assumes "heap_ok m h R" and "j < unat (blocks h)" and "l < unat (blocks h)"
    and "heap_run_addr h j = heap_run_addr h l"
  shows "j = l"
proof -
  have "unat (heap_start_address h) + 4096 * j = unat (heap_start_address h) + 4096 * l"
    using assms(4) unat_heap_run_addr [OF assms(1,2)] unat_heap_run_addr [OF assms(1,3)] by (simp only:)
  then show ?thesis by linarith
qed

lemma heap_extents_remove:
  assumes "heap_ok m h R" and "(i, n) \<in> R"
  shows "heap_extents h (R - {(i, n)}) = heap_extents h R - {(heap_run_addr h i, 4096 * n)}"
proof -
  have in_range: "j < unat (blocks h)" if "(j, k) \<in> R" for j k
    using that heap_okD(3) [OF assms(1)] by (auto simp: wf_runs_def)
  have "inj_on (\<lambda>(i, n). (heap_run_addr h i, 4096 * n)) R"
  proof (rule inj_onI)
    fix u v :: "nat \<times> nat"
    assume *: "u \<in> R" "v \<in> R"
      "(case u of (i, n) \<Rightarrow> (heap_run_addr h i, 4096 * n)) = (case v of (i, n) \<Rightarrow> (heap_run_addr h i, 4096 * n))"
    obtain j k l o' where uv: "u = (j, k)" "v = (l, o')" by (cases u, cases v)
    then have eq: "heap_run_addr h j = heap_run_addr h l" and "k = o'" using *(3) by simp_all
    moreover have "j = l"
      by (rule heap_run_addr_inj [OF assms(1) in_range in_range eq]) (use * uv in simp_all)
    ultimately show "u = v" using uv by simp
  qed
  from inj_on_image_set_diff [OF this, of R "{(i, n)}"] assms(2) show ?thesis
    by (simp add: heap_extents_def)
qed

interpretation block_heap: byte_heap heap_alloc heap_free heap_ok heap_extents
proof unfold_locales
  fix m h R sz p l q k
  assume ok: "heap_ok m h R"
  show "region p l \<inter> region q k = {}"
    if pq: "(p, l) \<in> heap_extents h R" "(q, k) \<in> heap_extents h R" "(p, l) \<noteq> (q, k)"
  proof -
    obtain i n where i: "(i, n) \<in> R" "p = heap_run_addr h i" "l = 4096 * n" "0 < n" "i + n \<le> unat (blocks h)"
      using ok pq(1) by (rule heap_extentsE)
    obtain j o' where j: "(j, o') \<in> R" "q = heap_run_addr h j" "k = 4096 * o'" "0 < o'" "j + o' \<le> unat (blocks h)"
      using ok pq(2) by (rule heap_extentsE)
    have "{i..<i + n} \<inter> {j..<j + o'} = {}"
      by (rule wf_runs_apart [OF heap_okD(3) [OF ok] i(1) j(1)]) (use i j pq(3) in auto)
    then show ?thesis using heap_runs_apart [OF ok i(5,4) j(5,4)] i j by simp
  qed
  show "heap_alloc m h 0 = Some (m, h, NULL)" by (simp add: heap_alloc_def)
  show "heap_alloc m h sz = Some (m, h, NULL) \<or>
      (\<exists>m' h' R' p l. heap_alloc m h sz = Some (m', h', p) \<and> p \<noteq> NULL \<and> unat sz \<le> l \<and> heap_ok m' h' R' \<and>
        heap_extents h' R' = insert (p, l) (heap_extents h R) \<and> (p, l) \<notin> heap_extents h R)"
  proof (cases "sz = 0")
    case True
    then show ?thesis by (simp add: heap_alloc_def)
  next
    case False
    let ?n = "ceil_div (unat sz) 4096"
    have pos: "0 < unat sz" using False by (simp add: unat_gt_0)
    from heap_alloc_eq [OF ok pos] show ?thesis
    proof (elim disjE exE conjE)
      fix i m'
      let ?h = "h\<lparr>free_blocks := free_blocks h - of_nat ?n\<rparr>"
      assume a: "blk_fits m (heap_table h) (unat (blocks h)) ?n i"
        "heap_alloc m h sz = Some (m', ?h, heap_run_addr h i)" "heap_ok m' ?h (insert (i, ?n) R)"
      have n: "0 < ?n" "unat sz \<le> 4096 * ?n"
        using pos ceil_div_pos [of 4096 "unat sz"] ceil_div_ge [of 4096 "unat sz"] by simp_all
      have i: "i + ?n \<le> unat (blocks h)" "{i..<i + ?n} \<inter> runs_taken R = {}"
        using a(1) heap_ok_fits [OF ok] by auto
      have "heap_run_addr h i \<noteq> 0"
        using unat_heap_run_addr [OF ok, of i] i(1) n(1) ok by (auto simp: heap_ok_def)
      moreover have "(heap_run_addr h i, 4096 * ?n) \<notin> heap_extents h R"
      proof
        assume "(heap_run_addr h i, 4096 * ?n) \<in> heap_extents h R"
        with ok obtain j k where j: "(j, k) \<in> R" "heap_run_addr h i = heap_run_addr h j" "0 < k"
          "j + k \<le> unat (blocks h)" by (rule heap_extentsE)
        have "i = j"
          by (rule heap_run_addr_inj [OF ok _ _ j(2)]) (use i(1) n(1) j(3,4) in linarith)+
        with j(1,3) have "i \<in> runs_taken R" by (force simp: runs_taken_def)
        moreover have "i \<in> {i..<i + ?n}" using n(1) by simp
        ultimately show False using i(2) by blast
      qed
      moreover have "heap_extents ?h (insert (i, ?n) R) = insert (heap_run_addr h i, 4096 * ?n) (heap_extents h R)"
        by (simp add: heap_extents_def heap_run_addr_def)
      ultimately show ?thesis using a(2,3) n(2) by blast
    qed simp
  qed
  show "\<exists>m' h' R'. heap_free m h p = Some (m', h') \<and> heap_ok m' h' R' \<and>
      heap_extents h' R' = heap_extents h R - {(p, l)}" if "(p, l) \<in> heap_extents h R"
  proof -
    from ok that obtain i n where "(i, n) \<in> R" "p = heap_run_addr h i" "l = 4096 * n" by (rule heap_extentsE)
    with heap_free_run [OF ok, of i n] heap_extents_remove [OF ok, of i n] show ?thesis
      by (metis heap_extents_upd)
  qed
qed

section \<open>Properties\<close>

abbreviation example_heap :: heap where
  "example_heap \<equiv> \<lparr>heap_start_address = 0x40200000, heap_table = 0x1000, blocks = 8, free_blocks = 8\<rparr>"

lemma fold_same_store: "0 < k \<Longrightarrow> fold (\<lambda>i m. m(p := v)) [0..<k] m = m(p := v)"
  by (induction k rule: nat_induct_non_zero) auto

lemma heap_ok_empty:
  assumes "unat (blocks h) \<le> 524288" and "unat (heap_table h) + unat (blocks h) < 2 ^ 64"
    and "0 < unat (heap_start_address h)" and "unat (heap_start_address h) + 4096 * unat (blocks h) \<le> 2 ^ 64"
    and "free_blocks h = blocks h" and "\<And>j. j < unat (blocks h) \<Longrightarrow> m (heap_table h + of_nat j) = 0"
  shows "heap_ok m h {}"
  using assms by (simp add: heap_ok_def wf_runs_def heap_entry_def runs_taken_def runs_last_def)

lemma heap_ok_example: "heap_ok (\<lambda>_. 0) example_heap {}"
  by (rule heap_ok_empty) simp_all

text \<open>
  C17. \<open>heap_alloc\<close> is first fit. For a request of \<open>n\<close> blocks it returns \<open>NULL\<close>, changing nothing, exactly
  when no \<open>n\<close> consecutive blocks are free; otherwise it returns the address of the least block
  where \<open>n\<close> free blocks start, records that run, takes \<open>n\<close> from the free count and writes only the
  table entries of the run.
\<close>
theorem heap_alloc_first_fit:
  assumes "heap_ok m h R" and "0 < unat sz"
  defines "n \<equiv> ceil_div (unat sz) 4096"
    and "fits \<equiv> \<lambda>i. i + ceil_div (unat sz) 4096 \<le> unat (blocks h) \<and>
      {i..<i + ceil_div (unat sz) 4096} \<inter> runs_taken R = {}"
  shows "if \<exists>i. fits i then
      \<exists>i m'. fits i \<and> (\<forall>j < i. \<not> fits j) \<and>
        heap_alloc m h sz = Some (m', h\<lparr>free_blocks := free_blocks h - of_nat n\<rparr>, heap_run_addr h i) \<and>
        heap_ok m' (h\<lparr>free_blocks := free_blocks h - of_nat n\<rparr>) (insert (i, n) R) \<and>
        same_outside (region (heap_table h + of_nat i) n) m m'
    else heap_alloc m h sz = Some (m, h, NULL)"
proof -
  have fits: "blk_fits m (heap_table h) (unat (blocks h)) n i \<longleftrightarrow> fits i" for i
    using heap_ok_fits [OF assms(1)] by (simp add: n_def fits_def)
  show ?thesis using heap_alloc_eq [OF assms(1,2)] unfolding n_def [symmetric] fits by auto
qed

theorem heap_alloc_first_fit_witness:
  "\<exists>m'. heap_alloc (\<lambda>_. 0) example_heap 5000 =
    Some (m', example_heap\<lparr>free_blocks := 6\<rparr>, 0x40200000) \<and> heap_ok m' (example_heap\<lparr>free_blocks := 6\<rparr>) {(0, 2)}"
proof -
  have n: "ceil_div (unat (5000 :: u64)) 4096 = 2" by (simp add: ceil_div_def)
  have "\<exists>i. i + 2 \<le> unat (blocks example_heap) \<and> {i..<i + 2} \<inter> runs_taken {} = {}"
    by (rule exI [of _ 0]) (simp add: runs_taken_def)
  then obtain i m' where *: "\<forall>j<i. \<not> (j + 2 \<le> unat (blocks example_heap) \<and> {j..<j + 2} \<inter> runs_taken {} = {})"
    "heap_alloc (\<lambda>_. 0) example_heap 5000 =
      Some (m', example_heap\<lparr>free_blocks := 6\<rparr>, heap_run_addr example_heap i)"
    "heap_ok m' (example_heap\<lparr>free_blocks := 6\<rparr>) {(i, 2)}"
    using heap_alloc_first_fit [OF heap_ok_example, of 5000] unfolding n by auto
  moreover from *(1) have "i = 0" by (auto simp: runs_taken_def)
  ultimately show ?thesis by (auto simp: heap_run_addr_def)
qed

lemma heap_free_same_block:
  assumes "heap_ok m h R" and "i < unat (blocks h)" and "d < 4096"
  shows "heap_free m h (heap_run_addr h i + of_nat d) = heap_free m h (heap_run_addr h i)"
  using heap_free_index [OF assms] heap_free_index [OF assms(1,2), of 0] by (simp add: heap_free_def)

text \<open>
  C18. \<open>heap_free\<close> on any address within a block: if an allocated run starts in that block, exactly
  that run is released, its table entries are cleared, its length goes back to the free count
  and the invariant holds for the remaining runs; otherwise nothing changes.
\<close>
theorem heap_free_run_or_nothing:
  assumes "heap_ok m h R" and "i < unat (blocks h)" and "d < 4096"
  shows "(\<forall>n. (i, n) \<in> R \<longrightarrow>
      (\<exists>m' h'. heap_free m h (heap_run_addr h i + of_nat d) = Some (m', h') \<and> heap_ok m' h' (R - {(i, n)}) \<and>
        unat (heap_get_free_blocks h') = unat (heap_get_free_blocks h) + n \<and>
        same_outside (region (heap_table h + of_nat i) n) m m')) \<and>
    (i \<notin> fst ` R \<longrightarrow> heap_free m h (heap_run_addr h i + of_nat d) = Some (m, h))"
proof (intro conjI allI impI)
  fix n
  assume R: "(i, n) \<in> R"
  let ?h = "h\<lparr>free_blocks := free_blocks h + of_nat n\<rparr>"
  let ?m = "fill (heap_table h + of_nat i) n 0 m"
  have run: "heap_free m h (heap_run_addr h i) = Some (?m, ?h)" "heap_ok ?m ?h (R - {(i, n)})"
    using heap_free_run [OF assms(1) R] by simp_all
  have "unat (free_blocks ?h) = unat (free_blocks h) + n"
  proof -
    note rem = runs_remove [OF heap_okD(3) [OF assms(1)] R]
    have "{i..<i + n} \<subseteq> runs_taken R" using R by (auto simp: runs_taken_def)
    then have "card (runs_taken R) = card (runs_taken (R - {(i, n)})) + n"
      using card_Diff_subset [of "{i..<i + n}" "runs_taken R"] card_mono [of "runs_taken R" "{i..<i + n}"]
        finite_subset [OF runs_taken_less [OF heap_okD(3) [OF assms(1)]]] rem(1) by simp
    then show ?thesis using heap_okD(5) [OF assms(1)] heap_okD(5) [OF run(2)] by simp
  qed
  then show "\<exists>m' h'. heap_free m h (heap_run_addr h i + of_nat d) = Some (m', h') \<and> heap_ok m' h' (R - {(i, n)}) \<and>
        unat (heap_get_free_blocks h') = unat (heap_get_free_blocks h) + n \<and>
        same_outside (region (heap_table h + of_nat i) n) m m'"
    using run heap_free_same_block [OF assms] fill_outside by (simp add: heap_get_free_blocks_def)
qed (rule heap_free_not_first [OF assms])

lemma heap_ok_example_one:
  "heap_ok ((\<lambda>_. 0)(0x1000 := 0xE0)) (example_heap\<lparr>free_blocks := 7\<rparr>) {(0, 1)}"
  by (auto simp: heap_ok_def wf_runs_def heap_entry_def runs_taken_def runs_last_def)
    (simp add: unat_eq_iff unat_of_nat64)

theorem heap_free_run_or_nothing_witness:
  "\<exists>m' h'. heap_free ((\<lambda>_. 0)(0x1000 := 0xE0)) (example_heap\<lparr>free_blocks := 7\<rparr>) 0x40200010 = Some (m', h') \<and>
    heap_ok m' h' {} \<and> unat (heap_get_free_blocks h') = 8"
  using heap_free_run_or_nothing [OF heap_ok_example_one, of 0 16]
  by (auto simp: heap_run_addr_def heap_get_free_blocks_def)

lemma example_allocs:
  "heap_alloc (\<lambda>_. 0) example_heap 4096 =
    Some ((\<lambda>_. 0)(0x1000 := 0xE0), example_heap\<lparr>free_blocks := 7\<rparr>, 0x40200000)"
  "heap_alloc ((\<lambda>_. 0)(0x1000 := 0xE0)) (example_heap\<lparr>free_blocks := 7\<rparr>) 5000 =
    Some ((\<lambda>_. 0)(0x1000 := 0xE0, 0x1001 := 0xC0, 0x1002 := 0xA0), example_heap\<lparr>free_blocks := 5\<rparr>, 0x40201000)"
  by (simp_all add: heap_alloc_def heap_search.simps heap_skip_taken.simps heap_count_free.simps
      mark_region_taken_def mark_taken_loop.simps c_int_small int_res_def is_int_def fun_upd_twist Let_def)

text \<open>
  C19. Freeing what \<open>heap_alloc\<close> has just returned undoes the allocation exactly: the memory with the
  table and the heap descriptor are again what they were before it.
\<close>
theorem heap_alloc_free_roundtrip:
  assumes "heap_ok m h R" and "heap_alloc m h sz = Some (m', h', p)" and "p \<noteq> NULL"
  shows "heap_free m' h' p = Some (m, h)"
proof -
  let ?n = "ceil_div (unat sz) 4096"
  have "sz \<noteq> 0" using assms(2,3) by (auto simp: heap_alloc_def)
  then have pos: "0 < unat sz" by (simp add: unat_gt_0)
  obtain i where i: "blk_fits m (heap_table h) (unat (blocks h)) ?n i" "p = heap_run_addr h i"
    "h' = h\<lparr>free_blocks := free_blocks h - of_nat ?n\<rparr>" "heap_ok m' h' (insert (i, ?n) R)"
    "same_outside (region (heap_table h + of_nat i) ?n) m m'"
    using heap_alloc_eq [OF assms(1) pos] assms(2,3) by auto
  have zero: "m q = 0" if "q \<in> region (heap_table h + of_nat i) ?n" for q
  proof -
    from that obtain j where j: "j < ?n" "q = heap_table h + of_nat (i + j)"
      by (auto elim: region_offsetE simp: add.assoc)
    with i(1) have "i + j < unat (blocks h)" "i + j \<notin> runs_taken R"
      using heap_ok_fits [OF assms(1)] by (auto simp: disjoint_iff)
    then show ?thesis
      using heap_okD(4) [OF assms(1)] heap_entry_free [OF heap_okD(3) [OF assms(1)]] j(2) by metis
  qed
  have "fill (heap_table h + of_nat i) ?n 0 m' = m"
    using zero i(5) by (auto simp: fill_def same_outside_def fun_eq_iff)
  moreover have "heap_run_addr h' i = p" "heap_table h' = heap_table h"
    using i(2,3) by (simp_all add: heap_run_addr_def)
  ultimately show ?thesis
    using heap_free_run [OF i(4), of i ?n] i(3) by simp
qed

theorem heap_alloc_free_roundtrip_witness:
  "heap_free ((\<lambda>_. 0)(0x1000 := 0xE0)) (example_heap\<lparr>free_blocks := 7\<rparr>) 0x40200000 = Some (\<lambda>_. 0, example_heap)"
  using heap_alloc_free_roundtrip [OF heap_ok_example example_allocs(1)] by simp

text \<open>
  \<open>heap_createtable\<close> clears only the first table entry: it establishes the invariant of an
  empty heap when the table area already held zeros, and every later entry keeps whatever was
  in memory before.
\<close>
lemma heap_createtable_first_entry:
  assumes "0 < unat n" and "unat n \<le> 524288" and "unat tbl + unat n < 2 ^ 64"
    and "0 < unat start" and "unat start + 4096 * unat n \<le> 2 ^ 64"
  shows "\<exists>h. heap_createtable m start tbl n = Some (m(tbl := 0), h) \<and> heap_table h = tbl \<and>
    heap_get_free_blocks h = n \<and>
    (heap_ok (m(tbl := 0)) h {} \<longleftrightarrow> (\<forall>j. 0 < j \<and> j < unat n \<longrightarrow> m (tbl + of_nat j) = 0))"
proof -
  let ?h = "\<lparr>heap_start_address = start, heap_table = tbl, blocks = n, free_blocks = n\<rparr>"
  have j: "(m(tbl := 0)) (tbl + of_nat j) = (if j = 0 then 0 else m (tbl + of_nat j))" if "j < unat n" for j
  proof -
    have "of_nat j = (0 :: addr) \<longleftrightarrow> j = 0"
      using that assms(2) by (simp add: unat_eq_iff unat_of_nat64)
    then show ?thesis by simp
  qed
  have "heap_ok (m(tbl := 0)) ?h {} \<longleftrightarrow> (\<forall>j < unat n. (m(tbl := 0)) (tbl + of_nat j) = 0)"
    using assms by (simp add: heap_ok_def wf_runs_def heap_entry_def runs_taken_def runs_last_def)
  also have "\<dots> \<longleftrightarrow> (\<forall>j. 0 < j \<and> j < unat n \<longrightarrow> m (tbl + of_nat j) = 0)"
    using j by auto
  finally show ?thesis
    using assms(1,2) by (simp add: heap_createtable_def fold_same_store heap_get_free_blocks_def)
qed

lemma heap_createtable_first_entry_witness:
  "\<exists>h. heap_createtable (\<lambda>_. 0) 0x40200000 0x1000 8 = Some (\<lambda>_. 0, h) \<and> heap_ok (\<lambda>_. 0) h {}"
  using heap_createtable_first_entry [of 8 "0x1000" "0x40200000" "\<lambda>_. 0"] by (auto simp: fun_upd_idem)

end
