(* ===== verification/Sysutils.thy ===== *)
theory Sysutils
  imports Heap_Alloc C_String
begin

text \<open>
  The kernel services of \<open>kernel/sysutils.c\<close>: interrupt masking, the vector base and the kernel
  heap behind \<open>kalloc\<close>, \<open>kzalloc\<close> and \<open>kfree\<close>, with the part of \<open>kernel/start.c\<close> that sets the
  heap up. The system registers that the kernel's inline assembly reads and writes are the
  fields of \<open>sysregs\<close>; an access to a register is an access to its field, and the translation
  cache is a map that an invalidation empties.
\<close>

section \<open>Definitions\<close>

record sysregs =
  DAIF :: u64
  VBAR_EL1 :: u64
  SPSR_EL1 :: u64
  ELR_EL1 :: u64
  SP_EL0 :: u64
  TTBR0_EL1 :: u64
  TCR_EL1 :: u64
  SCTLR_EL1 :: u64
  TLB :: "u64 \<rightharpoonup> u64"

definition tlbi_vmalle1 :: "sysregs \<Rightarrow> sysregs" where
  \<comment> \<open>drops every cached translation\<close>
  "tlbi_vmalle1 r = r\<lparr>TLB := Map.empty\<rparr>"

abbreviation (input) DAIF_IRQ_MASK :: nat where
  "DAIF_IRQ_MASK \<equiv> 7"

abbreviation (input) DAIF_FRQ_MASK :: nat where
  "DAIF_FRQ_MASK \<equiv> 6"

definition sysutils_daif_set :: "sysregs \<Rightarrow> nat \<Rightarrow> sysregs" where
  "sysutils_daif_set r b =
     (let bit_set = (of_int (push_bit b 1) :: u64)
      in r\<lparr>DAIF := DAIF r OR bit_set\<rparr>)"

definition sysutils_daif_clear :: "sysregs \<Rightarrow> nat \<Rightarrow> sysregs" where
  "sysutils_daif_clear r b =
     (let bit_clear = (of_int (NOT (push_bit b 1)) :: u64)
      in r\<lparr>DAIF := DAIF r AND bit_clear\<rparr>)"

definition sysutils_mask_irq :: "sysregs \<Rightarrow> bool \<Rightarrow> sysregs" where
  "sysutils_mask_irq r masked =
     (if masked then sysutils_daif_set r DAIF_IRQ_MASK else sysutils_daif_clear r DAIF_IRQ_MASK)"

definition sysutils_mask_fiq :: "sysregs \<Rightarrow> bool \<Rightarrow> sysregs" where
  "sysutils_mask_fiq r masked =
     (if masked then sysutils_daif_set r DAIF_FRQ_MASK else sysutils_daif_clear r DAIF_FRQ_MASK)"

definition sysutils_set_vbar :: "sysregs \<Rightarrow> u64 \<Rightarrow> sysregs" where
  "sysutils_set_vbar r base_address = r\<lparr>VBAR_EL1 := base_address\<rparr>"

definition sysutils_kernel_heap_create :: "mem \<Rightarrow> u64 \<Rightarrow> u64 \<Rightarrow> u64 \<Rightarrow> (mem \<times> heap) option" where
  \<comment> \<open>the new value of \<open>main_heap\<close>\<close>
  "sysutils_kernel_heap_create m table_address heap_address heap_blocks_size =
     heap_createtable m heap_address table_address heap_blocks_size"

definition sysutils_kernel_heap_alloc :: "mem \<Rightarrow> heap \<Rightarrow> u64 \<Rightarrow> (mem \<times> heap \<times> addr) option" where
  "sysutils_kernel_heap_alloc m main_heap sz = heap_alloc m main_heap sz"

definition sysutils_kernel_heap_free :: "mem \<Rightarrow> heap \<Rightarrow> addr \<Rightarrow> (mem \<times> heap) option" where
  "sysutils_kernel_heap_free m main_heap ptr = heap_free m main_heap ptr"

definition kalloc :: "mem \<Rightarrow> heap \<Rightarrow> u64 \<Rightarrow> (mem \<times> heap \<times> addr) option" where
  "kalloc m main_heap sz = sysutils_kernel_heap_alloc m main_heap sz"

definition kzalloc :: "mem \<Rightarrow> heap \<Rightarrow> u64 \<Rightarrow> (mem \<times> heap \<times> addr) option" where
  \<comment> \<open>the result of the allocation is not tested before it is cleared\<close>
  "kzalloc m main_heap sz = do {
     (m1, main_heap', res) \<leftarrow> sysutils_kernel_heap_alloc m main_heap sz;
     (m2, _) \<leftarrow> memset m1 res 0 sz;
     Some (m2, main_heap', res)
   }"

definition kfree :: "mem \<Rightarrow> heap \<Rightarrow> addr \<Rightarrow> (mem \<times> heap) option" where
  "kfree m main_heap ptr = sysutils_kernel_heap_free m main_heap ptr"

definition sysutils_kernel_heap_get_free_count :: "heap \<Rightarrow> u64" where
  "sysutils_kernel_heap_get_free_count main_heap = heap_get_free_blocks main_heap"

definition sysutils_kernel_heap_get_total_count :: "heap \<Rightarrow> u64" where
  "sysutils_kernel_heap_get_total_count main_heap = blocks main_heap"

definition setup_heap :: "mem \<Rightarrow> addr \<Rightarrow> (mem \<times> heap) option" where
  \<comment> \<open>\<open>HEAP_START\<close> is placed by the linker script\<close>
  "setup_heap m HEAP_START =
     (let heap_size_blocks = 0x10000;
          table_address = HEAP_START;
          heap_address = table_address + heap_table_size heap_size_blocks
      in sysutils_kernel_heap_create m table_address heap_address heap_size_blocks)"

section \<open>Interrupt masks\<close>

lemma bit_daif_set:
  "bit (DAIF (sysutils_daif_set r b)) k \<longleftrightarrow> bit (DAIF r) k \<or> (k = b \<and> k < 64)"
  by (auto simp: sysutils_daif_set_def bit_simps)

lemma bit_daif_clear:
  "bit (DAIF (sysutils_daif_clear r b)) k \<longleftrightarrow> bit (DAIF r) k \<and> k \<noteq> b"
  by (auto simp: sysutils_daif_clear_def bit_simps dest: bit_imp_le_length)

text \<open>
  \<open>sysutils_mask_irq\<close> and \<open>sysutils_mask_fiq\<close> set or clear exactly the interrupt bit they name, in
  both directions, and touch no other bit and no other register.
\<close>
lemma mask_interrupts_exact:
  "DAIF (sysutils_mask_irq r b) = (if b then set_bit 7 (DAIF r) else unset_bit 7 (DAIF r)) \<and>
   DAIF (sysutils_mask_fiq r b) = (if b then set_bit 6 (DAIF r) else unset_bit 6 (DAIF r)) \<and>
   sysutils_mask_irq r b = r\<lparr>DAIF := DAIF (sysutils_mask_irq r b)\<rparr> \<and>
   sysutils_mask_fiq r b = r\<lparr>DAIF := DAIF (sysutils_mask_fiq r b)\<rparr>"
proof (intro conjI)
  show "DAIF (sysutils_mask_irq r b) = (if b then set_bit 7 (DAIF r) else unset_bit 7 (DAIF r))"
    "DAIF (sysutils_mask_fiq r b) = (if b then set_bit 6 (DAIF r) else unset_bit 6 (DAIF r))"
    by (rule bit_word_eqI; auto simp: sysutils_mask_irq_def sysutils_mask_fiq_def bit_daif_set bit_daif_clear
        bit_set_bit_iff bit_unset_bit_iff)+
qed (simp_all add: sysutils_mask_irq_def sysutils_mask_fiq_def sysutils_daif_set_def sysutils_daif_clear_def)

section \<open>The kernel heap\<close>

interpretation kernel_heap: byte_heap kalloc kfree heap_ok heap_extents
  using block_heap.byte_heap_axioms
  unfolding kalloc_def kfree_def sysutils_kernel_heap_alloc_def sysutils_kernel_heap_free_def
  by (simp add: eta_contract_eq)

definition heap_table_apart :: "heap \<Rightarrow> bool" where
  \<comment> \<open>the block table lies outside the blocks\<close>
  "heap_table_apart h \<longleftrightarrow>
     region (heap_table h) (unat (blocks h)) \<inter> region (heap_start_address h) (4096 * unat (blocks h)) = {}"

lemma heap_ok_frame:
  assumes "heap_ok m h R" and "same_outside A m m'" and "A \<inter> region (heap_table h) (unat (blocks h)) = {}"
  shows "heap_ok m' h R"
proof -
  have "m' (heap_table h + of_nat j) = m (heap_table h + of_nat j)" if "j < unat (blocks h)" for j
    using region_offset [OF that, of "heap_table h"] unat_less64 [of "blocks h"] assms(3)
    by (intro same_outsideD [OF assms(2)]) auto
  then show ?thesis using assms(1) by (simp add: heap_ok_def)
qed

lemma heap_run_in_area:
  assumes "heap_ok m h R" and "i + n \<le> unat (blocks h)" and "0 < n"
  shows "region (heap_run_addr h i) (4096 * n) \<subseteq> region (heap_start_address h) (4096 * unat (blocks h))"
  using region_sub [of "4096 * i" "4096 * n" "4096 * unat (blocks h)" "heap_start_address h"] assms
  unfolding heap_run_addr_def heap_ok_def by (simp only: flip: add_mult_distrib2) simp

lemma extent_in_area:
  assumes "heap_ok m h R" and "(p, l) \<in> heap_extents h R"
  shows "region p l \<subseteq> region (heap_start_address h) (4096 * unat (blocks h))"
proof -
  obtain i n where "(i, n) \<in> R" "p = heap_run_addr h i" "l = 4096 * n" "0 < n" "i + n \<le> unat (blocks h)"
    using assms by (rule heap_extentsE)
  then show ?thesis using heap_run_in_area [OF assms(1), of i n] by simp
qed

lemma kalloc_extent:
  assumes ok: "heap_ok m h R" and apart: "heap_table_apart h" and sz: "0 < unat sz"
    and a: "kalloc m h sz = Some (m1, h1, p)" and p: "p \<noteq> NULL"
  obtains R1 l i where "heap_ok m1 h1 R1" and "heap_table_apart h1" and "unat sz \<le> l"
    and "heap_extents h1 R1 = insert (p, l) (heap_extents h R)" and "(p, l) \<notin> heap_extents h R"
    and "unat p = unat (heap_start_address h) + 4096 * i" and "4096 * i + l \<le> 4096 * unat (blocks h)"
    and "heap_start_address h1 = heap_start_address h" and "blocks h1 = blocks h"
    and "\<forall>(q, k) \<in> heap_extents h R. \<forall>b \<in> region q k. m1 b = m b"
proof -
  let ?n = "ceil_div (unat sz) 4096"
  have "heap_alloc m h sz = Some (m1, h1, p)"
    using a by (simp add: kalloc_def sysutils_kernel_heap_alloc_def)
  with heap_alloc_eq [OF ok sz] p obtain i where
    i: "blk_fits m (heap_table h) (unat (blocks h)) ?n i" "p = heap_run_addr h i"
      "h1 = h\<lparr>free_blocks := free_blocks h - of_nat ?n\<rparr>" "heap_ok m1 h1 (insert (i, ?n) R)"
      "same_outside (region (heap_table h + of_nat i) ?n) m m1"
    by auto
  have n: "0 < ?n" "unat sz \<le> 4096 * ?n"
    using sz ceil_div_pos [of 4096 "unat sz"] ceil_div_ge [of 4096 "unat sz"] by simp_all
  have fit: "i + ?n \<le> unat (blocks h)" using i(1) heap_ok_fits [OF ok] by simp
  have ext: "heap_extents h1 (insert (i, ?n) R) = insert (p, 4096 * ?n) (heap_extents h R)"
    by (simp add: heap_extents_def heap_run_addr_def i(2,3))
  have tbl: "region (heap_table h + of_nat i) ?n \<subseteq> region (heap_table h) (unat (blocks h))"
    using region_sub [OF fit] unat_less64 [of "blocks h"] by simp
  have keep: "m1 b = m b" if q: "(q, k) \<in> heap_extents h R" "b \<in> region q k" for q k b
  proof -
    have "b \<in> region (heap_start_address h) (4096 * unat (blocks h))"
      using extent_in_area [OF ok q(1)] q(2) by blast
    then show ?thesis
      using apart tbl unfolding heap_table_apart_def by (intro same_outsideD [OF i(5)]) blast
  qed
  have new: "(p, 4096 * ?n) \<notin> heap_extents h R"
  proof
    assume "(p, 4096 * ?n) \<in> heap_extents h R"
    moreover have "p \<in> region p (unat sz)" using region_offset [of 0 "unat sz" p] sz unat_less64 [of sz] by simp
    moreover have "p \<in> region p (4096 * ?n)" using calculation(2) region_mono [OF n(2)] by blast
    ultimately show False using kernel_heap.alloc_apart [OF ok a p] by blast
  qed
  have "unat p = unat (heap_start_address h) + 4096 * i"
    using unat_heap_run_addr [OF ok, of i] fit n(1) i(2) by simp
  moreover have "heap_table_apart h1" using apart by (simp add: heap_table_apart_def i(3))
  moreover have "4096 * i + 4096 * ?n \<le> 4096 * unat (blocks h)" using fit by simp
  moreover have "heap_start_address h1 = heap_start_address h" "blocks h1 = blocks h" by (simp_all add: i(3))
  ultimately show thesis
    using that [of "insert (i, ?n) R" "4096 * ?n" i] i(4) ext n(2) new keep by blast
qed

lemma extent_write:
  assumes ok: "heap_ok m h R" and apart: "heap_table_apart h" and p: "(p, l) \<in> heap_extents h R"
    and w: "same_outside A m m'" "A \<subseteq> region p l"
  shows "heap_ok m' h R" and "(q, k) \<in> heap_extents h R - {(p, l)} \<Longrightarrow> b \<in> region q k \<Longrightarrow> m' b = m b"
proof -
  show "heap_ok m' h R"
    using apart w(2) extent_in_area [OF ok p] unfolding heap_table_apart_def by (intro heap_ok_frame [OF ok w(1)]) blast
  show "m' b = m b" if "(q, k) \<in> heap_extents h R - {(p, l)}" "b \<in> region q k"
    using kernel_heap.extents_apart [OF ok p, of q k] that w(2) by (intro same_outsideD [OF w(1)]) blast
qed

lemma kfree_extent:
  assumes ok: "heap_ok m h R" and p: "(p, l) \<in> heap_extents h R"
  obtains m' h' R' where "kfree m h p = Some (m', h')" and "heap_ok m' h' R'"
    and "heap_extents h' R' = heap_extents h R - {(p, l)}"
    and "same_outside (region (heap_table h) (unat (blocks h))) m m'"
    and "heap_start_address h' = heap_start_address h" and "heap_table h' = heap_table h" and "blocks h' = blocks h"
proof -
  obtain i n where i: "(i, n) \<in> R" "p = heap_run_addr h i" "l = 4096 * n" "i + n \<le> unat (blocks h)"
    using ok p by (rule heap_extentsE)
  let ?m = "fill (heap_table h + of_nat i) n 0 m" and ?h = "h\<lparr>free_blocks := free_blocks h + of_nat n\<rparr>"
  have "kfree m h p = Some (?m, ?h)" "heap_ok ?m ?h (R - {(i, n)})"
    using heap_free_run [OF ok i(1)] i(2) by (simp_all add: kfree_def sysutils_kernel_heap_free_def)
  moreover have "heap_extents ?h (R - {(i, n)}) = heap_extents h R - {(p, l)}"
    using heap_extents_remove [OF ok i(1)] i(2,3) by simp
  moreover have "region (heap_table h + of_nat i) n \<subseteq> region (heap_table h) (unat (blocks h))"
    using region_sub [OF i(4)] unat_less64 [of "blocks h"] by simp
  then have "same_outside (region (heap_table h) (unat (blocks h))) m ?m"
    by (rule same_outside_mono [OF fill_outside])
  ultimately show thesis using that [of ?m ?h "R - {(i, n)}"] by simp
qed

lemma kalloc_decided:
  assumes "heap_ok m h R" and "0 < unat sz"
  shows "if \<exists>i. i + ceil_div (unat sz) 4096 \<le> unat (blocks h) \<and> {i..<i + ceil_div (unat sz) 4096} \<inter> runs_taken R = {}
    then \<exists>m1 h1 p. kalloc m h sz = Some (m1, h1, p) \<and> p \<noteq> NULL
    else kalloc m h sz = Some (m, h, NULL)"
proof -
  let ?n = "ceil_div (unat sz) 4096"
  have "0 < ?n" using assms(2) ceil_div_pos [of 4096 "unat sz"] by simp
  then have "heap_run_addr h i \<noteq> NULL" if "i + ?n \<le> unat (blocks h)" for i
    using unat_heap_run_addr [OF assms(1), of i] that assms(1) by (auto simp: heap_ok_def)
  then show ?thesis
    using heap_alloc_eq [OF assms] unfolding heap_ok_fits [OF assms(1)] kalloc_def sysutils_kernel_heap_alloc_def
    by (auto simp only: split: if_splits)
qed

text \<open>
  C24. \<open>kzalloc\<close> always returns on a well-formed kernel heap. If the blocks asked for are free in a row somewhere, the result is not \<open>NULL\<close>,
  the bytes asked for are zero, the invariant holds with the new extent added, and the bytes of every
  extent allocated before are unchanged. If they are not, the result is \<open>NULL\<close>, the heap is as before, and the bytes
  from address 0 on are cleared, since the pointer is not tested.
\<close>
theorem kzalloc_zeroed:
  assumes "heap_ok m h R" and "heap_table_apart h" and "0 < unat sz" and "unat sz < 2 ^ 31"
  shows "if \<exists>i. i + ceil_div (unat sz) 4096 \<le> unat (blocks h) \<and> {i..<i + ceil_div (unat sz) 4096} \<inter> runs_taken R = {}
    then (\<exists>m' h' p R' l. kzalloc m h sz = Some (m', h', p) \<and> p \<noteq> NULL \<and> heap_ok m' h' R' \<and> heap_table_apart h' \<and> unat sz \<le> l \<and>
      heap_extents h' R' = insert (p, l) (heap_extents h R) \<and> (\<forall>q \<in> region p (unat sz). m' q = 0) \<and>
      (\<forall>(q, k) \<in> heap_extents h R. \<forall>b \<in> region q k. m' b = m b))
    else kzalloc m h sz = Some (fill NULL (unat sz) 0 m, h, NULL)"
proof -
  let ?n = "ceil_div (unat sz) 4096"
  let ?fit = "\<lambda>i. i + ?n \<le> unat (blocks h) \<and> {i..<i + ?n} \<inter> runs_taken R = {}"
  have kz: "kzalloc m h sz = Some (fill p (unat sz) 0 m1, h1, p)" if "kalloc m h sz = Some (m1, h1, p)" for m1 h1 p
    using that assms(4) by (simp add: kzalloc_def kalloc_def memset_fill)
  have alloc: "if \<exists>i. ?fit i then \<exists>m1 h1 p. kalloc m h sz = Some (m1, h1, p) \<and> p \<noteq> NULL else kalloc m h sz = Some (m, h, NULL)"
    using kalloc_decided [OF assms(1,3)] .
  show ?thesis
  proof (cases "\<exists>i. ?fit i")
    case False
    then show ?thesis using alloc kz by (simp only: if_False)
  next
    case True
    then obtain m1 h1 p where a: "kalloc m h sz = Some (m1, h1, p)" and p: "p \<noteq> NULL"
      using alloc by auto
    let ?m = "fill p (unat sz) 0 m1"
    obtain R1 l where r: "heap_ok m1 h1 R1" "heap_table_apart h1" "unat sz \<le> l"
      "heap_extents h1 R1 = insert (p, l) (heap_extents h R)" "(p, l) \<notin> heap_extents h R"
      "\<forall>(q, k) \<in> heap_extents h R. \<forall>b \<in> region q k. m1 b = m b"
      using assms(1-3) a p by (rule kalloc_extent)
    have ext: "(p, l) \<in> heap_extents h1 R1" using r(4) by blast
    note w = extent_write [OF r(1,2) ext fill_outside region_mono [OF r(3)]]
    have "?m b = m b" if "(q, k) \<in> heap_extents h R" "b \<in> region q k" for q k b
    proof -
      have "(q, k) \<in> heap_extents h1 R1 - {(p, l)}" using that(1) r(4,5) by auto
      then show ?thesis using w(2) that r(6) by fastforce
    qed
    moreover have "\<forall>q \<in> region p (unat sz). ?m q = 0" by (simp add: fill_def)
    ultimately have "\<exists>m' h' p R' l. kzalloc m h sz = Some (m', h', p) \<and> p \<noteq> NULL \<and> heap_ok m' h' R' \<and>
        heap_table_apart h' \<and> unat sz \<le> l \<and> heap_extents h' R' = insert (p, l) (heap_extents h R) \<and>
        (\<forall>q \<in> region p (unat sz). m' q = 0) \<and> (\<forall>(q, k) \<in> heap_extents h R. \<forall>b \<in> region q k. m' b = m b)"
      using kz [OF a] p r(2-4) w(1) by blast
    with True show ?thesis by simp
  qed
qed

theorem kzalloc_zeroed_witness:
  "(\<exists>m' h' p. kzalloc (\<lambda>_. 0) example_heap 5000 = Some (m', h', p) \<and> p \<noteq> NULL \<and> (\<forall>q \<in> region p 5000. m' q = 0)) \<and>
   kzalloc (\<lambda>_. 0) example_heap 40000 = Some (fill NULL 40000 0 (\<lambda>_. 0), example_heap, NULL)"
proof
  have apart: "heap_table_apart example_heap"
    unfolding heap_table_apart_def by (rule regions_apart) simp_all
  have "\<exists>i. i + ceil_div (unat (5000 :: u64)) 4096 \<le> unat (blocks example_heap) \<and>
      {i..<i + ceil_div (unat (5000 :: u64)) 4096} \<inter> runs_taken {} = {}"
    by (rule exI [of _ 0]) (simp add: ceil_div_def runs_taken_def)
  with kzalloc_zeroed [OF heap_ok_example apart, of 5000]
  show "\<exists>m' h' p. kzalloc (\<lambda>_. 0) example_heap 5000 = Some (m', h', p) \<and> p \<noteq> NULL \<and> (\<forall>q \<in> region p 5000. m' q = 0)"
    by auto
  have "\<nexists>i. i + ceil_div (unat (40000 :: u64)) 4096 \<le> unat (blocks example_heap) \<and>
      {i..<i + ceil_div (unat (40000 :: u64)) 4096} \<inter> runs_taken {} = {}"
    by (simp add: ceil_div_def)
  with kzalloc_zeroed [OF heap_ok_example apart, of 40000]
  show "kzalloc (\<lambda>_. 0) example_heap 40000 = Some (fill NULL 40000 0 (\<lambda>_. 0), example_heap, NULL)"
    by simp
qed

lemma setup_heap_eq:
  "setup_heap m start = Some (m(start := 0), \<lparr>heap_start_address = start + 0x80000, heap_table = start,
     blocks = 0x10000, free_blocks = 0x10000\<rparr>)"
  by (simp add: setup_heap_def sysutils_kernel_heap_create_def heap_createtable_def heap_table_size_def
      fold_same_store)

text \<open>
  C25. \<open>setup_heap\<close> over zeroed memory above the linker's \<open>HEAP_START\<close> gives a well-formed empty heap of
  65536 free blocks whose block table lies outside the blocks.
\<close>
theorem setup_heap_ok:
  assumes "unat HEAP_START < 2 ^ 63" and "\<And>j. j < 0x10000 \<Longrightarrow> m (HEAP_START + of_nat j) = 0"
  shows "\<exists>m' h. setup_heap m HEAP_START = Some (m', h) \<and> heap_ok m' h {} \<and> heap_table_apart h \<and>
    sysutils_kernel_heap_get_free_count h = 0x10000 \<and> sysutils_kernel_heap_get_total_count h = 0x10000"
proof -
  let ?h = "\<lparr>heap_start_address = HEAP_START + 0x80000, heap_table = HEAP_START, blocks = 0x10000, free_blocks = 0x10000\<rparr>"
  have start: "unat (HEAP_START + 0x80000) = unat HEAP_START + 0x80000"
    using assms(1) by (simp add: unat_add64)
  have "m(HEAP_START := 0) = m" using assms(2) [of 0] by (simp add: fun_upd_idem)
  moreover have "heap_ok m ?h {}"
    by (rule heap_ok_empty) (use assms start in simp_all)
  moreover have "heap_table_apart ?h"
    unfolding heap_table_apart_def by (rule regions_apart) (use assms(1) start in simp_all)
  ultimately show ?thesis
    by (simp add: setup_heap_eq sysutils_kernel_heap_get_free_count_def heap_get_free_blocks_def
        sysutils_kernel_heap_get_total_count_def)
qed

theorem setup_heap_ok_witness:
  "\<exists>m' h. setup_heap (\<lambda>_. 0) 0x40100000 = Some (m', h) \<and> heap_ok m' h {} \<and>
    sysutils_kernel_heap_get_free_count h = 0x10000"
  using setup_heap_ok [of "0x40100000" "\<lambda>_. 0"] by auto

lemma kalloc_fresh:
  assumes "heap_ok m h {}" and "0 < unat sz" and "ceil_div (unat sz) 4096 \<le> unat (blocks h)"
  shows "\<exists>m1 h1. kalloc m h sz = Some (m1, h1, heap_run_addr h 0)"
proof -
  let ?n = "ceil_div (unat sz) 4096"
  have "blk_fits m (heap_table h) (unat (blocks h)) ?n 0"
    using assms(3) heap_ok_fits [OF assms(1)] by (simp add: runs_taken_def)
  then show ?thesis
    using heap_alloc_eq [OF assms(1,2)] by (auto simp: kalloc_def sysutils_kernel_heap_alloc_def)
qed

abbreviation boot_heap :: heap where
  \<comment> \<open>the heap of \<open>setup_heap\<close> for one value of \<open>HEAP_START\<close>\<close>
  "boot_heap \<equiv> \<lparr>heap_start_address = 0x40180000, heap_table = 0x40100000, blocks = 0x10000, free_blocks = 0x10000\<rparr>"

lemma boot_heap_ok: "heap_ok (\<lambda>_. 0) boot_heap {}" "heap_table_apart boot_heap"
proof -
  show "heap_ok (\<lambda>_. 0) boot_heap {}" by (rule heap_ok_empty) simp_all
  show "heap_table_apart boot_heap" unfolding heap_table_apart_def by (rule regions_apart) simp_all
qed

end
