(* ===== verification/Kernel_Pools.thy ===== *)
theory Kernel_Pools
  imports Slab_Alloc Sysutils
begin

text \<open>
  Slabs whose zone comes from the kernel heap: the start of the kernel makes one for the inodes,
  one for the page tables, one for the jobs and one for the user pages, each time with \<open>kalloc\<close> of
  \<open>slab_get_needed_size\<close> bytes followed by \<open>slab_create\<close>. The lemma here shows once that this gives a
  well-formed empty slab inside the new extent and leaves the heap well formed.
\<close>

definition heap_low :: "heap \<Rightarrow> bool" where
  \<comment> \<open>the heap lies in the 48-bit physical space\<close>
  "heap_low h \<longleftrightarrow> unat (heap_start_address h) + 4096 * unat (blocks h) \<le> 2 ^ 48"

definition table_bytes :: "heap \<Rightarrow> addr set" where
  "table_bytes h = region (heap_table h) (unat (blocks h))"

definition heap_bytes :: "heap \<Rightarrow> addr set" where
  "heap_bytes h = region (heap_start_address h) (4096 * unat (blocks h))"

definition slab_zone_bytes :: "slab \<Rightarrow> nat" where
  "slab_zone_bytes s = unat (header_size s) + unat (object_size s) * unat (max_store s)"

lemma slab_needed_size:
  assumes "0 < unat o'" and "0 < unat n" and "slab_span o' n < 2 ^ 31"
  shows "unat (slab_get_needed_size o' n) = slab_hdr_bytes o' n + unat o' * unat n"
    and "0 < unat (slab_get_needed_size o' n)"
proof -
  have zone: "slab_zone_ok o' n 1" using assms by (simp add: slab_zone_ok_def)
  have le: "slab_hdr_bytes o' n + unat o' * unat n < 2 ^ 31"
    using slab_hdr_bytes_le [OF assms(1,2)] assms(3) by linarith
  then have "unat (o' * n) = unat o' * unat n" by (subst unat_mult64) simp_all
  with le show *: "unat (slab_get_needed_size o' n) = slab_hdr_bytes o' n + unat o' * unat n"
    unfolding slab_get_needed_size_def Let_def slab_get_header_size_eq [OF zone]
    by (subst unat_add64) (simp_all add: unat_of_nat64)
  show "0 < unat (slab_get_needed_size o' n)" unfolding * using assms(1,2) by simp
qed

lemma kernel_slab:
  assumes ok: "heap_ok m h R" and apart: "heap_table_apart h" and low: "heap_low h"
    and pos: "0 < unat o'" "0 < unat n" and span: "slab_span o' n < 2 ^ 31"
    and a: "kalloc m h (slab_get_needed_size o' n) = Some (m1, h1, p)" and p: "p \<noteq> NULL"
  obtains m2 s R1 l i where "slab_create m1 o' n p = Some (m2, s)" and "wf_slab s"
    and "starting_address s = p" and "max_store s = n" and "object_size s = o'" and "slab_used m2 s = {}"
    and "heap_ok m2 h1 R1" and "heap_table_apart h1" and "heap_low h1"
    and "heap_start_address h1 = heap_start_address h"
    and "heap_extents h1 R1 = insert (p, l) (heap_extents h R)" and "(p, l) \<notin> heap_extents h R"
    and "slab_zone_bytes s \<le> l" and "unat p + l \<le> 2 ^ 48"
    and "unat p = unat (heap_start_address h) + 4096 * i"
    and "\<forall>(q, k) \<in> heap_extents h R. \<forall>b \<in> region q k. m2 b = m b"
proof -
  note need = slab_needed_size [OF pos span]
  obtain R1 l i where r: "heap_ok m1 h1 R1" "heap_table_apart h1" "unat (slab_get_needed_size o' n) \<le> l"
    "heap_extents h1 R1 = insert (p, l) (heap_extents h R)" "(p, l) \<notin> heap_extents h R"
    "unat p = unat (heap_start_address h) + 4096 * i" "4096 * i + l \<le> 4096 * unat (blocks h)"
    "heap_start_address h1 = heap_start_address h" "blocks h1 = blocks h"
    "\<forall>(q, k) \<in> heap_extents h R. \<forall>b \<in> region q k. m1 b = m b"
    using ok apart need(2) a p by (rule kalloc_extent)
  have end48: "unat p + l \<le> 2 ^ 48" using r(6,7) low by (simp add: heap_low_def)
  then have "slab_zone_ok o' n p"
    using pos span p by (simp add: slab_zone_ok_def unat_gt_0)
  then obtain m2 s where s: "slab_create m1 o' n p = Some (m2, s)" "wf_slab s" "starting_address s = p"
    "max_store s = n" "object_size s = o'" "slab_used m2 s = {}" "same_outside (slab_header s) m1 m2"
    using slab_create_eq by blast
  have zone: "slab_zone_bytes s \<le> l"
    using r(3) need(1) wf_slab_header(1) [OF s(2)] s(4,5) by (simp add: slab_zone_bytes_def)
  have ext: "(p, l) \<in> heap_extents h1 R1" using r(4) by blast
  have "slab_header s \<subseteq> region p l"
    unfolding slab_header_def s(3) by (rule region_mono) (use zone in \<open>simp add: slab_zone_bytes_def\<close>)
  note w = extent_write [OF r(1,2) ext s(7) this]
  have "\<forall>(q, k) \<in> heap_extents h R. \<forall>b \<in> region q k. m2 b = m b"
  proof (intro ballI, clarify)
    fix q k b
    assume q: "(q, k) \<in> heap_extents h R" and b: "b \<in> region q k"
    then have "(q, k) \<in> heap_extents h1 R1 - {(p, l)}" using r(4,5) by auto
    then show "m2 b = m b" using w(2) b q r(10) by fastforce
  qed
  moreover have "heap_low h1" using low r(8,9) by (simp add: heap_low_def)
  ultimately show thesis
    using that [OF s(1-6) w(1) r(2)] r(4-6,8) zone end48 by blast
qed

end
