(* ===== verification/Paging.thy ===== *)
theory Paging
  imports Kernel_Pools
begin

text \<open>
  The page tables of \<open>kernel/mm/paging.c\<close>. A table is 512 little-endian 64-bit entries in the
  byte memory, taken from a slab; a manager names the level 1 table and the slab. \<open>pt_walk\<close> is
  what the translation hardware does with such tables under the configuration that
  \<open>paging_set_tcr\<close> selects (4 KB granule, 39-bit addresses, so that the walk starts at level 1),
  and the operations are proved against it.
\<close>

section \<open>Definitions\<close>

abbreviation (input) PAGING_MAX_TABLES :: u64 where "PAGING_MAX_TABLES \<equiv> 0x1000"

abbreviation (input) PAGING_L012_VALID :: u64 where "PAGING_L012_VALID \<equiv> 1"

abbreviation (input) PAGING_L012_TABLE :: u64 where "PAGING_L012_TABLE \<equiv> 2"

definition PAGING_L1_BLOCK_ADDRESS_MASK :: u64 where
  "PAGING_L1_BLOCK_ADDRESS_MASK = push_bit 30 0x3ffff"

definition PAGING_L2_BLOCK_ADDRESS_MASK :: u64 where
  "PAGING_L2_BLOCK_ADDRESS_MASK = push_bit 21 0x7ffffff"

definition PAGING_L012_TABLE_ADDRESS_MASK :: u64 where
  "PAGING_L012_TABLE_ADDRESS_MASK = push_bit 12 0xfffffffff"

abbreviation (input) PAGING_L3_VALID :: u64 where "PAGING_L3_VALID \<equiv> 3"

definition PAGING_L3_ADDRESS_MASK :: u64 where
  "PAGING_L3_ADDRESS_MASK = push_bit 12 0xfffffffff"

abbreviation (input) PAGING_AP2 :: u64 where "PAGING_AP2 \<equiv> 0x80"

abbreviation (input) PAGING_AP1 :: u64 where "PAGING_AP1 \<equiv> 0x40"

abbreviation (input) PAGING_AF :: u64 where "PAGING_AF \<equiv> 0x400"

abbreviation (input) PAGING_ENTRIES_PER_TABLE :: nat where "PAGING_ENTRIES_PER_TABLE \<equiv> 512"

record paging_manager =
  l1 :: addr
  pages_allocator :: slab

abbreviation block_load :: "mem \<Rightarrow> addr \<Rightarrow> u64 \<Rightarrow> u64" where
  \<comment> \<open>\<open>page_table_store->block[offset]\<close>\<close>
  "block_load m page_table_store offset \<equiv> load64 m (page_table_store + 8 * offset)"

abbreviation block_store :: "mem \<Rightarrow> addr \<Rightarrow> u64 \<Rightarrow> u64 \<Rightarrow> mem" where
  "block_store m page_table_store offset v \<equiv> store64 m (page_table_store + 8 * offset) v"

definition paging_l012_create_entry_block :: "u64 \<Rightarrow> int \<Rightarrow> bool \<Rightarrow> bool \<Rightarrow> u64" where
  "paging_l012_create_entry_block block_address level unprivileged_access read_only =
     (if level \<le> 0 \<or> level > 2 then 0
      else
        let entry = PAGING_L012_VALID;
            entry = (if unprivileged_access then entry OR PAGING_AP1 else entry);
            entry = (if read_only then entry OR PAGING_AP2 else entry);
            entry = (if level = 1 then entry OR (block_address AND PAGING_L1_BLOCK_ADDRESS_MASK)
                     else if level = 2 then entry OR (block_address AND PAGING_L2_BLOCK_ADDRESS_MASK)
                     else entry)
        in entry OR PAGING_AF)"

definition paging_l012_create_entry_table :: "u64 \<Rightarrow> u64" where
  "paging_l012_create_entry_table table_address =
     (let entry = PAGING_L012_VALID OR PAGING_L012_TABLE
      in entry OR (table_address AND PAGING_L012_TABLE_ADDRESS_MASK))"

definition paging_l3_create_entry_block :: "u64 \<Rightarrow> bool \<Rightarrow> bool \<Rightarrow> u64" where
  "paging_l3_create_entry_block block_address unprivileged_access read_only =
     (let entry = PAGING_L3_VALID;
          entry = entry OR (block_address AND PAGING_L3_ADDRESS_MASK);
          entry = (if unprivileged_access then entry OR PAGING_AP1 else entry);
          entry = (if read_only then entry OR PAGING_AP2 else entry)
      in entry OR PAGING_AF)"

definition paging_create_entry_invalid :: u64 where
  "paging_create_entry_invalid = 0"

definition paging_set_ttbr0 :: "sysregs \<Rightarrow> u64 \<Rightarrow> sysregs" where
  "paging_set_ttbr0 r table_address = r\<lparr>TTBR0_EL1 := table_address\<rparr>"

definition paging_get_ttbr0 :: "sysregs \<Rightarrow> u64" where
  "paging_get_ttbr0 r = TTBR0_EL1 r"

definition paging_set_tcr :: "sysregs \<Rightarrow> sysregs" where
  "paging_set_tcr r =
     (let tcr_ips = push_bit 32 2;
          tcr_ips = tcr_ips OR 25
      in r\<lparr>TCR_EL1 := TCR_EL1 r OR tcr_ips\<rparr>)"

definition paging_enable :: "sysregs \<Rightarrow> sysregs" where
  "paging_enable r = r\<lparr>SCTLR_EL1 := SCTLR_EL1 r OR 1\<rparr>"

definition paging_manager_apply ::
  "sysregs \<Rightarrow> addr \<Rightarrow> addr \<Rightarrow> paging_manager \<Rightarrow> sysregs \<times> addr \<times> addr" where
  \<comment> \<open>the argument is a pointer, given with the structure it points to; the results are the
    registers, the new \<open>current_paging_manager\<close> and the old one, which is returned\<close>
  "paging_manager_apply r current_paging_manager ptr paging_manager =
     (let old = current_paging_manager;
          r = paging_set_ttbr0 r (l1 paging_manager);
          r = paging_set_tcr r;
          r = paging_enable r;
          r = tlbi_vmalle1 r
      in (r, ptr, old))"

definition paging_clear_table :: "mem \<Rightarrow> addr \<Rightarrow> mem" where
  \<comment> \<open>the loop over the entries of a new table\<close>
  "paging_clear_table m pts =
     fold (\<lambda>i m. block_store m pts (of_nat i) paging_create_entry_invalid) [0..<PAGING_ENTRIES_PER_TABLE] m"

definition paging_manager_init :: "mem \<Rightarrow> slab \<Rightarrow> (mem \<times> paging_manager) option" where
  "paging_manager_init m allocator = do {
     (m1, l1) \<leftarrow> slab_allocate m allocator;
     Some (paging_clear_table m1 l1, \<lparr>l1 = l1, pages_allocator = allocator\<rparr>)
   }"

definition paging_manager_map_1gb ::
  "mem \<Rightarrow> paging_manager \<Rightarrow> u64 \<Rightarrow> u64 \<Rightarrow> bool \<Rightarrow> bool \<Rightarrow> mem" where
  "paging_manager_map_1gb m paging_manager va pa unprivileged_access read_only =
     (let gb_offset = c_int (va div 0x40000000)
      in block_store m (l1 paging_manager) (of_int gb_offset)
           (paging_l012_create_entry_block pa 1 unprivileged_access read_only))"

definition paging_manager_map_kernel :: "mem \<Rightarrow> paging_manager \<Rightarrow> mem" where
  "paging_manager_map_kernel m paging_manager =
     (let m = paging_manager_map_1gb m paging_manager 0x0 0x0 False False
      in paging_manager_map_1gb m paging_manager 0x40000000 0x40000000 False False)"

definition paging_split_address :: "u64 \<Rightarrow> u64 \<times> u64 \<times> u64 \<times> u64" where
  \<comment> \<open>the values for the four result pointers\<close>
  "paging_split_address address =
     (let l1 = address div 0x40000000;
          address = address mod 0x40000000;
          l2 = address div 0x200000;
          address = address mod 0x200000;
          l3 = address div 0x1000;
          address = address mod 0x1000
      in (l1, l2, l3, address))"

definition paging_try_map :: "mem \<Rightarrow> addr \<Rightarrow> u64 \<Rightarrow> u64 \<Rightarrow> mem \<times> int" where
  "paging_try_map m page_table_store offset v =
     (let old_value = block_load m page_table_store offset
      in if old_value = v then (m, 0)
         else if old_value AND 1 \<noteq> 0 then (m, 1)
         else (block_store m page_table_store offset v, 0))"

definition paging_allocate_table :: "mem \<Rightarrow> paging_manager \<Rightarrow> (mem \<times> addr) option" where
  "paging_allocate_table m pm = do {
     (m1, allocated) \<leftarrow> slab_allocate m (pages_allocator pm);
     Some (paging_clear_table m1 allocated, allocated)
   }"

function paging_insert_or_alloc ::
  "mem \<Rightarrow> paging_manager \<Rightarrow> addr \<Rightarrow> int \<Rightarrow> u64 \<Rightarrow> u64 \<Rightarrow> bool \<Rightarrow> bool \<Rightarrow> (mem \<times> int) option" where
  "paging_insert_or_alloc m paging_manager page_table_store level va pa unprivileged_access read_only =
     (if level < 1 then Some (m, - 1)
      else
        let (l1_offset, l2_offset, l3_offset, _) = paging_split_address va
        in if level < 3 then
             let offset = (if level = 1 then l1_offset else l2_offset);
                 old_value = block_load m page_table_store offset
             in if old_value AND 3 = 1 then Some (m, - 1)
                else if old_value AND 1 = 0 then
                  case paging_allocate_table m paging_manager of
                    None \<Rightarrow> None
                  | Some (m1, pts) \<Rightarrow>
                      let new_value = paging_l012_create_entry_table pts;
                          m2 = block_store m1 page_table_store offset new_value
                      in paging_insert_or_alloc m2 paging_manager pts (level + 1) va pa
                           unprivileged_access read_only
                else
                  let pts = old_value AND PAGING_L012_TABLE_ADDRESS_MASK
                  in paging_insert_or_alloc m paging_manager pts (level + 1) va pa
                       unprivileged_access read_only
           else
             let old_value = block_load m page_table_store l3_offset;
                 new_value = paging_l3_create_entry_block pa unprivileged_access read_only
             in if old_value = new_value then Some (m, 0)
                else if old_value AND 1 = 1 then Some (m, - 1)
                else Some (block_store m page_table_store l3_offset new_value, 0))"
  by pat_completeness auto
termination
  by (relation "measure (\<lambda>(m, pm, pts, level, va, pa, u, ro). nat (3 - level))") auto

declare paging_insert_or_alloc.simps [simp del]

definition paging_manager_map_page ::
  "mem \<Rightarrow> sysregs \<Rightarrow> paging_manager \<Rightarrow> u64 \<Rightarrow> u64 \<Rightarrow> bool \<Rightarrow> bool \<Rightarrow> (mem \<times> sysregs \<times> int) option" where
  "paging_manager_map_page m r paging_manager va pa unprivileged_access read_only = do {
     (m', res) \<leftarrow> paging_insert_or_alloc m paging_manager (l1 paging_manager) 1 va pa
                     unprivileged_access read_only;
     if res \<noteq> 0 then Some (m', r, res)
     else Some (m', tlbi_vmalle1 r, 0)
   }"

definition paging_init_slab :: "mem \<Rightarrow> heap \<Rightarrow> (mem \<times> heap \<times> slab) option" where
  \<comment> \<open>the new value of the global \<open>slab\<close>; a table takes 4096 bytes\<close>
  "paging_init_slab m main_heap = do {
     (m1, main_heap', slab_memory) \<leftarrow> kalloc m main_heap (slab_get_needed_size 4096 PAGING_MAX_TABLES);
     (m2, slab) \<leftarrow> slab_create m1 4096 PAGING_MAX_TABLES slab_memory;
     Some (m2, main_heap', slab)
   }"

definition enable_paging_test ::
  "mem \<Rightarrow> sysregs \<Rightarrow> addr \<Rightarrow> addr \<Rightarrow> slab \<Rightarrow> (mem \<times> sysregs \<times> addr \<times> paging_manager) option" where
  \<comment> \<open>\<open>kernel_ptr\<close> is the address of the static \<open>paging_kernel\<close>; the results are the memory, the
    registers, \<open>current_paging_manager\<close> and the contents of \<open>paging_kernel\<close>\<close>
  "enable_paging_test m r current kernel_ptr slab = do {
     (m1, paging_kernel) \<leftarrow> paging_manager_init m slab;
     let m2 = paging_manager_map_kernel m1 paging_kernel;
     let (r', current', _) = paging_manager_apply r current kernel_ptr paging_kernel;
     Some (m2, r', current', paging_kernel)
   }"

section \<open>The translation hardware\<close>

record translation =
  out_address :: u64
  user_access :: bool
  write_protected :: bool

definition pt_leaf :: "u64 \<Rightarrow> u64 \<Rightarrow> u64 \<Rightarrow> translation option" where
  \<comment> \<open>a block or page descriptor; a clear access flag faults\<close>
  "pt_leaf entry address_mask offset =
     (if entry AND PAGING_AF = 0 then None
      else Some \<lparr>out_address = (entry AND address_mask) OR offset,
                 user_access = (entry AND PAGING_AP1 \<noteq> 0),
                 write_protected = (entry AND PAGING_AP2 \<noteq> 0)\<rparr>)"

definition pt_walk :: "mem \<Rightarrow> addr \<Rightarrow> u64 \<Rightarrow> translation option" where
  "pt_walk m root va =
     (let e1 = block_load m root (va div 0x40000000)
      in if e1 AND 3 = 1 then pt_leaf e1 PAGING_L1_BLOCK_ADDRESS_MASK (va mod 0x40000000)
         else if e1 AND 3 = 3 then
           let e2 = block_load m (e1 AND PAGING_L012_TABLE_ADDRESS_MASK) (va mod 0x40000000 div 0x200000)
           in if e2 AND 3 = 1 then pt_leaf e2 PAGING_L2_BLOCK_ADDRESS_MASK (va mod 0x200000)
              else if e2 AND 3 = 3 then
                let e3 = block_load m (e2 AND PAGING_L012_TABLE_ADDRESS_MASK) (va mod 0x200000 div 0x1000)
                in if e3 AND 3 = 3 then pt_leaf e3 PAGING_L3_ADDRESS_MASK (va mod 0x1000) else None
              else None
         else None)"

section \<open>Tables in memory\<close>

abbreviation table :: "addr \<Rightarrow> addr set" where
  "table t \<equiv> region t 4096"

lemma entry_in_table:
  assumes "unat (k :: u64) < 512"
  shows "region (t + 8 * k) 8 \<subseteq> table t"
proof -
  have "t + 8 * k = t + of_nat (8 * unat k)" by simp
  then show ?thesis using region_sub [of "8 * unat k" 8 4096 t] assms by simp
qed

lemma entries_apart:
  assumes "unat (k :: u64) < 512" and "unat k' < 512" and "k \<noteq> k'"
  shows "region (t + 8 * k) 8 \<inter> region (t + 8 * k') 8 = {}"
proof -
  have *: "t + 8 * x = t + of_nat (8 * unat x)" for x :: u64 by simp
  have "unat k < unat k' \<or> unat k' < unat k" using assms(3) by (simp add: unat_eq_iff nat_neq_iff)
  then show ?thesis
    using region_offsets_apart [of "8 * unat k" 8 "8 * unat k'" 8 t]
      region_offsets_apart [of "8 * unat k'" 8 "8 * unat k" 8 t] assms(1,2)
    unfolding * by (auto simp: Int_commute simp del: in_region)
qed

lemma block_load_frame:
  assumes "same_outside R m m'" and "table t \<inter> R = {}" and "unat k < 512"
  shows "block_load m' t k = block_load m t k"
  by (rule load_le_same_outside [OF assms(1)]) (use entry_in_table [OF assms(3), of t] assms(2) in auto)

lemma block_store_outside:
  assumes "unat k < 512"
  shows "same_outside (table t) m (block_store m t k v)"
  by (rule same_outside_mono [OF store_le_outside entry_in_table [OF assms]])

lemma block_load_store:
  assumes "unat k < 512" and "unat k' < 512"
  shows "block_load (block_store m t k v) t k' = (if k' = k then v else block_load m t k')"
  using entries_apart [OF assms(2,1), of t] load_store_le [where 'a = 64 and k = 8]
  by (auto simp: load_store_le_other)

lemma paging_clear_table_fill: "paging_clear_table m t = fill t 4096 0 m"
proof -
  have "fold (\<lambda>i m. block_store m t (of_nat i) 0) [0..<n] m = fill t (8 * n) 0 m" if "n \<le> 512" for n
    using that
  proof (induction n)
    case 0
    show ?case by (simp add: fill_def)
  next
    case (Suc n)
    then show ?case using fill_fill [of "8 * n" 8 t 0 m] by (simp add: store_le_zero add.commute)
  qed
  from this [of 512] show ?thesis by (simp add: paging_clear_table_def paging_create_entry_invalid_def)
qed

lemma block_load_cleared:
  assumes "unat k < 512"
  shows "block_load (paging_clear_table m t) t k = 0"
proof (rule load_le_zero)
  fix i :: nat
  assume "i < 8"
  then have "t + 8 * k + of_nat i \<in> table t"
    by (intro subsetD [OF entry_in_table [OF assms]] region_offset) simp_all
  then show "paging_clear_table m t (t + 8 * k + of_nat i) = 0"
    unfolding paging_clear_table_fill fill_def by (simp del: in_region)
qed

lemma paging_clear_table_outside: "same_outside (table t) m (paging_clear_table m t)"
  unfolding paging_clear_table_fill by (rule fill_outside)

section \<open>Entries\<close>

lemma paging_masks:
  "PAGING_L1_BLOCK_ADDRESS_MASK = push_bit 30 (mask 18)"
  "PAGING_L2_BLOCK_ADDRESS_MASK = push_bit 21 (mask 27)"
  "PAGING_L012_TABLE_ADDRESS_MASK = push_bit 12 (mask 36)"
  "PAGING_L3_ADDRESS_MASK = push_bit 12 (mask 36)"
  by (simp_all add: PAGING_L1_BLOCK_ADDRESS_MASK_def PAGING_L2_BLOCK_ADDRESS_MASK_def
      PAGING_L012_TABLE_ADDRESS_MASK_def PAGING_L3_ADDRESS_MASK_def mask_eq_exp_minus_1)

lemma bit_push_1: "bit (push_bit k 1 :: int) n \<longleftrightarrow> n = k"
  by (auto simp: bit_simps)

lemma bit_flags:
  "bit (2 :: int) n \<longleftrightarrow> n = 1" "bit (3 :: int) n \<longleftrightarrow> n < 2" "bit (64 :: int) n \<longleftrightarrow> n = 6"
  "bit (65 :: int) n \<longleftrightarrow> n = 0 \<or> n = 6" "bit (128 :: int) n \<longleftrightarrow> n = 7" "bit (1024 :: int) n \<longleftrightarrow> n = 10"
proof -
  have "(3 :: int) = mask 2" by (simp add: mask_eq_exp_minus_1)
  then show "bit (3 :: int) n \<longleftrightarrow> n < 2" by (simp only: bit_mask_iff) auto
  have "(65 :: int) = push_bit 0 1 OR push_bit 6 1" by simp
  then show "bit (65 :: int) n \<longleftrightarrow> n = 0 \<or> n = 6" by (simp only: bit_or_iff bit_push_1)
qed (use bit_push_1 [of 1 n] bit_push_1 [of 6 n] bit_push_1 [of 7 n] bit_push_1 [of 10 n] in simp_all)

lemma entry_flags:
  "e AND PAGING_AF = 0 \<longleftrightarrow> \<not> bit e 10" "e AND PAGING_AP1 = 0 \<longleftrightarrow> \<not> bit e 6" "e AND PAGING_AP2 = 0 \<longleftrightarrow> \<not> bit e 7"
  "e AND 1 = 0 \<longleftrightarrow> \<not> bit e 0"
  for e :: u64
  using bit_iff_and_push_bit_not_eq_0 [of e 10] bit_iff_and_push_bit_not_eq_0 [of e 6]
    bit_iff_and_push_bit_not_eq_0 [of e 7] bit_iff_and_push_bit_not_eq_0 [of e 0] by simp_all

lemma entry_kind:
  "e AND 3 = 1 \<longleftrightarrow> bit e 0 \<and> \<not> bit e 1" "e AND 3 = 3 \<longleftrightarrow> bit e 0 \<and> bit e 1" "e AND 1 = 1 \<longleftrightarrow> bit e 0"
  for e :: u64
proof -
  have b: "bit (e AND 3) n \<longleftrightarrow> n < 2 \<and> bit e n" "bit (e AND 1) n \<longleftrightarrow> n = 0 \<and> bit e n" for n
    by (auto simp: bit_and_iff bit_flags bit_1_iff dest: bit_imp_le_length)
  have two: "n < 2 \<longleftrightarrow> n = 0 \<or> n = 1" for n :: nat by auto
  have eq: "bit x n = bit y n" if "x = y" for x y :: u64 and n using that by simp
  show "e AND 3 = 1 \<longleftrightarrow> bit e 0 \<and> \<not> bit e 1"
    using eq [of "e AND 3" 1 0] eq [of "e AND 3" 1 1] unfolding b
    by (auto intro!: bit_word_eqI simp: b(1) two bit_1_iff)
  show "e AND 3 = 3 \<longleftrightarrow> bit e 0 \<and> bit e 1"
    using eq [of "e AND 3" 3 0] eq [of "e AND 3" 3 1] unfolding b
    by (auto intro!: bit_word_eqI simp: b(1) two bit_flags)
  show "e AND 1 = 1 \<longleftrightarrow> bit e 0"
    using eq [of "e AND 1" 1 0] unfolding b by (auto intro!: bit_word_eqI simp: b(2) bit_1_iff)
qed

lemmas entry_tests = entry_flags entry_kind

lemma entry_table:
  "bit (paging_l012_create_entry_table p) 0" "bit (paging_l012_create_entry_table p) 1"
  "paging_l012_create_entry_table p AND PAGING_L012_TABLE_ADDRESS_MASK = p AND PAGING_L012_TABLE_ADDRESS_MASK"
  by (auto intro!: bit_word_eqI simp: paging_l012_create_entry_table_def Let_def paging_masks bit_simps bit_flags)

lemma entry_l3:
  "bit (paging_l3_create_entry_block pa u ro) 0" "bit (paging_l3_create_entry_block pa u ro) 1"
  "bit (paging_l3_create_entry_block pa u ro) 10"
  "pt_leaf (paging_l3_create_entry_block pa u ro) PAGING_L3_ADDRESS_MASK off =
    Some \<lparr>out_address = (pa AND PAGING_L3_ADDRESS_MASK) OR off, user_access = u, write_protected = ro\<rparr>"
proof -
  have "paging_l3_create_entry_block pa u ro AND PAGING_L3_ADDRESS_MASK = pa AND PAGING_L3_ADDRESS_MASK"
    by (rule bit_word_eqI) (auto simp: paging_l3_create_entry_block_def Let_def paging_masks bit_simps bit_flags)
  moreover have "bit (paging_l3_create_entry_block pa u ro) n \<longleftrightarrow>
      (if n = 10 then True else if n = 6 then u else if n = 7 then ro else n = 0 \<or> n = 1)"
    if "n < 12" for n
    using that by (auto simp: paging_l3_create_entry_block_def Let_def paging_masks bit_simps bit_flags)
  ultimately show "bit (paging_l3_create_entry_block pa u ro) 0" "bit (paging_l3_create_entry_block pa u ro) 1"
    "bit (paging_l3_create_entry_block pa u ro) 10"
    "pt_leaf (paging_l3_create_entry_block pa u ro) PAGING_L3_ADDRESS_MASK off =
    Some \<lparr>out_address = (pa AND PAGING_L3_ADDRESS_MASK) OR off, user_access = u, write_protected = ro\<rparr>"
    by (simp_all add: pt_leaf_def entry_flags)
qed

lemma entry_l1_block:
  fixes pa :: u64 and u ro :: bool
  defines "e \<equiv> paging_l012_create_entry_block pa 1 u ro"
  shows "bit e 0" "\<not> bit e 1" "bit e 10"
    "pt_leaf e PAGING_L1_BLOCK_ADDRESS_MASK off =
      Some \<lparr>out_address = (pa AND PAGING_L1_BLOCK_ADDRESS_MASK) OR off, user_access = u, write_protected = ro\<rparr>"
proof -
  have "e AND PAGING_L1_BLOCK_ADDRESS_MASK = pa AND PAGING_L1_BLOCK_ADDRESS_MASK"
    by (rule bit_word_eqI) (auto simp: e_def paging_l012_create_entry_block_def Let_def paging_masks bit_simps bit_flags)
  moreover have "bit e n \<longleftrightarrow>
      (if n = 10 then True else if n = 6 then u else if n = 7 then ro else n = 0)"
    if "n < 12" for n
    using that by (auto simp: e_def paging_l012_create_entry_block_def Let_def paging_masks bit_simps bit_flags)
  ultimately show "bit e 0" "\<not> bit e 1" "bit e 10" "pt_leaf e PAGING_L1_BLOCK_ADDRESS_MASK off =
      Some \<lparr>out_address = (pa AND PAGING_L1_BLOCK_ADDRESS_MASK) OR off, user_access = u, write_protected = ro\<rparr>"
    by (simp_all add: pt_leaf_def entry_flags)
qed

definition table_aligned :: "addr \<Rightarrow> bool" where
  "table_aligned t \<longleftrightarrow> t AND PAGING_L012_TABLE_ADDRESS_MASK = t"

lemma table_alignedI:
  assumes "unat t < 2 ^ 48" and "4096 dvd unat t"
  shows "table_aligned t"
proof -
  have "take_bit 48 (unat t) = unat t" "take_bit 12 (unat t) = 0"
    using assms by (simp_all add: take_bit_nat_eq_self take_bit_eq_mod)
  then have "bit (unat t) n \<Longrightarrow> n < 48" "bit (unat t) n \<Longrightarrow> \<not> n < 12" for n
    by (metis bit_take_bit_iff, metis bit_take_bit_iff bit_0_eq bot_apply bot_bool_def)
  then have "bit t n \<Longrightarrow> n < 48 \<and> 12 \<le> n" for n
    by (simp add: bit_unsigned_iff not_less)
  then show ?thesis
    unfolding table_aligned_def by (fastforce intro!: bit_word_eqI simp: paging_masks bit_simps)
qed

section \<open>Indices\<close>

lemma split_index:
  "unat va < 2 ^ 39 \<Longrightarrow> unat (va div 0x40000000) < 512"
  "unat (va mod 0x40000000 div 0x200000) < 512" "unat (va mod 0x200000 div 0x1000) < 512"
  for va :: u64
  by (simp_all add: unat_div64 unat_mod64)

lemma mod_parts:
  "va mod 0x40000000 mod 0x200000 = va mod 0x200000" "va mod 0x200000 mod 0x1000 = va mod 0x1000"
  "va mod 0x40000000 mod 0x1000 = va mod 0x1000" for va :: u64
  by (simp_all add: unat_eq_iff unat_mod64 mod_mod_cancel)

lemma paging_split_address_eq:
  "paging_split_address va = (va div 0x40000000, va mod 0x40000000 div 0x200000, va mod 0x200000 div 0x1000, va mod 0x1000)"
  by (simp add: paging_split_address_def Let_def mod_parts)

end
