(* ===== verification/Page_Tables.thy ===== *)
theory Page_Tables
  imports Paging
begin

text \<open>
  The page tables as a tree. \<open>pt_table\<close> names the tables reached from the root by the indices that
  lead to them; \<open>pt_ok\<close> says that they are distinct objects of the slab in use and that their
  valid entries are the ones the kernel writes. Under this invariant a mapping operation
  changes the translation of the page asked for and of no other.
\<close>

section \<open>The tree of tables\<close>

datatype node = N1 | N2 u64 | N3 u64 u64

definition pt_next :: "mem \<Rightarrow> addr \<Rightarrow> u64 \<Rightarrow> addr option" where
  "pt_next m t k =
     (if unat k < 512 \<and> block_load m t k AND 3 = 3
      then Some (block_load m t k AND PAGING_L012_TABLE_ADDRESS_MASK) else None)"

fun pt_table :: "mem \<Rightarrow> addr \<Rightarrow> node \<Rightarrow> addr option" where
  "pt_table m root N1 = Some root"
| "pt_table m root (N2 i) = pt_next m root i"
| "pt_table m root (N3 i j) = Option.bind (pt_next m root i) (\<lambda>t. pt_next m t j)"

fun child :: "node \<Rightarrow> u64 \<Rightarrow> node option" where
  "child N1 i = Some (N2 i)"
| "child (N2 i) j = Some (N3 i j)"
| "child (N3 i j) k = None"

definition entry_ok :: "node \<Rightarrow> u64 \<Rightarrow> bool" where
  \<comment> \<open>a valid entry is a table, or a block or page with the access flag\<close>
  "entry_ok n e \<longleftrightarrow> (bit e 0 \<longrightarrow> (case n of N3 _ _ \<Rightarrow> bit e 1 \<and> bit e 10 | _ \<Rightarrow> bit e 1 \<or> bit e 10))"

definition pt_ok :: "mem \<Rightarrow> paging_manager \<Rightarrow> bool" where
  "pt_ok m pm \<longleftrightarrow>
     wf_slab (pages_allocator pm) \<and> object_size (pages_allocator pm) = 4096 \<and>
     (\<forall>p \<in> slab_slots (pages_allocator pm). table_aligned p) \<and>
     (\<forall>n t. pt_table m (l1 pm) n = Some t \<longrightarrow> t \<in> slab_live m (pages_allocator pm)) \<and>
     (\<forall>n n' t. pt_table m (l1 pm) n = Some t \<and> pt_table m (l1 pm) n' = Some t \<longrightarrow> n = n') \<and>
     (\<forall>n t k. pt_table m (l1 pm) n = Some t \<and> unat k < 512 \<longrightarrow> entry_ok n (block_load m t k))"

definition pool_bytes :: "slab \<Rightarrow> addr set" where
  "pool_bytes s = slab_header s \<union> (\<Union>p \<in> slab_slots s. region p (unat (object_size s)))"

lemma pt_okD:
  assumes "pt_ok m pm"
  shows "wf_slab (pages_allocator pm)" "object_size (pages_allocator pm) = 4096"
    "p \<in> slab_slots (pages_allocator pm) \<Longrightarrow> table_aligned p"
    "pt_table m (l1 pm) n = Some t \<Longrightarrow> t \<in> slab_live m (pages_allocator pm)"
    "pt_table m (l1 pm) n = Some t \<Longrightarrow> pt_table m (l1 pm) n' = Some t \<Longrightarrow> n = n'"
    "pt_table m (l1 pm) n = Some t \<Longrightarrow> unat k < 512 \<Longrightarrow> entry_ok n (block_load m t k)"
  using assms unfolding pt_ok_def by blast+

lemma pt_table_slot:
  assumes "pt_ok m pm" and "pt_table m (l1 pm) n = Some t"
  shows "t \<in> slab_slots (pages_allocator pm)"
  using pt_okD(4) [OF assms] slab_pool.live_slots [OF pt_okD(1) [OF assms(1)]] by blast

lemma tables_apart:
  assumes "pt_ok m pm" and "p \<in> slab_slots (pages_allocator pm)" "q \<in> slab_slots (pages_allocator pm)" "p \<noteq> q"
  shows "table p \<inter> table q = {}"
  using slab_pool.objects_apart [OF pt_okD(1) [OF assms(1)] assms(2-4)] pt_okD(2) [OF assms(1)] by simp

lemma table_off_header:
  assumes "pt_ok m pm" and "p \<in> slab_slots (pages_allocator pm)"
  shows "table p \<inter> slab_header (pages_allocator pm) = {}"
  using slab_pool.objects_off_book [OF pt_okD(1) [OF assms(1)] assms(2)] pt_okD(2) [OF assms(1)] by simp

section \<open>Walks\<close>

definition pt_path :: "u64 \<Rightarrow> (node \<times> u64) set" where
  \<comment> \<open>the entries a walk may look at\<close>
  "pt_path va = (case paging_split_address va of (i, j, k, _) \<Rightarrow> {(N1, i), (N2 i, j), (N3 i j, k)})"

lemma pt_path_eq:
  "pt_path va = {(N1, va div 0x40000000), (N2 (va div 0x40000000), va mod 0x40000000 div 0x200000),
     (N3 (va div 0x40000000) (va mod 0x40000000 div 0x200000), va mod 0x200000 div 0x1000)}"
  by (simp add: pt_path_def paging_split_address_eq)

lemma pt_walk_cong:
  assumes "unat va < 2 ^ 39"
    and "\<And>n t k. pt_table m root n = Some t \<Longrightarrow> unat k < 512 \<Longrightarrow> (n, k) \<in> pt_path va \<Longrightarrow>
      block_load m' t k = block_load m t k"
  shows "pt_walk m' root va = pt_walk m root va"
proof -
  let ?i = "va div 0x40000000" and ?j = "va mod 0x40000000 div 0x200000" and ?k = "va mod 0x200000 div 0x1000"
  let ?t = "block_load m root ?i AND PAGING_L012_TABLE_ADDRESS_MASK"
  let ?u = "block_load m ?t ?j AND PAGING_L012_TABLE_ADDRESS_MASK"
  note idx = split_index(1) [OF assms(1)] split_index(2,3) [of va]
  have 1: "block_load m' root ?i = block_load m root ?i"
    using assms(2) [of N1 root ?i] idx(1) by (simp add: pt_path_eq)
  have 2: "block_load m' ?t ?j = block_load m ?t ?j" if "block_load m root ?i AND 3 = 3"
    using assms(2) [of "N2 ?i" ?t ?j] idx that by (simp add: pt_path_eq pt_next_def)
  have 3: "block_load m' ?u ?k = block_load m ?u ?k"
    if "block_load m root ?i AND 3 = 3" "block_load m ?t ?j AND 3 = 3"
    using assms(2) [of "N3 ?i ?j" ?u ?k] idx that by (simp add: pt_path_eq pt_next_def)
  show ?thesis
    unfolding pt_walk_def Let_def 1 by (simp add: 2 3 cong: if_cong)
qed

lemma split_page:
  "x div 4096 = 262144 * (x div 1073741824) + 512 * (x mod 1073741824 div 2097152) + x mod 2097152 div (4096 :: nat)"
proof -
  have *: "x = u + 4096 * (262144 * q + 512 * j + k)"
    if "x = 1073741824 * q + r" "r = 2097152 * j + s" "s = 4096 * k + u" for q r j s k u :: nat
    using that by simp
  let ?r = "x mod 1073741824"
  have "?r = 2097152 * (?r div 2097152) + x mod 2097152"
    using mod_mod_cancel [of 2097152 1073741824 x] mult_div_mod_eq [of 2097152 ?r] by simp
  from * [OF mult_div_mod_eq [symmetric] this mult_div_mod_eq [symmetric]]
  have "x div 4096 = (x mod 2097152 mod 4096 +
      4096 * (262144 * (x div 1073741824) + 512 * (?r div 2097152) + x mod 2097152 div 4096)) div 4096"
    by (rule arg_cong)
  also have "\<dots> = 262144 * (x div 1073741824) + 512 * (?r div 2097152) + x mod 2097152 div 4096"
    by (subst div_mult_self2) simp_all
  finally show ?thesis .
qed

lemma pt_path_shared:
  \<comment> \<open>two addresses use the same last entry only when they lie in the same page\<close>
  assumes "(N3 i j, k) \<in> pt_path va" and "(N3 i j, k) \<in> pt_path va'"
  shows "va div 0x1000 = va' div 0x1000"
proof -
  have "va div 0x40000000 = va' div 0x40000000" "va mod 0x40000000 div 0x200000 = va' mod 0x40000000 div 0x200000"
    "va mod 0x200000 div 0x1000 = va' mod 0x200000 div 0x1000"
    using assms by (auto simp: pt_path_eq)
  then show ?thesis
    using split_page [of "unat va"] split_page [of "unat va'"]
    by (simp add: unat_eq_iff unat_div64 unat_mod64)
qed

section \<open>Changing one entry\<close>

definition keeps_others :: "mem \<Rightarrow> mem \<Rightarrow> paging_manager \<Rightarrow> bool" where
  \<comment> \<open>tables that are in use but not part of this tree keep their bytes and stay out of the tree\<close>
  "keeps_others m m' pm \<longleftrightarrow>
     (\<forall>L. L \<subseteq> slab_live m (pages_allocator pm) \<and> (\<forall>n t. pt_table m (l1 pm) n = Some t \<longrightarrow> t \<notin> L) \<longrightarrow>
       L \<subseteq> slab_live m' (pages_allocator pm) \<and> (\<forall>n t. pt_table m' (l1 pm) n = Some t \<longrightarrow> t \<notin> L) \<and>
       (\<forall>t \<in> L. \<forall>b \<in> table t. m' b = m b))"

lemma keeps_others_refl [simp]: "keeps_others m m pm"
  by (simp add: keeps_others_def)

lemma keeps_others_trans: "keeps_others m m1 pm \<Longrightarrow> keeps_others m1 m2 pm \<Longrightarrow> keeps_others m m2 pm"
  unfolding keeps_others_def by metis

lemma keeps_others_write:
  assumes ok: "pt_ok m pm" and w: "same_outside (slab_header (pages_allocator pm) \<union> table p \<union> table t0) m m'"
    and t0: "pt_table m (l1 pm) n0 = Some t0" and p: "p \<in> slab_slots (pages_allocator pm)"
    and new: "p \<notin> slab_live m (pages_allocator pm) \<or> p = t0"
    and live: "slab_live m (pages_allocator pm) \<subseteq> slab_live m' (pages_allocator pm)"
    and tab: "\<And>n t. pt_table m' (l1 pm) n = Some t \<Longrightarrow> t = p \<or> pt_table m (l1 pm) n = Some t"
  shows "keeps_others m m' pm"
  unfolding keeps_others_def
proof (intro allI impI conjI ballI)
  fix L
  assume L: "L \<subseteq> slab_live m (pages_allocator pm) \<and> (\<forall>n t. pt_table m (l1 pm) n = Some t \<longrightarrow> t \<notin> L)"
  then show "L \<subseteq> slab_live m' (pages_allocator pm)" using live by blast
  have pL: "p \<notin> L" "t0 \<notin> L" using L new t0 by auto
  then show "t \<notin> L" if "pt_table m' (l1 pm) n = Some t" for n t using tab [OF that] L by auto
  fix t b
  assume t: "t \<in> L" and b: "b \<in> table t"
  have slot: "t \<in> slab_slots (pages_allocator pm)" using L t slab_pool.live_slots [OF pt_okD(1) [OF ok]] by blast
  have "table t \<inter> table p = {}" "table t \<inter> table t0 = {}" "table t \<inter> slab_header (pages_allocator pm) = {}"
    using tables_apart [OF ok slot] p pt_table_slot [OF ok t0] pL t table_off_header [OF ok slot] by blast+
  then show "m' b = m b" using b by (intro same_outsideD [OF w]) blast
qed

lemma pt_next_cong:
  "(unat k < 512 \<Longrightarrow> block_load m' t k = block_load m t k) \<Longrightarrow> pt_next m' t k = pt_next m t k"
  by (auto simp: pt_next_def)

lemma pt_table_store_leaf:
  assumes ok: "pt_ok m pm" and t0: "pt_table m (l1 pm) (N3 i j) = Some t0" and k0: "unat k0 < 512"
    and e: "entry_ok (N3 i j) e"
  defines "m' \<equiv> block_store m t0 k0 e"
  shows "pt_ok m' pm"
    and "pt_table m' (l1 pm) n = pt_table m (l1 pm) n"
    and "pt_table m (l1 pm) n = Some t \<Longrightarrow> unat k < 512 \<Longrightarrow>
      block_load m' t k = (if n = N3 i j \<and> k = k0 then e else block_load m t k)"
    and "slab_live m' (pages_allocator pm) = slab_live m (pages_allocator pm)"
    and "keeps_others m m' pm"
proof -
  note slot0 = pt_table_slot [OF ok t0]
  show load: "block_load m' t k = (if n = N3 i j \<and> k = k0 then e else block_load m t k)"
    if "pt_table m (l1 pm) n = Some t" "unat k < 512" for n t k
  proof (cases "n = N3 i j")
    case True
    with that t0 show ?thesis using block_load_store [OF k0 that(2)] by (simp add: m'_def)
  next
    case False
    then have "t \<noteq> t0" using pt_okD(5) [OF ok that(1)] t0 by blast
    then have "table t \<inter> table t0 = {}"
      by (rule tables_apart [OF ok pt_table_slot [OF ok that(1)] slot0])
    then show ?thesis
      using False block_load_frame [OF block_store_outside [OF k0] _ that(2)] by (simp add: m'_def)
  qed
  show tab: "pt_table m' (l1 pm) n = pt_table m (l1 pm) n" for n
  proof (cases n)
    case (N2 a)
    then show ?thesis using load [of N1 "l1 pm" a] by (auto intro: pt_next_cong)
  next
    case (N3 a b)
    have "pt_next m' (l1 pm) a = pt_next m (l1 pm) a" using load [of N1 "l1 pm" a] by (auto intro: pt_next_cong)
    moreover have "pt_next m' t b = pt_next m t b" if "pt_next m (l1 pm) a = Some t" for t
      using load [of "N2 a" t b] that by (auto intro: pt_next_cong)
    ultimately show ?thesis using N3 by (cases "pt_next m (l1 pm) a") simp_all
  qed simp
  show live: "slab_live m' (pages_allocator pm) = slab_live m (pages_allocator pm)"
    unfolding m'_def
    by (rule slab_pool.live_frame [OF pt_okD(1) [OF ok] block_store_outside [OF k0] table_off_header [OF ok slot0]])
  show "pt_ok m' pm"
    using ok e load unfolding pt_ok_def tab live by auto
  have "same_outside (slab_header (pages_allocator pm) \<union> table t0 \<union> table t0) m m'"
    unfolding m'_def by (rule same_outside_mono [OF block_store_outside [OF k0]]) blast
  then show "keeps_others m m' pm" by (rule keeps_others_write [OF ok _ t0 slot0]) (simp_all add: live tab)
qed

lemma pt_table_store_child:
  assumes ok: "pt_ok m pm" and t0: "pt_table m (l1 pm) n0 = Some t0" and k0: "unat k0 < 512"
    and c: "child n0 k0 = Some c" and old: "\<not> bit (block_load m t0 k0) 0"
    and load: "\<And>n t k. pt_table m (l1 pm) n = Some t \<Longrightarrow> unat k < 512 \<Longrightarrow>
      block_load m' t k = (if n = n0 \<and> k = k0 then paging_l012_create_entry_table p else block_load m t k)"
    and zero: "\<And>k. unat k < 512 \<Longrightarrow> block_load m' p k = 0" and p: "table_aligned p"
  shows "pt_table m' (l1 pm) n = (if n = c then Some p else pt_table m (l1 pm) n)"
    and "unat va < 2 ^ 39 \<Longrightarrow> pt_walk m' (l1 pm) va = pt_walk m (l1 pm) va"
proof -
  let ?r = "l1 pm"
  have new: "pt_next m' t0 k0 = Some p" "pt_next m t0 k0 = None"
    using load [OF t0 k0] k0 entry_table [of p] p old
    by (simp_all add: pt_next_def entry_kind table_aligned_def)
  have none: "pt_next m' p k = None" for k using zero [of k] by (auto simp: pt_next_def)
  have keep: "pt_next m' t k = pt_next m t k" if "pt_table m ?r n = Some t" "(n, k) \<noteq> (n0, k0)" for n t k
    using load [OF that(1)] that(2) by (auto intro: pt_next_cong)
  show "pt_table m' ?r n = (if n = c then Some p else pt_table m ?r n)"
  proof (cases n0)
    case N1
    then have "pt_next m' ?r a = (if a = k0 then Some p else pt_next m ?r a)" for a
      using t0 new(1) keep [of N1 ?r a] by simp
    moreover have "pt_next m' t b = pt_next m t b" if "pt_next m ?r a = Some t" for a b t
      using keep [of "N2 a" t b] that N1 by simp
    ultimately show ?thesis
      using N1 t0 c new(2) none by (cases n) (auto split: Option.bind_split)
  next
    case (N2 a)
    have "pt_next m' ?r b = pt_next m ?r b" for b using keep [of N1 ?r b] N2 by simp
    moreover have "pt_next m' t d = (if b = a \<and> d = k0 then Some p else pt_next m t d)"
      if "pt_next m ?r b = Some t" for b d t
      using keep [of "N2 b" t d] that N2 t0 new(1) by auto
    ultimately show ?thesis
      using N2 t0 c new(2) by (cases n) (auto split: Option.bind_split)
  next
    case (N3 a b)
    then show ?thesis using c by simp
  qed
  show "pt_walk m' ?r va = pt_walk m ?r va" if va: "unat va < 2 ^ 39"
  proof (cases "(n0, k0) \<in> pt_path va")
    case False
    then show ?thesis using load by (intro pt_walk_cong [OF va]) auto
  next
    case True
    let ?e = "paging_l012_create_entry_table p"
    have e: "?e AND 3 = 3" "?e AND PAGING_L012_TABLE_ADDRESS_MASK = p"
      using entry_table [of p] p by (simp_all add: entry_kind table_aligned_def)
    have o: "block_load m t0 k0 AND 3 \<noteq> 1" "block_load m t0 k0 AND 3 \<noteq> 3" using old by (simp_all add: entry_kind)
    note idx = split_index(2,3) [of va]
    show ?thesis
    proof (cases n0)
      case N1
      then show ?thesis
        using True t0 load [OF t0 k0] e o zero [OF idx(1)] by (simp add: pt_walk_def pt_path_eq Let_def)
    next
      case (N2 a)
      then have "block_load m ?r a AND 3 = 3" "block_load m ?r a AND PAGING_L012_TABLE_ADDRESS_MASK = t0" "unat a < 512"
        using t0 by (auto simp: pt_next_def split: if_splits)
      moreover have "block_load m' ?r a = block_load m ?r a" using load [of N1 ?r a] N2 calculation(3) by simp
      ultimately show ?thesis
        using True N2 load [OF t0 k0] e o zero [OF idx(2)] by (simp add: pt_walk_def pt_path_eq Let_def)
    next
      case (N3 a b)
      then show ?thesis using c by simp
    qed
  qed
qed

section \<open>Inserting a page\<close>

lemma paging_allocate_table_ok:
  assumes ok: "pt_ok m pm" and free: "slab_live m (pages_allocator pm) \<noteq> slab_slots (pages_allocator pm)"
    and t0: "pt_table m (l1 pm) n0 = Some t0" and k0: "unat k0 < 512"
    and c: "child n0 k0 = Some c" and old: "\<not> bit (block_load m t0 k0) 0"
  obtains m1 p where "paging_allocate_table m pm = Some (m1, p)"
    and "pt_ok (block_store m1 t0 k0 (paging_l012_create_entry_table p)) pm"
    and "pt_table (block_store m1 t0 k0 (paging_l012_create_entry_table p)) (l1 pm) c = Some p"
    and "\<forall>va. unat va < 2 ^ 39 \<longrightarrow>
      pt_walk (block_store m1 t0 k0 (paging_l012_create_entry_table p)) (l1 pm) va = pt_walk m (l1 pm) va"
    and "slab_live (block_store m1 t0 k0 (paging_l012_create_entry_table p)) (pages_allocator pm) =
      insert p (slab_live m (pages_allocator pm))"
    and "same_outside (pool_bytes (pages_allocator pm)) m (block_store m1 t0 k0 (paging_l012_create_entry_table p))"
    and "keeps_others m (block_store m1 t0 k0 (paging_l012_create_entry_table p)) pm"
proof -
  let ?s = "pages_allocator pm" and ?r = "l1 pm"
  note wf = pt_okD(1) [OF ok] and sz = pt_okD(2) [OF ok] and slot0 = pt_table_slot [OF ok t0]
  obtain m0 p where p: "slab_allocate m ?s = Some (m0, p)" "p \<in> slab_slots ?s" "p \<notin> slab_live m ?s"
    "slab_live m0 ?s = insert p (slab_live m ?s)" "same_outside (slab_header ?s) m m0"
    using slab_pool.alloc_someE [OF wf free] .
  let ?e = "paging_l012_create_entry_table p"
  let ?m1 = "paging_clear_table m0 p" and ?m2 = "block_store (paging_clear_table m0 p) t0 k0 ?e"
  have neq: "t \<noteq> p" if "pt_table m ?r n = Some t" for n t using pt_okD(4) [OF ok that] p(3) by blast
  have load: "block_load ?m2 t k = (if n = n0 \<and> k = k0 then ?e else block_load m t k)"
    if n: "pt_table m ?r n = Some t" "unat k < 512" for n t k
  proof -
    note slot = pt_table_slot [OF ok n(1)]
    have "block_load ?m1 t k = block_load m0 t k"
      using tables_apart [OF ok slot p(2) neq [OF n(1)]] block_load_frame [OF paging_clear_table_outside _ n(2)] by blast
    also have "\<dots> = block_load m t k"
      using table_off_header [OF ok slot] block_load_frame [OF p(5) _ n(2)] by blast
    finally have 1: "block_load ?m1 t k = block_load m t k" .
    show ?thesis
    proof (cases "t = t0")
      case True
      then have "n = n0" using pt_okD(5) [OF ok n(1)] t0 by blast
      then show ?thesis using True 1 block_load_store [OF k0 n(2)] by simp
    next
      case False
      then have "n \<noteq> n0" using n(1) t0 by auto
      then show ?thesis
        using 1 tables_apart [OF ok slot slot0 False] block_load_frame [OF block_store_outside [OF k0] _ n(2)] by simp
    qed
  qed
  have zero: "block_load ?m2 p k = 0" if "unat k < 512" for k
    using tables_apart [OF ok p(2) slot0] neq [OF t0] block_load_cleared [OF that]
      block_load_frame [OF block_store_outside [OF k0] _ that] by metis
  note tab = pt_table_store_child [OF ok t0 k0 c old load zero pt_okD(3) [OF ok p(2)]]
  have live: "slab_live ?m2 ?s = insert p (slab_live m ?s)"
    using slab_pool.live_frame [OF wf block_store_outside [OF k0] table_off_header [OF ok slot0]]
      slab_pool.live_frame [OF wf paging_clear_table_outside table_off_header [OF ok p(2)]] p(4) by metis
  have tab1: "pt_table ?m2 ?r n = (if n = c then Some p else pt_table m ?r n)" for n by (rule tab(1))
  have "t \<in> slab_live ?m2 ?s" if "pt_table ?m2 ?r n = Some t" for n t
    using that pt_okD(4) [OF ok] by (auto simp: tab1 live split: if_splits)
  moreover have "n = n'" if "pt_table ?m2 ?r n = Some t" "pt_table ?m2 ?r n' = Some t" for n n' t
    using that neq pt_okD(5) [OF ok, of n t n'] by (auto simp: tab1 split: if_splits)
  moreover have "entry_ok n (block_load ?m2 t k)" if "pt_table ?m2 ?r n = Some t" "unat k < 512" for n t k
  proof (cases "n = c")
    case True
    then show ?thesis using that zero by (auto simp: tab1 entry_ok_def)
  next
    case False
    moreover have "entry_ok n0 ?e" using c entry_table [of p] by (cases n0) (simp_all add: entry_ok_def)
    ultimately show ?thesis using that load [of n t k] pt_okD(6) [OF ok, of n t k] by (auto simp: tab1)
  qed
  ultimately have "pt_ok ?m2 pm" using ok unfolding pt_ok_def by blast
  moreover have w: "same_outside (slab_header ?s \<union> table p \<union> table t0) m ?m2"
    using p(5) paging_clear_table_outside [of p m0] block_store_outside [OF k0, of t0 ?m1 ?e]
    by (meson same_outside_mono same_outside_trans Un_upper1 Un_upper2 le_supI1)
  moreover have "same_outside (pool_bytes ?s) m ?m2"
    by (rule same_outside_mono [OF w]) (use p(2) slot0 sz in \<open>auto simp: pool_bytes_def simp del: in_region\<close>)
  moreover have "keeps_others m ?m2 pm"
    by (rule keeps_others_write [OF ok w t0 p(2)]) (use p(3) live tab1 in \<open>auto split: if_splits\<close>)
  ultimately show thesis
    using that [of ?m1 p] p(1) tab live by (simp add: paging_allocate_table_def)
qed

definition mapped :: "u64 \<Rightarrow> u64 \<Rightarrow> bool \<Rightarrow> bool \<Rightarrow> translation" where
  \<comment> \<open>the translation of \<open>va\<close> that a mapping of its page to \<open>pa\<close> asks for\<close>
  "mapped va pa u ro = \<lparr>out_address = (pa AND PAGING_L3_ADDRESS_MASK) OR (va mod 0x1000),
     user_access = u, write_protected = ro\<rparr>"

definition free_tables :: "mem \<Rightarrow> slab \<Rightarrow> nat" where
  "free_tables m s = card (slab_slots s - slab_live m s)"

lemma free_tables_pos: "0 < free_tables m s \<Longrightarrow> slab_live m s \<noteq> slab_slots s"
  by (auto simp: free_tables_def)

lemma free_tables_step:
  assumes "slab_live m' s = insert p (slab_live m s)"
  shows "free_tables m s - 1 \<le> free_tables m' s"
proof -
  have "slab_slots s - slab_live m' s = (slab_slots s - slab_live m s) - {p}" using assms by blast
  then show ?thesis
    by (simp add: free_tables_def card_Diff_singleton_if)
qed

definition map_result :: "nat \<Rightarrow> mem \<Rightarrow> mem \<Rightarrow> paging_manager \<Rightarrow> u64 \<Rightarrow> translation \<Rightarrow> int \<Rightarrow> bool" where
  \<comment> \<open>at most \<open>c\<close> tables were taken from the pool\<close>
  "map_result c m m' pm va new res \<longleftrightarrow>
     pt_ok m' pm \<and> free_tables m (pages_allocator pm) \<le> free_tables m' (pages_allocator pm) + c \<and>
     keeps_others m m' pm \<and> same_outside (pool_bytes (pages_allocator pm)) m m' \<and>
     slab_live m (pages_allocator pm) \<subseteq> slab_live m' (pages_allocator pm) \<and>
     (\<forall>va'. unat va' < 2 ^ 39 \<and> va' div 0x1000 \<noteq> va div 0x1000 \<longrightarrow> pt_walk m' (l1 pm) va' = pt_walk m (l1 pm) va') \<and>
     (res = 0 \<and> pt_walk m' (l1 pm) va = Some new \<and> pt_walk m (l1 pm) va \<in> {None, Some new} \<or>
      res = - 1 \<and> pt_walk m' (l1 pm) va = pt_walk m (l1 pm) va \<and> pt_walk m (l1 pm) va \<noteq> None)"

lemma map_result_trans:
  assumes "\<And>va. unat va < 2 ^ 39 \<Longrightarrow> pt_walk m1 (l1 pm) va = pt_walk m (l1 pm) va"
    and "same_outside (pool_bytes (pages_allocator pm)) m m1"
    and "slab_live m (pages_allocator pm) \<subseteq> slab_live m1 (pages_allocator pm)"
    and "free_tables m (pages_allocator pm) - 1 \<le> free_tables m1 (pages_allocator pm)"
    and "keeps_others m m1 pm" and "map_result c m1 m' pm va new res" and "unat va < 2 ^ 39"
  shows "map_result (Suc c) m m' pm va new res"
  using assms unfolding map_result_def by (auto intro: same_outside_trans keeps_others_trans)

lemma map_result_Suc: "map_result c m m' pm va new res \<Longrightarrow> map_result (Suc c) m m' pm va new res"
  by (auto simp: map_result_def)

lemma pt_walk_blocked:
  assumes ok: "pt_ok m pm" and va: "unat va < 2 ^ 39" and path: "(n, k) \<in> pt_path va"
    and t: "pt_table m (l1 pm) n = Some t" and c: "child n k = Some c" and e: "block_load m t k AND 3 = 1"
  shows "pt_walk m (l1 pm) va \<noteq> None"
proof -
  let ?r = "l1 pm"
  note idx = split_index(1) [OF va] split_index(2) [of va]
  have k: "unat k < 512" using path c idx by (auto simp: pt_path_eq)
  then have "bit (block_load m t k) 10"
    using pt_okD(6) [OF ok t k] e c by (cases n) (auto simp: entry_ok_def entry_kind)
  then have leaf: "pt_leaf (block_load m t k) x off \<noteq> None" for x off by (simp add: pt_leaf_def entry_flags)
  show ?thesis
  proof (cases n)
    case N1
    then show ?thesis using path t e leaf by (simp add: pt_walk_def pt_path_eq Let_def)
  next
    case (N2 a)
    then have "block_load m ?r a AND 3 = 3" "block_load m ?r a AND PAGING_L012_TABLE_ADDRESS_MASK = t"
      using t by (auto simp: pt_next_def split: if_splits)
    then show ?thesis using N2 path e leaf by (simp add: pt_walk_def pt_path_eq Let_def)
  next
    case (N3 a b)
    then show ?thesis using c by simp
  qed
qed

lemma pt_walk_leaf:
  assumes "pt_table m root (N3 i j) = Some t" and "(N3 i j, k) \<in> pt_path va" and "unat va < 2 ^ 39"
  shows "pt_walk m root va = (if block_load m t k AND 3 = 3
    then pt_leaf (block_load m t k) PAGING_L3_ADDRESS_MASK (va mod 0x1000) else None)"
  using assms by (auto simp: pt_walk_def pt_path_eq Let_def pt_next_def split: Option.bind_splits if_splits)

lemma insert_level3:
  assumes ok: "pt_ok m pm" and va: "unat va < 2 ^ 39"
    and path: "pt_path va = {(N1, i), (N2 i, j), (N3 i j, k)}" and t: "pt_table m (l1 pm) (N3 i j) = Some t"
  shows "\<exists>m' res. paging_insert_or_alloc m pm t 3 va pa u ro = Some (m', res) \<and>
    map_result 0 m m' pm va (mapped va pa u ro) res"
proof -
  let ?r = "l1 pm" and ?e = "paging_l3_create_entry_block pa u ro"
  have in_path: "(N3 i j, k) \<in> pt_path va" using path by simp
  then have k: "k = va mod 0x200000 div 0x1000" unfolding pt_path_eq by simp
  then have k512: "unat k < 512" using split_index(3) [of va] by simp
  let ?o = "block_load m t k"
  have ins: "paging_insert_or_alloc m pm t 3 va pa u ro =
      (if ?o = ?e then Some (m, 0) else if ?o AND 1 = 1 then Some (m, - 1) else Some (block_store m t k ?e, 0))"
    by (subst paging_insert_or_alloc.simps) (simp add: paging_split_address_eq k Let_def)
  have w: "pt_walk m' ?r va = Some (mapped va pa u ro)"
    if "pt_table m' ?r (N3 i j) = Some t" "block_load m' t k = ?e" for m'
    using pt_walk_leaf [OF that(1) in_path va] that(2) entry_l3 [of pa u ro] by (simp add: entry_kind mapped_def)
  show ?thesis
  proof (cases "?o = ?e")
    case True
    then show ?thesis using ins ok w [OF t] by (simp add: map_result_def)
  next
    case False
    show ?thesis
    proof (cases "bit ?o 0")
      case True
      then have "pt_walk m ?r va \<noteq> None"
        using pt_okD(6) [OF ok t k512] pt_walk_leaf [OF t in_path va]
        by (auto simp: entry_ok_def entry_kind entry_flags pt_leaf_def)
      then show ?thesis using False True ins ok by (simp add: map_result_def entry_kind)
    next
      case invalid: False
      let ?m = "block_store m t k ?e"
      have e_ok: "entry_ok (N3 i j) ?e" using entry_l3 [of pa u ro] by (simp add: entry_ok_def)
      note st = pt_table_store_leaf [OF ok t k512 e_ok]
      have "pt_walk ?m ?r va' = pt_walk m ?r va'" if "unat va' < 2 ^ 39" "va' div 0x1000 \<noteq> va div 0x1000" for va'
        by (rule pt_walk_cong [OF that(1)]) (use st(3) pt_path_shared [OF in_path, of va'] that(2) in auto)
      moreover have "pt_walk m ?r va = None"
        using pt_walk_leaf [OF t in_path va] invalid by (simp add: entry_kind)
      moreover have "same_outside (pool_bytes (pages_allocator pm)) m ?m"
        using pt_table_slot [OF ok t] pt_okD(2) [OF ok]
        by (intro same_outside_mono [OF block_store_outside [OF k512]]) (auto simp: pool_bytes_def simp del: in_region)
      moreover have "pt_walk ?m ?r va = Some (mapped va pa u ro)"
        using st(2) t st(3) [OF t k512] by (intro w) (simp_all del: pt_table.simps)
      ultimately show ?thesis
        using ins False invalid st(1,4,5) by (simp add: map_result_def entry_kind free_tables_def)
    qed
  qed
qed

lemma insert_level_step:
  assumes ok: "pt_ok m pm" and va: "unat va < 2 ^ 39" and free: "f < free_tables m (pages_allocator pm)"
    and lev: "lev = 1 \<or> lev = (2 :: int)"
    and k: "k = (if lev = 1 then va div 0x40000000 else va mod 0x40000000 div 0x200000)"
    and path: "(n, k) \<in> pt_path va" and c: "child n k = Some c" and t: "pt_table m (l1 pm) n = Some t"
    and IH: "\<And>m t. pt_ok m pm \<Longrightarrow> f \<le> free_tables m (pages_allocator pm) \<Longrightarrow> pt_table m (l1 pm) c = Some t \<Longrightarrow>
      \<exists>m' res. paging_insert_or_alloc m pm t (lev + 1) va pa u ro = Some (m', res) \<and>
        map_result cost m m' pm va (mapped va pa u ro) res"
  shows "\<exists>m' res. paging_insert_or_alloc m pm t lev va pa u ro = Some (m', res) \<and>
    map_result (Suc cost) m m' pm va (mapped va pa u ro) res"
proof -
  let ?o = "block_load m t k" and ?s = "pages_allocator pm"
  have k512: "unat k < 512" using k lev split_index(1) [OF va] split_index(2) [of va] by auto
  have ins: "paging_insert_or_alloc m pm t lev va pa u ro =
      (if ?o AND 3 = 1 then Some (m, - 1)
       else if ?o AND 1 = 0 then
         case paging_allocate_table m pm of None \<Rightarrow> None
         | Some (m1, pts) \<Rightarrow> paging_insert_or_alloc (block_store m1 t k (paging_l012_create_entry_table pts))
             pm pts (lev + 1) va pa u ro
       else paging_insert_or_alloc m pm (?o AND PAGING_L012_TABLE_ADDRESS_MASK) (lev + 1) va pa u ro)"
    using lev by (subst paging_insert_or_alloc.simps)
      (auto simp: paging_split_address_eq k Let_def split: option.split)
  consider (blocked) "?o AND 3 = 1" | (invalid) "\<not> bit ?o 0" | (tab) "?o AND 3 = 3"
    by (auto simp: entry_kind)
  then show ?thesis
  proof cases
    case blocked
    then show ?thesis using ins ok pt_walk_blocked [OF ok va path t c blocked] by (simp add: map_result_def)
  next
    case invalid
    have "slab_live m ?s \<noteq> slab_slots ?s" using free_tables_pos free by simp
    with ok obtain m1 p where p: "paging_allocate_table m pm = Some (m1, p)"
      "pt_ok (block_store m1 t k (paging_l012_create_entry_table p)) pm"
      "pt_table (block_store m1 t k (paging_l012_create_entry_table p)) (l1 pm) c = Some p"
      "\<forall>va. unat va < 2 ^ 39 \<longrightarrow>
        pt_walk (block_store m1 t k (paging_l012_create_entry_table p)) (l1 pm) va = pt_walk m (l1 pm) va"
      "slab_live (block_store m1 t k (paging_l012_create_entry_table p)) ?s = insert p (slab_live m ?s)"
      "same_outside (pool_bytes ?s) m (block_store m1 t k (paging_l012_create_entry_table p))"
      "keeps_others m (block_store m1 t k (paging_l012_create_entry_table p)) pm"
      using t k512 c invalid by (rule paging_allocate_table_ok)
    have "f \<le> free_tables (block_store m1 t k (paging_l012_create_entry_table p)) ?s"
      using free_tables_step [OF p(5)] free by linarith
    from IH [OF p(2) this p(3)] obtain m' res where
      r: "paging_insert_or_alloc (block_store m1 t k (paging_l012_create_entry_table p)) pm p (lev + 1) va pa u ro = Some (m', res)"
        "map_result cost (block_store m1 t k (paging_l012_create_entry_table p)) m' pm va (mapped va pa u ro) res" by blast
    have "map_result (Suc cost) m m' pm va (mapped va pa u ro) res"
      by (rule map_result_trans [OF p(4) [rule_format] p(6) _ free_tables_step [OF p(5)] p(7) r(2) va], simp, unfold p(5), rule subset_insertI)
    then show ?thesis using ins invalid p(1) r(1) by (simp add: entry_tests)
  next
    case tab
    then have "pt_table m (l1 pm) c = Some (?o AND PAGING_L012_TABLE_ADDRESS_MASK)"
      using c t k512 by (cases n) (auto simp: pt_next_def split: Option.bind_splits)
    from IH [OF ok _ this] free obtain m' res where
      "paging_insert_or_alloc m pm (?o AND PAGING_L012_TABLE_ADDRESS_MASK) (lev + 1) va pa u ro = Some (m', res)"
      "map_result cost m m' pm va (mapped va pa u ro) res" by auto
    then show ?thesis using ins tab map_result_Suc by (auto simp: entry_tests)
  qed
qed

lemma insert_level1:
  assumes ok: "pt_ok m pm" and va: "unat va < 2 ^ 39" and free: "2 \<le> free_tables m (pages_allocator pm)"
  shows "\<exists>m' res. paging_insert_or_alloc m pm (l1 pm) 1 va pa u ro = Some (m', res) \<and>
    map_result 2 m m' pm va (mapped va pa u ro) res"
proof -
  let ?i = "va div 0x40000000" and ?j = "va mod 0x40000000 div 0x200000" and ?k = "va mod 0x200000 div 0x1000"
  have l2: "\<exists>m' res. paging_insert_or_alloc m pm t 2 va pa u ro = Some (m', res) \<and>
      map_result (Suc 0) m m' pm va (mapped va pa u ro) res"
    if "pt_ok m pm" "1 \<le> free_tables m (pages_allocator pm)" "pt_table m (l1 pm) (N2 ?i) = Some t" for m t
    using insert_level3 [OF _ va pt_path_eq]
    by (intro insert_level_step [OF that(1) va _ _ _ _ _ that(3), of 0 2 ?j "N3 ?i ?j"])
      (use that(2) in \<open>auto simp: pt_path_eq simp del: pt_table.simps(3)\<close>)
  have two: "2 = Suc (Suc 0)" by simp
  show ?thesis
    unfolding two by (rule insert_level_step [OF ok va _ _ _ _ _ _, of 1 1 ?i N1 "N2 ?i"])
      (use free l2 in \<open>auto simp: pt_path_eq simp del: pt_table.simps(2,3)\<close>)
qed

section \<open>Fresh tables and block mappings\<close>

definition page_pool :: "slab \<Rightarrow> bool" where
  "page_pool s \<longleftrightarrow> wf_slab s \<and> object_size s = 4096 \<and> (\<forall>p \<in> slab_slots s. table_aligned p)"

lemma paging_manager_init_ok:
  assumes "page_pool s" and "0 < free_tables m s"
  obtains m' pm where "paging_manager_init m s = Some (m', pm)" and "pages_allocator pm = s"
    and "pt_ok m' pm" and "\<forall>va. unat va < 2 ^ 39 \<longrightarrow> pt_walk m' (l1 pm) va = None"
    and "slab_live m' s = insert (l1 pm) (slab_live m s)" and "l1 pm \<notin> slab_live m s"
    and "l1 pm \<in> slab_slots s" and "same_outside (slab_header s \<union> table (l1 pm)) m m'"
    and "\<forall>n. pt_table m' (l1 pm) n = (if n = N1 then Some (l1 pm) else None)"
proof -
  have wf: "wf_slab s" and sz: "object_size s = 4096" using assms(1) by (auto simp: page_pool_def)
  obtain m0 p where p: "slab_allocate m s = Some (m0, p)" "p \<in> slab_slots s" "p \<notin> slab_live m s"
    "slab_live m0 s = insert p (slab_live m s)" "same_outside (slab_header s) m m0"
    using slab_pool.alloc_someE [OF wf free_tables_pos [OF assms(2)]] .
  let ?m = "paging_clear_table m0 p" and ?pm = "\<lparr>l1 = p, pages_allocator = s\<rparr>"
  have "table p \<inter> slab_header s = {}" using slab_pool.objects_off_book [OF wf p(2)] sz by simp
  then have live: "slab_live ?m s = insert p (slab_live m s)"
    using slab_pool.live_frame [OF wf paging_clear_table_outside] p(4) by metis
  have zero: "block_load ?m p k = 0" if "unat k < 512" for k using block_load_cleared [OF that] .
  then have "pt_next ?m p k = None" for k by (simp add: pt_next_def)
  then have tab: "pt_table ?m p n = (if n = N1 then Some p else None)" for n by (cases n) simp_all
  have "pt_ok ?m ?pm"
    using assms(1) zero by (auto simp: pt_ok_def page_pool_def tab live entry_ok_def split: if_splits)
  moreover have "pt_walk ?m p va = None" if "unat va < 2 ^ 39" for va
    using zero [OF split_index(1) [OF that]] by (simp add: pt_walk_def)
  moreover have "same_outside (slab_header s \<union> table p) m ?m"
    using p(5) paging_clear_table_outside [of p m0] by (meson same_outside_mono same_outside_trans Un_upper1 Un_upper2)
  ultimately show thesis
    using that [of ?m ?pm] p(1-3) live tab by (simp add: paging_manager_init_def)
qed

lemma map_1gb_ok:
  fixes pa :: u64 and u ro :: bool
  assumes ok: "pt_ok m pm" and va: "unat va < 2 ^ 39"
  defines "m' \<equiv> paging_manager_map_1gb m pm va pa u ro"
  shows "pt_ok m' pm"
    and "unat va' < 2 ^ 39 \<Longrightarrow> pt_walk m' (l1 pm) va' =
      (if va' div 0x40000000 = va div 0x40000000
       then Some \<lparr>out_address = (pa AND PAGING_L1_BLOCK_ADDRESS_MASK) OR (va' mod 0x40000000),
              user_access = u, write_protected = ro\<rparr>
       else pt_walk m (l1 pm) va')"
    and "slab_live m' (pages_allocator pm) = slab_live m (pages_allocator pm)"
    and "same_outside (table (l1 pm)) m m'" and "keeps_others m m' pm"
proof -
  let ?r = "l1 pm" and ?s = "pages_allocator pm" and ?i = "va div 0x40000000"
  let ?e = "paging_l012_create_entry_block pa 1 u ro"
  have i: "unat ?i < 512" by (rule split_index(1) [OF va])
  have "c_int ?i = int (unat ?i)" using i by (intro c_int_small) simp
  then have m': "m' = block_store m ?r ?i ?e"
    by (simp add: m'_def paging_manager_map_1gb_def)
  have root: "pt_table m ?r N1 = Some ?r" by simp
  note slot = pt_table_slot [OF ok root] and e = entry_l1_block [of pa u ro]
  show live: "slab_live m' ?s = slab_live m ?s"
    unfolding m' by (rule slab_pool.live_frame [OF pt_okD(1) [OF ok] block_store_outside [OF i] table_off_header [OF ok slot]])
  have load: "block_load m' t k = (if n = N1 \<and> k = ?i then ?e else block_load m t k)"
    if n: "pt_table m ?r n = Some t" "unat k < 512" for n t k
  proof (cases "n = N1")
    case True
    then show ?thesis using n block_load_store [OF i n(2)] by (simp add: m')
  next
    case False
    then have "t \<noteq> ?r" using pt_okD(5) [OF ok n(1) ] root by blast
    then show ?thesis
      using False tables_apart [OF ok pt_table_slot [OF ok n(1)] slot] block_load_frame [OF block_store_outside [OF i] _ n(2)]
      by (simp add: m')
  qed
  have next1: "pt_next m' ?r a = (if a = ?i then None else pt_next m ?r a)" for a
    using load [OF root, of a] e by (auto simp: pt_next_def entry_kind)
  have next2: "pt_next m' t b = pt_next m t b" if "pt_next m ?r a = Some t" for a t b
    using load [of "N2 a" t b] that by (auto intro: pt_next_cong)
  have sub: "pt_table m' ?r n = Some t \<Longrightarrow> pt_table m ?r n = Some t" for n t
  proof (cases n)
    case (N3 a b)
    assume "pt_table m' ?r n = Some t"
    then have "a \<noteq> ?i" "Option.bind (pt_next m ?r a) (\<lambda>t. pt_next m' t b) = Some t"
      by (auto simp: N3 next1 split: if_splits)
    then show ?thesis by (cases "pt_next m ?r a") (simp_all add: N3 next2)
  qed (auto simp: next1 split: if_splits)
  have "entry_ok N1 ?e" using e by (simp add: entry_ok_def)
  then have "entry_ok n (block_load m' t k)" if "pt_table m' ?r n = Some t" "unat k < 512" for n t k
    using load [OF sub [OF that(1)] that(2)] pt_okD(6) [OF ok sub [OF that(1)] that(2)] by simp
  moreover have "t \<in> slab_live m' ?s" if "pt_table m' ?r n = Some t" for n t
    unfolding live by (rule pt_okD(4) [OF ok sub [OF that]])
  moreover have "n = n'" if "pt_table m' ?r n = Some t" "pt_table m' ?r n' = Some t" for n n' t
    by (rule pt_okD(5) [OF ok sub [OF that(1)] sub [OF that(2)]])
  ultimately show "pt_ok m' pm" using ok unfolding pt_ok_def by blast
  show w: "same_outside (table ?r) m m'" unfolding m' by (rule block_store_outside [OF i])
  then have "same_outside (slab_header ?s \<union> table ?r \<union> table ?r) m m'" by (rule same_outside_mono) blast
  then show "keeps_others m m' pm"
    by (rule keeps_others_write [OF ok _ root slot]) (use live sub in auto)
  show "pt_walk m' ?r va' = (if va' div 0x40000000 = ?i
       then Some \<lparr>out_address = (pa AND PAGING_L1_BLOCK_ADDRESS_MASK) OR (va' mod 0x40000000),
              user_access = u, write_protected = ro\<rparr>
       else pt_walk m ?r va')" if va': "unat va' < 2 ^ 39"
  proof (cases "va' div 0x40000000 = ?i")
    case True
    then show ?thesis using load [OF root i] e by (simp add: pt_walk_def entry_kind)
  next
    case False
    then show ?thesis using load by (simp, intro pt_walk_cong [OF va']) (auto simp: pt_path_eq)
  qed
qed

lemma l1_block_identity:
  assumes "unat va < 2 ^ 31"
  shows "(0x40000000 * (va div 0x40000000) AND PAGING_L1_BLOCK_ADDRESS_MASK) OR (va mod 0x40000000) = va"
proof -
  have *: "0x40000000 * (va div 0x40000000) = push_bit 30 (drop_bit 30 va)" "va mod 0x40000000 = take_bit 30 va"
    by (simp_all add: push_bit_eq_mult drop_bit_eq_div take_bit_eq_mod mult.commute)
  have "take_bit 31 (unat va) = unat va" using assms by (simp add: take_bit_nat_eq_self)
  then have "bit (unat va) n \<Longrightarrow> n < 31" for n by (metis bit_take_bit_iff)
  then have "bit va n \<Longrightarrow> n < 31" for n by (simp add: bit_unsigned_iff)
  then show ?thesis
    unfolding * by (intro bit_word_eqI) (fastforce simp: paging_masks bit_simps)
qed

definition kernel_map :: "u64 \<Rightarrow> translation option" where
  \<comment> \<open>the first 2 GB for the kernel only\<close>
  "kernel_map va = (if unat va < 2 ^ 31 then Some \<lparr>out_address = va, user_access = False, write_protected = False\<rparr> else None)"

lemma map_kernel_ok:
  assumes ok: "pt_ok m pm" and empty: "\<forall>va. unat va < 2 ^ 39 \<longrightarrow> pt_walk m (l1 pm) va = None"
  defines "m' \<equiv> paging_manager_map_kernel m pm"
  shows "pt_ok m' pm" and "unat va < 2 ^ 39 \<Longrightarrow> pt_walk m' (l1 pm) va = kernel_map va"
    and "slab_live m' (pages_allocator pm) = slab_live m (pages_allocator pm)"
    and "same_outside (table (l1 pm)) m m'" and "keeps_others m m' pm"
proof -
  let ?m2 = "paging_manager_map_1gb m pm 0x0 0x0 False False"
  have va01: "unat (0x0 :: u64) < 2 ^ 39" "unat (0x40000000 :: u64) < 2 ^ 39" by simp_all
  note g0 = map_1gb_ok [OF ok va01(1), where pa = "0x0" and u = False and ro = False]
  note g1 = map_1gb_ok [OF g0(1) va01(2), where pa = "0x40000000" and u = False and ro = False]
  have m': "m' = paging_manager_map_1gb ?m2 pm 0x40000000 0x40000000 False False"
    by (simp add: m'_def paging_manager_map_kernel_def)
  show "pt_ok m' pm" "slab_live m' (pages_allocator pm) = slab_live m (pages_allocator pm)"
    using g1(1,3) g0(3) by (simp_all add: m')
  show "same_outside (table (l1 pm)) m m'" unfolding m' by (rule same_outside_trans [OF g0(4) g1(4)])
  show "keeps_others m m' pm" unfolding m' by (rule keeps_others_trans [OF g0(5) g1(5)])
  show "pt_walk m' (l1 pm) va = kernel_map va" if va: "unat va < 2 ^ 39"
  proof -
    consider "va div 0x40000000 = 0" | "va div 0x40000000 = 1" | "va div 0x40000000 \<noteq> 0" "va div 0x40000000 \<noteq> 1" by blast
    then show ?thesis
    proof cases
      case 1
      then have "unat va < 2 ^ 31" by (simp add: unat_eq_iff unat_div64 div_eq_0_iff)
      then show ?thesis using 1 g1(2) [OF va] g0(2) [OF va] l1_block_identity [of va] by (simp add: m' kernel_map_def)
    next
      case 2
      then have "unat va < 2 ^ 31" by (simp add: unat_eq_iff unat_div64)
      then show ?thesis using 2 g1(2) [OF va] l1_block_identity [of va] by (simp add: m' kernel_map_def)
    next
      case 3
      then have "\<not> unat va < 2 ^ 31" by (simp add: unat_eq_iff unat_div64)
      then show ?thesis using 3 g1(2) [OF va] g0(2) [OF va] empty va by (simp add: m' kernel_map_def)
    qed
  qed
qed

section \<open>Properties\<close>

text \<open>
  C22. \<open>paging_manager_map_page\<close> on well-formed page tables, a 39-bit address and two free tables in
  the slab: it returns; the tables stay well formed and only bytes of the slab are written. It
  returns 0 and then the hardware walk of the address gives the physical address, with the
  access rights asked for and the cached translations dropped, or it returns -1 because the
  address was already mapped and its translation is as before. An existing different
  translation is never replaced, an unmapped address is always mapped, and no address outside
  the page changes its translation.
\<close>
theorem map_page_correct:
  assumes "pt_ok m pm" and "unat va < 2 ^ 39" and "2 \<le> free_tables m (pages_allocator pm)"
  shows "\<exists>m' r' res. paging_manager_map_page m r pm va pa u ro = Some (m', r', res) \<and> pt_ok m' pm \<and>
    same_outside (pool_bytes (pages_allocator pm)) m m' \<and>
    (res = 0 \<and> pt_walk m' (l1 pm) va = Some (mapped va pa u ro) \<and> TLB r' = Map.empty \<and>
       pt_walk m (l1 pm) va \<in> {None, Some (mapped va pa u ro)} \<or>
     res = - 1 \<and> r' = r \<and> pt_walk m' (l1 pm) va = pt_walk m (l1 pm) va \<and> pt_walk m (l1 pm) va \<noteq> None) \<and>
    (\<forall>va'. unat va' < 2 ^ 39 \<and> va' div 0x1000 \<noteq> va div 0x1000 \<longrightarrow> pt_walk m' (l1 pm) va' = pt_walk m (l1 pm) va')"
proof -
  obtain m' res where ins: "paging_insert_or_alloc m pm (l1 pm) 1 va pa u ro = Some (m', res)"
    "map_result 2 m m' pm va (mapped va pa u ro) res"
    using insert_level1 [OF assms] by blast
  have "paging_manager_map_page m r pm va pa u ro = Some (m', if res \<noteq> 0 then r else tlbi_vmalle1 r, res)"
    by (simp add: paging_manager_map_page_def ins(1))
  moreover have "TLB (tlbi_vmalle1 r) = Map.empty" by (simp add: tlbi_vmalle1_def)
  ultimately show ?thesis using ins(2) unfolding map_result_def by force
qed

lemma enable_paging_eq:
  assumes "page_pool s" and "0 < free_tables m s"
  obtains m' r' pm where "enable_paging_test m r current ptr s = Some (m', r', ptr, pm)"
    and "pt_ok m' pm" and "pages_allocator pm = s" and "TTBR0_EL1 r' = l1 pm"
    and "SCTLR_EL1 r' = SCTLR_EL1 r OR 1" and "TLB r' = Map.empty" and "TCR_EL1 r' = TCR_EL1 r OR 0x200000019"
    and "\<forall>va. unat va < 2 ^ 39 \<longrightarrow> pt_walk m' (l1 pm) va = kernel_map va"
    and "slab_live m' s = insert (l1 pm) (slab_live m s)" and "l1 pm \<notin> slab_live m s"
proof -
  obtain m1 pm where i: "paging_manager_init m s = Some (m1, pm)" "pages_allocator pm = s" "pt_ok m1 pm"
    "\<forall>va. unat va < 2 ^ 39 \<longrightarrow> pt_walk m1 (l1 pm) va = None" "slab_live m1 s = insert (l1 pm) (slab_live m s)"
    "l1 pm \<notin> slab_live m s"
    using paging_manager_init_ok [OF assms] by blast
  then show thesis
    using that [of "paging_manager_map_kernel m1 pm" _ pm] map_kernel_ok [OF i(3,4)]
    by (simp add: enable_paging_test_def paging_manager_apply_def
        paging_set_ttbr0_def paging_set_tcr_def paging_enable_def tlbi_vmalle1_def Let_def)
qed

text \<open>
  C23. \<open>enable_paging_test\<close> with a page pool that has a free table: the kernel's tables translate the
  first 2 GB to themselves, writable and for the kernel only, and fault on every other 39-bit
  address; the translation base points to them, the control registers have the configuration
  bits set, and no stale translation is cached.
\<close>
theorem kernel_identity_map:
  assumes "page_pool s" and "0 < free_tables m s"
  shows "\<exists>m' r' pm. enable_paging_test m r current ptr s = Some (m', r', ptr, pm) \<and> pt_ok m' pm \<and>
    (\<forall>va. unat va < 2 ^ 39 \<longrightarrow> pt_walk m' (TTBR0_EL1 r') va =
      (if unat va < 2 ^ 31 then Some \<lparr>out_address = va, user_access = False, write_protected = False\<rparr> else None)) \<and>
    SCTLR_EL1 r' = SCTLR_EL1 r OR 1 \<and> TCR_EL1 r' = TCR_EL1 r OR 0x200000019 \<and> TLB r' = Map.empty"
proof -
  obtain m' r' pm where "enable_paging_test m r current ptr s = Some (m', r', ptr, pm)" "pt_ok m' pm"
    "TTBR0_EL1 r' = l1 pm" "SCTLR_EL1 r' = SCTLR_EL1 r OR 1" "TLB r' = Map.empty" "TCR_EL1 r' = TCR_EL1 r OR 0x200000019"
    "\<forall>va. unat va < 2 ^ 39 \<longrightarrow> pt_walk m' (l1 pm) va = kernel_map va"
    by (rule enable_paging_eq [OF assms])
  then show ?thesis unfolding kernel_map_def by (intro exI [of _ m'] exI [of _ r'] exI [of _ pm]) simp
qed

lemma page_poolI:
  assumes "wf_slab s" and "object_size s = 4096" and "4096 dvd unat (starting_address s)"
    and "unat (starting_address s) + (unat (header_size s) + 4096 * unat (max_store s)) \<le> 2 ^ 48"
  shows "page_pool s"
proof -
  have "table_aligned p" if "p \<in> slab_slots s" for p
  proof -
    from that obtain i where i: "i < unat (max_store s)" "p = slab_slot_addr s i" by (rule slab_slotsE)
    have p: "unat p = unat (starting_address s) + (unat (header_size s) + 4096 * i)"
      using unat_slab_slot_addr [OF assms(1) i(1)] i(2) assms(2) by simp
    have hdr: "unat (header_size s) = slab_hdr_bytes 4096 (max_store s)"
      using wf_slab_header(1) [OF assms(1)] assms(2) by simp
    have "unat p < 2 ^ 48" using p i(1) assms(4) by simp
    moreover have "4096 dvd unat p"
      using slab_hdr_bytes_bounds(3) [of 4096 "max_store s"] assms(3) unfolding p hdr by simp
    ultimately show ?thesis by (rule table_alignedI)
  qed
  then show ?thesis using assms by (simp add: page_pool_def)
qed

abbreviation example_pool :: slab where
  "example_pool \<equiv> \<lparr>starting_address = 0x40200000, max_store = 16, object_size = 4096, header_size = 4096\<rparr>"

abbreviation example_regs :: sysregs where
  "example_regs \<equiv> \<lparr>DAIF = 0, VBAR_EL1 = 0, SPSR_EL1 = 0, ELR_EL1 = 0, SP_EL0 = 0, TTBR0_EL1 = 0,
     TCR_EL1 = 0, SCTLR_EL1 = 0, TLB = Map.empty\<rparr>"

lemma example_pool_ok: "page_pool example_pool" "free_tables (\<lambda>_. 0) example_pool = 16"
proof -
  have wf: "wf_slab example_pool"
    by (simp add: wf_slab_def slab_zone_ok_def slab_span_def slab_get_header_size_def
        slab_align_to_object_def c_int_small Let_def)
  then show "page_pool example_pool" by (rule page_poolI) (simp_all add: slab_span_def)
  have "slab_live (\<lambda>_. 0) example_pool = {}" by (simp add: slab_live_def slab_used_def slab_bit_def)
  then show "free_tables (\<lambda>_. 0) example_pool = 16"
    using card_image [OF slab_slot_addr_inj [OF wf]] by (simp add: free_tables_def slab_slots_def)
qed

theorem kernel_identity_map_witness:
  "\<exists>m' r' pm. enable_paging_test (\<lambda>_. 0) example_regs NULL 0x40000100 example_pool = Some (m', r', 0x40000100, pm) \<and>
    pt_walk m' (TTBR0_EL1 r') 0x40001234 =
      Some \<lparr>out_address = 0x40001234, user_access = False, write_protected = False\<rparr> \<and>
    pt_walk m' (TTBR0_EL1 r') 0x80000000 = None"
proof -
  have va: "unat (0x40001234 :: u64) < 2 ^ 39" "unat (0x80000000 :: u64) < 2 ^ 39" by simp_all
  show ?thesis
    using kernel_identity_map [OF example_pool_ok(1), of "\<lambda>_. 0" example_regs NULL "0x40000100"] va
    by (fastforce simp: example_pool_ok(2))
qed

lemma example_tables:
  obtains m' pm where "pt_ok m' pm" and "pages_allocator pm = example_pool"
    and "2 \<le> free_tables m' example_pool" and "pt_walk m' (l1 pm) 0x80001000 = None"
proof -
  obtain m' r' pm where e: "enable_paging_test (\<lambda>_. 0) example_regs NULL 0x40000100 example_pool = Some (m', r', 0x40000100, pm)"
    "pt_ok m' pm" "pages_allocator pm = example_pool"
    "\<forall>va. unat va < 2 ^ 39 \<longrightarrow> pt_walk m' (l1 pm) va = kernel_map va"
    "slab_live m' example_pool = insert (l1 pm) (slab_live (\<lambda>_. 0) example_pool)"
    by (rule enable_paging_eq [OF example_pool_ok(1), of "\<lambda>_. 0"]) (simp_all add: example_pool_ok(2))
  have "2 \<le> free_tables m' example_pool"
    using free_tables_step [OF e(5)] by (simp add: example_pool_ok(2))
  then show thesis using that [of m' pm] e(2-4) by (simp add: kernel_map_def)
qed

theorem map_page_correct_witness:
  "\<exists>m pm m' r' res. paging_manager_map_page m example_regs pm 0x80001000 0x41000000 True False = Some (m', r', res) \<and>
    res = 0 \<and> pt_walk m' (l1 pm) 0x80001000 =
      Some \<lparr>out_address = 0x41000000, user_access = True, write_protected = False\<rparr>"
proof -
  obtain m pm where m: "pt_ok m pm" "pages_allocator pm = example_pool" "2 \<le> free_tables m example_pool"
    "pt_walk m (l1 pm) 0x80001000 = None" by (rule example_tables)
  have "mapped 0x80001000 0x41000000 True False =
      \<lparr>out_address = 0x41000000, user_access = True, write_protected = False\<rparr>"
    by (simp add: mapped_def PAGING_L3_ADDRESS_MASK_def)
  moreover have "unat (0x80001000 :: u64) < 2 ^ 39" by simp
  ultimately show ?thesis
    using map_page_correct [OF m(1) _ m(3) [folded m(2)], of "0x80001000" example_regs "0x41000000" True False] m(4)
    by auto
qed

text \<open>
  \<open>paging_split_address\<close> is a mixed-radix representation: the parts are below 512, 512 and 4096
  (and the first below 512 for a 39-bit address), and they recombine to the address.
\<close>
lemma split_address_roundtrip:
  "case paging_split_address va of (a, b, c, d) \<Rightarrow>
     va = a * 0x40000000 + b * 0x200000 + c * 0x1000 + d \<and>
     unat b < 512 \<and> unat c < 512 \<and> unat d < 4096 \<and> (unat va < 2 ^ 39 \<longleftrightarrow> unat a < 512)"
proof -
  have "va = va div 0x40000000 * 0x40000000 + va mod 0x40000000" by (rule div_mult_mod_eq [symmetric])
  also have "va mod 0x40000000 = va mod 0x40000000 div 0x200000 * 0x200000 + va mod 0x200000"
    using div_mult_mod_eq [of "va mod 0x40000000" "0x200000"] by (simp only: mod_parts)
  also have "va mod 0x200000 = va mod 0x200000 div 0x1000 * 0x1000 + va mod 0x1000"
    using div_mult_mod_eq [of "va mod 0x200000" "0x1000"] by (simp only: mod_parts)
  finally have "va = va div 0x40000000 * 0x40000000 + (va mod 0x40000000 div 0x200000 * 0x200000 +
      (va mod 0x200000 div 0x1000 * 0x1000 + va mod 0x1000))" .
  moreover have "unat (va div 0x40000000) < 512 \<longleftrightarrow> unat va < 2 ^ 39"
    by (simp add: unat_div64 div_less_iff_less_mult)
  moreover have "unat (va mod 0x1000) < 4096" by (simp add: unat_mod64)
  ultimately show ?thesis
    using split_index(2,3) [of va] by (simp add: paging_split_address_eq add.assoc)
qed

lemma slab_live_empty: "slab_used m s = {} \<Longrightarrow> slab_live m s = {}"
  by (simp add: slab_live_def)

lemma free_tables_empty:
  "wf_slab s \<Longrightarrow> slab_used m s = {} \<Longrightarrow> free_tables m s = unat (max_store s)"
  using card_image [OF slab_slot_addr_inj] by (simp add: free_tables_def slab_live_empty slab_slots_def)

lemma pool_bytes_zone:
  assumes wf: "wf_slab s" and zone: "slab_zone_bytes s \<le> l" and l: "l \<le> 2 ^ 64"
  shows "pool_bytes s \<subseteq> region (starting_address s) l"
proof -
  have "slab_header s \<subseteq> region (starting_address s) l"
    unfolding slab_header_def by (rule region_mono) (use zone in \<open>simp add: slab_zone_bytes_def\<close>)
  moreover have "region q (unat (object_size s)) \<subseteq> region (starting_address s) l" if "q \<in> slab_slots s" for q
  proof -
    from that obtain j where j: "j < unat (max_store s)" "q = slab_slot_addr s j" by (rule slab_slotsE)
    have "unat (header_size s) + unat (object_size s) * j + unat (object_size s) \<le> l"
      using slab_slot_end [OF wf j(1)] zone by (simp add: slab_zone_bytes_def)
    then show ?thesis
      unfolding j(2) slab_slot_addr_def by (rule region_sub) (rule l)
  qed
  ultimately show ?thesis by (auto simp: pool_bytes_def simp del: in_region)
qed

text \<open>
  \<open>paging_init_slab\<close> over a well-formed, page-aligned kernel heap: if the heap has room, the global
  slab becomes a pool of 4096 free page-aligned tables, the heap stays well formed with one
  more extent, the pool lies within that extent, and no byte of an earlier allocation changes.
\<close>
lemma paging_init_slab_ok:
  assumes "heap_ok m h R" and "heap_table_apart h" and "heap_low h"
    and "4096 dvd unat (heap_start_address h)"
    and "kalloc m h (slab_get_needed_size 4096 PAGING_MAX_TABLES) = Some (m1, h1, p)" and "p \<noteq> NULL"
  shows "\<exists>m2 s R1 l. paging_init_slab m h = Some (m2, h1, s) \<and> page_pool s \<and> free_tables m2 s = 4096 \<and>
    heap_ok m2 h1 R1 \<and> heap_extents h1 R1 = insert (p, l) (heap_extents h R) \<and> (p, l) \<notin> heap_extents h R \<and>
    pool_bytes s \<subseteq> region p l \<and> (\<forall>(q, k) \<in> heap_extents h R. \<forall>b \<in> region q k. m2 b = m b)"
proof -
  obtain m2 s R1 l i where k: "slab_create m1 4096 0x1000 p = Some (m2, s)" "wf_slab s"
    "starting_address s = p" "max_store s = 0x1000" "object_size s = 4096" "slab_used m2 s = {}"
    "heap_ok m2 h1 R1" "heap_table_apart h1" "heap_low h1" "heap_start_address h1 = heap_start_address h"
    "heap_extents h1 R1 = insert (p, l) (heap_extents h R)" "(p, l) \<notin> heap_extents h R"
    "slab_zone_bytes s \<le> l" "unat p + l \<le> 2 ^ 48" "unat p = unat (heap_start_address h) + 4096 * i"
    "\<forall>(q, k) \<in> heap_extents h R. \<forall>b \<in> region q k. m2 b = m b"
    by (rule kernel_slab [OF assms(1-3) _ _ _ assms(5,6)]) (simp_all add: slab_span_def)
  have "4096 dvd unat p" using assms(4) k(15) by simp
  then have "page_pool s"
    using k(2-5,13,14) by (intro page_poolI) (simp_all add: slab_zone_bytes_def)
  moreover have "pool_bytes s \<subseteq> region p l"
    using pool_bytes_zone [OF k(2,13)] k(3,14) by simp
  moreover have "free_tables m2 s = 4096" using free_tables_empty [OF k(2,6)] k(4) by simp
  moreover have "paging_init_slab m h = Some (m2, h1, s)"
    using assms(5) k(1) by (simp add: paging_init_slab_def)
  ultimately show ?thesis using k(7,11,12,16) by blast
qed

end
