(* ===== verification/Job.thy ===== *)
theory Job
  imports Page_Tables
begin

text \<open>
  Processes: \<open>kernel/mp/job.c\<close>. A job is a structure of 392 bytes in a slab, and all jobs are linked
  in a ring through their \<open>next\<close> pointers, with the global \<open>current_job\<close> pointing into it. The
  structure lives in the byte memory at the offsets the C compiler gives its fields on AArch64;
  \<open>job_at\<close> reads it as a record, and one lemma per field says what storing the field does to that
  record. The globals of the kernel that the code of this and the following components changes
  are the fields of \<open>kernel\<close>.
\<close>

section \<open>Definitions\<close>

record kernel =
  kmem :: mem
  regs :: sysregs
  main_heap :: heap
  page_slab :: slab
  current_paging_manager :: addr
  job_slab :: slab
  user_space :: slab
  current_job :: addr
  inode_slab :: slab
  main_filesystem :: addr

abbreviation (input) RUNNING :: u32 where "RUNNING \<equiv> 0"

abbreviation (input) SLEEPING :: u32 where "SLEEPING \<equiv> 1"

abbreviation (input) TERMINATED :: u32 where "TERMINATED \<equiv> 2"

abbreviation (input) MAX_NAME_CHAR :: u64 where "MAX_NAME_CHAR \<equiv> 30"

abbreviation (input) JOB_MAX_FILES :: nat where "JOB_MAX_FILES \<equiv> 8"

abbreviation (input) JOB_BASE_USER :: u64 where "JOB_BASE_USER \<equiv> 0x80000000"

abbreviation (input) sizeof_job :: nat where "sizeof_job \<equiv> 392"

subsection \<open>The fields of a job\<close>

definition get_status :: "mem \<Rightarrow> addr \<Rightarrow> u32" where "get_status m job = load32 m (fld job 32)"

definition set_status :: "mem \<Rightarrow> addr \<Rightarrow> u32 \<Rightarrow> mem" where "set_status m job v = store32 m (fld job 32) v"

definition get_x :: "mem \<Rightarrow> addr \<Rightarrow> nat \<Rightarrow> u64" where "get_x m job i = load64 m (fld job (40 + 8 * i))"

definition set_x :: "mem \<Rightarrow> addr \<Rightarrow> nat \<Rightarrow> u64 \<Rightarrow> mem" where "set_x m job i v = store64 m (fld job (40 + 8 * i)) v"

definition get_pc :: "mem \<Rightarrow> addr \<Rightarrow> u64" where "get_pc m job = load64 m (fld job 288)"

definition set_pc :: "mem \<Rightarrow> addr \<Rightarrow> u64 \<Rightarrow> mem" where "set_pc m job v = store64 m (fld job 288) v"

definition get_sp :: "mem \<Rightarrow> addr \<Rightarrow> u64" where "get_sp m job = load64 m (fld job 296)"

definition set_sp :: "mem \<Rightarrow> addr \<Rightarrow> u64 \<Rightarrow> mem" where "set_sp m job v = store64 m (fld job 296) v"

definition get_paging :: "mem \<Rightarrow> addr \<Rightarrow> addr" where "get_paging m job = load64 m (fld job 304)"

definition set_paging :: "mem \<Rightarrow> addr \<Rightarrow> addr \<Rightarrow> mem" where "set_paging m job v = store64 m (fld job 304) v"

definition get_file :: "mem \<Rightarrow> addr \<Rightarrow> nat \<Rightarrow> addr" where "get_file m job i = load64 m (fld job (312 + 8 * i))"

definition set_file :: "mem \<Rightarrow> addr \<Rightarrow> nat \<Rightarrow> addr \<Rightarrow> mem" where
  "set_file m job i v = store64 m (fld job (312 + 8 * i)) v"

definition get_count :: "mem \<Rightarrow> addr \<Rightarrow> int" where "get_count m job = sint (load32 m (fld job 376))"

definition set_count :: "mem \<Rightarrow> addr \<Rightarrow> int \<Rightarrow> mem" where "set_count m job v = store32 m (fld job 376) (of_int v)"

definition get_next :: "mem \<Rightarrow> addr \<Rightarrow> addr" where "get_next m job = load64 m (fld job 384)"

definition set_next :: "mem \<Rightarrow> addr \<Rightarrow> addr \<Rightarrow> mem" where "set_next m job v = store64 m (fld job 384) v"

subsection \<open>Operations\<close>

definition job_create :: "kernel \<Rightarrow> u64 \<Rightarrow> u64 \<Rightarrow> addr \<Rightarrow> addr \<Rightarrow> (kernel \<times> addr) option" where
  "job_create k entry sp name paging = do {
     (m, job) \<leftarrow> slab_allocate (kmem k) (job_slab k);
     let m = set_status m job RUNNING;
     let m = set_pc m job entry;
     let m = set_sp m job sp;
     let m = set_paging m job paging;
     let (m, current) =
       (if current_job k = NULL then (set_next m job job, job)
        else
          let save = get_next m (current_job k);
              m = set_next m (current_job k) job
          in (set_next m job save, current_job k));
     (m, _) \<leftarrow> strncpy m job name MAX_NAME_CHAR;
     let m = fold (\<lambda>i m. set_x m job i 0) [0..<31] m;
     let m = fold (\<lambda>i m. set_file m job i NULL) [0..<JOB_MAX_FILES] m;
     let m = set_count m job 0;
     Some (k\<lparr>kmem := m, current_job := current\<rparr>, job)
   }"

partial_function (option) job_find_loop :: "mem \<Rightarrow> addr \<Rightarrow> addr \<Rightarrow> addr \<Rightarrow> (addr \<times> addr) option" where
  \<comment> \<open>the search of \<open>job_delete\<close> for the predecessor of \<open>job\<close>\<close>
  "job_find_loop m job last_ptr curr_ptr =
     (if curr_ptr \<noteq> job then job_find_loop m job curr_ptr (get_next m curr_ptr)
      else Some (last_ptr, curr_ptr))"

definition job_delete :: "kernel \<Rightarrow> addr \<Rightarrow> kernel option" where
  "job_delete k job =
     (let last_ptr = current_job k;
          curr_ptr = get_next (kmem k) (current_job k);
          restore_job = (if job = current_job k then Some (get_next (kmem k) (current_job k)) else None)
      in if last_ptr = curr_ptr then None \<comment> \<open>logs and spins\<close>
         else do {
           (last_ptr, curr_ptr) \<leftarrow> job_find_loop (kmem k) job last_ptr curr_ptr;
           let m = set_next (kmem k) last_ptr (get_next (kmem k) curr_ptr);
           (m, heap') \<leftarrow> kfree m (main_heap k) (get_paging m job);
           (m, _) \<leftarrow> slab_free m (job_slab k) job;
           let k = k\<lparr>kmem := m, main_heap := heap'\<rparr>;
           Some (case restore_job of Some r \<Rightarrow> k\<lparr>current_job := r\<rparr> | None \<Rightarrow> k)
         })"

definition job_init_slab :: "kernel \<Rightarrow> u64 \<Rightarrow> kernel option" where
  "job_init_slab k max_jobs = do {
     let sz = slab_get_needed_size (of_nat sizeof_job) max_jobs;
     (m, heap', slab_zone) \<leftarrow> kalloc (kmem k) (main_heap k) sz;
     (m, slab) \<leftarrow> slab_create m (of_nat sizeof_job) max_jobs slab_zone;
     Some (k\<lparr>kmem := m, main_heap := heap', job_slab := slab\<rparr>)
   }"

definition job_init_user_space :: "kernel \<Rightarrow> int \<Rightarrow> kernel option" where
  "job_init_user_space k n_blocks = do {
     let slab_zone = (0x80000000 :: addr);
     let slab_zone = slab_zone - slab_get_header_size 0x1000 (of_int n_blocks);
     (m, slab) \<leftarrow> slab_create (kmem k) 0x1000 (of_int n_blocks) slab_zone;
     Some (k\<lparr>kmem := m, user_space := slab\<rparr>)
   }"

definition job_get_current :: "kernel \<Rightarrow> addr" where
  "job_get_current k = current_job k"

partial_function (option) job_forward_loop :: "kernel \<Rightarrow> kernel option" where
  "job_forward_loop k =
     (if get_status (kmem k) (current_job k) \<noteq> RUNNING then
        if get_status (kmem k) (current_job k) = TERMINATED
        then Option.bind (job_delete k (current_job k)) job_forward_loop
        else job_forward_loop (k\<lparr>current_job := get_next (kmem k) (current_job k)\<rparr>)
      else Some k)"

definition job_forward :: "kernel \<Rightarrow> kernel option" where
  "job_forward k = job_forward_loop (k\<lparr>current_job := get_next (kmem k) (current_job k)\<rparr>)"

partial_function (option) job_free_fd :: "mem \<Rightarrow> addr \<Rightarrow> nat \<Rightarrow> nat option" where
  \<comment> \<open>the search of \<open>job_add_file\<close> for a free descriptor\<close>
  "job_free_fd m job fd =
     (if get_file m job fd \<noteq> NULL then job_free_fd m job (Suc fd) else Some fd)"

definition job_add_file :: "mem \<Rightarrow> addr \<Rightarrow> addr \<Rightarrow> (mem \<times> int) option" where
  "job_add_file m job inode =
     (if get_count m job \<ge> int JOB_MAX_FILES then Some (m, - 1)
      else do {
        fd \<leftarrow> job_free_fd m job 0;
        let m = set_file m job fd inode;
        count \<leftarrow> int_res (get_count m job + 1);
        let m = set_count m job count;
        Some (m, int fd)
      })"

definition job_get_file :: "mem \<Rightarrow> addr \<Rightarrow> int \<Rightarrow> addr" where
  "job_get_file m job fd =
     (if fd < 0 \<or> fd \<ge> get_count m job then NULL else get_file m job (nat fd))"

definition pm_at :: "mem \<Rightarrow> slab \<Rightarrow> addr \<Rightarrow> paging_manager" where
  \<comment> \<open>the paging manager at an address; its allocator is always the global page slab\<close>
  "pm_at m slab ptr = \<lparr>l1 = load64 m ptr, pages_allocator = slab\<rparr>"

definition job_map_slot :: "paging_manager \<Rightarrow> nat \<Rightarrow> kernel \<Rightarrow> kernel option" where
  \<comment> \<open>one iteration of the loop of \<open>job_create_paging\<close>\<close>
  "job_map_slot pm i k = do {
     (m, slot_phi) \<leftarrow> slab_allocate (kmem k) (user_space k);
     (m, r, _) \<leftarrow> paging_manager_map_page m (regs k) pm (JOB_BASE_USER + 0x1000 * of_nat i) slot_phi True False;
     Some (k\<lparr>kmem := m, regs := r\<rparr>)
   }"

primrec job_map_slots :: "paging_manager \<Rightarrow> nat \<Rightarrow> kernel \<Rightarrow> kernel option" where
  "job_map_slots pm 0 k = Some k"
| "job_map_slots pm (Suc n) k = do { k \<leftarrow> job_map_slots pm n k; job_map_slot pm n k }"

definition job_create_paging :: "kernel \<Rightarrow> addr \<Rightarrow> int \<Rightarrow> (kernel \<times> addr \<times> int) option" where
  \<comment> \<open>\<open>slab_ptr\<close> is the address of the page slab that \<open>paging_get_slab\<close> returns; the results are the
    manager and the value stored through \<open>allocated_size\<close>\<close>
  "job_create_paging k slab_ptr sz = do {
     (m, heap', pm) \<leftarrow> kalloc (kmem k) (main_heap k) 16;
     (m, mgr) \<leftarrow> paging_manager_init m (page_slab k);
     let m = store64 m (fld pm 8) slab_ptr;
     let m = store64 m pm (l1 mgr);
     let m = paging_manager_map_kernel m mgr;
     sz \<leftarrow> int_res (sz + 4096);
     let blocksize = (0x1000 :: int);
     let need_slots = sz sdiv blocksize + (if sz smod blocksize \<noteq> 0 then 1 else 0);
     allocated_size \<leftarrow> int_res (blocksize * need_slots);
     k \<leftarrow> job_map_slots mgr (nat need_slots) (k\<lparr>kmem := m, main_heap := heap'\<rparr>);
     Some (k, pm, allocated_size)
   }"

definition job_terminate :: "kernel \<Rightarrow> kernel" where
  "job_terminate k = k\<lparr>kmem := set_status (kmem k) (current_job k) TERMINATED\<rparr>"

definition job_set_programcounter :: "mem \<Rightarrow> addr \<Rightarrow> u64 \<Rightarrow> mem" where
  "job_set_programcounter m job program_counter = set_pc m job program_counter"

section \<open>A job as a record\<close>

record job =
  j_name :: "u8 list"
  j_status :: u32
  j_x :: "u64 list"
  j_pc :: u64
  j_sp :: u64
  j_paging :: addr
  j_files :: "addr list"
  j_count :: int
  j_next :: addr

definition job_at :: "mem \<Rightarrow> addr \<Rightarrow> job" where
  "job_at m p = \<lparr>j_name = map (\<lambda>i. m (fld p i)) [0..<30], j_status = get_status m p,
     j_x = map (get_x m p) [0..<31], j_pc = get_pc m p, j_sp = get_sp m p, j_paging = get_paging m p,
     j_files = map (get_file m p) [0..<8], j_count = get_count m p, j_next = get_next m p\<rparr>"

lemmas job_getters = get_status_def get_x_def get_pc_def get_sp_def get_paging_def get_file_def get_count_def get_next_def

lemmas job_setters = set_status_def set_x_def set_pc_def set_sp_def set_paging_def set_file_def set_count_def set_next_def

lemma map_upd_nth:
  assumes "i < n" and "\<And>j. j < n \<Longrightarrow> f' j = (if j = i then v else f j)"
  shows "map f' [0..<n] = (map f [0..<n])[i := v]"
  using assms by (intro nth_equalityI) (auto simp: nth_list_update)

lemmas job_stores = load_store_le load_store_fld byte_store_fld

lemma job_at_set [simp]:
  "job_at (set_status m p v) p = (job_at m p)\<lparr>j_status := v\<rparr>"
  "job_at (set_pc m p w) p = (job_at m p)\<lparr>j_pc := w\<rparr>"
  "job_at (set_sp m p w) p = (job_at m p)\<lparr>j_sp := w\<rparr>"
  "job_at (set_paging m p w) p = (job_at m p)\<lparr>j_paging := w\<rparr>"
  "job_at (set_next m p w) p = (job_at m p)\<lparr>j_next := w\<rparr>"
  by (simp_all add: job_at_def job_getters job_setters job_stores)

lemma job_at_set_x [simp]:
  assumes "i < 31"
  shows "job_at (set_x m p i v) p = (job_at m p)\<lparr>j_x := (j_x (job_at m p))[i := v]\<rparr>"
proof -
  have "get_x (set_x m p i v) p j = (if j = i then v else get_x m p j)" if "j < 31" for j
    using assms that by (simp add: get_x_def set_x_def load_store_array)
  then have "map (get_x (set_x m p i v) p) [0..<31] = (map (get_x m p) [0..<31])[i := v]"
    by (rule map_upd_nth [OF assms])
  moreover have "map (get_file (set_x m p i v) p) [0..<8] = map (get_file m p) [0..<8]"
    using assms by (simp add: get_file_def set_x_def job_stores)
  ultimately show ?thesis
    using assms by (simp add: job_at_def) (simp add: job_getters set_x_def job_stores)
qed

lemma job_at_set_file [simp]:
  assumes "i < 8"
  shows "job_at (set_file m p i v) p = (job_at m p)\<lparr>j_files := (j_files (job_at m p))[i := v]\<rparr>"
proof -
  have "get_file (set_file m p i v) p j = (if j = i then v else get_file m p j)" if "j < 8" for j
    using assms that by (simp add: get_file_def set_file_def load_store_array)
  then have "map (get_file (set_file m p i v) p) [0..<8] = (map (get_file m p) [0..<8])[i := v]"
    by (rule map_upd_nth [OF assms])
  moreover have "map (get_x (set_file m p i v) p) [0..<31] = map (get_x m p) [0..<31]"
    using assms by (simp add: get_x_def set_file_def job_stores)
  ultimately show ?thesis
    using assms by (simp add: job_at_def) (simp add: job_getters set_file_def job_stores)
qed

lemma job_at_set_count [simp]:
  assumes "is_int v"
  shows "job_at (set_count m p v) p = (job_at m p)\<lparr>j_count := v\<rparr>"
proof -
  have "sint (of_int v :: u32) = v"
    using assms by (simp add: is_int_def signed_of_int signed_take_bit_int_eq_self)
  then show ?thesis by (simp add: job_at_def job_getters set_count_def job_stores)
qed

end
