(* ===== verification/Job_Ring.thy ===== *)
theory Job_Ring
  imports Job
begin

text \<open>
  The ring of jobs. \<open>jobs_ok\<close> relates the slab, the links and \<open>current_job\<close> to the list of the jobs in
  ring order, starting with the current one; creation, deletion and the choice of the next job
  are proved to be operations on that list.
\<close>

section \<open>Frames\<close>

definition job_fields :: "addr \<Rightarrow> addr set" where
  \<comment> \<open>the bytes of a job after the name and its padding\<close>
  "job_fields p = region (fld p 32) 360"

lemma job_fields_sub: "job_fields p \<subseteq> region p 392"
  unfolding job_fields_def by (rule fld_sub) simp_all

lemma set_outside:
  "same_outside (job_fields p) m (set_status m p v)" "same_outside (job_fields p) m (set_pc m p w)"
  "same_outside (job_fields p) m (set_sp m p w)" "same_outside (job_fields p) m (set_paging m p w)"
  "same_outside (job_fields p) m (set_next m p w)" "same_outside (job_fields p) m (set_count m p i)"
  "j < 31 \<Longrightarrow> same_outside (job_fields p) m (set_x m p j w)"
  "j < 8 \<Longrightarrow> same_outside (job_fields p) m (set_file m p j w)"
proof -
  have *: "same_outside (job_fields p) m (store_le n m (fld p o') u)" if "32 \<le> o'" "o' + n \<le> 392"
    for n o' and u :: "'a::len word"
  proof -
    have "fld p o' = fld (fld p 32) (o' - 32)" using that(1) by (simp add: fld_def)
    then show ?thesis unfolding job_fields_def using that by (simp add: store_fld_outside)
  qed
  show "same_outside (job_fields p) m (set_status m p v)" "same_outside (job_fields p) m (set_pc m p w)"
    "same_outside (job_fields p) m (set_sp m p w)" "same_outside (job_fields p) m (set_paging m p w)"
    "same_outside (job_fields p) m (set_next m p w)" "same_outside (job_fields p) m (set_count m p i)"
    "j < 31 \<Longrightarrow> same_outside (job_fields p) m (set_x m p j w)"
    "j < 8 \<Longrightarrow> same_outside (job_fields p) m (set_file m p j w)"
    unfolding job_setters by (rule *; simp)+
qed

lemma job_at_frame:
  assumes "same_outside R m m'" and "region p 392 \<inter> R = {}"
  shows "job_at m' p = job_at m p"
proof -
  have load: "load_le n m' (fld p o') = (load_le n m (fld p o') :: 'a::len word)" if "o' + n \<le> 392" for n o'
    by (rule load_le_same_outside [OF assms(1)]) (use assms(2) fld_sub [of o' n 392 p] that in auto)
  have byte: "m' (fld p i) = m (fld p i)" if "i < 392" for i
    using fld_byte [of i 392 p] that assms(2) by (intro same_outsideD [OF assms(1)]) auto
  have "get_x m' p i = get_x m p i" if "i < 31" for i
    unfolding get_x_def by (rule load) (use that in simp)
  moreover have "get_file m' p i = get_file m p i" if "i < 8" for i
    unfolding get_file_def by (rule load) (use that in simp)
  ultimately show ?thesis
    by (simp add: job_at_def byte) (simp add: job_getters load)
qed

lemma job_at_sel:
  "get_status m p = j_status (job_at m p)" "get_pc m p = j_pc (job_at m p)" "get_sp m p = j_sp (job_at m p)"
  "get_paging m p = j_paging (job_at m p)" "get_count m p = j_count (job_at m p)" "get_next m p = j_next (job_at m p)"
  "i < 31 \<Longrightarrow> get_x m p i = j_x (job_at m p) ! i" "i < 8 \<Longrightarrow> get_file m p i = j_files (job_at m p) ! i"
  by (simp_all add: job_at_def)

lemma job_at_lists [simp]:
  "length (j_x (job_at m p)) = 31" "length (j_files (job_at m p)) = 8" "length (j_name (job_at m p)) = 30"
  by (simp_all add: job_at_def)

section \<open>The ring\<close>

fun job_path :: "mem \<Rightarrow> addr \<Rightarrow> addr list \<Rightarrow> addr \<Rightarrow> bool" where
  "job_path m p [] q \<longleftrightarrow> p = q"
| "job_path m p (a # as) q \<longleftrightarrow> p = a \<and> job_path m (get_next m a) as q"

lemma job_path_append: "job_path m p (xs @ ys) q \<longleftrightarrow> (\<exists>r. job_path m p xs r \<and> job_path m r ys q)"
  by (induction xs arbitrary: p) auto

lemma job_path_frame:
  "(\<And>a. a \<in> set xs \<Longrightarrow> get_next m' a = get_next m a) \<Longrightarrow> job_path m' p xs q = job_path m p xs q"
  by (induction xs arbitrary: p) auto

lemma job_path_last:
  "xs \<noteq> [] \<Longrightarrow> job_path m p xs q \<Longrightarrow> get_next m (last xs) = q"
  by (induction xs arbitrary: p) (auto split: if_splits)

lemma job_path_upd_last:
  assumes "job_path m p xs q" and "xs \<noteq> []" and "\<And>a. a \<in> set (butlast xs) \<Longrightarrow> get_next m' a = get_next m a"
    and "get_next m' (last xs) = r"
  shows "job_path m' p xs r"
  using assms
proof (induction xs arbitrary: p)
  case (Cons a xs)
  then show ?case by (cases "xs = []") auto
qed simp

definition jobs_ok :: "mem \<Rightarrow> slab \<Rightarrow> addr \<Rightarrow> addr list \<Rightarrow> bool" where
  "jobs_ok m s current js \<longleftrightarrow>
     wf_slab s \<and> object_size s = 392 \<and> slab_live m s = set js \<and> distinct js \<and>
     (if js = [] then current = NULL else job_path m current js current)"

lemma jobs_okD:
  assumes "jobs_ok m s current js"
  shows "wf_slab s" "object_size s = 392" "slab_live m s = set js" "distinct js"
    "js \<noteq> [] \<Longrightarrow> job_path m current js current" "js = [] \<Longrightarrow> current = NULL"
  using assms by (auto simp: jobs_ok_def)

lemma job_slot: "jobs_ok m s current js \<Longrightarrow> j \<in> set js \<Longrightarrow> j \<in> slab_slots s"
  using jobs_okD(1,3) slab_pool.live_slots by blast

lemma job_objects_apart:
  assumes "jobs_ok m s current js" and "p \<in> slab_slots s" and "q \<in> slab_slots s" and "p \<noteq> q"
  shows "region p 392 \<inter> region q 392 = {}"
  using slab_pool.objects_apart [OF jobs_okD(1) [OF assms(1)] assms(2-4)] jobs_okD(2) [OF assms(1)] by simp

lemma job_off_header:
  assumes "jobs_ok m s current js" and "p \<in> slab_slots s"
  shows "region p 392 \<inter> slab_header s = {}"
  using slab_pool.objects_off_book [OF jobs_okD(1) [OF assms(1)] assms(2)] jobs_okD(2) [OF assms(1)] by simp

lemma current_not_NULL:
  assumes "jobs_ok m s current js" and "js \<noteq> []"
  shows "current \<in> set js" "current \<noteq> NULL"
proof -
  show "current \<in> set js" using jobs_okD(5) [OF assms] assms(2) by (cases js) auto
  then show "current \<noteq> NULL"
    using job_slot [OF assms(1)] slab_pool.slots_not_NULL [OF jobs_okD(1) [OF assms(1)]] by metis
qed

section \<open>Creating a job\<close>

lemma strncpy_name:
  assumes "str_at m name s" and "region name (Suc (length s)) \<inter> region p 392 = {}" and "length s < 2 ^ 64 - 1"
  obtains m' q where "strncpy m p name 30 = Some (m', q)" and "str_at m' p (take 30 s)"
    and "same_outside (region p 31) m m'"
proof -
  have "Suc (min 30 (length s)) \<le> 31" by simp
  then have sub: "region p (Suc (min 30 (length s))) \<subseteq> region p 31" and "region p 31 \<subseteq> region p 392"
    by (rule region_mono, intro region_mono) simp
  then have "region name (Suc (length s)) \<inter> region p (Suc (min (unat (30 :: u64)) (length s))) = {}"
    using assms(2) by auto
  from strncpy_str_at [OF assms(1) this assms(3)] obtain m' where
    "strncpy m p name 30 = Some (m', p + of_nat (min 30 (length s)))" "str_at m' p (take 30 s)"
    "same_outside (region p (Suc (min 30 (length s)))) m m'" by auto
  then show thesis using that same_outside_mono [OF _ sub] by blast
qed

lemma job_at_name_write:
  assumes "same_outside (region p 31) m m'"
  shows "job_at m' p = (job_at m p)\<lparr>j_name := map (\<lambda>i. m' (fld p i)) [0..<30]\<rparr>"
proof -
  have load: "load_le n m' (fld p o') = (load_le n m (fld p o') :: 'a::len word)" if "31 \<le> o'" "o' + n \<le> 392" for n o'
    by (rule load_le_same_outside [OF assms]) (use fld_apart [of o' n 0 31 p] that in auto)
  have "get_x m' p i = get_x m p i" if "i < 31" for i
    unfolding get_x_def by (rule load) (use that in simp_all)
  moreover have "get_file m' p i = get_file m p i" if "i < 8" for i
    unfolding get_file_def by (rule load) (use that in simp_all)
  ultimately show ?thesis
    by (simp add: job_at_def) (simp add: job_getters load)
qed

lemma list_update_step:
  "n < length xs \<Longrightarrow> (replicate n v @ drop n xs)[n := v] = replicate (Suc n) v @ drop (Suc n) xs"
  by (simp add: list_update_append replicate_app_Cons_same flip: Cons_nth_drop_Suc)

lemma fold_set_x:
  "n \<le> 31 \<Longrightarrow> job_at (fold (\<lambda>i m. set_x m p i v) [0..<n] m) p =
     (job_at m p)\<lparr>j_x := replicate n v @ drop n (j_x (job_at m p))\<rparr>"
  "n \<le> 31 \<Longrightarrow> same_outside (job_fields p) m (fold (\<lambda>i m. set_x m p i v) [0..<n] m)"
  by (induction n) (auto simp: list_update_step elim: same_outside_trans intro!: set_outside(7))

lemma fold_set_file:
  "n \<le> 8 \<Longrightarrow> job_at (fold (\<lambda>i m. set_file m p i v) [0..<n] m) p =
     (job_at m p)\<lparr>j_files := replicate n v @ drop n (j_files (job_at m p))\<rparr>"
  "n \<le> 8 \<Longrightarrow> same_outside (job_fields p) m (fold (\<lambda>i m. set_file m p i v) [0..<n] m)"
  by (induction n) (auto simp: list_update_step elim: same_outside_trans intro!: set_outside(8))

definition fresh_job :: "mem \<Rightarrow> addr \<Rightarrow> u64 \<Rightarrow> u64 \<Rightarrow> addr \<Rightarrow> addr \<Rightarrow> bool" where
  "fresh_job m p entry sp paging next_job \<longleftrightarrow>
     job_at m p = \<lparr>j_name = j_name (job_at m p), j_status = RUNNING, j_x = replicate 31 0, j_pc = entry, j_sp = sp,
       j_paging = paging, j_files = replicate 8 NULL, j_count = 0, j_next = next_job\<rparr>"

lemma job_create_fill:
  \<comment> \<open>the stores that follow the linking of the new job\<close>
  assumes "str_at m name s" and "region name (Suc (length s)) \<inter> region p 392 = {}" and "length s < 2 ^ 64 - 1"
    and "job_at m p = (job_at m0 p)\<lparr>j_status := RUNNING, j_pc := entry, j_sp := sp, j_paging := paging, j_next := nxt\<rparr>"
  obtains m3 q where "strncpy m p name 30 = Some (m3, q)"
    and "fresh_job (set_count (fold (\<lambda>i m. set_file m p i NULL) [0..<8] (fold (\<lambda>i m. set_x m p i 0) [0..<31] m3)) p 0)
      p entry sp paging nxt"
    and "str_at (set_count (fold (\<lambda>i m. set_file m p i NULL) [0..<8] (fold (\<lambda>i m. set_x m p i 0) [0..<31] m3)) p 0)
      p (take 30 s)"
    and "same_outside (region p 392) m
      (set_count (fold (\<lambda>i m. set_file m p i NULL) [0..<8] (fold (\<lambda>i m. set_x m p i 0) [0..<31] m3)) p 0)"
proof -
  obtain m3 q where m3: "strncpy m p name 30 = Some (m3, q)" "str_at m3 p (take 30 s)" "same_outside (region p 31) m m3"
    using assms(1-3) by (rule strncpy_name)
  let ?m4 = "fold (\<lambda>i m. set_x m p i 0) [0..<31] m3"
  let ?m5 = "fold (\<lambda>i m. set_file m p i NULL) [0..<8] ?m4"
  let ?m6 = "set_count ?m5 p 0"
  have out: "same_outside (job_fields p) m3 ?m6"
    using fold_set_x(2) [of 31 p m3 0] fold_set_file(2) [of 8 p ?m4 0] set_outside(6) [of p ?m5 0]
    by (auto intro: same_outside_trans)
  have "is_int 0" by (simp add: is_int_def)
  then have "fresh_job ?m6 p entry sp paging nxt"
    using fold_set_x(1) [of 31 p 0 m3] fold_set_file(1) [of 8 p 0 ?m4] job_at_name_write [OF m3(3)] assms(4)
    by (simp add: fresh_job_def)
  moreover have "region p (Suc (length (take 30 s))) \<inter> job_fields p = {}"
    using fld_apart [of 0 31 32 360 p] region_mono [of "Suc (length (take 30 s))" 31 p]
    by (auto simp: job_fields_def simp del: in_region)
  then have "str_at ?m6 p (take 30 s)"
    using m3(2) by (subst str_at_same_outside [OF out]) auto
  moreover have "same_outside (region p 392) m ?m6"
  proof -
    have "region p 31 \<subseteq> region p 392" by (rule region_mono) simp
    then show ?thesis using m3(3) out job_fields_sub by (blast intro: same_outside_trans same_outside_mono)
  qed
  ultimately show thesis using that m3(1) by blast
qed

fun insert_after_current :: "addr \<Rightarrow> addr list \<Rightarrow> addr list" where
  "insert_after_current p [] = [p]"
| "insert_after_current p (c # r) = c # p # r"

lemma fresh_job_sel:
  assumes "fresh_job m p entry sp paging nxt"
  shows "get_status m p = RUNNING" "get_pc m p = entry" "get_sp m p = sp" "get_paging m p = paging"
    "get_next m p = nxt" "get_count m p = 0"
proof -
  define n where "n = j_name (job_at m p)"
  have "job_at m p = \<lparr>j_name = n, j_status = RUNNING, j_x = replicate 31 0, j_pc = entry, j_sp = sp,
       j_paging = paging, j_files = replicate 8 NULL, j_count = 0, j_next = nxt\<rparr>"
    using assms by (simp add: fresh_job_def n_def)
  then show "get_status m p = RUNNING" "get_pc m p = entry" "get_sp m p = sp" "get_paging m p = paging"
    "get_next m p = nxt" "get_count m p = 0"
    by (simp_all add: job_at_sel)
qed

lemma pool_bytes_object:
  assumes "p \<in> slab_slots s" and "object_size s = 392"
  shows "region p 392 \<subseteq> pool_bytes s" "slab_header s \<subseteq> pool_bytes s"
  using assms by (auto simp: pool_bytes_def simp del: in_region)

lemma job_create_ok:
  assumes ok: "jobs_ok (kmem k) (job_slab k) (current_job k) js"
    and free: "slab_live (kmem k) (job_slab k) \<noteq> slab_slots (job_slab k)"
    and name: "str_at (kmem k) name s" "length s < 2 ^ 64 - 1"
      "region name (Suc (length s)) \<inter> pool_bytes (job_slab k) = {}"
  obtains m' p where "job_create k entry sp name paging =
      Some (k\<lparr>kmem := m', current_job := (if js = [] then p else current_job k)\<rparr>, p)"
    and "p \<in> slab_slots (job_slab k)" and "p \<notin> set js"
    and "jobs_ok m' (job_slab k) (if js = [] then p else current_job k) (insert_after_current p js)"
    and "fresh_job m' p entry sp paging (if js = [] then p else get_next (kmem k) (current_job k))"
    and "str_at m' p (take 30 s)"
    and "\<forall>j \<in> set js. job_at m' j = (if j = current_job k then (job_at (kmem k) j)\<lparr>j_next := p\<rparr> else job_at (kmem k) j)"
    and "same_outside (pool_bytes (job_slab k)) (kmem k) m'"
proof -
  let ?s = "job_slab k" and ?m = "kmem k" and ?c = "current_job k"
  note wf = jobs_okD(1) [OF ok] and sz = jobs_okD(2) [OF ok]
  obtain m0 p where p: "slab_allocate ?m ?s = Some (m0, p)" "p \<in> slab_slots ?s" "p \<notin> slab_live ?m ?s"
    "p \<noteq> NULL" "slab_live m0 ?s = insert p (slab_live ?m ?s)" "same_outside (slab_header ?s) ?m m0"
    using slab_pool.alloc_someE [OF wf free] .
  have pjs: "p \<notin> set js" using p(3) jobs_okD(3) [OF ok] by simp
  let ?m1 = "set_paging (set_sp (set_pc (set_status m0 p 0) p entry) p sp) p paging"
  let ?save = "get_next ?m1 ?c"
  let ?nxt = "if js = [] then p else get_next ?m ?c"
  let ?m2 = "if js = [] then set_next ?m1 p p else set_next (set_next ?m1 ?c p) p ?save"
  note po = pool_bytes_object [OF p(2) sz]
  have c: "?c \<in> slab_slots ?s" "?c \<noteq> p" "?c \<noteq> NULL" if "js \<noteq> []"
    using current_not_NULL [OF ok that] job_slot [OF ok] pjs by auto
  have m1: "same_outside (region p 392) m0 ?m1"
    by (rule same_outside_mono [OF _ job_fields_sub]) (meson same_outside_trans set_outside(1-4))
  have old: "job_at ?m1 j = job_at ?m j" if "j \<in> set js" for j
    using job_at_frame [OF m1 job_objects_apart [OF ok job_slot [OF ok that] p(2)]]
      job_at_frame [OF p(6) job_off_header [OF ok job_slot [OF ok that]]] that pjs by fastforce
  have save: "?save = get_next ?m ?c" if "js \<noteq> []"
    using old current_not_NULL(1) [OF ok that] by (simp add: job_at_sel)
  have off: "job_at (set_next m ?c v) p = job_at m p" "job_at (set_next m p v) ?c = job_at m ?c" if "js \<noteq> []" for m v
    using job_at_frame [OF same_outside_mono [OF set_outside(5) job_fields_sub]] c [OF that]
      job_objects_apart [OF ok p(2) c(1) [OF that]] job_objects_apart [OF ok c(1) [OF that] p(2)] by metis+
  have at2: "job_at ?m2 p = (job_at m0 p)\<lparr>j_status := 0, j_pc := entry, j_sp := sp, j_paging := paging, j_next := ?nxt\<rparr>"
    using save off by simp
  have out2: "same_outside (pool_bytes ?s) ?m ?m2"
  proof -
    have "same_outside (pool_bytes ?s) ?m ?m1"
      using p(6) m1 po by (blast intro: same_outside_trans same_outside_mono)
    moreover have "same_outside (pool_bytes ?s) m (set_next m q v)" if "q \<in> slab_slots ?s" for m q v
      using pool_bytes_object(1) [OF that sz] by (meson job_fields_sub same_outside_mono set_outside(5))
    ultimately show ?thesis using p(2) c(1) by (cases "js = []") (simp_all, (meson same_outside_trans)+)
  qed
  have "str_at ?m2 name s"
    using name by (subst str_at_same_outside [OF out2]) auto
  moreover have "region name (Suc (length s)) \<inter> region p 392 = {}" using name(3) po(1) by blast
  ultimately obtain m3 q where m3: "strncpy ?m2 p name 30 = Some (m3, q)"
    "fresh_job (set_count (fold (\<lambda>i m. set_file m p i NULL) [0..<8] (fold (\<lambda>i m. set_x m p i 0) [0..<31] m3)) p 0)
      p entry sp paging ?nxt"
    "str_at (set_count (fold (\<lambda>i m. set_file m p i NULL) [0..<8] (fold (\<lambda>i m. set_x m p i 0) [0..<31] m3)) p 0)
      p (take 30 s)"
    "same_outside (region p 392) ?m2
      (set_count (fold (\<lambda>i m. set_file m p i NULL) [0..<8] (fold (\<lambda>i m. set_x m p i 0) [0..<31] m3)) p 0)"
    using name(2) at2 by (rule job_create_fill)
  let ?m6 = "set_count (fold (\<lambda>i m. set_file m p i NULL) [0..<8] (fold (\<lambda>i m. set_x m p i 0) [0..<31] m3)) p 0"
  have create: "job_create k entry sp name paging =
      Some (k\<lparr>kmem := ?m6, current_job := (if js = [] then p else ?c)\<rparr>, p)"
    using p(1) m3(1) jobs_okD(6) [OF ok] c(3) by (auto simp: job_create_def Let_def)
  have others: "job_at ?m6 j = (if j = ?c then (job_at ?m j)\<lparr>j_next := p\<rparr> else job_at ?m j)" if "j \<in> set js" for j
  proof -
    have js: "js \<noteq> []" using that by auto
    have "j \<noteq> p" using that pjs by auto
    then have "job_at ?m6 j = job_at ?m2 j"
      using job_at_frame [OF m3(4) job_objects_apart [OF ok job_slot [OF ok that] p(2)]] by simp
    also have "\<dots> = (if j = ?c then (job_at ?m j)\<lparr>j_next := p\<rparr> else job_at ?m j)"
    proof (cases "j = ?c")
      case True
      then show ?thesis using js off(2) [OF js] old [OF that] by simp
    next
      case False
      then show ?thesis
        using js old [OF that] \<open>j \<noteq> p\<close> job_objects_apart [OF ok job_slot [OF ok that]] p(2) c(1) [OF js]
          job_at_frame [OF same_outside_mono [OF set_outside(5) job_fields_sub]] by simp
    qed
    finally show ?thesis .
  qed
  have live: "slab_live ?m6 ?s = insert p (set js)"
  proof -
    have w: "slab_live m' ?s = slab_live m ?s" if "same_outside (region q 392) m m'" "q \<in> slab_slots ?s" for m m' q
      using slab_pool.object_write [OF wf that(2)] that(1) sz by simp
    have "slab_live (set_next m q v) ?s = slab_live m ?s" if "q \<in> slab_slots ?s" for m q v
      by (rule w [OF same_outside_mono [OF set_outside(5) job_fields_sub] that])
    then have "slab_live ?m2 ?s = slab_live ?m1 ?s" using p(2) c(1) by simp
    then show ?thesis using w [OF m3(4) p(2)] w [OF m1 p(2)] p(5) jobs_okD(3) [OF ok] by simp
  qed
  have nxt: "get_next ?m6 p = ?nxt" by (rule fresh_job_sel(5) [OF m3(2)])
  have "jobs_ok ?m6 ?s (if js = [] then p else ?c) (insert_after_current p js)"
  proof (cases js)
    case Nil
    then show ?thesis using wf sz live nxt by (simp add: jobs_ok_def)
  next
    case (Cons d r)
    then have path: "d = ?c" "job_path ?m (get_next ?m ?c) r ?c" using jobs_okD(5) [OF ok] by auto
    have "get_next ?m6 a = get_next ?m a" if "a \<in> set r" for a
      using others [of a] that Cons path(1) jobs_okD(4) [OF ok] by (auto simp: job_at_sel)
    then have "job_path ?m6 (get_next ?m ?c) r ?c = job_path ?m (get_next ?m ?c) r ?c" by (rule job_path_frame)
    then have "job_path ?m6 (get_next ?m ?c) r ?c" using path(2) by simp
    moreover have "get_next ?m6 ?c = p" using others [of ?c] Cons path(1) by (simp add: job_at_sel)
    ultimately show ?thesis
      using Cons path(1) wf sz live nxt pjs jobs_okD(4) [OF ok] by (auto simp: jobs_ok_def)
  qed
  moreover have "same_outside (pool_bytes ?s) ?m ?m6"
    using out2 m3(4) po(1) by (blast intro: same_outside_trans same_outside_mono)
  ultimately show thesis
    using that [OF create p(2) pjs _ m3(2,3)] others by blast
qed

section \<open>Deleting a job\<close>

lemma job_find_loop_eq:
  "job_path m p (xs @ job # ys) q \<Longrightarrow> job \<notin> set xs \<Longrightarrow>
   job_find_loop m job last_ptr p = Some (last (last_ptr # xs), job)"
proof (induction xs arbitrary: last_ptr p)
  case Nil
  then show ?case by (subst job_find_loop.simps) simp
next
  case (Cons a xs)
  then show ?case by (subst job_find_loop.simps) auto
qed

definition jobs_heap :: "kernel \<Rightarrow> runs \<Rightarrow> addr list \<Rightarrow> bool" where
  \<comment> \<open>the jobs are in the kernel heap and each owns the extent of its paging manager\<close>
  "jobs_heap k R js \<longleftrightarrow>
     jobs_ok (kmem k) (job_slab k) (current_job k) js \<and>
     heap_ok (kmem k) (main_heap k) R \<and> heap_table_apart (main_heap k) \<and>
     pool_bytes (job_slab k) \<subseteq> region (heap_start_address (main_heap k)) (4096 * unat (blocks (main_heap k))) \<and>
     (\<forall>j \<in> set js. \<exists>l. (get_paging (kmem k) j, l) \<in> heap_extents (main_heap k) R) \<and>
     inj_on (get_paging (kmem k)) (set js)"

lemma jobs_heapD:
  assumes "jobs_heap k R js"
  shows "jobs_ok (kmem k) (job_slab k) (current_job k) js" "heap_ok (kmem k) (main_heap k) R"
    "heap_table_apart (main_heap k)"
    "pool_bytes (job_slab k) \<inter> region (heap_table (main_heap k)) (unat (blocks (main_heap k))) = {}"
    "pool_bytes (job_slab k) \<subseteq> region (heap_start_address (main_heap k)) (4096 * unat (blocks (main_heap k)))"
    "j \<in> set js \<Longrightarrow> \<exists>l. (get_paging (kmem k) j, l) \<in> heap_extents (main_heap k) R"
    "inj_on (get_paging (kmem k)) (set js)"
  using assms unfolding jobs_heap_def heap_table_apart_def by blast+

definition ring_bytes :: "kernel \<Rightarrow> addr set" where
  \<comment> \<open>the bytes that the operations on the ring may change\<close>
  "ring_bytes k = pool_bytes (job_slab k) \<union> region (heap_table (main_heap k)) (unat (blocks (main_heap k)))"

lemma ring_remove_current:
  assumes "job_path m c (c # rest) c" and "distinct rest" and "rest \<noteq> []"
    and "\<And>a. a \<in> set rest \<Longrightarrow> a \<noteq> last rest \<Longrightarrow> get_next m' a = get_next m a"
    and "get_next m' (last rest) = get_next m c"
  shows "job_path m' (get_next m c) rest (get_next m c)"
proof (rule job_path_upd_last [OF _ assms(3) _ assms(5)])
  show "job_path m (get_next m c) rest c" using assms(1) by simp
  have "last rest \<notin> set (butlast rest)"
    using assms(2,3) by (metis append_butlast_last_id distinct_append disjoint_iff list.set_intros(1))
  then show "get_next m' a = get_next m a" if "a \<in> set (butlast rest)" for a
    using that assms(4) by (metis in_set_butlastD)
qed

lemma ring_remove_other:
  assumes "job_path m c (c # xs @ job # ys) c" and "distinct (c # xs @ job # ys)"
    and "\<And>a. a \<in> set (c # xs @ ys) \<Longrightarrow> a \<noteq> last (c # xs) \<Longrightarrow> get_next m' a = get_next m a"
    and "get_next m' (last (c # xs)) = get_next m job"
  shows "job_path m' c (c # xs @ ys) c"
proof -
  have "job_path m c ((c # xs) @ job # ys) c" using assms(1) by simp
  then have p: "job_path m c (c # xs) job" "job_path m (get_next m job) ys c"
    unfolding job_path_append by auto
  have d: "distinct ((c # xs) @ ys)" using assms(2) by auto
  have "job_path m' c (c # xs) (get_next m job)"
  proof (rule job_path_upd_last [OF p(1) _ _ assms(4)])
    have "last (c # xs) \<notin> set (butlast (c # xs))"
      using d by (metis append_butlast_last_id distinct_append disjoint_iff list.distinct(1) list.set_intros(1))
    then show "get_next m' a = get_next m a" if "a \<in> set (butlast (c # xs))" for a
      using that assms(3) in_set_butlastD [OF that] by fastforce
  qed simp
  moreover have "job_path m' (get_next m job) ys c = job_path m (get_next m job) ys c"
  proof (rule job_path_frame)
    fix a
    assume "a \<in> set ys"
    then have "a \<notin> set (c # xs)" using d by auto
    then have "a \<noteq> last (c # xs)" by (metis last_in_set list.distinct(1))
    then show "get_next m' a = get_next m a" using assms(3) \<open>a \<in> set ys\<close> by simp
  qed
  ultimately have "job_path m' c ((c # xs) @ ys) c" unfolding job_path_append using p(2) by blast
  then show ?thesis by simp
qed

lemma job_delete_ok:
  assumes inv: "jobs_heap k R js" and job: "job \<in> set js" and two: "2 \<le> length js"
  obtains k' R' pred l where "job_delete k job = Some k'" and "jobs_heap k' R' (remove1 job js)"
    and "pred \<in> set js - {job}" and "get_next (kmem k) pred = job"
    and "\<forall>j \<in> set js - {job}. job_at (kmem k') j =
      (if j = pred then (job_at (kmem k) j)\<lparr>j_next := get_next (kmem k) job\<rparr> else job_at (kmem k) j)"
    and "k' = k\<lparr>kmem := kmem k', main_heap := main_heap k', current_job := current_job k'\<rparr>"
    and "same_outside (ring_bytes k) (kmem k) (kmem k')" and "ring_bytes k' = ring_bytes k"
    and "(get_paging (kmem k) job, l) \<in> heap_extents (main_heap k) R"
    and "heap_extents (main_heap k') R' = heap_extents (main_heap k) R - {(get_paging (kmem k) job, l)}"
proof -
  let ?m = "kmem k" and ?s = "job_slab k" and ?h = "main_heap k" and ?c = "current_job k"
  note inv' = jobs_heapD [OF inv]
  note ok = inv'(1)
  have "js \<noteq> []" using job by auto
  then obtain rest where js: "js = ?c # rest" "job_path ?m ?c (?c # rest) ?c" "distinct (?c # rest)"
    using jobs_okD(4,5) [OF ok] by (cases js) auto
  have rest: "rest \<noteq> []" using two js(1) by auto
  have nc: "get_next ?m ?c \<noteq> ?c" using js rest by (cases rest) auto
  obtain xs ys where split: "rest @ [?c] = xs @ job # ys" "job \<notin> set xs"
    using split_list_first [of job "rest @ [?c]"] job js(1) by auto
  let ?pred = "last (?c # xs)"
  consider (cur) "job = ?c" "xs = rest" | (other) zs where "job \<noteq> ?c" "rest = xs @ job # zs"
  proof (cases ys rule: rev_cases)
    case Nil
    then show ?thesis using split(1) cur by simp
  next
    case (snoc zs y)
    then have "(xs @ job # zs) @ [y] = rest @ [?c]" using split(1) by simp
    then have "rest = xs @ job # zs" by (metis butlast_snoc)
    then show ?thesis using other js(3) by auto
  qed
  note cases = this
  have pred_path: "job_path ?m ?c (?c # xs) job"
    using cases
  proof cases
    case cur
    then show ?thesis using js(2) by simp
  next
    case (other zs)
    then have "job_path ?m ?c ((?c # xs) @ job # zs) ?c" using js(2) by simp
    then show ?thesis unfolding job_path_append by auto
  qed
  have sub: "set (?c # xs) \<subseteq> set js" using cases js(1) by cases auto
  have "?pred \<in> set (?c # xs)" by (rule last_in_set) simp
  then have "?pred \<in> set js" using sub by blast
  moreover have "?pred \<noteq> job"
    using cases
  proof cases
    case cur
    then have "?pred \<in> set rest" using rest by simp
    then show ?thesis using cur(1) js(3) by auto
  next
    case (other zs)
    then show ?thesis using \<open>?pred \<in> set (?c # xs)\<close> split(2) by auto
  qed
  moreover have "get_next ?m ?pred = job" using job_path_last [OF _ pred_path] by simp
  ultimately have pred: "?pred \<in> set js" "?pred \<noteq> job" "get_next ?m ?pred = job" by simp_all
  have path: "job_path ?m (get_next ?m ?c) (xs @ job # ys) (get_next ?m ?c)"
    unfolding split(1) [symmetric] job_path_append using js(2) by auto
  note find = job_find_loop_eq [OF path split(2), of ?c]
  note wf = jobs_okD(1) [OF ok] and sz = jobs_okD(2) [OF ok]
  let ?m1 = "set_next ?m ?pred (get_next ?m job)"
  let ?tbl = "region (heap_table ?h) (unat (blocks ?h))"
  have obj: "region j 392 \<subseteq> pool_bytes ?s" if "j \<in> set js" for j
    by (rule pool_bytes_object(1) [OF job_slot [OF ok that] sz])
  have hdr: "slab_header ?s \<subseteq> pool_bytes ?s" by (auto simp: pool_bytes_def simp del: in_region)
  have w1: "same_outside (region ?pred 392) ?m ?m1" by (rule same_outside_mono [OF set_outside(5) job_fields_sub])
  have at1: "job_at ?m1 j = (if j = ?pred then (job_at ?m j)\<lparr>j_next := get_next ?m job\<rparr> else job_at ?m j)"
    if "j \<in> set js" for j
    using job_at_frame [OF w1 job_objects_apart [OF ok job_slot [OF ok that] job_slot [OF ok pred(1)]]] by simp
  have heap1: "heap_ok ?m1 ?h R"
    by (rule heap_ok_frame [OF inv'(2) w1]) (use obj [OF pred(1)] inv'(4) in blast)
  have live1: "slab_live ?m1 ?s = set js"
    using slab_pool.object_write [OF wf job_slot [OF ok pred(1)], of ?m ?m1] w1 sz jobs_okD(3) [OF ok] by simp
  have pg: "get_paging ?m1 job = get_paging ?m job" using at1 [OF job] pred(2) by (simp add: job_at_sel)
  obtain l where l: "(get_paging ?m job, l) \<in> heap_extents ?h R" using inv'(6) [OF job] by blast
  obtain m2 h2 R2 where m2: "kfree ?m1 ?h (get_paging ?m job) = Some (m2, h2)" "heap_ok m2 h2 R2"
    "heap_extents h2 R2 = heap_extents ?h R - {(get_paging ?m job, l)}" "same_outside ?tbl ?m1 m2"
    "heap_start_address h2 = heap_start_address ?h" "heap_table h2 = heap_table ?h" "blocks h2 = blocks ?h"
    using heap1 l by (rule kfree_extent)
  have live2: "slab_live m2 ?s = set js"
    using slab_pool.live_frame [OF wf m2(4)] hdr inv'(4) live1 by blast
  obtain m3 where m3: "slab_free m2 ?s job = Some (m3, 1)" "slab_live m3 ?s = set js - {job}" "same_outside (slab_header ?s) m2 m3"
    using slab_pool.release_live [OF wf, of job m2] live2 job by auto
  have at3: "job_at m3 j = (if j = ?pred then (job_at ?m j)\<lparr>j_next := get_next ?m job\<rparr> else job_at ?m j)"
    if "j \<in> set js" for j
  proof -
    have "region j 392 \<inter> ?tbl = {}" using obj [OF that] inv'(4) by blast
    then show ?thesis
      using job_at_frame [OF m3(3) job_off_header [OF ok job_slot [OF ok that]]] job_at_frame [OF m2(4)] at1 [OF that] by simp
  qed
  let ?cur = "if job = ?c then get_next ?m ?c else ?c"
  let ?k = "k\<lparr>kmem := m3, main_heap := h2, current_job := ?cur\<rparr>"
  have del: "job_delete k job = Some ?k"
    using find nc pg m2(1) m3(1) by (simp add: job_delete_def Let_def)
  have nx: "get_next m3 a = get_next ?m a" if "a \<in> set js" "a \<noteq> ?pred" for a
    using at3 [OF that(1)] that(2) by (simp add: job_at_sel)
  have np: "get_next m3 ?pred = get_next ?m job" using at3 [OF pred(1)] by (simp add: job_at_sel)
  have ring: "job_path m3 ?cur (remove1 job js) ?cur"
    using cases
  proof cases
    case cur
    then have "job_path m3 (get_next ?m ?c) rest (get_next ?m ?c)"
      using rest js nx np by (intro ring_remove_current [OF js(2)]) auto
    then show ?thesis using cur js(1) by simp
  next
    case (other zs)
    have "job_path m3 ?c (?c # xs @ zs) ?c"
    proof (rule ring_remove_other [OF _ _ _ np])
      show "job_path ?m ?c (?c # xs @ job # zs) ?c" "distinct (?c # xs @ job # zs)" using js(2,3) other(2) by simp_all
      show "get_next m3 a = get_next ?m a" if "a \<in> set (?c # xs @ zs)" "a \<noteq> ?pred" for a
        by (rule nx [OF _ that(2)]) (use that(1) js(1) other(2) in auto)
    qed
    moreover have "remove1 job js = ?c # xs @ zs" using js(1) other split(2) by (simp add: remove1_append)
    ultimately show ?thesis using other by simp
  qed
  have rem: "set (remove1 job js) = set js - {job}" using jobs_okD(4) [OF ok] by (rule set_remove1_eq)
  have "remove1 job js \<noteq> []"
  proof
    assume "remove1 job js = []"
    then have "set js - {job} = {}" using rem by simp
    then show False using pred(1,2) by blast
  qed
  then have "jobs_ok m3 ?s ?cur (remove1 job js)"
    using ring wf sz m3(2) rem jobs_okD(4) [OF ok] by (simp add: jobs_ok_def)
  moreover have "heap_ok m3 h2 R2"
    by (rule heap_ok_frame [OF m2(2) m3(3)]) (use hdr inv'(4) m2(6,7) in auto)
  moreover have pgs: "get_paging m3 j = get_paging ?m j" if "j \<in> set js" for j
    using at3 [OF that] by (simp add: job_at_sel)
  have "\<exists>l. (get_paging m3 j, l) \<in> heap_extents h2 R2" if "j \<in> set js - {job}" for j
    using inv'(6) [of j] that inv'(7) job m2(3) pgs [of j] by (auto simp: inj_on_def)
  moreover have "inj_on (get_paging m3) (set js - {job})"
    using inv'(7) pgs by (auto simp: inj_on_def)
  ultimately have "jobs_heap ?k R2 (remove1 job js)"
    using inv'(3,5) m2(5-7) by (simp add: jobs_heap_def rem heap_table_apart_def)
  moreover have "same_outside (ring_bytes k) ?m m3"
  proof -
    have "same_outside (ring_bytes k) ?m ?m1"
      by (rule same_outside_mono [OF w1]) (use obj [OF pred(1)] in \<open>auto simp: ring_bytes_def simp del: in_region\<close>)
    also have "same_outside (ring_bytes k) ?m1 m2"
      by (rule same_outside_mono [OF m2(4)]) (simp add: ring_bytes_def)
    also have "same_outside (ring_bytes k) m2 m3"
      by (rule same_outside_mono [OF m3(3)]) (use hdr in \<open>auto simp: ring_bytes_def simp del: in_region\<close>)
    finally show ?thesis .
  qed
  ultimately show thesis
    using that [OF del _ _ pred(3)] pred at3 m2(3,6,7) l by (simp add: ring_bytes_def)
qed

section \<open>Choosing the next job\<close>

lemma jobs_ok_rotate:
  assumes "jobs_ok m s c (c # rest)"
  shows "jobs_ok m s (get_next m c) (rest @ [c])"
  using assms by (auto simp: jobs_ok_def job_path_append)

lemma jobs_heap_rotate:
  assumes "jobs_heap k R (current_job k # rest)"
  shows "jobs_heap (k\<lparr>current_job := get_next (kmem k) (current_job k)\<rparr>) R (rest @ [current_job k])"
  using assms jobs_ok_rotate unfolding jobs_heap_def by simp

definition same_job :: "mem \<Rightarrow> mem \<Rightarrow> addr \<Rightarrow> bool" where
  \<comment> \<open>the job is unchanged but for its link\<close>
  "same_job m m' j \<longleftrightarrow> job_at m' j = (job_at m j)\<lparr>j_next := get_next m' j\<rparr>"

lemma same_job_refl [simp]: "same_job m m j"
  by (simp add: same_job_def job_at_sel)

lemma same_job_trans: "same_job m m1 j \<Longrightarrow> same_job m1 m2 j \<Longrightarrow> same_job m m2 j"
  by (simp add: same_job_def)

lemma same_job_sel:
  assumes "same_job m m' j"
  shows "j_status (job_at m' j) = j_status (job_at m j)" "j_x (job_at m' j) = j_x (job_at m j)"
    "j_pc (job_at m' j) = j_pc (job_at m j)" "j_sp (job_at m' j) = j_sp (job_at m j)" "j_paging (job_at m' j) = j_paging (job_at m j)"
proof -
  define n where "n = get_next m' j"
  have "job_at m' j = (job_at m j)\<lparr>j_next := n\<rparr>" using assms by (simp only: same_job_def n_def)
  then show "j_status (job_at m' j) = j_status (job_at m j)" "j_x (job_at m' j) = j_x (job_at m j)"
    "j_pc (job_at m' j) = j_pc (job_at m j)" "j_sp (job_at m' j) = j_sp (job_at m j)" "j_paging (job_at m' j) = j_paging (job_at m j)"
    by simp_all
qed

lemma same_job_status: "same_job m m' j \<Longrightarrow> get_status m' j = get_status m j"
  using same_job_sel(1) by (simp add: job_at_sel)

lemma same_jobI: "job_at m' j = (job_at m j)\<lparr>j_next := n\<rparr> \<Longrightarrow> same_job m m' j"
proof -
  assume a: "job_at m' j = (job_at m j)\<lparr>j_next := n\<rparr>"
  then have "j_next (job_at m' j) = n" by simp
  then have "get_next m' j = n" by (simp add: job_at_def)
  then show "same_job m m' j" unfolding same_job_def using a by (simp only:)
qed

lemma job_at_self: "job_at m j = (job_at m j)\<lparr>j_next := get_next m j\<rparr>"
  by (simp add: job_at_def)

lemma only_ring_changes:
  assumes "k1 = k\<lparr>kmem := m1, main_heap := h1, current_job := c1\<rparr>"
    and "k2 = k1\<lparr>kmem := m2, main_heap := h2, current_job := c2\<rparr>"
  shows "k2 = k\<lparr>kmem := m2, main_heap := h2, current_job := c2\<rparr>"
  using assms by simp

lemma jobs_heap_current: "jobs_heap k R (a # js) \<Longrightarrow> current_job k = a"
  using jobs_okD(5) [OF jobs_heapD(1), of k R "a # js"] by simp

lemma job_forward_loop_eq:
  assumes "jobs_heap k R (s @ r # t)" and "\<forall>j \<in> set s. get_status (kmem k) j \<noteq> RUNNING"
    and "get_status (kmem k) r = RUNNING"
  shows "\<exists>k' R'. job_forward_loop k = Some k' \<and>
    jobs_heap k' R' (r # t @ filter (\<lambda>j. get_status (kmem k) j \<noteq> TERMINATED) s) \<and>
    (\<forall>j \<in> set (r # t @ filter (\<lambda>j. get_status (kmem k) j \<noteq> TERMINATED) s). same_job (kmem k) (kmem k') j) \<and>
    k' = k\<lparr>kmem := kmem k', main_heap := main_heap k', current_job := current_job k'\<rparr> \<and>
    same_outside (ring_bytes k) (kmem k) (kmem k') \<and> ring_bytes k' = ring_bytes k"
  using assms
proof (induction s arbitrary: k R t)
  case Nil
  then show ?case using jobs_heap_current [of k R r t] by (subst job_forward_loop.simps) auto
next
  case (Cons a s)
  have inv: "jobs_heap k R (a # s @ r # t)" using Cons.prems(1) by simp
  have cur: "current_job k = a" by (rule jobs_heap_current [OF inv])
  have dist: "distinct (a # s @ r # t)" by (rule jobs_okD(4) [OF jobs_heapD(1) [OF inv]])
  show ?case
  proof (cases "get_status (kmem k) a = TERMINATED")
    case True
    have a: "a \<in> set (a # s @ r # t)" "2 \<le> length (a # s @ r # t)" by simp_all
    obtain k1 R1 pred l where d: "job_delete k a = Some k1" "jobs_heap k1 R1 (remove1 a (a # s @ r # t))"
      "pred \<in> set (a # s @ r # t) - {a}" "get_next (kmem k) pred = a"
      "\<forall>j \<in> set (a # s @ r # t) - {a}. job_at (kmem k1) j =
        (if j = pred then (job_at (kmem k) j)\<lparr>j_next := get_next (kmem k) a\<rparr> else job_at (kmem k) j)"
      "k1 = k\<lparr>kmem := kmem k1, main_heap := main_heap k1, current_job := current_job k1\<rparr>"
      "same_outside (ring_bytes k) (kmem k) (kmem k1)" "ring_bytes k1 = ring_bytes k" "(get_paging (kmem k) a, l) \<in> heap_extents (main_heap k) R"
      "heap_extents (main_heap k1) R1 = heap_extents (main_heap k) R - {(get_paging (kmem k) a, l)}"
      using inv a by (rule job_delete_ok)
    have same: "same_job (kmem k) (kmem k1) j" if "j \<in> set (s @ r # t)" for j
    proof (rule same_jobI)
      have "j \<in> set (a # s @ r # t) - {a}" using that dist by auto
      then show "job_at (kmem k1) j = (job_at (kmem k) j)\<lparr>j_next := if j = pred then get_next (kmem k) a else get_next (kmem k) j\<rparr>"
        using bspec [OF d(5)] job_at_self [of "kmem k" j] by presburger
    qed
    note st = same_job_status [OF same]
    have "jobs_heap k1 R1 (s @ r # t)" "\<forall>j \<in> set s. get_status (kmem k1) j \<noteq> RUNNING" "get_status (kmem k1) r = RUNNING"
      using d(2) Cons.prems(2,3) st by simp_all
    note IH = Cons.IH [OF this]
    from IH obtain k2 R2 where k2: "job_forward_loop k1 = Some k2"
      "jobs_heap k2 R2 (r # t @ filter (\<lambda>j. get_status (kmem k1) j \<noteq> TERMINATED) s)"
      "\<forall>j \<in> set (r # t @ filter (\<lambda>j. get_status (kmem k1) j \<noteq> TERMINATED) s). same_job (kmem k1) (kmem k2) j"
      "k2 = k1\<lparr>kmem := kmem k2, main_heap := main_heap k2, current_job := current_job k2\<rparr>"
      "same_outside (ring_bytes k1) (kmem k1) (kmem k2)" "ring_bytes k2 = ring_bytes k1"
      by (elim exE conjE) (rule that)
    have f: "filter (\<lambda>j. get_status (kmem k1) j \<noteq> TERMINATED) s = filter (\<lambda>j. get_status (kmem k) j \<noteq> TERMINATED) (a # s)"
      using st True by (auto intro: filter_cong)
    have "same_job (kmem k) (kmem k2) j"
      if "j \<in> set (r # t @ filter (\<lambda>j. get_status (kmem k) j \<noteq> TERMINATED) (a # s))" for j
      using that k2(3) same True unfolding f by (auto intro: same_job_trans)
    moreover have "job_forward_loop k = Some k2"
      using True cur d(1) k2(1) by (subst job_forward_loop.simps) simp
    moreover have "k2 = k\<lparr>kmem := kmem k2, main_heap := main_heap k2, current_job := current_job k2\<rparr>"
      by (rule only_ring_changes [OF d(6) k2(4)])
    moreover have "same_outside (ring_bytes k) (kmem k) (kmem k2)" "ring_bytes k2 = ring_bytes k"
      using same_outside_trans [OF d(7) k2(5) [unfolded d(8)]] k2(6) d(8) by simp_all
    ultimately show ?thesis using k2(2) unfolding f by blast
  next
    case False
    let ?k = "k\<lparr>current_job := get_next (kmem k) a\<rparr>"
    have "jobs_heap ?k R (s @ r # (t @ [a]))" using jobs_heap_rotate [of k R "s @ r # t"] inv cur by simp
    then obtain k2 R2 where k2: "job_forward_loop ?k = Some k2"
      "jobs_heap k2 R2 (r # (t @ [a]) @ filter (\<lambda>j. get_status (kmem ?k) j \<noteq> TERMINATED) s)"
      "\<forall>j \<in> set (r # (t @ [a]) @ filter (\<lambda>j. get_status (kmem ?k) j \<noteq> TERMINATED) s). same_job (kmem ?k) (kmem k2) j"
      "k2 = ?k\<lparr>kmem := kmem k2, main_heap := main_heap k2, current_job := current_job k2\<rparr>"
      "same_outside (ring_bytes ?k) (kmem ?k) (kmem k2)" "ring_bytes k2 = ring_bytes ?k"
      using Cons.IH [of ?k R "t @ [a]"] Cons.prems(2,3) by auto
    have "job_forward_loop k = Some k2"
      using False Cons.prems(2) cur k2(1) by (subst job_forward_loop.simps) simp
    moreover have "k2 = k\<lparr>kmem := kmem k2, main_heap := main_heap k2, current_job := current_job k2\<rparr>"
      using k2(4) by simp
    moreover have "ring_bytes ?k = ring_bytes k" by (simp add: ring_bytes_def)
    then have "same_outside (ring_bytes k) (kmem k) (kmem k2)" "ring_bytes k2 = ring_bytes k" using k2(5,6) by simp_all
    ultimately show ?thesis using k2(2,3) False by simp blast
  qed
qed

end
