(* ===== verification/Job_Properties.thy ===== *)
theory Job_Properties
  imports Job_Ring
begin

text \<open>
  What the operations of \<open>kernel/mp/job.c\<close> do to the ring of jobs and to the files of a job, on top of the
  lemmas of the ring.
\<close>

section \<open>The choice of the next job\<close>

lemma job_delete_sole:
  assumes "jobs_heap k R [a]"
  shows "job_delete k a = None"
proof -
  have "current_job k = a" "get_next (kmem k) a = a"
    using jobs_heap_current [OF assms] jobs_okD(5) [OF jobs_heapD(1) [OF assms]] by auto
  then show ?thesis by (simp add: job_delete_def)
qed

lemma jobs_forget:
  \<comment> \<open>deleting a job leaves the status of the others\<close>
  assumes "jobs_heap k R (a # s)" and "s \<noteq> []"
  obtains k1 R1 where "job_delete k a = Some k1" and "jobs_heap k1 R1 s"
    and "\<forall>j \<in> set s. same_job (kmem k) (kmem k1) j"
proof -
  have a: "a \<in> set (a # s)" "2 \<le> length (a # s)" using assms(2) by (cases s; simp)+
  have dist: "distinct (a # s)" by (rule jobs_okD(4) [OF jobs_heapD(1) [OF assms(1)]])
  obtain k1 R1 pred l where d: "job_delete k a = Some k1" "jobs_heap k1 R1 (remove1 a (a # s))"
    "pred \<in> set (a # s) - {a}" "get_next (kmem k) pred = a"
    "\<forall>j \<in> set (a # s) - {a}. job_at (kmem k1) j =
      (if j = pred then (job_at (kmem k) j)\<lparr>j_next := get_next (kmem k) a\<rparr> else job_at (kmem k) j)"
    "k1 = k\<lparr>kmem := kmem k1, main_heap := main_heap k1, current_job := current_job k1\<rparr>"
    "same_outside (ring_bytes k) (kmem k) (kmem k1)" "ring_bytes k1 = ring_bytes k" "(get_paging (kmem k) a, l) \<in> heap_extents (main_heap k) R"
    "heap_extents (main_heap k1) R1 = heap_extents (main_heap k) R - {(get_paging (kmem k) a, l)}"
    using assms(1) a by (rule job_delete_ok)
  have "same_job (kmem k) (kmem k1) j" if "j \<in> set s" for j
  proof (rule same_jobI)
    have "j \<in> set (a # s) - {a}" using that dist by auto
    then show "job_at (kmem k1) j = (job_at (kmem k) j)\<lparr>j_next := if j = pred then get_next (kmem k) a else get_next (kmem k) j\<rparr>"
      using bspec [OF d(5)] job_at_self [of "kmem k" j] by presburger
  qed
  then show thesis using that [OF d(1)] d(2) by simp
qed

lemma job_forward_loop_running:
  "job_forward_loop k = Some k' \<Longrightarrow> jobs_heap k R js \<Longrightarrow> js \<noteq> [] \<Longrightarrow> \<exists>j \<in> set js. get_status (kmem k) j = RUNNING"
proof (induction k k' arbitrary: R js rule: job_forward_loop.raw_induct [rotated, consumes 1, case_names step])
  case (step loop k k')
  obtain a s where js: "js = a # s" using step.prems(2) by (cases js) auto
  have inv: "jobs_heap k R (a # s)" using step.prems(1) js by simp
  have cur: "current_job k = a" by (rule jobs_heap_current [OF inv])
  consider (run) "get_status (kmem k) a = RUNNING" | (dead) "get_status (kmem k) a = TERMINATED"
    | (asleep) "get_status (kmem k) a \<noteq> RUNNING" "get_status (kmem k) a \<noteq> TERMINATED" by blast
  then show ?case
  proof cases
    case run
    then show ?thesis using js by simp
  next
    case dead
    then have bind: "Option.bind (job_delete k a) loop = Some k'" using step.hyps cur by simp
    then have "s \<noteq> []" using job_delete_sole [of k R a] inv by auto
    then obtain k1 R1 where k1: "job_delete k a = Some k1" "jobs_heap k1 R1 s"
      "\<forall>j \<in> set s. same_job (kmem k) (kmem k1) j" using jobs_forget [OF inv] by blast
    have "\<exists>j \<in> set s. get_status (kmem k1) j = RUNNING"
      by (rule step.IH [OF _ k1(2)]) (use bind k1(1) \<open>s \<noteq> []\<close> in simp_all)
    then show ?thesis using k1(3) same_job_status js by fastforce
  next
    case asleep
    then have "loop (k\<lparr>current_job := get_next (kmem k) a\<rparr>) = Some k'" using step.hyps cur by simp
    from step.IH [OF this, of R "s @ [a]"] show ?thesis using jobs_heap_rotate [of k R s] inv cur js by auto
  qed
qed

lemma job_forward_eq:
  assumes inv: "jobs_heap k R (c # rest)" and ring: "rest @ [c] = before @ r # after"
    and "\<forall>j \<in> set before. get_status (kmem k) j \<noteq> RUNNING" and "get_status (kmem k) r = RUNNING"
  shows "\<exists>k' R'. job_forward k = Some k' \<and> current_job k' = r \<and>
    jobs_heap k' R' (r # after @ filter (\<lambda>j. get_status (kmem k) j \<noteq> TERMINATED) before) \<and>
    (\<forall>j \<in> set (r # after @ filter (\<lambda>j. get_status (kmem k) j \<noteq> TERMINATED) before). same_job (kmem k) (kmem k') j) \<and>
    k' = k\<lparr>kmem := kmem k', main_heap := main_heap k', current_job := current_job k'\<rparr> \<and>
    same_outside (ring_bytes k) (kmem k) (kmem k') \<and> ring_bytes k' = ring_bytes k"
proof -
  let ?k = "k\<lparr>current_job := get_next (kmem k) (current_job k)\<rparr>"
  have "jobs_heap ?k R (rest @ [c])" using jobs_heap_rotate [of k R rest] inv jobs_heap_current [OF inv] by simp
  then have "jobs_heap ?k R (before @ r # after)" by (simp only: ring)
  from job_forward_loop_eq [OF this] assms(3,4) obtain k' R' where k': "job_forward_loop ?k = Some k'"
    "jobs_heap k' R' (r # after @ filter (\<lambda>j. get_status (kmem k) j \<noteq> TERMINATED) before)"
    "\<forall>j \<in> set (r # after @ filter (\<lambda>j. get_status (kmem k) j \<noteq> TERMINATED) before). same_job (kmem k) (kmem k') j"
    "k' = ?k\<lparr>kmem := kmem k', main_heap := main_heap k', current_job := current_job k'\<rparr>"
    "same_outside (ring_bytes ?k) (kmem ?k) (kmem k')" "ring_bytes k' = ring_bytes ?k" by auto
  have "k' = k\<lparr>kmem := kmem k', main_heap := main_heap k', current_job := current_job k'\<rparr>"
    using k'(4) by simp
  then show ?thesis
    using k'(1-3,5,6) jobs_heap_current [OF k'(2)] unfolding job_forward_def by (simp add: ring_bytes_def) blast
qed

lemma job_forward_returns_iff:
  assumes inv: "jobs_heap k R js" and "js \<noteq> []"
  shows "job_forward k \<noteq> None \<longleftrightarrow> (\<exists>j \<in> set js. get_status (kmem k) j = RUNNING)"
proof -
  obtain c rest where js: "js = c # rest" using assms(2) by (cases js) auto
  have set: "set (rest @ [c]) = set js" using js by auto
  have inv': "jobs_heap k R (c # rest)" using inv js by simp
  show ?thesis
  proof
    assume "job_forward k \<noteq> None"
    then obtain k' where "job_forward k = Some k'" by blast
    then have "job_forward_loop (k\<lparr>current_job := get_next (kmem k) (current_job k)\<rparr>) = Some k'"
      by (simp only: job_forward_def)
    moreover have "jobs_heap (k\<lparr>current_job := get_next (kmem k) (current_job k)\<rparr>) R (rest @ [c])"
      using jobs_heap_rotate [of k R rest] inv' jobs_heap_current [OF inv'] by simp
    ultimately have "\<exists>j \<in> set (rest @ [c]). get_status (kmem k) j = RUNNING"
      using job_forward_loop_running by fastforce
    then show "\<exists>j \<in> set js. get_status (kmem k) j = RUNNING" by (simp only: set)
  next
    assume "\<exists>j \<in> set js. get_status (kmem k) j = RUNNING"
    then have "\<exists>j \<in> set (rest @ [c]). get_status (kmem k) j = RUNNING" using set by blast
    from split_list_first_prop [OF this] obtain before r after where
      "rest @ [c] = before @ r # after" "get_status (kmem k) r = RUNNING"
      "\<forall>j \<in> set before. get_status (kmem k) j \<noteq> RUNNING"
      by (elim exE conjE) (rule that)
    then show "job_forward k \<noteq> None" using job_forward_eq [OF inv', of before r after] by auto
  qed
qed

section \<open>Open files\<close>

definition files_ok :: "job \<Rightarrow> addr list \<Rightarrow> int \<Rightarrow> bool" where
  \<comment> \<open>the descriptors in use come first; \<open>n\<close> opens have been counted\<close>
  "files_ok job fs n \<longleftrightarrow> j_files job = fs @ replicate (8 - length fs) NULL \<and> NULL \<notin> set fs \<and>
     int (length fs) \<le> n \<and> n \<le> 8 \<and> j_count job = n"

lemma job_free_fd_eq:
  assumes "\<And>i. i < n \<Longrightarrow> get_file m job i \<noteq> NULL" and "get_file m job n = NULL" and "fd \<le> n"
  shows "job_free_fd m job fd = Some n"
  using assms(3)
proof (induction "n - fd" arbitrary: fd)
  case 0
  then show ?case using assms(2) by (subst job_free_fd.simps) simp
next
  case (Suc d)
  then have "fd < n" by linarith
  then show ?case using Suc.hyps(1) [of "Suc fd"] Suc.hyps(2) assms(1) [of fd] by (subst job_free_fd.simps) simp
qed

lemma job_add_file_ok:
  assumes ok: "files_ok (job_at m job) fs n" and n: "n < 8"
  obtains m' where "job_add_file m job inode = Some (m', int (length fs))"
    and "job_at m' job = (job_at m job)\<lparr>j_files := (j_files (job_at m job))[length fs := inode], j_count := n + 1\<rparr>"
    and "files_ok (job_at m' job) (if inode = NULL then fs else fs @ [inode]) (n + 1)"
    and "same_outside (job_fields job) m m'"
proof -
  let ?l = "length fs"
  note f = ok [unfolded files_ok_def]
  have l: "?l < 8" using f n by simp
  have nth: "get_file m job i = (fs @ replicate (8 - ?l) NULL) ! i" if "i < 8" for i
    using that f job_at_sel(8) [of i m job] by simp
  have "get_file m job i \<noteq> NULL" if "i < ?l" for i
    using nth [of i] that l f by (metis less_trans nth_append nth_mem)
  moreover have "get_file m job ?l = NULL" using nth [OF l] l by (simp add: nth_append)
  ultimately have fd: "job_free_fd m job 0 = Some ?l" by (rule job_free_fd_eq) simp_all
  have "8 - ?l = Suc (7 - ?l)" using l by linarith
  then have pad: "(replicate (8 - ?l) NULL)[0 := inode] = inode # replicate (7 - ?l) NULL"
    "replicate (8 - ?l) NULL = NULL # replicate (7 - ?l) NULL" by simp_all
  let ?m = "set_file m job ?l inode"
  let ?m' = "set_count ?m job (n + 1)"
  have cnt: "get_count m job = n" "get_count ?m job = n" using f l job_at_sel(5) [of m job] job_at_sel(5) [of ?m job] by simp_all
  have int: "is_int (n + 1)" "int_res (n + 1) = Some (n + 1)" using f n by (simp_all add: is_int_def int_res_def)
  have "job_add_file m job inode = Some (?m', int ?l)"
    using fd cnt int n by (simp add: job_add_file_def)
  moreover have at: "job_at ?m' job = (job_at m job)\<lparr>j_files := (j_files (job_at m job))[?l := inode], j_count := n + 1\<rparr>"
    using int l by simp
  moreover have "files_ok (job_at ?m' job) (if inode = NULL then fs else fs @ [inode]) (n + 1)"
    using f n l pad unfolding at files_ok_def by (auto simp: list_update_append nth_append)
  moreover have "same_outside (job_fields job) m ?m'"
    using set_outside(8) [OF l] set_outside(6) by (rule same_outside_trans)
  ultimately show thesis by (rule that)
qed


lemma files_ok_get:
  assumes "files_ok (job_at m job) fs n"
  shows "job_get_file m job fd = (if 0 \<le> fd \<and> fd < int (length fs) then fs ! nat fd else NULL)"
proof (cases "0 \<le> fd \<and> fd < n")
  case True
  note f = assms [unfolded files_ok_def]
  have cnt: "get_count m job = n" using f job_at_sel(5) [of m job] by simp
  have lt: "nat fd < 8" using f True by linarith
  then have "get_file m job (nat fd) = (fs @ replicate (8 - length fs) NULL) ! nat fd"
    using f job_at_sel(8) [of "nat fd" m job] by simp
  also have "\<dots> = (if nat fd < length fs then fs ! nat fd else NULL)" using lt by (simp add: nth_append)
  finally show ?thesis using True cnt by (simp add: job_get_file_def nat_less_iff)
next
  case False
  then show ?thesis using assms job_at_sel(5) [of m job] by (auto simp: job_get_file_def files_ok_def)
qed

lemma fresh_job_files:
  assumes a: "fresh_job m p entry sp paging nxt"
  shows "files_ok (job_at m p) [] 0" "j_x (job_at m p) = replicate 31 0"
proof -
  define n where "n = j_name (job_at m p)"
  have "job_at m p = \<lparr>j_name = n, j_status = RUNNING, j_x = replicate 31 0, j_pc = entry, j_sp = sp,
       j_paging = paging, j_files = replicate 8 NULL, j_count = 0, j_next = nxt\<rparr>"
    using a by (simp add: fresh_job_def n_def)
  then show "files_ok (job_at m p) [] 0" "j_x (job_at m p) = replicate 31 0" by (simp_all add: files_ok_def)
qed

section \<open>Creation within the kernel heap\<close>

lemma set_insert_after_current [simp]: "set (insert_after_current p js) = insert p (set js)"
  by (cases js) auto

lemma jobs_heap_create:
  assumes inv: "jobs_heap k R js" and free: "set js \<noteq> slab_slots (job_slab k)"
    and name: "str_at (kmem k) name s" "length s < 2 ^ 64 - 1"
      "region name (Suc (length s)) \<inter> pool_bytes (job_slab k) = {}"
    and paging: "(paging, l) \<in> heap_extents (main_heap k) R" "paging \<notin> get_paging (kmem k) ` set js"
  obtains k' p where "job_create k entry sp name paging = Some (k', p)" and "p \<notin> set js"
    and "jobs_heap k' R (insert_after_current p js)"
    and "fresh_job (kmem k') p entry sp paging (if js = [] then p else get_next (kmem k) (current_job k))"
    and "str_at (kmem k') p (take 30 s)" and "\<forall>j \<in> set js. same_job (kmem k) (kmem k') j"
    and "same_outside (pool_bytes (job_slab k)) (kmem k) (kmem k')"
    and "k' = k\<lparr>kmem := kmem k', current_job := current_job k'\<rparr>"
proof -
  let ?m = "kmem k" and ?s = "job_slab k" and ?c = "current_job k"
  note inv' = jobs_heapD [OF inv]
  have live: "slab_live ?m ?s \<noteq> slab_slots ?s" using free jobs_okD(3) [OF inv'(1)] by simp
  obtain m' p where c: "job_create k entry sp name paging =
      Some (k\<lparr>kmem := m', current_job := (if js = [] then p else ?c)\<rparr>, p)"
    "p \<in> slab_slots ?s" "p \<notin> set js"
    "jobs_ok m' ?s (if js = [] then p else ?c) (insert_after_current p js)"
    "fresh_job m' p entry sp paging (if js = [] then p else get_next ?m ?c)"
    "str_at m' p (take 30 s)"
    "\<forall>j \<in> set js. job_at m' j = (if j = ?c then (job_at ?m j)\<lparr>j_next := p\<rparr> else job_at ?m j)"
    "same_outside (pool_bytes ?s) ?m m'"
    using inv'(1) live name by (rule job_create_ok)
  have same: "same_job ?m m' j" if "j \<in> set js" for j
  proof (rule same_jobI)
    show "job_at m' j = (job_at ?m j)\<lparr>j_next := if j = ?c then p else get_next ?m j\<rparr>"
      using bspec [OF c(7) that] job_at_self [of ?m j] by presburger
  qed
  have pg: "get_paging m' j = get_paging ?m j" if "j \<in> set js" for j
  proof (cases "j = ?c")
    case True
    then show ?thesis using bspec [OF c(7) that] by (simp add: job_at_sel)
  next
    case False
    then show ?thesis using bspec [OF c(7) that] by (simp add: job_at_sel)
  qed
  have pp: "get_paging m' p = paging" by (rule fresh_job_sel(4) [OF c(5)])
  have "heap_ok m' (main_heap k) R" by (rule heap_ok_frame [OF inv'(2) c(8) inv'(4)])
  moreover have "\<exists>l. (get_paging m' j, l) \<in> heap_extents (main_heap k) R" if "j \<in> insert p (set js)" for j
    using that pp pg inv'(6) paging(1) by (cases "j = p") auto
  moreover have "inj_on (get_paging m') (insert p (set js))"
    using inv'(7) pg pp paging(2) by (auto simp: inj_on_def image_def)
  ultimately have "jobs_heap (k\<lparr>kmem := m', current_job := (if js = [] then p else ?c)\<rparr>) R (insert_after_current p js)"
    using c(4) inv'(3,5) by (simp add: jobs_heap_def)
  from that [OF c(1,3) this] show thesis using c(5,6,8) same by simp
qed


lemma job_init_slab_ok:
  assumes ok: "heap_ok (kmem k) (main_heap k) R" and apart: "heap_table_apart (main_heap k)" and low: "heap_low (main_heap k)"
    and n: "0 < unat n" "slab_span 392 n < 2 ^ 31"
    and a: "kalloc (kmem k) (main_heap k) (slab_get_needed_size 392 n) = Some (m1, h1, p)" "p \<noteq> NULL"
    and none: "current_job k = NULL"
  obtains k' R1 l where "job_init_slab k n = Some k'" and "jobs_heap k' R1 []"
    and "max_store (job_slab k') = n" and "heap_extents (main_heap k') R1 = insert (p, l) (heap_extents (main_heap k) R)"
    and "\<forall>(q, l) \<in> heap_extents (main_heap k) R. \<forall>b \<in> region q l. kmem k' b = kmem k b"
proof -
  obtain m2 s R1 l i where s: "slab_create m1 392 n p = Some (m2, s)" "wf_slab s"
    "starting_address s = p" "max_store s = n" "object_size s = 392" "slab_used m2 s = {}"
    "heap_ok m2 h1 R1" "heap_table_apart h1" "heap_low h1" "heap_start_address h1 = heap_start_address (main_heap k)"
    "heap_extents h1 R1 = insert (p, l) (heap_extents (main_heap k) R)" "(p, l) \<notin> heap_extents (main_heap k) R"
    "slab_zone_bytes s \<le> l" "unat p + l \<le> 2 ^ 48" "unat p = unat (heap_start_address (main_heap k)) + 4096 * i"
    "\<forall>(q, l) \<in> heap_extents (main_heap k) R. \<forall>b \<in> region q l. m2 b = kmem k b"
    by (rule kernel_slab [OF ok apart low _ n a]) simp_all
  let ?k = "k\<lparr>kmem := m2, main_heap := h1, job_slab := s\<rparr>"
  have "job_init_slab k n = Some ?k" using a s(1) by (simp add: job_init_slab_def)
  moreover have "pool_bytes s \<subseteq> region p l" using pool_bytes_zone [OF s(2,13)] s(3,14) by simp
  then have "pool_bytes s \<subseteq> region (heap_start_address h1) (4096 * unat (blocks h1))"
    using extent_in_area [OF s(7), of p l] s(11) by blast
  then have "jobs_heap ?k R1 []"
    using s(2,5-8) none by (simp add: jobs_heap_def jobs_ok_def slab_live_empty)
  ultimately show thesis using that [of ?k R1 l] s(4,11,16) by simp
qed

section \<open>A kernel with two jobs\<close>

abbreviation job_example_slab :: slab where
  "job_example_slab \<equiv> \<lparr>starting_address = 0x40200000, max_store = 4, object_size = 392, header_size = 392\<rparr>"

abbreviation job_example :: kernel where
  \<comment> \<open>the heap holds the slab of the jobs in its first block and two paging managers\<close>
  "job_example \<equiv> \<lparr>kmem = (\<lambda>_. 0)(0x1000 := 0xE0, 0x1001 := 0xE0, 0x1002 := 0xE0), regs = example_regs,
     main_heap = example_heap\<lparr>free_blocks := 5\<rparr>, page_slab = example_pool, current_paging_manager = NULL,
     job_slab = job_example_slab, user_space = example_pool, current_job = NULL,
     inode_slab = example_pool, main_filesystem = NULL\<rparr>"

abbreviation job_example_runs :: runs where
  "job_example_runs \<equiv> {(0, 1), (1, 1), (2, 1)}"

lemma job_example_ok: "jobs_heap job_example job_example_runs []"
proof -
  have "unat (0x1000 + of_nat j :: addr) = 0x1000 + j" if "j < 8" for j
    using that by (simp add: unat_add64 unat_of_nat64)
  then have heap: "heap_ok (kmem job_example) (main_heap job_example) job_example_runs"
    by (auto simp: heap_ok_def wf_runs_def heap_entry_def runs_taken_def runs_last_def unat_eq_iff unat_of_nat64)
  have apart: "heap_table_apart (main_heap job_example)"
    unfolding heap_table_apart_def by (rule regions_apart) simp_all
  have wf: "wf_slab job_example_slab"
    by (simp add: wf_slab_def slab_zone_ok_def slab_span_def slab_get_header_size_def
        slab_align_to_object_def c_int_small Let_def)
  have "slab_live (kmem job_example) job_example_slab = {}"
    by (simp add: slab_live_def slab_used_def slab_bit_def)
  moreover have "pool_bytes job_example_slab \<subseteq> region 0x40200000 32768"
    using pool_bytes_zone [OF wf, of 32768] by (simp add: slab_zone_bytes_def)
  ultimately show ?thesis using heap apart wf by (simp add: jobs_heap_def jobs_ok_def)
qed


lemma job_example_slots: "card (slab_slots job_example_slab) = 4" "wf_slab job_example_slab"
proof -
  show wf: "wf_slab job_example_slab" using jobs_okD(1) [OF jobs_heapD(1) [OF job_example_ok]] by simp
  show "card (slab_slots job_example_slab) = 4"
    using card_image [OF slab_slot_addr_inj [OF wf]] by (simp add: slab_slots_def)
qed

lemma job_example_extents:
  "heap_extents (main_heap job_example) job_example_runs = {(0x40200000, 4096), (0x40201000, 4096), (0x40202000, 4096)}"
  by (simp add: heap_extents_def heap_run_addr_def)

lemma job_example_name: "region 0x3000 1 \<inter> pool_bytes job_example_slab = {}"
proof -
  have "pool_bytes job_example_slab \<subseteq> region 0x40200000 1960"
    using pool_bytes_zone [OF job_example_slots(2), of 1960] by (simp add: slab_zone_bytes_def)
  moreover have "region 0x3000 1 \<inter> region (0x40200000 :: addr) 1960 = {}" by (rule regions_apart) simp_all
  ultimately show ?thesis by blast
qed

lemma two_jobs:
  obtains k a b where "jobs_heap k job_example_runs [a, b]" and "job_slab k = job_example_slab"
    and "get_status (kmem k) a = RUNNING" and "get_status (kmem k) b = RUNNING"
    and "files_ok (job_at (kmem k) b) [] 0" and "j_x (job_at (kmem k) b) = replicate 31 0"
    and "main_heap k = main_heap job_example"
proof -
  let ?k = job_example
  have ne: "set js \<noteq> slab_slots job_example_slab" if "length js < 4" for js
    using card_length [of js] job_example_slots(1) that by auto
  have nm: "region 0x3000 (Suc (length ([] :: u8 list))) \<inter> pool_bytes (job_slab ?k) = {}"
    using job_example_name by simp
  obtain k1 a where a: "job_create ?k 0 0 0x3000 0x40201000 = Some (k1, a)" "a \<notin> set []"
    "jobs_heap k1 job_example_runs (insert_after_current a [])"
    "fresh_job (kmem k1) a 0 0 0x40201000 (if ([] :: addr list) = [] then a else get_next (kmem ?k) (current_job ?k))"
    "str_at (kmem k1) a (take 30 [])" "\<forall>j \<in> set []. same_job (kmem ?k) (kmem k1) j"
    "same_outside (pool_bytes (job_slab ?k)) (kmem ?k) (kmem k1)"
    "k1 = ?k\<lparr>kmem := kmem k1, current_job := current_job k1\<rparr>"
    by (rule jobs_heap_create [OF job_example_ok _ _ _ nm, of "0x40201000" 4096 0 0])
      (use ne [of "[]"] job_example_extents in simp_all)
  have k1: "job_slab k1 = job_example_slab" "main_heap k1 = main_heap ?k"
    by (subst a(8), simp)+
  have inv1: "jobs_heap k1 job_example_runs [a]" using a(3) by simp
  have name: "str_at (kmem k1) 0x3000 []" "length ([] :: u8 list) < 2 ^ 64 - 1"
    "region 0x3000 (Suc (length ([] :: u8 list))) \<inter> pool_bytes (job_slab k1) = {}"
    using job_example_name k1(1) by (subst str_at_same_outside [OF a(7)], auto)
  have pg: "(0x40202000, 4096) \<in> heap_extents (main_heap k1) job_example_runs"
    "0x40202000 \<notin> get_paging (kmem k1) ` set [a]"
    using job_example_extents fresh_job_sel(4) [OF a(4)] unfolding k1(2) by simp_all
  have room: "set [a] \<noteq> slab_slots (job_slab k1)" using ne [of "[a]"] k1(1) by simp
  obtain k2 b where b: "job_create k1 0 0 0x3000 0x40202000 = Some (k2, b)" "b \<notin> set [a]"
    "jobs_heap k2 job_example_runs (insert_after_current b [a])"
    "fresh_job (kmem k2) b 0 0 0x40202000 (if [a] = [] then b else get_next (kmem k1) (current_job k1))"
    "str_at (kmem k2) b (take 30 [])" "\<forall>j \<in> set [a]. same_job (kmem k1) (kmem k2) j"
    "same_outside (pool_bytes (job_slab k1)) (kmem k1) (kmem k2)"
    "k2 = k1\<lparr>kmem := kmem k2, current_job := current_job k2\<rparr>"
    using inv1 room name pg by (rule jobs_heap_create)
  have "get_status (kmem k2) a = RUNNING"
    using same_job_status [of "kmem k1" "kmem k2" a] b(6) fresh_job_sel(1) [OF a(4)] by simp
  moreover have "get_status (kmem k2) b = RUNNING" by (rule fresh_job_sel(1) [OF b(4)])
  moreover have "job_slab k2 = job_example_slab" "main_heap k2 = main_heap ?k" by (subst b(8), simp add: k1)+
  ultimately show thesis
    using that [of k2 a b] b(3) fresh_job_files [OF b(4)] by simp
qed

section \<open>Properties\<close>

text \<open>
  C28. \<open>job_create\<close> on a well-formed ring with a free slot: it returns, the new job stands right after the
  current one (or is the current one when there was none), it is RUNNING with the given entry
  point, stack pointer and paging manager, zero registers and no files, its name is the first
  30 characters of the given one, and every other job is unchanged but for its link. Ring,
  slab and heap stay well formed.
\<close>
theorem job_create_inserts:
  assumes "jobs_heap k R js" and "set js \<noteq> slab_slots (job_slab k)"
    and "str_at (kmem k) name s" and "length s < 2 ^ 64 - 1"
    and "region name (Suc (length s)) \<inter> pool_bytes (job_slab k) = {}"
    and "(paging, l) \<in> heap_extents (main_heap k) R" and "paging \<notin> get_paging (kmem k) ` set js"
  shows "\<exists>k' p. job_create k entry sp name paging = Some (k', p) \<and> p \<notin> set js \<and>
    jobs_heap k' R (insert_after_current p js) \<and>
    fresh_job (kmem k') p entry sp paging (if js = [] then p else get_next (kmem k) (current_job k)) \<and>
    str_at (kmem k') p (take 30 s) \<and> (\<forall>j \<in> set js. same_job (kmem k) (kmem k') j)"
proof -
  obtain k' p where "job_create k entry sp name paging = Some (k', p)" "p \<notin> set js"
    "jobs_heap k' R (insert_after_current p js)"
    "fresh_job (kmem k') p entry sp paging (if js = [] then p else get_next (kmem k) (current_job k))"
    "str_at (kmem k') p (take 30 s)" "\<forall>j \<in> set js. same_job (kmem k) (kmem k') j"
    "same_outside (pool_bytes (job_slab k)) (kmem k) (kmem k')"
    "k' = k\<lparr>kmem := kmem k', current_job := current_job k'\<rparr>"
    using assms by (rule jobs_heap_create)
  then show ?thesis by blast
qed

theorem job_create_inserts_witness:
  "\<exists>k' p. job_create job_example 0x80000000 0x80002000 0x3000 0x40201000 = Some (k', p) \<and>
    jobs_heap k' job_example_runs [p] \<and> fresh_job (kmem k') p 0x80000000 0x80002000 0x40201000 p"
proof -
  have "({} :: addr set) \<noteq> slab_slots job_example_slab" using job_example_slots(1) by auto
  then show ?thesis
    using job_create_inserts [OF job_example_ok, of "0x3000" "[]" "0x40201000" 4096 "0x80000000" "0x80002000"]
      job_example_extents job_example_name by auto
qed

text \<open>
  C29. \<open>job_delete\<close> of a job of a ring of at least two: it returns, the job is taken out of the ring and of
  the slab, the extent of its paging manager is given back to the heap, which keeps every other extent, and the
  invariant of ring and heap holds again; if the job was the current one, its successor is current. In a ring of one job the call never
  returns, as the code reports an attempt to delete the init job and spins.
\<close>
theorem job_delete_removes:
  assumes "jobs_heap k R js" and "job \<in> set js"
  shows "(2 \<le> length js \<longrightarrow> (\<exists>k' R' l. job_delete k job = Some k' \<and> jobs_heap k' R' (remove1 job js) \<and>
      job \<notin> slab_live (kmem k') (job_slab k') \<and> (get_paging (kmem k) job, l) \<in> heap_extents (main_heap k) R \<and>
      heap_extents (main_heap k') R' = heap_extents (main_heap k) R - {(get_paging (kmem k) job, l)} \<and>
      current_job k' = (if job = current_job k then get_next (kmem k) job else current_job k))) \<and>
    (length js = 1 \<longrightarrow> job_delete k job = None)"
proof (intro conjI impI)
  assume two: "2 \<le> length js"
  obtain k' R' pred l where d: "job_delete k job = Some k'" "jobs_heap k' R' (remove1 job js)"
    "pred \<in> set js - {job}" "get_next (kmem k) pred = job"
    "\<forall>j \<in> set js - {job}. job_at (kmem k') j =
      (if j = pred then (job_at (kmem k) j)\<lparr>j_next := get_next (kmem k) job\<rparr> else job_at (kmem k) j)"
    "k' = k\<lparr>kmem := kmem k', main_heap := main_heap k', current_job := current_job k'\<rparr>"
    "same_outside (ring_bytes k) (kmem k) (kmem k')" "ring_bytes k' = ring_bytes k" "(get_paging (kmem k) job, l) \<in> heap_extents (main_heap k) R"
    "heap_extents (main_heap k') R' = heap_extents (main_heap k) R - {(get_paging (kmem k) job, l)}"
    using assms two by (rule job_delete_ok)
  have "current_job k' = (if job = current_job k then get_next (kmem k) job else current_job k)"
    using d(1) by (auto simp: job_delete_def Let_def split: if_splits bind_splits)
  moreover have "slab_live (kmem k') (job_slab k') = set (remove1 job js)" using jobs_okD(3) [OF jobs_heapD(1) [OF d(2)]] .
  then have "job \<notin> slab_live (kmem k') (job_slab k')" using set_remove1_eq [OF jobs_okD(4) [OF jobs_heapD(1) [OF assms(1)]]] by simp
  ultimately show "\<exists>k' R' l. job_delete k job = Some k' \<and> jobs_heap k' R' (remove1 job js) \<and>
      job \<notin> slab_live (kmem k') (job_slab k') \<and> (get_paging (kmem k) job, l) \<in> heap_extents (main_heap k) R \<and>
      heap_extents (main_heap k') R' = heap_extents (main_heap k) R - {(get_paging (kmem k) job, l)} \<and>
      current_job k' = (if job = current_job k then get_next (kmem k) job else current_job k)"
    using d(1,2,9,10) by blast
next
  assume "length js = 1"
  then have "js = [job]" using assms(2) by (cases js) auto
  then show "job_delete k job = None" using job_delete_sole assms(1) by simp
qed

theorem job_delete_removes_witness:
  "\<exists>k k' R' a b l. job_delete k b = Some k' \<and> jobs_heap k job_example_runs [a, b] \<and> jobs_heap k' R' [a] \<and> current_job k' = a \<and>
    (get_paging (kmem k) b, l) \<in> heap_extents (main_heap k) job_example_runs - heap_extents (main_heap k') R'"
proof -
  obtain k a b where k: "jobs_heap k job_example_runs [a, b]" by (rule two_jobs)
  have "current_job k = a" "a \<noteq> b"
    using jobs_heap_current [OF k] jobs_okD(4) [OF jobs_heapD(1) [OF k]] by auto
  with job_delete_removes [OF k, of b] obtain k' R' l where
    "job_delete k b = Some k'" "jobs_heap k' R' [a]" "current_job k' = a" "(get_paging (kmem k) b, l) \<in> heap_extents (main_heap k) job_example_runs"
    "heap_extents (main_heap k') R' = heap_extents (main_heap k) job_example_runs - {(get_paging (kmem k) b, l)}" by auto
  then show ?thesis using k by blast
qed

text \<open>
  C26. \<open>job_forward\<close> makes current the first RUNNING job after the current one in ring order (the current
  one itself when no other is RUNNING), takes every TERMINATED job it passes out of the ring,
  keeps the SLEEPING ones behind in order, and changes the surviving jobs in nothing but their links.
\<close>
theorem job_forward_next:
  assumes "jobs_heap k R (c # rest)" and "rest @ [c] = before @ r # after"
    and "\<forall>j \<in> set before. get_status (kmem k) j \<noteq> RUNNING" and "get_status (kmem k) r = RUNNING"
  shows "\<exists>k' R'. job_forward k = Some k' \<and> job_get_current k' = r \<and>
    jobs_heap k' R' (r # after @ filter (\<lambda>j. get_status (kmem k) j \<noteq> TERMINATED) before) \<and>
    (\<forall>j \<in> set (r # after @ filter (\<lambda>j. get_status (kmem k) j \<noteq> TERMINATED) before). same_job (kmem k) (kmem k') j)"
  using job_forward_eq [OF assms] unfolding job_get_current_def by (elim exE conjE) (intro exI conjI)

theorem job_forward_next_witness:
  "\<exists>k k' R' a b. jobs_heap k job_example_runs [a, b] \<and> job_forward k = Some k' \<and> job_get_current k' = b \<and> jobs_heap k' R' [b, a]"
proof -
  obtain k a b where k: "jobs_heap k job_example_runs [a, b]" "job_slab k = job_example_slab"
    "get_status (kmem k) a = RUNNING" "get_status (kmem k) b = RUNNING" "files_ok (job_at (kmem k) b) [] 0"
    "j_x (job_at (kmem k) b) = replicate 31 0" "main_heap k = main_heap job_example"
    by (rule two_jobs)
  from job_forward_next [OF k(1), of "[]" b "[a]"] k(1,4) show ?thesis by auto
qed

text \<open>
  C27. \<open>job_forward\<close> on a well-formed ring returns exactly when some job of the ring is RUNNING: with only
  SLEEPING jobs it goes round forever, and with only TERMINATED ones it deletes all but the last
  and spins on that one.
\<close>
theorem job_forward_returns:
  assumes "jobs_heap k R js" and "js \<noteq> []"
  shows "job_forward k \<noteq> None \<longleftrightarrow> (\<exists>j \<in> set js. get_status (kmem k) j = RUNNING)"
  using assms by (rule job_forward_returns_iff)

theorem job_forward_returns_witness:
  "\<exists>k a b. jobs_heap k job_example_runs [a, b] \<and> job_forward k \<noteq> None"
proof -
  obtain k a b where k: "jobs_heap k job_example_runs [a, b]" "job_slab k = job_example_slab"
    "get_status (kmem k) a = RUNNING" "get_status (kmem k) b = RUNNING" "files_ok (job_at (kmem k) b) [] 0"
    "j_x (job_at (kmem k) b) = replicate 31 0" "main_heap k = main_heap job_example"
    by (rule two_jobs)
  then show ?thesis using job_forward_returns [OF k(1)] by auto
qed

text \<open>
  C30. \<open>job_add_file\<close> returns the lowest descriptor that holds no file and -1 only after eight opens;
  \<open>job_get_file\<close> then reads the file back under that descriptor and the others as before. A NULL file, which
  a failed open passes, is counted although it takes no slot: its descriptor is handed out again
  and the next file takes it.
\<close>
theorem job_file_descriptors:
  assumes "files_ok (job_at m job) fs n"
  shows "(n = 8 \<longrightarrow> job_add_file m job inode = Some (m, - 1)) \<and>
    (n < 8 \<longrightarrow> (\<exists>m'. job_add_file m job inode = Some (m', int (length fs)) \<and>
       files_ok (job_at m' job) (if inode = NULL then fs else fs @ [inode]) (n + 1) \<and>
       job_get_file m' job (int (length fs)) = inode \<and>
       (\<forall>fd. fd \<noteq> int (length fs) \<longrightarrow> job_get_file m' job fd = job_get_file m job fd)))"
proof (intro conjI impI)
  assume "n = 8"
  then show "job_add_file m job inode = Some (m, - 1)"
    using assms job_at_sel(5) [of m job] by (simp add: job_add_file_def files_ok_def)
next
  assume n: "n < 8"
  obtain m' where m': "job_add_file m job inode = Some (m', int (length fs))"
    "job_at m' job = (job_at m job)\<lparr>j_files := (j_files (job_at m job))[length fs := inode], j_count := n + 1\<rparr>"
    "files_ok (job_at m' job) (if inode = NULL then fs else fs @ [inode]) (n + 1)"
    "same_outside (job_fields job) m m'"
    using assms n by (rule job_add_file_ok)
  have l: "length fs < 8" "int (length fs) < n + 1" using assms n by (simp_all add: files_ok_def)
  have "job_get_file m' job (int (length fs)) = inode"
    unfolding files_ok_get [OF m'(3)] by simp
  moreover have "job_get_file m' job fd = job_get_file m job fd" if "fd \<noteq> int (length fs)" for fd
    unfolding files_ok_get [OF m'(3)] files_ok_get [OF assms] using that by (auto simp: nth_append)
  ultimately show "\<exists>m'. job_add_file m job inode = Some (m', int (length fs)) \<and>
       files_ok (job_at m' job) (if inode = NULL then fs else fs @ [inode]) (n + 1) \<and>
       job_get_file m' job (int (length fs)) = inode \<and>
       (\<forall>fd. fd \<noteq> int (length fs) \<longrightarrow> job_get_file m' job fd = job_get_file m job fd)"
    using m'(1,3) by blast
qed

theorem job_file_descriptors_witness:
  "\<exists>m m' job. job_add_file m job 0x5000 = Some (m', 0) \<and> job_get_file m' job 0 = 0x5000"
proof -
  obtain k a b where k: "jobs_heap k job_example_runs [a, b]" "job_slab k = job_example_slab"
    "get_status (kmem k) a = RUNNING" "get_status (kmem k) b = RUNNING" "files_ok (job_at (kmem k) b) [] 0"
    "j_x (job_at (kmem k) b) = replicate 31 0" "main_heap k = main_heap job_example"
    by (rule two_jobs)
  then show ?thesis using job_file_descriptors [OF k(5), of "0x5000"] by auto
qed

end
