(* ===== verification/Gic.thy ===== *)
theory Gic
  imports C_Prelude
begin

text \<open>
  The interrupt controller: \<open>kernel/gic/gic.c\<close>. The memory-mapped registers of distributor and
  redistributor are a map from addresses to 32-bit words that keeps what was last written; the
  registers of the CPU interface are fields. What the hardware itself changes is a parameter: the
  values the wake register gives when it is polled, and the interrupt number that an
  acknowledging read returns. A handler is a value of the datatype of the two handlers the
  kernel has.
\<close>

section \<open>Definitions\<close>

datatype handler = Internal_handler | Disk_handle_interrupt_sync

record gic =
  mmio :: "addr \<Rightarrow> u32"
  ICC_BPR0_EL1 :: u64
  ICC_BPR1_EL1 :: u64
  ICC_PMR_EL1 :: u64
  ICC_IGRPEN0_EL1 :: u64
  ICC_IGRPEN1_EL1 :: u64
  ICC_SRE_EL1 :: u64
  ICC_EOIR0_EL1 :: u64
  ICC_EOIR1_EL1 :: u64
  handlers :: "handler option list"
  handler_params :: "addr list"

abbreviation (input) GIC_DIST :: addr where "GIC_DIST \<equiv> 0x08000000"

abbreviation (input) GIC_REDIST :: addr where "GIC_REDIST \<equiv> 0x080a0000"

abbreviation (input) GIC_REDIST_SGI :: addr where "GIC_REDIST_SGI \<equiv> 0x080b0000"

abbreviation (input) MAX_INTS :: int where "MAX_INTS \<equiv> 1024"

definition reg_write :: "gic \<Rightarrow> addr \<Rightarrow> u32 \<Rightarrow> gic" where
  "reg_write g a v = g\<lparr>mmio := (mmio g)(a := v)\<rparr>"

definition shl :: "u32 \<Rightarrow> int \<Rightarrow> u32 option" where
  \<comment> \<open>a shift by a negative amount, or by 32 or more, has no meaning; \<open>1 << 31\<close> and \<open>0xff << 24\<close> on \<open>int\<close> are the
    bit patterns that GCC documents for them\<close>
  "shl v k = (if 0 \<le> k \<and> k < 32 then Some (push_bit (nat k) v) else None)"

definition gic_distributor_enable :: "gic \<Rightarrow> gic" where
  "gic_distributor_enable g =
     (let ctrl = 0;
          ctrl = ctrl OR push_bit 4 1;
          g = reg_write g (GIC_DIST + 0) ctrl;
          ctrl = ctrl OR push_bit 2 1;
          ctrl = ctrl OR push_bit 1 1;
          ctrl = ctrl OR push_bit 0 1
      in reg_write g (GIC_DIST + 0) ctrl)"

definition gic_distributor_enable_id :: "gic \<Rightarrow> int \<Rightarrow> gic option" where
  "gic_distributor_enable_id g intid = do {
     let offset = intid smod 32;
     let reg = intid sdiv 32;
     let GICD_ISENABLER = GIC_DIST + 0x100 + 4 * of_int reg;
     b \<leftarrow> shl 1 offset;
     Some (reg_write g GICD_ISENABLER (mmio g GICD_ISENABLER OR b))
   }"

definition gic_distributor_set_group :: "gic \<Rightarrow> int \<Rightarrow> int \<Rightarrow> gic option" where
  "gic_distributor_set_group g id' grp = do {
     let offset = id' smod 32;
     let reg = id' sdiv 32;
     let GICD_ISENABLER = GIC_DIST + 0x80 + 4 * of_int reg;
     b \<leftarrow> shl 1 offset;
     if grp \<noteq> 0
     then Some (reg_write g GICD_ISENABLER (mmio g GICD_ISENABLER OR b))
     else Some (reg_write g GICD_ISENABLER (mmio g GICD_ISENABLER AND NOT b))
   }"

definition gic_distributor_set_priority :: "gic \<Rightarrow> int \<Rightarrow> u8 \<Rightarrow> gic option" where
  "gic_distributor_set_priority g id' priority = do {
     let offset = id' smod 4;
     let reg = id' sdiv 4;
     shifted \<leftarrow> shl (ucast priority) (8 * offset);
     m \<leftarrow> shl 0xff (8 * offset);
     let m = NOT m;
     let GICD_ISENABLER = GIC_DIST + 0x400 + 4 * of_int reg;
     let g = reg_write g GICD_ISENABLER (mmio g GICD_ISENABLER AND m);
     Some (reg_write g GICD_ISENABLER (mmio g GICD_ISENABLER OR shifted))
   }"

definition gic_distributor_set_target :: "gic \<Rightarrow> int \<Rightarrow> u8 \<Rightarrow> gic option" where
  "gic_distributor_set_target g id' v = do {
     let offset = id' smod 4;
     let reg = id' sdiv 4;
     shifted \<leftarrow> shl (ucast v) (8 * offset);
     m \<leftarrow> shl 0xff (8 * offset);
     let m = NOT m;
     let GICD_ISENABLER = GIC_DIST + 0x800 + 4 * of_int reg;
     let g = reg_write g GICD_ISENABLER (mmio g GICD_ISENABLER AND m);
     Some (reg_write g GICD_ISENABLER (mmio g GICD_ISENABLER OR shifted))
   }"

partial_function (option) gic_wake_poll :: "(nat \<Rightarrow> u32) \<Rightarrow> nat \<Rightarrow> nat option" where
  \<comment> \<open>the polling loop; \<open>waker n\<close> is what the \<open>n\<close>-th read of the wake register returns\<close>
  "gic_wake_poll waker n = (if waker n AND push_bit 2 1 \<noteq> 0 then gic_wake_poll waker (Suc n) else Some n)"

definition gic_redistributor_wake :: "gic \<Rightarrow> (nat \<Rightarrow> u32) \<Rightarrow> gic option" where
  "gic_redistributor_wake g waker = do {
     let GICR_WAKER = GIC_REDIST + 0x14;
     let g = reg_write g GICR_WAKER (mmio g GICR_WAKER AND NOT (push_bit 1 1));
     _ \<leftarrow> gic_wake_poll waker 0;
     Some g
   }"

definition gic_redistributor_enable_id :: "gic \<Rightarrow> int \<Rightarrow> gic option" where
  "gic_redistributor_enable_id g id' = do {
     let offset = id' smod 32;
     let reg = id' sdiv 32;
     let GICR_ISENABLER0 = GIC_REDIST_SGI + 0x100 + 4 * of_int reg;
     b \<leftarrow> shl 1 offset;
     Some (reg_write g GICR_ISENABLER0 (mmio g GICR_ISENABLER0 OR b))
   }"

definition gic_interface_setbinarypoint0 :: "gic \<Rightarrow> u8 \<Rightarrow> gic" where
  "gic_interface_setbinarypoint0 g bp = g\<lparr>ICC_BPR0_EL1 := ucast (bp AND 7)\<rparr>"

definition gic_interface_setbinarypoint1 :: "gic \<Rightarrow> u8 \<Rightarrow> gic" where
  "gic_interface_setbinarypoint1 g bp = g\<lparr>ICC_BPR1_EL1 := ucast (bp AND 7)\<rparr>"

definition gic_interface_setprioritymask :: "gic \<Rightarrow> u8 \<Rightarrow> gic" where
  "gic_interface_setprioritymask g pmr = g\<lparr>ICC_PMR_EL1 := ucast pmr\<rparr>"

definition gic_interface_enablegroups :: "gic \<Rightarrow> gic" where
  "gic_interface_enablegroups g = g\<lparr>ICC_IGRPEN0_EL1 := 1, ICC_IGRPEN1_EL1 := 1\<rparr>"

definition gic_interface_init :: "gic \<Rightarrow> gic" where
  "gic_interface_init g = g\<lparr>ICC_SRE_EL1 := 1\<rparr>"

definition gic_interface_read_and_ack_group0 :: "u64 \<Rightarrow> u32" where
  \<comment> \<open>\<open>iar\<close> is what the hardware returns for \<open>ICC_IAR0_EL1\<close>\<close>
  "gic_interface_read_and_ack_group0 iar = ucast (iar AND 0xffffff)"

definition gic_interface_read_and_ack_group1 :: "u64 \<Rightarrow> u32" where
  "gic_interface_read_and_ack_group1 iar = ucast (iar AND 0xffffff)"

definition gic_interface_end_of_interrupt_group0 :: "gic \<Rightarrow> u32 \<Rightarrow> gic" where
  "gic_interface_end_of_interrupt_group0 g intid = g\<lparr>ICC_EOIR0_EL1 := ucast (intid AND 0xffffff)\<rparr>"

definition gic_interface_end_of_interrupt_group1 :: "gic \<Rightarrow> u32 \<Rightarrow> gic" where
  "gic_interface_end_of_interrupt_group1 g intid = g\<lparr>ICC_EOIR1_EL1 := ucast (intid AND 0xffffff)\<rparr>"

definition gic_redistributor_set_handler :: "gic \<Rightarrow> int \<Rightarrow> handler option \<Rightarrow> addr \<Rightarrow> gic option" where
  \<comment> \<open>an index past the end of the arrays has no meaning\<close>
  "gic_redistributor_set_handler g intid handler arg =
     (if intid < 0 \<or> intid > MAX_INTS then Some g
      else if nat intid < length (handlers g) \<and> nat intid < length (handler_params g)
      then Some (g\<lparr>handlers := (handlers g)[nat intid := handler], handler_params := (handler_params g)[nat intid := arg]\<rparr>)
      else None)"

definition gic_redistributor_get_handler :: "gic \<Rightarrow> int \<Rightarrow> handler option option" where
  \<comment> \<open>the outer \<open>None\<close> is a read past the array, the inner one a NULL handler\<close>
  "gic_redistributor_get_handler g intid =
     (if intid < 0 \<or> intid > MAX_INTS then Some None
      else if nat intid < length (handlers g) then Some (handlers g ! nat intid) else None)"

definition gic_redistributor_get_handler_param :: "gic \<Rightarrow> int \<Rightarrow> addr option" where
  "gic_redistributor_get_handler_param g intid =
     (if intid < 0 \<or> intid > MAX_INTS then Some NULL
      else if nat intid < length (handler_params g) then Some (handler_params g ! nat intid) else None)"

definition gic_redistributor_erase_handlers :: "gic \<Rightarrow> gic" where
  "gic_redistributor_erase_handlers g = fold (\<lambda>i g. g\<lparr>handlers := (handlers g)[i := None]\<rparr>) [0..<1024] g"

definition enable_gic :: "gic \<Rightarrow> (nat \<Rightarrow> u32) \<Rightarrow> gic option" where
  "enable_gic g waker = do {
     let g = gic_distributor_enable g;
     g \<leftarrow> gic_redistributor_wake g waker;
     let g = gic_interface_init g;
     let g = gic_interface_enablegroups g;
     let g = gic_interface_setprioritymask g 0xff;
     g \<leftarrow> gic_redistributor_enable_id g 30;
     g \<leftarrow> gic_distributor_set_priority g 79 0;
     g \<leftarrow> gic_distributor_set_target g 79 1;
     g \<leftarrow> gic_distributor_enable_id g 79;
     gic_distributor_set_group g 79 0
   }"

section \<open>The configuration of one interrupt\<close>

record int_config =
  enabled :: bool
  in_group1 :: bool
  priority :: u8
  target :: u8

definition gicd_config :: "gic \<Rightarrow> nat \<Rightarrow> int_config" where
  \<comment> \<open>what the distributor's registers say about interrupt \<open>i\<close>\<close>
  "gicd_config g i = \<lparr>
     enabled = bit (mmio g (GIC_DIST + 0x100 + 4 * of_nat (i div 32))) (i mod 32),
     in_group1 = bit (mmio g (GIC_DIST + 0x80 + 4 * of_nat (i div 32))) (i mod 32),
     priority = ucast (drop_bit (8 * (i mod 4)) (mmio g (GIC_DIST + 0x400 + 4 * of_nat (i div 4)))),
     target = ucast (drop_bit (8 * (i mod 4)) (mmio g (GIC_DIST + 0x800 + 4 * of_nat (i div 4))))\<rparr>"

lemma reg_addr_eq:
  assumes "a + 4 * i < 0x1000" and "b + 4 * j < 0x1000"
  shows "GIC_DIST + of_nat a + 4 * of_nat i = GIC_DIST + of_nat b + 4 * of_nat j \<longleftrightarrow> a + 4 * i = b + 4 * j"
proof -
  have "GIC_DIST + of_nat a + 4 * of_nat i = GIC_DIST + of_nat b + 4 * of_nat j \<longleftrightarrow>
      (of_nat (a + 4 * i) :: u64) = of_nat (b + 4 * j)" by (simp add: add.assoc)
  also have "\<dots> \<longleftrightarrow> a + 4 * i = b + 4 * j"
    using assms by (simp only: unat_eq_iff) (simp add: unat_of_nat64 del: of_nat_add)
  finally show ?thesis .
qed

lemma int_parts:
  assumes "0 < k"
  shows "int i smod int k = int (i mod k)" "int i sdiv int k = int (i div k)"
  using assms by (simp_all add: smod_nonneg sdiv_nonneg zmod_int zdiv_int)

lemma div_mod_same: "i div k = j div k \<Longrightarrow> i mod k = j mod k \<Longrightarrow> i = (j :: nat)"
  by (metis div_mult_mod_eq)

lemma bit_255: "bit (255 :: int) k \<longleftrightarrow> k < 8" "bit (255 :: nat) k \<longleftrightarrow> k < 8" "bit (255 :: u32) k \<longleftrightarrow> k < 8"
  using bit_mask_iff [of 8 k, where ?'a = int] bit_mask_iff [of 8 k, where ?'a = nat] bit_mask_iff [of 8 k, where ?'a = "32 word"]
  by (auto simp: mask_eq_exp_minus_1)

lemma byte_field_same:
  assumes "o' < 4"
  shows "ucast (drop_bit (8 * o') ((w AND NOT (push_bit (8 * o') 0xff)) OR push_bit (8 * o') (ucast (v :: u8)) :: u32)) = v"
proof (rule bit_word_eqI)
  fix n
  assume n: "n < LENGTH(8)"
  show "bit (ucast (drop_bit (8 * o') ((w AND NOT (push_bit (8 * o') 0xff)) OR push_bit (8 * o') (ucast v) :: u32)) :: u8) n = bit v n"
    using assms n by (auto simp: bit_simps bit_255)
qed

lemma byte_field_other:
  assumes "o' < 4" and "p < 4" and "p \<noteq> o'"
  shows "(ucast (drop_bit (8 * p) ((w AND NOT (push_bit (8 * o') 0xff)) OR push_bit (8 * o') (ucast (v :: u8)) :: u32)) :: u8) =
    ucast (drop_bit (8 * p) w)"
proof (rule bit_word_eqI)
  fix n
  assume n: "n < LENGTH(8)"
  have "p < o' \<or> o' < p" using assms(3) by auto
  then have "8 * p + n < 8 * o' \<or> 8 * o' + 8 \<le> 8 * p + n" using n by auto
  then show "bit (ucast (drop_bit (8 * p) ((w AND NOT (push_bit (8 * o') 0xff)) OR push_bit (8 * o') (ucast v) :: u32)) :: u8) n =
      bit (ucast (drop_bit (8 * p) w) :: u8) n"
    using assms n by (auto simp: bit_simps bit_255 dest: bit_imp_le_length)
qed


lemma gicd_config_write:
  assumes "i < 1024" and "j < 1024"
  shows "gicd_config (reg_write g (GIC_DIST + 0x100 + 4 * of_nat (i div 32)) v) j =
      (if j div 32 = i div 32 then (gicd_config g j)\<lparr>enabled := bit v (j mod 32)\<rparr> else gicd_config g j)"
    and "gicd_config (reg_write g (GIC_DIST + 0x80 + 4 * of_nat (i div 32)) v) j =
      (if j div 32 = i div 32 then (gicd_config g j)\<lparr>in_group1 := bit v (j mod 32)\<rparr> else gicd_config g j)"
    and "gicd_config (reg_write g (GIC_DIST + 0x400 + 4 * of_nat (i div 4)) v) j =
      (if j div 4 = i div 4 then (gicd_config g j)\<lparr>priority := ucast (drop_bit (8 * (j mod 4)) v)\<rparr> else gicd_config g j)"
    and "gicd_config (reg_write g (GIC_DIST + 0x800 + 4 * of_nat (i div 4)) v) j =
      (if j div 4 = i div 4 then (gicd_config g j)\<lparr>target := ucast (drop_bit (8 * (j mod 4)) v)\<rparr> else gicd_config g j)"
proof -
  have lt: "i div 32 < 32" "j div 32 < 32" "i div 4 < 256" "j div 4 < 256" using assms by auto
  have eq: "(GIC_DIST + of_nat a + 4 * of_nat x = GIC_DIST + of_nat b + 4 * of_nat y) = (a + 4 * x = b + 4 * y)"
    if "a + 4 * x < 0x1000" "b + 4 * y < 0x1000" for a b x y :: nat
    by (rule reg_addr_eq [OF that])
  note sep = eq [of "0x100" "j div 32" "0x100" "i div 32"] eq [of "0x80" "j div 32" "0x100" "i div 32"]
    eq [of "0x400" "j div 4" "0x100" "i div 32"] eq [of "0x800" "j div 4" "0x100" "i div 32"]
    eq [of "0x100" "j div 32" "0x80" "i div 32"] eq [of "0x80" "j div 32" "0x80" "i div 32"]
    eq [of "0x400" "j div 4" "0x80" "i div 32"] eq [of "0x800" "j div 4" "0x80" "i div 32"]
    eq [of "0x100" "j div 32" "0x400" "i div 4"] eq [of "0x80" "j div 32" "0x400" "i div 4"]
    eq [of "0x400" "j div 4" "0x400" "i div 4"] eq [of "0x800" "j div 4" "0x400" "i div 4"]
    eq [of "0x100" "j div 32" "0x800" "i div 4"] eq [of "0x80" "j div 32" "0x800" "i div 4"]
    eq [of "0x400" "j div 4" "0x800" "i div 4"] eq [of "0x800" "j div 4" "0x800" "i div 4"]
  show "gicd_config (reg_write g (GIC_DIST + 0x100 + 4 * of_nat (i div 32)) v) j =
      (if j div 32 = i div 32 then (gicd_config g j)\<lparr>enabled := bit v (j mod 32)\<rparr> else gicd_config g j)"
    using sep(1-4) lt by (simp add: gicd_config_def reg_write_def)
  show "gicd_config (reg_write g (GIC_DIST + 0x80 + 4 * of_nat (i div 32)) v) j =
      (if j div 32 = i div 32 then (gicd_config g j)\<lparr>in_group1 := bit v (j mod 32)\<rparr> else gicd_config g j)"
    using sep(5-8) lt by (simp add: gicd_config_def reg_write_def)
  show "gicd_config (reg_write g (GIC_DIST + 0x400 + 4 * of_nat (i div 4)) v) j =
      (if j div 4 = i div 4 then (gicd_config g j)\<lparr>priority := ucast (drop_bit (8 * (j mod 4)) v)\<rparr> else gicd_config g j)"
    using sep(9-12) lt by (simp add: gicd_config_def reg_write_def)
  show "gicd_config (reg_write g (GIC_DIST + 0x800 + 4 * of_nat (i div 4)) v) j =
      (if j div 4 = i div 4 then (gicd_config g j)\<lparr>target := ucast (drop_bit (8 * (j mod 4)) v)\<rparr> else gicd_config g j)"
    using sep(13-16) lt by (simp add: gicd_config_def reg_write_def)
qed


lemma shl_small: "k < 32 \<Longrightarrow> shl v (int k) = Some (push_bit k v)"
  by (simp add: shl_def)

lemma reg_write_same [simp]: "reg_write (reg_write g a v) a w = reg_write g a w" "mmio (reg_write g a v) a = v"
  by (simp_all add: reg_write_def)

lemma gic_distributor_eqs:
  fixes g :: gic and i :: nat and v :: u8
  defines "A \<equiv> \<lambda>base. GIC_DIST + base + 4 * of_nat (i div 32)" and "B \<equiv> \<lambda>base. GIC_DIST + base + 4 * of_nat (i div 4)"
    and "field \<equiv> \<lambda>w. (w AND NOT (push_bit (8 * (i mod 4)) 0xff)) OR push_bit (8 * (i mod 4)) (ucast v) :: u32"
  shows "gic_distributor_enable_id g (int i) = Some (reg_write g (A 0x100) (mmio g (A 0x100) OR push_bit (i mod 32) 1))"
    "gic_distributor_set_group g (int i) grp = Some (reg_write g (A 0x80)
      (if grp \<noteq> 0 then mmio g (A 0x80) OR push_bit (i mod 32) 1 else mmio g (A 0x80) AND NOT (push_bit (i mod 32) 1)))"
    "gic_distributor_set_priority g (int i) v = Some (reg_write g (B 0x400) (field (mmio g (B 0x400))))"
    "gic_distributor_set_target g (int i) v = Some (reg_write g (B 0x800) (field (mmio g (B 0x800))))"
proof -
  have s: "shl w (int (i mod 32)) = Some (push_bit (i mod 32) w)" "shl w (8 * int (i mod 4)) = Some (push_bit (8 * (i mod 4)) w)" for w
    using shl_small [of "i mod 32" w] shl_small [of "8 * (i mod 4)" w] by simp_all
  show "gic_distributor_enable_id g (int i) = Some (reg_write g (A 0x100) (mmio g (A 0x100) OR push_bit (i mod 32) 1))"
    by (simp add: gic_distributor_enable_id_def Let_def int_sdiv_numeral int_smod_numeral s A_def)
  show "gic_distributor_set_group g (int i) grp = Some (reg_write g (A 0x80)
      (if grp \<noteq> 0 then mmio g (A 0x80) OR push_bit (i mod 32) 1 else mmio g (A 0x80) AND NOT (push_bit (i mod 32) 1)))"
    by (simp add: gic_distributor_set_group_def Let_def int_sdiv_numeral int_smod_numeral s A_def)
  show "gic_distributor_set_priority g (int i) v = Some (reg_write g (B 0x400) (field (mmio g (B 0x400))))"
    by (simp add: gic_distributor_set_priority_def Let_def int_sdiv_numeral int_smod_numeral s B_def field_def)
  show "gic_distributor_set_target g (int i) v = Some (reg_write g (B 0x800) (field (mmio g (B 0x800))))"
    by (simp add: gic_distributor_set_target_def Let_def int_sdiv_numeral int_smod_numeral s B_def field_def)
qed

lemma bit_one_word: "bit ((2 :: u32) ^ k) n \<longleftrightarrow> n = k \<and> k < 32"
  by (auto simp: bit_exp_iff possible_bit_def)

lemma config_sel:
  "bit (mmio g (GIC_DIST + 0x100 + 4 * of_nat (j div 32))) (j mod 32) = enabled (gicd_config g j)"
  "bit (mmio g (GIC_DIST + 0x80 + 4 * of_nat (j div 32))) (j mod 32) = in_group1 (gicd_config g j)"
  "ucast (drop_bit (8 * (j mod 4)) (mmio g (GIC_DIST + 0x400 + 4 * of_nat (j div 4)))) = priority (gicd_config g j)"
  "ucast (drop_bit (8 * (j mod 4)) (mmio g (GIC_DIST + 0x800 + 4 * of_nat (j div 4)))) = target (gicd_config g j)"
  by (simp_all add: gicd_config_def)

lemma config_upd_same [simp]:
  "c\<lparr>enabled := enabled c\<rparr> = c" "c\<lparr>in_group1 := in_group1 c\<rparr> = c" "c\<lparr>priority := priority c\<rparr> = c" "c\<lparr>target := target c\<rparr> = (c :: int_config)"
  by (cases c; simp)+

lemma gic_enable_one:
  assumes "i < 1024" "j < 1024"
  shows "gicd_config (reg_write g (GIC_DIST + 0x100 + 4 * of_nat (i div 32))
      (mmio g (GIC_DIST + 0x100 + 4 * of_nat (i div 32)) OR push_bit (i mod 32) 1)) j =
    (if j = i then (gicd_config g i)\<lparr>enabled := True\<rparr> else gicd_config g j)"
proof (cases "j div 32 = i div 32")
  case True
  have "(j mod 32 = i mod 32) = (j = i)" using div_mod_same [OF True] by auto
  then show ?thesis
    using True config_sel(1) [of g j] unfolding gicd_config_write(1) [OF assms]
    by (cases "j = i") (simp_all add: bit_or_iff bit_one_word)
next
  case False
  then show ?thesis unfolding gicd_config_write(1) [OF assms] by auto
qed

lemma gic_group_one:
  assumes "i < 1024" "j < 1024"
  shows "gicd_config (reg_write g (GIC_DIST + 0x80 + 4 * of_nat (i div 32))
      (if b then mmio g (GIC_DIST + 0x80 + 4 * of_nat (i div 32)) OR push_bit (i mod 32) 1
       else mmio g (GIC_DIST + 0x80 + 4 * of_nat (i div 32)) AND NOT (push_bit (i mod 32) 1))) j =
    (if j = i then (gicd_config g i)\<lparr>in_group1 := b\<rparr> else gicd_config g j)"
proof (cases "j div 32 = i div 32")
  case True
  have "(j mod 32 = i mod 32) = (j = i)" using div_mod_same [OF True] by auto
  then show ?thesis
    using True config_sel(2) [of g j] unfolding gicd_config_write(2) [OF assms]
    by (cases "j = i") (simp_all add: bit_or_iff bit_and_iff bit_not_iff bit_one_word)
next
  case False
  then show ?thesis unfolding gicd_config_write(2) [OF assms] by auto
qed

lemma byte_field:
  assumes "(j :: nat) div 4 = i div 4"
  shows "ucast (drop_bit (8 * (j mod 4)) ((w AND NOT (push_bit (8 * (i mod 4)) 0xff)) OR push_bit (8 * (i mod 4)) (ucast (v :: u8)) :: u32)) =
    (if j = i then v else ucast (drop_bit (8 * (j mod 4)) w))"
  using byte_field_same [of "i mod 4" w v] byte_field_other [of "i mod 4" "j mod 4" w v] div_mod_same [OF assms] by auto

lemma gic_bytes_one:
  assumes "i < 1024" "j < 1024"
  shows "gicd_config (reg_write g (GIC_DIST + 0x400 + 4 * of_nat (i div 4))
      ((mmio g (GIC_DIST + 0x400 + 4 * of_nat (i div 4)) AND NOT (push_bit (8 * (i mod 4)) 0xff)) OR push_bit (8 * (i mod 4)) (ucast v))) j =
    (if j = i then (gicd_config g i)\<lparr>priority := v\<rparr> else gicd_config g j)"
    and "gicd_config (reg_write g (GIC_DIST + 0x800 + 4 * of_nat (i div 4))
      ((mmio g (GIC_DIST + 0x800 + 4 * of_nat (i div 4)) AND NOT (push_bit (8 * (i mod 4)) 0xff)) OR push_bit (8 * (i mod 4)) (ucast v))) j =
    (if j = i then (gicd_config g i)\<lparr>target := v\<rparr> else gicd_config g j)"
proof -
  have sel: "ucast (drop_bit (8 * (j mod 4)) (mmio g (GIC_DIST + 0x400 + 4 * of_nat (i div 4)))) = priority (gicd_config g j)"
    "ucast (drop_bit (8 * (j mod 4)) (mmio g (GIC_DIST + 0x800 + 4 * of_nat (i div 4)))) = target (gicd_config g j)"
    if "j div 4 = i div 4" using config_sel(3,4) [of j g] by (simp_all only: that)
  show "gicd_config (reg_write g (GIC_DIST + 0x400 + 4 * of_nat (i div 4))
      ((mmio g (GIC_DIST + 0x400 + 4 * of_nat (i div 4)) AND NOT (push_bit (8 * (i mod 4)) 0xff)) OR push_bit (8 * (i mod 4)) (ucast v))) j =
    (if j = i then (gicd_config g i)\<lparr>priority := v\<rparr> else gicd_config g j)"
    unfolding gicd_config_write(3) [OF assms]
    by (cases "j div 4 = i div 4"; cases "j = i") (simp_all only: byte_field sel config_upd_same if_True if_False simp_thms)
  show "gicd_config (reg_write g (GIC_DIST + 0x800 + 4 * of_nat (i div 4))
      ((mmio g (GIC_DIST + 0x800 + 4 * of_nat (i div 4)) AND NOT (push_bit (8 * (i mod 4)) 0xff)) OR push_bit (8 * (i mod 4)) (ucast v))) j =
    (if j = i then (gicd_config g i)\<lparr>target := v\<rparr> else gicd_config g j)"
    unfolding gicd_config_write(4) [OF assms]
    by (cases "j div 4 = i div 4"; cases "j = i") (simp_all only: byte_field sel config_upd_same if_True if_False simp_thms)
qed

section \<open>What reaches the processor\<close>

definition gic_delivers :: "gic \<Rightarrow> nat \<Rightarrow> bool" where
  \<comment> \<open>a pending interrupt \<open>i\<close> is signalled as FIQ: group 0 is enabled in the distributor and at the CPU interface, the
    interrupt is enabled, in group 0, and of higher priority (a smaller number) than the priority mask. Those
    below 32 are configured in the redistributor\<close>
  "gic_delivers g i \<longleftrightarrow>
     bit (mmio g GIC_DIST) 0 \<and> bit (ICC_IGRPEN0_EL1 g) 0 \<and>
     (if i < 32 then
        bit (mmio g (GIC_REDIST_SGI + 0x100)) i \<and> \<not> bit (mmio g (GIC_REDIST_SGI + 0x80)) i \<and>
        drop_bit (8 * (i mod 4)) (mmio g (GIC_REDIST_SGI + 0x400 + 4 * of_nat (i div 4))) AND 0xff < ucast (ICC_PMR_EL1 g)
      else enabled (gicd_config g i) \<and> \<not> in_group1 (gicd_config g i) \<and> ucast (priority (gicd_config g i)) < ICC_PMR_EL1 g)"

lemma gic_delivers_cong:
  assumes "mmio g' = mmio g" and "ICC_IGRPEN0_EL1 g' = ICC_IGRPEN0_EL1 g" and "ICC_PMR_EL1 g' = ICC_PMR_EL1 g"
  shows "gic_delivers g' i = gic_delivers g i"
  using assms by (simp add: gic_delivers_def gicd_config_def)

lemma gic_setup_79:
  assumes "gic_distributor_set_priority g 79 0 = Some g1" and "gic_distributor_set_target g1 79 1 = Some g2"
    and "gic_distributor_enable_id g2 79 = Some g3" and "gic_distributor_set_group g3 79 0 = Some g4"
  shows "enabled (gicd_config g4 79)" and "\<not> in_group1 (gicd_config g4 79)" and "priority (gicd_config g4 79) = 0"
    and "mmio g4 GIC_DIST = mmio g GIC_DIST" and "g4 = g\<lparr>mmio := mmio g4\<rparr>"
proof -
  note e = gic_distributor_eqs(3) [of g 79 0, simplified] gic_distributor_eqs(4) [of g1 79 1, simplified]
    gic_distributor_eqs(1) [of g2 79, simplified] gic_distributor_eqs(2) [of g3 79 0, simplified]
  note g = assms [unfolded e, simplified, symmetric]
  show "mmio g4 GIC_DIST = mmio g GIC_DIST" by (simp add: g reg_write_def)
  show "g4 = g\<lparr>mmio := mmio g4\<rparr>" by (simp add: g reg_write_def)
  show "enabled (gicd_config g4 79)" by (simp add: g gicd_config_def reg_write_def bit_or_iff bit_one_word [of 15 15, simplified])
  show "\<not> in_group1 (gicd_config g4 79)" by (simp add: g gicd_config_def reg_write_def bit_and_iff bit_not_iff bit_one_word [of 15 15, simplified])
  show "priority (gicd_config g4 79) = 0"
    using byte_field_same [of 3 "mmio g 0x0800044c" 0] by (simp add: g gicd_config_def reg_write_def)
qed

text \<open>
  \<open>enable_gic\<close>, when the redistributor wakes up, leaves the controller in a state in which the disk's interrupt 79
  reaches the processor, and the table of handlers as it was.
\<close>
lemma enable_gic_delivers:
  assumes "enable_gic g waker = Some g'"
  shows "gic_delivers g' 79" and "handlers g' = handlers g" and "handler_params g' = handler_params g"
proof -
  obtain g1 g2 g3 g4 g5 where s: "gic_redistributor_wake (gic_distributor_enable g) waker = Some g1"
    "gic_redistributor_enable_id (gic_interface_setprioritymask (gic_interface_enablegroups (gic_interface_init g1)) 0xff) 30 = Some g2"
    "gic_distributor_set_priority g2 79 0 = Some g3" "gic_distributor_set_target g3 79 1 = Some g4"
    "gic_distributor_enable_id g4 79 = Some g5" "gic_distributor_set_group g5 79 0 = Some g'"
    using assms unfolding enable_gic_def Let_def by (auto simp: Option.bind_eq_Some_conv)
  note c = gic_setup_79 [OF s(3-6)]
  have kept: "handlers h' = handlers h \<and> handler_params h' = handler_params h \<and> ICC_PMR_EL1 h' = ICC_PMR_EL1 h \<and> ICC_IGRPEN0_EL1 h' = ICC_IGRPEN0_EL1 h"
    if "h' = h\<lparr>mmio := M\<rparr>" for h h' :: gic and M using that by simp
  let ?e = "gic_distributor_enable g" and ?i = "gic_interface_setprioritymask (gic_interface_enablegroups (gic_interface_init g1)) 0xff"
  have e: "?e = g\<lparr>mmio := mmio ?e\<rparr>" "bit (mmio ?e GIC_DIST) 0"
    by (simp_all add: gic_distributor_enable_def Let_def reg_write_def)
  have g1: "g1 = ?e\<lparr>mmio := mmio g1\<rparr>" "mmio g1 GIC_DIST = mmio ?e GIC_DIST"
    using s(1) by (auto simp: gic_redistributor_wake_def Let_def reg_write_def Option.bind_eq_Some_conv)
  have i: "handlers ?i = handlers g1" "handler_params ?i = handler_params g1" "mmio ?i = mmio g1" "ICC_PMR_EL1 ?i = 0xff" "ICC_IGRPEN0_EL1 ?i = 1"
    by (simp_all add: gic_interface_setprioritymask_def gic_interface_enablegroups_def gic_interface_init_def)
  have g2: "g2 = ?i\<lparr>mmio := mmio g2\<rparr>" "mmio g2 GIC_DIST = mmio ?i GIC_DIST"
    using s(2) by (auto simp: gic_redistributor_enable_id_def Let_def reg_write_def shl_def Option.bind_eq_Some_conv split: if_splits)
  note k = kept [OF c(5)] kept [OF g2(1)] kept [OF g1(1)] kept [OF e(1)]
  have "bit (mmio g' GIC_DIST) 0" using c(4) g2(2) i(3) g1(2) e(2) by simp
  then show "gic_delivers g' 79" using c(1-3) k i(4,5) by (simp add: gic_delivers_def)
  show "handlers g' = handlers g" "handler_params g' = handler_params g" using k i(1,2) by simp_all
qed

section \<open>Properties\<close>

text \<open>
  C34. The distributor's configuration calls act on one interrupt: for every interrupt number below 1024,
  enabling it, setting its group, its priority or its target is defined, sets exactly that
  attribute of that interrupt, and leaves every attribute of every other interrupt as it was.
\<close>
theorem gic_configures_one_interrupt:
  assumes "i < 1024"
  shows "\<exists>g1 g2 g3 g4. gic_distributor_enable_id g (int i) = Some g1 \<and> gic_distributor_set_group g (int i) grp = Some g2 \<and>
    gic_distributor_set_priority g (int i) v = Some g3 \<and> gic_distributor_set_target g (int i) v = Some g4 \<and>
    (\<forall>j < 1024.
      gicd_config g1 j = (if j = i then (gicd_config g i)\<lparr>enabled := True\<rparr> else gicd_config g j) \<and>
      gicd_config g2 j = (if j = i then (gicd_config g i)\<lparr>in_group1 := grp \<noteq> 0\<rparr> else gicd_config g j) \<and>
      gicd_config g3 j = (if j = i then (gicd_config g i)\<lparr>priority := v\<rparr> else gicd_config g j) \<and>
      gicd_config g4 j = (if j = i then (gicd_config g i)\<lparr>target := v\<rparr> else gicd_config g j))"
  unfolding gic_distributor_eqs
  by (intro exI conjI allI impI, (rule refl)+)
    (simp_all only: gic_enable_one [OF assms] gic_group_one [OF assms] gic_bytes_one [OF assms])

definition example_gic :: gic where
  \<comment> \<open>as \<open>enable_gic\<close> leaves it\<close>
  "example_gic = \<lparr>mmio = (\<lambda>_. 0)(0x08000000 := 0x17, 0x080b0100 := 0x40000000, 0x0800084c := 0x1000000, 0x08000108 := 0x8000),
     ICC_BPR0_EL1 = 0, ICC_BPR1_EL1 = 0, ICC_PMR_EL1 = 0xff, ICC_IGRPEN0_EL1 = 1, ICC_IGRPEN1_EL1 = 1, ICC_SRE_EL1 = 1,
     ICC_EOIR0_EL1 = 0, ICC_EOIR1_EL1 = 0, handlers = replicate 1024 None, handler_params = replicate 1024 0\<rparr>"

lemma example_gic_delivers: "gic_delivers example_gic 79"
  by (simp add: gic_delivers_def gicd_config_def example_gic_def)

theorem gic_configures_one_interrupt_witness:
  "\<exists>g1. gic_distributor_enable_id example_gic (int 79) = Some g1 \<and> enabled (gicd_config g1 79) \<and>
    gicd_config g1 78 = gicd_config example_gic 78"
proof -
  obtain g1 where g1: "gic_distributor_enable_id example_gic (int 79) = Some g1"
    "\<forall>j < 1024. gicd_config g1 j = (if j = 79 then (gicd_config example_gic 79)\<lparr>enabled := True\<rparr> else gicd_config example_gic j)"
    using gic_configures_one_interrupt [of 79 example_gic 0 0] by auto
  then have "gicd_config g1 79 = (gicd_config example_gic 79)\<lparr>enabled := True\<rparr>" "gicd_config g1 78 = gicd_config example_gic 78"
    by simp_all
  then show ?thesis using g1(1) by simp
qed

text \<open>
  C35. The handler table: a handler and its argument set for an interrupt below 1024 are read back, and those
  of every other interrupt are unchanged; negative numbers and numbers above 1024 are ignored.
  The test admits 1024 itself, one past the end of the arrays of 1024 entries.
\<close>
theorem gic_handler_table:
  assumes "length (handlers g) = 1024" and "length (handler_params g) = 1024"
  shows "(0 \<le> i \<and> i < 1024 \<longrightarrow> (\<exists>g'. gic_redistributor_set_handler g i h p = Some g' \<and>
      (\<forall>j. j \<noteq> 1024 \<longrightarrow> gic_redistributor_get_handler g' j = (if j = i then Some h else gic_redistributor_get_handler g j) \<and>
        gic_redistributor_get_handler_param g' j = (if j = i then Some p else gic_redistributor_get_handler_param g j)))) \<and>
    (i < 0 \<or> 1024 < i \<longrightarrow> gic_redistributor_set_handler g i h p = Some g \<and> gic_redistributor_get_handler g i = Some None) \<and>
    gic_redistributor_set_handler g 1024 h p = None \<and> gic_redistributor_get_handler g 1024 = None"
  using assms
  by (auto simp: gic_redistributor_set_handler_def gic_redistributor_get_handler_def
      gic_redistributor_get_handler_param_def nth_list_update nat_eq_iff)

theorem gic_handler_table_witness:
  "\<exists>g'. gic_redistributor_set_handler example_gic 30 (Some Internal_handler) NULL = Some g' \<and>
    gic_redistributor_get_handler g' 30 = Some (Some Internal_handler)"
proof -
  have "length (handlers example_gic) = 1024" "length (handler_params example_gic) = 1024"
    by (simp_all add: example_gic_def)
  from gic_handler_table [OF this, of 30 "Some Internal_handler" NULL] obtain g' where
    "gic_redistributor_set_handler example_gic 30 (Some Internal_handler) NULL = Some g'"
    "\<forall>j. j \<noteq> 1024 \<longrightarrow> gic_redistributor_get_handler g' j = (if j = 30 then Some (Some Internal_handler) else gic_redistributor_get_handler example_gic j)"
    by auto
  then show ?thesis by simp
qed

end
