(* ===== verification/Console.thy ===== *)
theory Console
  imports C_String
begin

text \<open>
  The console: the generic timer (\<open>kernel/timer/timer.c\<close>), the serial port (\<open>kernel/uart.c\<close>) and the kernel
  log (\<open>kernel/log.c\<close>). The timer is the record of its system registers, the serial port the list of
  the bytes written to it. The local arrays and the string literals of the log functions are
  addresses in a record, since each call has them at fixed places of its stack frame.
\<close>

section \<open>The generic timer\<close>

record timer =
  CNTFRQ_EL0 :: u64
  CNTP_CTL_EL0 :: u64
  CNTP_TVAL_EL0 :: u64
  CNTPCT_EL0 :: u64

definition timer_getfrequency :: "timer \<Rightarrow> u32" where
  "timer_getfrequency t = ucast (CNTFRQ_EL0 t)"

definition timer_enable :: "timer \<Rightarrow> timer" where
  "timer_enable t = (let enable_bit = push_bit 0 1 in t\<lparr>CNTP_CTL_EL0 := CNTP_CTL_EL0 t OR enable_bit\<rparr>)"

definition timer_disable :: "timer \<Rightarrow> timer" where
  "timer_disable t =
     (let mask_but_enable_bit = of_int (NOT (push_bit 0 1 :: int)) in t\<lparr>CNTP_CTL_EL0 := CNTP_CTL_EL0 t AND mask_but_enable_bit\<rparr>)"

definition timer_write_tval :: "timer \<Rightarrow> u32 \<Rightarrow> timer" where
  "timer_write_tval t tval = t\<lparr>CNTP_TVAL_EL0 := ucast tval\<rparr>"

definition timer_read_systemcounter :: "timer \<Rightarrow> u64" where
  "timer_read_systemcounter t = CNTPCT_EL0 t"

definition timer_read_systemcounter_usec :: "timer \<Rightarrow> u64" where
  "timer_read_systemcounter_usec t =
     (let val = timer_read_systemcounter t;
          freq_usec = ucast (timer_getfrequency t div 1000000)
      in val div freq_usec)"

section \<open>The serial port\<close>

definition put_char :: "u8 list \<Rightarrow> u8 \<Rightarrow> u8 list" where
  \<comment> \<open>a store to the data register of the port\<close>
  "put_char out c = out @ [c]"

partial_function (option) put_string :: "mem \<Rightarrow> u8 list \<Rightarrow> addr \<Rightarrow> u8 list option" where
  "put_string m out str = (if m str \<noteq> 0 then put_string m (put_char out (m str)) (str + 1) else Some out)"

section \<open>The kernel log\<close>

record log_frame =
  klog_buffer :: addr
  klog_prefix :: addr
  klogf_buffer :: addr
  sprintf_buffer :: addr
  digits_buffer :: addr
  lit_prefix :: addr
  lit_newline :: addr

definition digit_char :: "int \<Rightarrow> u8" where
  "digit_char d = (if d < 10 then of_int (d + 0x30) else of_int (d - 10 + 0x61))"

partial_function (option) digits_loop :: "mem \<Rightarrow> addr \<Rightarrow> nat \<Rightarrow> u64 \<Rightarrow> int \<Rightarrow> (mem \<times> nat) option" where
  "digits_loop m buffer i num base =
     (if num > 0 then
        let d = c_int (num mod of_int base);
            m = m(buffer + of_nat i := digit_char d)
        in digits_loop m buffer (Suc i) (num div of_int base) base
      else Some (m, i))"

definition uint64_to_string :: "addr \<Rightarrow> mem \<Rightarrow> addr \<Rightarrow> u64 \<Rightarrow> int \<Rightarrow> mem option" where
  "uint64_to_string buffer m str num base = do {
     let (m, i) = (if num = 0 then (m(buffer := 0x30), 1) else (m, 0));
     (m, i) \<leftarrow> digits_loop m buffer i num base;
     let m = m(buffer + of_nat i := 0);
     m \<leftarrow> strrev m buffer;
     (m, _) \<leftarrow> strcpy m str buffer;
     Some m
   }"

fun va_arg :: "u64 list \<Rightarrow> (u64 \<times> u64 list) option" where
  \<comment> \<open>reading past the arguments given has no meaning\<close>
  "va_arg [] = None"
| "va_arg (v # vars) = Some (v, vars)"

partial_function (option) sprintf_loop ::
  "log_frame \<Rightarrow> mem \<Rightarrow> addr \<Rightarrow> addr \<Rightarrow> u64 list \<Rightarrow> u64 \<Rightarrow> (mem \<times> int) option" where
  "sprintf_loop f m str format vars inserted =
     (if m format \<noteq> 0 then
        if m format = 0x25 then
          let type = m (format + 1)
          in if type = 0 then Some (m, - 1)
             else if type = 0x78 \<or> type = 0x71 then do {
               let base = (if type = 0x78 then 16 else 10);
               (num, vars) \<leftarrow> va_arg vars;
               m \<leftarrow> uint64_to_string (digits_buffer f) m (sprintf_buffer f) num base;
               n \<leftarrow> strlen m (sprintf_buffer f);
               (m, _) \<leftarrow> strcat m str (sprintf_buffer f);
               sprintf_loop f m (str + of_int n) (format + 2) vars inserted
             }
             else if type = 0x73 then do {
               (strarg, vars) \<leftarrow> va_arg vars;
               (m, _) \<leftarrow> strcat m str strarg;
               n \<leftarrow> strlen m strarg;
               sprintf_loop f m (str + of_int n) (format + 2) vars inserted
             }
             else sprintf_loop f (m(str := 0x3f)) (str + 1) (format + 1) vars (inserted + 1)
        else sprintf_loop f (m(str := m format)) (str + 1) (format + 1) vars (inserted + 1)
      else Some (m(str := 0), c_int inserted))"

definition sprintf_internal :: "log_frame \<Rightarrow> mem \<Rightarrow> addr \<Rightarrow> addr \<Rightarrow> u64 list \<Rightarrow> (mem \<times> int) option" where
  "sprintf_internal f m str format vars = do {
     (m, _) \<leftarrow> memset m (sprintf_buffer f) 0 100;
     sprintf_loop f m str format vars 0
   }"

definition sprintf :: "log_frame \<Rightarrow> mem \<Rightarrow> addr \<Rightarrow> addr \<Rightarrow> u64 list \<Rightarrow> (mem \<times> int) option" where
  "sprintf f m str format vars = sprintf_internal f m str format vars"

definition klog :: "log_frame \<Rightarrow> timer \<Rightarrow> mem \<Rightarrow> u8 list \<Rightarrow> addr \<Rightarrow> (mem \<times> u8 list) option" where
  "klog f t m out str = do {
     (m, _) \<leftarrow> memset m (klog_prefix f) 0 15;
     (m, _) \<leftarrow> sprintf f m (klog_prefix f) (lit_prefix f) [timer_read_systemcounter_usec t];
     (m, _) \<leftarrow> strcpy m (klog_buffer f) (klog_prefix f);
     (m, _) \<leftarrow> strcat m (klog_buffer f) str;
     (m, _) \<leftarrow> strcat m (klog_buffer f) (lit_newline f);
     out \<leftarrow> put_string m out (klog_buffer f);
     Some (m, out)
   }"

definition klogf :: "log_frame \<Rightarrow> timer \<Rightarrow> mem \<Rightarrow> u8 list \<Rightarrow> addr \<Rightarrow> u64 list \<Rightarrow> (mem \<times> u8 list) option" where
  "klogf f t m out format vars = do {
     (m, _) \<leftarrow> memset m (klogf_buffer f) 0 40;
     (m, _) \<leftarrow> sprintf_internal f m (klogf_buffer f) format vars;
     klog f t m out (klogf_buffer f)
   }"

section \<open>Numerals\<close>

function rdigits :: "nat \<Rightarrow> nat \<Rightarrow> u8 list" where
  \<comment> \<open>the digits, the lowest first\<close>
  "rdigits b n = (if n = 0 \<or> b < 2 then [] else digit_char (int (n mod b)) # rdigits b (n div b))"
  by pat_completeness auto
termination
  by (relation "measure snd") auto

declare rdigits.simps [simp del]

definition num_str :: "nat \<Rightarrow> nat \<Rightarrow> u8 list" where
  "num_str b n = (if n = 0 then [0x30] else rev (rdigits b n))"

lemma rdigits_length: "n < b ^ k \<Longrightarrow> length (rdigits b n) \<le> k"
proof (induction k arbitrary: n)
  case 0
  then show ?case by (simp add: rdigits.simps)
next
  case (Suc k)
  have "n div b < b ^ k" using Suc.prems by (simp add: less_mult_imp_div_less mult.commute)
  then show ?case using Suc.IH by (subst rdigits.simps) simp
qed

lemma digit_char_nonzero: "0 \<le> d \<Longrightarrow> d < 36 \<Longrightarrow> digit_char d \<noteq> 0"
proof -
  assume "0 \<le> d" "d < 36"
  then have "d \<in> {0..<36}" by simp
  moreover have "\<forall>d \<in> {0..<36}. digit_char d \<noteq> 0" by code_simp
  ultimately show ?thesis by blast
qed

lemma rdigits_nonzero: "b \<le> 36 \<Longrightarrow> 0 \<notin> set (rdigits b n)"
proof (induction b n rule: rdigits.induct)
  case (1 b n)
  have "n mod b < 36" if "2 \<le> b" using mod_less_divisor [of b n] that 1(2) by linarith
  then show ?case
    using 1 digit_char_nonzero [of "int (n mod b)"] by (subst rdigits.simps) auto
qed

lemma digits_loop_eq:
  assumes "2 \<le> b" and "b < 2 ^ 31" and "i + length (rdigits b (unat num)) < 2 ^ 64"
  shows "\<exists>m'. digits_loop m buf i num (int b) = Some (m', i + length (rdigits b (unat num))) \<and>
    bytes_at m' (buf + of_nat i) (rdigits b (unat num)) \<and>
    same_outside (region (buf + of_nat i) (length (rdigits b (unat num)))) m m'"
  using assms(3)
proof (induction "unat num" arbitrary: num m i rule: less_induct)
  case less
  show ?case
  proof (cases "num = 0")
    case True
    then show ?thesis by (subst digits_loop.simps) (simp add: rdigits.simps)
  next
    case False
    let ?b = "of_nat b :: u64"
    have b: "unat ?b = b" using assms(2) by (simp add: unat_of_nat64)
    have pos: "0 < unat num" using False by (simp add: unat_gt_0)
    let ?m = "m(buf + of_nat i := digit_char (int (unat num mod b)))"
    have d: "c_int (num mod ?b) = int (unat num mod b)"
    proof (subst c_int_small)
      have "unat num mod b < b" using assms(1) by simp
      then show "unat (num mod ?b) < 2 ^ 31" using assms(2) b by (simp add: unat_mod64)
    qed (use b in \<open>simp add: unat_mod64\<close>)
    have q: "unat (num div ?b) = unat num div b" using b by (simp add: unat_div64)
    have rd: "rdigits b (unat num) = digit_char (int (unat num mod b)) # rdigits b (unat num div b)"
      using pos assms(1) by (subst rdigits.simps) simp
    have lt: "unat (num div ?b) < unat num" unfolding q using pos assms(1) by simp
    have len: "Suc i + length (rdigits b (unat (num div ?b))) < 2 ^ 64" using less.prems by (simp add: q rd)
    from less.hyps [OF lt len, of ?m] obtain m' where m':
      "digits_loop ?m buf (Suc i) (num div ?b) (int b) = Some (m', Suc i + length (rdigits b (unat num div b)))"
      "bytes_at m' (buf + of_nat (Suc i)) (rdigits b (unat num div b))"
      "same_outside (region (buf + of_nat (Suc i)) (length (rdigits b (unat num div b)))) ?m m'"
      unfolding q by blast
    have next': "buf + of_nat (Suc i) = buf + of_nat i + 1" by simp
    have small: "length (rdigits b (unat num div b)) < 2 ^ 64" using len q by simp
    have "m' (buf + of_nat i) = digit_char (int (unat num mod b))"
      using same_outsideD [OF m'(3), of "buf + of_nat i"] not_in_region_next [OF small, of "buf + of_nat i"]
      unfolding next' by simp
    moreover have "same_outside (region (buf + of_nat i) (length (rdigits b (unat num)))) m m'"
      using m'(3) unfolding rd next' by (auto simp: same_outside_def region_Suc simp del: in_region)
    moreover have "num > 0" using False by (simp add: word_neq_0_conv)
    ultimately show ?thesis
      using m'(1,2) d unfolding rd next' by (subst digits_loop.simps) (simp add: add.commute add.left_commute)
  qed
qed


lemma num_str_nonempty: "2 \<le> b \<Longrightarrow> num_str b n \<noteq> []"
  by (simp add: num_str_def rdigits.simps)

lemma num_str_length:
  assumes "n < b ^ k" and "0 < k"
  shows "length (num_str b n) \<le> k"
  using rdigits_length [OF assms(1)] assms(2) by (auto simp: num_str_def)

lemma num_str_length64:
  "length (num_str 10 (unat (n :: u64))) \<le> 20" "length (num_str 16 (unat (n :: u64))) \<le> 16"
  by (rule num_str_length, use unat_less64 [of n] in simp_all)+

lemma num_str_nonzero: "b \<le> 36 \<Longrightarrow> 0 \<notin> set (num_str b n)"
  using rdigits_nonzero [of b n] by (auto simp: num_str_def)

lemma region_Suc_end: "Suc n \<le> 2 ^ 64 \<Longrightarrow> region a (Suc n) = insert (a + of_nat n) (region a n)"
  using region_add [of n 1 a] region_Suc [of "a + of_nat n" 0] by simp

lemma uint64_to_string_eq:
  assumes b: "2 \<le> b" "b \<le> 36"
    and apart: "region buf (Suc (length (num_str b (unat num)))) \<inter> region str (Suc (length (num_str b (unat num)))) = {}"
    and len: "length (num_str b (unat num)) < 2 ^ 31"
  obtains m' where "uint64_to_string buf m str num (int b) = Some m'"
    and "str_at m' str (num_str b (unat num))"
    and "same_outside (region buf (Suc (length (num_str b (unat num)))) \<union> region str (Suc (length (num_str b (unat num))))) m m'"
proof -
  let ?s = "num_str b (unat num)"
  let ?R = "region buf (Suc (length ?s))"
  let ?m0 = "if num = 0 then m(buf := 0x30) else m" and ?i = "if num = 0 then 1 else (0 :: nat)"
  have ends: "region buf (Suc (length ?s)) = insert (buf + of_nat (length ?s)) (region buf (length ?s))"
    by (rule region_Suc_end) (use len in simp)
  have first: "buf \<in> ?R" using region_offset [of 0 "Suc (length ?s)" buf] len by simp
  have rlen: "?i + length (rdigits b (unat num)) = length ?s"
    by (simp add: num_str_def rdigits.simps unat_eq_0)
  obtain m1 where m1: "digits_loop ?m0 buf ?i num (int b) = Some (m1, length ?s)" "bytes_at m1 buf (rev ?s)"
    "same_outside ?R m m1"
  proof (cases "num = 0")
    case True
    have "digits_loop (m(buf := 0x30)) buf 1 0 (int b) = Some (m(buf := 0x30), 1)" by (subst digits_loop.simps) simp
    then show thesis
      using True first by (intro that [of "m(buf := 0x30)"]) (simp_all add: num_str_def same_outside_fun_upd)
  next
    case False
    have "b < 2 ^ 31" "?i + length (rdigits b (unat num)) < 2 ^ 64" using b len rlen by simp_all
    from digits_loop_eq [OF b(1) this(1), of 0 num m buf] this(2) False obtain m1 where
      "digits_loop m buf 0 num (int b) = Some (m1, length (rdigits b (unat num)))"
      "bytes_at m1 buf (rdigits b (unat num))" "same_outside (region buf (length (rdigits b (unat num)))) m m1" by auto
    then show thesis
      using False by (intro that [of m1]) (auto simp: num_str_def unat_eq_0 elim: same_outside_mono simp del: in_region intro!: region_mono)
  qed
  let ?m2 = "m1(buf + of_nat (length ?s) := 0)"
  have "buf + of_nat (length ?s) \<notin> region buf (length ?s)" using len by (simp add: unat_of_nat64)
  then have "bytes_at ?m2 buf (rev ?s)"
    using m1(2) bytes_at_same_outside [OF same_outside_fun_upd, of "buf + of_nat (length ?s)" "{buf + of_nat (length ?s)}" buf "rev ?s"]
      len by auto
  then have "str_at ?m2 buf (rev ?s)"
    using num_str_nonzero [OF b(2)] by (simp add: str_at_def bytes_at_append)
  then obtain m3 where m3: "strrev ?m2 buf = Some m3" "str_at m3 buf ?s" "same_outside (region buf (length ?s)) ?m2 m3"
    using strrev_str_at [of ?m2 buf "rev ?s"] len by auto
  obtain m4 where m4: "strcpy m3 str buf = Some (m4, str + of_nat (length ?s))" "str_at m4 str ?s"
    "same_outside (region str (Suc (length ?s))) m3 m4"
    using strcpy_str_at [OF m3(2) apart] len by auto
  have "same_outside ?R m1 ?m2" using ends by auto
  moreover have "same_outside ?R ?m2 m3" by (rule same_outside_mono [OF m3(3)]) (auto simp: ends simp del: in_region)
  ultimately have "same_outside ?R m m3" using m1(3) by (meson same_outside_trans)
  then have "same_outside (?R \<union> region str (Suc (length ?s))) m m4"
    using m4(3) by (meson same_outside_mono same_outside_trans sup_ge1 sup_ge2)
  moreover have "uint64_to_string buf m str num (int b) = Some m4"
    using m1(1) m3(1) m4(1) by (cases "num = 0") (simp_all add: uint64_to_string_def)
  ultimately show thesis using that m4(2) by blast
qed

fun digit_val :: "u8 \<Rightarrow> nat" where
  "digit_val c = (if unat c < 0x3a then unat c - 0x30 else unat c - 0x61 + 10)"

definition parse_num :: "nat \<Rightarrow> u8 list \<Rightarrow> nat" where
  "parse_num b s = foldl (\<lambda>v c. v * b + digit_val c) 0 s"

lemma digit_val_char: "d < 36 \<Longrightarrow> digit_val (digit_char (int d)) = d"
proof -
  assume "d < 36"
  then have "d \<in> {0..<36}" by simp
  moreover have "\<forall>d \<in> {0..<36}. digit_val (digit_char (int d)) = d" by code_simp
  ultimately show ?thesis by blast
qed

lemma parse_rdigits: "2 \<le> b \<Longrightarrow> b \<le> 36 \<Longrightarrow> parse_num b (rev (rdigits b n)) = n"
proof (induction b n rule: rdigits.induct)
  case (1 b n)
  show ?case
  proof (cases "n = 0")
    case False
    have "n mod b < 36" using mod_less_divisor [of b n] 1(2,3) by linarith
    then have "digit_val (digit_char (int (n mod b))) = n mod b" by (rule digit_val_char)
    then show ?thesis
      using 1 False by (subst rdigits.simps) (simp add: parse_num_def del: digit_val.simps)
  qed (simp add: rdigits.simps parse_num_def)
qed

lemma parse_num_str: "2 \<le> b \<Longrightarrow> b \<le> 36 \<Longrightarrow> parse_num b (num_str b n) = n"
  using parse_rdigits [of b n] by (auto simp: num_str_def parse_num_def)


section \<open>Formatted output\<close>

datatype fmt_val = Num u64 | Str "u8 list"

fun fmt_ref :: "u8 list \<Rightarrow> fmt_val list \<Rightarrow> u8 list option" where
  \<comment> \<open>the text a format stands for; \<open>None\<close> for a lone percent sign at the end or a missing argument\<close>
  "fmt_ref [] vs = Some []"
| "fmt_ref (c # fs) vs =
     (if c \<noteq> 0x25 then map_option ((#) c) (fmt_ref fs vs)
      else case fs of
        [] \<Rightarrow> None
      | t # fs' \<Rightarrow>
          if t = 0x78 \<or> t = 0x71 then
            (case vs of
               Num n # vs' \<Rightarrow> map_option ((@) (num_str (if t = 0x78 then 16 else 10) (unat n))) (fmt_ref fs' vs')
             | _ \<Rightarrow> None)
          else if t = 0x73 then (case vs of Str s # vs' \<Rightarrow> map_option ((@) s) (fmt_ref fs' vs') | _ \<Rightarrow> None)
          else map_option ((#) 0x3f) (fmt_ref fs vs))"

definition sp_bufs :: "log_frame \<Rightarrow> addr set" where
  "sp_bufs f = region (sprintf_buffer f) 100 \<union> region (digits_buffer f) 50"

definition sp_written :: "log_frame \<Rightarrow> addr \<Rightarrow> nat \<Rightarrow> addr set" where
  "sp_written f str L = region str L \<union> sp_bufs f"

fun arg_at :: "mem \<Rightarrow> addr set \<Rightarrow> fmt_val \<Rightarrow> u64 \<Rightarrow> bool" where
  "arg_at m W (Num n) v \<longleftrightarrow> v = n"
| "arg_at m W (Str s) v \<longleftrightarrow> str_at m v s \<and> region v (Suc (length s)) \<inter> W = {} \<and> length s < 2 ^ 31"

definition sp_inv ::
  "log_frame \<Rightarrow> mem \<Rightarrow> addr \<Rightarrow> nat \<Rightarrow> addr \<Rightarrow> u8 list \<Rightarrow> fmt_val list \<Rightarrow> u64 list \<Rightarrow> bool" where
  \<comment> \<open>the rest of the destination is zero and nothing that is read overlaps what is written\<close>
  "sp_inv f m str L format fs vs vars \<longleftrightarrow>
     str_at m format fs \<and> region format (Suc (length fs)) \<inter> sp_written f str L = {} \<and> length fs < 2 ^ 31 \<and>
     list_all2 (arg_at m (sp_written f str L)) vs vars \<and>
     (\<forall>p \<in> region str L. m p = 0) \<and> region str L \<inter> sp_bufs f = {} \<and> L < 2 ^ 31 \<and>
     region (sprintf_buffer f) 100 \<inter> region (digits_buffer f) 50 = {}"

lemma sp_written_suffix:
  assumes "n \<le> L" and "L < 2 ^ 31"
  shows "sp_written f (str + of_nat n) (L - n) \<subseteq> sp_written f str L"
  using region_sub [of n "L - n" L str] assms by (auto simp: sp_written_def simp del: in_region)

lemma arg_at_frame:
  assumes "arg_at m W v a" and "same_outside W m m'" and "W' \<subseteq> W"
  shows "arg_at m' W' v a"
proof (cases v)
  case (Str s)
  then have "str_at m' a s = str_at m a s"
    using assms(1) by (intro str_at_same_outside [OF assms(2)]) simp_all
  then show ?thesis using Str assms(1,3) by auto
qed (use assms(1) in simp)

lemma sp_inv_step:
  assumes inv: "sp_inv f m str L format (pre @ fs) (va @ vs) (aa @ vars)" and len: "length va = length aa"
    and n: "n \<le> L" and w: "same_outside (sp_written f str L) m m1"
    and zero: "\<forall>p \<in> region (str + of_nat n) (L - n). m1 p = 0"
  shows "sp_inv f m1 (str + of_nat n) (L - n) (format + of_nat (length pre)) fs vs vars"
proof -
  note i = inv [unfolded sp_inv_def]
  note suf = sp_written_suffix [OF n, of f str]
  have fmt: "str_at m1 format (pre @ fs)"
    using i by (subst str_at_same_outside [OF w]) auto
  have sub: "region (format + of_nat (length pre)) (Suc (length fs)) \<subseteq> region format (Suc (length (pre @ fs)))"
    using i by (intro region_sub) simp_all
  have "list_all2 (arg_at m (sp_written f str L)) vs vars" using i len by (simp add: list_all2_append)
  then have "list_all2 (arg_at m1 (sp_written f (str + of_nat n) (L - n))) vs vars"
    by (rule list_all2_mono) (use arg_at_frame [OF _ w] suf i in blast)
  moreover have "str_at m1 (format + of_nat (length pre)) fs" using fmt by (simp add: str_at_def bytes_at_append)
  moreover have "region (format + of_nat (length pre)) (Suc (length fs)) \<inter> sp_written f (str + of_nat n) (L - n) = {}"
    using i sub suf by blast
  moreover have "region (str + of_nat n) (L - n) \<inter> sp_bufs f = {}"
    using region_sub [of n "L - n" L str] i n by auto
  moreover have "L - n < 2 ^ 31" using i by (meson diff_le_self le_less_trans)
  ultimately show ?thesis using i zero by (simp add: sp_inv_def)
qed

lemma sp_emit:
  assumes p: "bytes_at m1 str p" "0 \<notin> set p" "length p \<le> L" and L: "L < 2 ^ 31" "region str L \<inter> sp_bufs f = {}"
    and w: "same_outside (sp_written f str L) m m1"
    and rest: "str_at m' (str + of_nat (length p)) out" "same_outside (sp_written f (str + of_nat (length p)) (L - length p)) m1 m'"
  shows "str_at m' str (p @ out) \<and> same_outside (sp_written f str L) m m'"
proof -
  have "region str (length p) \<subseteq> region str L" using p(3) by (rule region_mono)
  moreover have "region str (length p) \<inter> region (str + of_nat (length p)) (L - length p) = {}"
    using region_offsets_apart [of 0 "length p" "length p" "L - length p" str] p(3) L(1) by simp
  ultimately have "region str (length p) \<inter> sp_written f (str + of_nat (length p)) (L - length p) = {}"
    using L(2) by (auto simp: sp_written_def simp del: in_region)
  then have "bytes_at m' str p"
    using p(1) bytes_at_same_outside [OF rest(2), of str p] p(3) L(1) by simp
  then have "str_at m' str (p @ out)" using p(2) rest(1) by (simp add: str_at_def bytes_at_append)
  then show ?thesis
    using same_outside_trans [OF w same_outside_mono [OF rest(2) sp_written_suffix [OF p(3) L(1)]]] by blast
qed

lemma strcat_emit:
  assumes src: "str_at m src s" "region src (Suc (length s)) \<inter> region str L = {}"
    and L: "length s < L" "L < 2 ^ 31" and zero: "\<forall>p \<in> region str L. m p = 0"
  obtains m' e where "strcat m str src = Some (m', e)" and "bytes_at m' str s" and "same_outside (region str L) m m'"
    and "\<forall>p \<in> region (str + of_nat (length s)) (L - length s). m' p = 0"
proof -
  have sub: "region str (Suc (length s)) \<subseteq> region str L" by (rule region_mono) (use L(1) in simp)
  have "m str = 0" using zero region_offset [of 0 L str] L by auto
  then have "str_at m str []" by simp
  moreover have "region src (Suc (length s)) \<inter> region str (Suc (length ([] :: u8 list) + length s)) = {}"
    using src(2) sub by auto
  ultimately obtain m' where m': "strcat m str src = Some (m', str + of_nat (length s))" "str_at m' str s"
    "same_outside (region str (Suc (length s))) m m'"
    using strcat_str_at [OF _ src(1), of str "[]"] L by auto
  have "m' p = 0" if "p \<in> region (str + of_nat (length s)) (L - length s)" for p
  proof -
    from that obtain i where i: "i < L - length s" "p = str + of_nat (length s) + of_nat i" by (rule region_offsetE)
    have pL: "p \<in> region str L" using that region_sub [of "length s" "L - length s" L str] L by auto
    show ?thesis
    proof (cases "i = 0")
      case True
      then show ?thesis using m'(2) i(2) by (simp add: str_at_def bytes_at_append)
    next
      case False
      have "p = str + of_nat (length s + i)" using i(2) by (simp add: add.assoc)
      then have "p - str = of_nat (length s + i)" by simp
      then have "p \<notin> region str (Suc (length s))"
        using False i(1) L(2) by (simp only: in_region) (simp add: unat_of_nat64 del: of_nat_add)
      then show ?thesis using same_outsideD [OF m'(3)] zero pL by auto
    qed
  qed
  then show thesis
    using that [OF m'(1) _ same_outside_mono [OF m'(3) sub]] m'(2) by (simp add: str_at_def bytes_at_append)
qed


lemma sp_number:
  assumes inv: "sp_inv f m str L format fs vs vars" and b: "b = 10 \<or> b = 16"
    and len: "length (num_str b (unat num)) < L"
  obtains m1 m2 e where "uint64_to_string (digits_buffer f) m (sprintf_buffer f) num (int b) = Some m1"
    and "strlen m1 (sprintf_buffer f) = Some (int (length (num_str b (unat num))))"
    and "strcat m1 str (sprintf_buffer f) = Some (m2, e)" and "bytes_at m2 str (num_str b (unat num))"
    and "same_outside (sp_written f str L) m m2"
    and "\<forall>p \<in> region (str + of_nat (length (num_str b (unat num)))) (L - length (num_str b (unat num))). m2 p = 0"
proof -
  let ?s = "num_str b (unat num)"
  note i = inv [unfolded sp_inv_def]
  have l: "length ?s \<le> 20" using b num_str_length64 [of num] by auto
  have sub: "region (digits_buffer f) (Suc (length ?s)) \<subseteq> region (digits_buffer f) 50"
    "region (sprintf_buffer f) (Suc (length ?s)) \<subseteq> region (sprintf_buffer f) 100"
    by (rule region_mono, use l in simp)+
  then have apart: "region (digits_buffer f) (Suc (length ?s)) \<inter> region (sprintf_buffer f) (Suc (length ?s)) = {}"
    using i by blast
  have b36: "2 \<le> b" "b \<le> 36" and l31: "length ?s < 2 ^ 31" using b l by auto
  obtain m1 where m1: "uint64_to_string (digits_buffer f) m (sprintf_buffer f) num (int b) = Some m1"
    "str_at m1 (sprintf_buffer f) ?s"
    "same_outside (region (digits_buffer f) (Suc (length ?s)) \<union> region (sprintf_buffer f) (Suc (length ?s))) m m1"
    using b36 apart l31 by (rule uint64_to_string_eq)
  have w1: "same_outside (sp_bufs f) m m1"
    by (rule same_outside_mono [OF m1(3)]) (use sub in \<open>auto simp: sp_bufs_def simp del: in_region\<close>)
  have zero: "\<forall>p \<in> region str L. m1 p = 0"
    using i same_outsideD [OF w1] by (metis disjoint_iff)
  have ap: "region (sprintf_buffer f) (Suc (length ?s)) \<inter> region str L = {}"
    using i sub(2) by (auto simp: sp_bufs_def simp del: in_region)
  have L: "L < 2 ^ 31" using i by simp
  obtain m2 e where m2: "strcat m1 str (sprintf_buffer f) = Some (m2, e)" "bytes_at m2 str ?s"
    "same_outside (region str L) m1 m2" "\<forall>p \<in> region (str + of_nat (length ?s)) (L - length ?s). m2 p = 0"
    using m1(2) ap len L zero by (rule strcat_emit)
  have "same_outside (sp_written f str L) m m2"
    unfolding sp_written_def using w1 m2(3) by (meson same_outside_mono same_outside_trans sup_ge1 sup_ge2)
  then show thesis
    using that [OF m1(1) _ m2(1,2) _ m2(4)] strlen_str_at [OF m1(2)] l by simp
qed

lemma sp_char:
  assumes inv: "sp_inv f m str L format fs vs vars" and "0 < L"
  shows "same_outside (sp_written f str L) m (m(str := c))" "bytes_at (m(str := c)) str [c]"
    "\<forall>p \<in> region (str + of_nat 1) (L - 1). (m(str := c)) p = 0"
proof -
  note i = inv [unfolded sp_inv_def]
  have "str \<in> region str L" using region_offset [of 0 L str] i assms(2) by simp
  then show "same_outside (sp_written f str L) m (m(str := c))" by (auto simp: sp_written_def)
  show "bytes_at (m(str := c)) str [c]" by simp
  have "L < 2 ^ 31" using i by simp
  then have "str \<notin> region (str + of_nat 1) (L - 1)" using not_in_region_next [of "L - 1" str] by simp
  moreover have "region (str + of_nat 1) (L - 1) \<subseteq> region str L" by (rule region_sub) (use i assms(2) in simp_all)
  ultimately show "\<forall>p \<in> region (str + of_nat 1) (L - 1). (m(str := c)) p = 0" using i by (metis fun_upd_other subsetD)
qed

lemma sprintf_loop_eq:
  assumes "sp_inv f m str L format fs vs vars" and "fmt_ref fs vs = Some out" and "length out < L"
  shows "\<exists>m' r. sprintf_loop f m str format vars k = Some (m', r) \<and> str_at m' str out \<and>
    same_outside (sp_written f str L) m m'"
  using assms
proof (induction "length fs" arbitrary: fs m str L format vs vars out k rule: less_induct)
  case less
  note inv = less.prems(1) and L = less.prems(3)
  note i = inv [unfolded sp_inv_def]
  have step: "\<exists>m' r. sprintf_loop f m1 (str + of_nat (length p)) (format + of_nat (length pre)) vars' k' = Some (m', r) \<and>
      str_at m' str (p @ out') \<and> same_outside (sp_written f str L) m m'"
    if fs: "fs = pre @ fs'" "pre \<noteq> []" "vs = va @ vs'" "vars = aa @ vars'" "length va = length aa"
      and p: "bytes_at m1 str p" "0 \<notin> set p" "same_outside (sp_written f str L) m m1"
        "\<forall>p' \<in> region (str + of_nat (length p)) (L - length p). m1 p' = 0"
      and out: "fmt_ref fs' vs' = Some out'" "out = p @ out'"
    for m1 p out' pre fs' va vs' aa vars' k'
  proof -
    have n: "length p \<le> L" "length out' < L - length p" using L out(2) by auto
    have "sp_inv f m1 (str + of_nat (length p)) (L - length p) (format + of_nat (length pre)) fs' vs' vars'"
      by (rule sp_inv_step [OF inv [unfolded fs(1,3,4)] fs(5) n(1) p(3,4)])
    from less.hyps [OF _ this out(1) n(2), of k'] fs(1,2) obtain m' r where
      "sprintf_loop f m1 (str + of_nat (length p)) (format + of_nat (length pre)) vars' k' = Some (m', r)"
      "str_at m' (str + of_nat (length p)) out'"
      "same_outside (sp_written f (str + of_nat (length p)) (L - length p)) m1 m'" by auto
    moreover from sp_emit [OF p(1,2) n(1) _ _ p(3) this(2,3)] i
    have "str_at m' str (p @ out') \<and> same_outside (sp_written f str L) m m'" by simp
    ultimately show ?thesis by blast
  qed
  show ?case
  proof (cases fs)
    case Nil
    have "str \<in> region str L" using region_offset [of 0 L str] i L by simp
    then have "same_outside (sp_written f str L) m (m(str := 0))" by (auto simp: sp_written_def)
    moreover have "m format = 0" using i Nil by simp
    ultimately show ?thesis using less.prems(2) Nil by (subst sprintf_loop.simps) simp
  next
    case (Cons c fs1)
    have c: "m format = c" "c \<noteq> 0" using i Cons by auto
    note char = sp_char [OF inv]
    show ?thesis
    proof (cases "c = 0x25")
      case False
      then obtain out' where out: "fmt_ref fs1 vs = Some out'" "out = [c] @ out'" using less.prems(2) Cons by auto
      have "0 < L" using L out(2) by simp
      from step [of "[c]" fs1 "[]" vs "[]" vars "m(str := c)" "[c]" out' "k + 1"] char [OF this, of c] out c Cons
      have "\<exists>m' r. sprintf_loop f (m(str := c)) (str + 1) (format + 1) vars (k + 1) = Some (m', r) \<and>
        str_at m' str out \<and> same_outside (sp_written f str L) m m'" by simp
      then show ?thesis using False c by (subst sprintf_loop.simps) simp
    next
      case True
      then obtain t fs2 where fs1: "fs1 = t # fs2" using less.prems(2) Cons by (cases fs1) auto
      have t: "m (format + 1) = t" "t \<noteq> 0" using i Cons fs1 by auto
      have two: "format + of_nat (length [c, t]) = format + 2" by simp
      consider (num) "t = 0x78 \<or> t = 0x71" | (string) "t = 0x73" | (other) "t \<noteq> 0x78" "t \<noteq> 0x71" "t \<noteq> 0x73" by blast
      then show ?thesis
      proof cases
        case num
        let ?b = "if t = 0x78 then 16 else 10 :: nat"
        obtain n vs' out' where v: "vs = Num n # vs'" "fmt_ref fs2 vs' = Some out'" "out = num_str ?b (unat n) @ out'"
          using less.prems(2) Cons fs1 True num by (auto split: list.splits fmt_val.splits)
        obtain vars' where vars: "vars = n # vars'" using i v(1) by (cases vars) auto
        have lb: "length (num_str ?b (unat n)) < L" using L v(3) by simp
        obtain m1 m2 e where m2: "uint64_to_string (digits_buffer f) m (sprintf_buffer f) n (int ?b) = Some m1"
          "strlen m1 (sprintf_buffer f) = Some (int (length (num_str ?b (unat n))))"
          "strcat m1 str (sprintf_buffer f) = Some (m2, e)" "bytes_at m2 str (num_str ?b (unat n))"
          "same_outside (sp_written f str L) m m2"
          "\<forall>p \<in> region (str + of_nat (length (num_str ?b (unat n)))) (L - length (num_str ?b (unat n))). m2 p = 0"
          by (rule sp_number [OF inv _ lb]) auto
        have "0 \<notin> set (num_str ?b (unat n))" by (rule num_str_nonzero) simp
        from step [OF _ _ _ _ _ m2(4) this m2(5,6) v(2,3), of "[c, t]" "[Num n]" "[n]" vars' k] Cons fs1 v(1) vars
        have "\<exists>m' r. sprintf_loop f m2 (str + of_nat (length (num_str ?b (unat n)))) (format + 2) vars' k = Some (m', r) \<and>
          str_at m' str out \<and> same_outside (sp_written f str L) m m'" using v(3) two by simp
        moreover have "(if t = 0x78 then 16 else 10) = int ?b" by simp
        ultimately show ?thesis
          using True c t num m2(1-3) vars by (subst sprintf_loop.simps) (simp add: Let_def)
      next
        case string
        obtain s vs' out' where v: "vs = Str s # vs'" "fmt_ref fs2 vs' = Some out'" "out = s @ out'"
          using less.prems(2) Cons fs1 True string by (auto split: list.splits fmt_val.splits)
        obtain a vars' where vars: "vars = a # vars'" "str_at m a s" "length s < 2 ^ 31"
          "region a (Suc (length s)) \<inter> sp_written f str L = {}" using i v(1) by (cases vars) auto
        have ap: "region a (Suc (length s)) \<inter> region str L = {}" using vars(4) by (auto simp: sp_written_def simp del: in_region)
        have ls: "length s < L" "L < 2 ^ 31" using L v(3) i by auto
        have z: "\<forall>p \<in> region str L. m p = 0" using i by simp
        obtain m2 e where m2: "strcat m str a = Some (m2, e)" "bytes_at m2 str s" "same_outside (region str L) m m2"
          "\<forall>p \<in> region (str + of_nat (length s)) (L - length s). m2 p = 0"
          using vars(2) ap ls z by (rule strcat_emit)
        have w: "same_outside (sp_written f str L) m m2"
          by (rule same_outside_mono [OF m2(3)]) (auto simp: sp_written_def simp del: in_region)
        have "str_at m2 a s"
          using vars(2-4) by (subst str_at_same_outside [OF w]) auto
        then have len: "strlen m2 a = Some (int (length s))" using vars(3) by (rule strlen_str_at)
        have "0 \<notin> set s" using vars(2) by (simp add: str_at_def)
        from step [OF _ _ _ _ _ m2(2) this w m2(4) v(2,3), of "[c, t]" "[Str s]" "[a]" vars' k] Cons fs1 v(1) vars(1)
        have "\<exists>m' r. sprintf_loop f m2 (str + of_nat (length s)) (format + 2) vars' k = Some (m', r) \<and>
          str_at m' str out \<and> same_outside (sp_written f str L) m m'" using v(3) two by simp
        then show ?thesis
          using True c t string m2(1) len vars(1) by (subst sprintf_loop.simps) (simp add: Let_def)
      next
        case other
        then obtain out' where out: "fmt_ref fs1 vs = Some out'" "out = [0x3f] @ out'"
          using less.prems(2) Cons True fs1 by auto
        have "0 < L" using L out(2) by simp
        from step [of "[c]" fs1 "[]" vs "[]" vars "m(str := 0x3f)" "[0x3f]" out' "k + 1"] char [OF this, of "0x3f"] out c Cons
        have "\<exists>m' r. sprintf_loop f (m(str := 0x3f)) (str + 1) (format + 1) vars (k + 1) = Some (m', r) \<and>
          str_at m' str out \<and> same_outside (sp_written f str L) m m'" by simp
        then show ?thesis using True other t c by (subst sprintf_loop.simps) (simp add: Let_def)
      qed
    qed
  qed
qed


fun apart_all :: "(addr \<times> nat) list \<Rightarrow> bool" where
  "apart_all [] \<longleftrightarrow> True"
| "apart_all (x # xs) \<longleftrightarrow> (\<forall>y \<in> set xs. region (fst x) (snd x) \<inter> region (fst y) (snd y) = {}) \<and> apart_all xs"

lemma put_string_str_at: "str_at m p s \<Longrightarrow> put_string m out p = Some (out @ s)"
  by (induction s arbitrary: p out) (subst put_string.simps, simp add: put_char_def)+

lemma sprintf_internal_eq:
  assumes inv: "sp_inv f m str L format fs vs vars" and "fmt_ref fs vs = Some out" and "length out < L"
  obtains m' r where "sprintf_internal f m str format vars = Some (m', r)" and "str_at m' str out"
    and "same_outside (sp_written f str L) m m'"
proof -
  note i = inv [unfolded sp_inv_def]
  let ?m = "fill (sprintf_buffer f) 100 0 m"
  have set: "memset m (sprintf_buffer f) 0 100 = Some (?m, sprintf_buffer f)" by (simp add: memset_fill)
  have "region (sprintf_buffer f) 100 \<subseteq> sp_written f str L" by (auto simp: sp_written_def sp_bufs_def simp del: in_region)
  then have w: "same_outside (sp_written f str L) m ?m" by (rule same_outside_mono [OF fill_outside])
  have "\<forall>p \<in> region (str + of_nat 0) (L - 0). ?m p = 0" using i by (auto simp: fill_def)
  then have "sp_inv f ?m (str + of_nat 0) (L - 0) (format + of_nat (length ([] :: u8 list))) fs vs vars"
    using inv w by (intro sp_inv_step [where m = m and va = "[]" and aa = "[]"]) simp_all
  then have "sp_inv f ?m str L format fs vs vars" by simp
  from sprintf_loop_eq [OF this assms(2,3), of 0] obtain m' r where
    "sprintf_loop f ?m str format vars 0 = Some (m', r)" "str_at m' str out" "same_outside (sp_written f str L) ?m m'" by blast
  then show thesis using that [of m' r] set same_outside_trans [OF w] by (simp add: sprintf_internal_def)
qed

definition prefix_format :: "u8 list" where
  \<comment> \<open>the literal of \<open>klog\<close>: percent q in brackets, then a space\<close>
  "prefix_format = [0x5b, 0x25, 0x71, 0x5d, 0x20]"

lemma prefix_format_len: "Suc (length prefix_format) = 6" "length prefix_format = 5"
  by (simp_all add: prefix_format_def)

definition log_frame_ok :: "nat \<Rightarrow> log_frame \<Rightarrow> mem \<Rightarrow> addr \<Rightarrow> nat \<Rightarrow> bool" where
  \<comment> \<open>the buffers of the log functions, their literals and a string of \<open>n\<close> bytes lie apart, when
    \<open>klog\<close> may use \<open>B\<close> bytes from its buffer on\<close>
  "log_frame_ok B f m str n \<longleftrightarrow>
     apart_all [(klog_buffer f, B), (klog_prefix f, 15), (sprintf_buffer f, 100), (digits_buffer f, 50),
       (lit_prefix f, 6), (lit_newline f, 2), (str, n)] \<and>
     str_at m (lit_prefix f) prefix_format \<and> str_at m (lit_newline f) [0x0a]"

definition klog_text :: "timer \<Rightarrow> u8 list \<Rightarrow> u8 list" where
  "klog_text t s = [0x5b] @ num_str 10 (unat (timer_read_systemcounter_usec t)) @ [0x5d, 0x20] @ s @ [0x0a]"

lemma klog_prefix_eq:
  assumes ok: "log_frame_ok B f m str n" and d: "length (num_str 10 (unat (timer_read_systemcounter_usec t))) \<le> 11"
  obtains m' r where "sprintf f (fill (klog_prefix f) 15 0 m) (klog_prefix f) (lit_prefix f) [timer_read_systemcounter_usec t] = Some (m', r)"
    and "str_at m' (klog_prefix f) ([0x5b] @ num_str 10 (unat (timer_read_systemcounter_usec t)) @ [0x5d, 0x20])"
    and "same_outside (sp_written f (klog_prefix f) 15) m m'"
proof -
  let ?u = "timer_read_systemcounter_usec t" and ?m = "fill (klog_prefix f) 15 0 m"
  note fr = ok [unfolded log_frame_ok_def]
  have fill: "same_outside (region (klog_prefix f) 15) m ?m" by (rule fill_outside)
  have "str_at ?m (lit_prefix f) prefix_format = str_at m (lit_prefix f) prefix_format"
    by (rule str_at_same_outside [OF fill]) (use fr in \<open>auto simp: prefix_format_len simp del: in_region\<close>)
  moreover have "\<forall>p \<in> region (klog_prefix f) 15. ?m p = 0" by (simp add: fill_def)
  moreover have "region (lit_prefix f) 6 \<inter> sp_written f (klog_prefix f) 15 = {}"
    "region (klog_prefix f) 15 \<inter> sp_bufs f = {}" "region (sprintf_buffer f) 100 \<inter> region (digits_buffer f) 50 = {}"
    using fr by (auto simp: sp_written_def sp_bufs_def simp del: in_region)
  ultimately have inv: "sp_inv f ?m (klog_prefix f) 15 (lit_prefix f) prefix_format [Num ?u] [?u]"
    using fr by (simp add: sp_inv_def prefix_format_len)
  have fmt: "fmt_ref prefix_format [Num ?u] = Some ([0x5b] @ num_str 10 (unat ?u) @ [0x5d, 0x20])"
    "length ([0x5b] @ num_str 10 (unat ?u) @ [0x5d, 0x20 :: u8]) < 15"
    using d by (simp_all add: prefix_format_def)
  obtain m' r where m': "sprintf_internal f ?m (klog_prefix f) (lit_prefix f) [?u] = Some (m', r)"
    "str_at m' (klog_prefix f) ([0x5b] @ num_str 10 (unat ?u) @ [0x5d, 0x20])" "same_outside (sp_written f (klog_prefix f) 15) ?m m'"
    using inv fmt by (rule sprintf_internal_eq)
  have "region (klog_prefix f) 15 \<subseteq> sp_written f (klog_prefix f) 15" by (simp add: sp_written_def)
  then have "same_outside (sp_written f (klog_prefix f) 15) m m'"
    using fill m'(3) by (meson same_outside_mono same_outside_trans)
  then show thesis using that m'(1,2) by (simp add: sprintf_def)
qed

lemma klog_eq:
  assumes ok: "log_frame_ok B f m str (Suc (length s))" and str: "str_at m str s"
    and d: "length (num_str 10 (unat (timer_read_systemcounter_usec t))) \<le> 11"
    and len: "length (klog_text t s) < B" "B < 2 ^ 31"
  obtains m' where "klog f t m out str = Some (m', out @ klog_text t s)"
    and "str_at m' (klog_buffer f) (klog_text t s)"
    and "same_outside (region (klog_buffer f) B \<union> sp_written f (klog_prefix f) 15) m m'"
proof -
  define P where "P = [0x5b] @ num_str 10 (unat (timer_read_systemcounter_usec t)) @ [0x5d, 0x20 :: u8]"
  let ?B = "region (klog_buffer f) B" and ?W = "sp_written f (klog_prefix f) 15"
  note fr = ok [unfolded log_frame_ok_def]
  have txt_eq: "klog_text t s = (P @ s) @ [0x0a]" by (simp add: klog_text_def P_def)
  have lp: "length P \<le> 14" "length (P @ s) + 1 < B" "length (P @ s) < 2 ^ 31"
    using d len by (simp_all add: klog_text_def P_def)
  obtain m1 r where m1: "sprintf f (fill (klog_prefix f) 15 0 m) (klog_prefix f) (lit_prefix f) [timer_read_systemcounter_usec t] = Some (m1, r)"
    "str_at m1 (klog_prefix f) P" "same_outside ?W m m1"
    unfolding P_def using ok d by (rule klog_prefix_eq)
  have bsub: "region (klog_buffer f) (Suc n) \<subseteq> ?B" if "n < B" for n by (rule region_mono) (use that in simp)
  have psub: "region (klog_prefix f) (Suc (length P)) \<subseteq> region (klog_prefix f) 15" by (rule region_mono) (use lp in simp)
  have "region (klog_prefix f) (Suc (length P)) \<inter> region (klog_buffer f) (Suc (length P)) = {}"
    using fr psub bsub [of "length P"] lp by auto
  from strcpy_str_at [OF m1(2) this] lp obtain m2 where m2: "strcpy m1 (klog_buffer f) (klog_prefix f) = Some (m2, klog_buffer f + of_nat (length P))"
    "str_at m2 (klog_buffer f) P" "same_outside (region (klog_buffer f) (Suc (length P))) m1 m2" by auto
  have w2: "same_outside (?B \<union> ?W) m m2"
  proof (rule same_outside_trans)
    show "same_outside (?B \<union> ?W) m m1" by (rule same_outside_mono [OF m1(3)]) simp
    have "region (klog_buffer f) (Suc (length P)) \<subseteq> ?B \<union> ?W" using bsub [of "length P"] lp by auto
    then show "same_outside (?B \<union> ?W) m1 m2" by (rule same_outside_mono [OF m2(3)])
  qed
  have away: "region str (Suc (length s)) \<inter> (?B \<union> ?W) = {}" "region (lit_newline f) 2 \<inter> (?B \<union> ?W) = {}"
    using fr by (auto simp: sp_written_def sp_bufs_def simp del: in_region)
  have "str_at m2 str s" using str away(1) len by (subst str_at_same_outside [OF w2]) (auto simp: klog_text_def)
  moreover have "region str (Suc (length s)) \<inter> region (klog_buffer f) (Suc (length P + length s)) = {}"
    using away(1) bsub [of "length P + length s"] lp by auto
  ultimately obtain m3 where m3: "strcat m2 (klog_buffer f) str = Some (m3, klog_buffer f + of_nat (length P + length s))"
    "str_at m3 (klog_buffer f) (P @ s)" "same_outside (region (klog_buffer f + of_nat (length P)) (Suc (length s))) m2 m3"
    using strcat_str_at [OF m2(2), of str s] lp by auto
  have "region (klog_buffer f + of_nat (length P)) (Suc (length s)) \<subseteq> ?B" by (rule region_sub) (use lp len(2) in simp_all)
  then have "region (klog_buffer f + of_nat (length P)) (Suc (length s)) \<subseteq> ?B \<union> ?W" by blast
  then have w3: "same_outside (?B \<union> ?W) m m3" by (rule same_outside_trans [OF w2 same_outside_mono [OF m3(3)]])
  have nl: "region (lit_newline f) (Suc (length [0x0a :: u8])) \<inter> (?B \<union> ?W) = {}" using away(2) by (simp add: numeral_2_eq_2)
  have "str_at m3 (lit_newline f) [0x0a] = str_at m (lit_newline f) [0x0a]" by (rule str_at_same_outside [OF w3 nl]) simp
  then have "str_at m3 (lit_newline f) [0x0a]" using fr by blast
  moreover have "region (lit_newline f) (Suc (length [0x0a :: u8])) \<inter> region (klog_buffer f) (Suc (length (P @ s) + length [0x0a :: u8])) = {}"
    using away(2) bsub [of "length (P @ s) + 1"] lp(2) by (auto simp: numeral_2_eq_2)
  moreover have small: "length (P @ s) + length [0x0a :: u8] < 2 ^ 64 - 1" and two: "Suc (length [0x0a :: u8]) = 2"
    using lp(3) by simp_all
  ultimately obtain m4 where m4: "strcat m3 (klog_buffer f) (lit_newline f) = Some (m4, klog_buffer f + of_nat (length (P @ s) + 1))"
    "str_at m4 (klog_buffer f) ((P @ s) @ [0x0a])" "same_outside (region (klog_buffer f + of_nat (length (P @ s))) 2) m3 m4"
    using strcat_str_at [OF m3(2) _ _ small, unfolded two] unfolding two by auto
  have "region (klog_buffer f + of_nat (length (P @ s))) 2 \<subseteq> ?B" by (rule region_sub) (use lp(2) len(2) in simp_all)
  then have "region (klog_buffer f + of_nat (length (P @ s))) 2 \<subseteq> ?B \<union> ?W" by blast
  then have "same_outside (?B \<union> ?W) m m4" by (rule same_outside_trans [OF w3 same_outside_mono [OF m4(3)]])
  moreover have "memset m (klog_prefix f) 0 15 = Some (fill (klog_prefix f) 15 0 m, klog_prefix f)" by (simp add: memset_fill)
  then have "klog f t m out str = Some (m4, out @ klog_text t s)"
    using m1(1) m2(1) m3(1) m4(1) put_string_str_at [OF m4(2), of out] unfolding txt_eq by (simp add: klog_def)
  moreover have "str_at m4 (klog_buffer f) (klog_text t s)" using m4(2) unfolding txt_eq .
  ultimately show thesis by (intro that)
qed


definition klogf_bytes :: "nat \<Rightarrow> nat \<Rightarrow> log_frame \<Rightarrow> addr set" where
  \<comment> \<open>the bytes that \<open>klogf\<close> may write, when it uses \<open>L\<close> bytes from its buffer on and \<open>klog\<close> uses \<open>B\<close>\<close>
  "klogf_bytes B L f = region (klog_buffer f) B \<union> sp_written f (klog_prefix f) 15 \<union> sp_written f (klogf_buffer f) L"

lemma klogf_eq:
  assumes ok: "log_frame_ok B f m (klogf_buffer f) L" and L: "40 \<le> L" "L < 2 ^ 31" and B: "B < 2 ^ 31"
    and zero: "\<forall>p \<in> region (klogf_buffer f + 40) (L - 40). m p = 0"
    and fmt: "str_at m format fs" "region format (Suc (length fs)) \<inter> klogf_bytes B L f = {}" "length fs < 2 ^ 31"
    and args: "list_all2 (arg_at m (klogf_bytes B L f)) vs vars" and ref: "fmt_ref fs vs = Some s" "length s < L"
    and d: "length (num_str 10 (unat (timer_read_systemcounter_usec t))) \<le> 11" and len: "length (klog_text t s) < B"
  obtains m' where "klogf f t m out format vars = Some (m', out @ klog_text t s)" and "str_at m' (klogf_buffer f) s"
    and "same_outside (klogf_bytes B L f) m m'"
proof -
  let ?b = "klogf_buffer f" and ?W = "sp_written f (klogf_buffer f) L" and ?V = "klogf_bytes B L f" and ?K = "region (klog_buffer f) B \<union> sp_written f (klog_prefix f) 15"
  let ?m = "fill ?b 40 0 m"
  note fr = ok [unfolded log_frame_ok_def]
  have sub: "?W \<subseteq> ?V" "?K \<subseteq> ?V" "?V = ?K \<union> ?W" by (auto simp: klogf_bytes_def simp del: in_region)
  have "region ?b 40 \<subseteq> region ?b L" using L(1) by (rule region_mono)
  then have w0: "same_outside ?V m ?m" by (intro same_outside_mono [OF fill_outside]) (auto simp: klogf_bytes_def sp_written_def simp del: in_region)
  have fmt': "str_at ?m format fs" using fmt by (subst str_at_same_outside [OF w0]) simp_all
  have args': "list_all2 (arg_at ?m ?W) vs vars"
    by (rule list_all2_mono [OF args]) (use arg_at_frame [OF _ w0] sub(1) in blast)
  have zero': "\<forall>p \<in> region ?b L. ?m p = 0"
  proof
    fix p
    assume "p \<in> region ?b L"
    moreover have "region ?b L = region ?b 40 \<union> region (?b + 40) (L - 40)" using region_add [of 40 "L - 40" ?b] L by simp
    ultimately have "p \<in> region ?b 40 \<or> p \<in> region (?b + 40) (L - 40)" by blast
    then show "?m p = 0" using zero by (auto simp: fill_def)
  qed
  have "region ?b L \<inter> sp_bufs f = {}" "region (sprintf_buffer f) 100 \<inter> region (digits_buffer f) 50 = {}"
    using fr by (auto simp: sp_bufs_def simp del: in_region)
  then have inv: "sp_inv f ?m ?b L format fs vs vars" using fmt' args' zero' fmt(2,3) sub(1) L(2) unfolding sp_inv_def by blast
  obtain m1 r where m1: "sprintf_internal f ?m ?b format vars = Some (m1, r)" "str_at m1 ?b s" "same_outside ?W ?m m1"
    using inv ref by (rule sprintf_internal_eq)
  have w1: "same_outside ?V m m1" by (rule same_outside_trans [OF w0 same_outside_mono [OF m1(3) sub(1)]])
  have lits: "region (lit_prefix f) 6 \<inter> ?V = {}" "region (lit_newline f) 2 \<inter> ?V = {}"
    using fr by (auto simp: klogf_bytes_def sp_written_def sp_bufs_def simp del: in_region)
  have "str_at m1 (lit_prefix f) prefix_format = str_at m (lit_prefix f) prefix_format"
    by (rule str_at_same_outside [OF w1]) (use lits(1) in \<open>simp_all add: prefix_format_len\<close>)
  moreover have "str_at m1 (lit_newline f) [0x0a] = str_at m (lit_newline f) [0x0a]"
    by (rule str_at_same_outside [OF w1]) (use lits(2) in \<open>simp add: numeral_2_eq_2\<close>, simp)
  moreover have bs: "region ?b (Suc (length s)) \<subseteq> region ?b L" by (rule region_mono) (use ref(2) in simp)
  ultimately have ok1: "log_frame_ok B f m1 ?b (Suc (length s))" using fr unfolding log_frame_ok_def by (auto simp del: in_region)
  obtain m2 where m2: "klog f t m1 out ?b = Some (m2, out @ klog_text t s)" "str_at m2 (klog_buffer f) (klog_text t s)" "same_outside ?K m1 m2"
    using ok1 m1(2) d len B by (rule klog_eq)
  have "region ?b (Suc (length s)) \<inter> ?K = {}" using ok1 unfolding log_frame_ok_def sp_written_def sp_bufs_def by (auto simp del: in_region)
  then have "str_at m2 ?b s" using m1(2) ref(2) L(2) by (subst str_at_same_outside [OF m2(3)]) simp_all
  moreover have "klogf f t m out format vars = Some (m2, out @ klog_text t s)"
    using m1(1) m2(1) by (simp add: klogf_def memset_fill)
  ultimately show thesis using that same_outside_trans [OF w1 same_outside_mono [OF m2(3) sub(2)]] by blast
qed


section \<open>Properties\<close>

text \<open>
  C33. \<open>uint64_to_string\<close> in base 10 or 16 returns for every number and writes its numeral: read back with its
  place values, the string at \<open>str\<close> is the number; at most 21 bytes of either buffer are written.
\<close>
theorem uint64_to_string_roundtrip:
  assumes "b = 10 \<or> b = 16" and "region buf 21 \<inter> region str 21 = {}"
  shows "\<exists>m' s. uint64_to_string buf m str num (int b) = Some m' \<and> str_at m' str s \<and> parse_num b s = unat num \<and>
    same_outside (region buf 21 \<union> region str 21) m m'"
proof -
  let ?s = "num_str b (unat num)"
  have l: "length ?s \<le> 20" using assms(1) num_str_length64 [of num] by auto
  have sub: "region p (Suc (length ?s)) \<subseteq> region p 21" for p by (rule region_mono) (use l in simp)
  have b: "2 \<le> b" "b \<le> 36" and l31: "length ?s < 2 ^ 31" using assms(1) l by auto
  have ap: "region buf (Suc (length ?s)) \<inter> region str (Suc (length ?s)) = {}" using assms(2) sub by blast
  obtain m' where m': "uint64_to_string buf m str num (int b) = Some m'" "str_at m' str ?s"
    "same_outside (region buf (Suc (length ?s)) \<union> region str (Suc (length ?s))) m m'"
    using b ap l31 by (rule uint64_to_string_eq)
  have "same_outside (region buf 21 \<union> region str 21) m m'"
    by (rule same_outside_mono [OF m'(3)]) (use sub in blast)
  then show ?thesis using m'(1,2) parse_num_str [OF b] by blast
qed

theorem uint64_to_string_roundtrip_witness:
  "\<exists>m' s. uint64_to_string 0x1000 (\<lambda>_. 0) 0x2000 (- 1) 16 = Some m' \<and> str_at m' 0x2000 s \<and> parse_num 16 s = 18446744073709551615"
proof -
  have "region 0x1000 21 \<inter> region (0x2000 :: addr) 21 = {}" by (rule regions_apart) simp_all
  moreover have "unat (- 1 :: u64) = 18446744073709551615" using unat_uminus64 [of 1] by simp
  ultimately show ?thesis using uint64_to_string_roundtrip [of 16 "0x1000" "0x2000" "\<lambda>_. 0" "- 1"] by auto
qed

text \<open>
  C31. \<open>sprintf_internal\<close> into zeroed memory agrees with the reference reading of a format string: literal
  characters stand for themselves, percent x and percent q for the numeral of the next argument
  in base 16 and 10, percent s for the string of the next argument, and any other percent for a
  question mark. It returns, and writes only to the destination and its own buffers.
\<close>
theorem sprintf_internal_formats:
  assumes "sp_inv f m str L format fs vs vars" and "fmt_ref fs vs = Some out" and "length out < L"
  shows "\<exists>m' r. sprintf_internal f m str format vars = Some (m', r) \<and> str_at m' str out \<and>
    same_outside (sp_written f str L) m m'"
proof -
  obtain m' r where "sprintf_internal f m str format vars = Some (m', r)" "str_at m' str out"
    "same_outside (sp_written f str L) m m'" using assms by (rule sprintf_internal_eq)
  then show ?thesis by blast
qed

abbreviation example_frame :: log_frame where
  "example_frame \<equiv> \<lparr>klog_buffer = 0x1000, klog_prefix = 0x2000, klogf_buffer = 0x3000, sprintf_buffer = 0x4000,
     digits_buffer = 0x5000, lit_prefix = 0x6000, lit_newline = 0x7000\<rparr>"

abbreviation example_text :: mem where
  \<comment> \<open>the literals of \<open>klog\<close> at their addresses, all else zero\<close>
  "example_text \<equiv> (\<lambda>_. 0)(0x6000 := 0x5b, 0x6001 := 0x25, 0x6002 := 0x71, 0x6003 := 0x5d, 0x6004 := 0x20, 0x7000 := 0x0a)"

theorem sprintf_internal_formats_witness:
  "\<exists>m' r. sprintf_internal example_frame example_text 0x3000 0x6000 [42] = Some (m', r) \<and>
    str_at m' 0x3000 [0x5b, 0x34, 0x32, 0x5d, 0x20]"
proof -
  have "region 0x6000 6 \<inter> region (0x3000 :: addr) 40 = {}" "region 0x6000 6 \<inter> region (0x4000 :: addr) 100 = {}"
    "region 0x6000 6 \<inter> region (0x5000 :: addr) 50 = {}" "region 0x3000 40 \<inter> region (0x4000 :: addr) 100 = {}"
    "region 0x3000 40 \<inter> region (0x5000 :: addr) 50 = {}" "region 0x4000 100 \<inter> region (0x5000 :: addr) 50 = {}"
    by (rule regions_apart; simp)+
  moreover have "\<forall>p \<in> region 0x3000 40. example_text p = 0"
    by (auto simp: region_unat simp del: in_region)
  moreover have "str_at example_text 0x6000 prefix_format" by (simp add: prefix_format_def)
  ultimately have "sp_inv example_frame example_text 0x3000 40 0x6000 prefix_format [Num 42] [42]"
    by (simp add: sp_inv_def sp_written_def sp_bufs_def prefix_format_len Int_Un_distrib)
  moreover have "fmt_ref prefix_format [Num 42] = Some [0x5b, 0x34, 0x32, 0x5d, 0x20]"
    by (simp add: prefix_format_def num_str_def rdigits.simps digit_char_def)
  ultimately show ?thesis using sprintf_internal_formats [of example_frame example_text "0x3000" 40 "0x6000"] by fastforce
qed

text \<open>
  \<open>klog\<close> of a string that fits: the serial port receives the time in microseconds in brackets, a space,
  the string and a newline, and only the buffers of the log functions change.
\<close>
lemma klog_prints:
  assumes "log_frame_ok 50 f m str (Suc (length s))" and "str_at m str s"
    and "length (num_str 10 (unat (timer_read_systemcounter_usec t))) \<le> 11" and "length (klog_text t s) < 50"
  shows "\<exists>m'. klog f t m out str = Some (m', out @ klog_text t s) \<and>
    same_outside (region (klog_buffer f) 50 \<union> sp_written f (klog_prefix f) 15) m m'"
proof -
  have "(50 :: nat) < 2 ^ 31" by simp
  obtain m' where "klog f t m out str = Some (m', out @ klog_text t s)" "str_at m' (klog_buffer f) (klog_text t s)"
    "same_outside (region (klog_buffer f) 50 \<union> sp_written f (klog_prefix f) 15) m m'"
    using assms \<open>50 < 2 ^ 31\<close> by (rule klog_eq)
  then show ?thesis by blast
qed

abbreviation example_timer :: timer where
  "example_timer \<equiv> \<lparr>CNTFRQ_EL0 = 62500000, CNTP_CTL_EL0 = 0, CNTP_TVAL_EL0 = 0, CNTPCT_EL0 = 620\<rparr>"

lemma example_log: "n < 4096 \<Longrightarrow> B < 4096 \<Longrightarrow> log_frame_ok B example_frame example_text 0x8000 n"
proof -
  assume "n < 4096" "B < 4096"
  then have "apart_all [(0x1000, B), (0x2000, 15), (0x4000, 100), (0x5000, 50), (0x6000, 6), (0x7000, 2), (0x8000 :: addr, n)]"
    by (simp add: regions_apart)
  then show ?thesis by (simp add: log_frame_ok_def prefix_format_def)
qed

lemma example_usec: "timer_read_systemcounter_usec example_timer = 10"
  by (simp add: timer_read_systemcounter_usec_def timer_getfrequency_def timer_read_systemcounter_def)

lemma klog_prints_witness:
  "\<exists>m'. klog example_frame example_timer (example_text(0x8000 := 0x68, 0x8001 := 0x69)) [] 0x8000 =
    Some (m', [0x5b, 0x31, 0x30, 0x5d, 0x20, 0x68, 0x69, 0x0a])"
proof -
  let ?m = "example_text(0x8000 := 0x68, 0x8001 := 0x69)"
  have "log_frame_ok 50 example_frame ?m 0x8000 3"
    using example_log [of 3 50] by (simp add: log_frame_ok_def prefix_format_def)
  moreover have "num_str 10 10 = [0x31, 0x30]" by (simp add: num_str_def rdigits.simps digit_char_def)
  ultimately show ?thesis
    using klog_prints [of example_frame ?m "0x8000" "[0x68, 0x69]" example_timer "[]"]
    by (simp add: klog_text_def example_usec numeral_3_eq_3) blast
qed

text \<open>
  C32. \<open>klog\<close> does not check the length of its string: when the text is 50 characters or longer, the byte
  after the 50-byte array \<open>buffer\<close> is overwritten with a byte of the text or its terminator.
\<close>
theorem klog_overruns_buffer:
  assumes "log_frame_ok B f m str (Suc (length s))" and "str_at m str s" and "B < 2 ^ 31"
    and "length (num_str 10 (unat (timer_read_systemcounter_usec t))) \<le> 11"
    and "50 \<le> length (klog_text t s)" and "length (klog_text t s) < B"
  shows "\<exists>m'. klog f t m out str = Some (m', out @ klog_text t s) \<and>
    m' (klog_buffer f + 50) = (klog_text t s @ [0]) ! 50"
proof -
  obtain m' where m': "klog f t m out str = Some (m', out @ klog_text t s)" "str_at m' (klog_buffer f) (klog_text t s)"
    "same_outside (region (klog_buffer f) B \<union> sp_written f (klog_prefix f) 15) m m'"
    using assms(1,2,4,6,3) by (rule klog_eq)
  have "bytes_at m' (klog_buffer f) (klog_text t s @ [0])" using m'(2) by (simp add: str_at_def)
  then have "m' (klog_buffer f + of_nat 50) = (klog_text t s @ [0]) ! 50"
    unfolding bytes_at_def using assms(5) by (metis length_append_singleton less_Suc_eq_le)
  then show ?thesis using m'(1) by simp
qed

theorem klog_overruns_buffer_witness:
  "\<exists>m'. klog example_frame example_timer (\<lambda>p. if p \<in> region 0x8000 60 then 0x41 else example_text p) [] 0x8000 = Some (m', klog_text example_timer (replicate 60 0x41)) \<and>
    m' 0x1032 = 0x41"
proof -
  let ?m = "\<lambda>p. if p \<in> region 0x8000 60 then 0x41 else example_text p"
  have w: "same_outside (region 0x8000 60) example_text ?m" by (simp add: same_outside_def)
  have ap: "region 0x6000 6 \<inter> region (0x8000 :: addr) 60 = {}" "region 0x7000 2 \<inter> region (0x8000 :: addr) 60 = {}"
    by (rule regions_apart; simp)+
  have "str_at ?m 0x6000 prefix_format = str_at example_text 0x6000 prefix_format"
    by (rule str_at_same_outside [OF w]) (use ap(1) in \<open>simp_all add: prefix_format_len\<close>)
  moreover have "str_at ?m 0x7000 [0x0a] = str_at example_text 0x7000 [0x0a]"
    by (rule str_at_same_outside [OF w]) (use ap(2) in \<open>simp add: numeral_2_eq_2\<close>, simp)
  ultimately have ok: "log_frame_ok 200 example_frame ?m 0x8000 (Suc (length (replicate 60 (0x41 :: u8))))"
    using example_log [of 61 200] by (simp add: log_frame_ok_def prefix_format_def)
  have "?m (0x8000 + of_nat i) = 0x41" if "i < 60" for i using that by (simp add: unat_of_nat64)
  then have "bytes_at ?m 0x8000 (replicate 60 0x41)" by (simp add: bytes_at_def)
  then have str: "str_at ?m 0x8000 (replicate 60 0x41)" by (simp add: str_at_def bytes_at_append)
  have ten: "num_str 10 10 = [0x31, 0x30]" by (simp add: num_str_def rdigits.simps digit_char_def)
  show ?thesis
    using klog_overruns_buffer [OF ok str, of example_timer "[]"] ten
    by (simp add: klog_text_def example_usec nth_append nth_Cons')
qed

end
