(* ===== verification/Sched.thy ===== *)
theory Sched
  imports Job_Properties Gic Console
begin

text \<open>
  The switch between processes: \<open>kernel/mp/sched.c\<close>, the entry code of \<open>kernel/exceptions.asm\<close> that pushes
  and pops the registers of the interrupted program, and \<open>sysutils_jump_eret_usermode\<close>. The state of the
  whole machine is the kernel of the job theory together with the interrupt controller, the
  timer, the serial port and the pointer to the pushed registers.
\<close>

section \<open>Definitions\<close>

record machine =
  kern :: kernel
  intc :: gic
  tim :: timer
  console :: "u8 list"
  exceptions_context_switch_x30 :: addr

definition stp :: "mem \<Rightarrow> addr \<Rightarrow> u64 \<Rightarrow> u64 \<Rightarrow> mem \<times> addr" where
  \<comment> \<open>\<open>stp a, b, [sp, #-16]!\<close>\<close>
  "stp m sp a b = (let sp = sp - 16 in (store64 (store64 m sp a) (sp + 8) b, sp))"

definition push_registers :: "mem \<Rightarrow> addr \<Rightarrow> (nat \<Rightarrow> u64) \<Rightarrow> mem \<times> addr" where
  \<comment> \<open>the pairs \<open>x0, x1\<close> to \<open>x28, x29\<close>, then \<open>x30, xzr\<close>\<close>
  "push_registers m sp x =
     (let (m, sp) = fold (\<lambda>j (m, sp). stp m sp (x (2 * j)) (x (2 * j + 1))) [0..<15] (m, sp)
      in stp m sp (x 30) 0)"

definition pop_registers :: "mem \<Rightarrow> addr \<Rightarrow> nat \<Rightarrow> u64" where
  \<comment> \<open>what the \<open>ldp\<close> sequence loads into register \<open>i\<close> from the pushed registers at \<open>sp\<close>\<close>
  "pop_registers m sp i =
     (if i = 30 then load64 m sp
      else if even i then load64 m (sp + of_nat (16 * (15 - i div 2)))
      else load64 m (sp + of_nat (16 * (15 - i div 2)) + 8))"

definition scheduling_save_context :: "kernel \<Rightarrow> addr \<Rightarrow> addr \<Rightarrow> kernel" where
  "scheduling_save_context k x30 job =
     (let program_counter = ELR_EL1 (regs k);
          stack_pointer = SP_EL0 (regs k);
          m = job_set_programcounter (kmem k) job program_counter;
          m = set_sp m job stack_pointer;
          m = fold (\<lambda>i m. set_x m job i (load64 m (fld x30 (8 * (30 - i))))) [0..<31] m
      in k\<lparr>kmem := m\<rparr>)"

definition scheduling_restore_context :: "kernel \<Rightarrow> addr \<Rightarrow> addr \<Rightarrow> kernel" where
  "scheduling_restore_context k x30 job =
     (let program_counter = get_pc (kmem k) job;
          stack_pointer = get_sp (kmem k) job;
          m = fold (\<lambda>i m. store64 m (fld x30 (8 * (30 - i))) (get_x m job i)) [0..<31] (kmem k)
      in k\<lparr>kmem := m, regs := (regs k)\<lparr>ELR_EL1 := program_counter, SP_EL0 := stack_pointer\<rparr>\<rparr>)"

definition apply_paging :: "kernel \<Rightarrow> addr \<Rightarrow> kernel \<times> addr" where
  \<comment> \<open>a call of \<open>paging_manager_apply\<close> with a pointer to a manager\<close>
  "apply_paging k ptr =
     (let (r, current, old) = paging_manager_apply (regs k) (current_paging_manager k) ptr (pm_at (kmem k) (page_slab k) ptr)
      in (k\<lparr>regs := r, current_paging_manager := current\<rparr>, old))"

definition internal_handler :: "machine \<Rightarrow> machine option" where
  "internal_handler s = do {
     let s = s\<lparr>tim := timer_write_tval (tim s) (timer_getfrequency (tim s))\<rparr>;
     let x30 = exceptions_context_switch_x30 s;
     let k = scheduling_save_context (kern s) x30 (job_get_current (kern s));
     k \<leftarrow> job_forward k;
     let k = scheduling_restore_context k x30 (job_get_current k);
     let (k, _) = apply_paging k (get_paging (kmem k) (job_get_current k));
     Some (s\<lparr>kern := k\<rparr>)
   }"

definition scheduling_register_routine :: "gic \<Rightarrow> gic option" where
  "scheduling_register_routine g = gic_redistributor_set_handler g 30 (Some Internal_handler) NULL"

definition sysutils_jump_eret_usermode :: "kernel \<Rightarrow> addr \<Rightarrow> kernel" where
  \<comment> \<open>up to and including the \<open>eret\<close>, which continues at \<open>ELR_EL1\<close> with the level of \<open>SPSR_EL1\<close>\<close>
  "sysutils_jump_eret_usermode k job =
     (let target_el_mask = NOT 0xf;
          target_el = 0;
          k = k\<lparr>regs := (regs k)\<lparr>SPSR_EL1 := (SPSR_EL1 (regs k) AND target_el_mask) OR target_el\<rparr>\<rparr>;
          (k, _) = apply_paging k (get_paging (kmem k) job)
      in k\<lparr>regs := (regs k)\<lparr>ELR_EL1 := get_pc (kmem k) job, SP_EL0 := get_sp (kmem k) job\<rparr>\<rparr>)"

section \<open>The pushed registers\<close>

definition frame_word :: "(nat \<Rightarrow> u64) \<Rightarrow> nat \<Rightarrow> u64" where
  \<comment> \<open>word \<open>n\<close> of the 32 words that the entry code pushes\<close>
  "frame_word x n = (if n = 1 then 0 else if even n then x (30 - n) else x (32 - n))"

definition frame_at :: "mem \<Rightarrow> addr \<Rightarrow> (nat \<Rightarrow> u64) \<Rightarrow> bool" where
  "frame_at m x30 x \<longleftrightarrow> (\<forall>n < 32. load64 m (fld x30 (8 * n)) = frame_word x n)"

definition saved_x :: "(nat \<Rightarrow> u64) \<Rightarrow> u64 list" where
  \<comment> \<open>the array \<open>x\<close> of a job after its registers were saved\<close>
  "saved_x x = map (\<lambda>i. frame_word x (30 - i)) [0..<31]"

lemma stp_fld:
  "stp m (fld sp (Suc (Suc n) * 8)) a b = (store64 (store64 m (fld sp (n * 8)) a) (fld sp (Suc n * 8)) b, fld sp (n * 8))"
  by (simp add: stp_def fld_def Let_def algebra_simps)

lemma push_pairs:
  assumes "j \<le> 15"
  shows "\<exists>m'. fold (\<lambda>j (m, sp). stp m sp (x (2 * j)) (x (2 * j + 1))) [0..<j] (m, fld sp 256) = (m', fld sp (8 * (32 - 2 * j))) \<and>
    (\<forall>n < 32. 32 - 2 * j \<le> n \<longrightarrow> load64 m' (fld sp (8 * n)) = frame_word x n) \<and> same_outside (region sp 256) m m'"
  using assms
proof (induction j)
  case 0
  then show ?case by simp
next
  case (Suc j)
  then obtain m' where m': "fold (\<lambda>j (m, sp). stp m sp (x (2 * j)) (x (2 * j + 1))) [0..<j] (m, fld sp 256) = (m', fld sp (8 * (32 - 2 * j)))"
    "\<forall>n < 32. 32 - 2 * j \<le> n \<longrightarrow> load64 m' (fld sp (8 * n)) = frame_word x n" "same_outside (region sp 256) m m'"
    by auto
  define a where "a = 30 - 2 * j"
  have a: "32 - 2 * j = Suc (Suc a)" "32 - 2 * Suc j = a" "a < 31" "even a" "2 \<le> a" "30 - a = 2 * j" "32 - Suc a = 2 * j + 1"
    using Suc.prems by (auto simp: a_def)
  let ?m = "store64 (store64 m' (fld sp (8 * a)) (x (2 * j))) (fld sp (8 * Suc a)) (x (2 * j + 1))"
  have step: "stp m' (fld sp (8 * Suc (Suc a))) (x (2 * j)) (x (2 * j + 1)) = (?m, fld sp (8 * a))"
    using stp_fld [of m' sp a] by (simp only: mult.commute)
  have "load64 ?m (fld sp (8 * n)) = frame_word x n" if n: "n < 32" "a \<le> n" for n
  proof -
    have ld: "load64 ?m (fld sp (8 * n)) = (if n = Suc a then x (2 * j + 1) else if n = a then x (2 * j) else load64 m' (fld sp (8 * n)))"
      using n a(3) load_store_array [of 0 "Suc a" n _ sp] load_store_array [of 0 a n _ sp] by simp
    consider "n = a" | "n = Suc a" | "Suc (Suc a) \<le> n" using n(2) by linarith
    then show ?thesis using ld a m'(2) n(1) by cases (auto simp: frame_word_def)
  qed
  moreover have "same_outside (region sp 256) m ?m"
  proof -
    have "same_outside (region sp 256) m' (store64 m' (fld sp (8 * a)) (x (2 * j)))" by (rule store_fld_outside) (use a(3) in simp_all)
    also have "same_outside (region sp 256) (store64 m' (fld sp (8 * a)) (x (2 * j))) ?m" by (rule store_fld_outside) (use a(3) in simp_all)
    finally show ?thesis by (rule same_outside_trans [OF m'(3)])
  qed
  ultimately show ?case using m'(1) step a(1,2) by simp
qed

lemma push_registers_frame:
  obtains m' where "push_registers m (fld x30 256) x = (m', x30)" and "frame_at m' x30 x" and "same_outside (region x30 256) m m'"
proof -
  obtain m1 where m1: "fold (\<lambda>j (m, sp). stp m sp (x (2 * j)) (x (2 * j + 1))) [0..<15] (m, fld x30 256) = (m1, fld x30 16)"
    "\<forall>n < 32. 2 \<le> n \<longrightarrow> load64 m1 (fld x30 (8 * n)) = frame_word x n" "same_outside (region x30 256) m m1"
    using push_pairs [of 15 x m x30] by auto
  let ?m = "store64 (store64 m1 x30 (x 30)) (fld x30 8) 0"
  have step: "stp m1 (fld x30 16) (x 30) 0 = (?m, x30)" using stp_fld [of m1 x30 0] by simp
  have "load64 ?m (fld x30 (8 * n)) = frame_word x n" if "n < 32" for n
  proof -
    have "load64 ?m (fld x30 (8 * n)) = (if n = 1 then 0 else if n = 0 then x 30 else load64 m1 (fld x30 (8 * n)))"
      using that load_store_array [of 0 1 n _ x30] load_store_array [of 0 0 n _ x30] by simp
    then show ?thesis using m1(2) that by (auto simp: frame_word_def)
  qed
  moreover have "same_outside (region x30 256) m ?m"
  proof -
    have "same_outside (region x30 256) m1 (store64 m1 (fld x30 0) (x 30))" by (rule store_fld_outside) simp_all
    also have "same_outside (region x30 256) (store64 m1 (fld x30 0) (x 30)) (store64 (store64 m1 (fld x30 0) (x 30)) (fld x30 8) 0)"
      by (rule store_fld_outside) simp_all
    finally show ?thesis using same_outside_trans [OF m1(3)] by simp
  qed
  ultimately show thesis
    using that [of ?m] m1(1) step by (simp add: push_registers_def frame_at_def)
qed

lemma pop_registers_word:
  "i \<le> 30 \<Longrightarrow> pop_registers m x30 i = load64 m (fld x30 (8 * (if even i then 30 - i else 32 - i)))"
  by (auto simp: pop_registers_def fld_def elim!: evenE oddE) (simp_all add: algebra_simps)


lemma frame_pop:
  assumes "frame_at m x30 x" and "i \<le> 30"
  shows "pop_registers m x30 i = x i"
proof -
  let ?n = "if even i then 30 - i else 32 - i"
  have "?n < 32" using assms(2) by (auto elim: oddE)
  moreover have "?n \<noteq> 1" using assms(2) by (auto; presburger)
  then have "frame_word x ?n = x i" using assms(2) by (simp add: frame_word_def)
  ultimately show ?thesis using assms(1) unfolding pop_registers_word [OF assms(2)] frame_at_def by metis
qed

lemma frame_at_kept:
  assumes "frame_at m x30 x" and w: "same_outside X m m'" and ap: "region x30 256 \<inter> X = {}"
  shows "frame_at m' x30 x"
  unfolding frame_at_def
proof (intro allI impI)
  fix n :: nat
  assume "n < 32"
  moreover from this have "load64 m' (fld x30 (8 * n)) = load64 m (fld x30 (8 * n))" by (intro load_frame [OF w ap]) simp_all
  ultimately show "load64 m' (fld x30 (8 * n)) = frame_word x n" using assms(1) by (simp add: frame_at_def)
qed

section \<open>Saving and restoring\<close>

lemma save_loop:
  assumes "n \<le> 31" and "region x30 256 \<inter> job_fields job = {}" and "frame_at m x30 x"
  shows "job_at (fold (\<lambda>i m. set_x m job i (load64 m (fld x30 (8 * (30 - i))))) [0..<n] m) job =
      (job_at m job)\<lparr>j_x := take n (saved_x x) @ drop n (j_x (job_at m job))\<rparr> \<and>
    same_outside (job_fields job) m (fold (\<lambda>i m. set_x m job i (load64 m (fld x30 (8 * (30 - i))))) [0..<n] m)"
  using assms(1)
proof (induction n)
  case 0
  then show ?case by simp
next
  case (Suc n)
  let ?m = "fold (\<lambda>i m. set_x m job i (load64 m (fld x30 (8 * (30 - i))))) [0..<n] m"
  have IH: "job_at ?m job = (job_at m job)\<lparr>j_x := take n (saved_x x) @ drop n (j_x (job_at m job))\<rparr>"
    "same_outside (job_fields job) m ?m" using Suc by simp_all
  have "region (fld x30 (8 * (30 - n))) 8 \<subseteq> region x30 256" by (rule fld_sub) simp_all
  then have "region (fld x30 (8 * (30 - n))) 8 \<inter> job_fields job = {}" using assms(2) by blast
  then have "load64 ?m (fld x30 (8 * (30 - n))) = load64 m (fld x30 (8 * (30 - n)))"
    by (rule load_le_same_outside [OF IH(2)]) simp
  also have "\<dots> = saved_x x ! n" using assms(3) Suc.prems by (simp add: frame_at_def saved_x_def)
  finally have ld: "load64 ?m (fld x30 (8 * (30 - n))) = saved_x x ! n" .
  have len: "length (saved_x x) = 31" "n < 31" using Suc.prems by (simp_all add: saved_x_def)
  then have "(take n (saved_x x) @ drop n (j_x (job_at m job)))[n := saved_x x ! n] =
      take (Suc n) (saved_x x) @ drop (Suc n) (j_x (job_at m job))"
    by (simp add: list_update_append take_Suc_conv_app_nth flip: Cons_nth_drop_Suc)
  then show ?case
    using IH len ld same_outside_trans [OF IH(2) set_outside(7)] by simp
qed

lemma save_context_ok:
  assumes ap: "region x30 256 \<inter> job_fields job = {}" and fr: "frame_at (kmem k) x30 x"
  obtains m' where "scheduling_save_context k x30 job = k\<lparr>kmem := m'\<rparr>"
    and "job_at m' job = (job_at (kmem k) job)\<lparr>j_x := saved_x x, j_pc := ELR_EL1 (regs k), j_sp := SP_EL0 (regs k)\<rparr>"
    and "same_outside (job_fields job) (kmem k) m'"
proof -
  let ?m1 = "set_sp (set_pc (kmem k) job (ELR_EL1 (regs k))) job (SP_EL0 (regs k))"
  let ?m = "fold (\<lambda>i m. set_x m job i (load64 m (fld x30 (8 * (30 - i))))) [0..<31] ?m1"
  have w1: "same_outside (job_fields job) (kmem k) ?m1"
    using set_outside(2) set_outside(3) by (rule same_outside_trans)
  have "load64 ?m1 (fld x30 (8 * n)) = load64 (kmem k) (fld x30 (8 * n))" if "n < 32" for n
  proof (rule load_le_same_outside [OF w1])
    have "region (fld x30 (8 * n)) 8 \<subseteq> region x30 256" by (rule fld_sub) (use that in simp_all)
    then show "region (fld x30 (8 * n)) 8 \<inter> job_fields job = {}" using ap by blast
  qed simp
  then have "frame_at ?m1 x30 x" using fr by (simp add: frame_at_def)
  from save_loop [OF _ ap this, of 31] have
    "job_at ?m job = (job_at ?m1 job)\<lparr>j_x := saved_x x\<rparr>" "same_outside (job_fields job) ?m1 ?m"
    by (simp_all add: saved_x_def)
  then show thesis
    using that [of ?m] same_outside_trans [OF w1]
    by (simp add: scheduling_save_context_def job_set_programcounter_def Let_def)
qed

lemma restore_loop:
  assumes "n \<le> 31" and "region x30 256 \<inter> region job 392 = {}"
  shows "same_outside (region x30 248) m (fold (\<lambda>i m. store64 m (fld x30 (8 * (30 - i))) (get_x m job i)) [0..<n] m) \<and>
    (\<forall>i < n. load64 (fold (\<lambda>i m. store64 m (fld x30 (8 * (30 - i))) (get_x m job i)) [0..<n] m) (fld x30 (8 * (30 - i))) = get_x m job i)"
  using assms(1)
proof (induction n)
  case 0
  then show ?case by simp
next
  case (Suc n)
  let ?m = "fold (\<lambda>i m. store64 m (fld x30 (8 * (30 - i))) (get_x m job i)) [0..<n] m"
  have IH: "same_outside (region x30 248) m ?m" "\<forall>i < n. load64 ?m (fld x30 (8 * (30 - i))) = get_x m job i"
    using Suc by simp_all
  have "region x30 248 \<subseteq> region x30 256" by (rule region_mono) simp
  then have "job_at ?m job = job_at m job" using assms(2) by (intro job_at_frame [OF IH(1)]) blast
  then have gx: "get_x ?m job n = get_x m job n" using Suc.prems by (simp add: job_at_sel)
  let ?m' = "store64 ?m (fld x30 (8 * (30 - n))) (get_x ?m job n)"
  have "same_outside (region x30 248) ?m ?m'" by (rule store_fld_outside) (use Suc.prems in simp_all)
  moreover have "load64 ?m' (fld x30 (8 * (30 - i))) = get_x m job i" if "i < Suc n" for i
    using load_store_array [of 0 "30 - n" "30 - i" ?m x30] that IH(2) gx Suc.prems by (auto simp: less_Suc_eq)
  ultimately show ?case using same_outside_trans [OF IH(1)] by simp
qed

lemma restore_context_ok:
  assumes ap: "region x30 256 \<inter> region job 392 = {}"
  obtains m' where "scheduling_restore_context k x30 job =
      k\<lparr>kmem := m', regs := (regs k)\<lparr>ELR_EL1 := j_pc (job_at (kmem k) job), SP_EL0 := j_sp (job_at (kmem k) job)\<rparr>\<rparr>"
    and "same_outside (region x30 248) (kmem k) m'"
    and "\<forall>i < 31. load64 m' (fld x30 (8 * (30 - i))) = j_x (job_at (kmem k) job) ! i"
  using restore_loop [OF _ ap, of 31 "kmem k"] that
  by (auto simp: scheduling_restore_context_def Let_def job_at_sel)

lemma saved_x_word: "i \<le> 30 \<Longrightarrow> saved_x x ! i = frame_word x (30 - i)"
  by (simp add: saved_x_def)

lemma pop_restored:
  \<comment> \<open>the registers of the resumed program, and the one word the restore leaves alone\<close>
  assumes words: "\<forall>i < 31. load64 m (fld x30 (8 * (30 - i))) = saved_x x ! i" and i: "i \<le> 30"
  shows "pop_registers m x30 i = (if i = 1 then load64 m (fld x30 (8 * 31)) else x i)"
proof (cases "even i")
  case True
  have "load64 m (fld x30 (8 * (30 - i))) = saved_x x ! i" using words i by simp
  moreover have "30 - i \<noteq> 1" using True i by presburger
  ultimately show ?thesis using True i pop_registers_word [OF i] by (auto simp: saved_x_word frame_word_def)
next
  case False
  show ?thesis
  proof (cases "i = 1")
    case True
    then show ?thesis using pop_registers_word [OF i] by simp
  next
    case one: False
    then have ge: "3 \<le> i" using False by (cases i) (auto simp: numeral_3_eq_3 le_Suc_eq intro: Suc_leI)
    have "i - 2 < 31" "30 - (i - 2) = 32 - i" using ge i by simp_all
    then have "load64 m (fld x30 (8 * (32 - i))) = saved_x x ! (i - 2)" using words by metis
    moreover have "30 - (i - 2) = 32 - i" using ge i by simp
    ultimately show ?thesis
      using False one ge i pop_registers_word [OF i] by (auto simp: saved_x_word frame_word_def)
  qed
qed


section \<open>The ring during a switch\<close>

lemma jobs_heap_write:
  assumes inv: "jobs_heap k R js" and w: "same_outside A (kmem k) m'"
    and off: "A \<inter> slab_header (job_slab k) = {}" "A \<inter> region (heap_table (main_heap k)) (unat (blocks (main_heap k))) = {}"
    and same: "\<forall>j \<in> set js. get_next m' j = get_next (kmem k) j \<and> get_paging m' j = get_paging (kmem k) j"
  shows "jobs_heap (k\<lparr>kmem := m'\<rparr>) R js"
proof -
  note inv' = jobs_heapD [OF inv]
  have live: "slab_live m' (job_slab k) = slab_live (kmem k) (job_slab k)"
    using slab_pool.live_frame [OF jobs_okD(1) [OF inv'(1)] w] off(1) by blast
  have "get_next m' a = get_next (kmem k) a" if "a \<in> set js" for a using same that by blast
  then have "job_path m' p js q = job_path (kmem k) p js q" for p q by (rule job_path_frame)
  then have "jobs_ok m' (job_slab k) (current_job k) js" using inv'(1) live by (simp add: jobs_ok_def)
  moreover have "heap_ok m' (main_heap k) R" by (rule heap_ok_frame [OF inv'(2) w off(2)])
  moreover have "inj_on (get_paging m') (set js)" using inv'(7) same by (auto simp: inj_on_def)
  ultimately show ?thesis using inv' same by (auto simp: jobs_heap_def)
qed

lemma job_in_ring:
  assumes "jobs_heap k R js" and "j \<in> set js"
  shows "region j 392 \<subseteq> ring_bytes k" "region j 392 \<inter> slab_header (job_slab k) = {}"
    "region j 392 \<inter> region (heap_table (main_heap k)) (unat (blocks (main_heap k))) = {}"
    "i \<in> set js \<Longrightarrow> i \<noteq> j \<Longrightarrow> region i 392 \<inter> region j 392 = {}"
proof -
  note inv' = jobs_heapD [OF assms(1)]
  note slot = job_slot [OF inv'(1) assms(2)]
  have sub: "region j 392 \<subseteq> pool_bytes (job_slab k)" by (rule pool_bytes_object(1) [OF slot jobs_okD(2) [OF inv'(1)]])
  then show "region j 392 \<subseteq> ring_bytes k" by (auto simp: ring_bytes_def simp del: in_region)
  show "region j 392 \<inter> slab_header (job_slab k) = {}" by (rule job_off_header [OF inv'(1) slot])
  show "region j 392 \<inter> region (heap_table (main_heap k)) (unat (blocks (main_heap k))) = {}" using sub inv'(4) by blast
  show "region i 392 \<inter> region j 392 = {}" if "i \<in> set js" "i \<noteq> j"
    by (rule job_objects_apart [OF inv'(1) job_slot [OF inv'(1) that(1)] slot that(2)])
qed

lemma jobs_heap_off:
  \<comment> \<open>a write elsewhere\<close>
  assumes inv: "jobs_heap k R js" and w: "same_outside X (kmem k) m" and ap: "X \<inter> ring_bytes k = {}"
  shows "\<forall>j \<in> set js. job_at m j = job_at (kmem k) j" and "jobs_heap (k\<lparr>kmem := m\<rparr>) R js"
proof -
  show at: "\<forall>j \<in> set js. job_at m j = job_at (kmem k) j"
    using job_at_frame [OF w] job_in_ring(1) [OF inv] ap by blast
  have "slab_header (job_slab k) \<subseteq> ring_bytes k" by (auto simp: ring_bytes_def pool_bytes_def simp del: in_region)
  then show "jobs_heap (k\<lparr>kmem := m\<rparr>) R js"
    using ap at by (intro jobs_heap_write [OF inv w]) (auto simp: ring_bytes_def job_at_sel simp del: in_region)
qed

lemma save_context_ring:
  assumes inv: "jobs_heap k R js" and c: "c \<in> set js" and ap: "region x30 256 \<inter> ring_bytes k = {}"
    and fr: "frame_at (kmem k) x30 x"
  obtains m' where "scheduling_save_context k x30 c = k\<lparr>kmem := m'\<rparr>" and "jobs_heap (k\<lparr>kmem := m'\<rparr>) R js"
    and "job_at m' c = (job_at (kmem k) c)\<lparr>j_x := saved_x x, j_pc := ELR_EL1 (regs k), j_sp := SP_EL0 (regs k)\<rparr>"
    and "\<forall>j \<in> set js. j \<noteq> c \<longrightarrow> job_at m' j = job_at (kmem k) j"
    and "same_outside (ring_bytes k) (kmem k) m'"
proof -
  note ring = job_in_ring [OF inv c]
  have "region x30 256 \<inter> job_fields c = {}" using ap ring(1) job_fields_sub [of c] by blast
  then obtain m' where m': "scheduling_save_context k x30 c = k\<lparr>kmem := m'\<rparr>"
    "job_at m' c = (job_at (kmem k) c)\<lparr>j_x := saved_x x, j_pc := ELR_EL1 (regs k), j_sp := SP_EL0 (regs k)\<rparr>"
    "same_outside (job_fields c) (kmem k) m'" using fr by (rule save_context_ok)
  have w: "same_outside (region c 392) (kmem k) m'" by (rule same_outside_mono [OF m'(3) job_fields_sub])
  have others: "\<forall>j \<in> set js. j \<noteq> c \<longrightarrow> job_at m' j = job_at (kmem k) j"
    using job_at_frame [OF w] ring(4) by blast
  have "\<forall>j \<in> set js. get_next m' j = get_next (kmem k) j \<and> get_paging m' j = get_paging (kmem k) j"
  proof
    fix j
    assume j: "j \<in> set js"
    show "get_next m' j = get_next (kmem k) j \<and> get_paging m' j = get_paging (kmem k) j"
    proof (cases "j = c")
      case True
      then show ?thesis using m'(2) by (simp add: job_at_sel)
    next
      case False
      then show ?thesis using others j by (simp add: job_at_sel)
    qed
  qed
  then have "jobs_heap (k\<lparr>kmem := m'\<rparr>) R js" by (rule jobs_heap_write [OF inv w ring(2,3)])
  then show thesis by (rule that [OF m'(1) _ m'(2) others same_outside_mono [OF w ring(1)]])
qed

lemma restore_context_ring:
  assumes inv: "jobs_heap k R js" and r: "r \<in> set js" and ap: "region x30 256 \<inter> ring_bytes k = {}"
  obtains m' where "scheduling_restore_context k x30 r =
      k\<lparr>kmem := m', regs := (regs k)\<lparr>ELR_EL1 := j_pc (job_at (kmem k) r), SP_EL0 := j_sp (job_at (kmem k) r)\<rparr>\<rparr>"
    and "jobs_heap (k\<lparr>kmem := m'\<rparr>) R js" and "\<forall>j \<in> set js. job_at m' j = job_at (kmem k) j"
    and "same_outside (region x30 248) (kmem k) m'"
    and "\<forall>i < 31. load64 m' (fld x30 (8 * (30 - i))) = j_x (job_at (kmem k) r) ! i"
proof -
  have "region x30 256 \<inter> region r 392 = {}" using ap job_in_ring(1) [OF inv r] by blast
  then obtain m' where m': "scheduling_restore_context k x30 r =
      k\<lparr>kmem := m', regs := (regs k)\<lparr>ELR_EL1 := j_pc (job_at (kmem k) r), SP_EL0 := j_sp (job_at (kmem k) r)\<rparr>\<rparr>"
    "same_outside (region x30 248) (kmem k) m'"
    "\<forall>i < 31. load64 m' (fld x30 (8 * (30 - i))) = j_x (job_at (kmem k) r) ! i" by (rule restore_context_ok)
  have "region x30 248 \<subseteq> region x30 256" by (rule region_mono) simp
  then have ap': "region x30 248 \<inter> ring_bytes k = {}" using ap by blast
  note off = jobs_heap_off [OF inv m'(2) ap']
  show thesis by (rule that [OF m'(1) off(2,1) m'(2,3)])
qed


section \<open>Properties\<close>

lemma kmem_upd: "kmem (k\<lparr>kmem := m\<rparr>) = m"
  by simp

lemma ring_bytes_upd [simp]: "ring_bytes (k\<lparr>kmem := m\<rparr>) = ring_bytes k"
  by (simp add: ring_bytes_def)

lemma frame_word_31: "frame_at m x30 x \<Longrightarrow> load64 m (fld x30 (8 * 31)) = x 1"
  unfolding frame_at_def by (drule spec [of _ 31]) (simp add: frame_word_def)

lemma apply_paging_eq:
  "kmem (fst (apply_paging k p)) = kmem k" "ELR_EL1 (regs (fst (apply_paging k p))) = ELR_EL1 (regs k)"
  "SP_EL0 (regs (fst (apply_paging k p))) = SP_EL0 (regs k)" "TTBR0_EL1 (regs (fst (apply_paging k p))) = load64 (kmem k) p"
  "current_job (fst (apply_paging k p)) = current_job k" "jobs_heap (fst (apply_paging k p)) R js = jobs_heap k R js"
  by (simp_all add: apply_paging_def paging_manager_apply_def paging_set_ttbr0_def paging_set_tcr_def
      paging_enable_def tlbi_vmalle1_def pm_at_def jobs_heap_def Let_def)

lemma jobs_heap_regs: "jobs_heap (k\<lparr>kmem := m, regs := r\<rparr>) R js = jobs_heap (k\<lparr>kmem := m\<rparr>) R js"
  by (simp add: jobs_heap_def)

text \<open>
  C1. The timer interrupt switches processes: when the current job is interrupted with registers \<open>xa\<close>, and the
  next RUNNING job \<open>r\<close> was interrupted earlier with registers \<open>xb\<close>, \<open>internal_handler\<close> returns, \<open>r\<close> is current, its
  page table, program counter and stack pointer are installed, its registers are popped when
  the handler returns, the interrupted job keeps its own for its next turn, and the ring stays
  well formed. One register is lost: \<open>r\<close> resumes with the \<open>x1\<close> of the interrupted job, since the
  word that holds it is the one word of the frame that is neither saved nor restored.
\<close>
theorem timer_switches_context:
  assumes inv: "jobs_heap (kern s) R (c # rest)" and ring: "rest @ [c] = before @ r # after"
    and st: "\<forall>j \<in> set before. get_status (kmem (kern s)) j \<noteq> RUNNING" "get_status (kmem (kern s)) r = RUNNING" "r \<noteq> c"
    and ap: "region (exceptions_context_switch_x30 s) 256 \<inter> ring_bytes (kern s) = {}"
    and fr: "frame_at (kmem (kern s)) (exceptions_context_switch_x30 s) xa"
    and xb: "j_x (job_at (kmem (kern s)) r) = saved_x xb"
  shows "\<exists>s' R' js. internal_handler s = Some s' \<and> jobs_heap (kern s') R' (r # js) \<and> current_job (kern s') = r \<and>
    (\<forall>i \<le> 30. pop_registers (kmem (kern s')) (exceptions_context_switch_x30 s') i = (if i = 1 then xa 1 else xb i)) \<and>
    ELR_EL1 (regs (kern s')) = get_pc (kmem (kern s)) r \<and> SP_EL0 (regs (kern s')) = get_sp (kmem (kern s)) r \<and>
    TTBR0_EL1 (regs (kern s')) = load64 (kmem (kern s')) (get_paging (kmem (kern s)) r) \<and>
    CNTP_TVAL_EL0 (tim s') = ucast (timer_getfrequency (tim s)) \<and>
    c \<in> set js \<and> j_x (job_at (kmem (kern s')) c) = saved_x xa \<and>
    get_pc (kmem (kern s')) c = ELR_EL1 (regs (kern s)) \<and> get_sp (kmem (kern s')) c = SP_EL0 (regs (kern s))"
proof -
  let ?k = "kern s" and ?x = "exceptions_context_switch_x30 s"
  have cur: "current_job ?k = c" by (rule jobs_heap_current [OF inv])
  have mem: "c \<in> set (c # rest)" "set before \<subseteq> set (c # rest)" "r \<in> set (c # rest)" "c \<in> set after"
  proof -
    have "set (rest @ [c]) = set (before @ r # after)" by (simp only: ring)
    then show "set before \<subseteq> set (c # rest)" "r \<in> set (c # rest)" by auto
    have "last (before @ r # after) = c" by (simp flip: ring)
    then show "c \<in> set after" using st(3) by (cases after rule: rev_cases) auto
  qed simp
  obtain m1 where m1: "scheduling_save_context ?k ?x c = ?k\<lparr>kmem := m1\<rparr>" "jobs_heap (?k\<lparr>kmem := m1\<rparr>) R (c # rest)"
    "job_at m1 c = (job_at (kmem ?k) c)\<lparr>j_x := saved_x xa, j_pc := ELR_EL1 (regs ?k), j_sp := SP_EL0 (regs ?k)\<rparr>"
    "\<forall>j \<in> set (c # rest). j \<noteq> c \<longrightarrow> job_at m1 j = job_at (kmem ?k) j" "same_outside (ring_bytes ?k) (kmem ?k) m1"
    using inv mem(1) ap fr by (rule save_context_ring)
  have stat: "get_status m1 j = get_status (kmem ?k) j" if "j \<in> set (c # rest)" for j
    using m1(3,4) that by (cases "j = c") (simp_all add: job_at_sel)
  have bef: "\<forall>j \<in> set before. get_status (kmem (?k\<lparr>kmem := m1\<rparr>)) j \<noteq> RUNNING"
    "get_status (kmem (?k\<lparr>kmem := m1\<rparr>)) r = RUNNING" using st stat mem by (auto simp: subset_iff)
  let ?js = "after @ filter (\<lambda>j. get_status m1 j \<noteq> TERMINATED) before"
  obtain k2 R2 where k2: "job_forward (?k\<lparr>kmem := m1\<rparr>) = Some k2" "current_job k2 = r" "jobs_heap k2 R2 (r # ?js)"
    "\<forall>j \<in> set (r # ?js). same_job m1 (kmem k2) j"
    "k2 = (?k\<lparr>kmem := m1\<rparr>)\<lparr>kmem := kmem k2, main_heap := main_heap k2, current_job := current_job k2\<rparr>"
    "same_outside (ring_bytes ?k) m1 (kmem k2)" "ring_bytes k2 = ring_bytes ?k"
    using job_forward_eq [OF m1(2) ring bef] unfolding kmem_upd ring_bytes_upd by blast
  have regs2: "regs k2 = regs ?k" by (subst k2(5)) simp
  have ap2: "region ?x 256 \<inter> ring_bytes k2 = {}" using ap k2(7) by simp
  have rin: "r \<in> set (r # ?js)" by simp
  obtain m3 where m3: "scheduling_restore_context k2 ?x r =
      k2\<lparr>kmem := m3, regs := (regs k2)\<lparr>ELR_EL1 := j_pc (job_at (kmem k2) r), SP_EL0 := j_sp (job_at (kmem k2) r)\<rparr>\<rparr>"
    "jobs_heap (k2\<lparr>kmem := m3\<rparr>) R2 (r # ?js)" "\<forall>j \<in> set (r # ?js). job_at m3 j = job_at (kmem k2) j"
    "same_outside (region ?x 248) (kmem k2) m3"
    "\<forall>i < 31. load64 m3 (fld ?x (8 * (30 - i))) = j_x (job_at (kmem k2) r) ! i"
    using k2(3) rin ap2 by (rule restore_context_ring)
  let ?k3 = "k2\<lparr>kmem := m3, regs := (regs k2)\<lparr>ELR_EL1 := j_pc (job_at (kmem k2) r), SP_EL0 := j_sp (job_at (kmem k2) r)\<rparr>\<rparr>"
  let ?k4 = "fst (apply_paging ?k3 (get_paging m3 r))"
  let ?s = "s\<lparr>tim := timer_write_tval (tim s) (timer_getfrequency (tim s)), kern := ?k4\<rparr>"
  have run: "internal_handler s = Some ?s"
    using m1(1) k2(1,2) m3(1) cur by (simp add: internal_handler_def job_get_current_def Let_def split_def)
  have in_js: "c \<in> set (r # ?js)" "r \<in> set (r # ?js)" using mem(4) by auto
  note same_r = same_job_sel [OF bspec [OF k2(4) in_js(2)]] and same_c = same_job_sel [OF bspec [OF k2(4) in_js(1)]]
  have r1: "job_at m1 r = job_at (kmem ?k) r" using m1(4) mem(3) st(3) by blast
  have "\<forall>i < 31. load64 m3 (fld ?x (8 * (30 - i))) = saved_x xb ! i" using m3(5) same_r(2) r1 xb by simp
  note pop = pop_restored [OF this]
  have "region (fld ?x (8 * 31)) 8 \<subseteq> region ?x 256" by (rule fld_sub) simp_all
  then have off: "region (fld ?x (8 * 31)) 8 \<inter> ring_bytes ?k = {}" using ap by blast
  have "region (fld ?x (8 * 31)) 8 \<inter> region (fld ?x 0) 248 = {}" by (rule fld_apart) simp_all
  then have "load64 m3 (fld ?x (8 * 31)) = load64 (kmem k2) (fld ?x (8 * 31))"
    by (intro load_le_same_outside [OF m3(4)]) simp_all
  also have "\<dots> = load64 m1 (fld ?x (8 * 31))" by (rule load_le_same_outside [OF k2(6) off]) simp
  also have "\<dots> = load64 (kmem ?k) (fld ?x (8 * 31))" by (rule load_le_same_outside [OF m1(5) off]) simp
  finally have w31: "load64 m3 (fld ?x (8 * 31)) = xa 1" using frame_word_31 [OF fr] by simp
  have "jobs_heap ?k4 R2 (r # ?js)" unfolding apply_paging_eq(6) jobs_heap_regs by (rule m3(2))
  then have k4: "kmem ?k4 = m3" "current_job ?k4 = r" "jobs_heap ?k4 R2 (r # ?js)"
    using k2(2) by (simp_all add: apply_paging_eq)
  have at: "job_at m3 r = job_at (kmem k2) r" "job_at m3 c = job_at (kmem k2) c" using m3(3) in_js by blast+
  have "\<forall>i \<le> 30. pop_registers (kmem (kern ?s)) (exceptions_context_switch_x30 ?s) i = (if i = 1 then xa 1 else xb i)"
    using pop w31 k4(1) by simp
  moreover have "ELR_EL1 (regs (kern ?s)) = get_pc (kmem ?k) r" "SP_EL0 (regs (kern ?s)) = get_sp (kmem ?k) r"
    using same_r(3,4) r1 by (simp_all add: apply_paging_eq job_at_sel)
  moreover have "TTBR0_EL1 (regs (kern ?s)) = load64 (kmem (kern ?s)) (get_paging (kmem ?k) r)"
    using same_r(5) r1 at(1) by (simp add: apply_paging_eq job_at_sel)
  moreover have "j_x (job_at (kmem (kern ?s)) c) = saved_x xa \<and> get_pc (kmem (kern ?s)) c = ELR_EL1 (regs ?k) \<and>
      get_sp (kmem (kern ?s)) c = SP_EL0 (regs ?k)"
    using same_c at(2) m1(3) k4(1) by (simp add: job_at_sel)
  moreover have "CNTP_TVAL_EL0 (tim ?s) = ucast (timer_getfrequency (tim s))" by (simp add: timer_write_tval_def)
  moreover have "jobs_heap (kern ?s) R2 (r # ?js)" "current_job (kern ?s) = r" using k4 by simp_all
  moreover have "c \<in> set ?js" using mem(4) by simp
  ultimately show ?thesis using run by blast
qed


theorem timer_switches_context_witness:
  "\<exists>s s' a b. current_job (kern s) = a \<and> frame_at (kmem (kern s)) 0x41000000 (\<lambda>i. of_nat i + 100) \<and>
    internal_handler s = Some s' \<and> current_job (kern s') = b \<and>
    (\<forall>i \<le> 30. pop_registers (kmem (kern s')) 0x41000000 i = (if i = 1 then 101 else 0))"
proof -
  obtain k a b where k: "jobs_heap k job_example_runs [a, b]" "job_slab k = job_example_slab"
    "get_status (kmem k) a = RUNNING" "get_status (kmem k) b = RUNNING" "files_ok (job_at (kmem k) b) [] 0"
    "j_x (job_at (kmem k) b) = replicate 31 0" "main_heap k = main_heap job_example"
    by (rule two_jobs)
  let ?x = "0x41000000 :: addr" and ?r = "\<lambda>i. of_nat i + 100 :: u64"
  have cur: "current_job k = a" "a \<noteq> b"
    using jobs_heap_current [OF k(1)] jobs_okD(4) [OF jobs_heapD(1) [OF k(1)]] by auto
  have "pool_bytes job_example_slab \<subseteq> region 0x40200000 1960"
    using pool_bytes_zone [OF job_example_slots(2), of 1960] by (simp add: slab_zone_bytes_def)
  moreover have "region ?x 256 \<inter> region 0x40200000 1960 = {}" "region ?x 256 \<inter> region 0x1000 8 = {}"
    by (rule regions_apart; simp)+
  ultimately have ap: "region ?x 256 \<inter> ring_bytes k = {}"
    using k(2,7) by (auto simp: ring_bytes_def simp del: in_region)
  obtain m' where m': "push_registers (kmem k) (fld ?x 256) ?r = (m', ?x)" "frame_at m' ?x ?r"
    "same_outside (region ?x 256) (kmem k) m'" by (rule push_registers_frame)
  let ?k = "k\<lparr>kmem := m'\<rparr>"
  let ?s = "\<lparr>kern = ?k, intc = example_gic, tim = example_timer, console = [], exceptions_context_switch_x30 = ?x\<rparr>"
  note off = jobs_heap_off [OF k(1) m'(3) ap]
  have at: "job_at m' b = job_at (kmem k) b" using off(1) by simp
  have "jobs_heap ?k job_example_runs [a, b]" by (rule off(2))
  moreover have "get_status m' b = RUNNING" using at k(4) by (simp add: job_at_sel)
  moreover have "saved_x (\<lambda>_. 0) = replicate 31 (0 :: u64)" by (intro nth_equalityI) (simp_all add: saved_x_def frame_word_def)
  moreover have "j_x (job_at m' b) = replicate 31 0" using at k(6) by simp
  ultimately obtain s' where "internal_handler ?s = Some s'" "current_job (kern s') = b"
    "\<forall>i \<le> 30. pop_registers (kmem (kern s')) (exceptions_context_switch_x30 s') i = (if i = 1 then ?r 1 else 0)"
    using timer_switches_context [of ?s job_example_runs a "[b]" "[]" b "[a]" ?r "\<lambda>_. 0"] ap m'(2) cur by auto
  moreover from this(1) have "exceptions_context_switch_x30 s' = ?x" by (auto simp: internal_handler_def Let_def split_def split: bind_splits)
  ultimately show ?thesis using cur(1) m'(2) by (intro exI [of _ ?s] exI [of _ s']) auto
qed

end
