(* ===== verification/Virtio.thy ===== *)
theory Virtio
  imports Sched
begin

text \<open>
  The disk: \<open>kernel/device/virtioblk.c\<close> and the block layer \<open>kernel/device/block.c\<close>. The virtio device is
  hardware, so it is a parameter: what it answers when a register is read, how its state and
  the memory change when a register is written and when time passes, and when the disk and the timer raise their
  interrupt lines. While the driver waits for a request the processor may take a fast interrupt, which
  goes through \<open>currentelx_fiq\<close> of \<open>kernel/exceptions.asm\<close> and \<open>exceptions_handle_fiq\<close> of
  \<open>kernel/exceptions/exceptions.c\<close>. The queue structures are in the byte memory at the offsets of the packed
  structures.
\<close>

section \<open>Definitions\<close>

record 'd virtio_device =
  reg_read :: "'d \<Rightarrow> addr \<Rightarrow> u32"
  reg_wr :: "'d \<Rightarrow> mem \<Rightarrow> addr \<Rightarrow> u32 \<Rightarrow> 'd \<times> mem"
  dev_step :: "'d \<Rightarrow> mem \<Rightarrow> 'd \<times> mem"
  disk_line :: "'d \<Rightarrow> bool"
  timer_line :: "'d \<Rightarrow> timer \<Rightarrow> bool"

text \<open>
  \<open>dev_step\<close> is what the hardware does while the processor is in one round of a waiting loop, \<open>disk_line\<close> and
  \<open>timer_line\<close> are the lines of interrupt 79 and of the timer's interrupt 30 at the interrupt controller.
\<close>

record wait_frame =
  \<comment> \<open>where an interrupt finds the processor in the waiting loop: program counter, processor state, stack pointer and
    registers; the text for an interrupt without handler\<close>
  wait_pc :: u64
  wait_pstate :: u64
  wait_sp :: addr
  wait_x :: "nat \<Rightarrow> u64"
  lit_unhandled :: addr

abbreviation (input) VIRTIO_DISK_BASE_ADDRESS :: u64 where "VIRTIO_DISK_BASE_ADDRESS \<equiv> 0xa000000"
abbreviation (input) VIRTIO_DISK_SIZE :: int where "VIRTIO_DISK_SIZE \<equiv> 0x200"
abbreviation (input) VIRTIO_DISK_MAGIC_VALUE :: u32 where "VIRTIO_DISK_MAGIC_VALUE \<equiv> 0x74726976"
abbreviation (input) QUEUE_SIZE :: nat where "QUEUE_SIZE \<equiv> 1024"
abbreviation (input) VIRTIO_MAGIC_OFFSET :: int where "VIRTIO_MAGIC_OFFSET \<equiv> 0x0"
abbreviation (input) VIRTIO_VERSION_OFFSET :: int where "VIRTIO_VERSION_OFFSET \<equiv> 0x4"
abbreviation (input) VIRTIO_DEVICEID_OFFSET :: int where "VIRTIO_DEVICEID_OFFSET \<equiv> 0x8"
abbreviation (input) VIRTIO_DEV_FEATURES_OFFSET :: int where "VIRTIO_DEV_FEATURES_OFFSET \<equiv> 0x10"
abbreviation (input) VIRTIO_DEV_FEATURESSELECT_OFFSET :: int where "VIRTIO_DEV_FEATURESSELECT_OFFSET \<equiv> 0x14"
abbreviation (input) VIRTIO_QUEUE_INDEX_OFFSET :: int where "VIRTIO_QUEUE_INDEX_OFFSET \<equiv> 0x30"
abbreviation (input) VIRTIO_QUEUE_SIZE_OFFSET :: int where "VIRTIO_QUEUE_SIZE_OFFSET \<equiv> 0x38"
abbreviation (input) VIRTIO_QUEUE_READY_OFFSET :: int where "VIRTIO_QUEUE_READY_OFFSET \<equiv> 0x44"
abbreviation (input) VIRTIO_QUEUE_NOTIFY_OFFSET :: int where "VIRTIO_QUEUE_NOTIFY_OFFSET \<equiv> 0x50"
abbreviation (input) VIRTIO_INTERRUPT_STATUS_OFFSET :: int where "VIRTIO_INTERRUPT_STATUS_OFFSET \<equiv> 0x60"
abbreviation (input) VIRTIO_INTERRUPT_ACK_OFFSET :: int where "VIRTIO_INTERRUPT_ACK_OFFSET \<equiv> 0x64"
abbreviation (input) VIRTIO_DEVICE_STATUS_OFFSET :: int where "VIRTIO_DEVICE_STATUS_OFFSET \<equiv> 0x70"
abbreviation (input) VIRTIO_QUEUE_DESCRIPTOR_LOW_OFFSET :: int where "VIRTIO_QUEUE_DESCRIPTOR_LOW_OFFSET \<equiv> 0x80"
abbreviation (input) VIRTIO_QUEUE_DESCRIPTOR_HIGH_OFFSET :: int where "VIRTIO_QUEUE_DESCRIPTOR_HIGH_OFFSET \<equiv> 0x84"
abbreviation (input) VIRTIO_QUEUE_AVAILABLE_LOW_OFFSET :: int where "VIRTIO_QUEUE_AVAILABLE_LOW_OFFSET \<equiv> 0x90"
abbreviation (input) VIRTIO_QUEUE_AVAILABLE_HIGH_OFFSET :: int where "VIRTIO_QUEUE_AVAILABLE_HIGH_OFFSET \<equiv> 0x94"
abbreviation (input) VIRTIO_QUEUE_USED_LOW_OFFSET :: int where "VIRTIO_QUEUE_USED_LOW_OFFSET \<equiv> 0xa0"
abbreviation (input) VIRTIO_QUEUE_USED_HIGH_OFFSET :: int where "VIRTIO_QUEUE_USED_HIGH_OFFSET \<equiv> 0xa4"
abbreviation (input) VIRTIO_STATUS_ACK :: u32 where "VIRTIO_STATUS_ACK \<equiv> 1"
abbreviation (input) VIRTIO_STATUS_DRIVER :: u32 where "VIRTIO_STATUS_DRIVER \<equiv> 2"
abbreviation (input) VIRTIO_STATUS_FEATURES_OK :: u32 where "VIRTIO_STATUS_FEATURES_OK \<equiv> 8"
abbreviation (input) VIRTIO_STATUS_DRIVER_OK :: u32 where "VIRTIO_STATUS_DRIVER_OK \<equiv> 4"
abbreviation (input) VIRTQ_DESC_F_NEXT :: u16 where "VIRTQ_DESC_F_NEXT \<equiv> 1"
abbreviation (input) VIRTQ_DESC_F_WRITE :: u16 where "VIRTQ_DESC_F_WRITE \<equiv> 2"

abbreviation store16 :: "mem \<Rightarrow> addr \<Rightarrow> u16 \<Rightarrow> mem" where
  "store16 \<equiv> store_le 2"

subsection \<open>The structures\<close>

definition disk_mmio :: "mem \<Rightarrow> addr \<Rightarrow> addr" where "disk_mmio m disk = load64 m (fld disk 0)"

definition disk_descriptors :: "mem \<Rightarrow> addr \<Rightarrow> addr" where "disk_descriptors m disk = load64 m (fld disk 8)"

definition disk_avail :: "mem \<Rightarrow> addr \<Rightarrow> addr" where "disk_avail m disk = load64 m (fld disk 16)"

definition disk_used :: "mem \<Rightarrow> addr \<Rightarrow> addr" where "disk_used m disk = load64 m (fld disk 24)"

definition set_desc_addr :: "mem \<Rightarrow> addr \<Rightarrow> nat \<Rightarrow> u64 \<Rightarrow> mem" where
  "set_desc_addr m d i v = store64 m (fld d (16 * i)) v"

definition set_desc_len :: "mem \<Rightarrow> addr \<Rightarrow> nat \<Rightarrow> u32 \<Rightarrow> mem" where
  "set_desc_len m d i v = store32 m (fld d (16 * i + 8)) v"

definition set_desc_flags :: "mem \<Rightarrow> addr \<Rightarrow> nat \<Rightarrow> u16 \<Rightarrow> mem" where
  "set_desc_flags m d i v = store16 m (fld d (16 * i + 12)) v"

definition set_desc_next :: "mem \<Rightarrow> addr \<Rightarrow> nat \<Rightarrow> u16 \<Rightarrow> mem" where
  "set_desc_next m d i v = store16 m (fld d (16 * i + 14)) v"

definition set_avail_flags :: "mem \<Rightarrow> addr \<Rightarrow> u16 \<Rightarrow> mem" where "set_avail_flags m a v = store16 m (fld a 0) v"

definition get_avail_idx :: "mem \<Rightarrow> addr \<Rightarrow> u16" where "get_avail_idx m a = load16 m (fld a 2)"

definition set_avail_idx :: "mem \<Rightarrow> addr \<Rightarrow> u16 \<Rightarrow> mem" where "set_avail_idx m a v = store16 m (fld a 2) v"

definition set_avail_ring :: "mem \<Rightarrow> addr \<Rightarrow> nat \<Rightarrow> u16 \<Rightarrow> mem" where
  "set_avail_ring m a i v = store16 m (fld a (4 + 2 * i)) v"

definition set_req_type :: "mem \<Rightarrow> addr \<Rightarrow> u32 \<Rightarrow> mem" where "set_req_type m r v = store32 m (fld r 0) v"

definition set_req_sector :: "mem \<Rightarrow> addr \<Rightarrow> u64 \<Rightarrow> mem" where "set_req_sector m r v = store64 m (fld r 8) v"

definition set_sync_disk :: "mem \<Rightarrow> addr \<Rightarrow> addr \<Rightarrow> mem" where "set_sync_disk m p v = store64 m (fld p 0) v"

definition get_sync_disk :: "mem \<Rightarrow> addr \<Rightarrow> addr" where "get_sync_disk m p = load64 m (fld p 0)"

definition set_sync_done :: "mem \<Rightarrow> addr \<Rightarrow> u8 \<Rightarrow> mem" where "set_sync_done m p v = m(fld p 8 := v)"

definition get_sync_done :: "mem \<Rightarrow> addr \<Rightarrow> u8" where "get_sync_done m p = m (fld p 8)"

subsection \<open>The driver\<close>

definition disk_read_reg :: "'d virtio_device \<Rightarrow> 'd \<Rightarrow> mem \<Rightarrow> addr \<Rightarrow> int \<Rightarrow> u32" where
  "disk_read_reg dv d m disk offset = reg_read dv d (disk_mmio m disk + of_int offset)"

definition disk_set_reg :: "'d virtio_device \<Rightarrow> addr \<Rightarrow> int \<Rightarrow> u32 \<Rightarrow> 'd \<times> mem \<Rightarrow> 'd \<times> mem" where
  "disk_set_reg dv disk offset v = (\<lambda>(d, m). reg_wr dv d m (disk_mmio m disk + of_int offset) v)"

definition disk_check_magic :: "'d virtio_device \<Rightarrow> 'd \<Rightarrow> mem \<Rightarrow> addr \<Rightarrow> bool" where
  "disk_check_magic dv d m disk = (disk_read_reg dv d m disk VIRTIO_MAGIC_OFFSET = VIRTIO_DISK_MAGIC_VALUE)"

definition disk_get_version :: "'d virtio_device \<Rightarrow> 'd \<Rightarrow> mem \<Rightarrow> addr \<Rightarrow> int" where
  "disk_get_version dv d m disk = sint (disk_read_reg dv d m disk VIRTIO_VERSION_OFFSET)"

definition disk_get_device_id :: "'d virtio_device \<Rightarrow> 'd \<Rightarrow> mem \<Rightarrow> addr \<Rightarrow> int" where
  "disk_get_device_id dv d m disk = sint (disk_read_reg dv d m disk VIRTIO_DEVICEID_OFFSET)"

definition disk_init :: "'d virtio_device \<Rightarrow> 'd \<Rightarrow> kernel \<Rightarrow> addr \<Rightarrow> int \<Rightarrow> ('d \<times> kernel \<times> int) option" where
  "disk_init dv d k disk offset = do {
     let set = disk_set_reg dv disk;
     position \<leftarrow> int_res (offset * VIRTIO_DISK_SIZE);
     let m = store64 (kmem k) (fld disk 0) (VIRTIO_DISK_BASE_ADDRESS + of_int position);
     if \<not> disk_check_magic dv d m disk then Some (d, k\<lparr>kmem := m\<rparr>, - 1)
     else if disk_get_version dv d m disk \<noteq> 2 then Some (d, k\<lparr>kmem := m\<rparr>, - 2)
     else if disk_get_device_id dv d m disk = 0 then Some (d, k\<lparr>kmem := m\<rparr>, - 3)
     else do {
       let (d, m) = set VIRTIO_DEVICE_STATUS_OFFSET 0 (d, m);
       let (d, m) = set VIRTIO_DEVICE_STATUS_OFFSET VIRTIO_STATUS_ACK (d, m);
       let (d, m) = set VIRTIO_DEVICE_STATUS_OFFSET VIRTIO_STATUS_DRIVER (d, m);
       let feat = disk_read_reg dv d m disk VIRTIO_DEV_FEATURES_OFFSET;
       let (d, m) = set VIRTIO_DEV_FEATURESSELECT_OFFSET feat (d, m);
       let (d, m) = set VIRTIO_DEVICE_STATUS_OFFSET VIRTIO_STATUS_FEATURES_OK (d, m);
       if disk_read_reg dv d m disk VIRTIO_DEVICE_STATUS_OFFSET \<noteq> VIRTIO_STATUS_FEATURES_OK
       then Some (d, k\<lparr>kmem := m\<rparr>, - 4)
       else do {
         let (d, m) = set VIRTIO_QUEUE_INDEX_OFFSET 0 (d, m);
         if disk_read_reg dv d m disk VIRTIO_QUEUE_READY_OFFSET \<noteq> 0 then Some (d, k\<lparr>kmem := m\<rparr>, - 5)
         else do {
           let queue_size = int QUEUE_SIZE;
           let (d, m) = set VIRTIO_QUEUE_SIZE_OFFSET (of_int queue_size) (d, m);
           (m, h, p) \<leftarrow> kalloc m (main_heap k) (16 * of_int queue_size);
           let m = store64 m (fld disk 8) p;
           (m, h, p) \<leftarrow> kalloc m h 2054;
           let m = store64 m (fld disk 16) p;
           (m, h, p) \<leftarrow> kalloc m h 8198;
           let m = store64 m (fld disk 24) p;
           let (d, m) = set VIRTIO_QUEUE_DESCRIPTOR_LOW_OFFSET (ucast (disk_descriptors m disk)) (d, m);
           let (d, m) = set VIRTIO_QUEUE_DESCRIPTOR_HIGH_OFFSET 0 (d, m);
           let (d, m) = set VIRTIO_QUEUE_AVAILABLE_LOW_OFFSET (ucast (disk_avail m disk)) (d, m);
           let (d, m) = set VIRTIO_QUEUE_AVAILABLE_HIGH_OFFSET 0 (d, m);
           let (d, m) = set VIRTIO_QUEUE_USED_LOW_OFFSET (ucast (disk_used m disk)) (d, m);
           let (d, m) = set VIRTIO_QUEUE_USED_HIGH_OFFSET 0 (d, m);
           let (d, m) = set VIRTIO_QUEUE_READY_OFFSET 1 (d, m);
           let (d, m) = set VIRTIO_DEVICE_STATUS_OFFSET VIRTIO_STATUS_DRIVER_OK (d, m);
           Some (d, k\<lparr>kmem := m, main_heap := h\<rparr>, 0)
         }
       }
     }
   }"

definition disk_handle_interrupt_sync :: "'d virtio_device \<Rightarrow> 'd \<times> mem \<Rightarrow> addr \<Rightarrow> 'd \<times> mem" where
  \<comment> \<open>\<open>disk_handle_used\<close> is empty in the source\<close>
  "disk_handle_interrupt_sync dv = (\<lambda>(d, m) argument.
     let sync = argument;
         disk = get_sync_disk m sync;
         interrupt = disk_read_reg dv d m disk VIRTIO_INTERRUPT_STATUS_OFFSET;
         (d, m) = disk_set_reg dv disk VIRTIO_INTERRUPT_ACK_OFFSET interrupt (d, m)
     in (d, set_sync_done m sync 1))"

definition at_descriptors :: "addr \<Rightarrow> (mem \<Rightarrow> addr \<Rightarrow> mem) \<Rightarrow> mem \<Rightarrow> mem" where
  \<comment> \<open>one statement on \<open>disk->descriptors\<close>, whose pointer is read for it\<close>
  "at_descriptors disk f m = f m (disk_descriptors m disk)"

definition at_avail :: "addr \<Rightarrow> (mem \<Rightarrow> addr \<Rightarrow> mem) \<Rightarrow> mem \<Rightarrow> mem" where
  "at_avail disk f m = f m (disk_avail m disk)"

definition disk_fill_queue :: "mem \<Rightarrow> addr \<Rightarrow> addr \<Rightarrow> int \<Rightarrow> addr \<Rightarrow> int \<Rightarrow> mem" where
  \<comment> \<open>the first part of \<open>disk_create_request_sync\<close>: the request, its three descriptors and the available ring\<close>
  "disk_fill_queue m disk req write' data sector =
     (let desc1 = 0; desc2 = 1; desc3 = 2;
          data_flags = (if write' = 0 then VIRTQ_DESC_F_NEXT OR VIRTQ_DESC_F_WRITE else VIRTQ_DESC_F_NEXT);
          m = set_req_sector m req (of_int sector);
          m = set_req_type m req (of_int write');
          m = at_descriptors disk (\<lambda>m d. set_desc_addr m d desc1 req) m;
          m = at_descriptors disk (\<lambda>m d. set_desc_len m d desc1 16) m;
          m = at_descriptors disk (\<lambda>m d. set_desc_flags m d desc1 VIRTQ_DESC_F_NEXT) m;
          m = at_descriptors disk (\<lambda>m d. set_desc_next m d desc1 (of_nat desc2)) m;
          m = at_descriptors disk (\<lambda>m d. set_desc_addr m d desc2 data) m;
          m = at_descriptors disk (\<lambda>m d. set_desc_len m d desc2 512) m;
          m = at_descriptors disk (\<lambda>m d. set_desc_flags m d desc2 data_flags) m;
          m = at_descriptors disk (\<lambda>m d. set_desc_next m d desc2 (of_nat desc3)) m;
          m = at_descriptors disk (\<lambda>m d. set_desc_addr m d desc3 (req + 16)) m;
          m = at_descriptors disk (\<lambda>m d. set_desc_len m d desc3 1) m;
          m = at_descriptors disk (\<lambda>m d. set_desc_flags m d desc3 VIRTQ_DESC_F_WRITE) m;
          m = at_avail disk (\<lambda>m a. set_avail_ring m a (unat (get_avail_idx m a)) (of_nat desc1)) m;
          m = at_avail disk (\<lambda>m a. set_avail_idx m a (get_avail_idx m a + 1)) m
      in at_avail disk (\<lambda>m a. set_avail_flags m a 0) m)"

subsection \<open>Interrupts\<close>

definition exceptions_handle_fiq :: "'d virtio_device \<Rightarrow> addr \<Rightarrow> u64 \<Rightarrow> 'd \<times> machine \<Rightarrow> addr \<Rightarrow> ('d \<times> machine) option" where
  \<comment> \<open>\<open>iar\<close> is the interrupt acknowledge register, \<open>lit\<close> the text for an interrupt without handler\<close>
  "exceptions_handle_fiq dv lit iar st x30 = do {
     let intid = uint (gic_interface_read_and_ack_group0 iar);
     let s = (if intid = 30 then (snd st)\<lparr>exceptions_context_switch_x30 := x30\<rparr> else snd st);
     handler \<leftarrow> gic_redistributor_get_handler (intc s) intid;
     (d, s) \<leftarrow>
       (case handler of
          Some h \<Rightarrow> do {
            param \<leftarrow> gic_redistributor_get_handler_param (intc s) intid;
            case h of
              Internal_handler \<Rightarrow> do { s \<leftarrow> internal_handler s; Some (fst st, s) }
            | Disk_handle_interrupt_sync \<Rightarrow>
                (let (d, m) = disk_handle_interrupt_sync dv (fst st, kmem (kern s)) param
                 in Some (d, s\<lparr>kern := (kern s)\<lparr>kmem := m\<rparr>\<rparr>))
          }
        | None \<Rightarrow> do { out \<leftarrow> put_string (kmem (kern s)) (console s) lit; Some (fst st, s\<lparr>console := out\<rparr>) });
     Some (d, s\<lparr>intc := gic_interface_end_of_interrupt_group0 (intc s) (of_int intid)\<rparr>)
   }"

definition fiq_pending :: "'d virtio_device \<Rightarrow> 'd \<times> machine \<Rightarrow> u64 option" where
  \<comment> \<open>the interrupt that the processor takes next, if it takes one: what the acknowledge register will hold\<close>
  "fiq_pending dv st =
     (let s = snd st
      in if bit (DAIF (regs (kern s))) DAIF_FRQ_MASK then None
         else if timer_line dv (fst st) (tim s) \<and> gic_delivers (intc s) 30 then Some 30
         else if disk_line dv (fst st) \<and> gic_delivers (intc s) 79 then Some 79
         else None)"

definition currentelx_fiq :: "'d virtio_device \<Rightarrow> wait_frame \<Rightarrow> u64 \<Rightarrow> 'd \<times> machine \<Rightarrow> ('d \<times> machine) option" where
  \<comment> \<open>an interrupt while the kernel runs: the processor records where it was, the entry code pushes the registers,
    calls the handler and pops them. The interrupted loop goes on only if \<open>eret\<close> leads back to it, with
    the registers it had\<close>
  "currentelx_fiq dv wfr iar st = do {
     let k = kern (snd st);
     let r = (regs k)\<lparr>ELR_EL1 := wait_pc wfr, SPSR_EL1 := wait_pstate wfr\<rparr>;
     let (m, x30) = push_registers (kmem k) (wait_sp wfr) (wait_x wfr);
     (d, s) \<leftarrow> exceptions_handle_fiq dv (lit_unhandled wfr) iar (fst st, (snd st)\<lparr>kern := k\<lparr>kmem := m, regs := r\<rparr>\<rparr>) x30;
     if ELR_EL1 (regs (kern s)) = wait_pc wfr \<and> SPSR_EL1 (regs (kern s)) = wait_pstate wfr \<and>
        list_all (\<lambda>i. pop_registers (kmem (kern s)) x30 i = wait_x wfr i) [0..<31]
     then Some (d, s) else None
   }"

subsection \<open>Requests\<close>

partial_function (option) disk_wait :: "'d virtio_device \<Rightarrow> wait_frame \<Rightarrow> addr \<Rightarrow> 'd \<times> machine \<Rightarrow> ('d \<times> machine) option" where
  \<comment> \<open>the loop \<open>while (!sync->done)\<close>: nothing in it changes \<open>done\<close>, only an interrupt can\<close>
  "disk_wait dv wfr sync st =
     (if get_sync_done (kmem (kern (snd st))) sync \<noteq> 0 then Some st
      else case fiq_pending dv st of
          None \<Rightarrow> (let (d, m) = dev_step dv (fst st) (kmem (kern (snd st)))
                   in disk_wait dv wfr sync (d, (snd st)\<lparr>kern := (kern (snd st))\<lparr>kmem := m\<rparr>\<rparr>))
        | Some iar \<Rightarrow> Option.bind (currentelx_fiq dv wfr iar st) (disk_wait dv wfr sync))"

definition disk_create_request_sync ::
  "'d virtio_device \<Rightarrow> wait_frame \<Rightarrow> addr \<Rightarrow> 'd \<Rightarrow> machine \<Rightarrow> addr \<Rightarrow> int \<Rightarrow> addr \<Rightarrow> int \<Rightarrow> ('d \<times> machine \<times> int) option" where
  \<comment> \<open>\<open>req\<close> is the address of the local request structure\<close>
  "disk_create_request_sync dv wfr req d s disk write' data sector = do {
     let k = kern s;
     let m = disk_fill_queue (kmem k) disk req write' data sector;
     (m, h, sync) \<leftarrow> kalloc m (main_heap k) 16;
     let m = set_sync_disk m sync disk;
     let m = set_sync_done m sync 0;
     g \<leftarrow> gic_redistributor_set_handler (intc s) 79 (Some Disk_handle_interrupt_sync) sync;
     let r = sysutils_mask_fiq (regs k) False;
     let (d, m) = disk_set_reg dv disk VIRTIO_QUEUE_NOTIFY_OFFSET 0 (d, m);
     (d, s) \<leftarrow> disk_wait dv wfr sync (d, s\<lparr>kern := k\<lparr>kmem := m, main_heap := h, regs := r\<rparr>, intc := g\<rparr>);
     let k = kern s;
     let r = sysutils_mask_fiq (regs k) True;
     (m, h) \<leftarrow> kfree (kmem k) (main_heap k) sync;
     Some (d, s\<lparr>kern := k\<lparr>kmem := m, main_heap := h, regs := r\<rparr>\<rparr>, 0)
   }"

definition disk_block_read :: "'d virtio_device \<Rightarrow> wait_frame \<Rightarrow> addr \<Rightarrow> 'd \<Rightarrow> machine \<Rightarrow> addr \<Rightarrow> u64 \<Rightarrow> addr \<Rightarrow> ('d \<times> machine \<times> int) option" where
  "disk_block_read dv wfr req d s ptr n args = disk_create_request_sync dv wfr req d s args 0 ptr (c_int n)"

definition disk_block_write :: "'d virtio_device \<Rightarrow> wait_frame \<Rightarrow> addr \<Rightarrow> 'd \<Rightarrow> machine \<Rightarrow> addr \<Rightarrow> u64 \<Rightarrow> addr \<Rightarrow> ('d \<times> machine \<times> int) option" where
  "disk_block_write dv wfr req d s ptr n args = disk_create_request_sync dv wfr req d s args 1 ptr (c_int n)"

record ('d) block =
  b_read :: "'d \<Rightarrow> machine \<Rightarrow> addr \<Rightarrow> u64 \<Rightarrow> addr \<Rightarrow> ('d \<times> machine \<times> int) option"
  b_write :: "'d \<Rightarrow> machine \<Rightarrow> addr \<Rightarrow> u64 \<Rightarrow> addr \<Rightarrow> ('d \<times> machine \<times> int) option"
  sector_size :: u64
  args :: addr
  read_only :: bool

definition disk_register_block_device :: "'d virtio_device \<Rightarrow> wait_frame \<Rightarrow> addr \<Rightarrow> addr \<Rightarrow> 'd block" where
  "disk_register_block_device dv wfr req disk =
     \<lparr>b_read = disk_block_read dv wfr req, b_write = disk_block_write dv wfr req, sector_size = 512, args = disk, read_only = False\<rparr>"

definition block_write :: "'d block \<Rightarrow> 'd \<Rightarrow> machine \<Rightarrow> addr \<Rightarrow> u64 \<Rightarrow> ('d \<times> machine \<times> int) option" where
  "block_write block d s ptr n = b_write block d s ptr n (args block)"

definition block_read :: "'d block \<Rightarrow> 'd \<Rightarrow> machine \<Rightarrow> addr \<Rightarrow> u64 \<Rightarrow> ('d \<times> machine \<times> int) option" where
  "block_read block d s ptr n = b_read block d s ptr n (args block)"


section \<open>A request in the queue\<close>

record desc =
  d_addr :: u64
  d_len :: u32
  d_flags :: u16
  d_next :: u16

definition desc_at :: "mem \<Rightarrow> addr \<Rightarrow> nat \<Rightarrow> desc" where
  "desc_at m d i = \<lparr>d_addr = load64 m (fld d (16 * i)), d_len = load32 m (fld d (16 * i + 8)),
     d_flags = load16 m (fld d (16 * i + 12)), d_next = load16 m (fld d (16 * i + 14))\<rparr>"

definition queue_apart :: "addr \<Rightarrow> addr \<Rightarrow> addr \<Rightarrow> addr \<Rightarrow> nat \<Rightarrow> bool" where
  \<comment> \<open>the driver's structure, the request, the descriptors and the \<open>n\<close> bytes of the available ring\<close>
  "queue_apart disk req D A n \<longleftrightarrow> apart_all [(disk, 32), (req, 17), (D, 48), (A, n)]"

lemma load_store_apart:
  assumes "region p n \<inter> region q k = {}" and "i + a \<le> n" and "j + b \<le> k" and "n \<le> 2 ^ 64" and "k \<le> 2 ^ 64"
  shows "load_le a (store_le b m (fld q j) v) (fld p i) = load_le a m (fld p i)"
  using fld_sub [OF assms(2,4), of p] fld_sub [OF assms(3,5), of q] assms
  by (intro load_store_le_other) auto

lemmas queue_stores = set_desc_addr_def set_desc_len_def set_desc_flags_def set_desc_next_def
  set_avail_flags_def set_avail_idx_def set_avail_ring_def set_req_type_def set_req_sector_def

lemma queue_load:
  assumes ap: "queue_apart disk req D A n" and n: "n \<le> 2 ^ 64"
  shows "i + a \<le> 32 \<Longrightarrow> j + b \<le> 17 \<Longrightarrow> load_le a (store_le b m (fld req j) v) (fld disk i) = load_le a m (fld disk i)"
    "i + a \<le> 32 \<Longrightarrow> j + b \<le> 48 \<Longrightarrow> load_le a (store_le b m (fld D j) v) (fld disk i) = load_le a m (fld disk i)"
    "i + a \<le> 32 \<Longrightarrow> j + b \<le> n \<Longrightarrow> load_le a (store_le b m (fld A j) v) (fld disk i) = load_le a m (fld disk i)"
    "i + a \<le> 17 \<Longrightarrow> j + b \<le> 48 \<Longrightarrow> load_le a (store_le b m (fld D j) v) (fld req i) = load_le a m (fld req i)"
    "i + a \<le> 17 \<Longrightarrow> j + b \<le> n \<Longrightarrow> load_le a (store_le b m (fld A j) v) (fld req i) = load_le a m (fld req i)"
    "i + a \<le> 48 \<Longrightarrow> j + b \<le> n \<Longrightarrow> load_le a (store_le b m (fld A j) v) (fld D i) = load_le a m (fld D i)"
    "i + a \<le> n \<Longrightarrow> j + b \<le> 17 \<Longrightarrow> load_le a (store_le b m (fld req j) v) (fld A i) = load_le a m (fld A i)"
    "i + a \<le> n \<Longrightarrow> j + b \<le> 48 \<Longrightarrow> load_le a (store_le b m (fld D j) v) (fld A i) = load_le a m (fld A i)"
proof -
  have d: "region disk 32 \<inter> region req 17 = {}" "region disk 32 \<inter> region D 48 = {}" "region disk 32 \<inter> region A n = {}"
    "region req 17 \<inter> region D 48 = {}" "region req 17 \<inter> region A n = {}" "region D 48 \<inter> region A n = {}"
    using ap by (simp_all add: queue_apart_def)
  then have c: "region A n \<inter> region req 17 = {}" "region A n \<inter> region D 48 = {}" by blast+
  show "i + a \<le> 32 \<Longrightarrow> j + b \<le> 17 \<Longrightarrow> load_le a (store_le b m (fld req j) v) (fld disk i) = load_le a m (fld disk i)"
    by (rule load_store_apart [OF d(1)]) simp_all
  show "i + a \<le> 32 \<Longrightarrow> j + b \<le> 48 \<Longrightarrow> load_le a (store_le b m (fld D j) v) (fld disk i) = load_le a m (fld disk i)"
    by (rule load_store_apart [OF d(2)]) simp_all
  show "i + a \<le> 32 \<Longrightarrow> j + b \<le> n \<Longrightarrow> load_le a (store_le b m (fld A j) v) (fld disk i) = load_le a m (fld disk i)"
    by (rule load_store_apart [OF d(3)]) (use n in simp_all)
  show "i + a \<le> 17 \<Longrightarrow> j + b \<le> 48 \<Longrightarrow> load_le a (store_le b m (fld D j) v) (fld req i) = load_le a m (fld req i)"
    by (rule load_store_apart [OF d(4)]) simp_all
  show "i + a \<le> 17 \<Longrightarrow> j + b \<le> n \<Longrightarrow> load_le a (store_le b m (fld A j) v) (fld req i) = load_le a m (fld req i)"
    by (rule load_store_apart [OF d(5)]) (use n in simp_all)
  show "i + a \<le> 48 \<Longrightarrow> j + b \<le> n \<Longrightarrow> load_le a (store_le b m (fld A j) v) (fld D i) = load_le a m (fld D i)"
    by (rule load_store_apart [OF d(6)]) (use n in simp_all)
  show "i + a \<le> n \<Longrightarrow> j + b \<le> 17 \<Longrightarrow> load_le a (store_le b m (fld req j) v) (fld A i) = load_le a m (fld A i)"
    by (rule load_store_apart [OF c(1)]) (use n in simp_all)
  show "i + a \<le> n \<Longrightarrow> j + b \<le> 48 \<Longrightarrow> load_le a (store_le b m (fld D j) v) (fld A i) = load_le a m (fld A i)"
    by (rule load_store_apart [OF c(2)]) (use n in simp_all)
qed

lemma disk_fill_queue_eq:
  assumes ap: "queue_apart disk req D A n" and n: "4 + 2 * unat idx + 2 \<le> n" "n \<le> 2 ^ 64"
    and ptr: "disk_descriptors m disk = D" "disk_avail m disk = A" "get_avail_idx m A = idx"
  shows "disk_fill_queue m disk req write' data sector =
    (let m = store32 (store64 m (fld req 8) (of_int sector)) (fld req 0) (of_int write');
         m = store16 (store16 (store32 (store64 m (fld D 0) req) (fld D 8) 16) (fld D 12) 1) (fld D 14) 1;
         m = store16 (store16 (store32 (store64 m (fld D 16) data) (fld D 24) 512) (fld D 28) (if write' = 0 then 3 else 1)) (fld D 30) 2;
         m = store16 (store32 (store64 m (fld D 32) (req + 16)) (fld D 40) 1) (fld D 44) 2;
         m = store16 m (fld A (4 + 2 * unat idx)) 0
     in store16 (store16 m (fld A 2) (idx + 1)) (fld A 0) 0)"
proof -
  note q = queue_load [OF ap n(2)]
  have ptr': "load64 m (fld disk 8) = D" "load64 m (fld disk 16) = A" "load16 m (fld A 2) = idx"
    using ptr by (simp_all add: disk_descriptors_def disk_avail_def get_avail_idx_def)
  have f: "(1 :: u16) OR 2 = 3" by simp
  have sep: "load16 (store16 m (fld A (4 + 2 * unat idx)) v) (fld A 2) = load16 m (fld A 2)" for m v
    by (rule load_store_fld) (use n in simp_all)
  have n4: "4 \<le> n" using n by simp
  show ?thesis
    unfolding disk_fill_queue_def Let_def
    using n n4
    by (simp add: at_descriptors_def at_avail_def disk_descriptors_def disk_avail_def get_avail_idx_def queue_stores
        q ptr' f sep del: fld_0)
qed


lemma disk_fill_queue_chain:
  fixes data :: addr and sector write' :: int
  assumes "queue_apart disk req D A n" and "4 + 2 * unat idx + 2 \<le> n" and "n \<le> 2 ^ 64"
    and "disk_descriptors m disk = D" and "disk_avail m disk = A" and "get_avail_idx m A = idx"
  defines "m' \<equiv> disk_fill_queue m disk req write' data sector"
  shows "desc_at m' D 0 = \<lparr>d_addr = req, d_len = 16, d_flags = 1, d_next = 1\<rparr> \<and>
    desc_at m' D 1 = \<lparr>d_addr = data, d_len = 512, d_flags = (if write' = 0 then 3 else 1), d_next = 2\<rparr> \<and>
    (desc_at m' D 2)\<lparr>d_next := 0\<rparr> = \<lparr>d_addr = req + 16, d_len = 1, d_flags = 2, d_next = 0\<rparr> \<and>
    load32 m' (fld req 0) = of_int write' \<and> load64 m' (fld req 8) = of_int sector \<and>
    load16 m' (fld A (4 + 2 * unat idx)) = 0 \<and> get_avail_idx m' A = idx + 1 \<and>
    (idx = 2046 \<longrightarrow> load16 m' (fld A 4096) = 0)"
proof -
  note q = queue_load [OF assms(1,3)]
  have n4: "4 \<le> n" using assms(2) by simp
  have ring: "load16 (store16 m (fld A i) v) (fld A (4 + 2 * unat idx)) = load16 m (fld A (4 + 2 * unat idx))" if "i \<le> 2" for m i v
    by (rule load_store_fld) (use assms(2,3) that in simp_all)
  have fld: "i + a \<le> j \<or> j + b \<le> i \<Longrightarrow> i + a \<le> 48 \<Longrightarrow> j + b \<le> 48 \<Longrightarrow>
      load_le a (store_le b m (fld p j) v) (fld p i) = load_le a m (fld p i)" for a b i j m p and v :: "'x::len word"
    by (rule load_store_fld) simp_all
  have eq: "m' = (let m = store32 (store64 m (fld req 8) (of_int sector)) (fld req 0) (of_int write');
         m = store16 (store16 (store32 (store64 m (fld D 0) req) (fld D 8) 16) (fld D 12) 1) (fld D 14) 1;
         m = store16 (store16 (store32 (store64 m (fld D 16) data) (fld D 24) 512) (fld D 28) (if write' = 0 then 3 else 1)) (fld D 30) 2;
         m = store16 (store32 (store64 m (fld D 32) (req + 16)) (fld D 40) 1) (fld D 44) 2;
         m = store16 m (fld A (4 + 2 * unat idx)) 0
     in store16 (store16 m (fld A 2) (idx + 1)) (fld A 0) 0)"
    unfolding m'_def by (rule disk_fill_queue_eq [OF assms(1-6)])
  have "load16 m' (fld A (4 + 2 * unat idx)) = 0"
    unfolding eq Let_def using ring [of 2] ring [of 0] by (simp add: load_store_le del: fld_0)
  moreover from this have "idx = 2046 \<longrightarrow> load16 m' (fld A 4096) = 0" by auto
  ultimately show ?thesis
    unfolding eq Let_def desc_at_def get_avail_idx_def
    using assms(2) n4 by (simp add: q fld load_store_le del: fld_0)
qed

lemma disk_fill_queue_frame:
  assumes "queue_apart disk req D A n" and "4 + 2 * unat idx + 2 \<le> n" and "n \<le> 2 ^ 64"
    and "disk_descriptors m disk = D" and "disk_avail m disk = A" and "get_avail_idx m A = idx"
  shows "same_outside (region req 17 \<union> region D 48 \<union> region A n) m (disk_fill_queue m disk req write' data sector)"
proof -
  let ?Q = "region req 17 \<union> region D 48 \<union> region A n"
  have st: "same_outside ?Q m (store_le k m' (fld p j) v)" if "same_outside ?Q m m'" "region p l \<subseteq> ?Q" "j + k \<le> l" "l \<le> 2 ^ 64"
    for m' p l j k and v :: "'x::len word"
    by (rule same_outside_trans [OF that(1)], rule same_outside_mono [OF store_fld_outside [OF that(3,4)] that(2)])
  have n: "2 + 2 \<le> n" "0 + 2 \<le> n" using assms(2) by simp_all
  note r = st [of _ req 17] and d = st [of _ D 48] and a = st [of _ A n]
  show ?thesis
    unfolding disk_fill_queue_eq [OF assms] Let_def
    by (intro r d a same_outside_refl; (use assms(2,3) n in \<open>simp; fail\<close> | blast))
qed

section \<open>Properties\<close>

text \<open>
  C36. A disk request as the device finds it: the first descriptor is the 16-byte header of the request, which
  holds type and sector, the second the 512 bytes of data, writable by the device for a read
  only, the third the status byte, chained in this order; descriptor 0 is entered in the
  available ring and the ring's index advances by one modulo 65536. The entry goes to slot
  \<open>idx\<close> itself, not to \<open>idx\<close> modulo 1024, so from the 1025th request on it is written past the ring; the
  2047th writes past the 4096 bytes the ring was allocated.
\<close>
theorem virtio_request_chain:
  fixes data :: addr and sector write' :: int
  assumes "queue_apart disk req D A n" and "4 + 2 * unat idx + 2 \<le> n" and "n \<le> 2 ^ 64"
    and "disk_descriptors m disk = D" and "disk_avail m disk = A" and "get_avail_idx m A = idx"
  defines "m' \<equiv> disk_fill_queue m disk req write' data sector"
  shows "desc_at m' D 0 = \<lparr>d_addr = req, d_len = 16, d_flags = 1, d_next = 1\<rparr> \<and>
    desc_at m' D 1 = \<lparr>d_addr = data, d_len = 512, d_flags = (if write' = 0 then 3 else 1), d_next = 2\<rparr> \<and>
    (desc_at m' D 2)\<lparr>d_next := 0\<rparr> = \<lparr>d_addr = req + 16, d_len = 1, d_flags = 2, d_next = 0\<rparr> \<and>
    load32 m' (fld req 0) = of_int write' \<and> load64 m' (fld req 8) = of_int sector \<and>
    load16 m' (fld A (4 + 2 * unat idx)) = 0 \<and> get_avail_idx m' A = idx + 1 \<and>
    (idx = 2046 \<longrightarrow> load16 m' (fld A 4096) = 0)"
  unfolding m'_def by (rule disk_fill_queue_chain [OF assms(1-6)])

theorem virtio_request_chain_witness:
  "\<exists>m'. disk_fill_queue (store64 (store64 (\<lambda>_. 0) (fld 0x1000 8) 0x2000) (fld 0x1000 16) 0x3000) 0x1000 0x4000 0 0x5000 7 = m' \<and>
    desc_at m' 0x2000 1 = \<lparr>d_addr = 0x5000, d_len = 512, d_flags = 3, d_next = 2\<rparr> \<and> get_avail_idx m' 0x3000 = 1"
proof -
  let ?m = "store64 (store64 (\<lambda>_. 0) (fld 0x1000 8) 0x2000) (fld 0x1000 16) 0x3000"
  have ap: "queue_apart 0x1000 0x4000 0x2000 0x3000 2054" by (simp add: queue_apart_def regions_apart)
  have ptr: "disk_descriptors ?m 0x1000 = 0x2000" "disk_avail ?m 0x1000 = 0x3000"
    by (simp_all add: disk_descriptors_def disk_avail_def load_store_le load_store_fld)
  have off: "region 0x3000 4 \<inter> region (0x1000 :: addr) 32 = {}" by (rule regions_apart) simp_all
  have "get_avail_idx ?m 0x3000 = get_avail_idx (\<lambda>_. 0) 0x3000"
    unfolding get_avail_idx_def by (simp add: load_store_apart [OF off])
  also have "\<dots> = 0" unfolding get_avail_idx_def by (rule load_le_zero) simp
  finally have idx: "get_avail_idx ?m 0x3000 = 0" .
  show ?thesis using virtio_request_chain [OF ap _ _ ptr idx, where data = "0x5000" and sector = 7 and write' = 0] by simp
qed

end
