(* ===== verification/Fat.thy ===== *)
theory Fat
  imports Virtio
begin

text \<open>
  The FAT16 reader: \<open>kernel/fs/fat.c\<close>. The handle, the file allocation table and the directory entries
  are structures in the byte memory, at the offsets of their C declarations. Sectors come from
  a block device, which is passed with its read function; the state of a call is the state of
  that device together with the machine. Local arrays are addresses in a record.
\<close>

section \<open>Definitions\<close>

record fat_frame =
  load_buffer :: addr
  name_buffer :: addr
  ext_buffer :: addr

abbreviation (input) SECTOR_SIZE :: u64 where "SECTOR_SIZE \<equiv> 512"

abbreviation (input) sizeof_fat16_header :: u64 where "sizeof_fat16_header \<equiv> 512"

abbreviation (input) sizeof_fat16_dir_entry :: u64 where "sizeof_fat16_dir_entry \<equiv> 32"

definition smem :: "'d \<times> machine \<Rightarrow> mem" where "smem st = kmem (kern (snd st))"

definition set_smem :: "'d \<times> machine \<Rightarrow> mem \<Rightarrow> 'd \<times> machine" where
  "set_smem st m = (fst st, (snd st)\<lparr>kern := (kern (snd st))\<lparr>kmem := m\<rparr>\<rparr>)"

definition st_kalloc :: "'d \<times> machine \<Rightarrow> u64 \<Rightarrow> (('d \<times> machine) \<times> addr) option" where
  "st_kalloc st sz = do {
     (m, h, p) \<leftarrow> kalloc (smem st) (main_heap (kern (snd st))) sz;
     Some ((fst st, (snd st)\<lparr>kern := (kern (snd st))\<lparr>kmem := m, main_heap := h\<rparr>\<rparr>), p)
   }"

definition st_kfree :: "'d \<times> machine \<Rightarrow> addr \<Rightarrow> ('d \<times> machine) option" where
  "st_kfree st p = do {
     (m, h) \<leftarrow> kfree (smem st) (main_heap (kern (snd st))) p;
     Some (fst st, (snd st)\<lparr>kern := (kern (snd st))\<lparr>kmem := m, main_heap := h\<rparr>\<rparr>)
   }"

definition st_memcpy :: "'d \<times> machine \<Rightarrow> addr \<Rightarrow> addr \<Rightarrow> u64 \<Rightarrow> ('d \<times> machine) option" where
  "st_memcpy st dest src n = do { (m, _) \<leftarrow> memcpy (smem st) dest src n; Some (set_smem st m) }"

definition sector_read :: "'d block \<Rightarrow> 'd \<times> machine \<Rightarrow> addr \<Rightarrow> int \<Rightarrow> ('d \<times> machine) option" where
  \<comment> \<open>a call of \<open>block_read\<close>, whose result the callers ignore\<close>
  "sector_read blk st ptr sector = do {
     (d, s, _) \<leftarrow> block_read blk (fst st) (snd st) ptr (of_int sector);
     Some (d, s)
   }"

subsection \<open>The structures\<close>

definition h_bytes_per_sector :: "mem \<Rightarrow> addr \<Rightarrow> u16" where "h_bytes_per_sector m h = load16 m (fld h 11)"

definition h_sectors_per_cluster :: "mem \<Rightarrow> addr \<Rightarrow> u8" where "h_sectors_per_cluster m h = m (fld h 13)"

definition h_reserved_sectors :: "mem \<Rightarrow> addr \<Rightarrow> u16" where "h_reserved_sectors m h = load16 m (fld h 14)"

definition h_fat_copies :: "mem \<Rightarrow> addr \<Rightarrow> u8" where "h_fat_copies m h = m (fld h 16)"

definition h_possible_root_entries :: "mem \<Rightarrow> addr \<Rightarrow> u16" where "h_possible_root_entries m h = load16 m (fld h 17)"

definition h_small_sectors :: "mem \<Rightarrow> addr \<Rightarrow> u16" where "h_small_sectors m h = load16 m (fld h 19)"

definition h_sectors_per_fat :: "mem \<Rightarrow> addr \<Rightarrow> u16" where "h_sectors_per_fat m h = load16 m (fld h 22)"

definition h_large_sectors :: "mem \<Rightarrow> addr \<Rightarrow> u32" where "h_large_sectors m h = load32 m (fld h 32)"

definition h_sectors :: "mem \<Rightarrow> addr \<Rightarrow> u64" where "h_sectors m h = load64 m (fld h 512)"

definition h_fat_size_bytes :: "mem \<Rightarrow> addr \<Rightarrow> u64" where "h_fat_size_bytes m h = load64 m (fld h 520)"

definition h_fat_offset :: "mem \<Rightarrow> addr \<Rightarrow> u64" where "h_fat_offset m h = load64 m (fld h 528)"

definition h_fat :: "mem \<Rightarrow> addr \<Rightarrow> addr" where "h_fat m h = load64 m (fld h 536)"

definition h_dir_entry_offset :: "mem \<Rightarrow> addr \<Rightarrow> u64" where "h_dir_entry_offset m h = load64 m (fld h 544)"

definition h_dir_entry_size_bytes :: "mem \<Rightarrow> addr \<Rightarrow> u64" where "h_dir_entry_size_bytes m h = load64 m (fld h 552)"

definition h_entries :: "mem \<Rightarrow> addr \<Rightarrow> addr" where "h_entries m h = load64 m (fld h 560)"

definition h_data_offset :: "mem \<Rightarrow> addr \<Rightarrow> u64" where "h_data_offset m h = load64 m (fld h 568)"

definition set_h :: "nat \<Rightarrow> addr \<Rightarrow> u64 \<Rightarrow> 'd \<times> machine \<Rightarrow> 'd \<times> machine" where
  \<comment> \<open>a store to one of the 8-byte fields of the handle\<close>
  "set_h offset h v st = set_smem st (store64 (smem st) (fld h offset) v)"

definition e_starting_cluster :: "mem \<Rightarrow> addr \<Rightarrow> u16" where "e_starting_cluster m e = load16 m (fld e 26)"

definition e_filesize_bytes :: "mem \<Rightarrow> addr \<Rightarrow> u32" where "e_filesize_bytes m e = load32 m (fld e 28)"

definition fat_entry :: "mem \<Rightarrow> addr \<Rightarrow> int \<Rightarrow> int" where
  \<comment> \<open>\<open>handle->fat[cluster]\<close>\<close>
  "fat_entry m h cluster = uint (load16 m (h_fat m h + 2 * of_int cluster))"

subsection \<open>Names\<close>

function fat_char_array_compare_loop :: "mem \<Rightarrow> addr \<Rightarrow> addr \<Rightarrow> int \<Rightarrow> int \<Rightarrow> int" where
  "fat_char_array_compare_loop m a b len i =
     (if i < len then
        if m (a + of_int i) = m (b + of_int i) then fat_char_array_compare_loop m a b len (i + 1)
        else uint (m (a + of_int i)) - uint (m (b + of_int i))
      else 0)"
  by pat_completeness auto
termination
  by (relation "measure (\<lambda>(m, a, b, len, i). nat (len - i))") auto

declare fat_char_array_compare_loop.simps [simp del]

definition fat_char_array_compare :: "mem \<Rightarrow> addr \<Rightarrow> addr \<Rightarrow> int \<Rightarrow> int" where
  "fat_char_array_compare m a b len = fat_char_array_compare_loop m a b len 0"

definition fat_char_get_uppercase :: "u8 \<Rightarrow> u8" where
  "fat_char_get_uppercase c = (if c \<ge> 0x61 \<and> c \<le> 0x7a then c - (0x61 - 0x41) else c)"

partial_function (option) fat_upper_loop :: "mem \<Rightarrow> addr \<Rightarrow> addr \<Rightarrow> (mem \<times> addr) option" where
  "fat_upper_loop m dest src =
     (if m src \<noteq> 0 then fat_upper_loop (m(dest := fat_char_get_uppercase (m src))) (dest + 1) (src + 1)
      else Some (m, dest))"

function fat_pad_loop :: "mem \<Rightarrow> addr \<Rightarrow> addr \<Rightarrow> mem" where
  "fat_pad_loop m dest dest_last =
     (if dest < dest_last then fat_pad_loop (m(dest := 0x20)) (dest + 1) dest_last else m)"
  by pat_completeness auto
termination
proof (relation "measure (\<lambda>(m, dest, dest_last). unat dest_last - unat dest)")
  show "((m(dest := 0x20), dest + 1, dest_last), m, dest, dest_last) \<in> measure (\<lambda>(m, dest, dest_last). unat dest_last - unat dest)"
    if "dest < dest_last" for m :: mem and dest dest_last :: addr
    using that unat_less64 [of dest_last] by (simp add: word_less_nat_alt unat_add64)
qed simp

declare fat_pad_loop.simps [simp del]

definition fat_uppercase_and_pad :: "mem \<Rightarrow> addr \<Rightarrow> addr \<Rightarrow> int \<Rightarrow> mem option" where
  "fat_uppercase_and_pad m dest src dim = do {
     let dest_last = dest + of_int dim;
     n \<leftarrow> strlen m src;
     if n \<ge> 0 \<and> n \<le> dim then do {
       (m, dest) \<leftarrow> fat_upper_loop m dest src;
       Some (fat_pad_loop m dest dest_last)
     }
     else Some m
   }"

definition fat_get_fat_name :: "mem \<Rightarrow> addr \<Rightarrow> addr \<Rightarrow> mem option" where
  "fat_get_fat_name m dest src = fat_uppercase_and_pad m dest src 8"

definition fat_get_fat_extension :: "mem \<Rightarrow> addr \<Rightarrow> addr \<Rightarrow> mem option" where
  "fat_get_fat_extension m dest src = fat_uppercase_and_pad m dest src 3"

subsection \<open>Reading from the disk\<close>

primrec fat_load_middle ::
  "'d block \<Rightarrow> addr \<Rightarrow> nat \<Rightarrow> 'd \<times> machine \<Rightarrow> addr \<Rightarrow> int \<Rightarrow> (('d \<times> machine) \<times> addr) option" where
  \<comment> \<open>the loop over the middle sectors, with the number of iterations left\<close>
  "fat_load_middle blk buffer 0 st ptr s = Some (st, ptr)"
| "fat_load_middle blk buffer (Suc k) st ptr s = do {
     st \<leftarrow> sector_read blk st buffer s;
     st \<leftarrow> st_memcpy st ptr buffer SECTOR_SIZE;
     fat_load_middle blk buffer k st (ptr + SECTOR_SIZE) (s + 1)
   }"

definition fat_load_data ::
  "'d block \<Rightarrow> addr \<Rightarrow> 'd \<times> machine \<Rightarrow> addr \<Rightarrow> u64 \<Rightarrow> u64 \<Rightarrow> ('d \<times> machine) option" where
  "fat_load_data blk buffer st ptr offset n = do {
     let sector = c_int (offset div SECTOR_SIZE);
     let sector_count = c_int (n div SECTOR_SIZE + (if n mod SECTOR_SIZE = 0 then 0 else 1) +
       (if offset mod SECTOR_SIZE = 0 then 0 else 1));
     let not_complete_offset = c_int (offset mod SECTOR_SIZE);
     st \<leftarrow> sector_read blk st buffer sector;
     st \<leftarrow> st_memcpy st ptr (buffer + of_int not_complete_offset) (of_int (512 - not_complete_offset));
     let ptr = ptr + of_int (512 - not_complete_offset);
     if sector_count < 2 then Some st
     else do {
       total \<leftarrow> int_res (sector_count + sector);
       end \<leftarrow> int_res (total - 1);
       (st, ptr) \<leftarrow> fat_load_middle blk buffer (nat (end - (sector + 1))) st ptr (sector + 1);
       st \<leftarrow> sector_read blk st buffer end;
       st_memcpy st ptr buffer (of_int (if not_complete_offset \<noteq> 0 then not_complete_offset else 512))
     }
   }"

definition fat_load_table :: "'d block \<Rightarrow> addr \<Rightarrow> 'd \<times> machine \<Rightarrow> addr \<Rightarrow> ('d \<times> machine) option" where
  "fat_load_table blk buffer st h = do {
     (st, p) \<leftarrow> st_kalloc st (h_fat_size_bytes (smem st) h);
     let st = set_h 536 h p st;
     if h_fat (smem st) h = NULL then Some st
     else fat_load_data blk buffer st (h_fat (smem st) h) (h_fat_offset (smem st) h) (h_fat_size_bytes (smem st) h)
   }"

definition fat_load_entries :: "'d block \<Rightarrow> addr \<Rightarrow> 'd \<times> machine \<Rightarrow> addr \<Rightarrow> ('d \<times> machine) option" where
  "fat_load_entries blk buffer st h = do {
     (st, p) \<leftarrow> st_kalloc st (h_dir_entry_size_bytes (smem st) h);
     let st = set_h 560 h p st;
     if h_entries (smem st) h = NULL then Some st
     else fat_load_data blk buffer st (h_entries (smem st) h) (h_dir_entry_offset (smem st) h) (h_dir_entry_size_bytes (smem st) h)
   }"

definition fat_load :: "'d block \<Rightarrow> addr \<Rightarrow> 'd \<times> machine \<Rightarrow> addr \<Rightarrow> addr \<Rightarrow> ('d \<times> machine) option" where
  \<comment> \<open>\<open>h\<close> is the address of the handle that is returned, \<open>block_ptr\<close> that of the block device\<close>
  "fat_load blk buffer st h block_ptr = do {
     let st = set_h 576 h block_ptr st;
     st \<leftarrow> fat_load_data blk buffer st h 0 sizeof_fat16_header;
     let m = smem st;
     let st = set_h 512 h (if h_small_sectors m h \<noteq> 0 then ucast (h_small_sectors m h) else ucast (h_large_sectors m h)) st;
     let st = set_h 520 h (2 * h_sectors (smem st) h) st;
     fo \<leftarrow> int_res (uint (h_reserved_sectors m h) * uint (h_bytes_per_sector m h));
     let st = set_h 528 h (of_int fo) st;
     fs1 \<leftarrow> int_res (uint (h_sectors_per_fat m h) * uint (h_fat_copies m h));
     fs2 \<leftarrow> int_res (fs1 * uint (h_bytes_per_sector m h));
     let st = set_h 544 h (h_fat_offset (smem st) h + of_int fs2) st;
     let st = set_h 552 h (ucast (h_possible_root_entries m h) * sizeof_fat16_dir_entry) st;
     let st = set_h 568 h (h_dir_entry_offset (smem st) h + h_dir_entry_size_bytes (smem st) h) st;
     st \<leftarrow> fat_load_table blk buffer st h;
     fat_load_entries blk buffer st h
   }"

definition fat_clear :: "'d \<times> machine \<Rightarrow> addr \<Rightarrow> ('d \<times> machine) option" where
  "fat_clear st h = do {
     st \<leftarrow> (if h_fat (smem st) h = NULL then st_kfree st (h_fat (smem st) h) else Some st);
     let st = set_h 536 h NULL st;
     st \<leftarrow> (if h_entries (smem st) h = NULL then st_kfree st (h_entries (smem st) h) else Some st);
     Some (set_h 560 h NULL st)
   }"

definition fat_get_cluster_size :: "mem \<Rightarrow> addr \<Rightarrow> int" where
  "fat_get_cluster_size m h = uint (h_bytes_per_sector m h) * uint (h_sectors_per_cluster m h)"

definition fat_read_cluster ::
  "'d block \<Rightarrow> addr \<Rightarrow> 'd \<times> machine \<Rightarrow> addr \<Rightarrow> u64 \<Rightarrow> int \<Rightarrow> addr \<Rightarrow> ('d \<times> machine) option" where
  "fat_read_cluster blk buffer st h cluster bytes ptr =
     (let m = smem st;
          read_offset = h_data_offset m h +
            of_int (uint (h_sectors_per_cluster m h) * uint (h_bytes_per_sector m h)) * (cluster - 2)
      in fat_load_data blk buffer st ptr read_offset (of_int bytes))"

partial_function (option) fat_read_entry_loop ::
  "'d block \<Rightarrow> addr \<Rightarrow> 'd \<times> machine \<Rightarrow> addr \<Rightarrow> addr \<Rightarrow> u64 \<Rightarrow> int \<Rightarrow> int \<Rightarrow> int \<Rightarrow> ('d \<times> machine) option" where
  \<comment> \<open>\<open>bytes_left\<close> is compared with \<open>cluster_size\<close> as a \<open>size_t\<close>\<close>
  "fat_read_entry_loop blk buffer st h ptr cluster_size bytes_left bytes_processed cluster =
     (if cluster \<noteq> 0xffff then
        Option.bind (fat_read_cluster blk buffer st h (of_int cluster)
          (c_int (if of_int bytes_left > cluster_size then cluster_size else of_int bytes_left)) (ptr + of_int bytes_processed))
          (\<lambda>st. fat_read_entry_loop blk buffer st h ptr cluster_size
            (c_int (of_int bytes_left - cluster_size)) (c_int (of_int bytes_processed + cluster_size)) (fat_entry (smem st) h cluster))
      else Some st)"

definition fat_read_entry :: "'d block \<Rightarrow> addr \<Rightarrow> 'd \<times> machine \<Rightarrow> addr \<Rightarrow> addr \<Rightarrow> addr \<Rightarrow> ('d \<times> machine) option" where
  "fat_read_entry blk buffer st h entry ptr =
     (let cluster_size = of_int (fat_get_cluster_size (smem st) h);
          bytes_left = sint (e_filesize_bytes (smem st) entry);
          bytes_processed = 0;
          cluster = uint (e_starting_cluster (smem st) entry)
      in fat_read_entry_loop blk buffer st h ptr cluster_size bytes_left bytes_processed cluster)"

primrec fat_skip :: "mem \<Rightarrow> addr \<Rightarrow> nat \<Rightarrow> int \<Rightarrow> int" where
  \<comment> \<open>follows the chain\<close>
  "fat_skip m h 0 cluster = cluster"
| "fat_skip m h (Suc k) cluster = fat_skip m h k (fat_entry m h cluster)"

partial_function (option) fat_offset_loop ::
  "'d block \<Rightarrow> addr \<Rightarrow> 'd \<times> machine \<Rightarrow> addr \<Rightarrow> addr \<Rightarrow> u64 \<Rightarrow> int \<Rightarrow> int \<Rightarrow> int \<Rightarrow> (('d \<times> machine) \<times> int \<times> int \<times> int) option" where
  \<comment> \<open>the loop over whole clusters, with \<open>remaining_bytes\<close>, \<open>out_index\<close> and \<open>cluster\<close>\<close>
  "fat_offset_loop blk lb st h buffer cluster_size remaining_bytes out_index cluster =
     (if of_int remaining_bytes > cluster_size then
        Option.bind (fat_read_cluster blk lb st h (of_int cluster) (c_int cluster_size) buffer)
          (\<lambda>st. Option.bind (st_memcpy st (buffer + of_int out_index) buffer cluster_size)
            (\<lambda>st. fat_offset_loop blk lb st h buffer cluster_size (c_int (of_int remaining_bytes - cluster_size))
              (c_int (of_int out_index + cluster_size)) (fat_entry (smem st) h cluster)))
      else Some (st, remaining_bytes, out_index, cluster))"

definition fat_read_entry_offset_size ::
  "'d block \<Rightarrow> addr \<Rightarrow> 'd \<times> machine \<Rightarrow> addr \<Rightarrow> addr \<Rightarrow> addr \<Rightarrow> int \<Rightarrow> int \<Rightarrow> ('d \<times> machine) option" where
  "fat_read_entry_offset_size blk lb st h entry ptr offset sz = do {
     let cluster_size = (of_int (fat_get_cluster_size (smem st) h) :: u64);
     (st, buffer) \<leftarrow> st_kalloc st cluster_size;
     let first_cluster_index = c_int (of_int offset div cluster_size);
     let first_cluster_offset = c_int (of_int offset mod cluster_size);
     let cluster = fat_skip (smem st) h (nat first_cluster_index) (uint (e_starting_cluster (smem st) entry));
     let first_read_size = min_int sz (c_int (cluster_size - of_int first_cluster_offset));
     st \<leftarrow> fat_read_cluster blk lb st h (of_int cluster) (c_int cluster_size) buffer;
     st \<leftarrow> st_memcpy st ptr (buffer + of_int first_cluster_offset) (of_int first_read_size);
     let remaining_bytes = sz - first_read_size;
     let out_index = first_read_size;
     let cluster = fat_entry (smem st) h cluster;
     (st, remaining_bytes, out_index, cluster) \<leftarrow>
       fat_offset_loop blk lb st h buffer cluster_size remaining_bytes out_index cluster;
     st \<leftarrow> (if remaining_bytes > 0 then do {
         st \<leftarrow> fat_read_cluster blk lb st h (of_int cluster) remaining_bytes buffer;
         st_memcpy st (buffer + of_int out_index) buffer (of_int remaining_bytes)
       } else Some st);
     st_kfree st buffer
   }"

function fat_cluster_loop :: "mem \<Rightarrow> addr \<Rightarrow> int \<Rightarrow> int \<Rightarrow> int \<Rightarrow> int" where
  "fat_cluster_loop m h cluster cluster_index cluster_offset =
     (if cluster \<noteq> 0xffff \<and> cluster_index < cluster_offset
      then fat_cluster_loop m h (fat_entry m h cluster) (cluster_index + 1) cluster_offset
      else cluster)"
  by pat_completeness auto
termination
  by (relation "measure (\<lambda>(m, h, c, i, n). nat (n - i))") auto

declare fat_cluster_loop.simps [simp del]

definition fat_read_entry_cluster_offset ::
  "'d block \<Rightarrow> addr \<Rightarrow> 'd \<times> machine \<Rightarrow> addr \<Rightarrow> addr \<Rightarrow> addr \<Rightarrow> int \<Rightarrow> ('d \<times> machine) option" where
  "fat_read_entry_cluster_offset blk buffer st h entry ptr cluster_offset =
     (let cluster_size = fat_get_cluster_size (smem st) h;
          cluster = fat_cluster_loop (smem st) h (uint (e_starting_cluster (smem st) entry)) 0 cluster_offset
      in if cluster = 0xffff then Some st
         else fat_read_cluster blk buffer st h (of_int cluster) cluster_size ptr)"

function fat_find_loop :: "mem \<Rightarrow> addr \<Rightarrow> addr \<Rightarrow> addr \<Rightarrow> int \<Rightarrow> addr" where
  "fat_find_loop m h fat_name fat_ext i =
     (if i < uint (h_possible_root_entries m h) then
        let e = h_entries m h + of_int (32 * i)
        in if fat_char_array_compare m fat_name e 8 = 0 \<and> fat_char_array_compare m fat_ext (e + 8) 3 = 0
           then e else fat_find_loop m h fat_name fat_ext (i + 1)
      else NULL)"
  by pat_completeness auto
termination
  by (relation "measure (\<lambda>(m, h, n, e, i). nat (uint (h_possible_root_entries m h) - i))") auto

declare fat_find_loop.simps [simp del]

definition fat_get_entry_by_file :: "fat_frame \<Rightarrow> mem \<Rightarrow> addr \<Rightarrow> addr \<Rightarrow> addr \<Rightarrow> (mem \<times> addr) option" where
  "fat_get_entry_by_file f m h name ext = do {
     m \<leftarrow> fat_get_fat_extension m (ext_buffer f) ext;
     m \<leftarrow> fat_get_fat_name m (name_buffer f) name;
     Some (m, fat_find_loop m h (name_buffer f) (ext_buffer f) 0)
   }"


section \<open>Reading a stretch of the disk\<close>

definition block_serves :: "'d block \<Rightarrow> (nat \<Rightarrow> nat \<Rightarrow> u8) \<Rightarrow> addr set \<Rightarrow> (nat \<Rightarrow> 'd \<times> machine \<Rightarrow> bool) \<Rightarrow> bool" where
  \<comment> \<open>what \<open>block.h\<close> promises of a read: sector \<open>sec\<close> is stored at \<open>ptr\<close>; the driver may also change its own
    bytes \<open>W\<close>. \<open>ready n\<close> says that \<open>n\<close> more requests can be served, whatever happens outside \<open>W\<close>\<close>
  "block_serves blk disk W ready \<longleftrightarrow>
     (\<forall>n st ptr sec. ready (Suc n) st \<and> sec < 2 ^ 22 \<and> region ptr 512 \<inter> W = {} \<longrightarrow>
       (\<exists>st'. sector_read blk st ptr (int sec) = Some st' \<and> ready n st' \<and>
         (\<forall>i < 512. smem st' (ptr + of_nat i) = disk sec i) \<and> same_outside (region ptr 512 \<union> W) (smem st) (smem st'))) \<and>
     (\<forall>n st m. ready n st \<and> same_outside (- W) (smem st) m \<longrightarrow> ready n (set_smem st m))"

definition disk_byte :: "(nat \<Rightarrow> nat \<Rightarrow> u8) \<Rightarrow> nat \<Rightarrow> u8" where
  "disk_byte disk a = disk (a div 512) (a mod 512)"

definition copied :: "(nat \<Rightarrow> nat \<Rightarrow> u8) \<Rightarrow> 'd \<times> machine \<Rightarrow> addr \<Rightarrow> nat \<Rightarrow> nat \<Rightarrow> bool" where
  \<comment> \<open>the \<open>L\<close> bytes of the disk from byte \<open>a\<close> are at \<open>p\<close>\<close>
  "copied disk st p L a \<longleftrightarrow> (\<forall>i < L. smem st (p + of_nat i) = disk_byte disk (a + i))"

definition set_regs :: "'d \<times> machine \<Rightarrow> sysregs \<Rightarrow> 'd \<times> machine" where
  "set_regs st r = (fst st, (snd st)\<lparr>kern := (kern (snd st))\<lparr>regs := r\<rparr>\<rparr>)"

lemma smem_set [simp]: "smem (set_smem st m) = m"
  by (simp add: smem_def set_smem_def)

lemma smem_regs [simp]: "smem (set_regs st r) = smem st"
  by (simp add: smem_def set_regs_def)

lemma read_copy:
  assumes serves: "block_serves blk disk W ready" and rdy: "ready (Suc k) st" and sec: "sec < 2 ^ 22" and len: "o' + len \<le> 512"
    and ap: "region p len \<inter> (region buffer 512 \<union> W) = {}" "region buffer 512 \<inter> W = {}"
  obtains st1 st' where "sector_read blk st buffer (int sec) = Some st1"
    and "st_memcpy st1 p (buffer + of_nat o') (of_nat len) = Some st'" and "ready k st'"
    and "copied disk st' p len (512 * sec + o')"
    and "same_outside (region p len \<union> region buffer 512 \<union> W) (smem st) (smem st')"
proof -
  obtain st1 where st1: "sector_read blk st buffer (int sec) = Some st1" "ready k st1"
    "\<forall>i < 512. smem st1 (buffer + of_nat i) = disk sec i" "same_outside (region buffer 512 \<union> W) (smem st) (smem st1)"
    using serves rdy sec ap(2) unfolding block_serves_def by blast
  have sub: "region (buffer + of_nat o') len \<subseteq> region buffer 512" by (rule region_sub) (use len in simp_all)
  have un: "unat (of_nat len :: u64) = len" using len by (simp add: unat_of_nat64)
  let ?m = "\<lambda>q. if q \<in> region p len then smem st1 (buffer + of_nat o' + (q - p)) else smem st1 q"
  have mc: "memcpy (smem st1) p (buffer + of_nat o') (of_nat len) = Some (?m, p)"
    using memcpy_copy [of "buffer + of_nat o'" "of_nat len" p "smem st1"] ap(1) sub len unfolding un by auto
  have w: "same_outside (region p len) (smem st1) ?m" by (simp add: same_outside_def)
  then have "same_outside (- W) (smem st1) ?m" by (rule same_outside_mono) (use ap(1) in blast)
  then have "ready k (set_smem st1 ?m)" using serves st1(2) unfolding block_serves_def by blast
  moreover have "copied disk (set_smem st1 ?m) p len (512 * sec + o')"
    unfolding copied_def
  proof (intro allI impI)
    fix i
    assume i: "i < len"
    have "unat (of_nat i :: u64) = i" using i len by (simp add: unat_of_nat64)
    then have "?m (p + of_nat i) = smem st1 (buffer + of_nat (o' + i))" using i by (simp add: add.assoc)
    also have "\<dots> = disk sec (o' + i)" using spec [OF st1(3), of "o' + i"] i len by (simp del: of_nat_add)
    also have "\<dots> = disk_byte disk (512 * sec + o' + i)" using i len by (simp add: disk_byte_def add.assoc)
    finally show "smem (set_smem st1 ?m) (p + of_nat i) = disk_byte disk (512 * sec + o' + i)" by simp
  qed
  moreover have "same_outside (region p len \<union> region buffer 512 \<union> W) (smem st) ?m"
  proof -
    have "same_outside (region p len \<union> region buffer 512 \<union> W) (smem st) (smem st1)" by (rule same_outside_mono [OF st1(4)]) blast
    also have "same_outside (region p len \<union> region buffer 512 \<union> W) (smem st1) ?m" by (rule same_outside_mono [OF w]) blast
    finally show ?thesis .
  qed
  ultimately show thesis
    using that [OF st1(1), of "set_smem st1 ?m"] mc by (simp add: st_memcpy_def)
qed

lemma copied_append:
  assumes "copied disk st1 p L1 a" and "copied disk st2 (p + of_nat L1) L2 (a + L1)"
    and w: "same_outside (region (p + of_nat L1) L2 \<union> region buffer 512 \<union> W) (smem st1) (smem st2)"
    and ap: "region p (L1 + L2) \<inter> (region buffer 512 \<union> W) = {}" and small: "L1 + L2 \<le> 2 ^ 64"
  shows "copied disk st2 p (L1 + L2) a"
  unfolding copied_def
proof (intro allI impI)
  fix i
  assume i: "i < L1 + L2"
  show "smem st2 (p + of_nat i) = disk_byte disk (a + i)"
  proof (cases "i < L1")
    case True
    have "p + of_nat i \<in> region p L1" by (rule region_offset) (use True small in simp_all)
    moreover have "region p L1 \<inter> region (p + of_nat L1) L2 = {}"
      using region_offsets_apart [of 0 L1 L1 L2 p] small by simp
    moreover have "p + of_nat i \<in> region p (L1 + L2)" by (rule region_offset) (use i small in simp_all)
    ultimately have "smem st2 (p + of_nat i) = smem st1 (p + of_nat i)"
      using ap by (intro same_outsideD [OF w]) blast
    then show ?thesis using assms(1) True by (simp add: copied_def)
  next
    case False
    then have "p + of_nat i = p + of_nat L1 + of_nat (i - L1)" "a + i = a + L1 + (i - L1)" by simp_all
    then show ?thesis using assms(2) False i unfolding copied_def by (metis add_diff_inverse_nat nat_add_left_cancel_less)
  qed
qed

lemma fat_load_middle_eq:
  assumes serves: "block_serves blk disk W ready" and ap: "region buffer 512 \<inter> W = {}"
  shows "ready (n + k) st \<Longrightarrow> sec + k \<le> 2 ^ 22 \<Longrightarrow> region p (512 * k) \<inter> (region buffer 512 \<union> W) = {} \<Longrightarrow>
    \<exists>st'. fat_load_middle blk buffer k st p (int sec) = Some (st', p + of_nat (512 * k)) \<and> ready n st' \<and>
      copied disk st' p (512 * k) (512 * sec) \<and>
      same_outside (region p (512 * k) \<union> region buffer 512 \<union> W) (smem st) (smem st')"
proof (induction k arbitrary: st p sec)
  case 0
  then show ?case by (simp add: copied_def)
next
  case (Suc k)
  have k: "k < 2 ^ 22" using Suc.prems(2) by simp
  have split: "region p (512 * Suc k) = region p 512 \<union> region (p + 512) (512 * k)"
    using region_add [of 512 "512 * k" p] k by simp
  have rdy: "ready (Suc (n + k)) st" and sec: "sec < 2 ^ 22" using Suc.prems by simp_all
  have ap1: "region p 512 \<inter> (region buffer 512 \<union> W) = {}" using Suc.prems(3) split by blast
  have "(0 :: nat) + 512 \<le> 512" by simp
  obtain st1 st2 where st2: "sector_read blk st buffer (int sec) = Some st1"
    "st_memcpy st1 p (buffer + of_nat 0) (of_nat 512) = Some st2" "ready (n + k) st2"
    "copied disk st2 p 512 (512 * sec + 0)" "same_outside (region p 512 \<union> region buffer 512 \<union> W) (smem st) (smem st2)"
    using serves rdy sec \<open>0 + 512 \<le> 512\<close> ap1 ap by (rule read_copy)
  have "Suc sec + k \<le> 2 ^ 22" "region (p + 512) (512 * k) \<inter> (region buffer 512 \<union> W) = {}"
    using Suc.prems(2,3) split by auto
  from Suc.IH [OF st2(3) this] obtain st' where st': "fat_load_middle blk buffer k st2 (p + 512) (int (Suc sec)) = Some (st', p + 512 + of_nat (512 * k))"
    "ready n st'" "copied disk st' (p + 512) (512 * k) (512 * Suc sec)"
    "same_outside (region (p + 512) (512 * k) \<union> region buffer 512 \<union> W) (smem st2) (smem st')" by blast
  have "copied disk st' p (512 + 512 * k) (512 * sec)"
    by (rule copied_append [OF _ _ _ _ _, of disk st2 p 512 "512 * sec" st' "512 * k" buffer W])
      (use st2(4) st' Suc.prems(3) k in \<open>simp_all add: algebra_simps\<close>)
  moreover have "same_outside (region p (512 * Suc k) \<union> region buffer 512 \<union> W) (smem st) (smem st')"
  proof -
    have "same_outside (region p (512 * Suc k) \<union> region buffer 512 \<union> W) (smem st) (smem st2)"
      by (rule same_outside_mono [OF st2(5)]) (use split in blast)
    also have "same_outside (region p (512 * Suc k) \<union> region buffer 512 \<union> W) (smem st2) (smem st')"
      by (rule same_outside_mono [OF st'(4)]) (use split in blast)
    finally show ?thesis .
  qed
  ultimately show ?case
    using st2(1,2) st'(1,2) by (simp add: algebra_simps)
qed

lemma unat_numeral_512: "unat (512 :: u64) = 512"
  by simp

lemma sector_count_eq:
  fixes n offset :: u64
  assumes "unat n < 2 ^ 31"
  shows "c_int (n div 512 + (if n mod 512 = 0 then 0 else 1) + (if offset mod 512 = 0 then 0 else 1) :: u64) =
    int (ceil_div (unat n) 512 + (if unat offset mod 512 = 0 then 0 else 1))"
proof -
  let ?c = "ceil_div (unat n) 512 + (if unat offset mod 512 = 0 then 0 else 1)"
  have c: "?c < 2 ^ 31" using ceil_div_less [of 512 "unat n"] assms by simp
  have "offset mod 512 = 0 \<longleftrightarrow> unat offset mod 512 = 0" using unat_mod64 [of offset 512] by (metis unat_eq_0 unat_numeral_512)
  then have "n div 512 + (if n mod 512 = 0 then 0 else 1) + (if offset mod 512 = 0 then 0 else 1) = (of_nat ?c :: u64)"
    using word_ceil_div [of 512 n] by simp
  with c show ?thesis by (simp add: c_int_small unat_of_nat64 del: of_nat_add)
qed

lemma fat_load_tail:
  \<comment> \<open>the middle sectors and the first \<open>q\<close> bytes of the one after them\<close>
  assumes serves: "block_serves blk disk W ready" and ap: "region buffer 512 \<inter> W = {}" and rdy: "ready (Suc k + j) st"
    and sec: "sec + j < 2 ^ 22" and q: "q \<le> 512" and apart: "region p (512 * j + q) \<inter> (region buffer 512 \<union> W) = {}"
  obtains st1 st2 st' where "fat_load_middle blk buffer j st p (int sec) = Some (st1, p + of_nat (512 * j))"
    and "sector_read blk st1 buffer (int (sec + j)) = Some st2"
    and "st_memcpy st2 (p + of_nat (512 * j)) buffer (of_nat q) = Some st'" and "ready k st'"
    and "copied disk st' p (512 * j + q) (512 * sec)"
    and "same_outside (region p (512 * j + q) \<union> region buffer 512 \<union> W) (smem st) (smem st')"
proof -
  have split: "region p (512 * j + q) = region p (512 * j) \<union> region (p + of_nat (512 * j)) q"
    by (rule region_add) (use sec q in simp)
  have "region p (512 * j) \<inter> (region buffer 512 \<union> W) = {}" "sec + j \<le> 2 ^ 22" using apart sec unfolding split by auto
  from fat_load_middle_eq [OF serves ap rdy this(2,1)]
  obtain st1 where st1: "fat_load_middle blk buffer j st p (int sec) = Some (st1, p + of_nat (512 * j))" "ready (Suc k) st1"
    "copied disk st1 p (512 * j) (512 * sec)" "same_outside (region p (512 * j) \<union> region buffer 512 \<union> W) (smem st) (smem st1)"
    by blast
  have q0: "0 + q \<le> 512" using q by simp
  have apq: "region (p + of_nat (512 * j)) q \<inter> (region buffer 512 \<union> W) = {}" using apart unfolding split by blast
  obtain st2 st' where st': "sector_read blk st1 buffer (int (sec + j)) = Some st2"
    "st_memcpy st2 (p + of_nat (512 * j)) (buffer + of_nat 0) (of_nat q) = Some st'" "ready k st'"
    "copied disk st' (p + of_nat (512 * j)) q (512 * (sec + j) + 0)"
    "same_outside (region (p + of_nat (512 * j)) q \<union> region buffer 512 \<union> W) (smem st1) (smem st')"
    using serves st1(2) sec q0 apq ap by (rule read_copy)
  have "copied disk st' p (512 * j + q) (512 * sec)"
    by (rule copied_append [OF st1(3) _ st'(5)]) (use st'(4) apart sec q in \<open>simp_all add: algebra_simps\<close>)
  moreover have "same_outside (region p (512 * j + q) \<union> region buffer 512 \<union> W) (smem st) (smem st')"
  proof -
    have "same_outside (region p (512 * j + q) \<union> region buffer 512 \<union> W) (smem st) (smem st1)"
      by (rule same_outside_mono [OF st1(4)]) (use split in blast)
    also have "same_outside (region p (512 * j + q) \<union> region buffer 512 \<union> W) (smem st1) (smem st')"
      by (rule same_outside_mono [OF st'(5)]) (use split in blast)
    finally show ?thesis .
  qed
  ultimately show thesis using that [OF st1(1) st'(1)] st'(2,3) by simp
qed


lemma fat_load_data_ok:
  fixes offset n :: u64
  assumes serves: "block_serves blk disk W ready" and apb: "region buffer 512 \<inter> W = {}"
    and n: "0 < unat n" and small: "unat offset + unat n + 1024 < 2 ^ 31"
  defines "c \<equiv> ceil_div (unat n) 512" and "r \<equiv> unat offset mod 512"
  assumes rdy: "ready (k + c + (if r = 0 then 0 else 1)) st"
    and ap: "region ptr (512 * c) \<inter> (region buffer 512 \<union> W) = {}"
  obtains st' where "fat_load_data blk buffer st ptr offset n = Some st'" and "ready k st'"
    and "copied disk st' ptr (512 * c) (unat offset)"
    and "same_outside (region ptr (512 * c) \<union> region buffer 512 \<union> W) (smem st) (smem st')"
proof -
  define s where "s = unat offset div 512"
  define q where "q = (if r = 0 then 512 else r)"
  define N where "N = c + (if r = 0 then 0 else 1)"
  have r: "r < 512" and off: "unat offset = 512 * s + r" by (simp_all add: r_def s_def)
  have c: "0 < c" "512 * c < unat n + 512" using ceil_div_pos [of 512 "unat n"] ceil_div_less [of 512 "unat n"] n by (simp_all add: c_def)
  have N: "0 < N" using c by (simp add: N_def)
  have cut: "512 * c = 512 - r + (if N = 1 then 0 else 512 * (N - 2) + q)"
    using c r by (cases "r = 0") (auto simp: N_def q_def)
  have big: "s + N \<le> 2 ^ 22 - 1" using small off c r by (cases "r = 0") (simp_all add: N_def)
  have sec: "c_int (offset div 512) = int s" and rem: "c_int (offset mod 512) = int r"
    and count: "c_int (n div 512 + (if n mod 512 = 0 then 0 else 1) + (if offset mod 512 = 0 then 0 else 1)) = int N"
    using small sector_count_eq [of n offset]
    by (simp_all add: c_int_small unat_div64 unat_mod64 s_def r_def N_def c_def)
  have rdy': "ready (Suc (k + (N - 1))) st" using rdy c by (cases "r = 0") (simp_all add: N_def)
  have s22: "s < 2 ^ 22" using big N by simp
  have len: "r + (512 - r) \<le> 512" using r by simp
  have split: "region ptr (512 * c) = region ptr (512 - r) \<union> region (ptr + of_nat (512 - r)) (512 * c - (512 - r))"
    using region_add [of "512 - r" "512 * c - (512 - r)" ptr] cut c small by simp
  have ap1: "region ptr (512 - r) \<inter> (region buffer 512 \<union> W) = {}" using ap split by blast
  obtain st1 st2 where st2: "sector_read blk st buffer (int s) = Some st1"
    "st_memcpy st1 ptr (buffer + of_nat r) (of_nat (512 - r)) = Some st2" "ready (k + (N - 1)) st2"
    "copied disk st2 ptr (512 - r) (512 * s + r)" "same_outside (region ptr (512 - r) \<union> region buffer 512 \<union> W) (smem st) (smem st2)"
    using serves rdy' s22 len ap1 apb by (rule read_copy)
  have len_int: "(512 :: int) - int r = int (512 - r)" using r by simp
  note step = fat_load_data_def Let_def sec rem count st2(1) len_int of_int_of_nat_word st2(2)
  have frame: "same_outside (region ptr (512 * c) \<union> region buffer 512 \<union> W) (smem st) (smem st2)"
    by (rule same_outside_mono [OF st2(5)]) (use split in blast)
  show thesis
  proof (cases "N = 1")
    case True
    then have r0: "r = 0" and c1: "512 * c = 512 - r" using c cut by (simp_all add: N_def split: if_splits)
    have "fat_load_data blk buffer st ptr offset n = Some st2" unfolding step by (simp add: True st2(2))
    then show thesis using that [of st2] st2(3,4) frame True off unfolding c1 by simp
  next
    case False
    then have N2: "2 \<le> N" using N by simp
    have "k + (N - 1) = Suc k + (N - 2)" using N2 by simp
    then have rdy2: "ready (Suc k + (N - 2)) st2" using st2(3) by (simp only:)
    have j: "Suc s + (N - 2) < 2 ^ 22" "q \<le> 512" using big N2 r by (simp_all add: q_def)
    have rest: "512 * c - (512 - r) = 512 * (N - 2) + q" using cut False by simp
    have ap2: "region (ptr + of_nat (512 - r)) (512 * (N - 2) + q) \<inter> (region buffer 512 \<union> W) = {}" using ap split unfolding rest by blast
    obtain st3 st4 st' where st': "fat_load_middle blk buffer (N - 2) st2 (ptr + of_nat (512 - r)) (int (Suc s)) = Some (st3, ptr + of_nat (512 - r) + of_nat (512 * (N - 2)))"
      "sector_read blk st3 buffer (int (Suc s + (N - 2))) = Some st4"
      "st_memcpy st4 (ptr + of_nat (512 - r) + of_nat (512 * (N - 2))) buffer (of_nat q) = Some st'" "ready k st'"
      "copied disk st' (ptr + of_nat (512 - r)) (512 * (N - 2) + q) (512 * Suc s)"
      "same_outside (region (ptr + of_nat (512 - r)) (512 * (N - 2) + q) \<union> region buffer 512 \<union> W) (smem st2) (smem st')"
      using serves apb rdy2 j ap2 by (rule fat_load_tail)
    have last: "int_res (int N + int s) = Some (int (N + s))" "int_res (int (N + s) - 1) = Some (int (Suc s + (N - 2)))"
      using big N2 by (simp_all add: int_res_def is_int_def)
    have cnt: "nat (int (Suc s + (N - 2)) - int (Suc s)) = N - 2" by simp
    have q': "(if int r \<noteq> 0 then int r else 512) = int q" by (simp add: q_def)
    have suc: "int s + 1 = int (Suc s)" by simp
    have lt: "\<not> int N < 2" using N2 by simp
    have "fat_load_data blk buffer st ptr offset n = Some st'"
      unfolding step bind.bind_lunit if_not_P [OF lt] last suc cnt q' st'(1) prod.case st'(2) of_int_of_nat_word st'(3) ..
    moreover have "copied disk st' ptr (512 - r + (512 * (N - 2) + q)) (unat offset)"
      by (rule copied_append [OF _ _ st'(6)]) (use st2(4) st'(5) ap off cut False c small r in \<open>simp_all add: algebra_simps\<close>)
    moreover have "same_outside (region ptr (512 * c) \<union> region buffer 512 \<union> W) (smem st2) (smem st')"
      by (rule same_outside_mono [OF st'(6)]) (use split rest in auto)
    with frame have "same_outside (region ptr (512 * c) \<union> region buffer 512 \<union> W) (smem st) (smem st')" by (rule same_outside_trans)
    ultimately show thesis using that [of st'] st'(4) cut False by simp
  qed
qed

end
