(* ===== verification/Fs.thy ===== *)
theory Fs
  imports Fat
begin

text \<open>
  The file systems: \<open>kernel/fs/fs.c\<close>, \<open>kernel/fs/ram_fs.c\<close> and \<open>kernel/fs/fat_fs.c\<close>. An inode is a structure from a
  slab with a table of function pointers in it; the functions' addresses are decided by the
  linker, so they are a record \<open>symbols\<close> that the operations take. A call through a pointer runs the
  function at that address and has no result when there is none.
\<close>

section \<open>Definitions\<close>

abbreviation (input) FS_INODE_MAX :: u64 where "FS_INODE_MAX \<equiv> 32"

abbreviation (input) sizeof_inode :: u64 where "sizeof_inode \<equiv> 40"

abbreviation (input) sizeof_filesystem :: u64 where "sizeof_filesystem \<equiv> 24"

abbreviation (input) sizeof_ram_file :: u64 where "sizeof_ram_file \<equiv> 56"

abbreviation (input) sizeof_ram_filesystem :: u64 where "sizeof_ram_filesystem \<equiv> 8"

abbreviation (input) sizeof_ram_inode :: u64 where "sizeof_ram_inode \<equiv> 16"

abbreviation (input) RAMFILE_STARTSIZE :: int where "RAMFILE_STARTSIZE \<equiv> 4096"

abbreviation (input) sizeof_fat_handle :: nat where "sizeof_fat_handle \<equiv> 584"

abbreviation (input) sizeof_fat_inode :: u64 where "sizeof_fat_inode \<equiv> 536"

abbreviation (input) BUFFERSIZE :: int where "BUFFERSIZE \<equiv> 512"

record symbols =
  sym_ramfs_get :: addr
  sym_ramfs_put :: addr
  sym_ramfs_close :: addr
  sym_ramfs_open_internal :: addr
  sym_ramfs_create_internal :: addr
  sym_fatfs_get :: addr
  sym_fatfs_close :: addr
  sym_fatfs_left :: addr
  sym_fatfs_open :: addr

subsection \<open>Inodes and file systems\<close>

definition i_impl_inode :: "mem \<Rightarrow> addr \<Rightarrow> addr" where "i_impl_inode m inode = load64 m (fld inode 0)"

definition i_get :: "mem \<Rightarrow> addr \<Rightarrow> addr" where "i_get m inode = load64 m (fld inode 8)"

definition i_put :: "mem \<Rightarrow> addr \<Rightarrow> addr" where "i_put m inode = load64 m (fld inode 16)"

definition i_close :: "mem \<Rightarrow> addr \<Rightarrow> addr" where "i_close m inode = load64 m (fld inode 24)"

definition i_left :: "mem \<Rightarrow> addr \<Rightarrow> addr" where "i_left m inode = load64 m (fld inode 32)"

definition fs_open :: "mem \<Rightarrow> addr \<Rightarrow> addr" where "fs_open m fs = load64 m (fld fs 0)"

definition fs_create :: "mem \<Rightarrow> addr \<Rightarrow> addr" where "fs_create m fs = load64 m (fld fs 8)"

definition fs_arguments :: "mem \<Rightarrow> addr \<Rightarrow> addr" where "fs_arguments m fs = load64 m (fld fs 16)"

definition k_kalloc :: "kernel \<Rightarrow> u64 \<Rightarrow> (kernel \<times> addr) option" where
  "k_kalloc k sz = do {
     (m, h, p) \<leftarrow> kalloc (kmem k) (main_heap k) sz;
     Some (k\<lparr>kmem := m, main_heap := h\<rparr>, p)
   }"

definition k_kfree :: "kernel \<Rightarrow> addr \<Rightarrow> kernel option" where
  "k_kfree k p = do {
     (m, h) \<leftarrow> kfree (kmem k) (main_heap k) p;
     Some (k\<lparr>kmem := m, main_heap := h\<rparr>)
   }"

definition fs_init_slab :: "kernel \<Rightarrow> kernel option" where
  "fs_init_slab k = do {
     (k, slab_memory) \<leftarrow> k_kalloc k (slab_get_needed_size sizeof_inode FS_INODE_MAX);
     (m, slab) \<leftarrow> slab_create (kmem k) sizeof_inode FS_INODE_MAX slab_memory;
     Some (k\<lparr>kmem := m, inode_slab := slab\<rparr>)
   }"

definition fs_allocate_inode :: "kernel \<Rightarrow> (kernel \<times> addr) option" where
  "fs_allocate_inode k = do {
     (m, inode) \<leftarrow> slab_allocate (kmem k) (inode_slab k);
     Some (k\<lparr>kmem := m\<rparr>, inode)
   }"

definition fs_free_inode :: "kernel \<Rightarrow> addr \<Rightarrow> kernel option" where
  "fs_free_inode k inode = do {
     (m, _) \<leftarrow> slab_free (kmem k) (inode_slab k) inode;
     Some (k\<lparr>kmem := m\<rparr>)
   }"

definition fs_filesystem_setmain :: "kernel \<Rightarrow> addr \<Rightarrow> kernel" where
  "fs_filesystem_setmain k filesystem = k\<lparr>main_filesystem := filesystem\<rparr>"

definition fs_filesystem_getmain :: "kernel \<Rightarrow> addr" where
  "fs_filesystem_getmain k = main_filesystem k"

subsection \<open>Files in memory\<close>

definition rf_content :: "mem \<Rightarrow> addr \<Rightarrow> addr" where "rf_content m f = load64 m (fld f 32)"

definition rf_content_alloc :: "mem \<Rightarrow> addr \<Rightarrow> int" where "rf_content_alloc m f = sint (load32 m (fld f 40))"

definition rf_content_fill :: "mem \<Rightarrow> addr \<Rightarrow> int" where "rf_content_fill m f = sint (load32 m (fld f 44))"

definition rf_next :: "mem \<Rightarrow> addr \<Rightarrow> addr" where "rf_next m f = load64 m (fld f 48)"

definition ri_ram_file :: "mem \<Rightarrow> addr \<Rightarrow> addr" where "ri_ram_file m i = load64 m (fld i 0)"

definition ri_position :: "mem \<Rightarrow> addr \<Rightarrow> int" where "ri_position m i = sint (load32 m (fld i 8))"

definition rfs_head :: "mem \<Rightarrow> addr \<Rightarrow> addr" where "rfs_head m rfs = load64 m (fld rfs 0)"

definition ramfs_allocate_inode :: "symbols \<Rightarrow> kernel \<Rightarrow> addr \<Rightarrow> (kernel \<times> addr) option" where
  "ramfs_allocate_inode sy k ram_file = do {
     (k, inode) \<leftarrow> fs_allocate_inode k;
     (k, ram_inode) \<leftarrow> k_kalloc k sizeof_ram_inode;
     let m = store64 (kmem k) (fld inode 0) ram_inode;
     let m = store64 m (fld inode 24) (sym_ramfs_close sy);
     let m = store64 m (fld inode 8) (sym_ramfs_get sy);
     let m = store64 m (fld inode 16) (sym_ramfs_put sy);
     let m = store64 m (fld ram_inode 0) ram_file;
     let m = store32 m (fld ram_inode 8) 0;
     Some (k\<lparr>kmem := m\<rparr>, inode)
   }"

partial_function (option) ramfs_last :: "mem \<Rightarrow> addr \<Rightarrow> addr option" where
  \<comment> \<open>the loop to the last file of the list\<close>
  "ramfs_last m ptr = (if rf_next m ptr \<noteq> NULL then ramfs_last m (rf_next m ptr) else Some ptr)"

definition ramfs_create_internal :: "symbols \<Rightarrow> kernel \<Rightarrow> addr \<Rightarrow> addr \<Rightarrow> (kernel \<times> addr) option" where
  "ramfs_create_internal sy k filesystem filename = do {
     let ram_filesystem = fs_arguments (kmem k) filesystem;
     let ptr = rfs_head (kmem k) ram_filesystem;
     (k, new_file) \<leftarrow>
       (if ptr = NULL then do {
          (k, ptr) \<leftarrow> k_kalloc k sizeof_ram_file;
          Some (k\<lparr>kmem := store64 (kmem k) (fld ram_filesystem 0) ptr\<rparr>, ptr)
        } else do {
          ptr \<leftarrow> ramfs_last (kmem k) ptr;
          (k, p) \<leftarrow> k_kalloc k sizeof_ram_file;
          let m = store64 (kmem k) (fld ptr 48) p;
          Some (k\<lparr>kmem := m\<rparr>, rf_next m ptr)
        });
     let m = store64 (kmem k) (fld new_file 48) NULL;
     (m, _) \<leftarrow> strcpy m (fld new_file 0) filename;
     (k, content) \<leftarrow> k_kalloc (k\<lparr>kmem := m\<rparr>) (of_int RAMFILE_STARTSIZE);
     let m = store64 (kmem k) (fld new_file 32) content;
     let m = store32 m (fld new_file 40) (of_int RAMFILE_STARTSIZE);
     let m = store32 m (fld new_file 44) 0;
     ramfs_allocate_inode sy (k\<lparr>kmem := m\<rparr>) new_file
   }"

partial_function (option) ramfs_open_loop :: "symbols \<Rightarrow> kernel \<Rightarrow> addr \<Rightarrow> addr \<Rightarrow> (kernel \<times> addr) option" where
  \<comment> \<open>the body never changes \<open>ptr\<close>\<close>
  "ramfs_open_loop sy k filename ptr =
     (if ptr \<noteq> NULL then
        Option.bind (strcmp (kmem k) filename (fld ptr 0))
          (\<lambda>r. if r = 0 then ramfs_allocate_inode sy k ptr else ramfs_open_loop sy k filename ptr)
      else Some (k, NULL))"

definition ramfs_open_internal :: "symbols \<Rightarrow> kernel \<Rightarrow> addr \<Rightarrow> addr \<Rightarrow> (kernel \<times> addr) option" where
  "ramfs_open_internal sy k filesystem filename =
     (let ram_filesystem = fs_arguments (kmem k) filesystem;
          ptr = rfs_head (kmem k) ram_filesystem
      in ramfs_open_loop sy k filename ptr)"

definition ramfs_createfs :: "symbols \<Rightarrow> kernel \<Rightarrow> (kernel \<times> addr) option" where
  "ramfs_createfs sy k = do {
     (k, filesystem) \<leftarrow> k_kalloc k sizeof_filesystem;
     (k, ram_filesystem) \<leftarrow> k_kalloc k sizeof_ram_filesystem;
     let m = store64 (kmem k) (fld filesystem 8) (sym_ramfs_create_internal sy);
     let m = store64 m (fld filesystem 0) (sym_ramfs_open_internal sy);
     let m = store64 m (fld filesystem 16) ram_filesystem;
     Some (k\<lparr>kmem := m\<rparr>, filesystem)
   }"

definition ramfs_deletefs :: "kernel \<Rightarrow> addr \<Rightarrow> kernel option" where
  "ramfs_deletefs k filesystem = do {
     k \<leftarrow> k_kfree k (fs_arguments (kmem k) filesystem);
     k_kfree k filesystem
   }"

definition ramfs_get :: "mem \<Rightarrow> addr \<Rightarrow> addr \<Rightarrow> (mem \<times> int) option" where
  "ramfs_get m inode ptr = do {
     let ram_inode = i_impl_inode m inode;
     let ram_file = ri_ram_file m ram_inode;
     if ri_position m ram_inode < rf_content_fill m ram_file then do {
       let m = m(ptr := m (rf_content m ram_file + of_int (ri_position m ram_inode)));
       position \<leftarrow> int_res (ri_position m ram_inode + 1);
       Some (store32 m (fld ram_inode 8) (of_int position), 1)
     }
     else Some (m, 0)
   }"

definition ramfs_close :: "kernel \<Rightarrow> addr \<Rightarrow> (kernel \<times> int) option" where
  "ramfs_close k inode = do {
     let ram_inode = i_impl_inode (kmem k) inode;
     k \<leftarrow> k_kfree k ram_inode;
     k \<leftarrow> fs_free_inode k inode;
     Some (k, 0)
   }"

definition ramfs_put :: "mem \<Rightarrow> addr \<Rightarrow> u8 \<Rightarrow> (mem \<times> int) option" where
  "ramfs_put m inode c = do {
     let ram_inode = i_impl_inode m inode;
     let ram_file = ri_ram_file m ram_inode;
     if ri_position m ram_inode \<ge> rf_content_alloc m ram_file then Some (m, 0)
     else do {
       let m = m(rf_content m ram_file + of_int (ri_position m ram_inode) := c);
       position \<leftarrow> int_res (ri_position m ram_inode + 1);
       let m = store32 m (fld ram_inode 8) (of_int position);
       fill_count \<leftarrow> int_res (rf_content_fill m ram_file + 1);
       Some (store32 m (fld ram_file 44) (of_int fill_count), 1)
     }
   }"

subsection \<open>Files on a FAT disk\<close>

definition fi_fat16_dir_entry :: "mem \<Rightarrow> addr \<Rightarrow> addr" where "fi_fat16_dir_entry m i = load64 m (fld i 0)"

definition fi_fat_handle :: "mem \<Rightarrow> addr \<Rightarrow> addr" where "fi_fat_handle m i = load64 m (fld i 8)"

definition fi_position :: "mem \<Rightarrow> addr \<Rightarrow> int" where "fi_position m i = sint (load32 m (fld i 528))"

definition fi_loaded_buffer_index :: "mem \<Rightarrow> addr \<Rightarrow> int" where "fi_loaded_buffer_index m i = sint (load32 m (fld i 532))"

definition vread :: "kernel \<Rightarrow> addr \<Rightarrow> u8 option" where
  \<comment> \<open>a load through the translation tables, for pointers that may come from a user program: a
    translation fault has no result\<close>
  "vread k va =
     (if SCTLR_EL1 (regs k) AND 1 = 0 then Some (kmem k va)
      else map_option (\<lambda>t. kmem k (out_address t)) (pt_walk (kmem k) (TTBR0_EL1 (regs k)) va))"

record fatfs_frame = fat_frame +
  handle_temp :: addr
  open_name :: addr
  open_ext :: addr

definition kget :: "'d \<times> machine \<Rightarrow> kernel" where "kget st = kern (snd st)"

definition kput :: "'d \<times> machine \<Rightarrow> kernel \<Rightarrow> 'd \<times> machine" where "kput st k = (fst st, (snd st)\<lparr>kern := k\<rparr>)"

definition fatfs_createfs :: "symbols \<Rightarrow> 'd block \<Rightarrow> fatfs_frame \<Rightarrow> 'd \<times> machine \<Rightarrow> addr \<Rightarrow> (('d \<times> machine) \<times> addr) option" where
  \<comment> \<open>\<open>fat_load\<close> fills the temporary \<open>handle_temp\<close>, which is then assigned to the allocated handle\<close>
  "fatfs_createfs sy blk f st block_ptr = do {
     (st, fat) \<leftarrow> st_kalloc st (of_nat sizeof_fat_handle);
     st \<leftarrow> fat_load blk (load_buffer f) st (handle_temp f) block_ptr;
     st \<leftarrow> st_memcpy st fat (handle_temp f) (of_nat sizeof_fat_handle);
     (st, fs) \<leftarrow> st_kalloc st sizeof_filesystem;
     let m = store64 (smem st) (fld fs 16) fat;
     let m = store64 m (fld fs 0) (sym_fatfs_open sy);
     Some (set_smem st m, fs)
   }"

definition fatfs_deletefs :: "'d \<times> machine \<Rightarrow> addr \<Rightarrow> ('d \<times> machine) option" where
  "fatfs_deletefs st filesystem = do {
     st \<leftarrow> st_kfree st (fs_arguments (smem st) filesystem);
     st_kfree st filesystem
   }"

partial_function (option) fatfs_split_loop :: "kernel \<Rightarrow> u8 \<Rightarrow> addr \<Rightarrow> nat \<Rightarrow> addr \<Rightarrow> (kernel \<times> nat \<times> addr) option" where
  \<comment> \<open>copies to \<open>dest[index]\<close> up to the character \<open>stop\<close>\<close>
  "fatfs_split_loop k stop dest index filename =
     Option.bind (vread k filename)
       (\<lambda>c. if c \<noteq> stop then fatfs_split_loop (k\<lparr>kmem := (kmem k)(fld dest index := c)\<rparr>) stop dest (Suc index) (filename + 1)
            else Some (k, index, filename))"

definition fatfs_open :: "symbols \<Rightarrow> fatfs_frame \<Rightarrow> kernel \<Rightarrow> addr \<Rightarrow> addr \<Rightarrow> (kernel \<times> addr) option" where
  "fatfs_open sy f k filesystem filename = do {
     let fat_handle = fs_arguments (kmem k) filesystem;
     (k, inode) \<leftarrow> fs_allocate_inode k;
     (k, index, filename) \<leftarrow> fatfs_split_loop k 0x2e (open_name f) 0 filename;
     let k = k\<lparr>kmem := (kmem k)(fld (open_name f) index := 0)\<rparr>;
     let filename = filename + 1;
     (k, index, filename) \<leftarrow> fatfs_split_loop k 0 (open_ext f) 0 filename;
     let k = k\<lparr>kmem := (kmem k)(fld (open_ext f) index := 0)\<rparr>;
     (m, entry) \<leftarrow> fat_get_entry_by_file (fat_frame.truncate f) (kmem k) fat_handle (open_name f) (open_ext f);
     (k, fat_inode) \<leftarrow> k_kalloc (k\<lparr>kmem := m\<rparr>) sizeof_fat_inode;
     let m = store64 (kmem k) (fld inode 0) fat_inode;
     let m = store64 m (fld fat_inode 8) fat_handle;
     let m = store64 m (fld fat_inode 0) entry;
     let m = store32 m (fld fat_inode 528) 0;
     let m = store32 m (fld fat_inode 532) (- 1);
     let m = store64 m (fld inode 24) (sym_fatfs_close sy);
     let m = store64 m (fld inode 8) (sym_fatfs_get sy);
     let m = store64 m (fld inode 16) NULL;
     let m = store64 m (fld inode 32) (sym_fatfs_left sy);
     Some (k\<lparr>kmem := m\<rparr>, inode)
   }"

definition fatfs_read :: "'d block \<Rightarrow> fatfs_frame \<Rightarrow> 'd \<times> machine \<Rightarrow> addr \<Rightarrow> addr \<Rightarrow> (('d \<times> machine) \<times> int) option" where
  "fatfs_read blk f st inode ptr = do {
     let fat_inode = i_impl_inode (smem st) inode;
     st \<leftarrow> fat_read_entry blk (load_buffer f) st (fi_fat_handle (smem st) fat_inode) (fi_fat16_dir_entry (smem st) fat_inode) ptr;
     Some (st, 0)
   }"

definition fatfs_get :: "'d block \<Rightarrow> fatfs_frame \<Rightarrow> 'd \<times> machine \<Rightarrow> addr \<Rightarrow> addr \<Rightarrow> (('d \<times> machine) \<times> int) option" where
  \<comment> \<open>the comparison of the signed position with the unsigned size is unsigned\<close>
  "fatfs_get blk f st inode ptr = do {
     let fat_inode = i_impl_inode (smem st) inode;
     let fat_handle = fi_fat_handle (smem st) fat_inode;
     let entry = fi_fat16_dir_entry (smem st) fat_inode;
     if (of_int (fi_position (smem st) fat_inode) :: u32) \<ge> e_filesize_bytes (smem st) entry then Some (st, 0)
     else do {
       let req_buffer_index = fi_position (smem st) fat_inode sdiv BUFFERSIZE;
       let req_buffer_offset = fi_position (smem st) fat_inode smod BUFFERSIZE;
       st \<leftarrow>
         (if req_buffer_index \<noteq> fi_loaded_buffer_index (smem st) fat_inode then
            fat_read_entry_offset_size blk (load_buffer f)
              (set_smem st (store32 (smem st) (fld fat_inode 532) (of_int req_buffer_index)))
              fat_handle entry (fld fat_inode 16) (BUFFERSIZE * req_buffer_index) BUFFERSIZE
          else Some st);
       let m = (smem st)(ptr := smem st (fld fat_inode 16 + of_int req_buffer_offset));
       position \<leftarrow> int_res (fi_position m fat_inode + 1);
       Some (set_smem st (store32 m (fld fat_inode 528) (of_int position)), 1)
     }
   }"

definition fatfs_close :: "kernel \<Rightarrow> addr \<Rightarrow> (kernel \<times> int) option" where
  "fatfs_close k inode = do {
     let fat_inode = i_impl_inode (kmem k) inode;
     k \<leftarrow> k_kfree k fat_inode;
     k \<leftarrow> fs_free_inode k inode;
     Some (k, 0)
   }"

definition fatfs_left :: "mem \<Rightarrow> addr \<Rightarrow> int" where
  "fatfs_left m inode =
     (let fat_inode = i_impl_inode m inode
      in sint (e_filesize_bytes m (fi_fat16_dir_entry m fat_inode) - of_int (fi_position m fat_inode)))"

subsection \<open>Calls through the tables\<close>

definition fs_inode_get :: "symbols \<Rightarrow> 'd block \<Rightarrow> fatfs_frame \<Rightarrow> 'd \<times> machine \<Rightarrow> addr \<Rightarrow> addr \<Rightarrow> (('d \<times> machine) \<times> int) option" where
  "fs_inode_get sy blk f st inode ptr =
     (if i_get (smem st) inode = sym_ramfs_get sy then do { (m, r) \<leftarrow> ramfs_get (smem st) inode ptr; Some (set_smem st m, r) }
      else if i_get (smem st) inode = sym_fatfs_get sy then fatfs_get blk f st inode ptr
      else None)"

definition fs_inode_put :: "symbols \<Rightarrow> 'd \<times> machine \<Rightarrow> addr \<Rightarrow> u8 \<Rightarrow> (('d \<times> machine) \<times> int) option" where
  "fs_inode_put sy st inode c =
     (if i_put (smem st) inode = sym_ramfs_put sy then do { (m, r) \<leftarrow> ramfs_put (smem st) inode c; Some (set_smem st m, r) }
      else None)"

definition fs_inode_close :: "symbols \<Rightarrow> kernel \<Rightarrow> addr \<Rightarrow> (kernel \<times> int) option" where
  "fs_inode_close sy k inode =
     (if i_close (kmem k) inode = sym_ramfs_close sy then ramfs_close k inode
      else if i_close (kmem k) inode = sym_fatfs_close sy then fatfs_close k inode
      else None)"

definition fs_inode_left :: "symbols \<Rightarrow> mem \<Rightarrow> addr \<Rightarrow> int option" where
  "fs_inode_left sy m inode =
     (if i_left m inode = sym_fatfs_left sy then Some (fatfs_left m inode) else None)"

definition call_open :: "symbols \<Rightarrow> fatfs_frame \<Rightarrow> kernel \<Rightarrow> addr \<Rightarrow> addr \<Rightarrow> (kernel \<times> addr) option" where
  \<comment> \<open>\<open>fs->open(fs, filename)\<close>\<close>
  "call_open sy f k fs filename =
     (if fs_open (kmem k) fs = sym_ramfs_open_internal sy then ramfs_open_internal sy k fs filename
      else if fs_open (kmem k) fs = sym_fatfs_open sy then fatfs_open sy f k fs filename
      else None)"

definition call_create :: "symbols \<Rightarrow> kernel \<Rightarrow> addr \<Rightarrow> addr \<Rightarrow> (kernel \<times> addr) option" where
  \<comment> \<open>\<open>fs->create(fs, filename)\<close>\<close>
  "call_create sy k fs filename =
     (if fs_create (kmem k) fs = sym_ramfs_create_internal sy then ramfs_create_internal sy k fs filename
      else None)"

section \<open>Inodes and writes elsewhere\<close>

lemma inode_frame:
  assumes w: "same_outside X m m'" and ap: "region inode 40 \<inter> X = {}"
  shows "i_impl_inode m' inode = i_impl_inode m inode" "i_get m' inode = i_get m inode" "i_put m' inode = i_put m inode"
    "i_close m' inode = i_close m inode" "i_left m' inode = i_left m inode"
  by (simp_all add: i_impl_inode_def i_get_def i_put_def i_close_def i_left_def load_frame [OF w ap] del: fld_0)

end
