(* ===== verification/Elf.thy ===== *)
theory Elf
  imports Job
begin

text \<open>
  The ELF reader: \<open>kernel/elf/elf.c\<close> and \<open>kernel/elf/filebuffer.c\<close>. An \<open>ELF\<close> structure is 120 bytes of memory with a
  copy of the file's header in it and pointers to copies of the header tables and of the section
  names, which come from the kernel heap.
\<close>

section \<open>Definitions\<close>

subsection \<open>File buffers\<close>

definition filebuffer_frombuffer :: "addr \<Rightarrow> addr" where
  \<comment> \<open>a file buffer is its only field\<close>
  "filebuffer_frombuffer buffer = buffer"

primrec filebuffer_loop :: "nat \<Rightarrow> mem \<Rightarrow> addr \<Rightarrow> addr \<Rightarrow> mem" where
  \<comment> \<open>with the number of bytes left\<close>
  "filebuffer_loop 0 m char_ptr src = m"
| "filebuffer_loop (Suc bytes) m char_ptr src = filebuffer_loop bytes (m(char_ptr := m src)) (char_ptr + 1) (src + 1)"

definition filebuffer_read_at_position :: "mem \<Rightarrow> addr \<Rightarrow> u64 \<Rightarrow> u64 \<Rightarrow> int \<Rightarrow> addr \<Rightarrow> mem" where
  "filebuffer_read_at_position m ptr offset_bytes size_bytes count filewrap =
     (let src = filewrap + offset_bytes;
          bytes = size_bytes * of_int count
      in filebuffer_loop (unat bytes) m ptr src)"

subsection \<open>The structures\<close>

abbreviation (input) sizeof_Ehdr :: u64 where "sizeof_Ehdr \<equiv> 64"

abbreviation (input) sizeof_Shdr :: u64 where "sizeof_Shdr \<equiv> 64"

abbreviation (input) sizeof_Phdr :: u64 where "sizeof_Phdr \<equiv> 56"

abbreviation (input) sizeof_ELF :: nat where "sizeof_ELF \<equiv> 120"

abbreviation (input) ELF_MAGIC_NUMBER :: u8 where "ELF_MAGIC_NUMBER \<equiv> 0x7f"

definition elf_file :: "mem \<Rightarrow> addr \<Rightarrow> addr" where "elf_file m elf = load64 m (fld elf 0)"

definition header_loaded :: "mem \<Rightarrow> addr \<Rightarrow> bool" where "header_loaded m elf \<longleftrightarrow> load32 m (fld elf 8) \<noteq> 0"

definition elf_header :: "addr \<Rightarrow> addr" where "elf_header elf = fld elf 12"

definition section_headers_loaded :: "mem \<Rightarrow> addr \<Rightarrow> bool" where "section_headers_loaded m elf \<longleftrightarrow> load32 m (fld elf 76) \<noteq> 0"

definition section_headers :: "mem \<Rightarrow> addr \<Rightarrow> addr" where "section_headers m elf = load64 m (fld elf 80)"

definition strings_section_loaded :: "mem \<Rightarrow> addr \<Rightarrow> bool" where "strings_section_loaded m elf \<longleftrightarrow> load32 m (fld elf 88) \<noteq> 0"

definition strings_section :: "mem \<Rightarrow> addr \<Rightarrow> addr" where "strings_section m elf = load64 m (fld elf 96)"

definition program_headers_loaded :: "mem \<Rightarrow> addr \<Rightarrow> bool" where "program_headers_loaded m elf \<longleftrightarrow> load32 m (fld elf 104) \<noteq> 0"

definition program_headers :: "mem \<Rightarrow> addr \<Rightarrow> addr" where "program_headers m elf = load64 m (fld elf 112)"

definition e_entry :: "mem \<Rightarrow> addr \<Rightarrow> u64" where "e_entry m hdr = load64 m (fld hdr 24)"

definition e_phoff :: "mem \<Rightarrow> addr \<Rightarrow> u64" where "e_phoff m hdr = load64 m (fld hdr 32)"

definition e_shoff :: "mem \<Rightarrow> addr \<Rightarrow> u64" where "e_shoff m hdr = load64 m (fld hdr 40)"

definition e_phentsize :: "mem \<Rightarrow> addr \<Rightarrow> u16" where "e_phentsize m hdr = load16 m (fld hdr 54)"

definition e_phnum :: "mem \<Rightarrow> addr \<Rightarrow> u16" where "e_phnum m hdr = load16 m (fld hdr 56)"

definition e_shentsize :: "mem \<Rightarrow> addr \<Rightarrow> u16" where "e_shentsize m hdr = load16 m (fld hdr 58)"

definition e_shnum :: "mem \<Rightarrow> addr \<Rightarrow> u16" where "e_shnum m hdr = load16 m (fld hdr 60)"

definition e_shstrndx :: "mem \<Rightarrow> addr \<Rightarrow> u16" where "e_shstrndx m hdr = load16 m (fld hdr 62)"

definition p_offset :: "mem \<Rightarrow> addr \<Rightarrow> u64" where "p_offset m ph = load64 m (fld ph 8)"

definition p_memsz :: "mem \<Rightarrow> addr \<Rightarrow> u64" where "p_memsz m ph = load64 m (fld ph 40)"

definition sh_name :: "mem \<Rightarrow> addr \<Rightarrow> u32" where "sh_name m sh = load32 m (fld sh 0)"

definition sh_offset :: "mem \<Rightarrow> addr \<Rightarrow> u64" where "sh_offset m sh = load64 m (fld sh 24)"

definition sh_size :: "mem \<Rightarrow> addr \<Rightarrow> u64" where "sh_size m sh = load64 m (fld sh 32)"

subsection \<open>Operations\<close>

definition elf_fromfilebuffer :: "mem \<Rightarrow> addr \<Rightarrow> addr \<Rightarrow> mem" where
  \<comment> \<open>the structure is initialised at \<open>elf\<close>: the fields that are not named are zero\<close>
  "elf_fromfilebuffer m elf file = store64 (fill elf sizeof_ELF 0 m) (fld elf 0) file"

definition elf_parseheader :: "mem \<Rightarrow> addr \<Rightarrow> mem \<times> int" where
  "elf_parseheader m elf =
     (let hdr_len = sizeof_Ehdr;
          m = filebuffer_read_at_position m (elf_header elf) 0 hdr_len 1 (elf_file m elf)
      in if m (elf_header elf) \<noteq> ELF_MAGIC_NUMBER then (m, 0)
         else (store32 m (fld elf 8) 1, 1))"

definition elf_get_sectionentries :: "mem \<Rightarrow> addr \<Rightarrow> int" where
  "elf_get_sectionentries m elf = (if \<not> header_loaded m elf then - 1 else uint (e_shnum m (elf_header elf)))"

definition elf_get_programentries :: "mem \<Rightarrow> addr \<Rightarrow> int" where
  "elf_get_programentries m elf = (if \<not> header_loaded m elf then - 1 else uint (e_phnum m (elf_header elf)))"

definition elf_get_sectionheaders_bytes :: "mem \<Rightarrow> addr \<Rightarrow> u64" where
  "elf_get_sectionheaders_bytes m elf =
     (if \<not> header_loaded m elf then - 1 else sizeof_Shdr * ucast (e_shnum m (elf_header elf)))"

definition elf_get_programheaders_bytes :: "mem \<Rightarrow> addr \<Rightarrow> u64" where
  "elf_get_programheaders_bytes m elf =
     (if \<not> header_loaded m elf then - 1 else sizeof_Phdr * ucast (e_phnum m (elf_header elf)))"

definition elf_load_sectionheaders :: "mem \<Rightarrow> addr \<Rightarrow> mem \<times> int" where
  "elf_load_sectionheaders m elf =
     (if \<not> header_loaded m elf then (m, 0)
      else if section_headers m elf = NULL then (m, 0)
      else
        let hdr = elf_header elf;
            m = filebuffer_read_at_position m (section_headers m elf) (e_shoff m hdr)
              (ucast (e_shentsize m hdr)) (uint (e_shnum m hdr)) (elf_file m elf)
        in (store32 m (fld elf 76) 1, 1))"

definition elf_load_programheaders :: "mem \<Rightarrow> addr \<Rightarrow> mem \<times> int" where
  "elf_load_programheaders m elf =
     (if \<not> header_loaded m elf then (m, 0)
      else if program_headers m elf = NULL then (m, 0)
      else
        let hdr = elf_header elf;
            m = filebuffer_read_at_position m (program_headers m elf) (e_phoff m hdr)
              (ucast (e_phentsize m hdr)) (uint (e_phnum m hdr)) (elf_file m elf)
        in (store32 m (fld elf 104) 1, 1))"

definition elf_get_sectionsize :: "mem \<Rightarrow> addr \<Rightarrow> int \<Rightarrow> u64" where
  "elf_get_sectionsize m elf index =
     (if \<not> section_headers_loaded m elf then - 1
      else if index < 0 \<or> index \<ge> uint (e_shnum m (elf_header elf)) then - 1
      else sh_size m (section_headers m elf + of_int (64 * index)))"

definition elf_get_stringsectionsize :: "mem \<Rightarrow> addr \<Rightarrow> u64" where
  "elf_get_stringsectionsize m elf = elf_get_sectionsize m elf (uint (e_shstrndx m (elf_header elf)))"

definition elf_get_sectionheader_byid :: "mem \<Rightarrow> addr \<Rightarrow> int \<Rightarrow> addr" where
  "elf_get_sectionheader_byid m elf index =
     (if \<not> section_headers_loaded m elf then NULL
      else if index < 0 \<or> index \<ge> uint (e_shnum m (elf_header elf)) then NULL
      else section_headers m elf + of_int (64 * index))"

definition elf_load_strings_section :: "mem \<Rightarrow> addr \<Rightarrow> mem \<times> int" where
  "elf_load_strings_section m elf =
     (if \<not> section_headers_loaded m elf then (m, 0)
      else if strings_section m elf = NULL then (m, 0)
      else
        let header = elf_get_sectionheader_byid m elf (uint (e_shstrndx m (elf_header elf)));
            offset = sh_offset m header;
            sz = sh_size m header;
            m = store32 m (fld elf 88) 1;
            m = filebuffer_read_at_position m (strings_section m elf) offset sz 1 (elf_file m elf)
        in (m, 1))"

primrec elf_nameoffset_loop :: "mem \<Rightarrow> nat \<Rightarrow> addr \<Rightarrow> int \<Rightarrow> addr" where
  \<comment> \<open>with the number of headers left\<close>
  "elf_nameoffset_loop m 0 ptr index = NULL"
| "elf_nameoffset_loop m (Suc n) ptr index =
     (if sh_name m ptr = of_int index then ptr else elf_nameoffset_loop m n (ptr + 64) index)"

definition elf_get_sectionheader_bynameoffset :: "mem \<Rightarrow> addr \<Rightarrow> int \<Rightarrow> addr" where
  "elf_get_sectionheader_bynameoffset m elf index =
     (if \<not> section_headers_loaded m elf then NULL
      else elf_nameoffset_loop m (unat (e_shnum m (elf_header elf))) (section_headers m elf) index)"

function elf_byname_loop :: "mem \<Rightarrow> addr \<Rightarrow> addr \<Rightarrow> u64 \<Rightarrow> int \<Rightarrow> u64 \<Rightarrow> addr option" where
  "elf_byname_loop m elf name section_len current_string_first_index current_char_index =
     (if current_char_index < section_len then
        if m (strings_section m elf + current_char_index) \<noteq> 0
        then elf_byname_loop m elf name section_len current_string_first_index (current_char_index + 1)
        else
          (case strcmp m name (strings_section m elf + of_int current_string_first_index) of
             None \<Rightarrow> None
           | Some r \<Rightarrow>
               if r = 0 then Some (elf_get_sectionheader_bynameoffset m elf current_string_first_index)
               else elf_byname_loop m elf name section_len (c_int (current_char_index + 1)) (current_char_index + 1))
      else Some NULL)"
  by pat_completeness auto
termination
proof (relation "measure (\<lambda>(m, elf, name, len, first, i). unat len - unat i)")
  have less: "unat len - unat (i + 1) < unat len - unat i" if "i < len" for i len :: u64
    using that unat_less64 [of len] by (simp add: word_less_nat_alt unat_add64)
  show "((m, elf, name, len, first, i + 1), m, elf, name, len, first, i) \<in> measure (\<lambda>(m, elf, name, len, first, i). unat len - unat i)"
    if "i < len" for m :: mem and elf name :: addr and len i :: u64 and first :: int
    using less [OF that] by simp
  show "((m, elf, name, len, c_int (i + 1), i + 1), m, elf, name, len, first, i) \<in> measure (\<lambda>(m, elf, name, len, first, i). unat len - unat i)"
    if "i < len" for m :: mem and elf name :: addr and len i :: u64 and first :: int
    using less [OF that] by simp
qed simp

declare elf_byname_loop.simps [simp del]

definition elf_get_sectionheader_byname :: "mem \<Rightarrow> addr \<Rightarrow> addr \<Rightarrow> addr option" where
  "elf_get_sectionheader_byname m elf name =
     (if \<not> strings_section_loaded m elf then Some NULL
      else elf_byname_loop m elf name (elf_get_stringsectionsize m elf) 0 0)"

definition elf_dump_section_content :: "mem \<Rightarrow> addr \<Rightarrow> addr \<Rightarrow> addr \<Rightarrow> mem" where
  "elf_dump_section_content m elf section ptr =
     (let sz = sh_size m section;
          offset = sh_offset m section
      in filebuffer_read_at_position m ptr offset sz 1 (elf_file m elf))"

definition elf_get_programheader_byid :: "mem \<Rightarrow> addr \<Rightarrow> int \<Rightarrow> addr" where
  "elf_get_programheader_byid m elf index =
     (if \<not> program_headers_loaded m elf then NULL else program_headers m elf + of_int (56 * index))"

definition elf_get_programheader_count :: "mem \<Rightarrow> addr \<Rightarrow> u64" where
  "elf_get_programheader_count m elf = ucast (e_phnum m (elf_header elf))"

definition elf_dump_program_content :: "mem \<Rightarrow> addr \<Rightarrow> addr \<Rightarrow> addr \<Rightarrow> mem" where
  "elf_dump_program_content m elf program ptr =
     (let sz = p_memsz m program;
          offset = p_offset m program
      in filebuffer_read_at_position m ptr offset sz 1 (elf_file m elf))"

definition elf_get_entrypoint :: "mem \<Rightarrow> addr \<Rightarrow> u64" where
  "elf_get_entrypoint m elf = e_entry m (elf_header elf)"

definition elf_alloc_and_parse :: "mem \<Rightarrow> heap \<Rightarrow> addr \<Rightarrow> (mem \<times> heap) option" where
  "elf_alloc_and_parse m h elf = do {
     let (m, _) = elf_parseheader m elf;
     (m, h, p) \<leftarrow> kalloc m h (elf_get_sectionheaders_bytes m elf);
     let m = store64 m (fld elf 80) p;
     let (m, _) = elf_load_sectionheaders m elf;
     (m, h, p) \<leftarrow> kalloc m h (elf_get_programheaders_bytes m elf);
     let m = store64 m (fld elf 112) p;
     let (m, _) = elf_load_programheaders m elf;
     (m, h, p) \<leftarrow> kalloc m h (elf_get_stringsectionsize m elf);
     let m = store64 m (fld elf 96) p;
     let (m, _) = elf_load_strings_section m elf;
     Some (m, h)
   }"

definition elf_free :: "mem \<Rightarrow> heap \<Rightarrow> addr \<Rightarrow> (mem \<times> heap) option" where
  "elf_free m h elf = do {
     (m, h) \<leftarrow> kfree m h (section_headers m elf);
     (m, h) \<leftarrow> kfree m h (program_headers m elf);
     kfree m h (strings_section m elf)
   }"

end
