(* ===== verification/Process.thy ===== *)
theory Process
  imports Fs Elf
begin

text \<open>
  Programs become processes: \<open>job_create_from_file\<close> of \<open>kernel/mp/job.c\<close>, which reads a file, parses it as ELF,
  makes page tables for a new address space, and copies the program to its virtual address after
  switching to those tables. The copy goes through the translation of every address.
\<close>

section \<open>Definitions\<close>

record kernel_frame = fatfs_frame +
  elf_local :: addr
  char_local :: addr
  page_slab_ptr :: addr
  kernel_paging_ptr :: addr
  disk_local :: addr
  req_local :: addr
  block_global :: addr
  lit_init_elf :: addr
  lit_init :: addr
  lit_syscall :: addr

definition vwrite :: "kernel \<Rightarrow> addr \<Rightarrow> u8 \<Rightarrow> kernel option" where
  \<comment> \<open>a store through the translation tables; a fault has no result\<close>
  "vwrite k va c =
     (if SCTLR_EL1 (regs k) AND 1 = 0 then Some (k\<lparr>kmem := (kmem k)(va := c)\<rparr>)
      else case pt_walk (kmem k) (TTBR0_EL1 (regs k)) va of
             None \<Rightarrow> None
           | Some t \<Rightarrow> if write_protected t then None else Some (k\<lparr>kmem := (kmem k)(out_address t := c)\<rparr>))"

primrec vcopy_loop :: "nat \<Rightarrow> kernel \<Rightarrow> addr \<Rightarrow> addr \<Rightarrow> kernel option" where
  \<comment> \<open>the loop of \<open>filebuffer_read_at_position\<close> on virtual addresses\<close>
  "vcopy_loop 0 k char_ptr src = Some k"
| "vcopy_loop (Suc bytes) k char_ptr src = do {
     c \<leftarrow> vread k src;
     k \<leftarrow> vwrite k char_ptr c;
     vcopy_loop bytes k (char_ptr + 1) (src + 1)
   }"

definition elf_dump_program_virtual :: "kernel \<Rightarrow> addr \<Rightarrow> addr \<Rightarrow> addr \<Rightarrow> kernel option" where
  \<comment> \<open>\<open>elf_dump_program_content\<close> under the translation tables of a process. The structures of the loader are in the kernel's
    half, below 2 GB, which these tables map to itself\<close>
  "elf_dump_program_virtual k elf program ptr =
     (let sz = p_memsz (kmem k) program;
          offset = p_offset (kmem k) program
      in vcopy_loop (unat (sz * 1)) k ptr (elf_file (kmem k) elf + offset))"

partial_function (option) job_read_loop ::
  "symbols \<Rightarrow> 'd block \<Rightarrow> fatfs_frame \<Rightarrow> 'd \<times> machine \<Rightarrow> addr \<Rightarrow> addr \<Rightarrow> ('d \<times> machine) option" where
  "job_read_loop sy blk f st inode ptr =
     Option.bind (fs_inode_get sy blk f st inode ptr)
       (\<lambda>(st, r). if r \<noteq> 0 then job_read_loop sy blk f st inode (ptr + 1) else Some st)"

definition job_create_from_file ::
  "symbols \<Rightarrow> 'd block \<Rightarrow> kernel_frame \<Rightarrow> 'd \<times> machine \<Rightarrow> addr \<Rightarrow> addr \<Rightarrow> (('d \<times> machine) \<times> addr) option" where
  "job_create_from_file sy blk f st inode name = do {
     file_size \<leftarrow> fs_inode_left sy (smem st) inode;
     (st, init_mem) \<leftarrow> st_kalloc st (of_int file_size);
     st \<leftarrow> job_read_loop sy blk (fatfs_frame.truncate f) st inode init_mem;
     (k, _) \<leftarrow> fs_inode_close sy (kget st) inode;
     let fb = filebuffer_frombuffer init_mem;
     let elf = elf_local f;
     let m = elf_fromfilebuffer (kmem k) elf fb;
     (m, h) \<leftarrow> elf_alloc_and_parse m (main_heap k) elf;
     let program_header = elf_get_programheader_byid m elf 0;
     (k, pm, allocated_size) \<leftarrow> job_create_paging (k\<lparr>kmem := m, main_heap := h\<rparr>) (page_slab_ptr f) (c_int (p_memsz m program_header));
     let (k, old_paging) = apply_paging k pm;
     k \<leftarrow> elf_dump_program_virtual k elf program_header JOB_BASE_USER;
     let (k, _) = apply_paging k old_paging;
     (m, h) \<leftarrow> elf_free (kmem k) (main_heap k) elf;
     (k, job) \<leftarrow> job_create (k\<lparr>kmem := m, main_heap := h\<rparr>) (e_entry m (elf_header elf))
       (JOB_BASE_USER + of_int allocated_size) name pm;
     Some (kput st k, job)
   }"

end
