(* ===== verification/Exceptions.thy ===== *)
theory Exceptions
  imports Process
begin

text \<open>
  Exceptions, system calls and the start of the kernel: \<open>kernel/exceptions/exceptions.c\<close> and \<open>kernel/start.c\<close>. The
  handlers receive the address of the registers that the entry code pushed; \<open>REG\<close> reads one of them.
  Strings of a user program are read through its translation tables. What the exception syndrome
  register holds is given by the hardware. The interrupt handler \<open>exceptions_handle_fiq\<close> is in \<open>Virtio\<close>, where the disk driver waits for it.
\<close>

section \<open>Definitions\<close>

abbreviation (input) ESR_EC_OFFSET :: nat where "ESR_EC_OFFSET \<equiv> 26"

abbreviation (input) ESR_EC_MASK :: u64 where "ESR_EC_MASK \<equiv> 0x3f"

abbreviation (input) ESR_EC_SVC64 :: u64 where "ESR_EC_SVC64 \<equiv> 0x15"

abbreviation (input) ESR_EC_DATABT_LOWER :: u64 where "ESR_EC_DATABT_LOWER \<equiv> 0x24"

abbreviation (input) ESR_EC_DATABT_SAME :: u64 where "ESR_EC_DATABT_SAME \<equiv> 0x25"

abbreviation (input) ESR_ISS_SVC_IMM16 :: u64 where "ESR_ISS_SVC_IMM16 \<equiv> 0xffff"

definition REG :: "mem \<Rightarrow> addr \<Rightarrow> nat \<Rightarrow> u64" where
  "REG m x30 x = load64 m (fld x30 (8 * (30 - x)))"

definition set_REG :: "mem \<Rightarrow> addr \<Rightarrow> nat \<Rightarrow> u64 \<Rightarrow> mem" where
  "set_REG m x30 x v = store64 m (fld x30 (8 * (30 - x))) v"

partial_function (option) vstrlen_loop :: "kernel \<Rightarrow> addr \<Rightarrow> int \<Rightarrow> int option" where
  \<comment> \<open>\<open>strlen\<close> of a string of the user program\<close>
  "vstrlen_loop k str len =
     Option.bind (vread k str)
       (\<lambda>c. if c \<noteq> 0 then Option.bind (int_res (len + 1)) (vstrlen_loop k (str + 1)) else Some len)"

definition vstrlen :: "kernel \<Rightarrow> addr \<Rightarrow> int option" where
  "vstrlen k str = vstrlen_loop k str 0"

partial_function (option) vstrcpy :: "kernel \<Rightarrow> addr \<Rightarrow> addr \<Rightarrow> kernel option" where
  \<comment> \<open>\<open>strcpy\<close> from a string of the user program\<close>
  "vstrcpy k dest src =
     Option.bind (vread k src)
       (\<lambda>c. let k = k\<lparr>kmem := (kmem k)(dest := c)\<rparr>
            in if c \<noteq> 0 then vstrcpy k (dest + 1) (src + 1) else Some k)"

subsection \<open>System calls\<close>

definition exceptions_internal_open :: "symbols \<Rightarrow> kernel_frame \<Rightarrow> kernel \<Rightarrow> addr \<Rightarrow> kernel option" where
  "exceptions_internal_open sy f k x30 = do {
     let fs = fs_filesystem_getmain k;
     (k, inode) \<leftarrow> call_open sy (fatfs_frame.truncate f) k fs (REG (kmem k) x30 0);
     let job = job_get_current k;
     (m, fd) \<leftarrow> job_add_file (kmem k) job inode;
     Some (k\<lparr>kmem := set_REG m x30 0 (of_int fd)\<rparr>)
   }"

definition exceptions_internal_get ::
  "symbols \<Rightarrow> 'd block \<Rightarrow> kernel_frame \<Rightarrow> 'd \<times> machine \<Rightarrow> addr \<Rightarrow> ('d \<times> machine) option" where
  "exceptions_internal_get sy blk f st x30 = do {
     let job = job_get_current (kget st);
     let fd = c_int (REG (smem st) x30 0);
     let inode = job_get_file (smem st) job fd;
     if inode = NULL then Some (set_smem st (set_REG (smem st) x30 0 (- 1)))
     else do {
       (st, _) \<leftarrow> fs_inode_get sy blk (fatfs_frame.truncate f) st inode (char_local f);
       Some (set_smem st (set_REG (smem st) x30 0 (ucast (smem st (char_local f)))))
     }
   }"

definition exceptions_internal_spawn ::
  "symbols \<Rightarrow> 'd block \<Rightarrow> kernel_frame \<Rightarrow> 'd \<times> machine \<Rightarrow> addr \<Rightarrow> ('d \<times> machine) option" where
  "exceptions_internal_spawn sy blk f st x30 = do {
     let fs = fs_filesystem_getmain (kget st);
     let filename = REG (smem st) x30 0;
     len \<leftarrow> vstrlen (kget st) filename;
     sz \<leftarrow> int_res (len + 1);
     (st, copy_filename) \<leftarrow> st_kalloc st (of_int sz);
     k \<leftarrow> vstrcpy (kget st) copy_filename filename;
     (k, inode) \<leftarrow> call_open sy (fatfs_frame.truncate f) k fs copy_filename;
     (st, _) \<leftarrow> job_create_from_file sy blk f (kput st k) inode copy_filename;
     st_kfree st copy_filename
   }"

definition exceptions_internal_log :: "log_frame \<Rightarrow> kernel_frame \<Rightarrow> 'd \<times> machine \<Rightarrow> addr \<Rightarrow> ('d \<times> machine) option" where
  \<comment> \<open>system call 11, the call of \<open>klogf\<close>: its format and its arrays are in the kernel's half of the address
    space, the text is the user program's and has to be readable up to its terminator\<close>
  "exceptions_internal_log lf f st x30 = do {
     let k = kget st;
     _ \<leftarrow> vstrlen k (REG (kmem k) x30 0);
     let view = (\<lambda>va. if va < JOB_BASE_USER then kmem k va else (case vread k va of None \<Rightarrow> 0 | Some c \<Rightarrow> c));
     (m, out) \<leftarrow> klogf lf (tim (snd st)) view (console (snd st)) (lit_syscall f)
       [fld (job_get_current k) 0, REG (kmem k) x30 0];
     let k = k\<lparr>kmem := (\<lambda>p. if p < JOB_BASE_USER then m p else kmem k p)\<rparr>;
     Some (fst st, (snd st)\<lparr>kern := k, console := out\<rparr>)
   }"

definition exceptions_handle_syscall ::
  "symbols \<Rightarrow> 'd block \<Rightarrow> log_frame \<Rightarrow> kernel_frame \<Rightarrow> bool \<Rightarrow> u16 \<Rightarrow> 'd \<times> machine \<Rightarrow> addr \<Rightarrow> (('d \<times> machine) \<times> bool) option" where
  \<comment> \<open>\<open>junk\<close> is the value of the uninitialised \<open>res\<close>\<close>
  "exceptions_handle_syscall sy blk lf f junk imm st x30 = do {
     let lr = ELR_EL1 (regs (kget st));
     let spsr = SPSR_EL1 (regs (kget st));
     (st, res) \<leftarrow>
       (if imm = 10 then Some (kput st (job_terminate (kget st)), True)
        else if imm = 11 then do { st \<leftarrow> exceptions_internal_log lf f st x30; Some (st, True) }
        else if imm = 20 then do { k \<leftarrow> exceptions_internal_open sy f (kget st) x30; Some (kput st k, True) }
        else if imm = 21 then do { st \<leftarrow> exceptions_internal_get sy blk f st x30; Some (st, True) }
        else if imm = 22 then do { st \<leftarrow> exceptions_internal_spawn sy blk f st x30; Some (st, True) }
        else Some (st, junk));
     let k = kget st;
     Some (kput st (k\<lparr>regs := (regs k)\<lparr>ELR_EL1 := lr, SPSR_EL1 := spsr\<rparr>\<rparr>), res)
   }"

definition exceptions_distributor ::
  "symbols \<Rightarrow> 'd block \<Rightarrow> log_frame \<Rightarrow> kernel_frame \<Rightarrow> bool \<Rightarrow> u64 \<Rightarrow> 'd \<times> machine \<Rightarrow> addr \<Rightarrow> ('d \<times> machine) option" where
  \<comment> \<open>\<open>esr\<close> is the syndrome register. The cases have no \<open>break\<close>: the aborts run into the system call; after
    the switch the function spins\<close>
  "exceptions_distributor sy blk lf f junk esr st x30 =
     (let ec = drop_bit ESR_EC_OFFSET esr AND ESR_EC_MASK
      in if ec = ESR_EC_DATABT_SAME \<or> ec = ESR_EC_DATABT_LOWER \<or> ec = ESR_EC_SVC64 then do {
           let imm16 = ucast (esr AND ESR_ISS_SVC_IMM16);
           (st, res) \<leftarrow> exceptions_handle_syscall sy blk lf f junk imm16 st x30;
           if res then Some st else None
         }
         else None)"

subsection \<open>The start of the kernel\<close>

definition usermode :: "symbols \<Rightarrow> 'd virtio_device \<Rightarrow> wait_frame \<Rightarrow> kernel_frame \<Rightarrow> 'd \<times> machine \<Rightarrow> ('d \<times> machine) option" where
  "usermode sy dv wfr f st = do {
     (d, k, _) \<leftarrow> disk_init dv (fst st) (kget st) (disk_local f) 31;
     let st = (d, (snd st)\<lparr>kern := k\<rparr>);
     let disk_block = disk_register_block_device dv wfr (req_local f) (disk_local f);
     (st, fs) \<leftarrow> fatfs_createfs sy disk_block (fatfs_frame.truncate f) st (block_global f);
     let k = fs_filesystem_setmain (kget st) fs;
     (k, inode) \<leftarrow> call_open sy (fatfs_frame.truncate f) k fs (lit_init_elf f);
     (st, _) \<leftarrow> job_create_from_file sy disk_block f (kput st k) inode (lit_init f);
     g \<leftarrow> scheduling_register_routine (intc (snd st));
     let st = (fst st, (snd st)\<lparr>intc := g\<rparr>);
     Some (kput st (sysutils_jump_eret_usermode (kget st) (job_get_current (kget st))))
   }"

definition start_pools :: "kernel \<Rightarrow> addr \<Rightarrow> kernel option" where
  \<comment> \<open>the part of \<open>start\<close> that sets up the memory management\<close>
  "start_pools k HEAP_START = do {
     (m, h) \<leftarrow> setup_heap (kmem k) HEAP_START;
     k \<leftarrow> fs_init_slab (k\<lparr>kmem := m, main_heap := h\<rparr>);
     (m, h, slab) \<leftarrow> paging_init_slab (kmem k) (main_heap k);
     k \<leftarrow> job_init_slab (k\<lparr>kmem := m, main_heap := h, page_slab := slab\<rparr>) 128;
     job_init_user_space k 0x1000
   }"

definition start_kernel_paging :: "kernel_frame \<Rightarrow> kernel \<Rightarrow> kernel option" where
  \<comment> \<open>the call of \<open>enable_paging_test\<close>, with the kernel's manager stored at its address\<close>
  "start_kernel_paging f k = do {
     (m, r, current, pm) \<leftarrow> enable_paging_test (kmem k) (regs k) (current_paging_manager k) (kernel_paging_ptr f) (page_slab k);
     let m = store64 m (fld (kernel_paging_ptr f) 8) (page_slab_ptr f);
     let m = store64 m (fld (kernel_paging_ptr f) 0) (l1 pm);
     Some (k\<lparr>kmem := m, regs := r, current_paging_manager := current\<rparr>)
   }"

definition start ::
  "symbols \<Rightarrow> 'd virtio_device \<Rightarrow> wait_frame \<Rightarrow> kernel_frame \<Rightarrow> addr \<Rightarrow> addr \<Rightarrow> (nat \<Rightarrow> u32) \<Rightarrow> 'd \<times> machine \<Rightarrow> ('d \<times> machine) option" where
  "start sy dv wfr f EXCEPTION_TABLE HEAP_START waker st = do {
     let k = (kget st)\<lparr>regs := sysutils_set_vbar (regs (kget st)) EXCEPTION_TABLE\<rparr>;
     k \<leftarrow> start_pools k HEAP_START;
     let k = k\<lparr>regs := sysutils_mask_irq (sysutils_mask_fiq (regs k) False) False\<rparr>;
     g \<leftarrow> enable_gic (intc (snd st)) waker;
     let t = timer_write_tval (tim (snd st)) (timer_getfrequency (tim (snd st)));
     let t = timer_enable t;
     k \<leftarrow> start_kernel_paging f k;
     usermode sy dv wfr f (fst st, (snd st)\<lparr>kern := k, intc := g, tim := t\<rparr>)
   }"

end
