(* ===== verification/Boot.thy ===== *)
theory Boot
  imports Exceptions Job_Properties
begin

text \<open>
  The state that the start of the kernel establishes. The pools of the kernel are cut from an empty
  heap one after the other, so the allocated blocks stay a prefix of the heap.
\<close>

section \<open>Pools from a packed heap\<close>

definition packed_heap :: "mem \<Rightarrow> heap \<Rightarrow> runs \<Rightarrow> nat \<Rightarrow> bool" where
  \<comment> \<open>exactly the first \<open>t\<close> blocks are allocated\<close>
  "packed_heap m h R t \<longleftrightarrow> heap_ok m h R \<and> heap_table_apart h \<and> heap_low h \<and> runs_taken R = {..<t}"

definition pool_blocks :: "u64 \<Rightarrow> u64 \<Rightarrow> nat" where
  "pool_blocks o' n = ceil_div (slab_hdr_bytes o' n + unat o' * unat n) 4096"

lemma packed_alloc:
  assumes pk: "packed_heap m h R t" and sz: "0 < unat sz" and room: "t + ceil_div (unat sz) 4096 \<le> unat (blocks h)"
  defines "n \<equiv> ceil_div (unat sz) 4096"
  obtains m1 f where "kalloc m h sz = Some (m1, h\<lparr>free_blocks := f\<rparr>, heap_run_addr h t)"
    and "packed_heap m1 (h\<lparr>free_blocks := f\<rparr>) (insert (t, n) R) (t + n)"
    and "same_outside (region (heap_table h) (unat (blocks h))) m m1"
proof -
  have ok: "heap_ok m h R" and taken: "runs_taken R = {..<t}" using pk by (simp_all add: packed_heap_def)
  have n: "0 < n" using sz ceil_div_pos [of 4096 "unat sz"] by (simp add: n_def)
  have fits: "blk_fits m (heap_table h) (unat (blocks h)) n i \<longleftrightarrow> i + n \<le> unat (blocks h) \<and> t \<le> i" for i
    using heap_ok_fits [OF ok, of n i] n unfolding taken by force
  from heap_alloc_eq [OF ok sz] room fits obtain i m1 where
    i: "blk_fits m (heap_table h) (unat (blocks h)) n i" "\<forall>j < i. \<not> blk_fits m (heap_table h) (unat (blocks h)) n j"
      "heap_alloc m h sz = Some (m1, h\<lparr>free_blocks := free_blocks h - of_nat n\<rparr>, heap_run_addr h i)"
      "same_outside (region (heap_table h + of_nat i) n) m m1"
      "heap_ok m1 (h\<lparr>free_blocks := free_blocks h - of_nat n\<rparr>) (insert (i, n) R)"
    unfolding n_def by blast
  have it: "i = t" using i(1) spec [OF i(2), of t] fits room unfolding n_def by auto
  have "region (heap_table h + of_nat t) n \<subseteq> region (heap_table h) (unat (blocks h))"
    using region_sub [of t n "unat (blocks h)"] room unat_less64 [of "blocks h"] by (simp add: n_def)
  then have w: "same_outside (region (heap_table h) (unat (blocks h))) m m1"
    using same_outside_mono [OF i(4)] it by simp
  have "runs_taken (insert (t, n) R) = {..<t + n}" unfolding runs_insert taken by auto
  then have "packed_heap m1 (h\<lparr>free_blocks := free_blocks h - of_nat n\<rparr>) (insert (t, n) R) (t + n)"
    using i(5) it pk by (simp add: packed_heap_def heap_table_apart_def heap_low_def)
  then show thesis
    using that [of m1] i(3) it w by (simp add: kalloc_def sysutils_kernel_heap_alloc_def)
qed

lemma packed_pool:
  assumes pk: "packed_heap m h R t" and pos: "0 < unat o'" "0 < unat n" and span: "slab_span o' n < 2 ^ 31"
    and room: "t + pool_blocks o' n \<le> unat (blocks h)"
  obtains m1 m2 s f where "kalloc m h (slab_get_needed_size o' n) = Some (m1, h\<lparr>free_blocks := f\<rparr>, heap_run_addr h t)"
    and "slab_create m1 o' n (heap_run_addr h t) = Some (m2, s)"
    and "wf_slab s" and "starting_address s = heap_run_addr h t" and "max_store s = n" and "object_size s = o'"
    and "slab_used m2 s = {}" and "packed_heap m2 (h\<lparr>free_blocks := f\<rparr>) (insert (t, pool_blocks o' n) R) (t + pool_blocks o' n)"
    and "pool_bytes s \<subseteq> region (heap_run_addr h t) (4096 * pool_blocks o' n)"
    and "same_outside (region (heap_table h) (unat (blocks h)) \<union> region (heap_run_addr h t) (4096 * pool_blocks o' n)) m m2"
proof -
  let ?p = "heap_run_addr h t" and ?n = "pool_blocks o' n" and ?T = "region (heap_table h) (unat (blocks h))"
  note need = slab_needed_size [OF pos span]
  have nb: "ceil_div (unat (slab_get_needed_size o' n)) 4096 = ?n" by (simp add: need(1) pool_blocks_def)
  obtain m1 f where a: "kalloc m h (slab_get_needed_size o' n) = Some (m1, h\<lparr>free_blocks := f\<rparr>, ?p)"
    "packed_heap m1 (h\<lparr>free_blocks := f\<rparr>) (insert (t, ?n) R) (t + ?n)" "same_outside ?T m m1"
    by (rule packed_alloc [OF pk need(2)]) (use room in \<open>simp_all add: nb\<close>)
  have ok: "heap_ok m h R" and low: "heap_low h" using pk by (simp_all add: packed_heap_def)
  have n: "0 < ?n" using ceil_div_pos [of 4096] need by (metis nb zero_less_numeral)
  have p: "unat ?p = unat (heap_start_address h) + 4096 * t" using unat_heap_run_addr [OF ok, of t] room n by simp
  have start: "0 < unat (heap_start_address h)" using ok by (simp add: heap_ok_def)
  have len: "unat ?p + 4096 * ?n \<le> 2 ^ 48" using p low room by (simp add: heap_low_def)
  have "slab_zone_ok o' n ?p" using pos span p start len by (simp add: slab_zone_ok_def)
  then obtain m2 s where s: "slab_create m1 o' n ?p = Some (m2, s)" "wf_slab s" "starting_address s = ?p"
    "max_store s = n" "object_size s = o'" "slab_used m2 s = {}" "same_outside (slab_header s) m1 m2"
    using slab_create_eq by blast
  have "slab_zone_bytes s \<le> 4096 * ?n"
    using ceil_div_ge [of 4096 "slab_hdr_bytes o' n + unat o' * unat n"] wf_slab_header(1) [OF s(2)] s(4,5)
    by (simp add: slab_zone_bytes_def pool_blocks_def)
  then have zone: "pool_bytes s \<subseteq> region ?p (4096 * ?n)" using pool_bytes_zone [OF s(2)] s(3) len by simp
  then have hdr: "slab_header s \<subseteq> region ?p (4096 * ?n)" by (auto simp: pool_bytes_def)
  have "region ?p (4096 * ?n) \<subseteq> region (heap_start_address h) (4096 * unat (blocks h))"
    by (rule heap_run_in_area [OF ok room n])
  then have "slab_header s \<inter> ?T = {}" using hdr pk by (auto simp: packed_heap_def heap_table_apart_def simp del: in_region)
  then have "packed_heap m2 (h\<lparr>free_blocks := f\<rparr>) (insert (t, ?n) R) (t + ?n)"
    using a(2) heap_ok_frame [OF _ s(7)] by (simp add: packed_heap_def)
  moreover have "same_outside (?T \<union> region ?p (4096 * ?n)) m m2"
  proof -
    have "same_outside (?T \<union> region ?p (4096 * ?n)) m m1" by (rule same_outside_mono [OF a(3)]) blast
    also have "same_outside (?T \<union> region ?p (4096 * ?n)) m1 m2" by (rule same_outside_mono [OF s(7)]) (use hdr in blast)
    finally show ?thesis .
  qed
  ultimately show thesis using that [OF a(1) s(1-6)] zone by blast
qed


lemma pool_sizes: "pool_blocks 40 32 = 1" "pool_blocks 4096 0x1000 = 4097" "pool_blocks 392 128 = 13"
  by (simp_all add: pool_blocks_def slab_hdr_bytes_def ceil_div_def)

lemma user_space_created:
  obtains m' s where "slab_create m 0x1000 0x1000 0x7ffff000 = Some (m', s)" and "wf_slab s" and "object_size s = 4096"
    and "slab_used m' s = {}" and "slab_slots s = (\<lambda>i. 0x80000000 + of_nat (4096 * i)) ` {..<4096}"
    and "pool_bytes s \<subseteq> region 0x7ffff000 0x1001000" and "same_outside (region 0x7ffff000 0x1000) m m'"
proof -
  have "slab_zone_ok 0x1000 0x1000 0x7ffff000" by (simp add: slab_zone_ok_def slab_span_def)
  then obtain m' s where s: "slab_create m 0x1000 0x1000 0x7ffff000 = Some (m', s)" "wf_slab s" "starting_address s = 0x7ffff000"
    "max_store s = 0x1000" "object_size s = 0x1000" "slab_used m' s = {}" "same_outside (slab_header s) m m'"
    using slab_create_eq [of "0x1000" "0x1000" "0x7ffff000" m] by blast
  have hdr: "unat (header_size s) = 4096"
    using wf_slab_header(1) [OF s(2)] s(4,5) by (simp add: slab_hdr_bytes_def ceil_div_def)
  have "slab_slot_addr s i = 0x80000000 + of_nat (4096 * i)" for i
    unfolding slab_slot_addr_def hdr s(3,5) by simp
  then have "slab_slots s = (\<lambda>i. 0x80000000 + of_nat (4096 * i)) ` {..<4096}" by (simp add: slab_slots_def s(4))
  moreover have "pool_bytes s \<subseteq> region 0x7ffff000 0x1001000"
    using pool_bytes_zone [OF s(2), of "0x1001000"] s(3-5) hdr by (simp add: slab_zone_bytes_def)
  moreover have "same_outside (region 0x7ffff000 0x1000) m m'" using s(3,7) hdr by (simp add: slab_header_def)
  ultimately show thesis using that [OF s(1,2)] s(5,6) by simp
qed

section \<open>The pools of the kernel\<close>

definition run_bytes :: "heap \<Rightarrow> nat \<Rightarrow> nat \<Rightarrow> addr set" where
  "run_bytes h i n = region (heap_run_addr h i) (4096 * n)"

lemma heap_free_upd [simp]:
  "heap_run_addr (h\<lparr>free_blocks := f\<rparr>) i = heap_run_addr h i" "run_bytes (h\<lparr>free_blocks := f\<rparr>) = run_bytes h"
  "table_bytes (h\<lparr>free_blocks := f\<rparr>) = table_bytes h" "heap_bytes (h\<lparr>free_blocks := f\<rparr>) = heap_bytes h"
  by (simp_all add: heap_run_addr_def run_bytes_def fun_eq_iff table_bytes_def heap_bytes_def)

lemma run_bytes_apart:
  assumes "heap_ok m h R" and "i + n \<le> j" and "j + k \<le> unat (blocks h)" and "0 < n" and "0 < k"
  shows "run_bytes h i n \<inter> run_bytes h j k = {}"
  unfolding run_bytes_def by (rule heap_runs_apart [OF assms(1)]) (use assms(2-5) in auto)

lemma run_bytes_in_heap: "heap_ok m h R \<Longrightarrow> i + n \<le> unat (blocks h) \<Longrightarrow> 0 < n \<Longrightarrow> run_bytes h i n \<subseteq> heap_bytes h"
  unfolding run_bytes_def heap_bytes_def by (rule heap_run_in_area)

definition empty_pool :: "mem \<Rightarrow> slab \<Rightarrow> u64 \<Rightarrow> u64 \<Rightarrow> addr set \<Rightarrow> bool" where
  \<comment> \<open>a pool of \<open>n\<close> free objects of \<open>o'\<close> bytes inside \<open>X\<close>\<close>
  "empty_pool m s o' n X \<longleftrightarrow> wf_slab s \<and> object_size s = o' \<and> max_store s = n \<and> slab_used m s = {} \<and> pool_bytes s \<subseteq> X"

lemma empty_pool_kept: "empty_pool m s o' n X \<Longrightarrow> same_outside W m m' \<Longrightarrow> W \<inter> X = {} \<Longrightarrow> empty_pool m' s o' n X"
  using slab_used_frame [of s W m m'] by (auto simp: empty_pool_def pool_bytes_def simp del: in_region)

lemma packed_empty_pool:
  assumes "packed_heap m h R t" and "0 < unat o'" "0 < unat n" and "slab_span o' n < 2 ^ 31" and "t + pool_blocks o' n \<le> unat (blocks h)"
  obtains m1 m2 s f where "kalloc m h (slab_get_needed_size o' n) = Some (m1, h\<lparr>free_blocks := f\<rparr>, heap_run_addr h t)"
    and "slab_create m1 o' n (heap_run_addr h t) = Some (m2, s)" and "starting_address s = heap_run_addr h t"
    and "empty_pool m2 s o' n (run_bytes h t (pool_blocks o' n))"
    and "packed_heap m2 (h\<lparr>free_blocks := f\<rparr>) (insert (t, pool_blocks o' n) R) (t + pool_blocks o' n)"
    and "same_outside (table_bytes h \<union> run_bytes h t (pool_blocks o' n)) m m2"
  using assms by (rule packed_pool) (use that in \<open>auto simp: empty_pool_def run_bytes_def table_bytes_def\<close>)

lemma setup_heap_packed:
  assumes "unat HEAP_START \<le> 0x6ff00000" and "\<forall>j < 0x10000. m (HEAP_START + of_nat j) = 0"
  obtains h where "setup_heap m HEAP_START = Some (m, h)" and "packed_heap m h {} 0" and "heap_table h = HEAP_START"
    and "heap_start_address h = HEAP_START + 0x80000" and "unat (blocks h) = 65536"
proof -
  let ?h = "\<lparr>heap_start_address = HEAP_START + 0x80000, heap_table = HEAP_START, blocks = 0x10000, free_blocks = 0x10000\<rparr>"
  have start: "unat (HEAP_START + 0x80000) = unat HEAP_START + 0x80000" using assms(1) by (simp add: unat_add64)
  have "m(HEAP_START := 0) = m" using spec [OF assms(2), of 0] by (simp add: fun_upd_idem)
  moreover have "heap_ok m ?h {}" by (rule heap_ok_empty) (use assms start in simp_all)
  moreover have "heap_table_apart ?h"
    unfolding heap_table_apart_def by (rule regions_apart) (use assms(1) start in simp_all)
  ultimately show thesis
    using that [of ?h] assms(1) start by (simp add: setup_heap_eq packed_heap_def heap_low_def runs_taken_def)
qed

lemma start_three_pools:
  assumes pk: "packed_heap (kmem k) h {} 0" and b: "unat (blocks h) = 65536"
  obtains k' f where
    "do { k \<leftarrow> fs_init_slab (k\<lparr>main_heap := h\<rparr>);
          (m, h, slab) \<leftarrow> paging_init_slab (kmem k) (main_heap k);
          job_init_slab (k\<lparr>kmem := m, main_heap := h, page_slab := slab\<rparr>) 128 } = Some k'"
    and "main_heap k' = h\<lparr>free_blocks := f\<rparr>" and "packed_heap (kmem k') (main_heap k') {(4098, 13), (1, 4097), (0, 1)} 4111"
    and "empty_pool (kmem k') (inode_slab k') 40 32 (run_bytes h 0 1)"
    and "empty_pool (kmem k') (page_slab k') 4096 0x1000 (run_bytes h 1 4097)" "starting_address (page_slab k') = heap_run_addr h 1"
    and "empty_pool (kmem k') (job_slab k') 392 128 (run_bytes h 4098 13)" and "current_job k' = current_job k"
proof -
  obtain m1 m2 si f1 where i: "kalloc (kmem k) h (slab_get_needed_size 40 32) = Some (m1, h\<lparr>free_blocks := f1\<rparr>, heap_run_addr h 0)"
    "slab_create m1 40 32 (heap_run_addr h 0) = Some (m2, si)" "empty_pool m2 si 40 32 (run_bytes h 0 1)"
    "packed_heap m2 (h\<lparr>free_blocks := f1\<rparr>) (insert (0, 1) {}) 1"
    by (rule packed_empty_pool [OF pk, of 40 32]) (simp_all add: pool_sizes slab_span_def b)
  obtain m3 m4 sp f2 where p: "kalloc m2 (h\<lparr>free_blocks := f1\<rparr>) (slab_get_needed_size 4096 0x1000) = Some (m3, h\<lparr>free_blocks := f2\<rparr>, heap_run_addr h 1)"
    "slab_create m3 4096 0x1000 (heap_run_addr h 1) = Some (m4, sp)" "starting_address sp = heap_run_addr h 1"
    "empty_pool m4 sp 4096 0x1000 (run_bytes h 1 4097)"
    "packed_heap m4 (h\<lparr>free_blocks := f2\<rparr>) (insert (1, 4097) {(0, 1)}) 4098" "same_outside (table_bytes h \<union> run_bytes h 1 4097) m2 m4"
    by (rule packed_empty_pool [OF i(4), of 4096 "0x1000"]) (simp_all add: pool_sizes slab_span_def b)
  obtain m5 m6 sj f3 where j: "kalloc m4 (h\<lparr>free_blocks := f2\<rparr>) (slab_get_needed_size 392 128) = Some (m5, h\<lparr>free_blocks := f3\<rparr>, heap_run_addr h 4098)"
    "slab_create m5 392 128 (heap_run_addr h 4098) = Some (m6, sj)" "empty_pool m6 sj 392 128 (run_bytes h 4098 13)"
    "packed_heap m6 (h\<lparr>free_blocks := f3\<rparr>) (insert (4098, 13) {(1, 4097), (0, 1)}) 4111" "same_outside (table_bytes h \<union> run_bytes h 4098 13) m4 m6"
    by (rule packed_empty_pool [OF p(5), of 392 128]) (simp_all add: pool_sizes slab_span_def b)
  have ok: "heap_ok (kmem k) h {}" and ta: "table_bytes h \<inter> heap_bytes h = {}"
    using pk by (simp_all add: packed_heap_def heap_table_apart_def table_bytes_def heap_bytes_def)
  note in_heap = run_bytes_in_heap [OF ok, of 0 1] run_bytes_in_heap [OF ok, of 1 4097]
  note apart = run_bytes_apart [OF ok, of 0 1 1 4097] run_bytes_apart [OF ok, of 0 1 4098 13] run_bytes_apart [OF ok, of 1 4097 4098 13]
  have "empty_pool m4 si 40 32 (run_bytes h 0 1)" by (rule empty_pool_kept [OF i(3) p(6)]) (use in_heap apart ta b in auto)
  then have "empty_pool m6 si 40 32 (run_bytes h 0 1)" by (rule empty_pool_kept [OF _ j(5)]) (use in_heap apart ta b in auto)
  moreover have "empty_pool m6 sp 4096 0x1000 (run_bytes h 1 4097)" by (rule empty_pool_kept [OF p(4) j(5)]) (use in_heap apart ta b in auto)
  ultimately show thesis
    using that [of "k\<lparr>kmem := m6, main_heap := h\<lparr>free_blocks := f3\<rparr>, page_slab := sp, job_slab := sj, inode_slab := si\<rparr>" f3]
      i(1,2) p(1-3) j(1-4) by (simp add: fs_init_slab_def k_kalloc_def paging_init_slab_def job_init_slab_def)
qed


lemma page_pool_aligned:
  assumes "empty_pool m s 4096 n X" and "4096 dvd unat (starting_address s)" and "unat (starting_address s) < 2 ^ 32"
  shows "page_pool s" and "free_tables m s = unat n"
proof -
  have wf: "wf_slab s" "object_size s = 4096" "max_store s = n" "slab_used m s = {}" using assms(1) by (simp_all add: empty_pool_def)
  show "page_pool s"
    by (rule page_poolI [OF wf(1,2) assms(2)]) (use wf_slab_header(2) [OF wf(1)] assms(3) wf(2) in simp)
  show "free_tables m s = unat n" using free_tables_empty [OF wf(1,4)] wf(3) by simp
qed

lemma page_pool_from:
  assumes "wf_slab s" and "object_size s = 4096" and "slab_slots s = (\<lambda>i. 0x80000000 + of_nat (4096 * i)) ` {..<4096}"
  shows "page_pool s"
proof -
  have "table_aligned (0x80000000 + of_nat (4096 * i))" if "i < 4096" for i
  proof (rule table_alignedI)
    have "unat (0x80000000 + of_nat (4096 * i) :: u64) = 2 ^ 31 + 4096 * i"
      using that by (simp add: unat_add64 unat_of_nat64 del: of_nat_mult)
    then show "unat (0x80000000 + of_nat (4096 * i) :: u64) < 2 ^ 48" "4096 dvd unat (0x80000000 + of_nat (4096 * i) :: u64)"
      using that by simp_all
  qed
  then show ?thesis using assms by (auto simp: page_pool_def)
qed

lemma start_pools_eq:
  assumes hs: "4096 dvd unat HEAP_START" "unat HEAP_START \<le> 0x6ff00000"
    and zero: "\<forall>j < 0x10000. kmem k (HEAP_START + of_nat j) = 0"
  obtains k' h f where "start_pools k HEAP_START = Some k'" and "heap_ok (kmem k) h {}" "unat (blocks h) = 65536"
    and "main_heap k' = h\<lparr>free_blocks := f\<rparr>" and "packed_heap (kmem k') (main_heap k') {(4098, 13), (1, 4097), (0, 1)} 4111"
    and "current_job k' = current_job k"
    and "empty_pool (kmem k') (inode_slab k') 40 32 (run_bytes h 0 1)"
    and "empty_pool (kmem k') (page_slab k') 4096 0x1000 (run_bytes h 1 4097)"
    and "page_pool (page_slab k')" "free_tables (kmem k') (page_slab k') = 4096"
    and "empty_pool (kmem k') (job_slab k') 392 128 (run_bytes h 4098 13)"
    and "page_pool (user_space k')" "slab_used (kmem k') (user_space k') = {}"
    and "slab_slots (user_space k') = (\<lambda>i. 0x80000000 + of_nat (4096 * i)) ` {..<4096}"
    and "pool_bytes (user_space k') \<inter> (heap_bytes h \<union> table_bytes h) = {}"
    and "heap_table h = HEAP_START" "heap_start_address h = HEAP_START + 0x80000" "pool_bytes (user_space k') \<subseteq> region 0x7ffff000 0x1001000"
proof -
  obtain h where h: "setup_heap (kmem k) HEAP_START = Some (kmem k, h)" "packed_heap (kmem k) h {} 0" "heap_table h = HEAP_START"
    "heap_start_address h = HEAP_START + 0x80000" "unat (blocks h) = 65536"
    using hs(2) zero by (rule setup_heap_packed)
  obtain k1 f where k1: "do { k \<leftarrow> fs_init_slab (k\<lparr>main_heap := h\<rparr>);
          (m, h, slab) \<leftarrow> paging_init_slab (kmem k) (main_heap k);
          job_init_slab (k\<lparr>kmem := m, main_heap := h, page_slab := slab\<rparr>) 128 } = Some k1"
    "main_heap k1 = h\<lparr>free_blocks := f\<rparr>" "packed_heap (kmem k1) (main_heap k1) {(4098, 13), (1, 4097), (0, 1)} 4111"
    "empty_pool (kmem k1) (inode_slab k1) 40 32 (run_bytes h 0 1)"
    "empty_pool (kmem k1) (page_slab k1) 4096 0x1000 (run_bytes h 1 4097)" "starting_address (page_slab k1) = heap_run_addr h 1"
    "empty_pool (kmem k1) (job_slab k1) 392 128 (run_bytes h 4098 13)" "current_job k1 = current_job k"
    using h(2,5) by (rule start_three_pools)
  obtain m su where u: "slab_create (kmem k1) 0x1000 0x1000 0x7ffff000 = Some (m, su)" "wf_slab su" "object_size su = 4096"
    "slab_used m su = {}" "slab_slots su = (\<lambda>i. 0x80000000 + of_nat (4096 * i)) ` {..<4096}"
    "pool_bytes su \<subseteq> region 0x7ffff000 0x1001000" "same_outside (region 0x7ffff000 0x1000) (kmem k1) m"
    by (rule user_space_created)
  have start: "unat (HEAP_START + 0x80000) = unat HEAP_START + 0x80000" using hs(2) by (simp add: unat_add64)
  have UH: "region 0x7ffff000 0x1001000 \<inter> (heap_bytes h \<union> table_bytes h) = {}"
    unfolding heap_bytes_def table_bytes_def h(3-5) Int_Un_distrib Un_empty by (intro conjI regions_apart; use hs(2) start in simp)
  have "region (0x7ffff000 :: addr) 0x1000 \<subseteq> region 0x7ffff000 0x1001000" by (rule region_mono) simp
  then have U: "region 0x7ffff000 0x1000 \<inter> heap_bytes h = {}" "region 0x7ffff000 0x1000 \<inter> table_bytes h = {}" using UH by blast+
  have ok: "heap_ok (kmem k) h {}" using h(2) by (simp add: packed_heap_def)
  have off: "region 0x7ffff000 0x1000 \<inter> run_bytes h i n = {}" if "i + n \<le> 65536" "0 < n" for i n
    using run_bytes_in_heap [OF ok, of i n] that h(5) U(1) by auto
  have "unat (heap_run_addr h 1) = unat HEAP_START + 0x81000" using unat_heap_run_addr [OF ok, of 1] h(4,5) start by simp
  then have al: "4096 dvd unat (starting_address (page_slab k1))" "unat (starting_address (page_slab k1)) < 2 ^ 32"
    using hs k1(6) by (simp_all add: dvd_add_left_iff)
  have hdr: "slab_get_header_size 0x1000 0x1000 = 0x1000"
    by (subst slab_get_header_size_eq [of _ _ 1]) (simp_all add: slab_zone_ok_def slab_span_def slab_hdr_bytes_def ceil_div_def)
  have run: "start_pools k HEAP_START = Some (k1\<lparr>kmem := m, user_space := su\<rparr>)"
    using k1(1) u(1) hdr by (auto simp: start_pools_def h(1) job_init_user_space_def bind_eq_Some_conv)
  have hk: "packed_heap m (main_heap k1) {(4098, 13), (1, 4097), (0, 1)} 4111"
    using k1(3) heap_ok_frame [OF _ u(7), of "main_heap k1"] U(2) k1(2) by (simp add: packed_heap_def table_bytes_def)
  have sp: "empty_pool m (page_slab k1) 4096 0x1000 (run_bytes h 1 4097)" by (rule empty_pool_kept [OF k1(5) u(7) off]) simp_all
  moreover have "empty_pool m (inode_slab k1) 40 32 (run_bytes h 0 1)" by (rule empty_pool_kept [OF k1(4) u(7) off]) simp_all
  moreover have "empty_pool m (job_slab k1) 392 128 (run_bytes h 4098 13)" by (rule empty_pool_kept [OF k1(7) u(7) off]) simp_all
  moreover have "pool_bytes su \<inter> (heap_bytes h \<union> table_bytes h) = {}" using u(6) UH by blast
  ultimately show thesis
    using that [OF run ok h(5)] hk h(3,4) k1(2,8) u(4-6) page_pool_from [OF u(2,3,5)] page_pool_aligned [OF sp al] by simp
qed

section \<open>Properties\<close>

text \<open>
  C39. The memory management that \<open>start\<close> sets up, from zeroed memory above a page-aligned \<open>HEAP_START\<close>: the calls return,
  the kernel heap is well formed, and there are pools of 32 free inodes, 4096 free page-aligned
  page tables, 128 free jobs with an empty ring, and 4096 free user pages, which are exactly the
  pages from 0x80000000 on. The first three pools lie in the heap and share no byte; the pool of
  user pages, whose header precedes its pages, shares none with the heap or the heap's table.
\<close>
theorem start_pools_ok:
  assumes "4096 dvd unat HEAP_START" and "unat HEAP_START \<le> 0x6ff00000"
    and "\<forall>j < 0x10000. kmem k (HEAP_START + of_nat j) = 0" and "current_job k = NULL"
  shows "\<exists>k' R. start_pools k HEAP_START = Some k' \<and> jobs_heap k' R [] \<and> max_store (job_slab k') = 128 \<and>
    wf_slab (inode_slab k') \<and> max_store (inode_slab k') = 32 \<and> slab_live (kmem k') (inode_slab k') = {} \<and>
    page_pool (page_slab k') \<and> free_tables (kmem k') (page_slab k') = 4096 \<and>
    wf_slab (user_space k') \<and> slab_live (kmem k') (user_space k') = {} \<and>
    slab_slots (user_space k') = (\<lambda>i. 0x80000000 + of_nat (4096 * i)) ` {..<4096} \<and>
    pool_bytes (inode_slab k') \<inter> pool_bytes (page_slab k') = {} \<and> pool_bytes (inode_slab k') \<inter> pool_bytes (job_slab k') = {} \<and>
    pool_bytes (page_slab k') \<inter> pool_bytes (job_slab k') = {} \<and>
    pool_bytes (inode_slab k') \<union> pool_bytes (page_slab k') \<union> pool_bytes (job_slab k') \<subseteq> heap_bytes (main_heap k') \<and>
    pool_bytes (user_space k') \<inter> (heap_bytes (main_heap k') \<union> table_bytes (main_heap k')) = {}"
proof -
  let ?R = "{(4098, 13), (1, 4097), (0, 1)}"
  obtain k' h f where k: "start_pools k HEAP_START = Some k'" "heap_ok (kmem k) h {}" "unat (blocks h) = 65536"
    "main_heap k' = h\<lparr>free_blocks := f\<rparr>" "packed_heap (kmem k') (main_heap k') ?R 4111" "current_job k' = current_job k"
    "empty_pool (kmem k') (inode_slab k') 40 32 (run_bytes h 0 1)"
    "empty_pool (kmem k') (page_slab k') 4096 0x1000 (run_bytes h 1 4097)"
    "page_pool (page_slab k')" "free_tables (kmem k') (page_slab k') = 4096"
    "empty_pool (kmem k') (job_slab k') 392 128 (run_bytes h 4098 13)"
    "page_pool (user_space k')" "slab_used (kmem k') (user_space k') = {}"
    "slab_slots (user_space k') = (\<lambda>i. 0x80000000 + of_nat (4096 * i)) ` {..<4096}"
    "pool_bytes (user_space k') \<inter> (heap_bytes h \<union> table_bytes h) = {}"
    "heap_table h = HEAP_START" "heap_start_address h = HEAP_START + 0x80000" "pool_bytes (user_space k') \<subseteq> region 0x7ffff000 0x1001000"
    using assms(1-3) by (rule start_pools_eq)
  have hb: "heap_bytes (main_heap k') = heap_bytes h" "table_bytes (main_heap k') = table_bytes h" by (simp_all add: k(4))
  have hk: "heap_ok (kmem k') (main_heap k') ?R" "heap_table_apart (main_heap k')" using k(5) by (simp_all add: packed_heap_def)
  note in_heap = run_bytes_in_heap [OF k(2), of 0 1] run_bytes_in_heap [OF k(2), of 1 4097] run_bytes_in_heap [OF k(2), of 4098 13]
  note apart = run_bytes_apart [OF k(2), of 0 1 1 4097] run_bytes_apart [OF k(2), of 0 1 4098 13] run_bytes_apart [OF k(2), of 1 4097 4098 13]
  have disj: "pool_bytes (inode_slab k') \<inter> pool_bytes (page_slab k') = {}" "pool_bytes (inode_slab k') \<inter> pool_bytes (job_slab k') = {}"
    "pool_bytes (page_slab k') \<inter> pool_bytes (job_slab k') = {}"
    "pool_bytes (inode_slab k') \<union> pool_bytes (page_slab k') \<union> pool_bytes (job_slab k') \<subseteq> heap_bytes h"
    using k(3,7,8,11) apart in_heap unfolding empty_pool_def by auto
  have "jobs_heap k' ?R []"
    using hk k(6,11) disj(4) assms(4) hb(1)
    by (simp add: jobs_heap_def jobs_ok_def empty_pool_def slab_live_empty heap_bytes_def)
  moreover have "wf_slab (user_space k')" using k(12) by (simp add: page_pool_def)
  ultimately show ?thesis
    using k(1,7,9-11,13-15) disj unfolding hb by (intro exI [of _ k'] exI [of _ ?R]) (simp add: empty_pool_def slab_live_empty hb)
qed

theorem start_pools_ok_witness:
  "\<exists>k'. start_pools (job_example\<lparr>kmem := \<lambda>_. 0\<rparr>) 0x40100000 = Some k' \<and> page_pool (page_slab k') \<and>
    slab_slots (user_space k') = (\<lambda>i. 0x80000000 + of_nat (4096 * i)) ` {..<4096}"
proof -
  have "4096 dvd unat (0x40100000 :: u64)" by simp
  then show ?thesis using start_pools_ok [of "0x40100000" "job_example\<lparr>kmem := \<lambda>_. 0\<rparr>"] by auto
qed

end
