(* ===== verification/Process_Paging.thy ===== *)
theory Process_Paging
  imports Job Page_Tables
begin

text \<open>
  The address space of a process: \<open>job_create_paging\<close> of \<open>kernel/mp/job.c\<close> against the hardware walk. The kernel's
  2 GB are mapped for the kernel only, the pages of the process follow from 0x80000000 on, each in a
  frame of its own, and the tables of the other processes keep their bytes.
\<close>

section \<open>Walks that a change does not reach\<close>

lemma pt_same:
  assumes ok: "pt_ok m pm" and same: "\<And>n t b. pt_table m (l1 pm) n = Some t \<Longrightarrow> b \<in> table t \<Longrightarrow> m' b = m b"
    and live: "\<And>n t. pt_table m (l1 pm) n = Some t \<Longrightarrow> t \<in> slab_live m' (pages_allocator pm)"
  shows "pt_ok m' pm" and "pt_table m' (l1 pm) n = pt_table m (l1 pm) n"
    and "unat va < 2 ^ 39 \<Longrightarrow> pt_walk m' (l1 pm) va = pt_walk m (l1 pm) va"
proof -
  let ?r = "l1 pm" and ?s = "pages_allocator pm"
  have load: "block_load m' t k = block_load m t k" if "pt_table m ?r n = Some t" "unat k < 512" for n t k
  proof (rule block_load_frame [OF _ _ that(2)])
    show "same_outside (- table t) m m'" using same [OF that(1)] by (auto simp: same_outside_def simp del: in_region)
  qed simp
  show tab: "pt_table m' ?r n = pt_table m ?r n" for n
  proof (cases n)
    case (N2 a)
    then show ?thesis using load [of N1 ?r a] by (auto intro: pt_next_cong)
  next
    case (N3 a b)
    have "pt_next m' ?r a = pt_next m ?r a" using load [of N1 ?r a] by (auto intro: pt_next_cong)
    moreover have "pt_next m' t b = pt_next m t b" if "pt_next m ?r a = Some t" for t
      using load [of "N2 a" t b] that by (auto intro: pt_next_cong)
    ultimately show ?thesis using N3 by (cases "pt_next m ?r a") simp_all
  qed simp
  show "pt_ok m' pm" using ok load live unfolding pt_ok_def tab by auto
  show "pt_walk m' ?r va = pt_walk m ?r va" if "unat va < 2 ^ 39" using load by (intro pt_walk_cong [OF that])
qed

lemma table_in_pool:
  assumes "pt_ok m pm" and "t \<in> slab_slots (pages_allocator pm)"
  shows "table t \<subseteq> pool_bytes (pages_allocator pm)"
  using assms(2) pt_okD(2) [OF assms(1)] by (auto simp: pool_bytes_def simp del: in_region)

lemma pt_frame:
  assumes ok: "pt_ok m pm" and w: "same_outside R m m'" and off: "R \<inter> pool_bytes (pages_allocator pm) = {}"
  shows "pt_ok m' pm" and "pt_table m' (l1 pm) n = pt_table m (l1 pm) n"
    and "unat va < 2 ^ 39 \<Longrightarrow> pt_walk m' (l1 pm) va = pt_walk m (l1 pm) va"
    and "slab_live m' (pages_allocator pm) = slab_live m (pages_allocator pm)"
proof -
  show live: "slab_live m' (pages_allocator pm) = slab_live m (pages_allocator pm)"
    by (rule slab_pool.live_frame [OF pt_okD(1) [OF ok] w]) (use off in \<open>auto simp: pool_bytes_def simp del: in_region\<close>)
  have same: "m' b = m b" if "pt_table m (l1 pm) n = Some t" "b \<in> table t" for n t b
    using table_in_pool [OF ok pt_table_slot [OF ok that(1)]] that(2) off by (intro same_outsideD [OF w]) blast
  show "pt_ok m' pm" "pt_table m' (l1 pm) n = pt_table m (l1 pm) n"
    "unat va < 2 ^ 39 \<Longrightarrow> pt_walk m' (l1 pm) va = pt_walk m (l1 pm) va"
    using pt_same [OF ok, of m'] same pt_okD(4) [OF ok] live by simp_all
qed

lemma pt_leaf_page:
  assumes "\<And>n. n < 12 \<Longrightarrow> \<not> bit M n" and "\<And>n. 12 \<le> n \<Longrightarrow> bit off' n = bit off n"
    and "\<And>n. n < 12 \<Longrightarrow> bit off' n = bit va' n"
  shows "pt_leaf e M off' = map_option (\<lambda>t. t\<lparr>out_address := (out_address t AND NOT 0xfff) OR (va' mod 0x1000)\<rparr>) (pt_leaf e M off)"
proof -
  have m12: "va' mod 0x1000 = take_bit 12 va'" by (simp add: take_bit_eq_mod)
  have fff: "(0xfff :: u64) = mask 12" by (simp add: mask_eq_exp_minus_1)
  have "(e AND M) OR off' = (((e AND M) OR off) AND NOT (mask 12)) OR take_bit 12 va'"
  proof (rule bit_word_eqI)
    fix n
    show "bit ((e AND M) OR off') n = bit ((((e AND M) OR off) AND NOT (mask 12)) OR take_bit 12 va') n" if "n < LENGTH(64)"
      using assms that by (cases "n < 12") (auto simp: bit_simps)
  qed
  then show ?thesis by (simp add: pt_leaf_def m12 fff)
qed

lemma pt_walk_same_page:
  assumes "va' div 0x1000 = va div 0x1000"
  shows "pt_walk m root va' =
    map_option (\<lambda>t. t\<lparr>out_address := (out_address t AND NOT 0xfff) OR (va' mod 0x1000)\<rparr>) (pt_walk m root va)"
proof -
  have "drop_bit 12 va' = drop_bit 12 va" using assms by (simp add: drop_bit_eq_div)
  then have b: "bit va' n = bit va n" if "12 \<le> n" for n
    using that bit_drop_bit_eq [of 12 va'] bit_drop_bit_eq [of 12 va] by (metis comp_apply le_add_diff_inverse)
  have div: "x div 0x40000000 = drop_bit 30 x" "x mod 0x40000000 = take_bit 30 x" "x div 0x200000 = drop_bit 21 x"
    "x mod 0x200000 = take_bit 21 x" "x div 0x1000 = drop_bit 12 x" for x :: u64
    by (simp_all add: drop_bit_eq_div take_bit_eq_mod)
  have idx: "va' div 0x40000000 = va div 0x40000000" "va' mod 0x40000000 div 0x200000 = va mod 0x40000000 div 0x200000"
    "va' mod 0x200000 div 0x1000 = va mod 0x200000 div 0x1000"
    unfolding div by (rule bit_word_eqI; simp add: bit_simps b)+
  have leaf: "pt_leaf e M (take_bit k va') =
      map_option (\<lambda>t. t\<lparr>out_address := (out_address t AND NOT 0xfff) OR (va' mod 0x1000)\<rparr>) (pt_leaf e M (take_bit k va))"
    if "12 \<le> k" "\<And>n. n < 12 \<Longrightarrow> \<not> bit M n" for e M k
    by (rule pt_leaf_page) (use that b in \<open>auto simp: bit_simps\<close>)
  have low: "x mod 0x1000 = take_bit 12 x" for x :: u64 by (simp add: take_bit_eq_mod)
  note leaves = leaf [of 30 PAGING_L1_BLOCK_ADDRESS_MASK] leaf [of 21 PAGING_L2_BLOCK_ADDRESS_MASK] leaf [of 12 PAGING_L3_ADDRESS_MASK]
  show ?thesis
    unfolding pt_walk_def Let_def idx using leaves
    by (simp add: div(2,4) low paging_masks bit_simps)
qed


section \<open>The address space of a process\<close>

definition page_index :: "u64 \<Rightarrow> nat" where
  \<comment> \<open>the page of a user address\<close>
  "page_index va = (unat va - 2 ^ 31) div 4096"

definition address_space :: "mem \<Rightarrow> addr \<Rightarrow> addr list \<Rightarrow> bool" where
  \<comment> \<open>the frames \<open>fs\<close> from 0x80000000 on, for the user too, and the kernel's half\<close>
  "address_space m root fs \<longleftrightarrow> (\<forall>va. unat va < 2 ^ 39 \<longrightarrow> pt_walk m root va =
     (if 2 ^ 31 \<le> unat va \<and> page_index va < length fs
      then Some \<lparr>out_address = fs ! page_index va + va mod 0x1000, user_access = True, write_protected = False\<rparr>
      else kernel_map va))"

lemma aligned_add:
  assumes "table_aligned p"
  shows "(p AND PAGING_L3_ADDRESS_MASK) AND NOT 0xfff OR (va mod 0x1000) = p + va mod 0x1000"
proof -
  have p: "p AND push_bit 12 (mask 36) = p" using assms by (simp add: table_aligned_def paging_masks)
  then have low: "\<not> bit p n" if "n < 12" for n using that by (metis bit_and_iff bit_push_bit_iff not_le)
  have fff: "(0xfff :: u64) = mask 12" and m12: "va mod 0x1000 = take_bit 12 va"
    by (simp_all add: mask_eq_exp_minus_1 take_bit_eq_mod)
  have "p + take_bit 12 va = p OR take_bit 12 va" by (rule disjunctive_add) (use low in \<open>auto simp: bit_simps\<close>)
  moreover have "p AND NOT (mask 12) = p" by (rule bit_word_eqI) (use low in \<open>auto simp: bit_simps\<close>)
  ultimately show ?thesis by (simp add: p fff m12 paging_masks)
qed

lemma unat_user_va:
  assumes "i < 2 ^ 18"
  shows "unat (0x80000000 + 0x1000 * of_nat i :: u64) = 2 ^ 31 + 4096 * i"
proof -
  have "unat (of_nat i :: u64) = i" using assms by (simp add: unat_of_nat64)
  then show ?thesis using assms by (simp add: unat_add64 unat_mult64)
qed

lemma user_page:
  assumes "i < 2 ^ 18" and "va div 0x1000 = (0x80000000 + 0x1000 * of_nat i :: u64) div 0x1000"
  shows "2 ^ 31 \<le> unat va" and "page_index va = i"
proof -
  have "unat va div 4096 = 2 ^ 19 + i"
    using arg_cong [OF assms(2), of unat] unat_user_va [OF assms(1)] by (simp add: unat_div64)
  then have "2 ^ 31 + 4096 * i \<le> unat va" "unat va < 2 ^ 31 + 4096 * i + 4096" by simp_all
  then show "2 ^ 31 \<le> unat va" "page_index va = i" by (simp_all add: page_index_def)
qed

lemma user_page_of_index:
  assumes "2 ^ 31 \<le> unat va" and "page_index va = i" and "i < 2 ^ 18"
  shows "va div 0x1000 = (0x80000000 + 0x1000 * of_nat i :: u64) div 0x1000"
proof -
  have "unat va div 4096 = 2 ^ 19 + i" using assms(1,2) unfolding page_index_def by simp
  then show ?thesis using unat_user_va [OF assms(3)] by (simp add: unat_eq_iff unat_div64)
qed

lemma address_space_extend:
  assumes as: "address_space m root fs" and p: "table_aligned p" and i: "length fs < 2 ^ 18"
  defines "va \<equiv> 0x80000000 + 0x1000 * of_nat (length fs)"
  assumes new: "pt_walk m' root va = Some (mapped va p True False)"
    and others: "\<forall>va'. unat va' < 2 ^ 39 \<and> va' div 0x1000 \<noteq> va div 0x1000 \<longrightarrow> pt_walk m' root va' = pt_walk m root va'"
  shows "address_space m' root (fs @ [p])"
  unfolding address_space_def
proof (intro allI impI)
  fix x :: u64
  assume x: "unat x < 2 ^ 39"
  show "pt_walk m' root x = (if 2 ^ 31 \<le> unat x \<and> page_index x < length (fs @ [p])
      then Some \<lparr>out_address = (fs @ [p]) ! page_index x + x mod 0x1000, user_access = True, write_protected = False\<rparr>
      else kernel_map x)"
  proof (cases "x div 0x1000 = va div 0x1000")
    case True
    have "unat (va mod 0x1000) = 0" using unat_user_va [OF i] by (simp add: va_def unat_mod64)
    then have "va mod 0x1000 = 0" by (simp add: unat_eq_0)
    then have "pt_walk m' root x = Some \<lparr>out_address = p + x mod 0x1000, user_access = True, write_protected = False\<rparr>"
      using pt_walk_same_page [OF True, of m' root] new aligned_add [OF p, of x] by (simp add: mapped_def)
    then show ?thesis using user_page [OF i, of x] True by (simp add: va_def nth_append)
  next
    case False
    have "page_index x \<noteq> length fs" if "2 ^ 31 \<le> unat x"
      using user_page_of_index [OF that _ i] False by (auto simp: va_def)
    then show ?thesis using as others x False by (auto simp: address_space_def nth_append)
  qed
qed


lemma keeps_others_frame:
  assumes ok: "pt_ok m pm" and w: "same_outside R m m'" and off: "R \<inter> pool_bytes (pages_allocator pm) = {}"
  shows "keeps_others m m' pm"
proof -
  have "m' b = m b" if "t \<in> slab_live m (pages_allocator pm)" "b \<in> table t" for t b
    using table_in_pool [OF ok, of t] slab_pool.live_slots [OF pt_okD(1) [OF ok]] that off
    by (intro same_outsideD [OF w]) blast
  then show ?thesis unfolding keeps_others_def pt_frame(2,4) [OF assms] by blast
qed

section \<open>One page after the other\<close>

definition user_mapping :: "kernel \<Rightarrow> kernel \<Rightarrow> paging_manager \<Rightarrow> addr list \<Rightarrow> bool" where
  \<comment> \<open>from \<open>k\<close> to \<open>k'\<close> the frames \<open>fs\<close> were taken from the pool of user pages and mapped\<close>
  "user_mapping k k' pm fs \<longleftrightarrow>
     k' = k\<lparr>kmem := kmem k', regs := regs k'\<rparr> \<and> pt_ok (kmem k') pm \<and> address_space (kmem k') (l1 pm) fs \<and> distinct fs \<and>
     set fs \<inter> slab_live (kmem k) (user_space k) = {} \<and> set fs \<subseteq> slab_slots (user_space k) \<and>
     slab_live (kmem k') (user_space k) = set fs \<union> slab_live (kmem k) (user_space k) \<and>
     free_tables (kmem k) (page_slab k) \<le> free_tables (kmem k') (page_slab k) + 2 * length fs \<and>
     same_outside (slab_header (user_space k) \<union> pool_bytes (page_slab k)) (kmem k) (kmem k') \<and>
     keeps_others (kmem k) (kmem k') pm"

lemma map_fresh_page:
  assumes ok: "pt_ok m pm" and free: "2 \<le> free_tables m (pages_allocator pm)" and p: "table_aligned p"
    and as: "address_space m (l1 pm) fs" and len: "length fs < 2 ^ 18"
  obtains m' where
    "paging_manager_map_page m r pm (0x80000000 + 0x1000 * of_nat (length fs)) p True False = Some (m', tlbi_vmalle1 r, 0)"
    and "pt_ok m' pm" and "address_space m' (l1 pm) (fs @ [p])"
    and "free_tables m (pages_allocator pm) \<le> free_tables m' (pages_allocator pm) + 2"
    and "same_outside (pool_bytes (pages_allocator pm)) m m'" and "keeps_others m m' pm"
proof -
  let ?va = "0x80000000 + 0x1000 * of_nat (length fs) :: u64"
  have va: "unat ?va < 2 ^ 39" using unat_user_va [OF len] len by simp
  obtain m' res where ins: "paging_insert_or_alloc m pm (l1 pm) 1 ?va p True False = Some (m', res)"
    "map_result 2 m m' pm ?va (mapped ?va p True False) res"
    using insert_level1 [OF ok va free] by blast
  have none: "pt_walk m (l1 pm) ?va = None"
    using as va user_page [OF len refl] unat_user_va [OF len] by (simp add: address_space_def kernel_map_def)
  have mr: "pt_ok m' pm" "free_tables m (pages_allocator pm) \<le> free_tables m' (pages_allocator pm) + 2"
    "same_outside (pool_bytes (pages_allocator pm)) m m'" "keeps_others m m' pm" "res = 0"
    "pt_walk m' (l1 pm) ?va = Some (mapped ?va p True False)"
    "\<forall>va'. unat va' < 2 ^ 39 \<and> va' div 0x1000 \<noteq> ?va div 0x1000 \<longrightarrow> pt_walk m' (l1 pm) va' = pt_walk m (l1 pm) va'"
    using ins(2) unfolding map_result_def none by (elim conjE, assumption | simp)+
  have "address_space m' (l1 pm) (fs @ [p])" using as p len mr(6,7) by (rule address_space_extend)
  then show thesis using that [of m'] ins(1) mr(1-5) by (simp add: paging_manager_map_page_def)
qed

lemma job_map_slot_ok:
  fixes k1 :: kernel
  assumes um: "user_mapping k k1 pm fs" and s: "pages_allocator pm = page_slab k" and u: "page_pool (user_space k)"
    and apart: "pool_bytes (user_space k) \<inter> pool_bytes (page_slab k) = {}"
    and free: "2 \<le> free_tables (kmem k1) (page_slab k)" "slab_live (kmem k1) (user_space k) \<noteq> slab_slots (user_space k)"
    and len: "length fs < 2 ^ 18"
  obtains k2 p where "job_map_slot pm (length fs) k1 = Some k2" and "user_mapping k k2 pm (fs @ [p])"
proof -
  let ?u = "user_space k" and ?s = "page_slab k" and ?va = "0x80000000 + 0x1000 * of_nat (length fs) :: u64"
  have k1: "k1 = k\<lparr>kmem := kmem k1, regs := regs k1\<rparr>" and ok: "pt_ok (kmem k1) pm" and as: "address_space (kmem k1) (l1 pm) fs"
    using um by (simp_all add: user_mapping_def)
  have u1: "user_space k1 = ?u" using arg_cong [OF k1, of user_space] by simp
  have wf: "wf_slab ?u" using u by (simp add: page_pool_def)
  obtain m1 p where p: "slab_allocate (kmem k1) ?u = Some (m1, p)" "p \<in> slab_slots ?u" "p \<notin> slab_live (kmem k1) ?u"
    "slab_live m1 ?u = insert p (slab_live (kmem k1) ?u)" "same_outside (slab_header ?u) (kmem k1) m1"
    using slab_pool.alloc_someE [OF wf free(2)] .
  have hu: "slab_header ?u \<subseteq> pool_bytes ?u" by (simp add: pool_bytes_def)
  have off: "slab_header ?u \<inter> pool_bytes (pages_allocator pm) = {}" using hu apart unfolding s by blast
  note fr = pt_frame [OF ok p(5) off]
  have free1: "2 \<le> free_tables m1 (pages_allocator pm)" using free(1) fr(4) s by (simp add: free_tables_def)
  have as1: "address_space m1 (l1 pm) fs" using as fr(3) by (simp add: address_space_def)
  have al: "table_aligned p" using u p(2) by (simp add: page_pool_def)
  obtain m2 where mr: "paging_manager_map_page m1 (regs k1) pm ?va p True False = Some (m2, tlbi_vmalle1 (regs k1), 0)"
    "pt_ok m2 pm" "address_space m2 (l1 pm) (fs @ [p])"
    "free_tables m1 (pages_allocator pm) \<le> free_tables m2 (pages_allocator pm) + 2"
    "same_outside (pool_bytes (pages_allocator pm)) m1 m2" "keeps_others m1 m2 pm"
    using fr(1) free1 al as1 len by (rule map_fresh_page)
  have off': "pool_bytes (pages_allocator pm) \<inter> slab_header ?u = {}" using off by (simp add: Int_commute)
  have live2: "slab_live m2 ?u = insert p (slab_live (kmem k1) ?u)"
    using slab_pool.live_frame [OF wf mr(5) off'] p(4) by simp
  have w: "same_outside (slab_header ?u \<union> pool_bytes ?s) (kmem k1) m2"
  proof -
    have "same_outside (slab_header ?u \<union> pool_bytes ?s) (kmem k1) m1" by (rule same_outside_mono [OF p(5)]) blast
    also have "same_outside (slab_header ?u \<union> pool_bytes ?s) m1 m2"
      by (rule same_outside_mono [OF mr(5)]) (simp add: s)
    finally show ?thesis .
  qed
  have ko: "keeps_others (kmem k1) m2 pm" by (rule keeps_others_trans [OF keeps_others_frame [OF ok p(5) off] mr(6)])
  let ?k2 = "k1\<lparr>kmem := m2, regs := tlbi_vmalle1 (regs k1)\<rparr>"
  have run: "job_map_slot pm (length fs) k1 = Some ?k2"
    using p(1) u1 mr(1) by (simp add: job_map_slot_def)
  have k2: "?k2 = k\<lparr>kmem := kmem ?k2, regs := regs ?k2\<rparr>" by (subst k1) simp
  have old: "distinct fs" "set fs \<inter> slab_live (kmem k) ?u = {}" "set fs \<subseteq> slab_slots ?u"
    "slab_live (kmem k1) ?u = set fs \<union> slab_live (kmem k) ?u" "free_tables (kmem k) ?s \<le> free_tables (kmem k1) ?s + 2 * length fs"
    "same_outside (slab_header ?u \<union> pool_bytes ?s) (kmem k) (kmem k1)" "keeps_others (kmem k) (kmem k1) pm"
    using um by (simp_all add: user_mapping_def)
  have ft: "free_tables (kmem k1) ?s \<le> free_tables m2 ?s + 2" using mr(4) fr(4) s by (simp add: free_tables_def)
  have "distinct (fs @ [p])" "set (fs @ [p]) \<inter> slab_live (kmem k) ?u = {}" "set (fs @ [p]) \<subseteq> slab_slots ?u"
    "slab_live m2 ?u = set (fs @ [p]) \<union> slab_live (kmem k) ?u" "free_tables (kmem k) ?s \<le> free_tables m2 ?s + 2 * length (fs @ [p])"
    using old(1-5) p(2,3) live2 ft by auto
  then have "user_mapping k ?k2 pm (fs @ [p])"
    unfolding user_mapping_def
    using k2 mr(2,3) same_outside_trans [OF old(6) w] keeps_others_trans [OF old(7) ko] by simp
  then show thesis using that run by blast
qed


lemma job_map_slots_ok:
  assumes k: "pt_ok (kmem k) pm" "address_space (kmem k) (l1 pm) []" and s: "pages_allocator pm = page_slab k"
    and u: "page_pool (user_space k)" and apart: "pool_bytes (user_space k) \<inter> pool_bytes (page_slab k) = {}"
  shows "2 * n \<le> free_tables (kmem k) (page_slab k) \<Longrightarrow> n \<le> card (slab_slots (user_space k) - slab_live (kmem k) (user_space k)) \<Longrightarrow>
    n \<le> 2 ^ 18 \<Longrightarrow> \<exists>k' fs. job_map_slots pm n k = Some k' \<and> user_mapping k k' pm fs \<and> length fs = n"
proof (induction n)
  case 0
  have "user_mapping k k pm []" using k by (simp add: user_mapping_def)
  then show ?case by auto
next
  case (Suc n)
  let ?u = "user_space k"
  obtain k1 fs where k1: "job_map_slots pm n k = Some k1" "user_mapping k k1 pm fs" "length fs = n" using Suc by auto
  have "2 \<le> free_tables (kmem k1) (page_slab k)" using k1(2,3) Suc.prems(1) by (simp add: user_mapping_def)
  moreover have "slab_live (kmem k1) ?u \<noteq> slab_slots ?u"
  proof
    assume full: "slab_live (kmem k1) ?u = slab_slots ?u"
    have "slab_slots ?u - slab_live (kmem k) ?u \<subseteq> set fs" using k1(2) full by (auto simp: user_mapping_def)
    then have "card (slab_slots ?u - slab_live (kmem k) ?u) \<le> card (set fs)" by (rule card_mono [rotated]) simp
    then show False using Suc.prems(2) card_length [of fs] k1(3) by simp
  qed
  ultimately obtain k2 p where "job_map_slot pm (length fs) k1 = Some k2" "user_mapping k k2 pm (fs @ [p])"
    using job_map_slot_ok [OF k1(2) s u apart] Suc.prems(3) k1(3) by (metis Suc_le_eq)
  then show ?case using k1(1,3) by (auto intro!: exI [of _ k2] exI [of _ "fs @ [p]"])
qed


section \<open>A new address space\<close>

definition process_pools :: "kernel \<Rightarrow> runs \<Rightarrow> bool" where
  \<comment> \<open>the page tables come from a pool in the kernel heap, the user pages from one outside it\<close>
  "process_pools k R \<longleftrightarrow>
     heap_ok (kmem k) (main_heap k) R \<and> heap_table_apart (main_heap k) \<and> page_pool (page_slab k) \<and>
     (\<exists>(q, l) \<in> heap_extents (main_heap k) R. pool_bytes (page_slab k) \<subseteq> region q l) \<and> page_pool (user_space k) \<and>
     pool_bytes (user_space k) \<inter> (heap_bytes (main_heap k) \<union> table_bytes (main_heap k)) = {}"

lemma kalloc_frame:
  assumes ok: "heap_ok m h R" and sz: "0 < unat sz" and a: "kalloc m h sz = Some (m1, h1, p)"
  shows "same_outside (table_bytes h) m m1"
proof -
  have a': "heap_alloc m h sz = Some (m1, h1, p)" using a by (simp add: kalloc_def sysutils_kernel_heap_alloc_def)
  consider "m1 = m" | i where "blk_fits m (heap_table h) (unat (blocks h)) (ceil_div (unat sz) 4096) i"
    "same_outside (region (heap_table h + of_nat i) (ceil_div (unat sz) 4096)) m m1"
    using heap_alloc_eq [OF ok sz] a' by auto
  then show ?thesis
  proof cases
    case (2 i)
    have "i + ceil_div (unat sz) 4096 \<le> unat (blocks h)" using 2(1) by (simp add: blk_fits_def)
    then show ?thesis
      unfolding table_bytes_def using unat_less64 [of "blocks h"]
      by (intro same_outside_mono [OF 2(2)] region_sub) simp_all
  qed simp
qed

lemma process_alloc:
  assumes pp: "process_pools k R" and a: "kalloc (kmem k) (main_heap k) 16 = Some (m1, h1, p)" "p \<noteq> NULL"
  obtains R1 where "heap_ok m1 h1 R1" and "heap_extents (main_heap k) R \<subseteq> heap_extents h1 R1"
    and "heap_bytes h1 = heap_bytes (main_heap k)" "table_bytes h1 = table_bytes (main_heap k)" "heap_table_apart h1"
    and "same_outside (table_bytes (main_heap k)) (kmem k) m1"
    and "region p 16 \<inter> (pool_bytes (page_slab k) \<union> pool_bytes (user_space k) \<union> table_bytes (main_heap k)) = {}"
    and "table_bytes (main_heap k) \<inter> (pool_bytes (page_slab k) \<union> pool_bytes (user_space k)) = {}"
proof -
  let ?h = "main_heap k"
  have ok: "heap_ok (kmem k) ?h R" and ta: "heap_table_apart ?h" using pp by (simp_all add: process_pools_def)
  obtain q ql where q: "(q, ql) \<in> heap_extents ?h R" "pool_bytes (page_slab k) \<subseteq> region q ql" using pp by (auto simp: process_pools_def)
  have ub: "pool_bytes (user_space k) \<inter> heap_bytes ?h = {}" "pool_bytes (user_space k) \<inter> table_bytes ?h = {}"
    using pp by (auto simp: process_pools_def)
  have th: "table_bytes ?h \<inter> heap_bytes ?h = {}" using ta by (simp add: heap_table_apart_def table_bytes_def heap_bytes_def)
  have sz: "0 < unat (16 :: u64)" by simp
  obtain R1 l i where r: "heap_ok m1 h1 R1" "heap_table_apart h1" "unat (16 :: u64) \<le> l"
    "heap_extents h1 R1 = insert (p, l) (heap_extents ?h R)" "(p, l) \<notin> heap_extents ?h R"
    "unat p = unat (heap_start_address ?h) + 4096 * i" "4096 * i + l \<le> 4096 * unat (blocks ?h)"
    "heap_start_address h1 = heap_start_address ?h" "blocks h1 = blocks ?h"
    "\<forall>(q, k') \<in> heap_extents ?h R. \<forall>b \<in> region q k'. m1 b = kmem k b"
    using ok ta sz a by (rule kalloc_extent)
  have hb: "heap_bytes h1 = heap_bytes ?h" by (simp add: heap_bytes_def r(8,9))
  have tb: "table_bytes h1 = table_bytes ?h"
    using a(1) heap_alloc_eq [OF ok sz] by (auto simp: kalloc_def sysutils_kernel_heap_alloc_def table_bytes_def)
  have qh: "region q ql \<subseteq> heap_bytes ?h" using extent_in_area [OF ok q(1)] by (simp add: heap_bytes_def)
  have ph: "region p l \<subseteq> heap_bytes ?h" using extent_in_area [OF r(1), of p l] r(4) hb by (simp add: heap_bytes_def)
  have pq: "region p l \<inter> region q ql = {}"
    by (rule kernel_heap.extents_apart [OF r(1)]) (use r(4,5) q(1) in auto)
  have p16: "region p 16 \<subseteq> region p l" by (rule region_mono) (use r(3) in simp)
  have "region p 16 \<inter> (pool_bytes (page_slab k) \<union> pool_bytes (user_space k) \<union> table_bytes ?h) = {}"
    using p16 ph pq q(2) ub th by blast
  moreover have "table_bytes ?h \<inter> (pool_bytes (page_slab k) \<union> pool_bytes (user_space k)) = {}"
    using q(2) qh th ub(2) by blast
  moreover have ext: "heap_extents ?h R \<subseteq> heap_extents h1 R1" unfolding r(4) by blast
  ultimately show thesis using that [OF r(1) ext hb tb r(2) kalloc_frame [OF ok sz a(1)]] by blast
qed

lemma pools_apart:
  assumes "process_pools k R"
  shows "pool_bytes (user_space k) \<inter> pool_bytes (page_slab k) = {}"
proof -
  have ok: "heap_ok (kmem k) (main_heap k) R" and ub: "pool_bytes (user_space k) \<inter> heap_bytes (main_heap k) = {}"
    using assms by (auto simp: process_pools_def)
  obtain q l where q: "(q, l) \<in> heap_extents (main_heap k) R" "pool_bytes (page_slab k) \<subseteq> region q l"
    using assms by (auto simp: process_pools_def)
  have "region q l \<subseteq> heap_bytes (main_heap k)" using extent_in_area [OF ok q(1)] by (simp add: heap_bytes_def)
  then show ?thesis using q(2) ub by blast
qed

lemma process_tables:
  fixes slab_ptr :: addr
  assumes s: "page_pool s" and free: "0 < free_tables m s" and off: "region p 16 \<inter> pool_bytes s = {}"
  obtains m1 pm m' where "paging_manager_init m s = Some (m1, pm)" and "pages_allocator pm = s"
    and "m' = paging_manager_map_kernel (store64 (store64 m1 (fld p 8) slab_ptr) p (l1 pm)) pm"
    and "pt_ok m' pm" and "address_space m' (l1 pm) []" and "load64 m' p = l1 pm"
    and "slab_live m' s = insert (l1 pm) (slab_live m s)" "l1 pm \<notin> slab_live m s"
    and "same_outside (pool_bytes s \<union> region p 16) m m'"
    and "\<forall>L \<subseteq> slab_live m s. (\<forall>t \<in> L. \<forall>b \<in> table t. m' b = m b) \<and> (\<forall>n t. pt_table m' (l1 pm) n = Some t \<longrightarrow> t \<notin> L)"
proof -
  obtain m1 pm where i: "paging_manager_init m s = Some (m1, pm)" "pages_allocator pm = s" "pt_ok m1 pm"
    "\<forall>va. unat va < 2 ^ 39 \<longrightarrow> pt_walk m1 (l1 pm) va = None" "slab_live m1 s = insert (l1 pm) (slab_live m s)"
    "l1 pm \<notin> slab_live m s" "l1 pm \<in> slab_slots s" "same_outside (slab_header s \<union> table (l1 pm)) m m1"
    "\<forall>n. pt_table m1 (l1 pm) n = (if n = N1 then Some (l1 pm) else None)"
    using paging_manager_init_ok [OF s free] .
  let ?m2 = "store64 (store64 m1 (fld p 8) slab_ptr) p (l1 pm)"
  have "region (fld p 8) 8 \<subseteq> region p 16" "region p 8 \<subseteq> region p 16" by (rule fld_sub; simp) (rule region_mono, simp)
  then have w2: "same_outside (region p 16) m1 ?m2"
    using same_outside_mono [OF store_le_outside] by (blast intro: same_outside_trans)
  have off': "region p 16 \<inter> pool_bytes (pages_allocator pm) = {}" using off i(2) by simp
  note f = pt_frame [OF i(3) w2 off']
  have none: "\<forall>va. unat va < 2 ^ 39 \<longrightarrow> pt_walk ?m2 (l1 pm) va = None" using f(3) i(4) by simp
  note g = map_kernel_ok [OF f(1) none]
  let ?m' = "paging_manager_map_kernel ?m2 pm"
  have root: "table (l1 pm) \<subseteq> pool_bytes s" using table_in_pool [OF i(3)] i(2,7) by simp
  have hd: "slab_header s \<subseteq> pool_bytes s" by (simp add: pool_bytes_def)
  have w: "same_outside (pool_bytes s \<union> region p 16) m ?m'"
  proof -
    have "same_outside (pool_bytes s \<union> region p 16) m m1" by (rule same_outside_mono [OF i(8)]) (use root hd in blast)
    also have "same_outside (pool_bytes s \<union> region p 16) m1 ?m2" by (rule same_outside_mono [OF w2]) blast
    also have "same_outside (pool_bytes s \<union> region p 16) ?m2 ?m'" by (rule same_outside_mono [OF g(4)]) (use root in blast)
    finally show ?thesis .
  qed
  have p8: "region p 8 \<inter> table (l1 pm) = {}" using \<open>region p 8 \<subseteq> region p 16\<close> root off by blast
  have "load64 ?m' p = load64 ?m2 p" by (rule load_le_same_outside [OF g(4) p8]) simp
  then have ld: "load64 ?m' p = l1 pm" by (simp add: load_store_le)
  have ko: "keeps_others m1 ?m' pm" by (rule keeps_others_trans [OF keeps_others_frame [OF i(3) w2 off'] g(5)])
  have "(\<forall>t \<in> L. \<forall>b \<in> table t. ?m' b = m b) \<and> (\<forall>n t. pt_table ?m' (l1 pm) n = Some t \<longrightarrow> t \<notin> L)" if L: "L \<subseteq> slab_live m s" for L
  proof -
    have "L \<subseteq> slab_live m1 (pages_allocator pm)" "\<forall>n t. pt_table m1 (l1 pm) n = Some t \<longrightarrow> t \<notin> L"
      using L i(2,5,6,9) by (auto split: if_splits)
    then have 1: "\<forall>t \<in> L. \<forall>b \<in> table t. ?m' b = m1 b" "\<forall>n t. pt_table ?m' (l1 pm) n = Some t \<longrightarrow> t \<notin> L"
      using ko unfolding keeps_others_def by blast+
    have "m1 b = m b" if t: "t \<in> L" "b \<in> table t" for t b
    proof -
      have slot: "t \<in> slab_slots (pages_allocator pm)" "t \<noteq> l1 pm"
        using t(1) L i(2,6) slab_pool.live_slots [OF pt_okD(1) [OF i(3)]] by auto
      have "table t \<inter> table (l1 pm) = {}" "table t \<inter> slab_header s = {}"
        using tables_apart [OF i(3) slot(1) _ slot(2)] table_off_header [OF i(3) slot(1)] i(2,7) by simp_all
      then show ?thesis using t(2) by (intro same_outsideD [OF i(8)]) blast
    qed
    with 1 show ?thesis by auto
  qed
  moreover have "address_space ?m' (l1 pm) []" using g(2) by (simp add: address_space_def)
  moreover have "slab_live ?m' s = insert (l1 pm) (slab_live m s)" using g(3) f(4) i(2,5) by simp
  ultimately show thesis using that [OF i(1,2) refl g(1)] ld i(6) w by blast
qed


lemma int_ceil_div: "int (ceil_div a 4096) = int a div 4096 + (if int a mod 4096 \<noteq> 0 then 1 else 0)"
proof -
  have "int a div 4096 = int (a div 4096)" "int a mod 4096 = int (a mod 4096)" by (simp_all add: zdiv_int zmod_int)
  then show ?thesis unfolding ceil_div_def by simp
qed

lemma need_slots_eq:
  assumes "0 \<le> sz" and "sz \<le> 2 ^ 30 - 4096"
  defines "n \<equiv> ceil_div (nat sz + 4096) 4096"
  shows "int_res (sz + 4096) = Some (sz + 4096)"
    and "(sz + 4096) sdiv 4096 + (if (sz + 4096) smod 4096 \<noteq> 0 then 1 else 0) = int n"
    and "int_res (4096 * int n) = Some (4096 * int n)" and "n \<le> 2 ^ 18"
proof -
  have x: "sz + 4096 = int (nat sz + 4096)" using assms(1) by simp
  have c: "int n = (sz + 4096) div 4096 + (if (sz + 4096) mod 4096 \<noteq> 0 then 1 else 0)"
    unfolding x n_def by (rule int_ceil_div)
  have "(sz + 4096) sdiv 4096 = (sz + 4096) div 4096" "(sz + 4096) smod 4096 = (sz + 4096) mod 4096"
    using assms(1) by (simp_all add: signed_divide_int_def signed_modulo_int_def)
  then show "(sz + 4096) sdiv 4096 + (if (sz + 4096) smod 4096 \<noteq> 0 then 1 else 0) = int n" using c by simp
  have "int n \<le> 2 ^ 18" 
    unfolding c using assms(2) mult_div_mod_eq [of 4096 "sz + 4096"] pos_mod_sign [of 4096 "sz + 4096"] by (cases "(sz + 4096) mod 4096 = 0") auto
  then show "n \<le> 2 ^ 18" by simp
  then show "int_res (sz + 4096) = Some (sz + 4096)" "int_res (4096 * int n) = Some (4096 * int n)"
    using assms(1,2) by (simp_all add: int_res_small)
qed


lemma create_paging_run:
  assumes pp: "process_pools k R" and a: "kalloc (kmem k) (main_heap k) 16 = Some (m1, h1, p)" "p \<noteq> NULL"
    and sz: "0 \<le> sz" "sz \<le> 2 ^ 30 - 4096"
    and ft: "2 * ceil_div (nat sz + 4096) 4096 + 1 \<le> free_tables (kmem k) (page_slab k)"
    and fu: "ceil_div (nat sz + 4096) 4096 \<le> card (slab_slots (user_space k) - slab_live (kmem k) (user_space k))"
  obtains m2 pm k2 fs k' where "k2 = k\<lparr>kmem := m2, main_heap := h1\<rparr>"
    and "job_create_paging k slab_ptr sz = Some (k', p, 4096 * int (ceil_div (nat sz + 4096) 4096))"
    and "user_mapping k2 k' pm fs" "length fs = ceil_div (nat sz + 4096) 4096" "pages_allocator pm = page_slab k"
    and "load64 m2 p = l1 pm" "same_outside (pool_bytes (page_slab k) \<union> region p 16) m1 m2"
    and "\<forall>L \<subseteq> slab_live m1 (page_slab k). (\<forall>t \<in> L. \<forall>b \<in> table t. m2 b = m1 b) \<and> (\<forall>n t. pt_table m2 (l1 pm) n = Some t \<longrightarrow> t \<notin> L)"
    and "slab_live m2 (user_space k) = slab_live (kmem k) (user_space k)"
    and "slab_live m1 (page_slab k) \<subseteq> slab_live m2 (page_slab k)"
proof -
  let ?s = "page_slab k" and ?u = "user_space k" and ?n = "ceil_div (nat sz + 4096) 4096"
  obtain R1 where r: "heap_ok m1 h1 R1" "heap_extents (main_heap k) R \<subseteq> heap_extents h1 R1"
    "heap_bytes h1 = heap_bytes (main_heap k)" "table_bytes h1 = table_bytes (main_heap k)" "heap_table_apart h1"
    "same_outside (table_bytes (main_heap k)) (kmem k) m1"
    "region p 16 \<inter> (pool_bytes ?s \<union> pool_bytes ?u \<union> table_bytes (main_heap k)) = {}"
    "table_bytes (main_heap k) \<inter> (pool_bytes ?s \<union> pool_bytes ?u) = {}"
    using pp a by (rule process_alloc)
  have s: "page_pool ?s" and u: "page_pool ?u" and apart: "pool_bytes ?u \<inter> pool_bytes ?s = {}"
    using pools_apart [OF pp] pp by (simp_all add: process_pools_def)
  have wf: "wf_slab ?s" "wf_slab ?u" using s u by (simp_all add: page_pool_def)
  have hs: "slab_header ?s \<subseteq> pool_bytes ?s" "slab_header ?u \<subseteq> pool_bytes ?u" by (simp_all add: pool_bytes_def)
  have ls: "slab_live m1 ?s = slab_live (kmem k) ?s" by (rule slab_pool.live_frame [OF wf(1) r(6)]) (use r(8) hs in blast)
  have lu: "slab_live m1 ?u = slab_live (kmem k) ?u" by (rule slab_pool.live_frame [OF wf(2) r(6)]) (use r(8) hs in blast)
  have free1: "0 < free_tables m1 ?s" and off: "region p 16 \<inter> pool_bytes ?s = {}" using ft ls r(7) by (auto simp: free_tables_def)
  obtain m0 pm m2 where t: "paging_manager_init m1 ?s = Some (m0, pm)" "pages_allocator pm = ?s"
    "m2 = paging_manager_map_kernel (store64 (store64 m0 (fld p 8) slab_ptr) p (l1 pm)) pm"
    "pt_ok m2 pm" "address_space m2 (l1 pm) []" "load64 m2 p = l1 pm"
    "slab_live m2 ?s = insert (l1 pm) (slab_live m1 ?s)" "l1 pm \<notin> slab_live m1 ?s"
    "same_outside (pool_bytes ?s \<union> region p 16) m1 m2"
    "\<forall>L \<subseteq> slab_live m1 ?s. (\<forall>t \<in> L. \<forall>b \<in> table t. m2 b = m1 b) \<and> (\<forall>n t. pt_table m2 (l1 pm) n = Some t \<longrightarrow> t \<notin> L)"
    using s free1 off by (rule process_tables [where slab_ptr = slab_ptr])
  have lu2: "slab_live m2 ?u = slab_live (kmem k) ?u"
    unfolding lu [symmetric] by (rule slab_pool.live_frame [OF wf(2) t(9)]) (use r(7) hs apart in blast)
  let ?k2 = "k\<lparr>kmem := m2, main_heap := h1\<rparr>"
  have "2 * ?n \<le> free_tables m2 ?s" using free_tables_step [OF t(7)] ft ls by (simp add: free_tables_def)
  moreover note nn = need_slots_eq [OF sz]
  ultimately obtain k' fs where um: "job_map_slots pm ?n ?k2 = Some k'" "user_mapping ?k2 k' pm fs" "length fs = ?n"
    using job_map_slots_ok [of ?k2 pm ?n] t(2,4,5) u apart fu lu2 by auto
  have run: "job_create_paging k slab_ptr sz = Some (k', p, 4096 * int ?n)"
    by (simp only: job_create_paging_def a(1) t(1) nn um(1) [unfolded t(3)] Let_def Option.bind.simps prod.case nat_int)
  show thesis using that [OF refl run um(2,3) t(2,6,9,10) lu2] t(7) by blast
qed


lemma user_mapping_frame:
  assumes "user_mapping k k' pm fs"
  shows "same_outside (pool_bytes (user_space k) \<union> pool_bytes (page_slab k)) (kmem k) (kmem k')"
proof (rule same_outside_mono)
  show "same_outside (slab_header (user_space k) \<union> pool_bytes (page_slab k)) (kmem k) (kmem k')"
    using assms by (simp add: user_mapping_def)
qed (auto simp: pool_bytes_def simp del: in_region)

lemma keeps_othersD:
  assumes "keeps_others m m' pm" and "L \<subseteq> slab_live m (pages_allocator pm)" and "\<forall>n t. pt_table m (l1 pm) n = Some t \<longrightarrow> t \<notin> L"
  shows "L \<subseteq> slab_live m' (pages_allocator pm)" and "\<forall>t \<in> L. \<forall>b \<in> table t. m' b = m b"
  using spec [OF assms(1) [unfolded keeps_others_def], of L] assms(2,3) by simp_all

lemma other_manager_kept:
  assumes ok: "pt_ok m pm'" and s: "pages_allocator pm' = s" "pages_allocator pm = s"
    and m1: "same_outside T m m1" "T \<inter> pool_bytes s = {}"
    and m2: "\<forall>L \<subseteq> slab_live m1 s. (\<forall>t \<in> L. \<forall>b \<in> table t. m2 b = m1 b) \<and> (\<forall>n t. pt_table m2 (l1 pm) n = Some t \<longrightarrow> t \<notin> L)"
      "slab_live m1 s \<subseteq> slab_live m2 s"
    and m3: "keeps_others m2 m3 pm"
  shows "pt_ok m3 pm'" and "unat va < 2 ^ 39 \<Longrightarrow> pt_walk m3 (l1 pm') va = pt_walk m (l1 pm') va"
proof -
  have off: "T \<inter> pool_bytes (pages_allocator pm') = {}" using m1(2) s(1) by simp
  note f = pt_frame [OF ok m1(1) off]
  let ?L = "{t. \<exists>n. pt_table m1 (l1 pm') n = Some t}"
  have L: "?L \<subseteq> slab_live m1 s" using pt_okD(4) [OF f(1)] s(1) by auto
  note 2 = conjunct1 [OF mp [OF spec [OF m2(1), of ?L] L]] conjunct2 [OF mp [OF spec [OF m2(1), of ?L] L]]
  have "?L \<subseteq> slab_live m2 (pages_allocator pm)" unfolding s(2) by (rule order_trans [OF L m2(2)])
  note 3 = keeps_othersD [OF m3 this 2(2), unfolded s(2)]
  have same: "m3 b = m1 b" if "pt_table m1 (l1 pm') n = Some t" "b \<in> table t" for n t b using 2(1) 3(2) that by auto
  have live: "t \<in> slab_live m3 (pages_allocator pm')" if "pt_table m1 (l1 pm') n = Some t" for n t using 3(1) that s(1) by blast
  show "pt_ok m3 pm'" by (rule pt_same(1) [OF f(1) same live])
  show "pt_walk m3 (l1 pm') va = pt_walk m (l1 pm') va" if "unat va < 2 ^ 39"
    using pt_same(3) [OF f(1) same live that] f(3) [OF that] by simp
qed

end
