(* ===== verification/Heap_Space.thy ===== *)
theory Heap_Space
  imports Process_Paging
begin

text \<open>
  The free part of the kernel heap as a set of bytes: an allocation takes a stretch out of it and writes
  only there, freeing the stretch gives it back. What a client keeps outside of this set is safe from
  the allocations of every other part of the kernel.
\<close>

section \<open>Room for a request\<close>

definition heap_room :: "heap \<Rightarrow> runs \<Rightarrow> nat \<Rightarrow> bool" where
  \<comment> \<open>\<open>n\<close> free blocks in a row\<close>
  "heap_room h R n \<longleftrightarrow> (\<exists>i. i + n \<le> unat (blocks h) \<and> {i..<i + n} \<inter> runs_taken R = {})"

lemma kalloc_room:
  assumes ok: "heap_ok m h R" and sz: "0 < unat sz" and room: "heap_room h R (ceil_div (unat sz) 4096 + k)"
  defines "n \<equiv> ceil_div (unat sz) 4096"
  obtains m1 i where "kalloc m h sz = Some (m1, h\<lparr>free_blocks := free_blocks h - of_nat n\<rparr>, heap_run_addr h i)"
    and "heap_ok m1 (h\<lparr>free_blocks := free_blocks h - of_nat n\<rparr>) (insert (i, n) R)" and "i + n \<le> unat (blocks h)"
    and "{i..<i + n} \<inter> runs_taken R = {}" and "heap_room h (insert (i, n) R) k" and "same_outside (table_bytes h) m m1"
proof -
  note fits = heap_ok_fits [OF ok]
  obtain j where j: "j + (n + k) \<le> unat (blocks h)" "{j..<j + (n + k)} \<inter> runs_taken R = {}" using room by (auto simp: heap_room_def n_def)
  have fj: "blk_fits m (heap_table h) (unat (blocks h)) n j" unfolding fits using j by force
  from heap_alloc_eq [OF ok sz] fj obtain i m1 where
    i: "blk_fits m (heap_table h) (unat (blocks h)) n i" "\<forall>j < i. \<not> blk_fits m (heap_table h) (unat (blocks h)) n j"
      "heap_alloc m h sz = Some (m1, h\<lparr>free_blocks := free_blocks h - of_nat n\<rparr>, heap_run_addr h i)"
      "heap_ok m1 (h\<lparr>free_blocks := free_blocks h - of_nat n\<rparr>) (insert (i, n) R)"
    unfolding n_def by blast
  have a: "kalloc m h sz = Some (m1, h\<lparr>free_blocks := free_blocks h - of_nat n\<rparr>, heap_run_addr h i)"
    using i(3) by (simp add: kalloc_def sysutils_kernel_heap_alloc_def)
  have ij: "i \<le> j" using i(2) fj by (meson not_le)
  have "{j + n..<j + n + k} \<subseteq> {j..<j + (n + k)}" "{j + n..<j + n + k} \<inter> {i..<i + n} = {}" using ij by auto
  then have "{j + n..<j + n + k} \<inter> runs_taken (insert (i, n) R) = {}" unfolding runs_insert using j(2) by blast
  then have "heap_room h (insert (i, n) R) k" unfolding heap_room_def using j(1) by (intro exI [of _ "j + n"]) simp
  then show thesis using that [OF a i(4)] i(1) kalloc_frame [OF ok sz a] unfolding fits by simp
qed

section \<open>The free bytes\<close>

definition heap_rest :: "heap \<Rightarrow> runs \<Rightarrow> addr set" where
  \<comment> \<open>the block table and the blocks that are free\<close>
  "heap_rest h R = table_bytes h \<union> (heap_bytes h - (\<Union>(p, l) \<in> heap_extents h R. region p l))"

lemma table_in_rest: "table_bytes h \<subseteq> heap_rest h R"
  by (simp add: heap_rest_def)

lemma heap_rest_upd [simp]: "heap_rest (h\<lparr>free_blocks := f\<rparr>) R = heap_rest h R"
  by (simp add: heap_rest_def table_bytes_def heap_bytes_def)

lemma heap_ok_off_rest:
  assumes "heap_ok m h R" and "same_outside A m m'" and "A \<inter> heap_rest h R = {}"
  shows "heap_ok m' h R"
  by (rule heap_ok_frame [OF assms(1,2)]) (use assms(3) in \<open>auto simp: heap_rest_def table_bytes_def simp del: in_region\<close>)

lemma run_in_rest:
  assumes ok: "heap_ok m h R" and i: "i + n \<le> unat (blocks h)" "{i..<i + n} \<inter> runs_taken R = {}" and n: "0 < n"
  shows "region (heap_run_addr h i) (4096 * n) \<subseteq> heap_rest h R"
proof -
  have "region (heap_run_addr h i) (4096 * n) \<inter> region q l = {}" if q: "(q, l) \<in> heap_extents h R" for q l
  proof -
    obtain j k where j: "(j, k) \<in> R" "q = heap_run_addr h j" "l = 4096 * k" "j + k \<le> unat (blocks h)" using ok q by (rule heap_extentsE)
    have k: "0 < k" using j(1) heap_okD(3) [OF ok] by (auto simp: wf_runs_def)
    have "{j..<j + k} \<subseteq> runs_taken R" using UN_upper [OF j(1), of "\<lambda>(i, n). {i..<i + n}"] by (simp add: runs_taken_def)
    then have "{i..<i + n} \<inter> {j..<j + k} = {}" using i(2) by blast
    then show ?thesis unfolding j(2,3) by (rule heap_runs_apart [OF ok i(1) n j(4) k])
  qed
  moreover have "region (heap_run_addr h i) (4096 * n) \<subseteq> heap_bytes h" using heap_run_in_area [OF ok i(1) n] by (simp add: heap_bytes_def)
  ultimately show ?thesis unfolding heap_rest_def by (auto simp del: in_region)
qed

lemma kalloc_space:
  assumes ok: "heap_ok m h R" and ta: "heap_table_apart h" and sz: "0 < unat sz" and room: "heap_room h R (ceil_div (unat sz) 4096 + k)"
  defines "n \<equiv> ceil_div (unat sz) 4096"
  obtains m1 i p where "p = heap_run_addr h i" and "kalloc m h sz = Some (m1, h\<lparr>free_blocks := free_blocks h - of_nat n\<rparr>, p)" and "p \<noteq> NULL"
    and "heap_ok m1 (h\<lparr>free_blocks := free_blocks h - of_nat n\<rparr>) (insert (i, n) R)" and "(i, n) \<notin> R" and "heap_room h (insert (i, n) R) k"
    and "region p (4096 * n) \<subseteq> heap_rest h R" and "heap_rest h (insert (i, n) R) = heap_rest h R - region p (4096 * n)"
    and "same_outside (heap_rest h R - region p (4096 * n)) m m1"
proof -
  let ?h = "h\<lparr>free_blocks := free_blocks h - of_nat n\<rparr>"
  obtain m1 i where a: "kalloc m h sz = Some (m1, ?h, heap_run_addr h i)" "heap_ok m1 ?h (insert (i, n) R)" "i + n \<le> unat (blocks h)"
    "{i..<i + n} \<inter> runs_taken R = {}" "heap_room h (insert (i, n) R) k" "same_outside (table_bytes h) m m1"
    using kalloc_room [OF ok sz room] unfolding n_def by metis
  let ?p = "heap_run_addr h i"
  have n: "0 < n" using sz ceil_div_pos [of 4096 "unat sz"] by (simp add: n_def)
  have new: "(i, n) \<notin> R" using a(4) n by (force simp: runs_taken_def)
  have nn: "?p \<noteq> NULL" using unat_heap_run_addr [OF ok, of i] a(3) n ok by (auto simp: heap_ok_def)
  have ph: "region ?p (4096 * n) \<subseteq> heap_bytes h" using heap_run_in_area [OF ok a(3) n] by (simp add: heap_bytes_def)
  have th: "table_bytes h \<inter> heap_bytes h = {}" using ta by (simp add: heap_table_apart_def table_bytes_def heap_bytes_def)
  have ext: "heap_extents h (insert (i, n) R) = insert (?p, 4096 * n) (heap_extents h R)" by (simp add: heap_extents_def)
  have rest: "heap_rest h (insert (i, n) R) = heap_rest h R - region ?p (4096 * n)"
    unfolding heap_rest_def ext using ph th by (auto simp del: in_region)
  have sub: "region ?p (4096 * n) \<subseteq> heap_rest h R" by (rule run_in_rest [OF ok a(3,4) n])
  have "same_outside (heap_rest h R - region ?p (4096 * n)) m m1"
    by (rule same_outside_mono [OF a(6)]) (use ph th in \<open>auto simp: heap_rest_def simp del: in_region\<close>)
  then show thesis using that [OF refl a(1) nn a(2) new a(5) sub rest] by blast
qed

lemma kfree_space:
  assumes ok: "heap_ok m (h\<lparr>free_blocks := free_blocks h - of_nat n\<rparr>) (insert (i, n) R)" and new: "(i, n) \<notin> R"
  obtains m' where "kfree m (h\<lparr>free_blocks := free_blocks h - of_nat n\<rparr>) (heap_run_addr h i) = Some (m', h)" and "heap_ok m' h R"
    and "same_outside (table_bytes h) m m'"
proof -
  let ?h = "h\<lparr>free_blocks := free_blocks h - of_nat n\<rparr>" and ?m = "fill (heap_table h + of_nat i) n 0 m"
  have r: "heap_run_addr ?h i = heap_run_addr h i" by (simp add: heap_run_addr_def)
  have f: "kfree m ?h (heap_run_addr h i) = Some (?m, h)" "heap_ok ?m h R"
    using heap_free_run [OF ok, of i n] new by (simp_all add: kfree_def sysutils_kernel_heap_free_def r)
  have "i + n \<le> unat (blocks h)" using heap_okD(3) [OF ok] by (auto simp: wf_runs_def)
  then have "region (heap_table h + of_nat i) n \<subseteq> table_bytes h" unfolding table_bytes_def using unat_less64 [of "blocks h"] by (intro region_sub) simp_all
  then show thesis using that [OF f] same_outside_mono [OF fill_outside] by blast
qed

lemma kalloc_block:
  assumes ok: "heap_ok m h R" and ta: "heap_table_apart h" and sz: "0 < unat sz" "unat sz \<le> 4096" and room: "heap_room h R (Suc n)"
  obtains m1 h1 R1 p where "kalloc m h sz = Some (m1, h1, p)" and "p \<noteq> NULL" and "heap_ok m1 h1 R1" and "heap_table_apart h1"
    and "heap_room h1 R1 n" and "region p 4096 \<subseteq> heap_rest h R" and "heap_rest h1 R1 \<subseteq> heap_rest h R - region p 4096"
    and "same_outside (heap_rest h R - region p 4096) m m1"
proof -
  have one: "ceil_div (unat sz) 4096 = 1" using sz by (cases "unat sz = 4096") (simp_all add: ceil_div_def)
  have "heap_room h R (ceil_div (unat sz) 4096 + n)" using room by (simp add: one)
  from kalloc_space [OF ok ta sz(1) this] obtain m1 i p where
    a: "kalloc m h sz = Some (m1, h\<lparr>free_blocks := free_blocks h - of_nat 1\<rparr>, p)" "p \<noteq> NULL"
      "heap_ok m1 (h\<lparr>free_blocks := free_blocks h - of_nat 1\<rparr>) (insert (i, 1) R)" "heap_room h (insert (i, 1) R) n"
      "region p (4096 * 1) \<subseteq> heap_rest h R" "heap_rest h (insert (i, 1) R) = heap_rest h R - region p (4096 * 1)"
      "same_outside (heap_rest h R - region p (4096 * 1)) m m1"
    unfolding one by metis
  show thesis by (rule that [OF a(1-3)]) (use ta a(4-7) in \<open>simp_all add: heap_table_apart_def heap_room_def\<close>)
qed

end
