(* ===== verification/Elf_Properties.thy ===== *)
theory Elf_Properties
  imports Elf Heap_Space
begin

text \<open>
  The headers of an ELF file as records, and \<open>elf_alloc_and_parse\<close> and \<open>elf_free\<close> against them: the copies in the
  kernel heap are the headers of the file, and freeing them gives the heap back.
\<close>

section \<open>The headers as records\<close>

record ElfN_Ehdr =
  eh_ident :: "u8 list"
  eh_type :: u16
  eh_machine :: u16
  eh_version :: u32
  eh_entry :: u64
  eh_phoff :: u64
  eh_shoff :: u64
  eh_flags :: u32
  eh_ehsize :: u16
  eh_phentsize :: u16
  eh_phnum :: u16
  eh_shentsize :: u16
  eh_shnum :: u16
  eh_shstrndx :: u16

record ElfN_Phdr =
  ph_type :: u32
  ph_flags :: u32
  ph_offset :: u64
  ph_vaddr :: u64
  ph_paddr :: u64
  ph_filesz :: u64
  ph_memsz :: u64
  ph_align :: u64

record ElfN_Shdr =
  shd_name :: u32
  shd_type :: u32
  shd_flags :: u64
  shd_addr :: u64
  shd_offset :: u64
  shd_size :: u64
  shd_link :: u32
  shd_info :: u32
  shd_addralign :: u64
  shd_entsize :: u64

definition ehdr_at :: "mem \<Rightarrow> addr \<Rightarrow> ElfN_Ehdr" where
  "ehdr_at m p = \<lparr>eh_ident = map (\<lambda>i. m (fld p i)) [0..<16], eh_type = load16 m (fld p 16), eh_machine = load16 m (fld p 18),
     eh_version = load32 m (fld p 20), eh_entry = e_entry m p, eh_phoff = e_phoff m p, eh_shoff = e_shoff m p,
     eh_flags = load32 m (fld p 48), eh_ehsize = load16 m (fld p 52), eh_phentsize = e_phentsize m p, eh_phnum = e_phnum m p,
     eh_shentsize = e_shentsize m p, eh_shnum = e_shnum m p, eh_shstrndx = e_shstrndx m p\<rparr>"

definition phdr_at :: "mem \<Rightarrow> addr \<Rightarrow> ElfN_Phdr" where
  "phdr_at m p = \<lparr>ph_type = load32 m (fld p 0), ph_flags = load32 m (fld p 4), ph_offset = p_offset m p, ph_vaddr = load64 m (fld p 16),
     ph_paddr = load64 m (fld p 24), ph_filesz = load64 m (fld p 32), ph_memsz = p_memsz m p, ph_align = load64 m (fld p 48)\<rparr>"

definition shdr_at :: "mem \<Rightarrow> addr \<Rightarrow> ElfN_Shdr" where
  "shdr_at m p = \<lparr>shd_name = sh_name m p, shd_type = load32 m (fld p 4), shd_flags = load64 m (fld p 8), shd_addr = load64 m (fld p 16),
     shd_offset = sh_offset m p, shd_size = sh_size m p, shd_link = load32 m (fld p 40), shd_info = load32 m (fld p 44),
     shd_addralign = load64 m (fld p 48), shd_entsize = load64 m (fld p 56)\<rparr>"

lemmas elf_fields = e_entry_def e_phoff_def e_shoff_def e_phentsize_def e_phnum_def e_shentsize_def e_shnum_def e_shstrndx_def
  p_offset_def p_memsz_def sh_name_def sh_offset_def sh_size_def

definition copied :: "mem \<Rightarrow> addr \<Rightarrow> mem \<Rightarrow> addr \<Rightarrow> nat \<Rightarrow> bool" where
  \<comment> \<open>the \<open>n\<close> bytes at \<open>dst\<close> in \<open>m'\<close> are those at \<open>src\<close> in \<open>m\<close>\<close>
  "copied m' dst m src n \<longleftrightarrow> (\<forall>i < n. m' (fld dst i) = m (fld src i))"

lemma copied_load:
  assumes "copied m' dst m src n" and "i + k \<le> n"
  shows "load_le k m' (fld dst i) = load_le k m (fld src i)"
proof -
  have shift: "load_le k (\<lambda>b. f (b + d)) a = load_le k f (a + d)" for f :: mem and d a :: addr
    by (induction k arbitrary: a) (simp_all add: ac_simps)
  have "load_le k m' (fld dst i) = load_le k (\<lambda>b. m (b + (src - dst))) (fld dst i)"
    using assms by (intro load_le_cong) (auto simp: copied_def fld_def add.assoc add.commute [of _ src] simp flip: of_nat_add)
  then show ?thesis by (simp add: shift fld_def add.commute [of _ src])
qed

lemma copied_sub: "copied m' dst m src n \<Longrightarrow> i + k \<le> n \<Longrightarrow> copied m' (fld dst i) m (fld src i) k"
  by (auto simp: copied_def fld_def add.assoc simp flip: of_nat_add)

lemma copied_headers:
  "copied m' dst m src 64 \<Longrightarrow> ehdr_at m' dst = ehdr_at m src"
  "copied m' dst m src 56 \<Longrightarrow> phdr_at m' dst = phdr_at m src"
  "copied m' dst m src 64 \<Longrightarrow> shdr_at m' dst = shdr_at m src"
  by (simp_all add: ehdr_at_def phdr_at_def shdr_at_def elf_fields copied_load [of m' dst m src] fld_0 [symmetric] del: fld_0)
    (simp add: copied_def)

lemma filebuffer_loop_eq:
  "region src n \<inter> region dst n = {} \<Longrightarrow> n < 2 ^ 64 \<Longrightarrow>
    filebuffer_loop n m dst src = (\<lambda>p. if p \<in> region dst n then m (src + (p - dst)) else m p)"
proof (induction n arbitrary: m dst src)
  case (Suc n)
  have d: "region (src + 1) n \<inter> region (dst + 1) n = {}" "dst \<notin> region (src + 1) n" "dst \<notin> region (dst + 1) n"
    using Suc.prems not_in_region_next [of n dst] unfolding region_Suc by auto
  have "filebuffer_loop n (m(dst := m src)) (dst + 1) (src + 1) p = (if p \<in> region dst (Suc n) then m (src + (p - dst)) else m p)" for p
  proof (cases "p \<in> region (dst + 1) n")
    case True
    have "src + 1 + (p - (dst + 1)) \<in> region (src + 1) n" using True by (simp add: diff_diff_eq)
    then have "src + 1 + (p - (dst + 1)) \<noteq> dst" using d(2) by metis
    then show ?thesis using True Suc.IH [OF d(1)] Suc.prems(2) by (simp add: region_Suc del: in_region)
  next
    case False
    then show ?thesis using Suc.IH [OF d(1)] Suc.prems(2) by (auto simp: region_Suc simp del: in_region)
  qed
  then show ?case by (auto simp del: in_region)
qed simp

lemma filebuffer_copies:
  assumes "region (f + off) n \<inter> region dst n = {}" and "n = unat (sz * of_int count)"
  shows "copied (filebuffer_read_at_position m dst off sz count f) dst m (f + off) n"
    and "same_outside (region dst n) m (filebuffer_read_at_position m dst off sz count f)"
proof -
  have n: "n < 2 ^ 64" using assms(2) unat_less64 by simp
  have eq: "filebuffer_read_at_position m dst off sz count f = (\<lambda>p. if p \<in> region dst n then m (f + off + (p - dst)) else m p)"
    using filebuffer_loop_eq [OF assms(1) n] assms(2) by (simp add: filebuffer_read_at_position_def)
  show "copied (filebuffer_read_at_position m dst off sz count f) dst m (f + off) n"
    unfolding eq copied_def using n region_offset [of _ n dst] by (auto simp: fld_def simp del: in_region)
  show "same_outside (region dst n) m (filebuffer_read_at_position m dst off sz count f)" by (simp add: eq same_outside_def)
qed

section \<open>The structure as a record\<close>

record elf_view =
  v_file :: addr
  v_header_loaded :: bool
  v_header :: ElfN_Ehdr
  v_sections_loaded :: bool
  v_sections :: addr
  v_strings_loaded :: bool
  v_strings :: addr
  v_programs_loaded :: bool
  v_programs :: addr

definition elf_view_at :: "mem \<Rightarrow> addr \<Rightarrow> elf_view" where
  "elf_view_at m elf = \<lparr>v_file = elf_file m elf, v_header_loaded = header_loaded m elf, v_header = ehdr_at m (elf_header elf),
     v_sections_loaded = section_headers_loaded m elf, v_sections = section_headers m elf,
     v_strings_loaded = strings_section_loaded m elf, v_strings = strings_section m elf,
     v_programs_loaded = program_headers_loaded m elf, v_programs = program_headers m elf\<rparr>"

lemmas elf_getters = elf_file_def header_loaded_def elf_header_def section_headers_loaded_def section_headers_def
  strings_section_loaded_def strings_section_def program_headers_loaded_def program_headers_def

lemma fld_fld [simp]: "fld (fld p i) j = fld p (i + j)"
  by (simp add: fld_def add.assoc)

lemma elf_view_frame:
  assumes "same_outside X m m'" and "X \<inter> region elf 120 = {}"
  shows "elf_view_at m' elf = elf_view_at m elf"
proof -
  have "copied m' elf m elf 120"
    unfolding copied_def
  proof (intro allI impI)
    fix i :: nat
    assume "i < 120"
    then have "fld elf i \<in> region elf 120" by (intro fld_byte) simp_all
    then show "m' (fld elf i) = m (fld elf i)" using assms by (intro same_outsideD [OF assms(1)]) blast
  qed
  note c = copied_load [OF this] copied_sub [OF this, of 12 64]
  have "elf_file m' elf = elf_file m elf" using c(1) [of 0 8] by (simp add: elf_file_def)
  then show ?thesis using c(2) by (simp add: c(1) elf_view_at_def header_loaded_def section_headers_loaded_def section_headers_def
      strings_section_loaded_def strings_section_def program_headers_loaded_def program_headers_def elf_header_def copied_headers(1))
qed

lemmas elf_stores = load_store_le load_store_fld byte_store_fld

lemma elf_view_store [simp]:
  "elf_view_at (store32 m (fld elf 8) 1) elf = (elf_view_at m elf)\<lparr>v_header_loaded := True\<rparr>"
  "elf_view_at (store32 m (fld elf 76) 1) elf = (elf_view_at m elf)\<lparr>v_sections_loaded := True\<rparr>"
  "elf_view_at (store64 m (fld elf 80) p) elf = (elf_view_at m elf)\<lparr>v_sections := p\<rparr>"
  "elf_view_at (store32 m (fld elf 88) 1) elf = (elf_view_at m elf)\<lparr>v_strings_loaded := True\<rparr>"
  "elf_view_at (store64 m (fld elf 96) p) elf = (elf_view_at m elf)\<lparr>v_strings := p\<rparr>"
  "elf_view_at (store32 m (fld elf 104) 1) elf = (elf_view_at m elf)\<lparr>v_programs_loaded := True\<rparr>"
  "elf_view_at (store64 m (fld elf 112) p) elf = (elf_view_at m elf)\<lparr>v_programs := p\<rparr>"
  by (simp_all add: elf_view_at_def ehdr_at_def elf_getters elf_fields elf_stores fld_0 [symmetric] del: fld_0)

section \<open>A table from the heap\<close>

definition loading :: "mem \<Rightarrow> heap \<Rightarrow> runs \<Rightarrow> addr \<Rightarrow> bool" where
  \<comment> \<open>the heap is well formed and the ELF structure is outside it\<close>
  "loading m h R elf \<longleftrightarrow> heap_ok m h R \<and> heap_table_apart h \<and> region elf 120 \<inter> (heap_bytes h \<union> table_bytes h) = {}"

lemma load_round:
  assumes ld: "loading m h R elf" and sz: "0 < unat sz" and room: "heap_room h R (ceil_div (unat sz) 4096 + k)"
  defines "n \<equiv> ceil_div (unat sz) 4096"
  obtains m1 i p where "p = heap_run_addr h i"
    and "kalloc m h sz = Some (m1, h\<lparr>free_blocks := free_blocks h - of_nat n\<rparr>, p)" and "p \<noteq> NULL"
    and "same_outside (table_bytes h) m m1" and "heap_room h (insert (i, n) R) k" and "(i, n) \<notin> R"
    and "\<forall>m2. same_outside (region elf 120 \<union> region p (unat sz)) m1 m2 \<longrightarrow> loading m2 (h\<lparr>free_blocks := free_blocks h - of_nat n\<rparr>) (insert (i, n) R) elf"
    and "\<forall>(q, l) \<in> heap_extents h R. region q l \<inter> region p (unat sz) = {}"
    and "region p (unat sz) \<inter> (region elf 120 \<union> table_bytes h) = {}"
    and "region p (unat sz) \<subseteq> region p (4096 * n)"
proof -
  let ?h = "h\<lparr>free_blocks := free_blocks h - of_nat n\<rparr>"
  have ok: "heap_ok m h R" and ta: "heap_table_apart h" and off: "region elf 120 \<inter> heap_bytes h = {}" "region elf 120 \<inter> table_bytes h = {}"
    using ld by (auto simp: loading_def)
  obtain m1 i where a: "kalloc m h sz = Some (m1, ?h, heap_run_addr h i)" "heap_ok m1 ?h (insert (i, n) R)" "i + n \<le> unat (blocks h)"
    "{i..<i + n} \<inter> runs_taken R = {}" "heap_room h (insert (i, n) R) k" "same_outside (table_bytes h) m m1"
    using kalloc_room [OF ok sz room] unfolding n_def by metis
  let ?p = "heap_run_addr h i"
  have n: "0 < n" "unat sz \<le> 4096 * n" using sz ceil_div_pos [of 4096 "unat sz"] ceil_div_ge [of 4096 "unat sz"] by (simp_all add: n_def)
  have new: "(i, n) \<notin> R" using a(4) n(1) by (force simp: runs_taken_def)
  have sub: "region ?p (unat sz) \<subseteq> region ?p (4096 * n)" by (rule region_mono [OF n(2)])
  have ph: "region ?p (4096 * n) \<subseteq> heap_bytes h" using heap_run_in_area [OF ok a(3) n(1)] by (simp add: heap_bytes_def)
  have th: "table_bytes h \<inter> heap_bytes h = {}" using ta by (simp add: heap_table_apart_def table_bytes_def heap_bytes_def)
  have nn: "?p \<noteq> NULL" using unat_heap_run_addr [OF ok, of i] a(3) n(1) ok by (auto simp: heap_ok_def)
  have old: "region q l \<inter> region ?p (unat sz) = {}" if "(q, l) \<in> heap_extents h R" for q l
    using kernel_heap.alloc_apart [OF ok a(1) nn that] by blast
  have pT: "region ?p (unat sz) \<inter> (region elf 120 \<union> table_bytes h) = {}" using sub ph th off by blast
  have "loading m2 ?h (insert (i, n) R) elf" if w: "same_outside (region elf 120 \<union> region ?p (unat sz)) m1 m2" for m2
  proof -
    have "heap_ok m2 ?h (insert (i, n) R)"
      by (rule heap_ok_frame [OF a(2) w]) (use pT off(2) in \<open>simp add: table_bytes_def, blast\<close>)
    then show ?thesis using ld by (simp add: loading_def heap_table_apart_def heap_bytes_def table_bytes_def)
  qed
  then show thesis using that [OF refl a(1) nn a(6,5) new] old sub pT by blast
qed

definition table_loaded :: "mem \<Rightarrow> heap \<Rightarrow> runs \<Rightarrow> mem \<Rightarrow> heap \<Rightarrow> runs \<Rightarrow> addr \<Rightarrow> addr \<Rightarrow> addr \<Rightarrow> nat \<Rightarrow> bool" where
  \<comment> \<open>from \<open>m\<close>, \<open>h\<close> to \<open>m'\<close>, \<open>h'\<close> a new run got the \<open>n\<close> bytes at \<open>src\<close>\<close>
  "table_loaded m h R m' h' R' elf p src n \<longleftrightarrow>
     (\<exists>i. p = heap_run_addr h i \<and> (i, ceil_div n 4096) \<notin> R \<and> R' = insert (i, ceil_div n 4096) R) \<and> p \<noteq> NULL \<and>
     h' = h\<lparr>free_blocks := free_blocks h - of_nat (ceil_div n 4096)\<rparr> \<and> loading m' h' R' elf \<and> copied m' p m src n \<and>
     (\<forall>(q, l) \<in> heap_extents h R. \<forall>b \<in> region q l. m' b = m b)"

lemma copied_same: "copied m' p m s n \<Longrightarrow> n \<le> 2 ^ 64 \<Longrightarrow> (\<And>b. b \<in> region s n \<Longrightarrow> m b = m0 b) \<Longrightarrow> copied m' p m0 s n"
  unfolding copied_def using fld_byte by metis

lemma copied_kept: "copied m' p m s n \<Longrightarrow> n \<le> 2 ^ 64 \<Longrightarrow> (\<And>b. b \<in> region p n \<Longrightarrow> m'' b = m' b) \<Longrightarrow> copied m'' p m s n"
  unfolding copied_def using fld_byte by metis

lemma table_round:
  assumes ld: "loading m h R elf" and sz: "0 < unat sz" and room: "heap_room h R (ceil_div (unat sz) 4096 + k)"
    and fl: "(q0, l0) \<in> heap_extents h R" "region (file + off) (unat sz) \<subseteq> region q0 l0"
    and cnt: "unat sz = unat (sz' * of_int c)"
  obtains m1 h1 R1 p where "kalloc m h sz = Some (m1, h1, p)" and "elf_view_at m1 elf = elf_view_at m elf" and "heap_room h1 R1 k" and "p \<noteq> NULL"
    and "\<forall>m2 m3 m4. same_outside (region elf 120) m1 m2 \<and> m3 = filebuffer_read_at_position m2 p off sz' c file \<and>
      same_outside (region elf 120) m3 m4 \<longrightarrow>
      elf_view_at m3 elf = elf_view_at m2 elf \<and> table_loaded m h R m4 h1 R1 elf p (file + off) (unat sz)"
proof -
  let ?n = "ceil_div (unat sz) 4096" and ?E = "region elf 120"
  let ?h = "h\<lparr>free_blocks := free_blocks h - of_nat ?n\<rparr>"
  obtain m1 i p where a: "p = heap_run_addr h i" "kalloc m h sz = Some (m1, ?h, p)" "p \<noteq> NULL"
    "same_outside (table_bytes h) m m1" "heap_room h (insert (i, ?n) R) k" "(i, ?n) \<notin> R"
    "\<forall>m2. same_outside (?E \<union> region p (unat sz)) m1 m2 \<longrightarrow> loading m2 ?h (insert (i, ?n) R) elf"
    "\<forall>(q, l) \<in> heap_extents h R. region q l \<inter> region p (unat sz) = {}"
    "region p (unat sz) \<inter> (?E \<union> table_bytes h) = {}" "region p (unat sz) \<subseteq> region p (4096 * ?n)"
    using ld sz room by (rule load_round)
  have ok: "heap_ok m h R" and ta: "heap_table_apart h" and off: "?E \<inter> heap_bytes h = {}" "?E \<inter> table_bytes h = {}"
    using ld by (auto simp: loading_def)
  have ext: "region q l \<subseteq> heap_bytes h" if "(q, l) \<in> heap_extents h R" for q l
    using extent_in_area [OF ok that] by (simp add: heap_bytes_def)
  have th: "table_bytes h \<inter> heap_bytes h = {}" using ta by (simp add: heap_table_apart_def table_bytes_def heap_bytes_def)
  have v1: "elf_view_at m1 elf = elf_view_at m elf" by (rule elf_view_frame [OF a(4)]) (use off(2) in blast)
  have src: "region (file + off) (unat sz) \<inter> region p (unat sz) = {}" using fl a(8) by blast
  have "elf_view_at m3 elf = elf_view_at m2 elf \<and> table_loaded m h R m4 ?h (insert (i, ?n) R) elf p (file + off) (unat sz)"
    if m2: "same_outside ?E m1 m2" and m3: "m3 = filebuffer_read_at_position m2 p off sz' c file" and m4: "same_outside ?E m3 m4" for m2 m3 m4
  proof -
    note cp = filebuffer_copies [OF src cnt, of m2, folded m3]
    have v3: "elf_view_at m3 elf = elf_view_at m2 elf" by (rule elf_view_frame [OF cp(2)]) (use a(9) in blast)
    have w: "same_outside (?E \<union> region p (unat sz)) m1 m4"
    proof -
      have "same_outside (?E \<union> region p (unat sz)) m1 m2" by (rule same_outside_mono [OF m2]) blast
      also have "same_outside (?E \<union> region p (unat sz)) m2 m3" by (rule same_outside_mono [OF cp(2)]) blast
      also have "same_outside (?E \<union> region p (unat sz)) m3 m4" by (rule same_outside_mono [OF m4]) blast
      finally show ?thesis .
    qed
    have keep: "m4 b = m b" "m2 b = m b" if "(q, l) \<in> heap_extents h R" "b \<in> region q l" for q l b
    proof -
      have "b \<notin> ?E \<union> region p (unat sz)" "b \<notin> table_bytes h" using that ext [OF that(1)] a(8) off(1) th by blast+
      then show "m4 b = m b" "m2 b = m b" using same_outsideD [OF w] same_outsideD [OF m2] same_outsideD [OF a(4)] by simp_all
    qed
    have "copied m3 p m (file + off) (unat sz)"
      by (rule copied_same [OF cp(1)]) (use keep(2) [OF fl(1)] fl(2) unat_less64 [of sz] in \<open>auto simp del: in_region\<close>)
    then have "copied m4 p m (file + off) (unat sz)"
      by (rule copied_kept) (use same_outsideD [OF m4] a(9) unat_less64 [of sz] in \<open>auto simp del: in_region\<close>)
    then show ?thesis using v3 a(1,3,6,7) w keep(1) unfolding table_loaded_def by blast
  qed
  moreover have "heap_room ?h (insert (i, ?n) R) k" using a(5) by (simp add: heap_room_def)
  ultimately show thesis using that [OF a(2) v1 _ a(3)] by blast
qed

section \<open>Loading the tables\<close>

definition elf_file_ok :: "mem \<Rightarrow> addr \<Rightarrow> nat \<Rightarrow> bool" where
  \<comment> \<open>the \<open>len\<close> bytes at \<open>file\<close> start with an ELF header whose tables are inside them\<close>
  "elf_file_ok m file len \<longleftrightarrow>
     (let eh = ehdr_at m file; str = shdr_at m (file + eh_shoff eh + 64 * ucast (eh_shstrndx eh))
      in 64 \<le> len \<and> len \<le> 2 ^ 48 \<and> m file = 0x7f \<and> eh_shentsize eh = 64 \<and> eh_phentsize eh = 56 \<and>
         0 < unat (eh_phnum eh) \<and> unat (eh_shoff eh) + 64 * unat (eh_shnum eh) \<le> len \<and>
         unat (eh_phoff eh) + 56 * unat (eh_phnum eh) \<le> len \<and> unat (eh_shstrndx eh) < unat (eh_shnum eh) \<and>
         0 < unat (shd_size str) \<and> unat (shd_offset str) + unat (shd_size str) \<le> len)"

lemma elf_by_view:
  "elf_file m elf = v_file (elf_view_at m elf)" "header_loaded m elf = v_header_loaded (elf_view_at m elf)"
  "section_headers_loaded m elf = v_sections_loaded (elf_view_at m elf)" "section_headers m elf = v_sections (elf_view_at m elf)"
  "strings_section_loaded m elf = v_strings_loaded (elf_view_at m elf)" "strings_section m elf = v_strings (elf_view_at m elf)"
  "program_headers_loaded m elf = v_programs_loaded (elf_view_at m elf)" "program_headers m elf = v_programs (elf_view_at m elf)"
  "e_shnum m (elf_header elf) = eh_shnum (v_header (elf_view_at m elf))" "e_phnum m (elf_header elf) = eh_phnum (v_header (elf_view_at m elf))"
  "e_shoff m (elf_header elf) = eh_shoff (v_header (elf_view_at m elf))" "e_phoff m (elf_header elf) = eh_phoff (v_header (elf_view_at m elf))"
  "e_shentsize m (elf_header elf) = eh_shentsize (v_header (elf_view_at m elf))"
  "e_phentsize m (elf_header elf) = eh_phentsize (v_header (elf_view_at m elf))"
  "e_shstrndx m (elf_header elf) = eh_shstrndx (v_header (elf_view_at m elf))"
  "e_entry m (elf_header elf) = eh_entry (v_header (elf_view_at m elf))"
  by (simp_all add: elf_view_at_def ehdr_at_def)

lemma elf_parse_step:
  assumes "region file 64 \<inter> region elf 120 = {}" and "m file = 0x7f"
  obtains m1 where "elf_parseheader (elf_fromfilebuffer m elf file) elf = (m1, 1)" and "same_outside (region elf 120) m m1"
    and "elf_view_at m1 elf = \<lparr>v_file = file, v_header_loaded = True, v_header = ehdr_at m file, v_sections_loaded = False, v_sections = NULL,
      v_strings_loaded = False, v_strings = NULL, v_programs_loaded = False, v_programs = NULL\<rparr>"
proof -
  let ?m0 = "elf_fromfilebuffer m elf file" and ?E = "region elf 120"
  let ?m1 = "filebuffer_read_at_position ?m0 (elf_header elf) 0 64 1 file"
  have w0: "same_outside ?E m ?m0"
    unfolding elf_fromfilebuffer_def by (rule same_outside_trans [OF fill_outside store_fld_outside]) simp_all
  have zero: "load_le n ?m0 (fld elf i) = 0" if "8 \<le> i" "i + n \<le> 120" for i n
  proof -
    have "fill elf 120 0 m (fld elf i + of_nat j) = 0" if "j < n" for j
      using fld_byte [of "i + j" 120 elf] that \<open>i + n \<le> 120\<close> by (simp add: fill_def fld_def add.assoc del: in_region)
    then show ?thesis
      unfolding elf_fromfilebuffer_def using that by (subst load_store_fld) (simp_all add: load_le_zero)
  qed
  obtain hd0 where v0: "elf_view_at ?m0 elf = \<lparr>v_file = file, v_header_loaded = False, v_header = hd0, v_sections_loaded = False,
      v_sections = NULL, v_strings_loaded = False, v_strings = NULL, v_programs_loaded = False, v_programs = NULL\<rparr>"
    unfolding elf_view_at_def by (simp add: elf_getters zero) (simp add: elf_fromfilebuffer_def load_store_le)
  have hd: "region (elf_header elf) 64 \<subseteq> ?E" unfolding elf_header_def by (rule fld_sub) simp_all
  have "region (file + 0) 64 \<inter> region (elf_header elf) 64 = {}" using assms(1) hd by auto
  note cp = filebuffer_copies [OF this, of 64 1 ?m0, simplified]
  have "copied ?m1 (elf_header elf) m file 64"
    by (rule copied_same [OF cp(1)]) (use assms(1) same_outsideD [OF w0] in \<open>auto simp del: in_region\<close>)
  then have h1: "ehdr_at ?m1 (elf_header elf) = ehdr_at m file" "?m1 (elf_header elf) = 0x7f"
    using copied_headers(1) assms(2) by (auto simp: copied_def dest: spec [of _ 0])
  have f1: "load_le n ?m1 (fld elf i) = load_le n ?m0 (fld elf i)" if "i + n \<le> 12 \<or> 76 \<le> i" "i + n \<le> 120" for i n
    by (rule load_le_same_outside [OF cp(2)]) (use that fld_apart [of i n 12 64 elf] in \<open>auto simp: elf_header_def simp del: in_region\<close>)
  have v1: "elf_view_at ?m1 elf = (elf_view_at ?m0 elf)\<lparr>v_header := ehdr_at m file\<rparr>"
    using h1(1) f1 [of 0 8] by (simp add: elf_view_at_def elf_file_def header_loaded_def section_headers_loaded_def section_headers_def
      strings_section_loaded_def strings_section_def program_headers_loaded_def program_headers_def f1)
  have "elf_parseheader ?m0 elf = (store32 ?m1 (fld elf 8) 1, 1)"
    using h1(2) arg_cong [OF v0, of v_file] by (simp add: elf_parseheader_def Let_def elf_by_view)
  moreover have "same_outside ?E m (store32 ?m1 (fld elf 8) 1)"
    using same_outside_trans [OF w0 same_outside_trans [OF same_outside_mono [OF cp(2) hd] store_fld_outside [of 8 4 120 elf]]] by simp
  ultimately show thesis using that [of "store32 ?m1 (fld elf 8) 1"] v1 v0 by simp
qed


lemma table_size:
  assumes "unat c \<le> 64"
  shows "unat (c * ucast (x :: u16) :: u64) = unat c * unat x"
proof -
  have "unat x < 2 ^ LENGTH(16)" by (rule unsigned_less)
  then have x16: "unat x < 2 ^ 16" by simp
  have x: "unat (ucast x :: u64) = unat x" using x16 by (simp add: unsigned_ucast_eq take_bit_eq_mod)
  have "unat c * unat x < 2 ^ 64" using mult_mono [OF assms, of "unat x" "2 ^ 16"] x16 by simp
  then show ?thesis using unat_mult64 [of c "ucast x"] x by simp
qed

lemma elf_sections_step:
  assumes ld: "loading m h R elf" and eh: "v_header (elf_view_at m elf) = eh" "v_header_loaded (elf_view_at m elf)" "v_file (elf_view_at m elf) = file"
    and ok: "eh_shentsize eh = 64" "0 < unat (eh_shnum eh)" "unat (eh_shoff eh) + 64 * unat (eh_shnum eh) \<le> l0" "l0 \<le> 2 ^ 64"
    and fl: "(file, l0) \<in> heap_extents h R" and room: "heap_room h R (ceil_div (64 * unat (eh_shnum eh)) 4096 + k)"
  obtains m1 h1 R1 p m4 where "kalloc m h (elf_get_sectionheaders_bytes m elf) = Some (m1, h1, p)"
    and "elf_load_sectionheaders (store64 m1 (fld elf 80) p) elf = (m4, 1)"
    and "elf_view_at m4 elf = (elf_view_at m elf)\<lparr>v_sections := p, v_sections_loaded := True\<rparr>"
    and "table_loaded m h R m4 h1 R1 elf p (file + eh_shoff eh) (64 * unat (eh_shnum eh))" and "heap_room h1 R1 k"
proof -
  let ?sz = "64 * ucast (eh_shnum eh) :: u64"
  have bytes: "elf_get_sectionheaders_bytes m elf = ?sz" by (simp add: elf_get_sectionheaders_bytes_def elf_by_view eh)
  have sz: "unat ?sz = 64 * unat (eh_shnum eh)" using table_size [of 64 "eh_shnum eh"] by simp
  have cnt: "unat ?sz = unat (ucast (eh_shentsize eh) * of_int (uint (eh_shnum eh)) :: u64)" by (simp add: ok(1) flip: unsigned_ucast_eq)
  have src: "region (file + eh_shoff eh) (unat ?sz) \<subseteq> region file l0"
    using region_sub [of "unat (eh_shoff eh)" "unat ?sz" l0 "file"] ok(3,4) sz by simp
  have pos: "0 < unat ?sz" and rm: "heap_room h R (ceil_div (unat ?sz) 4096 + k)" using ok(2) room unfolding sz by simp_all
  obtain m1 h1 R1 p where r: "kalloc m h ?sz = Some (m1, h1, p)" "elf_view_at m1 elf = elf_view_at m elf" "heap_room h1 R1 k" "p \<noteq> NULL"
    "\<forall>m2 m3 m4. same_outside (region elf 120) m1 m2 \<and>
      m3 = filebuffer_read_at_position m2 p (eh_shoff eh) (ucast (eh_shentsize eh)) (uint (eh_shnum eh)) file \<and>
      same_outside (region elf 120) m3 m4 \<longrightarrow>
      elf_view_at m3 elf = elf_view_at m2 elf \<and> table_loaded m h R m4 h1 R1 elf p (file + eh_shoff eh) (unat ?sz)"
    by (rule table_round [OF ld pos rm fl src cnt])
  let ?m2 = "store64 m1 (fld elf 80) p"
  let ?m3 = "filebuffer_read_at_position ?m2 p (eh_shoff eh) (ucast (eh_shentsize eh)) (uint (eh_shnum eh)) file"
  have w: "same_outside (region elf 120) m1 ?m2" "same_outside (region elf 120) ?m3 (store32 ?m3 (fld elf 76) 1)"
    by (rule store_fld_outside; simp)+
  note t = r(5) [rule_format, OF conjI [OF w(1) conjI [OF refl w(2)]]]
  have "elf_load_sectionheaders ?m2 elf = (store32 ?m3 (fld elf 76) 1, 1)"
    using r(2,4) eh by (simp add: elf_load_sectionheaders_def elf_by_view)
  then show thesis using that [of m1 h1 p "store32 ?m3 (fld elf 76) 1" R1] r(1-3) t bytes unfolding sz by simp
qed

lemma elf_programs_step:
  assumes ld: "loading m h R elf" and eh: "v_header (elf_view_at m elf) = eh" "v_header_loaded (elf_view_at m elf)" "v_file (elf_view_at m elf) = file"
    and ok: "eh_phentsize eh = 56" "0 < unat (eh_phnum eh)" "unat (eh_phoff eh) + 56 * unat (eh_phnum eh) \<le> l0" "l0 \<le> 2 ^ 64"
    and fl: "(file, l0) \<in> heap_extents h R" and room: "heap_room h R (ceil_div (56 * unat (eh_phnum eh)) 4096 + k)"
  obtains m1 h1 R1 p m4 where "kalloc m h (elf_get_programheaders_bytes m elf) = Some (m1, h1, p)"
    and "elf_load_programheaders (store64 m1 (fld elf 112) p) elf = (m4, 1)"
    and "elf_view_at m4 elf = (elf_view_at m elf)\<lparr>v_programs := p, v_programs_loaded := True\<rparr>"
    and "table_loaded m h R m4 h1 R1 elf p (file + eh_phoff eh) (56 * unat (eh_phnum eh))" and "heap_room h1 R1 k"
proof -
  let ?sz = "56 * ucast (eh_phnum eh) :: u64"
  have bytes: "elf_get_programheaders_bytes m elf = ?sz" by (simp add: elf_get_programheaders_bytes_def elf_by_view eh)
  have sz: "unat ?sz = 56 * unat (eh_phnum eh)" using table_size [of 56 "eh_phnum eh"] by simp
  have cnt: "unat ?sz = unat (ucast (eh_phentsize eh) * of_int (uint (eh_phnum eh)) :: u64)" by (simp add: ok(1) flip: unsigned_ucast_eq)
  have src: "region (file + eh_phoff eh) (unat ?sz) \<subseteq> region file l0"
    using region_sub [of "unat (eh_phoff eh)" "unat ?sz" l0 "file"] ok(3,4) sz by simp
  have pos: "0 < unat ?sz" and rm: "heap_room h R (ceil_div (unat ?sz) 4096 + k)" using ok(2) room unfolding sz by simp_all
  obtain m1 h1 R1 p where r: "kalloc m h ?sz = Some (m1, h1, p)" "elf_view_at m1 elf = elf_view_at m elf" "heap_room h1 R1 k" "p \<noteq> NULL"
    "\<forall>m2 m3 m4. same_outside (region elf 120) m1 m2 \<and>
      m3 = filebuffer_read_at_position m2 p (eh_phoff eh) (ucast (eh_phentsize eh)) (uint (eh_phnum eh)) file \<and>
      same_outside (region elf 120) m3 m4 \<longrightarrow>
      elf_view_at m3 elf = elf_view_at m2 elf \<and> table_loaded m h R m4 h1 R1 elf p (file + eh_phoff eh) (unat ?sz)"
    by (rule table_round [OF ld pos rm fl src cnt])
  let ?m2 = "store64 m1 (fld elf 112) p"
  let ?m3 = "filebuffer_read_at_position ?m2 p (eh_phoff eh) (ucast (eh_phentsize eh)) (uint (eh_phnum eh)) file"
  have w: "same_outside (region elf 120) m1 ?m2" "same_outside (region elf 120) ?m3 (store32 ?m3 (fld elf 104) 1)"
    by (rule store_fld_outside; simp)+
  note t = r(5) [rule_format, OF conjI [OF w(1) conjI [OF refl w(2)]]]
  have "elf_load_programheaders ?m2 elf = (store32 ?m3 (fld elf 104) 1, 1)"
    using r(2,4) eh by (simp add: elf_load_programheaders_def elf_by_view)
  then show thesis using that [of m1 h1 p "store32 ?m3 (fld elf 104) 1" R1] r(1-3) t bytes unfolding sz by simp
qed

lemma shdr_frame:
  assumes "same_outside X m m'" and "X \<inter> region q 64 = {}"
  shows "shdr_at m' q = shdr_at m q"
proof (rule copied_headers(3))
  have "copied m q m q 64" by (simp add: copied_def)
  then show "copied m' q m q 64" by (rule copied_kept) (use assms same_outsideD [OF assms(1)] in \<open>auto simp del: in_region\<close>)
qed

lemma elf_strings_step:
  assumes ld: "loading m h R elf" and eh: "v_header (elf_view_at m elf) = eh" "v_sections_loaded (elf_view_at m elf)" "v_file (elf_view_at m elf) = file"
    and str: "shdr_at m (v_sections (elf_view_at m elf) + 64 * ucast (eh_shstrndx eh)) = str"
    and keep: "region (v_sections (elf_view_at m elf) + 64 * ucast (eh_shstrndx eh)) 64 \<subseteq> region q l" "(q, l) \<in> heap_extents h R"
    and ok: "unat (eh_shstrndx eh) < unat (eh_shnum eh)" "0 < unat (shd_size str)" "unat (shd_offset str) + unat (shd_size str) \<le> l0" "l0 \<le> 2 ^ 64"
    and fl: "(file, l0) \<in> heap_extents h R" and room: "heap_room h R (ceil_div (unat (shd_size str)) 4096 + k)"
  obtains m1 h1 R1 p m4 where "kalloc m h (elf_get_stringsectionsize m elf) = Some (m1, h1, p)"
    and "elf_load_strings_section (store64 m1 (fld elf 96) p) elf = (m4, 1)"
    and "elf_view_at m4 elf = (elf_view_at m elf)\<lparr>v_strings := p, v_strings_loaded := True\<rparr>"
    and "table_loaded m h R m4 h1 R1 elf p (file + shd_offset str) (unat (shd_size str))" and "heap_room h1 R1 k"
proof -
  let ?sz = "shd_size str" and ?q = "v_sections (elf_view_at m elf) + 64 * ucast (eh_shstrndx eh)"
  have at: "v_sections V + of_int (64 * uint (eh_shstrndx eh)) = v_sections V + 64 * ucast (eh_shstrndx eh)" for V :: elf_view by simp
  have idx: "\<not> uint (eh_shnum eh) \<le> uint (eh_shstrndx eh)" using ok(1) by (simp add: not_le word_less_def [symmetric] word_less_nat_alt)
  have cnt: "unat ?sz = unat (?sz * of_int 1)" by simp
  have bytes: "elf_get_stringsectionsize m elf = ?sz"
    using str idx by (auto simp: elf_get_stringsectionsize_def elf_get_sectionsize_def elf_by_view eh at shdr_at_def)
  have src: "region (file + shd_offset str) (unat ?sz) \<subseteq> region file l0"
    using region_sub [of "unat (shd_offset str)" "unat ?sz" l0 "file"] ok(3,4) by simp
  obtain m1 h1 R1 p where r: "kalloc m h ?sz = Some (m1, h1, p)" "elf_view_at m1 elf = elf_view_at m elf" "heap_room h1 R1 k" "p \<noteq> NULL"
    "\<forall>m2 m3 m4. same_outside (region elf 120) m1 m2 \<and>
      m3 = filebuffer_read_at_position m2 p (shd_offset str) ?sz 1 file \<and>
      same_outside (region elf 120) m3 m4 \<longrightarrow>
      elf_view_at m3 elf = elf_view_at m2 elf \<and> table_loaded m h R m4 h1 R1 elf p (file + shd_offset str) (unat ?sz)"
    by (rule table_round [OF ld ok(2) room fl src cnt])
  let ?m2 = "store64 m1 (fld elf 96) p"
  let ?m2' = "store32 ?m2 (fld elf 88) 1"
  let ?m3 = "filebuffer_read_at_position ?m2' p (shd_offset str) ?sz 1 file"
  have w: "same_outside (region elf 120) m1 ?m2" "same_outside (region elf 120) ?m2 ?m2'" by (rule store_fld_outside; simp)+
  have "same_outside (region elf 120) m1 ?m2'" by (rule same_outside_trans [OF w])
  note t = r(5) [rule_format, OF conjI [OF this conjI [OF refl same_outside_refl]]]
  have hok: "heap_ok m h R" and ta: "heap_table_apart h" and off: "region elf 120 \<inter> heap_bytes h = {}" using ld by (auto simp: loading_def)
  have q: "region ?q 64 \<subseteq> heap_bytes h" using keep(1) extent_in_area [OF hok keep(2)] by (auto simp: heap_bytes_def simp del: in_region)
  have "shdr_at m1 ?q = shdr_at m ?q"
    by (rule shdr_frame [OF kalloc_frame [OF hok ok(2) r(1)]])
      (use q ta in \<open>auto simp: heap_table_apart_def table_bytes_def heap_bytes_def simp del: in_region\<close>)
  moreover have "shdr_at ?m2 ?q = shdr_at m1 ?q" by (rule shdr_frame [OF w(1)]) (use q off in blast)
  ultimately have "shdr_at ?m2 ?q = str" using str by simp
  then have "sh_offset ?m2 ?q = shd_offset str" "sh_size ?m2 ?q = shd_size str" by (auto simp: shdr_at_def)
  then have "elf_load_strings_section ?m2 elf = (?m3, 1)"
    using r(2,4) eh idx by (simp add: elf_load_strings_section_def elf_get_sectionheader_byid_def elf_by_view at)
  then show thesis using that [of m1 h1 p ?m3 R1] r(1-3) t bytes by simp
qed

lemma table_loadedD:
  assumes "table_loaded m h R m' h' R' elf p src n"
  shows "loading m' h' R' elf" and "heap_extents h' R' = insert (p, 4096 * ceil_div n 4096) (heap_extents h R)"
    and "region p n \<subseteq> region p (4096 * ceil_div n 4096)" and "copied m' p m src n"
    and "(q, l) \<in> heap_extents h R \<Longrightarrow> b \<in> region q l \<Longrightarrow> m' b = m b"
proof -
  obtain i where i: "p = heap_run_addr h i" "R' = insert (i, ceil_div n 4096) R" using assms by (auto simp: table_loaded_def)
  show "loading m' h' R' elf" "copied m' p m src n" "(q, l) \<in> heap_extents h R \<Longrightarrow> b \<in> region q l \<Longrightarrow> m' b = m b"
    using assms by (auto simp: table_loaded_def)
  have "h' = h\<lparr>free_blocks := free_blocks h - of_nat (ceil_div n 4096)\<rparr>" using assms by (simp add: table_loaded_def)
  then show "heap_extents h' R' = insert (p, 4096 * ceil_div n 4096) (heap_extents h R)"
    unfolding i(2) by (simp add: heap_extents_def heap_run_addr_def i(1))
  show "region p n \<subseteq> region p (4096 * ceil_div n 4096)" by (rule region_mono) (use ceil_div_ge [of 4096 n] in simp)
qed

lemma table_freed:
  assumes ld: "loading m h R elf" and R: "(i, n) \<in> R"
  obtains m' where "kfree m h (heap_run_addr h i) = Some (m', h\<lparr>free_blocks := free_blocks h + of_nat n\<rparr>)"
    and "loading m' (h\<lparr>free_blocks := free_blocks h + of_nat n\<rparr>) (R - {(i, n)}) elf" and "elf_view_at m' elf = elf_view_at m elf"
    and "same_outside (table_bytes h) m m'"
proof -
  let ?h = "h\<lparr>free_blocks := free_blocks h + of_nat n\<rparr>" and ?m = "fill (heap_table h + of_nat i) n 0 m"
  have ok: "heap_ok m h R" and off: "region elf 120 \<inter> table_bytes h = {}" using ld by (auto simp: loading_def)
  have fr: "kfree m h (heap_run_addr h i) = Some (?m, ?h)" "heap_ok ?m ?h (R - {(i, n)})"
    using heap_free_run [OF ok R] by (simp_all add: kfree_def sysutils_kernel_heap_free_def)
  have "i + n \<le> unat (blocks h)" using heap_okD(3) [OF ok] R by (auto simp: wf_runs_def)
  then have w: "same_outside (table_bytes h) m ?m"
    unfolding table_bytes_def using unat_less64 [of "blocks h"] by (intro same_outside_mono [OF fill_outside] region_sub) simp_all
  have v: "elf_view_at ?m elf = elf_view_at m elf" by (rule elf_view_frame [OF w]) (use off in blast)
  have "loading ?m ?h (R - {(i, n)}) elf" using ld fr(2) by (simp add: loading_def heap_table_apart_def heap_bytes_def table_bytes_def)
  then show thesis using that fr(1) v w by blast
qed

lemma elf_freed:
  assumes t1: "table_loaded m h R m1 h1 R1 elf p1 s1 n1" and t2: "table_loaded m1 h1 R1 m2 h2 R2 elf p2 s2 n2"
    and t3: "table_loaded m2 h2 R2 m3 h3 R3 elf p3 s3 n3"
    and v: "v_sections (elf_view_at m3 elf) = p1" "v_programs (elf_view_at m3 elf) = p2" "v_strings (elf_view_at m3 elf) = p3"
  obtains m' where "elf_free m3 h3 elf = Some (m', h)" and "heap_ok m' h R" and "same_outside (table_bytes h) m3 m'"
proof -
  let ?c = "\<lambda>n. ceil_div n 4096"
  obtain i1 where i1: "p1 = heap_run_addr h i1" "(i1, ?c n1) \<notin> R" "R1 = insert (i1, ?c n1) R" using t1 by (auto simp: table_loaded_def)
  obtain i2 where i2: "p2 = heap_run_addr h1 i2" "(i2, ?c n2) \<notin> R1" "R2 = insert (i2, ?c n2) R1" using t2 by (auto simp: table_loaded_def)
  obtain i3 where i3: "p3 = heap_run_addr h2 i3" "(i3, ?c n3) \<notin> R2" "R3 = insert (i3, ?c n3) R2" using t3 by (auto simp: table_loaded_def)
  have h1: "h1 = h\<lparr>free_blocks := free_blocks h - of_nat (?c n1)\<rparr>" using t1 by (simp add: table_loaded_def)
  have h2: "h2 = h\<lparr>free_blocks := free_blocks h - of_nat (?c n1) - of_nat (?c n2)\<rparr>" using t2 h1 by (simp add: table_loaded_def)
  have h3: "h3 = h\<lparr>free_blocks := free_blocks h - of_nat (?c n1) - of_nat (?c n2) - of_nat (?c n3)\<rparr>" using t3 h2 by (simp add: table_loaded_def)
  have ad: "heap_run_addr (h\<lparr>free_blocks := f\<rparr>) i = heap_run_addr h i" "table_bytes (h\<lparr>free_blocks := f\<rparr>) = table_bytes h" for f i
    by (simp_all add: heap_run_addr_def table_bytes_def)
  let ?h4 = "h\<lparr>free_blocks := free_blocks h - of_nat (?c n2) - of_nat (?c n3)\<rparr>" and ?h5 = "h\<lparr>free_blocks := free_blocks h - of_nat (?c n3)\<rparr>"
  have l3: "loading m3 h3 R3 elf" by (rule table_loadedD(1) [OF t3])
  have e: "h3\<lparr>free_blocks := free_blocks h3 + of_nat (?c n1)\<rparr> = ?h4" "heap_run_addr h3 i1 = p1" "table_bytes h3 = table_bytes h"
    "?h4\<lparr>free_blocks := free_blocks ?h4 + of_nat (?c n2)\<rparr> = ?h5" "heap_run_addr ?h4 i2 = p2"
    "?h5\<lparr>free_blocks := free_blocks ?h5 + of_nat (?c n3)\<rparr> = h" "heap_run_addr ?h5 i3 = p3"
    by (simp_all add: h3 h2 h1 ad i1(1) i2(1) i3(1))
  have r1: "(i1, ?c n1) \<in> R3" by (simp add: i1(3) i2(3) i3(3))
  obtain m4 where m4: "kfree m3 h3 p1 = Some (m4, ?h4)" "loading m4 ?h4 (R3 - {(i1, ?c n1)}) elf"
    "elf_view_at m4 elf = elf_view_at m3 elf" "same_outside (table_bytes h) m3 m4"
    by (rule table_freed [OF l3 r1, unfolded e])
  have r2: "(i2, ?c n2) \<in> R3 - {(i1, ?c n1)}" using i2(2) by (auto simp: i1(3) i2(3) i3(3))
  obtain m5 where m5: "kfree m4 ?h4 p2 = Some (m5, ?h5)" "loading m5 ?h5 (R3 - {(i1, ?c n1)} - {(i2, ?c n2)}) elf"
    "elf_view_at m5 elf = elf_view_at m4 elf" "same_outside (table_bytes h) m4 m5"
    by (rule table_freed [OF m4(2) r2, unfolded e ad(2)])
  have r3: "(i3, ?c n3) \<in> R3 - {(i1, ?c n1)} - {(i2, ?c n2)}" using i3(2) by (auto simp: i1(3) i2(3) i3(3))
  obtain m6 where m6: "kfree m5 ?h5 p3 = Some (m6, h)"
    "loading m6 h (R3 - {(i1, ?c n1)} - {(i2, ?c n2)} - {(i3, ?c n3)}) elf" "elf_view_at m6 elf = elf_view_at m5 elf"
    "same_outside (table_bytes h) m5 m6"
    by (rule table_freed [OF m5(2) r3, unfolded e ad(2)])
  have "R3 - {(i1, ?c n1)} - {(i2, ?c n2)} - {(i3, ?c n3)} = R" using i1(2) i2(2) i3(2) by (auto simp: i1(3) i2(3) i3(3))
  then have "heap_ok m6 h R" using m6(2) by (simp add: loading_def)
  moreover have "elf_free m3 h3 elf = Some (m6, h)"
    using m4(1,3) m5(1,3) m6(1) v by (simp add: elf_free_def elf_by_view)
  ultimately show thesis
    using that same_outside_trans [OF m4(4) same_outside_trans [OF m5(4) m6(4)]] by blast
qed

lemma copied_entry:
  assumes "copied m' p m s n" and "64 * i + 64 \<le> n"
  shows "shdr_at m' (p + 64 * of_nat i) = shdr_at m (s + 64 * of_nat i)"
  using copied_headers(3) [OF copied_sub [OF assms]] by (simp add: fld_def)

lemma copied_program:
  assumes "copied m' p m s n" and "56 * i + 56 \<le> n"
  shows "phdr_at m' (p + 56 * of_nat i) = phdr_at m (s + 56 * of_nat i)"
  using copied_headers(2) [OF copied_sub [OF assms]] by (simp add: fld_def)

lemma extent_small:
  assumes "heap_ok m h R" and "(q, l) \<in> heap_extents h R"
  shows "l \<le> 2 ^ 64"
proof -
  obtain i n where "(i, n) \<in> R" "l = 4096 * n" using assms(2) by (auto simp: heap_extents_def)
  moreover have "n \<le> unat (blocks h)" using heap_okD(3) [OF assms(1)] calculation(1) by (auto simp: wf_runs_def)
  ultimately show ?thesis using heap_okD(1) [OF assms(1)] by simp
qed

lemma table_loaded_copied:
  assumes t: "table_loaded m1 h R m2 h2 R2 elf p src n" and n: "n \<le> 2 ^ 64" and src: "\<And>b. b \<in> region src n \<Longrightarrow> m1 b = m b"
    and keep: "\<And>b. b \<in> region p (4096 * ceil_div n 4096) \<Longrightarrow> m' b = m2 b"
  shows "copied m' p m src n"
proof -
  have "copied m2 p m src n"
    by (rule copied_same [OF table_loadedD(4) [OF t] n src])
  then show ?thesis by (rule copied_kept [OF _ n]) (use keep table_loadedD(3) [OF t] in \<open>auto simp del: in_region\<close>)
qed

lemma elf_alloc_and_parse_loads:
  assumes ok: "elf_file_ok m file len" and ld: "loading m h R elf" and fl: "(file, l0) \<in> heap_extents h R" "len \<le> l0"
  defines "eh \<equiv> ehdr_at m file" and "str \<equiv> shdr_at m (file + eh_shoff (ehdr_at m file) + 64 * ucast (eh_shstrndx (ehdr_at m file)))"
  assumes room: "heap_room h R (ceil_div (64 * unat (eh_shnum eh)) 4096 + (ceil_div (56 * unat (eh_phnum eh)) 4096 + ceil_div (unat (shd_size str)) 4096))"
  obtains m1 m2 h2 R2 p2 m3 h3 R3 p3 m4 h4 R4 p4 where
    "elf_alloc_and_parse (elf_fromfilebuffer m elf file) h elf = Some (m4, h4)" and "same_outside (region elf 120) m m1"
    and "table_loaded m1 h R m2 h2 R2 elf p2 (file + eh_shoff eh) (64 * unat (eh_shnum eh))"
    and "table_loaded m2 h2 R2 m3 h3 R3 elf p3 (file + eh_phoff eh) (56 * unat (eh_phnum eh))"
    and "table_loaded m3 h3 R3 m4 h4 R4 elf p4 (file + shd_offset str) (unat (shd_size str))"
    and "elf_view_at m4 elf = \<lparr>v_file = file, v_header_loaded = True, v_header = eh, v_sections_loaded = True, v_sections = p2,
      v_strings_loaded = True, v_strings = p4, v_programs_loaded = True, v_programs = p3\<rparr>"
proof -
  let ?E = "region elf 120" and ?i = "unat (eh_shstrndx eh)"
  have e: "64 \<le> l0" "m file = 0x7f" "eh_shentsize eh = 64" "eh_phentsize eh = 56" "0 < unat (eh_phnum eh)"
    "unat (eh_shoff eh) + 64 * unat (eh_shnum eh) \<le> l0" "unat (eh_phoff eh) + 56 * unat (eh_phnum eh) \<le> l0"
    "?i < unat (eh_shnum eh)" "0 < unat (shd_size str)" "unat (shd_offset str) + unat (shd_size str) \<le> l0"
    using ok fl(2) by (auto simp: elf_file_ok_def Let_def eh_def str_def)
  have hok: "heap_ok m h R" and off: "?E \<inter> heap_bytes h = {}" "?E \<inter> table_bytes h = {}" using ld by (auto simp: loading_def)
  have l64: "l0 \<le> 2 ^ 64" by (rule extent_small [OF hok fl(1)])
  have fE: "region file l0 \<inter> ?E = {}" using extent_in_area [OF hok fl(1)] off(1) by (auto simp: heap_bytes_def simp del: in_region)
  then have "region file 64 \<inter> ?E = {}" using region_mono [OF e(1), of "file"] by blast
  then obtain m1 where p: "elf_parseheader (elf_fromfilebuffer m elf file) elf = (m1, 1)" "same_outside ?E m m1"
    "elf_view_at m1 elf = \<lparr>v_file = file, v_header_loaded = True, v_header = eh, v_sections_loaded = False, v_sections = NULL,
      v_strings_loaded = False, v_strings = NULL, v_programs_loaded = False, v_programs = NULL\<rparr>"
    unfolding eh_def using e(2) by (rule elf_parse_step)
  have "heap_ok m1 h R" by (rule heap_ok_frame [OF hok p(2)]) (use off(2) in \<open>simp add: table_bytes_def\<close>)
  then have ld1: "loading m1 h R elf" using ld by (simp add: loading_def)
  have v1: "v_header (elf_view_at m1 elf) = eh" "v_header_loaded (elf_view_at m1 elf)" "v_file (elf_view_at m1 elf) = file" by (simp_all add: p(3))
  have sh: "0 < unat (eh_shnum eh)" using e(8) by simp
  obtain m1' h2 R2 p2 m2 where s: "kalloc m1 h (elf_get_sectionheaders_bytes m1 elf) = Some (m1', h2, p2)"
    "elf_load_sectionheaders (store64 m1' (fld elf 80) p2) elf = (m2, 1)"
    "elf_view_at m2 elf = (elf_view_at m1 elf)\<lparr>v_sections := p2, v_sections_loaded := True\<rparr>"
    "table_loaded m1 h R m2 h2 R2 elf p2 (file + eh_shoff eh) (64 * unat (eh_shnum eh))"
    "heap_room h2 R2 (ceil_div (56 * unat (eh_phnum eh)) 4096 + ceil_div (unat (shd_size str)) 4096)"
    by (rule elf_sections_step [OF ld1 v1 e(3) sh e(6) l64 fl(1) room])
  note t2 = table_loadedD [OF s(4)]
  have v2: "v_header (elf_view_at m2 elf) = eh" "v_header_loaded (elf_view_at m2 elf)" "v_file (elf_view_at m2 elf) = file" by (simp_all add: s(3) p(3))
  have fl2: "(file, l0) \<in> heap_extents h2 R2" unfolding t2(2) using fl(1) by simp
  obtain m2' h3 R3 p3 m3 where g: "kalloc m2 h2 (elf_get_programheaders_bytes m2 elf) = Some (m2', h3, p3)"
    "elf_load_programheaders (store64 m2' (fld elf 112) p3) elf = (m3, 1)"
    "elf_view_at m3 elf = (elf_view_at m2 elf)\<lparr>v_programs := p3, v_programs_loaded := True\<rparr>"
    "table_loaded m2 h2 R2 m3 h3 R3 elf p3 (file + eh_phoff eh) (56 * unat (eh_phnum eh))"
    "heap_room h3 R3 (ceil_div (unat (shd_size str)) 4096)"
    by (rule elf_programs_step [OF t2(1) v2 e(4,5,7) l64 fl2 s(5)])
  note t3 = table_loadedD [OF g(4)]
  have v3: "v_header (elf_view_at m3 elf) = eh" "v_sections_loaded (elf_view_at m3 elf)" "v_file (elf_view_at m3 elf) = file"
    "v_sections (elf_view_at m3 elf) = p2" by (simp_all add: g(3) s(3) p(3))
  have fl3: "(file, l0) \<in> heap_extents h3 R3" "(p2, 4096 * ceil_div (64 * unat (eh_shnum eh)) 4096) \<in> heap_extents h3 R3"
    unfolding t3(2) t2(2) using fl(1) by simp_all
  have idx: "64 * ucast (eh_shstrndx eh) = (64 * of_nat ?i :: u64)" by simp
  have "region (file + eh_shoff eh) (64 * unat (eh_shnum eh)) \<subseteq> region file l0"
    using region_sub [of "unat (eh_shoff eh)" "64 * unat (eh_shnum eh)" l0 "file"] e(6) l64 by simp
  then have src: "m1 b = m b" if "b \<in> region (file + eh_shoff eh) (64 * unat (eh_shnum eh))" for b
    using that fE by (intro same_outsideD [OF p(2)]) blast
  have keep3: "m3 b = m2 b" if "b \<in> region p2 (4096 * ceil_div (64 * unat (eh_shnum eh)) 4096)" for b
    by (rule t3(5) [OF _ that]) (simp add: t2(2))
  have "copied m3 p2 m (file + eh_shoff eh) (64 * unat (eh_shnum eh))"
    by (rule table_loaded_copied [OF s(4) _ src keep3]) (use e(6) l64 in simp_all)
  then have str3: "shdr_at m3 (v_sections (elf_view_at m3 elf) + 64 * ucast (eh_shstrndx eh)) = str"
    using copied_entry [of m3 p2 m "file + eh_shoff eh" _ ?i] e(8) unfolding v3(4) by (simp add: str_def eh_def)
  have "region (p2 + of_nat (64 * ?i)) 64 \<subseteq> region p2 (4096 * ceil_div (64 * unat (eh_shnum eh)) 4096)"
    using t2(3) region_sub [of "64 * ?i" 64 "64 * unat (eh_shnum eh)" p2] e(6,8) l64 by simp
  then have kp: "region (v_sections (elf_view_at m3 elf) + 64 * ucast (eh_shstrndx eh)) 64 \<subseteq> region p2 (4096 * ceil_div (64 * unat (eh_shnum eh)) 4096)"
    unfolding v3(4) by simp
  have rm: "heap_room h3 R3 (ceil_div (unat (shd_size str)) 4096 + 0)" using g(5) by simp
  obtain m3' h4 R4 p4 m4 where t: "kalloc m3 h3 (elf_get_stringsectionsize m3 elf) = Some (m3', h4, p4)"
    "elf_load_strings_section (store64 m3' (fld elf 96) p4) elf = (m4, 1)"
    "elf_view_at m4 elf = (elf_view_at m3 elf)\<lparr>v_strings := p4, v_strings_loaded := True\<rparr>"
    "table_loaded m3 h3 R3 m4 h4 R4 elf p4 (file + shd_offset str) (unat (shd_size str))" "heap_room h4 R4 0"
    by (rule elf_strings_step [OF t3(1) v3(1-3) str3 kp fl3(2) e(8-10) l64 fl3(1) rm])
  have "elf_alloc_and_parse (elf_fromfilebuffer m elf file) h elf = Some (m4, h4)"
    using p(1) s(1,2) g(1,2) t(1,2) by (simp add: elf_alloc_and_parse_def)
  then show thesis using that [OF _ p(2) s(4) g(4) t(4)] p(3) s(3) g(3) t(3) by simp
qed

section \<open>Properties\<close>

text \<open>
  C4. Reading the headers of an ELF file that lies in the kernel heap, when the heap has room for the
  tables: \<open>elf_alloc_and_parse\<close> returns; the header, every section header and every program header that the
  accessors then give, and the section names, are those of the file; no earlier allocation of the
  heap changes. \<open>elf_free\<close> then gives the heap back exactly as it was, descriptor and allocations.
\<close>
theorem elf_parse_and_free:
  assumes "elf_file_ok m file len" and "heap_ok m h R" and "heap_table_apart h"
    and "region elf 120 \<inter> (heap_bytes h \<union> table_bytes h) = {}"
    and "(file, l0) \<in> heap_extents h R" and "len \<le> l0" and "eh = ehdr_at m file"
    and "str = shdr_at m (file + eh_shoff eh + 64 * ucast (eh_shstrndx eh))"
    and "heap_room h R (ceil_div (64 * unat (eh_shnum eh)) 4096 + (ceil_div (56 * unat (eh_phnum eh)) 4096 + ceil_div (unat (shd_size str)) 4096))"
  shows "\<exists>m' h' m''. elf_alloc_and_parse (elf_fromfilebuffer m elf file) h elf = Some (m', h') \<and>
    ehdr_at m' (elf_header elf) = eh \<and> elf_get_entrypoint m' elf = eh_entry eh \<and>
    elf_get_sectionentries m' elf = uint (eh_shnum eh) \<and> elf_get_programentries m' elf = uint (eh_phnum eh) \<and>
    (\<forall>i < unat (eh_shnum eh). shdr_at m' (elf_get_sectionheader_byid m' elf (int i)) = shdr_at m (file + eh_shoff eh + 64 * of_nat i)) \<and>
    (\<forall>i < unat (eh_phnum eh). phdr_at m' (elf_get_programheader_byid m' elf (int i)) = phdr_at m (file + eh_phoff eh + 56 * of_nat i)) \<and>
    elf_get_stringsectionsize m' elf = shd_size str \<and>
    (\<forall>j < unat (shd_size str). m' (strings_section m' elf + of_nat j) = m (file + shd_offset str + of_nat j)) \<and>
    elf_free m' h' elf = Some (m'', h) \<and> heap_ok m'' h R \<and>
    (\<forall>(q, l) \<in> heap_extents h R. \<forall>b \<in> region q l. m' b = m b \<and> m'' b = m b)"
proof -
  let ?E = "region elf 120" and ?n2 = "64 * unat (eh_shnum eh)" and ?n3 = "56 * unat (eh_phnum eh)" and ?n4 = "unat (shd_size str)"
  have ld: "loading m h R elf" using assms(2-4) by (simp add: loading_def)
  obtain m1 m2 h2 R2 p2 m3 h3 R3 p3 m4 h4 R4 p4 where
    a: "elf_alloc_and_parse (elf_fromfilebuffer m elf file) h elf = Some (m4, h4)" "same_outside ?E m m1"
      "table_loaded m1 h R m2 h2 R2 elf p2 (file + eh_shoff eh) ?n2"
      "table_loaded m2 h2 R2 m3 h3 R3 elf p3 (file + eh_phoff eh) ?n3"
      "table_loaded m3 h3 R3 m4 h4 R4 elf p4 (file + shd_offset str) ?n4"
      "elf_view_at m4 elf = \<lparr>v_file = file, v_header_loaded = True, v_header = eh, v_sections_loaded = True, v_sections = p2,
        v_strings_loaded = True, v_strings = p4, v_programs_loaded = True, v_programs = p3\<rparr>"
    using assms(1) ld assms(5,6,9) unfolding assms(7,8) by (rule elf_alloc_and_parse_loads)
  note t2 = table_loadedD [OF a(3)] and t3 = table_loadedD [OF a(4)] and t4 = table_loadedD [OF a(5)]
  have fE: "region q l \<inter> ?E = {}" if "(q, l) \<in> heap_extents h R" for q l
    using extent_in_area [OF assms(2) that] assms(4) by (auto simp: heap_bytes_def simp del: in_region)
  have l64: "l0 \<le> 2 ^ 64" by (rule extent_small [OF assms(2,5)])
  have e: "unat (eh_shoff eh) + ?n2 \<le> l0" "unat (eh_phoff eh) + ?n3 \<le> l0" "unat (shd_offset str) + ?n4 \<le> l0" "unat (eh_shstrndx eh) < unat (eh_shnum eh)"
    using assms(1,6) by (auto simp: elf_file_ok_def Let_def assms(7,8))
  have keep: "m4 b = m2 b" "m3 b = m2 b" "m4 b = m3 b" if "(q, l) \<in> heap_extents h2 R2" "b \<in> region q l" for q l b
    using t3(5) [OF that] t4(5) [of q l b] that by (simp_all add: t3(2) del: in_region)
  have old: "m4 b = m b" "m3 b = m b" "m2 b = m b" "m1 b = m b" if "(q, l) \<in> heap_extents h R" "b \<in> region q l" for q l b
    using t2(5) [OF that] keep [of q l b] that fE [OF that(1)] same_outsideD [OF a(2), of b] by (auto simp: t2(2) simp del: in_region)
  have src: "b \<in> region file l0" if "b \<in> region (file + off) n" "unat off + n \<le> l0" for off n b
    using region_sub [of "unat off" n l0 "file"] that l64 by auto
  have c2: "copied m4 p2 m (file + eh_shoff eh) ?n2"
    by (rule table_loaded_copied [OF a(3) _ old(4) [OF assms(5) src [OF _ e(1)]] keep(1)]) (use e(1) l64 t2(2) in simp_all)
  have c3: "copied m4 p3 m (file + eh_phoff eh) ?n3"
    by (rule table_loaded_copied [OF a(4) _ old(3) [OF assms(5) src [OF _ e(2)]] t4(5)]) (use e(2) l64 t3(2) in simp_all)
  have c4: "copied m4 p4 m (file + shd_offset str) ?n4"
    by (rule table_loaded_copied [OF a(5) _ old(2) [OF assms(5) src [OF _ e(3)]] refl]) (use e(3) l64 in simp)
  obtain m5 where f: "elf_free m4 h4 elf = Some (m5, h)" "heap_ok m5 h R" "same_outside (table_bytes h) m4 m5"
    by (rule elf_freed [OF a(3-5)]) (simp_all add: a(6))
  have tb: "m5 b = m4 b" if "(q, l) \<in> heap_extents h R" "b \<in> region q l" for q l b
    using extent_in_area [OF assms(2) that(1)] that(2) assms(3) unfolding heap_table_apart_def table_bytes_def [symmetric]
    by (intro same_outsideD [OF f(3)]) blast
  have ud: "uint x \<le> int i \<longleftrightarrow> unat x \<le> i" for i and x :: u16 by (simp only: uint_nat of_nat_le_iff)
  have sec: "elf_get_sectionheader_byid m4 elf (int i) = p2 + 64 * of_nat i" if "i < unat (eh_shnum eh)" for i
    using that by (simp add: elf_get_sectionheader_byid_def elf_by_view a(6) ud)
  have prg: "elf_get_programheader_byid m4 elf (int i) = p3 + 56 * of_nat i" for i
    by (simp add: elf_get_programheader_byid_def elf_by_view a(6))
  have "sh_size m4 (p2 + 64 * of_nat (unat (eh_shstrndx eh))) = shd_size str" 
    using copied_entry [OF c2, of "unat (eh_shstrndx eh)"] e(4) by (auto simp: shdr_at_def assms(8))
  then have sz: "elf_get_stringsectionsize m4 elf = shd_size str"
    using e(4) ud [of "eh_shnum eh" "unat (eh_shstrndx eh)"] by (simp add: elf_get_stringsectionsize_def elf_get_sectionsize_def elf_by_view a(6))
  have "ehdr_at m4 (elf_header elf) = eh" using arg_cong [OF a(6), of v_header] by (simp add: elf_view_at_def)
  moreover have "\<forall>i < unat (eh_shnum eh). shdr_at m4 (elf_get_sectionheader_byid m4 elf (int i)) = shdr_at m (file + eh_shoff eh + 64 * of_nat i)"
    using copied_entry [OF c2] sec by simp
  moreover have "\<forall>i < unat (eh_phnum eh). phdr_at m4 (elf_get_programheader_byid m4 elf (int i)) = phdr_at m (file + eh_phoff eh + 56 * of_nat i)"
    using copied_program [OF c3] prg by simp
  moreover have "\<forall>j < ?n4. m4 (strings_section m4 elf + of_nat j) = m (file + shd_offset str + of_nat j)"
    using c4 by (simp add: copied_def fld_def elf_by_view a(6))
  moreover have "elf_get_entrypoint m4 elf = eh_entry eh" "elf_get_sectionentries m4 elf = uint (eh_shnum eh)"
    "elf_get_programentries m4 elf = uint (eh_phnum eh)"
    by (simp_all add: elf_get_entrypoint_def elf_get_sectionentries_def elf_get_programentries_def elf_by_view a(6))
  moreover have "\<forall>(q, l) \<in> heap_extents h R. \<forall>b \<in> region q l. m4 b = m b \<and> m5 b = m b" 
    using old(1) tb by (auto simp del: in_region)
  ultimately show ?thesis using a(1) f(1,2) sz by blast
qed


lemma load_bytes:
  "(load_le 2 m a :: 'a::len word) = load_le (Suc (Suc 0)) m a" "(load_le 4 m a :: 'a word) = load_le (Suc (Suc (Suc (Suc 0)))) m a"
  "(load_le 8 m a :: 'a word) = load_le (Suc (Suc (Suc (Suc (Suc (Suc (Suc (Suc 0)))))))) m a"
  by (simp_all add: numeral_eq_Suc del: load_le.simps)

definition example_elf_mem :: mem where
  \<comment> \<open>in the first block of the example heap: a header, one program header, one section header, an empty name\<close>
  "example_elf_mem = (\<lambda>_. 0)(0x1000 := 0xE0, 0x40200000 := 0x7f, 0x40200020 := 64, 0x40200028 := 120, 0x40200036 := 56, 0x40200038 := 1,
     0x4020003a := 64, 0x4020003c := 1, 0x40200090 := 184, 0x40200098 := 1)"

lemma example_ehdr: "e_shoff example_elf_mem 0x40200000 = 120" "e_phoff example_elf_mem 0x40200000 = 64" "e_phentsize example_elf_mem 0x40200000 = 56"
  "e_phnum example_elf_mem 0x40200000 = 1" "e_shentsize example_elf_mem 0x40200000 = 64" "e_shnum example_elf_mem 0x40200000 = 1"
  "e_shstrndx example_elf_mem 0x40200000 = 0" "sh_offset example_elf_mem 0x40200078 = 184" "sh_size example_elf_mem 0x40200078 = 1"
  by (simp_all add: elf_fields fld_def load_bytes example_elf_mem_def)

lemma example_elf_sel:
  "eh_phoff (ehdr_at example_elf_mem 0x40200000) = 64" "eh_shoff (ehdr_at example_elf_mem 0x40200000) = 120"
  "eh_phentsize (ehdr_at example_elf_mem 0x40200000) = 56" "eh_phnum (ehdr_at example_elf_mem 0x40200000) = 1"
  "eh_shentsize (ehdr_at example_elf_mem 0x40200000) = 64" "eh_shnum (ehdr_at example_elf_mem 0x40200000) = 1"
  "eh_shstrndx (ehdr_at example_elf_mem 0x40200000) = 0" "shd_offset (shdr_at example_elf_mem 0x40200078) = 184"
  "shd_size (shdr_at example_elf_mem 0x40200078) = 1"
  by (simp_all add: ehdr_at_def shdr_at_def example_ehdr)

lemma example_elf_ok: "elf_file_ok example_elf_mem 0x40200000 185"
  by (simp add: elf_file_ok_def example_elf_sel) (simp add: example_elf_mem_def)

lemma example_elf_heap: "heap_ok example_elf_mem (example_heap\<lparr>free_blocks := 7\<rparr>) {(0, 1)}"
proof (rule heap_ok_frame [OF heap_ok_example_one])
  show "same_outside (region 0x40200000 4096) ((\<lambda>_. 0)(0x1000 := 0xE0)) example_elf_mem"
    by (auto simp: same_outside_def example_elf_mem_def)
  show "region 0x40200000 4096 \<inter> region (heap_table (example_heap\<lparr>free_blocks := 7\<rparr>)) (unat (blocks (example_heap\<lparr>free_blocks := 7\<rparr>))) = {}"
    by (rule regions_apart) simp_all
qed

theorem elf_parse_and_free_witness:
  "\<exists>m' h' m''. elf_alloc_and_parse (elf_fromfilebuffer example_elf_mem 0x8000 0x40200000) (example_heap\<lparr>free_blocks := 7\<rparr>) 0x8000 = Some (m', h') \<and>
    elf_get_programentries m' 0x8000 = 1 \<and> elf_get_stringsectionsize m' 0x8000 = 1 \<and>
    elf_free m' h' 0x8000 = Some (m'', example_heap\<lparr>free_blocks := 7\<rparr>)"
proof -
  let ?h = "example_heap\<lparr>free_blocks := 7\<rparr>" and ?eh = "ehdr_at example_elf_mem 0x40200000"
  have apart: "heap_table_apart ?h" unfolding heap_table_apart_def by (rule regions_apart) simp_all
  have off: "region 0x8000 120 \<inter> (heap_bytes ?h \<union> table_bytes ?h) = {}"
    unfolding heap_bytes_def table_bytes_def Int_Un_distrib Un_empty by (intro conjI regions_apart) simp_all
  have ext: "(0x40200000, 4096) \<in> heap_extents ?h {(0, 1)}" by (simp add: heap_extents_def heap_run_addr_def)
  have room: "heap_room ?h {(0, 1)} (Suc (Suc (Suc 0)))" unfolding heap_room_def by (rule exI [of _ 1]) (simp add: runs_taken_def)
  show ?thesis
    using elf_parse_and_free [OF example_elf_ok example_elf_heap apart off ext _ refl refl] room
    by (auto simp: example_elf_sel ceil_div_def)
qed

end
