(* ===== verification/Process_Properties.thy ===== *)
theory Process_Properties
  imports Boot Elf_Properties
begin

text \<open>
  The life of a process against the whole kernel state: its address space in the kernel that
  \<open>start\<close> set up.
\<close>

section \<open>The kernel that start set up\<close>

lemma start_process_pools:
  assumes "4096 dvd unat HEAP_START" and "unat HEAP_START \<le> 0x6ff00000" and "\<forall>j < 0x10000. kmem k (HEAP_START + of_nat j) = 0"
  obtains k' R where "start_pools k HEAP_START = Some k'" and "process_pools k' R" and "free_tables (kmem k') (page_slab k') = 4096"
    and "card (slab_slots (user_space k') - slab_live (kmem k') (user_space k')) = 4096"
    and "packed_heap (kmem k') (main_heap k') R 4111" "unat (blocks (main_heap k')) = 65536"
    and "heap_table (main_heap k') = HEAP_START" "heap_start_address (main_heap k') = HEAP_START + 0x80000"
    and "pool_bytes (user_space k') \<subseteq> region 0x7ffff000 0x1001000"
proof -
  let ?R = "{(4098, 13), (1, 4097), (0, 1)}"
  obtain k' h f where k: "start_pools k HEAP_START = Some k'" "heap_ok (kmem k) h {}" "unat (blocks h) = 65536"
    "main_heap k' = h\<lparr>free_blocks := f\<rparr>" "packed_heap (kmem k') (main_heap k') ?R 4111" "current_job k' = current_job k"
    "empty_pool (kmem k') (inode_slab k') 40 32 (run_bytes h 0 1)"
    "empty_pool (kmem k') (page_slab k') 4096 0x1000 (run_bytes h 1 4097)"
    "page_pool (page_slab k')" "free_tables (kmem k') (page_slab k') = 4096"
    "empty_pool (kmem k') (job_slab k') 392 128 (run_bytes h 4098 13)"
    "page_pool (user_space k')" "slab_used (kmem k') (user_space k') = {}"
    "slab_slots (user_space k') = (\<lambda>i. 0x80000000 + of_nat (4096 * i)) ` {..<4096}"
    "pool_bytes (user_space k') \<inter> (heap_bytes h \<union> table_bytes h) = {}"
    "heap_table h = HEAP_START" "heap_start_address h = HEAP_START + 0x80000" "pool_bytes (user_space k') \<subseteq> region 0x7ffff000 0x1001000"
    using assms by (rule start_pools_eq)
  have ok: "heap_ok (kmem k') (main_heap k') ?R" and apart: "heap_table_apart (main_heap k')" using k(5) by (simp_all add: packed_heap_def)
  have "(heap_run_addr h 1, 4096 * 4097) \<in> heap_extents (main_heap k') ?R" by (simp add: heap_extents_def k(4))
  moreover have "pool_bytes (page_slab k') \<subseteq> region (heap_run_addr h 1) (4096 * 4097)"
    using k(8) by (simp add: empty_pool_def run_bytes_def)
  ultimately have pp: "process_pools k' ?R"
    using ok apart k(9,12,15) unfolding process_pools_def by (auto simp: k(4) simp del: in_region)
  have "inj_on (\<lambda>i. 0x80000000 + of_nat (4096 * i) :: u64) {..<4096}"
  proof (rule inj_onI)
    fix i j :: nat
    assume i: "i \<in> {..<4096}" "j \<in> {..<4096}" "0x80000000 + of_nat (4096 * i) = (0x80000000 + of_nat (4096 * j) :: u64)"
    then have "unat (of_nat (4096 * i) :: u64) = unat (of_nat (4096 * j) :: u64)" by simp
    then show "i = j" using i(1,2) by (simp add: unat_of_nat64 del: of_nat_mult)
  qed
  then have users: "card (slab_slots (user_space k') - slab_live (kmem k') (user_space k')) = 4096"
    using card_image k(13,14) by (fastforce simp: slab_live_empty)
  show thesis using that [OF k(1) pp k(10) users k(5)] k(3,4,16-18) by simp
qed

lemma packed_alloc_16:
  assumes pk: "packed_heap m h R 4111" and b: "unat (blocks h) = 65536"
  obtains m1 h1 p where "kalloc m h 16 = Some (m1, h1, p)" and "p \<noteq> NULL" and "region p 16 \<subseteq> heap_bytes h"
proof -
  have ok: "heap_ok m h R" using pk by (simp add: packed_heap_def)
  obtain m1 f1 where a: "kalloc m h 16 = Some (m1, h\<lparr>free_blocks := f1\<rparr>, heap_run_addr h 4111)"
    by (rule packed_alloc [OF pk, of 16]) (simp_all add: ceil_div_def b)
  have "heap_run_addr h 4111 \<noteq> NULL" using unat_heap_run_addr [OF ok, of 4111] b by auto
  moreover have "region (heap_run_addr h 4111) 16 \<subseteq> heap_bytes h"
    using heap_run_in_area [OF ok, of 4111 1] b region_mono [of 16 4096] by (auto simp: heap_bytes_def simp del: in_region)
  ultimately show thesis using that [OF a] by blast
qed

lemma page_slab_in_heap:
  assumes "process_pools k R"
  shows "pool_bytes (page_slab k) \<subseteq> heap_bytes (main_heap k)"
proof -
  have ok: "heap_ok (kmem k) (main_heap k) R" using assms by (simp add: process_pools_def)
  obtain q l where "(q, l) \<in> heap_extents (main_heap k) R" "pool_bytes (page_slab k) \<subseteq> region q l"
    using assms by (auto simp: process_pools_def)
  then show ?thesis using extent_in_area [OF ok] by (fastforce simp: heap_bytes_def simp del: in_region)
qed

lemma process_pools_frame:
  assumes pp: "process_pools k R" and w: "same_outside X (kmem k) m"
    and off: "X \<inter> (table_bytes (main_heap k) \<union> pool_bytes (page_slab k) \<union> pool_bytes (user_space k)) = {}"
  shows "process_pools (k\<lparr>kmem := m\<rparr>) R" and "slab_live m (page_slab k) = slab_live (kmem k) (page_slab k)"
    and "slab_live m (user_space k) = slab_live (kmem k) (user_space k)"
proof -
  have "heap_ok m (main_heap k) R"
    by (rule heap_ok_frame [OF _ w]) (use pp off in \<open>auto simp: process_pools_def table_bytes_def simp del: in_region\<close>)
  then show "process_pools (k\<lparr>kmem := m\<rparr>) R" using pp by (simp add: process_pools_def)
  have wf: "wf_slab (page_slab k)" "wf_slab (user_space k)" using pp by (simp_all add: process_pools_def page_pool_def)
  have hd: "slab_header (page_slab k) \<subseteq> pool_bytes (page_slab k)" "slab_header (user_space k) \<subseteq> pool_bytes (user_space k)"
    by (simp_all add: pool_bytes_def)
  show "slab_live m (page_slab k) = slab_live (kmem k) (page_slab k)" by (rule slab_pool.live_frame [OF wf(1) w]) (use off hd in blast)
  show "slab_live m (user_space k) = slab_live (kmem k) (user_space k)" by (rule slab_pool.live_frame [OF wf(2) w]) (use off hd in blast)
qed

section \<open>A new address space\<close>

lemma create_paging_isolates:
  assumes "process_pools k R" and "kalloc (kmem k) (main_heap k) 16 = Some (m1, h1, p)" "p \<noteq> NULL"
    and "0 \<le> sz" "sz \<le> 2 ^ 30 - 4096" and "n = ceil_div (nat sz + 4096) 4096"
    and "2 * n + 1 \<le> free_tables (kmem k) (page_slab k)"
    and "n \<le> card (slab_slots (user_space k) - slab_live (kmem k) (user_space k))"
  obtains k' fs R' where "job_create_paging k slab_ptr sz = Some (k', p, 4096 * int n)"
    and "pt_ok (kmem k') (pm_at (kmem k') (page_slab k) p)" and "address_space (kmem k') (load64 (kmem k') p) fs" and "length fs = n"
    and "distinct fs" and "set fs \<subseteq> slab_slots (user_space k) - slab_live (kmem k) (user_space k)"
    and "slab_live (kmem k') (user_space k) = set fs \<union> slab_live (kmem k) (user_space k)" and "process_pools k' R'"
    and "\<forall>pm. pages_allocator pm = page_slab k \<and> pt_ok (kmem k) pm \<longrightarrow>
       pt_ok (kmem k') pm \<and> (\<forall>va. unat va < 2 ^ 39 \<longrightarrow> pt_walk (kmem k') (l1 pm) va = pt_walk (kmem k) (l1 pm) va)"
    and "same_outside (table_bytes (main_heap k) \<union> region p 16 \<union> pool_bytes (page_slab k) \<union> slab_header (user_space k)) (kmem k) (kmem k')"
    and "k' = k\<lparr>main_heap := h1, kmem := kmem k', regs := regs k'\<rparr>"
proof -
  let ?s = "page_slab k" and ?u = "user_space k" and ?T = "table_bytes (main_heap k)"
  obtain R1 where r: "heap_ok m1 h1 R1" "heap_extents (main_heap k) R \<subseteq> heap_extents h1 R1"
    "heap_bytes h1 = heap_bytes (main_heap k)" "table_bytes h1 = ?T" "heap_table_apart h1"
    "same_outside ?T (kmem k) m1" "region p 16 \<inter> (pool_bytes ?s \<union> pool_bytes ?u \<union> ?T) = {}"
    "?T \<inter> (pool_bytes ?s \<union> pool_bytes ?u) = {}"
    using assms(1-3) by (rule process_alloc)
  obtain m2 pm k2 fs k' where c: "k2 = k\<lparr>kmem := m2, main_heap := h1\<rparr>"
    "job_create_paging k slab_ptr sz = Some (k', p, 4096 * int n)" "user_mapping k2 k' pm fs" "length fs = n"
    "pages_allocator pm = ?s" "load64 m2 p = l1 pm" "same_outside (pool_bytes ?s \<union> region p 16) m1 m2"
    "\<forall>L \<subseteq> slab_live m1 ?s. (\<forall>t \<in> L. \<forall>b \<in> table t. m2 b = m1 b) \<and> (\<forall>n t. pt_table m2 (l1 pm) n = Some t \<longrightarrow> t \<notin> L)"
    "slab_live m2 ?u = slab_live (kmem k) ?u" "slab_live m1 ?s \<subseteq> slab_live m2 ?s"
    using assms(1-5,7,8) unfolding assms(6) by (rule create_paging_run [where slab_ptr = slab_ptr])
  have k': "k' = k\<lparr>main_heap := h1, kmem := kmem k', regs := regs k'\<rparr>" and ok: "pt_ok (kmem k') pm"
    and as: "address_space (kmem k') (l1 pm) fs" "distinct fs" "set fs \<inter> slab_live (kmem k) ?u = {}" "set fs \<subseteq> slab_slots ?u"
      "slab_live (kmem k') ?u = set fs \<union> slab_live (kmem k) ?u" and ko: "keeps_others m2 (kmem k') pm"
    using c(3) unfolding user_mapping_def c(1) by (simp_all add: c(9))
  have w: "same_outside (pool_bytes ?u \<union> pool_bytes ?s) m2 (kmem k')" using user_mapping_frame [OF c(3)] c(1) by simp
  have "region p 8 \<subseteq> region p 16" by (rule region_mono) simp
  then have "region p 8 \<inter> (pool_bytes ?u \<union> pool_bytes ?s) = {}" using r(7) by blast
  then have root: "load64 (kmem k') p = l1 pm" unfolding c(6) [symmetric] by (rule load_le_same_outside [OF w]) simp
  have "heap_ok m2 h1 R1"
    by (rule heap_ok_frame [OF r(1) c(7)]) (use r(7,8) in \<open>unfold table_bytes_def [of h1, symmetric] r(4), blast\<close>)
  then have hk: "heap_ok (kmem k') h1 R1"
    by (rule heap_ok_frame [OF _ w]) (use r(8) in \<open>unfold table_bytes_def [of h1, symmetric] r(4), blast\<close>)
  have "main_heap k' = h1" "page_slab k' = ?s" "user_space k' = ?u" by (subst k', simp)+
  then have "process_pools k' R1"
    using assms(1) hk r(2-5) unfolding process_pools_def by (simp, blast)
  moreover have "pm_at (kmem k') ?s p = pm" using root c(5) by (simp add: pm_at_def)
  moreover have "?T \<inter> pool_bytes ?s = {}" using r(8) by blast
  note others = other_manager_kept [OF _ _ c(5) r(6) this c(8,10) ko]
  moreover have "same_outside (?T \<union> region p 16 \<union> pool_bytes ?s \<union> slab_header ?u) (kmem k) (kmem k')" (is "same_outside ?W _ _")
  proof -
    have "same_outside ?W (kmem k) m1" by (rule same_outside_mono [OF r(6)]) blast
    also have "same_outside ?W m1 m2" by (rule same_outside_mono [OF c(7)]) blast
    also have "same_outside ?W m2 (kmem k')"
    proof (rule same_outside_mono)
      show "same_outside (slab_header ?u \<union> pool_bytes ?s) m2 (kmem k')" using c(3) unfolding user_mapping_def c(1) by simp
    qed blast
    finally show ?thesis .
  qed
  ultimately show thesis
    using that [OF c(2), of fs R1] c(4) ok as root others k' by auto
qed

section \<open>Copying into an address space\<close>

definition frame_addr :: "addr list \<Rightarrow> nat \<Rightarrow> addr" where
  \<comment> \<open>the physical address of byte \<open>j\<close> of a process\<close>
  "frame_addr fs j = fs ! (j div 4096) + of_nat (j mod 4096)"

definition frame_bytes :: "addr list \<Rightarrow> addr set" where
  "frame_bytes fs = (\<Union>f \<in> set fs. region f 4096)"

lemma frame_addr_in: "j < 4096 * length fs \<Longrightarrow> frame_addr fs j \<in> frame_bytes fs"
  unfolding frame_addr_def frame_bytes_def
  by (rule UN_I [OF nth_mem region_offset]) (simp_all add: less_mult_imp_div_less mult.commute)

lemma frame_addr_inj:
  assumes apart: "\<And>i j. i < length fs \<Longrightarrow> j < length fs \<Longrightarrow> i \<noteq> j \<Longrightarrow> region (fs ! i) 4096 \<inter> region (fs ! j) 4096 = {}"
    and "i < 4096 * length fs" "j < 4096 * length fs" and eq: "frame_addr fs i = frame_addr fs j"
  shows "i = j"
proof -
  have d: "i div 4096 < length fs" "j div 4096 < length fs" using assms(2,3) by (simp_all add: less_mult_imp_div_less mult.commute)
  have "frame_addr fs i \<in> region (fs ! (i div 4096)) 4096" "frame_addr fs j \<in> region (fs ! (j div 4096)) 4096"
    unfolding frame_addr_def by (rule region_offset; simp)+
  then have q: "i div 4096 = j div 4096" using apart [OF d] eq by fastforce
  then have "(of_nat (i mod 4096) :: u64) = of_nat (j mod 4096)" using eq by (simp add: frame_addr_def)
  then have "unat (of_nat (i mod 4096) :: u64) = unat (of_nat (j mod 4096) :: u64)" by simp
  then have "i mod 4096 = j mod 4096" by (simp add: unat_of_nat64)
  with q show ?thesis by (metis mult_div_mod_eq)
qed

lemma user_va:
  assumes "j < 4096 * 2 ^ 18"
  shows "unat (0x80000000 + of_nat j :: u64) = 2 ^ 31 + j" and "page_index (0x80000000 + of_nat j) = j div 4096"
    and "(0x80000000 + of_nat j :: u64) mod 0x1000 = of_nat (j mod 4096)"
proof -
  show u: "unat (0x80000000 + of_nat j :: u64) = 2 ^ 31 + j" using assms by (simp add: unat_add64 unat_of_nat64)
  then show "page_index (0x80000000 + of_nat j) = j div 4096" by (simp add: page_index_def)
  show "(0x80000000 + of_nat j :: u64) mod 0x1000 = of_nat (j mod 4096)"
  proof -
    have "(2147483648 + j) mod 4096 = j mod 4096" using mod_mult_self3 [of 524288 4096 j] by simp
    with u show ?thesis by (simp add: unat_eq_iff unat_mod64 unat_of_nat64)
  qed
qed

definition running :: "kernel \<Rightarrow> mem \<Rightarrow> addr list \<Rightarrow> bool" where
  \<comment> \<open>with the memory \<open>m\<close> the address space with the frames \<open>fs\<close> is in force\<close>
  "running k m fs \<longleftrightarrow> SCTLR_EL1 (regs k) AND 1 \<noteq> 0 \<and> address_space m (TTBR0_EL1 (regs k)) fs \<and> length fs \<le> 2 ^ 18"

lemma vread_kernel: "running k m fs \<Longrightarrow> unat va < 2 ^ 31 \<Longrightarrow> vread (k\<lparr>kmem := m\<rparr>) va = Some (m va)"
  by (simp add: running_def vread_def address_space_def kernel_map_def)

lemma user_walk:
  assumes "running k m fs" and "j < 4096 * length fs"
  shows "pt_walk m (TTBR0_EL1 (regs k)) (0x80000000 + of_nat j) = Some \<lparr>out_address = frame_addr fs j, user_access = True, write_protected = False\<rparr>"
proof -
  have j: "j < 4096 * 2 ^ 18" "j div 4096 < length fs" using assms by (simp_all add: running_def less_mult_imp_div_less mult.commute)
  have "unat (0x80000000 + of_nat j :: u64) < 2 ^ 39" using user_va(1) [OF j(1)] j(1) by simp
  then show ?thesis using assms(1) j(2) user_va [OF j(1)] by (simp add: running_def address_space_def frame_addr_def)
qed

lemma vread_user: "running k m fs \<Longrightarrow> j < 4096 * length fs \<Longrightarrow> vread (k\<lparr>kmem := m\<rparr>) (0x80000000 + of_nat j) = Some (m (frame_addr fs j))"
  using user_walk [of k m fs j] by (simp add: vread_def running_def)

lemma vwrite_user:
  "running k m fs \<Longrightarrow> j < 4096 * length fs \<Longrightarrow>
    vwrite (k\<lparr>kmem := m\<rparr>) (0x80000000 + of_nat j) c = Some (k\<lparr>kmem := m(frame_addr fs j := c)\<rparr>)"
  using user_walk [of k m fs j] by (simp add: vwrite_def running_def)

lemma vcopy_into_frames:
  assumes run: "\<And>m'. same_outside (frame_bytes fs) m m' \<Longrightarrow> running k m' fs"
    and apart: "\<And>i j. i < length fs \<Longrightarrow> j < length fs \<Longrightarrow> i \<noteq> j \<Longrightarrow> region (fs ! i) 4096 \<inter> region (fs ! j) 4096 = {}"
    and src: "unat src + n \<le> 2 ^ 31" "region src n \<inter> frame_bytes fs = {}" and n: "n \<le> 4096 * length fs"
  shows "j \<le> n \<Longrightarrow> same_outside (frame_bytes fs) m m1 \<Longrightarrow> (\<And>i. i < j \<Longrightarrow> m1 (frame_addr fs i) = m (src + of_nat i)) \<Longrightarrow>
    \<exists>m'. vcopy_loop (n - j) (k\<lparr>kmem := m1\<rparr>) (0x80000000 + of_nat j) (src + of_nat j) = Some (k\<lparr>kmem := m'\<rparr>) \<and>
      same_outside (frame_bytes fs) m m' \<and> (\<forall>i < n. m' (frame_addr fs i) = m (src + of_nat i))"
proof (induction "n - j" arbitrary: j m1)
  case 0
  then show ?case by (intro exI [of _ m1]) auto
next
  case (Suc d)
  have j: "j < n" and d: "d = n - Suc j" using Suc.hyps(2) by simp_all
  let ?m2 = "m1(frame_addr fs j := m (src + of_nat j))"
  have in_src: "src + of_nat j \<in> region src n" using src(1) j by (intro region_offset) simp_all
  then have same: "m1 (src + of_nat j) = m (src + of_nat j)" using src(2) by (intro same_outsideD [OF Suc.prems(2)]) blast
  have "unat (src + of_nat j) < 2 ^ 31" using src(1) j by (simp add: unat_add64 unat_of_nat64)
  then have rd: "vread (k\<lparr>kmem := m1\<rparr>) (src + of_nat j) = Some (m (src + of_nat j))"
    using vread_kernel [OF run [OF Suc.prems(2)]] same by simp
  have jl: "j < 4096 * length fs" using j n by simp
  note wr = vwrite_user [OF run [OF Suc.prems(2)] jl, of "m (src + of_nat j)"]
  have w2: "same_outside (frame_bytes fs) m ?m2"
    by (rule same_outside_trans [OF Suc.prems(2) same_outside_fun_upd [OF frame_addr_in [OF jl]]])
  have "?m2 (frame_addr fs i) = m (src + of_nat i)" if "i < Suc j" for i
    using frame_addr_inj [OF apart, of i j] Suc.prems(3) [of i] that jl by (cases "i = j") auto
  then obtain m' where "vcopy_loop (n - Suc j) (k\<lparr>kmem := ?m2\<rparr>) (0x80000000 + of_nat (Suc j)) (src + of_nat (Suc j)) = Some (k\<lparr>kmem := m'\<rparr>)"
    "same_outside (frame_bytes fs) m m'" "\<forall>i < n. m' (frame_addr fs i) = m (src + of_nat i)"
    using Suc.hyps(1) [OF d _ w2] j by auto
  moreover have "n - j = Suc (n - Suc j)" using j by simp
  ultimately show ?case using rd wr by (intro exI [of _ m']) (simp add: ac_simps)
qed

lemma address_space_frame:
  assumes ok: "pt_ok m pm" and as: "address_space m (l1 pm) fs" and w: "same_outside X m m'" and off: "X \<inter> pool_bytes (pages_allocator pm) = {}"
  shows "address_space m' (l1 pm) fs"
  using as pt_frame(3) [OF ok w off] by (simp add: address_space_def)

lemma frames_of_pool:
  assumes "page_pool u" and "set fs \<subseteq> slab_slots u" and "distinct fs"
  shows "frame_bytes fs \<subseteq> pool_bytes u" and "frame_bytes fs \<inter> slab_header u = {}"
    and "i < length fs \<Longrightarrow> j < length fs \<Longrightarrow> i \<noteq> j \<Longrightarrow> region (fs ! i) 4096 \<inter> region (fs ! j) 4096 = {}"
    and "f \<in> slab_slots u - set fs \<Longrightarrow> region f 4096 \<inter> frame_bytes fs = {}"
proof -
  have wf: "wf_slab u" "unat (object_size u) = 4096" using assms(1) by (simp_all add: page_pool_def)
  note apart = slab_pool.objects_apart [OF wf(1), unfolded wf(2)] and off = slab_pool.objects_off_book [OF wf(1), unfolded wf(2)]
  show "frame_bytes fs \<subseteq> pool_bytes u" using assms(2) by (auto simp: frame_bytes_def pool_bytes_def wf(2) simp del: in_region)
  show "frame_bytes fs \<inter> slab_header u = {}" using assms(2) off by (auto simp: frame_bytes_def simp del: in_region)
  show "region (fs ! i) 4096 \<inter> region (fs ! j) 4096 = {}" if "i < length fs" "j < length fs" "i \<noteq> j"
    using that assms(2,3) by (intro apart) (auto simp: nth_eq_iff_index_eq dest: nth_mem)
  show "region f 4096 \<inter> frame_bytes fs = {}" if "f \<in> slab_slots u - set fs"
    using that assms(2) apart unfolding frame_bytes_def by blast
qed

lemma image_copied:
  assumes pp: "pt_ok (kmem k1) (pm_at (kmem k1) s p)" and as: "address_space (kmem k1) (load64 (kmem k1) p) fs" and s: "page_slab k1 = s"
    and u: "page_pool u" "set fs \<subseteq> slab_slots u" "distinct fs" "pool_bytes u \<inter> pool_bytes s = {}" "length fs \<le> 2 ^ 18"
    and ph: "unat (p_memsz (kmem k1) ph) \<le> 4096 * length fs"
    and src: "src = elf_file (kmem k1) elf + p_offset (kmem k1) ph" "unat src + unat (p_memsz (kmem k1) ph) \<le> 2 ^ 31"
      "region src (unat (p_memsz (kmem k1) ph)) \<inter> pool_bytes u = {}"
  obtains k2 m3 where "apply_paging k1 p = (k2, current_paging_manager k1)"
    and "elf_dump_program_virtual k2 elf ph JOB_BASE_USER = Some (k2\<lparr>kmem := m3\<rparr>)" and "same_outside (frame_bytes fs) (kmem k1) m3"
    and "\<forall>j < unat (p_memsz (kmem k1) ph). vread (k2\<lparr>kmem := m3\<rparr>) (JOB_BASE_USER + of_nat j) = Some (kmem k1 (src + of_nat j))"
proof -
  let ?pm = "pm_at (kmem k1) s p" and ?n = "unat (p_memsz (kmem k1) ph)" and ?m = "kmem k1"
  obtain k2 where k2: "apply_paging k1 p = (k2, current_paging_manager k1)" "kmem k2 = ?m" "TTBR0_EL1 (regs k2) = l1 ?pm"
    "SCTLR_EL1 (regs k2) = SCTLR_EL1 (regs k1) OR 1"
    by (auto simp: apply_paging_def paging_manager_apply_def paging_set_ttbr0_def paging_set_tcr_def paging_enable_def tlbi_vmalle1_def s)
  have one: "(SCTLR_EL1 (regs k1) OR 1) AND 1 \<noteq> (0 :: u64)" by (metis bit_or_iff bit_and_iff bit_1_iff bit_0_eq bot_apply bot_bool_def)
  have root: "l1 ?pm = load64 ?m p" "pages_allocator ?pm = s" by (simp_all add: pm_at_def)
  note fr = frames_of_pool [OF u(1-3)]
  have off: "frame_bytes fs \<inter> pool_bytes (pages_allocator ?pm) = {}" using fr(1) u(4) unfolding root(2) by blast
  have run: "running k2 m' fs" if "same_outside (frame_bytes fs) ?m m'" for m'
    using address_space_frame [OF pp _ that off] as u(5) one by (simp add: running_def k2(3,4) root(1))
  have sr: "region src ?n \<inter> frame_bytes fs = {}" using src(3) fr(1) by blast
  obtain m3 where m3: "vcopy_loop ?n (k2\<lparr>kmem := ?m\<rparr>) 0x80000000 src = Some (k2\<lparr>kmem := m3\<rparr>)" "same_outside (frame_bytes fs) ?m m3"
    "\<forall>i < ?n. m3 (frame_addr fs i) = ?m (src + of_nat i)"
    using vcopy_into_frames [OF run fr(3) src(2) sr ph, of ?m 0] by auto
  have kk: "k2\<lparr>kmem := ?m\<rparr> = k2" using k2(2) by (metis kernel.surjective kernel.update_convs(1))
  have "elf_dump_program_virtual k2 elf ph JOB_BASE_USER = Some (k2\<lparr>kmem := m3\<rparr>)"
    using m3(1) unfolding kk src(1) elf_dump_program_virtual_def k2(2) Let_def by simp
  moreover have "\<forall>j < ?n. vread (k2\<lparr>kmem := m3\<rparr>) (JOB_BASE_USER + of_nat j) = Some (?m (src + of_nat j))"
    using vread_user [OF run [OF m3(2)]] m3(3) ph by simp
  ultimately show thesis using that k2(1) m3(2) by blast
qed

lemma user_page_off:
  assumes "process_pools k R" and "kalloc (kmem k) (main_heap k) 16 = Some (m1, h1, p)" "p \<noteq> NULL" and f: "f \<in> slab_slots (user_space k)"
  shows "region f 4096 \<inter> (table_bytes (main_heap k) \<union> region p 16 \<union> pool_bytes (page_slab k) \<union> slab_header (user_space k)) = {}"
proof -
  let ?u = "user_space k" and ?T = "table_bytes (main_heap k)"
  obtain R1 where "heap_ok m1 h1 R1" "heap_extents (main_heap k) R \<subseteq> heap_extents h1 R1"
    "heap_bytes h1 = heap_bytes (main_heap k)" "table_bytes h1 = ?T" "heap_table_apart h1"
    "same_outside ?T (kmem k) m1" and off: "region p 16 \<inter> (pool_bytes (page_slab k) \<union> pool_bytes ?u \<union> ?T) = {}"
    "?T \<inter> (pool_bytes (page_slab k) \<union> pool_bytes ?u) = {}"
    using assms(1-3) by (rule process_alloc)
  have u: "wf_slab ?u" "unat (object_size ?u) = 4096" using assms(1) by (simp_all add: process_pools_def page_pool_def)
  have "region f 4096 \<subseteq> pool_bytes ?u" using f u(2) by (auto simp: pool_bytes_def simp del: in_region)
  moreover have "region f 4096 \<inter> slab_header ?u = {}" using slab_pool.objects_off_book [OF u(1) f] u(2) by simp
  ultimately show ?thesis using off pools_apart [OF assms(1)] by blast
qed

section \<open>Properties\<close>

text \<open>
  C2. The address space of a new process, in a kernel whose heap and pools are well formed and have
  room: \<open>job_create_paging\<close> returns; in the tables it builds, the hardware walk takes page \<open>i\<close> from
  0x80000000 on to the \<open>i\<close>-th of as many frames as the size and one more page need, readable and
  writable for the user, the first 2 GB to themselves for the kernel only, and nothing else anywhere.
  The frames are distinct pages that no process had, and are marked used; every other page-table
  tree of the pool keeps all its translations; and the heap and pools are well formed again.
\<close>
theorem job_create_paging_isolates:
  assumes "process_pools k R" and "kalloc (kmem k) (main_heap k) 16 = Some (m1, h1, p)" "p \<noteq> NULL"
    and "0 \<le> sz" "sz \<le> 2 ^ 30 - 4096" and "n = ceil_div (nat sz + 4096) 4096"
    and "2 * n + 1 \<le> free_tables (kmem k) (page_slab k)"
    and "n \<le> card (slab_slots (user_space k) - slab_live (kmem k) (user_space k))"
  shows "\<exists>k' fs R'. job_create_paging k slab_ptr sz = Some (k', p, 4096 * int n) \<and>
    pt_ok (kmem k') (pm_at (kmem k') (page_slab k) p) \<and> address_space (kmem k') (load64 (kmem k') p) fs \<and> length fs = n \<and>
    distinct fs \<and> set fs \<subseteq> slab_slots (user_space k) - slab_live (kmem k) (user_space k) \<and>
    slab_live (kmem k') (user_space k) = set fs \<union> slab_live (kmem k) (user_space k) \<and>
    process_pools k' R' \<and>
    (\<forall>pm. pages_allocator pm = page_slab k \<and> pt_ok (kmem k) pm \<longrightarrow>
       pt_ok (kmem k') pm \<and> (\<forall>va. unat va < 2 ^ 39 \<longrightarrow> pt_walk (kmem k') (l1 pm) va = pt_walk (kmem k) (l1 pm) va))"
  using create_paging_isolates [OF assms, of slab_ptr] by metis

lemma example_start:
  obtains k R m1 h1 p where "start_pools (job_example\<lparr>kmem := \<lambda>_. 0\<rparr>) 0x40100000 = Some k" and "process_pools k R"
    and "free_tables (kmem k) (page_slab k) = 4096" "card (slab_slots (user_space k) - slab_live (kmem k) (user_space k)) = 4096"
    and "kalloc (kmem k) (main_heap k) 16 = Some (m1, h1, p)" "p \<noteq> NULL"
proof -
  have "4096 dvd unat (0x40100000 :: u64)" by simp
  then obtain k R where k: "start_pools (job_example\<lparr>kmem := \<lambda>_. 0\<rparr>) 0x40100000 = Some k" "process_pools k R"
    "free_tables (kmem k) (page_slab k) = 4096" "card (slab_slots (user_space k) - slab_live (kmem k) (user_space k)) = 4096"
    "packed_heap (kmem k) (main_heap k) R 4111" "unat (blocks (main_heap k)) = 65536"
    by (rule start_process_pools [of _ "job_example\<lparr>kmem := \<lambda>_. 0\<rparr>"]) auto
  show thesis using packed_alloc_16 [OF k(5,6)] that [OF k(1-4)] by metis
qed

theorem job_create_paging_isolates_witness:
  "\<exists>k k' p fs. start_pools (job_example\<lparr>kmem := \<lambda>_. 0\<rparr>) 0x40100000 = Some k \<and>
    job_create_paging k 0x5000 0x2345 = Some (k', p, 0x4000) \<and> address_space (kmem k') (load64 (kmem k') p) fs \<and> length fs = 4"
proof -
  obtain k R m1 h1 p where k: "start_pools (job_example\<lparr>kmem := \<lambda>_. 0\<rparr>) 0x40100000 = Some k" "process_pools k R"
    "free_tables (kmem k) (page_slab k) = 4096" "card (slab_slots (user_space k) - slab_live (kmem k) (user_space k)) = 4096"
    "kalloc (kmem k) (main_heap k) 16 = Some (m1, h1, p)" "p \<noteq> NULL"
    by (rule example_start)
  have n: "4 = ceil_div (nat 0x2345 + 4096) 4096" by (simp add: ceil_div_def)
  show ?thesis
    using job_create_paging_isolates [OF k(2,5,6) _ _ n, of "0x5000"] k(1,3,4) by auto
qed

text \<open>
  C3. Loading a program into the address space of a new process, as \<open>job_create_from_file\<close> does, in a kernel
  whose heap and pools are well formed and have room, from a file buffer below 2 GB:
  \<open>job_create_paging\<close>, \<open>paging_manager_apply\<close> and \<open>elf_dump_program_content\<close> return, and then the process reads at its base
  address the bytes of the file at the offset of the program header, \<open>p_memsz\<close> of them. The pages of
  the other processes keep their contents and their page tables keep their translations.
\<close>
theorem process_image_loaded:
  assumes "process_pools k R" and "kalloc (kmem k) (main_heap k) 16 = Some (m1, h1, p)" "p \<noteq> NULL"
    and "sz = unat (p_memsz (kmem k) ph)" "sz \<le> 2 ^ 30 - 4096" and "n = ceil_div (sz + 4096) 4096"
    and "2 * n + 1 \<le> free_tables (kmem k) (page_slab k)"
    and "n \<le> card (slab_slots (user_space k) - slab_live (kmem k) (user_space k))"
    and "src = elf_file (kmem k) elf + p_offset (kmem k) ph" and "unat src + sz \<le> 2 ^ 31"
    and "(region elf 120 \<union> region ph 56 \<union> region src sz) \<inter>
      (table_bytes (main_heap k) \<union> region p 16 \<union> pool_bytes (page_slab k) \<union> pool_bytes (user_space k)) = {}"
  shows "\<exists>k1 k2 k3. job_create_paging k slab_ptr (c_int (p_memsz (kmem k) ph)) = Some (k1, p, 4096 * int n) \<and>
    apply_paging k1 p = (k2, current_paging_manager k) \<and> elf_dump_program_virtual k2 elf ph JOB_BASE_USER = Some k3 \<and>
    (\<forall>j < sz. vread k3 (JOB_BASE_USER + of_nat j) = Some (kmem k (src + of_nat j))) \<and>
    (\<forall>f \<in> slab_live (kmem k) (user_space k). \<forall>b \<in> region f 4096. kmem k3 b = kmem k b) \<and>
    (\<forall>pm. pages_allocator pm = page_slab k \<and> pt_ok (kmem k) pm \<longrightarrow>
       (\<forall>va. unat va < 2 ^ 39 \<longrightarrow> pt_walk (kmem k3) (l1 pm) va = pt_walk (kmem k) (l1 pm) va))"
proof -
  let ?s = "page_slab k" and ?u = "user_space k"
  let ?W = "table_bytes (main_heap k) \<union> region p 16 \<union> pool_bytes ?s \<union> slab_header ?u"
  have ci: "c_int (p_memsz (kmem k) ph) = int sz" using assms(4,5) by (simp add: c_int_small)
  have sz: "0 \<le> int sz" "int sz \<le> 2 ^ 30 - 4096" "n = ceil_div (nat (int sz) + 4096) 4096" using assms(5,6) by simp_all
  obtain k1 fs R' where c: "job_create_paging k slab_ptr (int sz) = Some (k1, p, 4096 * int n)"
    "pt_ok (kmem k1) (pm_at (kmem k1) ?s p)" "address_space (kmem k1) (load64 (kmem k1) p) fs" "length fs = n"
    "distinct fs" "set fs \<subseteq> slab_slots ?u - slab_live (kmem k) ?u"
    "slab_live (kmem k1) ?u = set fs \<union> slab_live (kmem k) ?u" "process_pools k1 R'"
    "\<forall>pm. pages_allocator pm = ?s \<and> pt_ok (kmem k) pm \<longrightarrow>
       pt_ok (kmem k1) pm \<and> (\<forall>va. unat va < 2 ^ 39 \<longrightarrow> pt_walk (kmem k1) (l1 pm) va = pt_walk (kmem k) (l1 pm) va)"
    "same_outside ?W (kmem k) (kmem k1)" "k1 = k\<lparr>main_heap := h1, kmem := kmem k1, regs := regs k1\<rparr>"
    using assms(1-3) sz assms(7,8) by (rule create_paging_isolates [where slab_ptr = slab_ptr])
  have k1: "page_slab k1 = ?s" "current_paging_manager k1 = current_paging_manager k" by (subst c(11), simp)+
  have hu: "slab_header ?u \<subseteq> pool_bytes ?u" by (simp add: pool_bytes_def)
  have off: "region elf 120 \<inter> ?W = {}" "region ph 56 \<inter> ?W = {}" "region src sz \<inter> ?W = {}" "region src sz \<inter> pool_bytes ?u = {}"
    using assms(11) hu by blast+
  have "region (fld elf 0) 8 \<subseteq> region elf 120" "region (fld ph 8) 8 \<subseteq> region ph 56" "region (fld ph 40) 8 \<subseteq> region ph 56"
    by (rule fld_sub; simp)+
  then have "region (fld elf 0) 8 \<inter> ?W = {}" "region (fld ph 8) 8 \<inter> ?W = {}" "region (fld ph 40) 8 \<inter> ?W = {}"
    using off(1,2) by blast+
  note d = this
  have same: "elf_file (kmem k1) elf = elf_file (kmem k) elf" "p_offset (kmem k1) ph = p_offset (kmem k) ph" "p_memsz (kmem k1) ph = p_memsz (kmem k) ph"
    unfolding elf_file_def p_offset_def p_memsz_def by (rule load_le_same_outside [OF c(10)], rule d, simp)+
  have pu: "page_pool ?u" and apart: "pool_bytes ?u \<inter> pool_bytes ?s = {}" using assms(1) pools_apart [OF assms(1)] by (simp_all add: process_pools_def)
  have fs: "set fs \<subseteq> slab_slots ?u" using c(6) by blast
  have n18: "length fs \<le> 2 ^ 18" using need_slots_eq(4) [OF sz(1,2)] c(4) sz(3) by simp
  have len: "unat (p_memsz (kmem k1) ph) \<le> 4096 * length fs"
    unfolding same(3) assms(4) [symmetric] c(4) assms(6) using ceil_div_ge [of 4096 "sz + 4096"] by simp
  note sr = assms(9,10) off(4)
  obtain k2 m3 where m3: "apply_paging k1 p = (k2, current_paging_manager k1)"
    "elf_dump_program_virtual k2 elf ph JOB_BASE_USER = Some (k2\<lparr>kmem := m3\<rparr>)" "same_outside (frame_bytes fs) (kmem k1) m3"
    "\<forall>j < sz. vread (k2\<lparr>kmem := m3\<rparr>) (JOB_BASE_USER + of_nat j) = Some (kmem k1 (src + of_nat j))"
    by (rule image_copied [OF c(2,3) k1(1) pu fs c(5) apart n18 len, of src elf, unfolded same, folded assms(4), OF sr])
  note fr = frames_of_pool [OF pu fs c(5)]
  have "kmem k1 (src + of_nat j) = kmem k (src + of_nat j)" if "j < sz" for j
  proof (rule same_outsideD [OF c(10)])
    have "src + of_nat j \<in> region src sz" by (rule region_offset) (use that assms(10) in simp_all)
    then show "src + of_nat j \<notin> ?W" using off(3) by blast
  qed
  then have img: "\<forall>j < sz. vread (k2\<lparr>kmem := m3\<rparr>) (JOB_BASE_USER + of_nat j) = Some (kmem k (src + of_nat j))" using m3(4) by simp
  have wf: "wf_slab ?u" using pu by (simp add: page_pool_def)
  have "m3 b = kmem k b" if "f \<in> slab_live (kmem k) ?u" "b \<in> region f 4096" for f b
  proof -
    have f: "f \<in> slab_slots ?u" "f \<notin> set fs" using that(1) c(6) slab_pool.live_slots [OF wf] by blast+
    have "m3 b = kmem k1 b" using fr(4) [of f] f that(2) by (intro same_outsideD [OF m3(3)]) blast
    also have "\<dots> = kmem k b" using user_page_off [OF assms(1-3) f(1)] that(2) by (intro same_outsideD [OF c(10)]) blast
    finally show ?thesis .
  qed
  moreover have "pt_walk m3 (l1 pm) va = pt_walk (kmem k) (l1 pm) va" if pm: "pages_allocator pm = ?s" "pt_ok (kmem k) pm" "unat va < 2 ^ 39" for pm va
  proof -
    have "frame_bytes fs \<inter> pool_bytes (pages_allocator pm) = {}" using fr(1) apart pm(1) by auto
    then have "pt_walk m3 (l1 pm) va = pt_walk (kmem k1) (l1 pm) va" using c(9) pm by (intro pt_frame(3) [OF _ m3(3)]) auto
    then show ?thesis using c(9) pm by simp
  qed
  ultimately show ?thesis
    using c(1) m3(1,2) img ci k1(2) by (intro exI [of _ k1] exI [of _ k2] exI [of _ "k2\<lparr>kmem := m3\<rparr>"]) (simp del: in_region)
qed


definition example_image :: "mem \<Rightarrow> mem" where
  \<comment> \<open>an ELF structure at 0x1000 for the file at 0x1200, a program header of 16 bytes at 0x1100\<close>
  "example_image m = store64 (store64 (store64 (m(fld 0x1000 0x203 := 0x2a)) (fld 0x1000 0) 0x1200) (fld 0x1000 0x108) 0) (fld 0x1000 0x128) 16"

lemma example_image_frame: "same_outside (region 0x1000 0x1000) m (example_image m)"
proof -
  let ?X = "region 0x1000 0x1000 :: addr set" and ?m0 = "m(fld 0x1000 0x203 := 0x2a)"
  let ?m1 = "store64 ?m0 (fld 0x1000 0) 0x1200"
  let ?m2 = "store64 ?m1 (fld 0x1000 0x108) 0"
  have "same_outside ?X m ?m0" by (rule same_outside_fun_upd, rule fld_byte) simp_all
  also have "same_outside ?X ?m0 ?m1" by (rule store_fld_outside) simp_all
  also have "same_outside ?X ?m1 ?m2" by (rule store_fld_outside) simp_all
  also have "same_outside ?X ?m2 (example_image m)" unfolding example_image_def by (rule store_fld_outside) simp_all
  finally show ?thesis .
qed

lemma example_image_fields:
  "elf_file (example_image m) 0x1000 = 0x1200" "p_offset (example_image m) (fld 0x1000 0x100) = 0" "p_memsz (example_image m) (fld 0x1000 0x100) = 16"
  "example_image m (fld 0x1000 0x203) = 0x2a"
  unfolding example_image_def elf_file_def p_offset_def p_memsz_def fld_fld by (simp_all add: elf_stores del: fld_0)

theorem process_image_loaded_witness:
  "\<exists>k0 k k1 k2 k3 p. start_pools (job_example\<lparr>kmem := \<lambda>_. 0\<rparr>) 0x40100000 = Some k0 \<and> k = k0\<lparr>kmem := example_image (kmem k0)\<rparr> \<and>
    job_create_paging k 0x5000 (c_int (p_memsz (kmem k) (fld 0x1000 0x100))) = Some (k1, p, 0x2000) \<and>
    apply_paging k1 p = (k2, current_paging_manager k) \<and> elf_dump_program_virtual k2 0x1000 (fld 0x1000 0x100) JOB_BASE_USER = Some k3 \<and>
    vread k3 0x80000003 = Some 0x2a"
proof -
  let ?X = "region 0x1000 0x1000 :: addr set" and ?ph = "fld 0x1000 0x100 :: addr"
  have "4096 dvd unat (0x40100000 :: u64)" by simp
  then obtain k0 R where k0: "start_pools (job_example\<lparr>kmem := \<lambda>_. 0\<rparr>) 0x40100000 = Some k0" "process_pools k0 R"
    "free_tables (kmem k0) (page_slab k0) = 4096" "card (slab_slots (user_space k0) - slab_live (kmem k0) (user_space k0)) = 4096"
    "packed_heap (kmem k0) (main_heap k0) R 4111" "unat (blocks (main_heap k0)) = 65536"
    "heap_table (main_heap k0) = 0x40100000" "heap_start_address (main_heap k0) = 0x40180000"
    "pool_bytes (user_space k0) \<subseteq> region 0x7ffff000 0x1001000"
    by (rule start_process_pools [of _ "job_example\<lparr>kmem := \<lambda>_. 0\<rparr>"]) auto
  have hb: "?X \<inter> heap_bytes (main_heap k0) = {}" "?X \<inter> table_bytes (main_heap k0) = {}" "?X \<inter> region 0x7ffff000 0x1001000 = {}"
    unfolding heap_bytes_def table_bytes_def k0(6-8) by (rule regions_apart; simp)+
  have "pool_bytes (page_slab k0) \<subseteq> heap_bytes (main_heap k0)" using page_slab_in_heap [OF k0(2)] .
  then have off: "?X \<inter> (table_bytes (main_heap k0) \<union> pool_bytes (page_slab k0) \<union> pool_bytes (user_space k0)) = {}" using hb k0(9) by blast
  let ?m = "example_image (kmem k0)"
  let ?k = "k0\<lparr>kmem := ?m\<rparr>"
  note fr = process_pools_frame [OF k0(2) example_image_frame off]
  have pk: "packed_heap ?m (main_heap k0) R 4111" using k0(5) fr(1) by (simp add: packed_heap_def process_pools_def)
  obtain m1 h1 p where a: "kalloc ?m (main_heap k0) 16 = Some (m1, h1, p)" "p \<noteq> NULL" "region p 16 \<subseteq> heap_bytes (main_heap k0)"
    by (rule packed_alloc_16 [OF pk k0(6)])
  have "region (0x1000 :: addr) 120 \<subseteq> ?X" "region ?ph 56 \<subseteq> ?X" "region (fld 0x1000 0x200 :: addr) 16 \<subseteq> ?X"
    by (rule region_mono, simp) (rule fld_sub; simp)+
  then have kept: "(region 0x1000 120 \<union> region ?ph 56 \<union> region (fld 0x1000 0x200) 16) \<inter>
      (table_bytes (main_heap k0) \<union> region p 16 \<union> pool_bytes (page_slab k0) \<union> pool_bytes (user_space k0)) = {}"
    using off a(3) hb(1) by blast
  have src: "fld 0x1000 0x200 = elf_file ?m 0x1000 + p_offset ?m ?ph" unfolding example_image_fields by (simp add: fld_def)
  have sz: "16 = unat (p_memsz ?m ?ph)" and n: "2 = ceil_div (16 + 4096) 4096" by (simp_all add: example_image_fields ceil_div_def)
  have free: "2 * 2 + 1 \<le> free_tables (kmem ?k) (page_slab ?k)" "2 \<le> card (slab_slots (user_space ?k) - slab_live (kmem ?k) (user_space ?k))"
    using k0(3,4) fr(2,3) by (simp_all add: free_tables_def)
  have b: "kalloc (kmem ?k) (main_heap ?k) 16 = Some (m1, h1, p)" "(16 :: nat) = unat (p_memsz (kmem ?k) ?ph)" "(16 :: nat) \<le> 2 ^ 30 - 4096"
    "fld 0x1000 0x200 = elf_file (kmem ?k) 0x1000 + p_offset (kmem ?k) ?ph" "unat (fld 0x1000 0x200 :: addr) + 16 \<le> 2 ^ 31"
    using a(1) sz src by (simp_all add: fld_def)
  have kept': "(region 0x1000 120 \<union> region ?ph 56 \<union> region (fld 0x1000 0x200) 16) \<inter>
      (table_bytes (main_heap ?k) \<union> region p 16 \<union> pool_bytes (page_slab ?k) \<union> pool_bytes (user_space ?k)) = {}" using kept by simp
  obtain k1 k2 k3 where r: "job_create_paging ?k 0x5000 (c_int (p_memsz (kmem ?k) ?ph)) = Some (k1, p, 4096 * int 2)"
    "apply_paging k1 p = (k2, current_paging_manager ?k)" "elf_dump_program_virtual k2 0x1000 ?ph JOB_BASE_USER = Some k3"
    "\<forall>j < 16. vread k3 (JOB_BASE_USER + of_nat j) = Some (kmem ?k (fld 0x1000 0x200 + of_nat j))"
    using process_image_loaded [OF fr(1) b(1) a(2) b(2,3) n free b(4,5) kept', of "0x5000"] by blast
  have "vread k3 0x80000003 = Some 0x2a"
    using r(4) [rule_format, of 3] example_image_fields(4) [of "kmem k0"] by (simp add: fld_def)
  then show ?thesis using k0(1) r(1-3) by (intro exI [of _ k0] exI [of _ ?k] exI [of _ k1] exI [of _ k2] exI [of _ k3] exI [of _ p]) simp
qed

end
