(* ===== verification/Exceptions_Properties.thy ===== *)
theory Exceptions_Properties
  imports Exceptions
begin

text \<open>
  The exit of a process: system call 10 and the switches that follow it.
\<close>

section \<open>The current job terminates\<close>

lemma job_terminate_ring:
  assumes inv: "jobs_heap k R (c # rest)"
  shows "jobs_heap (job_terminate k) R (c # rest)" and "get_status (kmem (job_terminate k)) c = TERMINATED"
    and "j \<in> set rest \<Longrightarrow> job_at (kmem (job_terminate k)) j = job_at (kmem k) j"
proof -
  let ?m = "set_status (kmem k) c TERMINATED"
  have cur: "current_job k = c" by (rule jobs_heap_current [OF inv])
  have w: "same_outside (region c 392) (kmem k) ?m" by (rule same_outside_mono [OF set_outside(1) job_fields_sub])
  have c: "c \<in> set (c # rest)" by simp
  note ring = job_in_ring [OF inv c]
  have notin: "c \<notin> set rest" using jobs_okD(4) [OF jobs_heapD(1) [OF inv]] by simp
  have others: "job_at ?m j = job_at (kmem k) j" if "j \<in> set rest" for j
    by (rule job_at_frame [OF w ring(4)]) (use that notin in auto)
  have "get_next ?m j = get_next (kmem k) j \<and> get_paging ?m j = get_paging (kmem k) j" if "j \<in> set (c # rest)" for j
    using that others [of j] job_at_set(1) [of "kmem k" c TERMINATED] by (cases "j = c") (simp_all add: job_at_sel)
  then have "jobs_heap (k\<lparr>kmem := ?m\<rparr>) R (c # rest)" by (intro jobs_heap_write [OF inv w ring(2,3)]) blast
  then show "jobs_heap (job_terminate k) R (c # rest)" by (simp add: job_terminate_def cur)
  show "get_status (kmem (job_terminate k)) c = TERMINATED" by (simp add: job_terminate_def cur job_at_sel)
  show "j \<in> set rest \<Longrightarrow> job_at (kmem (job_terminate k)) j = job_at (kmem k) j" using others by (simp add: job_terminate_def cur)
qed

lemma status_same_job:
  assumes "same_job m m' j"
  shows "get_status m' j = get_status m j"
  using arg_cong [OF assms [unfolded same_job_def], of j_status] by (simp add: job_at_sel)

section \<open>Properties\<close>

text \<open>
  C10. The exit of a process. On the system call 10 of the current job \<open>c\<close>, the exception handler returns with the
  return address and the saved state it found; \<open>c\<close> is TERMINATED and stays in the ring, the other jobs are
  unchanged. The next switch goes to the first RUNNING job \<open>r\<close> behind it. When a later switch passes
  \<open>c\<close>, which is the next one if no job between \<open>r\<close> and \<open>c\<close> is RUNNING, \<open>c\<close> leaves the ring and its structure is
  free.
\<close>
theorem exit_ends_process:
  assumes "jobs_heap (kget st) R (c # before @ r # after)"
    and "\<forall>j \<in> set before. get_status (kmem (kget st)) j \<noteq> RUNNING" and "get_status (kmem (kget st)) r = RUNNING"
    and "drop_bit 26 esr AND 0x3f = (0x15 :: u64)" and "esr AND 0xffff = 10"
  shows "\<exists>st' k1 R1. exceptions_distributor sy blk lf f junk esr st x30 = Some st' \<and>
    ELR_EL1 (regs (kget st')) = ELR_EL1 (regs (kget st)) \<and> SPSR_EL1 (regs (kget st')) = SPSR_EL1 (regs (kget st)) \<and>
    jobs_heap (kget st') R (c # before @ r # after) \<and> get_status (kmem (kget st')) c = TERMINATED \<and>
    (\<forall>j \<in> set (before @ r # after). job_at (kmem (kget st')) j = job_at (kmem (kget st)) j) \<and>
    job_forward (kget st') = Some k1 \<and> job_get_current k1 = r \<and>
    jobs_heap k1 R1 (r # after @ c # filter (\<lambda>j. get_status (kmem (kget st)) j \<noteq> TERMINATED) before) \<and>
    get_status (kmem k1) c = TERMINATED \<and>
    ((\<forall>j \<in> set after. get_status (kmem (kget st)) j \<noteq> RUNNING) \<longrightarrow>
      (\<exists>k2 R2 js. job_forward k1 = Some k2 \<and> job_get_current k2 = r \<and> jobs_heap k2 R2 js \<and> c \<notin> set js \<and> c \<notin> slab_live (kmem k2) (job_slab k2)))"
proof -
  let ?k = "kget st" and ?k' = "job_terminate (kget st)"
  let ?fb = "filter (\<lambda>j. get_status (kmem ?k) j \<noteq> TERMINATED) before"
  note t = job_terminate_ring [OF assms(1)]
  have status: "get_status (kmem ?k') j = get_status (kmem ?k) j" if "j \<in> set (before @ r # after)" for j
    using arg_cong [OF t(3) [OF that], of j_status] by (simp add: job_at_sel)
  have regs: "regs ?k' = regs ?k" by (simp add: job_terminate_def)
  have run: "exceptions_distributor sy blk lf f junk esr st x30 = Some (kput st ?k')"
    using assms(4,5) by (simp add: exceptions_distributor_def exceptions_handle_syscall_def kget_def kput_def job_terminate_def)
  have kp: "kget (kput st k) = k" for k by (simp add: kget_def kput_def)
  have ring: "(before @ r # after) @ [c] = before @ r # (after @ [c])" by simp
  have nb: "\<forall>j \<in> set before. get_status (kmem ?k') j \<noteq> RUNNING" and rr: "get_status (kmem ?k') r = RUNNING"
    using assms(2,3) status by simp_all
  have fb: "filter (\<lambda>j. get_status (kmem ?k') j \<noteq> TERMINATED) before = ?fb" using status by (intro filter_cong) simp_all
  obtain k1 R1 where k1: "job_forward ?k' = Some k1" "current_job k1 = r" "jobs_heap k1 R1 (r # (after @ [c]) @ ?fb)"
    "\<forall>j \<in> set (r # (after @ [c]) @ ?fb). same_job (kmem ?k') (kmem k1) j"
    using job_forward_eq [OF t(1) ring nb rr] unfolding fb by blast
  have st1: "get_status (kmem k1) j = get_status (kmem ?k') j" if "j \<in> set (r # (after @ [c]) @ ?fb)" for j
    using status_same_job k1(4) that by blast
  have c1: "get_status (kmem k1) c = TERMINATED" using st1 [of c] t(2) by simp
  have dist: "distinct (c # before @ r # after)" using jobs_okD(4) [OF jobs_heapD(1) [OF assms(1)]] .
  have second: "\<exists>k2 R2 js. job_forward k1 = Some k2 \<and> job_get_current k2 = r \<and> jobs_heap k2 R2 js \<and> c \<notin> set js \<and> c \<notin> slab_live (kmem k2) (job_slab k2)"
    if idle: "\<forall>j \<in> set after. get_status (kmem ?k) j \<noteq> RUNNING"
  proof -
    have none: "\<forall>j \<in> set ((after @ [c]) @ ?fb). get_status (kmem k1) j \<noteq> RUNNING"
      using st1 status t(2) idle assms(2) by auto
    have r1: "get_status (kmem k1) r = RUNNING" using st1 [of r] rr by simp
    have ring1: "((after @ [c]) @ ?fb) @ [r] = ((after @ [c]) @ ?fb) @ r # []" by simp
    obtain k2 R2 where k2: "job_forward k1 = Some k2" "current_job k2 = r"
      "jobs_heap k2 R2 (r # [] @ filter (\<lambda>j. get_status (kmem k1) j \<noteq> TERMINATED) ((after @ [c]) @ ?fb))" (is "jobs_heap k2 R2 ?js")
      using job_forward_eq [OF k1(3) ring1 none r1] by blast
    have "c \<notin> set ?js" using c1 dist by auto
    moreover from this have "c \<notin> slab_live (kmem k2) (job_slab k2)" using jobs_okD(3) [OF jobs_heapD(1) [OF k2(3)]] by blast
    ultimately show ?thesis using k2 unfolding job_get_current_def by blast
  qed
  show ?thesis
    using run t k1 c1 second regs by (intro exI [of _ "kput st ?k'"] exI [of _ k1] exI [of _ R1]) (simp add: kp job_get_current_def)
qed


theorem exit_ends_process_witness:
  "\<forall>sy lf f junk x30 (blk :: unit block). \<exists>s a b st' k1 k2. current_job (kern s) = a \<and>
    exceptions_distributor sy blk lf f junk 0x5400000a ((), s) x30 = Some st' \<and> job_forward (kget st') = Some k1 \<and>
    job_get_current k1 = b \<and> a \<noteq> b \<and> job_forward k1 = Some k2 \<and> a \<notin> slab_live (kmem k2) (job_slab k2)"
proof (intro allI)
  fix sy lf f junk x30 and blk :: "unit block"
  obtain k a b where k: "jobs_heap k job_example_runs [a, b]" "job_slab k = job_example_slab"
    "get_status (kmem k) a = RUNNING" "get_status (kmem k) b = RUNNING" "files_ok (job_at (kmem k) b) [] 0"
    "j_x (job_at (kmem k) b) = replicate 31 0" "main_heap k = main_heap job_example"
    by (rule two_jobs)
  have cur: "current_job k = a" "a \<noteq> b"
    using jobs_heap_current [OF k(1)] jobs_okD(4) [OF jobs_heapD(1) [OF k(1)]] by auto
  let ?s = "\<lparr>kern = k, intc = example_gic, tim = example_timer, console = [], exceptions_context_switch_x30 = NULL\<rparr>"
  have kg: "kget ((), ?s) = k" by (simp add: kget_def)
  have esr: "drop_bit 26 (0x5400000a :: u64) AND 0x3f = 0x15" "(0x5400000a :: u64) AND 0xffff = 10" by (simp_all add: drop_bit_eq_div)
  have ring: "jobs_heap (kget ((), ?s)) job_example_runs (a # [] @ b # [])" using k(1) kg by simp
  have run: "get_status (kmem (kget ((), ?s))) b = RUNNING" using k(4) kg by simp
  from exit_ends_process [OF ring _ run esr, of sy blk lf f junk x30]
  obtain st' k1 k2 where "exceptions_distributor sy blk lf f junk 0x5400000a ((), ?s) x30 = Some st'" "job_forward (kget st') = Some k1"
    "job_get_current k1 = b" "job_forward k1 = Some k2" "a \<notin> slab_live (kmem k2) (job_slab k2)" by auto
  then show "\<exists>s a b st' k1 k2. current_job (kern s) = a \<and>
    exceptions_distributor sy blk lf f junk 0x5400000a ((), s) x30 = Some st' \<and> job_forward (kget st') = Some k1 \<and>
    job_get_current k1 = b \<and> a \<noteq> b \<and> job_forward k1 = Some k2 \<and> a \<notin> slab_live (kmem k2) (job_slab k2)"
    using cur by (intro exI [of _ ?s] exI [of _ a] exI [of _ b] exI [of _ st'] exI [of _ k1] exI [of _ k2]) simp
qed

end
