(* ===== verification/File_Source.thy ===== *)
theory File_Source
  imports Process
begin

text \<open>
  The interface between a file system and the code that reads a whole file through an inode, the loop of
  \<open>job_create_from_file\<close>. A provider says where an inode stands in its file with \<open>at\<close> and which bytes it keeps for
  itself with \<open>own\<close>; the loop is then verified once. The memory file system and the FAT file system both
  provide it.
\<close>

lemma kget_set [simp]: "kget (set_smem st m) = (kget st)\<lparr>kmem := m\<rparr>" "kget (set_regs st r) = (kget st)\<lparr>regs := r\<rparr>"
  by (simp_all add: kget_def set_smem_def set_regs_def)

locale file_source =
  fixes sy :: symbols and blk :: "'d block" and fr :: fatfs_frame and inode :: addr
    and src :: "u8 list" and own :: "addr set" and at :: "nat \<Rightarrow> 'd \<times> machine \<Rightarrow> bool"
  assumes get_byte: "at pos st \<Longrightarrow> pos < length src \<Longrightarrow> q \<notin> own \<Longrightarrow>
      \<exists>st'. fs_inode_get sy blk fr st inode q = Some (st', 1) \<and> at (Suc pos) st' \<and> smem st' q = src ! pos \<and>
        same_outside ({q} \<union> own) (smem st) (smem st')"
    and get_end: "at (length src) st \<Longrightarrow> fs_inode_get sy blk fr st inode q = Some (st, 0)"
    and size: "at pos st \<Longrightarrow> length src < 2 ^ 31"

context file_source
begin

lemma read_rest:
  assumes "at pos st" and "pos \<le> length src" and "region q (length src - pos) \<inter> own = {}"
  shows "\<exists>st'. job_read_loop sy blk fr st inode q = Some st' \<and> at (length src) st' \<and> bytes_at (smem st') q (drop pos src) \<and>
    same_outside (region q (length src - pos) \<union> own) (smem st) (smem st')"
  using assms
proof (induction "length src - pos" arbitrary: pos st q)
  case 0
  then show ?case using get_end [of st q] by (subst job_read_loop.simps) simp
next
  case (Suc n)
  have pos: "pos < length src" and n: "length src - pos = Suc n" "n = length src - Suc pos" using Suc.hyps(2) by simp_all
  have q: "q \<notin> own" "region (q + 1) (length src - Suc pos) \<inter> own = {}"
    using Suc.prems(3) unfolding n(1) region_Suc by (auto simp: n(2) simp del: in_region)
  obtain st1 where st1: "fs_inode_get sy blk fr st inode q = Some (st1, 1)" "at (Suc pos) st1" "smem st1 q = src ! pos"
    "same_outside ({q} \<union> own) (smem st) (smem st1)"
    using get_byte [OF Suc.prems(1) pos q(1)] by blast
  obtain st' where st': "job_read_loop sy blk fr st1 inode (q + 1) = Some st'" "at (length src) st'"
    "bytes_at (smem st') (q + 1) (drop (Suc pos) src)" "same_outside (region (q + 1) (length src - Suc pos) \<union> own) (smem st1) (smem st')"
    using Suc.hyps(1) [OF n(2) st1(2) _ q(2)] pos by auto
  have "q \<notin> region (q + 1) (length src - Suc pos)" by (rule not_in_region_next) (use size [OF st1(2)] in simp)
  then have "smem st' q = src ! pos" using same_outsideD [OF st'(4), of q] q(1) st1(3) by simp
  then have "bytes_at (smem st') q (drop pos src)" using st'(3) Cons_nth_drop_Suc [OF pos] by (metis bytes_at_Cons)
  moreover have "same_outside (region q (length src - pos) \<union> own) (smem st) (smem st')"
    unfolding n(1) region_Suc n(2)
    by (rule same_outside_trans [OF same_outside_mono [OF st1(4)] same_outside_mono [OF st'(4)]]) auto
  ultimately show ?case using st1(1) st'(1,2) by (subst job_read_loop.simps) simp
qed

lemma read_all:
  assumes "at 0 st" and "region q (length src) \<inter> own = {}"
  obtains st' where "job_read_loop sy blk fr st inode q = Some st'" and "at (length src) st'" and "bytes_at (smem st') q src"
    and "same_outside (region q (length src) \<union> own) (smem st) (smem st')"
  using read_rest [OF assms(1), of q] assms(2) by auto

end

text \<open>
  A file that a process has open: the process runs for a while between two reads, so the provider must not
  care what is written elsewhere or what the system registers hold, and a read does not change the current job.
\<close>

locale open_file = file_source +
  fixes cur :: addr
  assumes write_elsewhere: "at pos st \<Longrightarrow> same_outside (- own) (smem st) m \<Longrightarrow> at pos (set_smem st m)"
    and regs_free: "at pos st \<Longrightarrow> at pos (set_regs st r)"
    and current: "at pos st \<Longrightarrow> current_job (kget st) = cur"

lemma file_source_if:
  assumes "P \<Longrightarrow> file_source sy blk fr inode src own at"
  shows "file_source sy blk fr inode src own (\<lambda>pos st. P \<and> at pos st)"
proof (cases P)
  case True
  then show ?thesis using assms by simp
next
  case False
  then show ?thesis by unfold_locales simp_all
qed

abbreviation example_symbols :: symbols where
  \<comment> \<open>distinct addresses of the functions, for the examples\<close>
  "example_symbols \<equiv> \<lparr>sym_ramfs_get = 0x10, sym_ramfs_put = 0x20, sym_ramfs_close = 0x30, sym_ramfs_open_internal = 0x40,
     sym_ramfs_create_internal = 0x50, sym_fatfs_get = 0x60, sym_fatfs_close = 0x70, sym_fatfs_left = 0x80, sym_fatfs_open = 0x90\<rparr>"

end
