(* ===== verification/Userspace.thy ===== *)
theory Userspace
  imports Exceptions_Properties File_Source
begin

text \<open>
  User programs: \<open>userspace/sys.c\<close>, \<open>runtime.c\<close>, \<open>hello.c\<close> and \<open>init.c\<close>, with the entry code \<open>loweraa64_svc\<close> of
  \<open>kernel/exceptions.asm\<close> below them. The state of a program is its general registers together with the
  machine; a system call leaves it through the instruction \<open>svc\<close> and comes back with the registers
  that the kernel popped.
\<close>

section \<open>Definitions\<close>

type_synonym 'd user = "(nat \<Rightarrow> u64) \<times> 'd \<times> machine"

subsection \<open>The system call instruction\<close>

definition loweraa64_svc ::
  "symbols \<Rightarrow> 'd block \<Rightarrow> log_frame \<Rightarrow> kernel_frame \<Rightarrow> bool \<Rightarrow> addr \<Rightarrow> u64 \<Rightarrow> 'd user \<Rightarrow> 'd user option" where
  \<comment> \<open>\<open>sp\<close> is the stack pointer of the kernel\<close>
  "loweraa64_svc sy blk lf f junk sp esr u = do {
     let (x, st) = u;
     let (m, x30) = push_registers (smem st) sp x;
     st \<leftarrow> exceptions_distributor sy blk lf f junk esr (set_smem st m) x30;
     Some (pop_registers (smem st) x30, st)
   }"

definition svc ::
  "symbols \<Rightarrow> 'd block \<Rightarrow> log_frame \<Rightarrow> kernel_frame \<Rightarrow> bool \<Rightarrow> addr \<Rightarrow> (u16 \<Rightarrow> u64) \<Rightarrow> u64 \<Rightarrow> u16 \<Rightarrow> 'd user \<Rightarrow> 'd user option" where
  \<comment> \<open>the instruction of a program: the processor records the class and the immediate in the syndrome register,
    the address \<open>ret imm\<close> of the next instruction and the state \<open>pst\<close>. The program goes on behind it
    only if the kernel returns there in that state\<close>
  "svc sy blk lf f junk sp ret pst imm u = do {
     let (x, st) = u;
     let k = kget st;
     let st = kput st (k\<lparr>regs := (regs k)\<lparr>ELR_EL1 := ret imm, SPSR_EL1 := pst\<rparr>\<rparr>);
     (x, st) \<leftarrow> loweraa64_svc sy blk lf f junk sp (0x56000000 OR ucast imm) (x, st);
     if ELR_EL1 (regs (kget st)) = ret imm \<and> SPSR_EL1 (regs (kget st)) = pst then Some (x, st) else None
   }"

subsection \<open>The wrappers\<close>

text \<open>The instruction is the parameter \<open>sv\<close> of the programs.\<close>

definition sys_open :: "(u16 \<Rightarrow> 'd user \<Rightarrow> 'd user option) \<Rightarrow> 'd user \<Rightarrow> addr \<Rightarrow> ('d user \<times> int) option" where
  "sys_open sv u filename = do {
     let (x, st) = u;
     (x, st) \<leftarrow> sv 20 (x(0 := filename), st);
     Some ((x, st), c_int (x 0))
   }"

definition sys_read :: "(u16 \<Rightarrow> 'd user \<Rightarrow> 'd user option) \<Rightarrow> 'd user \<Rightarrow> int \<Rightarrow> ('d user \<times> u8) option" where
  \<comment> \<open>a write to \<open>w0\<close> clears the upper half of \<open>x0\<close>; the result is a \<open>char\<close>, which is unsigned on this processor\<close>
  "sys_read sv u fd = do {
     let (x, st) = u;
     (x, st) \<leftarrow> sv 21 (x(0 := ucast (of_int fd :: u32)), st);
     Some ((x, st), ucast (x 0))
   }"

definition sys_log :: "(u16 \<Rightarrow> 'd user \<Rightarrow> 'd user option) \<Rightarrow> 'd user \<Rightarrow> addr \<Rightarrow> 'd user option" where
  "sys_log sv u message = (let (x, st) = u in sv 11 (x(0 := message), st))"

definition sys_spawn :: "(u16 \<Rightarrow> 'd user \<Rightarrow> 'd user option) \<Rightarrow> 'd user \<Rightarrow> addr \<Rightarrow> 'd user option" where
  "sys_spawn sv u filename = (let (x, st) = u in sv 22 (x(0 := filename), st))"

subsection \<open>The programs\<close>

definition hello_main :: "addr \<Rightarrow> (u16 \<Rightarrow> 'd user \<Rightarrow> 'd user option) \<Rightarrow> 'd user \<Rightarrow> ('d user \<times> int) option" where
  \<comment> \<open>\<open>lit\<close> is the address of the literal\<close>
  "hello_main lit sv u = do {
     u \<leftarrow> sys_log sv u lit;
     Some (u, 0)
   }"

partial_function (option) init_delay :: "int \<Rightarrow> int option" where
  \<comment> \<open>the loop over the local variable \<open>i\<close>\<close>
  "init_delay i =
     (if i < 10000000 then
        Option.bind (int_res (i + 1)) (\<lambda>i. Option.bind (int_res (i - 1)) (\<lambda>i. Option.bind (int_res (i + 1)) init_delay))
      else Some i)"

primrec init_rounds :: "nat \<Rightarrow> addr \<Rightarrow> (u16 \<Rightarrow> 'd user \<Rightarrow> 'd user option) \<Rightarrow> 'd user \<Rightarrow> 'd user option" where
  \<comment> \<open>the endless loop, up to the end of a round\<close>
  "init_rounds 0 lit sv u = Some u"
| "init_rounds (Suc n) lit sv u = do {
     _ \<leftarrow> init_delay 0;
     u \<leftarrow> sys_log sv u lit;
     init_rounds n lit sv u
   }"

definition init_main :: "nat \<Rightarrow> addr \<Rightarrow> addr \<Rightarrow> addr \<Rightarrow> (u16 \<Rightarrow> 'd user \<Rightarrow> 'd user option) \<Rightarrow> 'd user \<Rightarrow> 'd user option" where
  \<comment> \<open>the program never ends: this is its state after \<open>n\<close> rounds\<close>
  "init_main n lit1 lit2 lit3 sv u = do {
     u \<leftarrow> sys_log sv u lit1;
     u \<leftarrow> sys_spawn sv u lit2;
     init_rounds n lit3 sv u
   }"

definition start_program ::
  "((u16 \<Rightarrow> 'd user \<Rightarrow> 'd user option) \<Rightarrow> 'd user \<Rightarrow> ('d user \<times> int) option) \<Rightarrow> (u16 \<Rightarrow> 'd user \<Rightarrow> 'd user option) \<Rightarrow> 'd user \<Rightarrow> 'd user option" where
  \<comment> \<open>\<open>_start\<close>, up to the loop that waits for the termination and changes nothing\<close>
  "start_program main sv u = do {
     (u, exit_code) \<leftarrow> main sv u;
     sv 10 u
   }"

end
