(* ===== verification/System_Calls.thy ===== *)
theory System_Calls
  imports Userspace
begin

text \<open>
  System calls from the program's side: what comes back from the kernel, composed of the entry code, the
  distributor, the file systems and the log.
\<close>

section \<open>The pushed registers\<close>

lemma frame_REG: "frame_at m x30 x \<Longrightarrow> REG m x30 0 = x 0"
  unfolding frame_at_def by (drule spec [of _ 30]) (simp add: REG_def frame_word_def)

lemma set_REG_outside: "same_outside (region x30 256) m (set_REG m x30 0 v)"
  unfolding set_REG_def by (rule store_fld_outside) simp_all

lemma set_REG_frame:
  assumes "frame_at m x30 x"
  shows "frame_at (set_REG m x30 0 v) x30 (x(0 := v))"
  unfolding frame_at_def
proof (intro allI impI)
  fix n :: nat
  assume n: "n < 32"
  then have "load64 (set_REG m x30 0 v) (fld x30 (8 * n)) = (if n = 30 then v else load64 m (fld x30 (8 * n)))"
    using load_store_array [of 0 30 n m x30] by (simp add: set_REG_def)
  moreover have "frame_word (x(0 := v)) n = (if n = 30 then v else frame_word x n)" using n by (auto simp: frame_word_def)
  ultimately show "load64 (set_REG m x30 0 v) (fld x30 (8 * n)) = frame_word (x(0 := v)) n"
    using assms n by (simp add: frame_at_def)
qed

section \<open>One system call\<close>

definition svc_entry :: "(u16 \<Rightarrow> u64) \<Rightarrow> u64 \<Rightarrow> u16 \<Rightarrow> 'd \<times> machine \<Rightarrow> 'd \<times> machine" where
  \<comment> \<open>the state in which the kernel is entered\<close>
  "svc_entry ret pst imm st = set_regs st ((regs (kget st))\<lparr>ELR_EL1 := ret imm, SPSR_EL1 := pst\<rparr>)"

lemma smem_entry [simp]: "smem (svc_entry ret pst imm st) = smem st"
  by (simp add: svc_entry_def)

lemma kput_regs: "kput st ((kget st)\<lparr>regs := r\<rparr>) = set_regs st r"
  by (simp add: kput_def kget_def set_regs_def)

lemma svc_syndrome:
  "drop_bit 26 (0x56000000 OR ucast (imm :: u16)) AND 0x3f = (0x15 :: u64)"
  "ucast ((0x56000000 OR ucast (imm :: u16)) AND 0xffff :: u64) = imm"
proof -
  have low: "bit (ucast imm :: u64) n \<longleftrightarrow> bit imm n" for n using bit_imp_le_length [of imm n] by (auto simp: bit_unsigned_iff)
  have "drop_bit 26 (ucast imm :: u64) = 0"
    by (rule bit_word_eqI) (use bit_imp_le_length [of imm] in \<open>fastforce simp: bit_drop_bit_eq low\<close>)
  moreover have "drop_bit 26 (0x56000000 :: u64) = 0x15" by (simp add: drop_bit_eq_div)
  ultimately show "drop_bit 26 (0x56000000 OR ucast imm) AND 0x3f = (0x15 :: u64)" by simp
  have "(ucast imm :: u64) AND 0xffff = ucast imm"
  proof -
    have "(0xffff :: u64) = mask 16" by (simp add: mask_eq_exp_minus_1)
    then have "(ucast imm :: u64) AND 0xffff = take_bit 16 (ucast imm)" by (simp only: take_bit_eq_mask)
    also have "\<dots> = ucast imm" by (rule bit_word_eqI) (use bit_imp_le_length [of imm] in \<open>fastforce simp: bit_take_bit_iff low\<close>)
    finally show ?thesis .
  qed
  moreover have "(0x56000000 :: u64) AND 0xffff = 0" by simp
  ultimately have "(0x56000000 OR ucast imm :: u64) AND 0xffff = ucast imm" by (simp only: bit.conj_disj_distrib2 or.left_neutral)
  moreover have "ucast (ucast imm :: u64) = imm" by (rule bit_word_eqI) (simp add: bit_unsigned_iff low)
  ultimately show "ucast ((0x56000000 OR ucast imm) AND 0xffff :: u64) = imm" by (simp only:)
qed

lemma distributor_svc:
  "exceptions_distributor sy blk lf f junk (0x56000000 OR ucast imm) st x30 =
     Option.bind (exceptions_handle_syscall sy blk lf f junk imm st x30) (\<lambda>(st, res). if res then Some st else None)"
  unfolding exceptions_distributor_def Let_def svc_syndrome by simp

lemma handle_syscall_returns:
  assumes "exceptions_handle_syscall sy blk lf f junk imm st x30 = Some (st', res)"
  shows "ELR_EL1 (regs (kget st')) = ELR_EL1 (regs (kget st)) \<and> SPSR_EL1 (regs (kget st')) = SPSR_EL1 (regs (kget st))"
proof -
  obtain st1 where "st' = kput st1 ((kget st1)\<lparr>regs := (regs (kget st1))\<lparr>ELR_EL1 := ELR_EL1 (regs (kget st)), SPSR_EL1 := SPSR_EL1 (regs (kget st))\<rparr>\<rparr>)"
    using assms unfolding exceptions_handle_syscall_def Let_def by (auto simp: Option.bind_eq_Some_conv)
  then show ?thesis by (simp add: kput_regs)
qed

lemma svc_run:
  assumes handled: "\<And>m. frame_at m x30 x \<Longrightarrow> same_outside (region x30 256) (smem st) m \<Longrightarrow>
      \<exists>st2 x2. exceptions_handle_syscall sy blk lf f junk imm (set_smem (svc_entry ret pst imm st) m) x30 = Some (st2, True) \<and>
        frame_at (smem st2) x30 x2 \<and> P x2 st2"
  shows "\<exists>x' x2 st2. svc sy blk lf f junk (fld x30 256) ret pst imm (x, st) = Some (x', st2) \<and> (\<forall>i \<le> 30. x' i = x2 i) \<and> P x2 st2"
proof -
  obtain m where m: "push_registers (smem st) (fld x30 256) x = (m, x30)" "frame_at m x30 x" "same_outside (region x30 256) (smem st) m"
    by (rule push_registers_frame)
  obtain st2 x2 where s: "exceptions_handle_syscall sy blk lf f junk imm (set_smem (svc_entry ret pst imm st) m) x30 = Some (st2, True)"
    "frame_at (smem st2) x30 x2" "P x2 st2" using handled [OF m(2,3)] by blast
  have r: "ELR_EL1 (regs (kget st2)) = ret imm \<and> SPSR_EL1 (regs (kget st2)) = pst"
    using handle_syscall_returns [OF s(1)] by (simp add: svc_entry_def)
  have "svc sy blk lf f junk (fld x30 256) ret pst imm (x, st) = Some (pop_registers (smem st2) x30, st2)"
    using s(1) m(1) r
    by (simp add: svc_def loweraa64_svc_def distributor_svc kput_regs flip: svc_entry_def)
  then show ?thesis using s(3) frame_pop [OF s(2)] by blast
qed

section \<open>Reading\<close>

lemma fd_word: "is_int fd \<Longrightarrow> c_int (ucast (of_int fd :: u32)) = fd"
proof -
  assume fd: "is_int fd"
  have "ucast (ucast (of_int fd :: u32) :: u64) = (of_int fd :: u32)" by (rule bit_word_eqI) (simp add: bit_unsigned_iff)
  moreover have "sint (of_int fd :: u32) = fd" using fd by (simp add: is_int_def sint_sbintrunc' signed_take_bit_int_eq_self)
  ultimately show ?thesis by (simp add: c_int_def)
qed

lemma char_word: "ucast (ucast (c :: u8) :: u64) = c"
  by (rule bit_word_eqI) (simp add: bit_unsigned_iff)

lemma job_get_file_frame:
  assumes "same_outside X m m'" and "region job 392 \<inter> X = {}" and "fd < 8"
  shows "job_get_file m' job fd = job_get_file m job fd"
  using job_at_frame [OF assms(1,2)] assms(3) by (auto simp: job_get_file_def job_at_sel nat_less_iff)

lemma current_entry [simp]: "job_get_current (kget (svc_entry ret pst imm st)) = job_get_current (kget st)"
  by (simp add: svc_entry_def job_get_current_def)

definition calls_apart :: "kernel_frame \<Rightarrow> addr \<Rightarrow> addr \<Rightarrow> addr set \<Rightarrow> bool" where
  \<comment> \<open>the frame on the kernel's stack, the local variable of the handler, the job and the bytes of the file system are at separate places\<close>
  "calls_apart f x30 job own \<longleftrightarrow> region x30 256 \<inter> (own \<union> region job 392 \<union> {char_local f}) = {} \<and>
     own \<inter> (region job 392 \<union> {char_local f}) = {} \<and> char_local f \<notin> region job 392"

lemma sys_read_run:
  assumes fd: "0 \<le> fd" "fd < 8" and ap: "calls_apart f x30 job own" and job: "job_get_current (kget st) = job"
    and open_fd: "job_get_file (smem st) job fd = inode" "inode \<noteq> NULL"
    and get: "\<And>m. same_outside (region x30 256) (smem st) m \<Longrightarrow>
      \<exists>st2 r. fs_inode_get sy blk (fatfs_frame.truncate f) (set_smem (svc_entry ret pst 21 st) m) inode (char_local f) = Some (st2, r) \<and>
        smem st2 (char_local f) = c \<and> same_outside ({char_local f} \<union> own) m (smem st2) \<and> P st2"
    and keeps: "\<And>st2 m r. P st2 \<Longrightarrow> same_outside (region x30 256) (smem st2) m \<Longrightarrow> P (set_regs (set_smem st2 m) r)"
  shows "\<exists>x' st'. sys_read (svc sy blk lf f junk (fld x30 256) ret pst) (x, st) fd = Some ((x', st'), c) \<and> (\<forall>i \<in> {1..30}. x' i = x i) \<and> P st' \<and>
    same_outside (region x30 256 \<union> {char_local f} \<union> own) (smem st) (smem st')"
proof -
  let ?w = "ucast (of_int fd :: u32) :: u64" and ?W = "region x30 256 \<union> {char_local f} \<union> own"
  note a = ap [unfolded calls_apart_def]
  let ?Q = "\<lambda>x2 st2. x2 = x(0 := ucast c) \<and> P st2 \<and> same_outside ?W (smem st) (smem st2)"
  have "\<exists>x' x2 st2. svc sy blk lf f junk (fld x30 256) ret pst 21 (x(0 := ?w), st) = Some (x', st2) \<and> (\<forall>i \<le> 30. x' i = x2 i) \<and> ?Q x2 st2"
  proof (rule svc_run)
    fix m
    assume fr: "frame_at m x30 (x(0 := ?w))" and w: "same_outside (region x30 256) (smem st) m"
    let ?st = "set_smem (svc_entry ret pst 21 st) m"
    have "region job 392 \<inter> region x30 256 = {}" using a by blast
    then have fl: "job_get_file m job fd = inode" using job_get_file_frame [OF w _ fd(2)] open_fd(1) by simp
    have reg: "c_int (REG m x30 0) = fd" using frame_REG [OF fr] fd_word [of fd] fd by (simp add: is_int_def)
    obtain st2 r where s: "fs_inode_get sy blk (fatfs_frame.truncate f) ?st inode (char_local f) = Some (st2, r)"
      "smem st2 (char_local f) = c" "same_outside ({char_local f} \<union> own) m (smem st2)" "P st2" using get [OF w] by blast
    let ?m = "set_REG (smem st2) x30 0 (ucast c)"
    have fr2: "frame_at (smem st2) x30 (x(0 := ?w))" by (rule frame_at_kept [OF fr s(3)]) (use a in blast)
    have cur: "job_get_current (kget ?st) = job" using job by (simp add: job_get_current_def svc_entry_def)
    have run: "exceptions_internal_get sy blk f ?st x30 = Some (set_smem st2 ?m)"
      using s(1,2) fl reg open_fd(2) cur by (simp add: exceptions_internal_get_def)
    let ?r = "(regs (kget (set_smem st2 ?m)))\<lparr>ELR_EL1 := ELR_EL1 (regs (kget ?st)), SPSR_EL1 := SPSR_EL1 (regs (kget ?st))\<rparr>"
    have "exceptions_handle_syscall sy blk lf f junk 21 ?st x30 = Some (set_regs (set_smem st2 ?m) ?r, True)"
      using run by (simp add: exceptions_handle_syscall_def kput_regs del: kget_set)
    moreover have "frame_at ?m x30 (x(0 := ucast c))" using set_REG_frame [OF fr2, of "ucast c"] by simp
    moreover have "P (set_regs (set_smem st2 ?m) ?r)" by (rule keeps [OF s(4) set_REG_outside])
    moreover have "same_outside ?W (smem st) ?m"
      by (rule same_outside_trans [OF same_outside_trans [OF same_outside_mono [OF w] same_outside_mono [OF s(3)]] same_outside_mono [OF set_REG_outside]]) blast+
    ultimately show "\<exists>st2 x2. exceptions_handle_syscall sy blk lf f junk 21 ?st x30 = Some (st2, True) \<and> frame_at (smem st2) x30 x2 \<and> ?Q x2 st2"
      by (intro exI [of _ "set_regs (set_smem st2 ?m) ?r"] exI [of _ "x(0 := ucast c)"]) simp
  qed
  then obtain x' st2 where "svc sy blk lf f junk (fld x30 256) ret pst 21 (x(0 := ?w), st) = Some (x', st2)"
    "\<forall>i \<le> 30. x' i = (x(0 := ucast c)) i" "P st2" "same_outside ?W (smem st) (smem st2)" by auto
  then show ?thesis using char_word [of c] by (intro exI [of _ x'] exI [of _ st2]) (simp add: sys_read_def)
qed

lemma sys_read_closed:
  assumes fd: "is_int fd" "fd < 0 \<or> get_count (smem st) job \<le> fd" and job: "job_get_current (kget st) = job"
    and ap: "region x30 256 \<inter> region job 392 = {}"
  obtains x' st' where "sys_read (svc sy blk lf f junk (fld x30 256) ret pst) (x, st) fd = Some ((x', st'), 255)"
    and "\<forall>i \<in> {1..30}. x' i = x i" and "same_outside (region x30 256) (smem st) (smem st')"
proof -
  let ?w = "ucast (of_int fd :: u32) :: u64"
  let ?Q = "\<lambda>x2 st2. x2 = x(0 := - 1) \<and> same_outside (region x30 256) (smem st) (smem st2)"
  have "\<exists>x' x2 st2. svc sy blk lf f junk (fld x30 256) ret pst 21 (x(0 := ?w), st) = Some (x', st2) \<and> (\<forall>i \<le> 30. x' i = x2 i) \<and> ?Q x2 st2"
  proof (rule svc_run)
    fix m
    assume fr: "frame_at m x30 (x(0 := ?w))" and w: "same_outside (region x30 256) (smem st) m"
    let ?st = "set_smem (svc_entry ret pst 21 st) m" and ?m = "set_REG m x30 0 (- 1)"
    have "job_at m job = job_at (smem st) job" by (rule job_at_frame [OF w]) (use ap in blast)
    then have "job_get_file m job fd = NULL" using fd(2) by (simp add: job_get_file_def job_at_sel)
    moreover have "c_int (REG m x30 0) = fd" using frame_REG [OF fr] fd_word [OF fd(1)] by simp
    moreover have "job_get_current (kget ?st) = job" using job by (simp add: job_get_current_def svc_entry_def)
    ultimately have run: "exceptions_internal_get sy blk f ?st x30 = Some (set_smem ?st ?m)" by (simp add: exceptions_internal_get_def)
    let ?r = "(regs (kget (set_smem ?st ?m)))\<lparr>ELR_EL1 := ELR_EL1 (regs (kget ?st)), SPSR_EL1 := SPSR_EL1 (regs (kget ?st))\<rparr>"
    have "exceptions_handle_syscall sy blk lf f junk 21 ?st x30 = Some (set_regs (set_smem ?st ?m) ?r, True)"
      using run by (simp add: exceptions_handle_syscall_def kput_regs del: kget_set)
    moreover have "frame_at ?m x30 (x(0 := - 1))" using set_REG_frame [OF fr, of "- 1"] by simp
    moreover have "same_outside (region x30 256) (smem st) ?m" by (rule same_outside_trans [OF w set_REG_outside])
    ultimately show "\<exists>st2 x2. exceptions_handle_syscall sy blk lf f junk 21 ?st x30 = Some (st2, True) \<and> frame_at (smem st2) x30 x2 \<and> ?Q x2 st2"
      by (intro exI [of _ "set_regs (set_smem ?st ?m) ?r"] exI [of _ "x(0 := - 1)"]) simp
  qed
  then obtain x' st2 where "svc sy blk lf f junk (fld x30 256) ret pst 21 (x(0 := ?w), st) = Some (x', st2)"
    "\<forall>i \<le> 30. x' i = (x(0 := - 1)) i" "same_outside (region x30 256) (smem st) (smem st2)" by auto
  moreover have "ucast (- 1 :: u64) = (- 1 :: u8)" by (rule bit_word_eqI) (simp add: bit_unsigned_iff)
  ultimately show thesis using that [of x' st2] by (simp add: sys_read_def)
qed

lemma init_delay_eq: "0 \<le> i \<Longrightarrow> i \<le> 10000000 \<Longrightarrow> init_delay i = Some 10000000"
proof (induction "nat (10000000 - i)" arbitrary: i)
  case 0
  then show ?case by (subst init_delay.simps) simp
next
  case (Suc n)
  moreover have "init_delay (i + 1) = Some 10000000" using Suc.hyps(2) Suc.prems by (intro Suc.hyps(1)) simp_all
  moreover have "int_res (i + 1) = Some (i + 1)" "int_res i = Some i" using Suc.prems by (simp_all add: int_res_def is_int_def)
  ultimately show ?case by (subst init_delay.simps) simp
qed

primrec user_read :: "nat \<Rightarrow> (u16 \<Rightarrow> 'd user \<Rightarrow> 'd user option) \<Rightarrow> 'd user \<Rightarrow> int \<Rightarrow> ('d user \<times> u8 list) option" where
  \<comment> \<open>a program that reads \<open>n\<close> characters\<close>
  "user_read 0 sv u fd = Some (u, [])"
| "user_read (Suc n) sv u fd = do {
     (u, c) \<leftarrow> sys_read sv u fd;
     (u, cs) \<leftarrow> user_read n sv u fd;
     Some (u, c # cs)
   }"

context open_file
begin

lemma current_job: "at pos st \<Longrightarrow> job_get_current (kget st) = cur"
  using current by (simp add: job_get_current_def)

lemma at_entry: "at pos st \<Longrightarrow> same_outside (- own) (smem st) m \<Longrightarrow> at pos (set_smem (svc_entry ret pst imm st) m)"
  unfolding svc_entry_def by (intro write_elsewhere regs_free) simp_all

lemma sys_read_byte:
  assumes at: "at pos st" "pos < length src" and f: "fatfs_frame.truncate f = fr" and fd: "0 \<le> fd" "fd < 8"
    and open_fd: "job_get_file (smem st) cur fd = inode" "inode \<noteq> NULL" and ap: "calls_apart f x30 cur own"
  obtains x' st' where "sys_read (svc sy blk lf f junk (fld x30 256) ret pst) (x, st) fd = Some ((x', st'), src ! pos)"
    and "\<forall>i \<in> {1..30}. x' i = x i" and "at (Suc pos) st'" and "same_outside (region x30 256 \<union> {char_local f} \<union> own) (smem st) (smem st')"
proof -
  note a = ap [unfolded calls_apart_def]
  have off: "char_local f \<notin> own" "region x30 256 \<subseteq> - own" using a by blast+
  have "\<exists>x' st'. sys_read (svc sy blk lf f junk (fld x30 256) ret pst) (x, st) fd = Some ((x', st'), src ! pos) \<and>
      (\<forall>i \<in> {1..30}. x' i = x i) \<and> at (Suc pos) st' \<and> same_outside (region x30 256 \<union> {char_local f} \<union> own) (smem st) (smem st')"
  proof (rule sys_read_run [OF fd ap current_job [OF at(1)] open_fd])
    fix m
    assume "same_outside (region x30 256) (smem st) m"
    then have "at pos (set_smem (svc_entry ret pst 21 st) m)" by (intro at_entry [OF at(1)] same_outside_mono [OF _ off(2)])
    from get_byte [OF this at(2) off(1)]
    show "\<exists>st2 r. fs_inode_get sy blk (fatfs_frame.truncate f) (set_smem (svc_entry ret pst 21 st) m) inode (char_local f) = Some (st2, r) \<and>
        smem st2 (char_local f) = src ! pos \<and> same_outside ({char_local f} \<union> own) m (smem st2) \<and> at (Suc pos) st2"
      unfolding f by auto
  next
    fix st2 m r
    assume "at (Suc pos) st2" "same_outside (region x30 256) (smem st2) m"
    then show "at (Suc pos) (set_regs (set_smem st2 m) r)" by (intro regs_free write_elsewhere) (auto elim: same_outside_mono [OF _ off(2)])
  qed
  then show thesis using that by blast
qed

lemma sys_read_end:
  assumes at: "at (length src) st" and f: "fatfs_frame.truncate f = fr" and fd: "0 \<le> fd" "fd < 8"
    and open_fd: "job_get_file (smem st) cur fd = inode" "inode \<noteq> NULL" and ap: "calls_apart f x30 cur own"
  obtains x' st' where "sys_read (svc sy blk lf f junk (fld x30 256) ret pst) (x, st) fd = Some ((x', st'), smem st (char_local f))"
    and "at (length src) st'"
proof -
  note a = ap [unfolded calls_apart_def]
  have off: "char_local f \<notin> region x30 256" "region x30 256 \<subseteq> - own" using a by blast+
  have "\<exists>x' st'. sys_read (svc sy blk lf f junk (fld x30 256) ret pst) (x, st) fd = Some ((x', st'), smem st (char_local f)) \<and>
      (\<forall>i \<in> {1..30}. x' i = x i) \<and> at (length src) st' \<and> same_outside (region x30 256 \<union> {char_local f} \<union> own) (smem st) (smem st')"
  proof (rule sys_read_run [OF fd ap current_job [OF at(1)] open_fd])
    fix m
    assume w: "same_outside (region x30 256) (smem st) m"
    then have "at (length src) (set_smem (svc_entry ret pst 21 st) m)" by (intro at_entry [OF at(1)] same_outside_mono [OF _ off(2)])
    moreover from this have "fs_inode_get sy blk fr (set_smem (svc_entry ret pst 21 st) m) inode (char_local f) = Some (set_smem (svc_entry ret pst 21 st) m, 0)"
      by (rule get_end)
    ultimately show "\<exists>st2 r. fs_inode_get sy blk (fatfs_frame.truncate f) (set_smem (svc_entry ret pst 21 st) m) inode (char_local f) = Some (st2, r) \<and>
        smem st2 (char_local f) = smem st (char_local f) \<and> same_outside ({char_local f} \<union> own) m (smem st2) \<and> at (length src) st2"
      unfolding f using same_outsideD [OF w off(1)] by simp
  next
    fix st2 m r
    assume "at (length src) st2" "same_outside (region x30 256) (smem st2) m"
    then show "at (length src) (set_regs (set_smem st2 m) r)" by (intro regs_free write_elsewhere) (auto elim: same_outside_mono [OF _ off(2)])
  qed
  then show thesis using that by blast
qed

lemma user_read_bytes:
  assumes f: "fatfs_frame.truncate f = fr" and fd: "0 \<le> fd" "fd < 8" and ap: "calls_apart f x30 cur own" and null: "inode \<noteq> NULL"
  shows "at pos st \<Longrightarrow> pos + n \<le> length src \<Longrightarrow> job_get_file (smem st) cur fd = inode \<Longrightarrow>
    \<exists>x' st'. user_read n (svc sy blk lf f junk (fld x30 256) ret pst) (x, st) fd = Some ((x', st'), take n (drop pos src)) \<and>
      (\<forall>i \<in> {1..30}. x' i = x i) \<and> at (pos + n) st' \<and> job_get_file (smem st') cur fd = inode"
proof (induction n arbitrary: pos x st)
  case (Suc n)
  let ?sv = "svc sy blk lf f junk (fld x30 256) ret pst"
  have pos: "pos < length src" using Suc.prems(2) by simp
  obtain x1 st1 where r: "sys_read ?sv (x, st) fd = Some ((x1, st1), src ! pos)" "\<forall>i \<in> {1..30}. x1 i = x i" "at (Suc pos) st1"
    "same_outside (region x30 256 \<union> {char_local f} \<union> own) (smem st) (smem st1)"
    by (rule sys_read_byte [OF Suc.prems(1) pos f fd Suc.prems(3) null ap])
  have "region cur 392 \<inter> (region x30 256 \<union> {char_local f} \<union> own) = {}" using ap unfolding calls_apart_def by blast
  then have "job_get_file (smem st1) cur fd = inode" using job_get_file_frame [OF r(4) _ fd(2)] Suc.prems(3) by simp
  from Suc.IH [OF r(3) _ this, of x1] Suc.prems(2) obtain x' st' where
    "user_read n ?sv (x1, st1) fd = Some ((x', st'), take n (drop (Suc pos) src))" "\<forall>i \<in> {1..30}. x' i = x1 i"
    "at (Suc pos + n) st'" "job_get_file (smem st') cur fd = inode" by auto
  then show ?case using r(1,2) Cons_nth_drop_Suc [OF pos, symmetric] by (intro exI [of _ x'] exI [of _ st']) simp
qed simp

end

end
