(* ===== verification/Block_Interface.thy ===== *)
theory Block_Interface
  imports Heap_Space Fat
begin

text \<open>
  What a file system expects of the block driver below it. The reader of files takes buffers from the heap
  while the driver may use the free part of the heap for its own requests, so the contract is stated for
  every heap.
\<close>

section \<open>Block devices that use the heap\<close>

definition set_heap :: "'d \<times> machine \<Rightarrow> mem \<Rightarrow> heap \<Rightarrow> 'd \<times> machine" where
  "set_heap st m h = (fst st, (snd st)\<lparr>kern := (kern (snd st))\<lparr>kmem := m, main_heap := h\<rparr>\<rparr>)"

definition heap_of :: "'d \<times> machine \<Rightarrow> heap" where "heap_of st = main_heap (kern (snd st))"

definition world :: "(nat \<Rightarrow> 'd \<times> machine \<Rightarrow> bool) \<Rightarrow> heap \<Rightarrow> runs \<Rightarrow> nat \<Rightarrow> 'd \<times> machine \<Rightarrow> bool" where
  \<comment> \<open>the driver is ready for \<open>n\<close> requests and the heap is as given\<close>
  "world ready h R n st \<longleftrightarrow> ready n st \<and> heap_of st = h \<and> heap_ok (smem st) h R"

lemma heap_state [simp]:
  "smem (set_heap st m h) = m" "heap_of (set_heap st m h) = h" "heap_of (set_smem st m) = heap_of st"
  "set_smem st m = set_heap st m (heap_of st)" "set_heap (set_heap st m h) m' h' = set_heap st m' h'"
  by (simp_all add: set_heap_def heap_of_def set_smem_def smem_def)

lemma heap_of_regs [simp]: "heap_of (set_regs st r) = heap_of st"
  by (simp add: set_regs_def heap_of_def)

lemma st_alloc:
  "st_kalloc st sz = map_option (\<lambda>(m, h, p). (set_heap st m h, p)) (kalloc (smem st) (heap_of st) sz)"
  "st_kfree st p = map_option (\<lambda>(m, h). set_heap st m h) (kfree (smem st) (heap_of st) p)"
  by (auto simp: st_kalloc_def st_kfree_def set_heap_def heap_of_def split: Option.bind_splits prod.splits)

text \<open>
  The interface between a block driver and its clients: with a free block in the heap the driver serves
  requests and writes only its own bytes \<open>W\<close> and the free part of the heap, and it does not care what
  others allocate or write elsewhere, nor for the system registers.
\<close>

locale block_device =
  fixes blk :: "'d block" and disk :: "nat \<Rightarrow> nat \<Rightarrow> u8" and W :: "addr set" and ready :: "nat \<Rightarrow> 'd \<times> machine \<Rightarrow> bool"
  assumes serves: "heap_table_apart h \<Longrightarrow> heap_room h R 1 \<Longrightarrow> W \<inter> heap_rest h R = {} \<Longrightarrow>
      block_serves blk disk (W \<union> heap_rest h R) (world ready h R)"
    and stable: "ready n st \<Longrightarrow> same_outside (- W) (smem st) m \<Longrightarrow> ready n (set_heap st m h)"
    and regs_free: "ready n st \<Longrightarrow> ready n (set_regs st r)"

lemma block_device_if:
  assumes "P \<Longrightarrow> block_device blk disk W ready"
  shows "block_device blk disk W (\<lambda>n st. P \<and> ready n st)"
proof (cases P)
  case True
  then show ?thesis using assms by simp
next
  case False
  then show ?thesis by unfold_locales (simp_all add: block_serves_def world_def)
qed

context block_device
begin

lemma world_write:
  assumes "world ready h R n st" and "same_outside X (smem st) m" and "X \<inter> (W \<union> heap_rest h R) = {}"
  shows "world ready h R n (set_heap st m h)"
proof -
  have "same_outside (- W) (smem st) m" by (rule same_outside_mono [OF assms(2)]) (use assms(3) in blast)
  then have "ready n (set_heap st m h)" using stable assms(1) by (simp add: world_def)
  moreover have "heap_ok m h R" by (rule heap_ok_off_rest [OF _ assms(2)]) (use assms(1,3) in \<open>auto simp: world_def\<close>)
  ultimately show ?thesis by (simp add: world_def)
qed

lemma world_regs: "world ready h R n st \<Longrightarrow> world ready h R n (set_regs st r)"
  by (simp add: world_def regs_free)

end

end
