(* ===== verification/Virtio_Properties.thy ===== *)
theory Virtio_Properties
  imports Block_Interface
begin

text \<open>
  The virtio driver keeps the contract of a block device that the file system reads from, provided
  the device does what the virtio specification says of a read request: it stores the sector at
  the address of the second descriptor and the status behind the request, and goes on to the next
  entry of the available ring.
\<close>

section \<open>What the device promises\<close>

definition request_queued :: "mem \<Rightarrow> addr \<Rightarrow> addr \<Rightarrow> u16 \<Rightarrow> addr \<Rightarrow> addr \<Rightarrow> u64 \<Rightarrow> bool" where
  \<comment> \<open>entry \<open>n\<close> of the available ring is a request for sector \<open>sec\<close> into \<open>ptr\<close>\<close>
  "request_queued m D A n req ptr sec \<longleftrightarrow>
     get_avail_idx m A = n + 1 \<and> load16 m (fld A (4 + 2 * (unat n mod 1024))) = 0 \<and>
     desc_at m D 0 = \<lparr>d_addr = req, d_len = 16, d_flags = 1, d_next = 1\<rparr> \<and>
     desc_at m D 1 = \<lparr>d_addr = ptr, d_len = 512, d_flags = 3, d_next = 2\<rparr> \<and>
     (desc_at m D 2)\<lparr>d_next := 0\<rparr> = \<lparr>d_addr = req + 16, d_len = 1, d_flags = 2, d_next = 0\<rparr> \<and>
     load32 m (fld req 0) = 0 \<and> load64 m (fld req 8) = sec"

inductive request_completes ::
  "'d virtio_device \<Rightarrow> (u16 \<Rightarrow> 'd \<Rightarrow> bool) \<Rightarrow> u16 \<Rightarrow> addr set \<Rightarrow> (mem \<Rightarrow> bool) \<Rightarrow> 'd \<Rightarrow> mem \<Rightarrow> bool"
  for dv :: "'d virtio_device" and seen n W stored
where
  \<comment> \<open>after finitely many steps, in which the device writes to \<open>W\<close> only, the request is served and the disk raises its
    line; the timer does not raise its own before\<close>
  request_served: "request_completes dv seen n W stored d m"
    if "disk_line dv d" and "\<forall>t. \<not> timer_line dv d t" and "seen n d" and "stored m"
| request_waits: "request_completes dv seen n W stored d m"
    if "\<not> disk_line dv d" and "\<forall>t. \<not> timer_line dv d t" and "dev_step dv d m = (d', m')" and "same_outside W m m'"
      and "request_completes dv seen n W stored d' m'"

definition virtio_disk :: "'d virtio_device \<Rightarrow> (u16 \<Rightarrow> 'd \<Rightarrow> bool) \<Rightarrow> (nat \<Rightarrow> nat \<Rightarrow> u8) \<Rightarrow> addr \<Rightarrow> addr \<Rightarrow> addr \<Rightarrow> addr \<Rightarrow> bool" where
  \<comment> \<open>\<open>seen n d\<close>: the device is set up with the queue at \<open>D\<close>, \<open>A\<close>, \<open>U\<close> and has processed \<open>n\<close> entries. A
    notification makes it process the next one, at once or later; acknowledging what the status register shows
    lowers the interrupt line and does nothing to the memory\<close>
  "virtio_disk dv seen sectors base D A U \<longleftrightarrow>
     (\<forall>n d m req ptr sec. seen n d \<and> \<not> disk_line dv d \<and> request_queued m D A n req ptr sec \<and>
        region ptr 512 \<inter> (region (req + 16) 1 \<union> region U 8198) = {} \<longrightarrow>
        (\<exists>d' m'. reg_wr dv d m (base + 0x50) 0 = (d', m') \<and>
          same_outside (region ptr 512 \<union> region (req + 16) 1 \<union> region U 8198) m m' \<and>
          request_completes dv seen (n + 1) (region ptr 512 \<union> region (req + 16) 1 \<union> region U 8198)
            (\<lambda>m. \<forall>i < 512. m (ptr + of_nat i) = sectors (unat sec) i) d' m')) \<and>
     (\<forall>n d. seen n d \<longrightarrow>
        (\<exists>d'. (\<forall>m. reg_wr dv d m (base + 0x64) (reg_read dv d (base + 0x60)) = (d', m)) \<and> seen n d' \<and> \<not> disk_line dv d'))"

section \<open>The state of the driver\<close>

definition virtio_apart :: "addr \<Rightarrow> addr \<Rightarrow> addr \<Rightarrow> addr \<Rightarrow> addr \<Rightarrow> addr \<Rightarrow> heap \<Rightarrow> runs \<Rightarrow> nat \<Rightarrow> bool" where
  \<comment> \<open>\<open>F\<close> is the frame of an interrupt; block \<open>i\<close> is the first free one, which is where the synchronisation structure goes\<close>
  "virtio_apart disk req D A U F h R i \<longleftrightarrow>
     apart_all [(disk, 32), (req, 17), (D, 48), (A, 2054), (U, 8198), (F, 256), (heap_table h, unat (blocks h)), (heap_run_addr h i, 16)] \<and>
     i < unat (blocks h) \<and> i \<notin> runs_taken R \<and> {..<i} \<subseteq> runs_taken R"

definition virtio_bytes :: "addr \<Rightarrow> addr \<Rightarrow> addr \<Rightarrow> addr \<Rightarrow> addr \<Rightarrow> addr \<Rightarrow> heap \<Rightarrow> nat \<Rightarrow> addr set" where
  "virtio_bytes disk req D A U F h i =
     region disk 32 \<union> region req 17 \<union> region D 48 \<union> region A 2054 \<union> region U 8198 \<union> region F 256 \<union> table_bytes h \<union> region (heap_run_addr h i) 16"

definition virtio_ready ::
  "addr \<Rightarrow> 'd virtio_device \<Rightarrow> (u16 \<Rightarrow> 'd \<Rightarrow> bool) \<Rightarrow> addr \<Rightarrow> addr \<Rightarrow> addr \<Rightarrow> addr \<Rightarrow> heap \<Rightarrow> runs \<Rightarrow> nat \<Rightarrow> 'd \<times> machine \<Rightarrow> bool" where
  \<comment> \<open>\<open>k\<close> more requests fit into the ring, no interrupt of the disk is pending, and the next one will be delivered;
    \<open>cur\<close> is the current job, which a request does not change\<close>
  "virtio_ready cur dv seen base disk D A h R k st \<longleftrightarrow> \<not> disk_line dv (fst st) \<and> gic_delivers (intc (snd st)) 79 \<and>
     (\<exists>j. j + k \<le> 1024 \<and> seen (of_nat j) (fst st) \<and> get_avail_idx (smem st) A = of_nat j) \<and>
     main_heap (kern (snd st)) = h \<and> heap_ok (smem st) h R \<and> disk_mmio (smem st) disk = base \<and>
     disk_descriptors (smem st) disk = D \<and> disk_avail (smem st) disk = A \<and>
     length (handlers (intc (snd st))) = 1024 \<and> length (handler_params (intc (snd st))) = 1024 \<and>
     current_job (kern (snd st)) = cur"

lemma load64_frame:
  assumes "same_outside X m m'" and "region p l \<inter> X = {}" and "i + 8 \<le> l" and "l \<le> 2 ^ 64"
  shows "load64 m' (fld p i) = load64 m (fld p i)"
  by (rule load_frame [OF assms])

lemma disk_frame:
  assumes "same_outside X m m'" and "region disk 32 \<inter> X = {}"
  shows "disk_mmio m' disk = disk_mmio m disk" "disk_descriptors m' disk = disk_descriptors m disk" "disk_avail m' disk = disk_avail m disk"
  using load64_frame [OF assms, of 0] load64_frame [OF assms, of 8] load64_frame [OF assms, of 16]
  by (simp_all add: disk_mmio_def disk_descriptors_def disk_avail_def)

lemma avail_idx_frame:
  assumes "same_outside X m m'" and "region A 2054 \<inter> X = {}"
  shows "get_avail_idx m' A = get_avail_idx m A"
  unfolding get_avail_idx_def by (rule load_frame [OF assms]) simp_all

lemma request_frame:
  assumes rq: "request_queued m D A n req ptr sec" and w: "same_outside X m m'" and n: "unat n < 1024"
    and off: "region D 48 \<inter> X = {}" "region A 2054 \<inter> X = {}" "region req 17 \<inter> X = {}"
  shows "request_queued m' D A n req ptr sec"
  using rq n unfolding request_queued_def desc_at_def get_avail_idx_def
  by (simp add: load_frame [OF w off(1)] load_frame [OF w off(2)] load_frame [OF w off(3)] del: fld_0)

lemma sync_alloc:
  assumes ok: "heap_ok m h R" and i: "i < unat (blocks h)" "i \<notin> runs_taken R" "{..<i} \<subseteq> runs_taken R"
  obtains m1 where "kalloc m h 16 = Some (m1, h\<lparr>free_blocks := free_blocks h - 1\<rparr>, heap_run_addr h i)"
    and "heap_ok m1 (h\<lparr>free_blocks := free_blocks h - 1\<rparr>) (insert (i, 1) R)" and "same_outside (table_bytes h) m m1"
proof -
  have sz: "0 < unat (16 :: u64)" and one: "ceil_div (unat (16 :: u64)) 4096 = 1" by (simp_all add: ceil_div_def)
  have fits: "blk_fits m (heap_table h) (unat (blocks h)) 1 j \<longleftrightarrow> j < unat (blocks h) \<and> j \<notin> runs_taken R" for j
    unfolding heap_ok_fits [OF ok] by auto
  from heap_alloc_eq [OF ok sz] fits i obtain j m1 where
    j: "blk_fits m (heap_table h) (unat (blocks h)) 1 j" "\<forall>l < j. \<not> blk_fits m (heap_table h) (unat (blocks h)) 1 l"
      "heap_alloc m h 16 = Some (m1, h\<lparr>free_blocks := free_blocks h - 1\<rparr>, heap_run_addr h j)"
      "same_outside (region (heap_table h + of_nat j) 1) m m1" "heap_ok m1 (h\<lparr>free_blocks := free_blocks h - 1\<rparr>) (insert (j, 1) R)"
    unfolding one by auto
  have "j = i"
  proof (rule linorder_cases [of j i])
    show "j < i \<Longrightarrow> j = i" using j(1) i(3) unfolding fits by blast
    show "i < j \<Longrightarrow> j = i" using j(2) i(1,2) unfolding fits by blast
  qed simp
  moreover have "j < unat (blocks h)" using j(1) unfolding fits by blast
  then have "same_outside (table_bytes h) m m1"
    unfolding table_bytes_def using unat_less64 [of "blocks h"] by (intro same_outside_mono [OF j(4)] region_sub) simp_all
  ultimately show thesis using that [of m1] j(3,5) by (simp add: kalloc_def sysutils_kernel_heap_alloc_def)
qed

lemma sync_free:
  assumes ok: "heap_ok m (h\<lparr>free_blocks := free_blocks h - 1\<rparr>) (insert (i, 1) R)" and i: "i \<notin> runs_taken R"
  obtains m' where "kfree m (h\<lparr>free_blocks := free_blocks h - 1\<rparr>) (heap_run_addr h i) = Some (m', h)" and "heap_ok m' h R"
    and "same_outside (table_bytes h) m m'"
proof -
  have "heap_ok m (h\<lparr>free_blocks := free_blocks h - of_nat 1\<rparr>) (insert (i, 1) R)" using ok by simp
  moreover have "(i, 1) \<notin> R" using i by (force simp: runs_taken_def)
  ultimately show thesis by (rule kfree_space) (use that in simp)
qed

section \<open>Waiting for the interrupt\<close>

abbreviation fiq_frame :: "wait_frame \<Rightarrow> addr" where
  \<comment> \<open>where the entry code of an interrupt in the loop leaves the registers\<close>
  "fiq_frame wfr \<equiv> wait_sp wfr - 256"

definition disk_waits :: "'d virtio_device \<Rightarrow> wait_frame \<Rightarrow> addr \<Rightarrow> addr \<Rightarrow> addr \<Rightarrow> machine \<Rightarrow> bool" where
  \<comment> \<open>the loop waits with interrupts enabled and the handler of the disk registered\<close>
  "disk_waits dv wfr base disk sync s \<longleftrightarrow>
     \<not> bit (DAIF (regs (kern s))) 6 \<and> gic_delivers (intc s) 79 \<and>
     length (handlers (intc s)) = 1024 \<and> length (handler_params (intc s)) = 1024 \<and>
     handlers (intc s) ! 79 = Some Disk_handle_interrupt_sync \<and> handler_params (intc s) ! 79 = sync \<and>
     get_sync_done (kmem (kern s)) sync = 0 \<and> get_sync_disk (kmem (kern s)) sync = disk \<and> disk_mmio (kmem (kern s)) disk = base"

lemma sync_frame:
  assumes "same_outside X m m'" and "region sync 16 \<inter> X = {}"
  shows "get_sync_done m' sync = get_sync_done m sync" "get_sync_disk m' sync = get_sync_disk m sync"
proof -
  have "fld sync 8 \<in> region sync 16" by (rule fld_byte) simp_all
  then show "get_sync_done m' sync = get_sync_done m sync"
    unfolding get_sync_done_def using assms(2) by (intro same_outsideD [OF assms(1)]) blast
  show "get_sync_disk m' sync = get_sync_disk m sync" using load64_frame [OF assms, of 0] by (simp add: get_sync_disk_def)
qed

lemma disk_waits_frame:
  assumes "disk_waits dv wfr base disk sync s" and w: "same_outside X (kmem (kern s)) m"
    and "region sync 16 \<inter> X = {}" and "region disk 32 \<inter> X = {}"
  shows "disk_waits dv wfr base disk sync (s\<lparr>kern := (kern s)\<lparr>kmem := m\<rparr>\<rparr>)"
  using assms(1) sync_frame [OF w assms(3)] disk_frame [OF w assms(4)] by (simp add: disk_waits_def)

lemma currentelx_fiq_disk:
  assumes s: "disk_waits dv wfr base disk sync s"
    and ack: "\<forall>m. reg_wr dv d m (base + 0x64) (reg_read dv d (base + 0x60)) = (d', m)"
    and ap: "region sync 16 \<inter> region (fiq_frame wfr) 256 = {}" "region disk 32 \<inter> region (fiq_frame wfr) 256 = {}"
  obtains m' r where "currentelx_fiq dv wfr 79 (d, s) = Some (d', s\<lparr>kern := (kern s)\<lparr>kmem := m', regs := r\<rparr>,
      intc := gic_interface_end_of_interrupt_group0 (intc s) 79\<rparr>)"
    and "same_outside (region (fiq_frame wfr) 256 \<union> region sync 16) (kmem (kern s)) m'" and "get_sync_done m' sync = 1"
proof -
  let ?F = "fiq_frame wfr" and ?m = "kmem (kern s)"
  have "fld ?F 256 = wait_sp wfr" by (simp add: fld_def)
  then obtain m1 where m1: "push_registers ?m (wait_sp wfr) (wait_x wfr) = (m1, ?F)" "frame_at m1 ?F (wait_x wfr)"
    "same_outside (region ?F 256) ?m m1" using push_registers_frame [of ?m ?F "wait_x wfr"] by auto
  let ?m2 = "set_sync_done m1 sync 1" and ?r = "(regs (kern s))\<lparr>ELR_EL1 := wait_pc wfr, SPSR_EL1 := wait_pstate wfr\<rparr>"
  have at: "get_sync_disk m1 sync = disk" "disk_mmio m1 disk = base"
    using s sync_frame [OF m1(3) ap(1)] disk_frame [OF m1(3) ap(2)] by (simp_all add: disk_waits_def)
  have irq: "disk_handle_interrupt_sync dv (d, m1) sync = (d', ?m2)"
    using at ack by (simp add: disk_handle_interrupt_sync_def disk_set_reg_def disk_read_reg_def)
  have w2: "same_outside (region sync 16) m1 ?m2" unfolding set_sync_done_def by (rule same_outside_fun_upd [OF fld_byte]) simp_all
  have "frame_at ?m2 ?F (wait_x wfr)" by (rule frame_at_kept [OF m1(2) w2]) (use ap(1) in blast)
  then have pop: "pop_registers ?m2 ?F i = wait_x wfr i" if "i \<le> 30" for i using that by (rule frame_pop)
  have "gic_redistributor_get_handler (intc s) 79 = Some (Some Disk_handle_interrupt_sync)"
    "gic_redistributor_get_handler_param (intc s) 79 = Some sync"
    using s by (simp_all add: disk_waits_def gic_redistributor_get_handler_def gic_redistributor_get_handler_param_def)
  then have "currentelx_fiq dv wfr 79 (d, s) = Some (d', s\<lparr>kern := (kern s)\<lparr>kmem := ?m2, regs := ?r\<rparr>,
      intc := gic_interface_end_of_interrupt_group0 (intc s) 79\<rparr>)"
    using m1(1) irq pop
    by (simp add: currentelx_fiq_def exceptions_handle_fiq_def gic_interface_read_and_ack_group0_def list_all_iff Let_def)
  moreover have "same_outside (region ?F 256 \<union> region sync 16) ?m ?m2"
    by (rule same_outside_trans [OF same_outside_mono [OF m1(3)] same_outside_mono [OF w2]]) blast+
  moreover have "get_sync_done ?m2 sync = 1" by (simp add: get_sync_done_def set_sync_done_def)
  ultimately show thesis by (rule that)
qed

text \<open>The loop ends when the device does its part: by rule induction over the steps of the device.\<close>

lemma disk_wait_ends:
  assumes "request_completes dv seen n W stored d m" and "disk_waits dv wfr base disk sync s" and "kmem (kern s) = m"
    and ack: "\<forall>n d. seen n d \<longrightarrow>
      (\<exists>d'. (\<forall>m. reg_wr dv d m (base + 0x64) (reg_read dv d (base + 0x60)) = (d', m)) \<and> seen n d' \<and> \<not> disk_line dv d')"
    and ap: "region sync 16 \<inter> (region (fiq_frame wfr) 256 \<union> W) = {}" "region disk 32 \<inter> (region (fiq_frame wfr) 256 \<union> W) = {}"
  shows "\<exists>d' m1 m' r. disk_wait dv wfr sync (d, s) = Some (d', s\<lparr>kern := (kern s)\<lparr>kmem := m', regs := r\<rparr>,
      intc := gic_interface_end_of_interrupt_group0 (intc s) 79\<rparr>) \<and>
    seen n d' \<and> \<not> disk_line dv d' \<and> stored m1 \<and> same_outside W m m1 \<and>
    same_outside (region (fiq_frame wfr) 256 \<union> region sync 16) m1 m'"
  using assms(1-3)
proof (induction arbitrary: s)
  case (request_served d m)
  obtain d' where d': "\<forall>m. reg_wr dv d m (base + 0x64) (reg_read dv d (base + 0x60)) = (d', m)" "seen n d'" "\<not> disk_line dv d'"
    using ack request_served by blast
  have "region sync 16 \<inter> region (fiq_frame wfr) 256 = {}" "region disk 32 \<inter> region (fiq_frame wfr) 256 = {}" using ap by blast+
  then obtain m' r where f: "currentelx_fiq dv wfr 79 (d, s) = Some (d', s\<lparr>kern := (kern s)\<lparr>kmem := m', regs := r\<rparr>,
      intc := gic_interface_end_of_interrupt_group0 (intc s) 79\<rparr>)"
    "same_outside (region (fiq_frame wfr) 256 \<union> region sync 16) (kmem (kern s)) m'" "get_sync_done m' sync = 1"
    by (rule currentelx_fiq_disk [OF request_served.prems(1) d'(1)])
  have "fiq_pending dv (d, s) = Some 79" "get_sync_done (kmem (kern s)) sync = 0"
    using request_served by (simp_all add: fiq_pending_def disk_waits_def)
  then have "disk_wait dv wfr sync (d, s) = Some (d', s\<lparr>kern := (kern s)\<lparr>kmem := m', regs := r\<rparr>,
      intc := gic_interface_end_of_interrupt_group0 (intc s) 79\<rparr>)"
    using f(1,3) by (simp add: disk_wait.simps)
  then show ?case using d' f(2) request_served by blast
next
  case (request_waits d m d' m')
  let ?s = "s\<lparr>kern := (kern s)\<lparr>kmem := m'\<rparr>\<rparr>"
  have "same_outside W (kmem (kern s)) m'" "region sync 16 \<inter> W = {}" "region disk 32 \<inter> W = {}"
    using request_waits.hyps(4) request_waits.prems(2) ap by auto
  then have "disk_waits dv wfr base disk sync ?s" by (rule disk_waits_frame [OF request_waits.prems(1)])
  from request_waits.IH [OF this] obtain d2 m1 m2 r where ih:
    "disk_wait dv wfr sync (d', ?s) = Some (d2, s\<lparr>kern := (kern s)\<lparr>kmem := m2, regs := r\<rparr>,
      intc := gic_interface_end_of_interrupt_group0 (intc s) 79\<rparr>)"
    "seen n d2" "\<not> disk_line dv d2" "stored m1" "same_outside W m' m1"
    "same_outside (region (fiq_frame wfr) 256 \<union> region sync 16) m1 m2" by auto
  have "fiq_pending dv (d, s) = None" "get_sync_done (kmem (kern s)) sync = 0"
    using request_waits by (simp_all add: fiq_pending_def disk_waits_def)
  then have "disk_wait dv wfr sync (d, s) = disk_wait dv wfr sync (d', ?s)"
    using request_waits.hyps(3) request_waits.prems(2) by (subst disk_wait.simps) simp
  then show ?case using ih same_outside_trans [OF request_waits.hyps(4) ih(5)] by auto
qed

section \<open>One request\<close>

lemma virtio_apartD:
  assumes "virtio_apart disk req D A U F h R i"
  defines "S \<equiv> region (heap_run_addr h i) 16"
  shows "queue_apart disk req D A 2054"
    and "region disk 32 \<inter> (region req 17 \<union> region D 48 \<union> region A 2054 \<union> region U 8198 \<union> region F 256 \<union> table_bytes h \<union> S) = {}"
    and "region req 17 \<inter> (region U 8198 \<union> table_bytes h \<union> S) = {}" and "region D 48 \<inter> (region U 8198 \<union> table_bytes h \<union> S) = {}"
    and "region A 2054 \<inter> (region req 17 \<union> region U 8198 \<union> region F 256 \<union> table_bytes h \<union> S) = {}"
    and "region U 8198 \<inter> (table_bytes h \<union> S) = {}"
    and "table_bytes h \<inter> (region req 17 \<union> region D 48 \<union> region A 2054 \<union> region U 8198 \<union> region F 256 \<union> S) = {}"
    and "S \<inter> (region req 17 \<union> region U 8198 \<union> region F 256 \<union> table_bytes h) = {}"
    and "i < unat (blocks h)" "i \<notin> runs_taken R" "{..<i} \<subseteq> runs_taken R"
  using assms by (auto simp: virtio_apart_def queue_apart_def table_bytes_def simp del: in_region)

lemma sync_written:
  shows "same_outside (region sync 16) m (set_sync_done (set_sync_disk m sync disk) sync 0)"
    and "get_sync_disk (set_sync_done (set_sync_disk m sync disk) sync 0) sync = disk"
    and "get_sync_done (set_sync_done m' sync v) sync = v"
proof -
  show "same_outside (region sync 16) m (set_sync_done (set_sync_disk m sync disk) sync 0)"
    unfolding set_sync_done_def set_sync_disk_def
    by (rule same_outside_trans [OF store_fld_outside same_outside_fun_upd [OF fld_byte]]) simp_all
  have "load64 ((set_sync_disk m sync disk)(fld sync 8 := 0)) (fld sync 0) = load64 (set_sync_disk m sync disk) (fld sync 0)"
    by (rule load_le_same_outside [of "{fld sync 8}"]) (auto simp: same_outside_def fld_def)
  then show "get_sync_disk (set_sync_done (set_sync_disk m sync disk) sync 0) sync = disk"
    by (simp add: get_sync_disk_def set_sync_done_def set_sync_disk_def load_store_le del: fld_0)
  show "get_sync_done (set_sync_done m' sync v) sync = v" by (simp add: get_sync_done_def set_sync_done_def)
qed

lemma set_handler_waits:
  assumes "length (handlers g) = 1024" and "length (handler_params g) = 1024" and "gic_delivers g 79"
  obtains g' where "gic_redistributor_set_handler g 79 (Some Disk_handle_interrupt_sync) sync = Some g'" and "gic_delivers g' 79"
    and "length (handlers g') = 1024" and "length (handler_params g') = 1024"
    and "handlers g' ! 79 = Some Disk_handle_interrupt_sync" and "handler_params g' ! 79 = sync"
proof -
  let ?g = "g\<lparr>handlers := (handlers g)[79 := Some Disk_handle_interrupt_sync], handler_params := (handler_params g)[79 := sync]\<rparr>"
  have "gic_delivers ?g 79" using gic_delivers_cong [of ?g g] assms(3) by simp
  then show thesis using that [of ?g] assms by (simp add: gic_redistributor_set_handler_def)
qed

lemma mask_fiq_bit: "bit (DAIF (sysutils_mask_fiq r b)) 6 = b"
  by (simp add: sysutils_mask_fiq_def bit_daif_set bit_daif_clear)

lemma virtio_request:
  assumes dev: "virtio_disk dv seen sectors base D A U" and ap: "virtio_apart disk req D A U (fiq_frame wfr) h R i"
    and rdy: "virtio_ready cur dv seen base disk D A h R (Suc k) st" and sec: "sec < 2 ^ 22"
    and ptr: "region ptr 512 \<inter> virtio_bytes disk req D A U (fiq_frame wfr) h i = {}"
  obtains st' where "sector_read (disk_register_block_device dv wfr req disk) st ptr (int sec) = Some st'"
    and "virtio_ready cur dv seen base disk D A h R k st'" and "\<forall>i < 512. smem st' (ptr + of_nat i) = sectors sec i"
    and "same_outside (region ptr 512 \<union> virtio_bytes disk req D A U (fiq_frame wfr) h i) (smem st) (smem st')"
proof -
  let ?W = "virtio_bytes disk req D A U (fiq_frame wfr) h i" and ?sync = "heap_run_addr h i" and ?T = "table_bytes h" and ?m = "smem st"
  let ?h = "h\<lparr>free_blocks := free_blocks h - 1\<rparr>" and ?F = "region (fiq_frame wfr) 256"
  note off = virtio_apartD [OF ap]
  obtain j where j: "j + Suc k \<le> 1024" "seen (of_nat j) (fst st)" "get_avail_idx ?m A = of_nat j" using rdy by (auto simp: virtio_ready_def)
  have rd: "main_heap (kern (snd st)) = h" "heap_ok ?m h R" "disk_mmio ?m disk = base" "disk_descriptors ?m disk = D" "disk_avail ?m disk = A"
    "length (handlers (intc (snd st))) = 1024" "length (handler_params (intc (snd st))) = 1024"
    "current_job (kern (snd st)) = cur" "\<not> disk_line dv (fst st)" "gic_delivers (intc (snd st)) 79" using rdy by (simp_all add: virtio_ready_def)
  have uj: "unat (of_nat j :: u16) = j" using j(1) by (simp add: unat_of_nat take_bit_nat_eq_self)
  have rn: "4 + 2 * unat (of_nat j :: u16) + 2 \<le> 2054" using j(1) uj by simp
  let ?m1 = "disk_fill_queue ?m disk req 0 ptr (int sec)"
  have w1: "same_outside (region req 17 \<union> region D 48 \<union> region A 2054) ?m ?m1"
    by (rule disk_fill_queue_frame [OF off(1) rn _ rd(4,5) j(3)]) simp
  have q1: "request_queued ?m1 D A (of_nat j) req ptr (of_nat sec)"
    using disk_fill_queue_chain [OF off(1) rn _ rd(4,5) j(3), of 0 ptr "int sec"] uj j(1) by (simp add: request_queued_def)
  have ok1: "heap_ok ?m1 h R" by (rule heap_ok_frame [OF rd(2) w1]) (use off(7) in \<open>unfold table_bytes_def [symmetric], blast\<close>)
  obtain m2 where m2: "kalloc ?m1 h 16 = Some (m2, ?h, ?sync)" "heap_ok m2 ?h (insert (i, 1) R)" "same_outside ?T ?m1 m2"
    by (rule sync_alloc [OF ok1 off(9-11)])
  let ?m3 = "set_sync_done (set_sync_disk m2 ?sync disk) ?sync 0"
  note sw = sync_written(1,2) [where sync = ?sync and m = m2 and disk = disk]
    sync_written(3) [where m' = "set_sync_disk m2 ?sync disk" and sync = ?sync and v = 0]
  have w13: "same_outside (?T \<union> region ?sync 16) ?m1 ?m3"
    by (rule same_outside_trans [OF same_outside_mono [OF m2(3)] same_outside_mono [OF sw(1)]]) blast+
  have q3: "request_queued ?m3 D A (of_nat j) req ptr (of_nat sec)"
    by (rule request_frame [OF q1 w13]) (use off(3-5) uj j(1) in \<open>simp, blast+\<close>)
  have st: "region (req + 16) 1 \<subseteq> region req 17" using region_sub [of 16 1 17 req] by simp
  have pt: "region ptr 512 \<inter> (region (req + 16) 1 \<union> region U 8198) = {}" using ptr st unfolding virtio_bytes_def by blast
  let ?S = "region ?sync 16" and ?P = "region ptr 512 \<union> region (req + 16) 1 \<union> region U 8198"
  let ?stored = "\<lambda>m. \<forall>i < 512. m (ptr + of_nat i) = sectors (unat (of_nat sec :: u64)) i"
  obtain d4 m4 where m4: "reg_wr dv (fst st) ?m3 (base + 0x50) 0 = (d4, m4)" "same_outside ?P ?m3 m4"
    "request_completes dv seen (of_nat j + 1) ?P ?stored d4 m4"
    using dev j(2) rd(9) q3 pt unfolding virtio_disk_def by blast
  let ?Q = "region req 17 \<union> region D 48 \<union> region A 2054 \<union> ?T \<union> ?S"
  have ptW: "region ptr 512 \<inter> region disk 32 = {}" "region ptr 512 \<inter> ?S = {}" "region ptr 512 \<inter> ?T = {}" "region ptr 512 \<inter> region A 2054 = {}"
    "region ptr 512 \<inter> ?F = {}"
    using ptr unfolding virtio_bytes_def by blast+
  have w03: "same_outside ?Q ?m ?m3" by (rule same_outside_trans [OF same_outside_mono [OF w1] same_outside_mono [OF w13]]) blast+
  have ddD: "region disk 32 \<inter> ?Q = {}" "region disk 32 \<inter> (?F \<union> ?S \<union> ?T) = {}" using off(2) by blast+
  have ddP: "region disk 32 \<inter> (?F \<union> ?P) = {}" using off(2) ptW(1) st by blast
  have ddS: "?S \<inter> (?F \<union> ?P) = {}" using off(8) ptW(2) st by blast
  have ddA: "region A 2054 \<inter> ?P = {}" using off(5) ptW(4) st by blast
  have ddT: "region A 2054 \<inter> (?F \<union> ?S \<union> ?T) = {}" using off(5) by blast
  have dd: "region disk 32 \<inter> ?P = {}" "?S \<inter> ?P = {}" using ddP ddS by blast+
  have mm: "disk_mmio ?m3 disk = base" "disk_mmio m4 disk = base"
    using disk_frame [OF w03 ddD(1)] disk_frame [OF m4(2) dd(1)] rd(3) by simp_all
  obtain g where g: "gic_redistributor_set_handler (intc (snd st)) 79 (Some Disk_handle_interrupt_sync) ?sync = Some g" "gic_delivers g 79"
    "length (handlers g) = 1024" "length (handler_params g) = 1024" "handlers g ! 79 = Some Disk_handle_interrupt_sync" "handler_params g ! 79 = ?sync"
    by (rule set_handler_waits [OF rd(6,7,10)])
  let ?s = "(snd st)\<lparr>kern := (kern (snd st))\<lparr>kmem := m4, main_heap := ?h, regs := sysutils_mask_fiq (regs (kern (snd st))) False\<rparr>, intc := g\<rparr>"
  have "disk_waits dv wfr base disk ?sync ?s"
    using g(2-6) mm(2) sw(2,3) sync_frame [OF m4(2) dd(2)] by (simp add: disk_waits_def mask_fiq_bit)
  moreover have "kmem (kern ?s) = m4" by simp
  ultimately obtain d5 m5 m6 r where w: "disk_wait dv wfr ?sync (d4, ?s) = Some (d5, ?s\<lparr>kern := (kern ?s)\<lparr>kmem := m6, regs := r\<rparr>,
      intc := gic_interface_end_of_interrupt_group0 (intc ?s) 79\<rparr>)" "seen (of_nat j + 1) d5" "\<not> disk_line dv d5" "?stored m5"
    "same_outside ?P m4 m5" "same_outside (?F \<union> ?S) m5 m6"
    using disk_wait_ends [OF m4(3) _ _ _ ddS ddP, of base ?s] dev unfolding virtio_disk_def by blast
  have w35: "same_outside ?P ?m3 m5" by (rule same_outside_trans [OF m4(2) w(5)])
  have w26: "same_outside (?P \<union> ?F \<union> ?S) m2 m6"
    by (rule same_outside_trans [OF same_outside_mono [OF sw(1)] same_outside_trans [OF same_outside_mono [OF w35] same_outside_mono [OF w(6)]]]) blast+
  have "heap_ok m6 ?h (insert (i, 1) R)"
    by (rule heap_ok_frame [OF m2(2) w26]) (use off(7) ptW(3) st in \<open>simp add: table_bytes_def [symmetric], blast\<close>)
  then obtain m7 where m7: "kfree m6 ?h ?sync = Some (m7, h)" "heap_ok m7 h R" "same_outside ?T m6 m7" by (rule sync_free [OF _ off(10)])
  have ci: "c_int (of_nat sec) = int sec" using sec by (simp add: c_int_small unat_of_nat64)
  have notify: "disk_set_reg dv disk VIRTIO_QUEUE_NOTIFY_OFFSET 0 (fst st, ?m3) = (d4, m4)" using m4(1) mm(1) by (simp add: disk_set_reg_def)
  have gd: "gic_delivers (gic_interface_end_of_interrupt_group0 g 79) 79"
    using g(2) gic_delivers_cong [of "gic_interface_end_of_interrupt_group0 g 79" g] by (simp add: gic_interface_end_of_interrupt_group0_def)
  obtain st' where st': "sector_read (disk_register_block_device dv wfr req disk) st ptr (int sec) = Some st'"
    "smem st' = m7" "fst st' = d5" "main_heap (kern (snd st')) = h" "length (handlers (intc (snd st'))) = 1024" "length (handler_params (intc (snd st'))) = 1024"
    "current_job (kern (snd st')) = cur" "gic_delivers (intc (snd st')) 79"
    unfolding sector_read_def block_read_def disk_register_block_device_def disk_block_read_def disk_create_request_sync_def Let_def
    using m2(1) g(1,3,4) notify w(1) m7(1) rd(1,8) gd
    by (simp add: ci smem_def) (simp add: gic_interface_end_of_interrupt_group0_def)
  have w57: "same_outside (?F \<union> ?S \<union> ?T) m5 m7" by (rule same_outside_trans [OF same_outside_mono [OF w(6)] same_outside_mono [OF m7(3)]]) blast+
  have idx: "get_avail_idx m7 A = of_nat (Suc j)"
    using avail_idx_frame [OF w57 ddT] avail_idx_frame [OF w35 ddA] q3 by (simp add: request_queued_def ac_simps)
  note dk = disk_frame [OF w03 ddD(1)] disk_frame [OF w35 dd(1)] disk_frame [OF w57 ddD(2)]
  have "virtio_ready cur dv seen base disk D A h R k st'"
    unfolding virtio_ready_def st'(2-7) using j(1) w(2,3) idx m7(2) dk rd(3-5) st'(8) by (auto intro!: exI [of _ "Suc j"] simp: ac_simps)
  moreover have "\<forall>i < 512. smem st' (ptr + of_nat i) = sectors sec i"
  proof (intro allI impI)
    fix l :: nat
    assume l: "l < 512"
    have "ptr + of_nat l \<in> region ptr 512" by (rule region_offset [OF l]) simp
    then have "m7 (ptr + of_nat l) = m5 (ptr + of_nat l)" using ptW by (intro same_outsideD [OF w57]) blast
    then show "smem st' (ptr + of_nat l) = sectors sec l" using w(4) l sec by (simp add: st'(2) unat_of_nat64)
  qed
  moreover have "same_outside (region ptr 512 \<union> ?W) ?m (smem st')"
  proof -
    have "same_outside (region ptr 512 \<union> ?W) ?m ?m3" by (rule same_outside_mono [OF w03]) (auto simp: virtio_bytes_def simp del: in_region)
    also have "same_outside (region ptr 512 \<union> ?W) ?m3 m5" by (rule same_outside_mono [OF w35]) (use st in \<open>auto simp: virtio_bytes_def simp del: in_region\<close>)
    also have "same_outside (region ptr 512 \<union> ?W) m5 m7" by (rule same_outside_mono [OF w57]) (auto simp: virtio_bytes_def simp del: in_region)
    finally show ?thesis unfolding st'(2) .
  qed
  ultimately show thesis using that st'(1) by blast
qed


section \<open>The driver as a block device\<close>

definition virtio_idle ::
  "addr \<Rightarrow> 'd virtio_device \<Rightarrow> (u16 \<Rightarrow> 'd \<Rightarrow> bool) \<Rightarrow> addr \<Rightarrow> addr \<Rightarrow> addr \<Rightarrow> addr \<Rightarrow> nat \<Rightarrow> 'd \<times> machine \<Rightarrow> bool" where
  \<comment> \<open>no request and no interrupt of the disk is pending, the interrupt controller delivers the next one, and \<open>k\<close> more
    requests fit into the ring, while the job \<open>cur\<close> runs\<close>
  "virtio_idle cur dv seen base disk D A k st \<longleftrightarrow> \<not> disk_line dv (fst st) \<and> gic_delivers (intc (snd st)) 79 \<and>
     (\<exists>j. j + k \<le> 1024 \<and> seen (of_nat j) (fst st) \<and> get_avail_idx (smem st) A = of_nat j) \<and>
     disk_mmio (smem st) disk = base \<and> disk_descriptors (smem st) disk = D \<and> disk_avail (smem st) disk = A \<and>
     length (handlers (intc (snd st))) = 1024 \<and> length (handler_params (intc (snd st))) = 1024 \<and>
     current_job (kern (snd st)) = cur"

definition virtio_own :: "addr \<Rightarrow> addr \<Rightarrow> addr \<Rightarrow> addr \<Rightarrow> addr \<Rightarrow> addr \<Rightarrow> addr set" where
  "virtio_own disk req D A U F = region disk 32 \<union> region req 17 \<union> region D 48 \<union> region A 2054 \<union> region U 8198 \<union> region F 256"

lemma virtio_ready_world: "virtio_ready cur dv seen base disk D A h R k st \<longleftrightarrow> world (virtio_idle cur dv seen base disk D A) h R k st"
  by (auto simp: virtio_ready_def virtio_idle_def world_def heap_of_def)

lemma first_free:
  assumes "heap_room h R 1"
  obtains i where "i < unat (blocks h)" and "i \<notin> runs_taken R" and "{..<i} \<subseteq> runs_taken R"
proof -
  let ?P = "\<lambda>i. i < unat (blocks h) \<and> i \<notin> runs_taken R"
  have "\<exists>i. ?P i" using assms by (auto simp: heap_room_def Suc_le_eq)
  then have least: "?P (Least ?P)" by (rule LeastI_ex)
  moreover have "j \<in> runs_taken R" if "j < Least ?P" for j using not_less_Least [OF that] that least by auto
  ultimately show thesis using that [of "Least ?P"] by blast
qed

lemma virtio_in_rest:
  assumes ok: "heap_ok m h R" and ta: "heap_table_apart h" and ap: "apart_all [(disk, 32), (req, 17), (D, 48), (A, 2054), (U, 8198), (F, 256)]"
    and off: "virtio_own disk req D A U F \<inter> heap_rest h R = {}" and i: "i < unat (blocks h)" "i \<notin> runs_taken R" "{..<i} \<subseteq> runs_taken R"
  shows "virtio_apart disk req D A U F h R i" and "virtio_bytes disk req D A U F h i \<subseteq> virtio_own disk req D A U F \<union> heap_rest h R"
proof -
  let ?S = "region (heap_run_addr h i) 16"
  have one: "i + 1 \<le> unat (blocks h)" "{i..<i + 1} \<inter> runs_taken R = {}" using i by auto
  have "?S \<subseteq> region (heap_run_addr h i) (4096 * 1)" by (rule region_mono) simp
  then have S: "?S \<subseteq> heap_rest h R" using run_in_rest [OF ok one] by auto
  have T: "table_bytes h \<subseteq> heap_rest h R" by (rule table_in_rest)
  have "?S \<subseteq> heap_bytes h" using heap_run_in_area [OF ok one(1)] region_mono [of 16 4096 "heap_run_addr h i"] by (auto simp: heap_bytes_def)
  then have TS: "table_bytes h \<inter> ?S = {}" using ta by (auto simp: heap_table_apart_def heap_bytes_def table_bytes_def simp del: in_region)
  show "virtio_apart disk req D A U F h R i"
    using ap i off S T TS unfolding virtio_apart_def virtio_own_def table_bytes_def by (auto simp del: in_region)
  show "virtio_bytes disk req D A U F h i \<subseteq> virtio_own disk req D A U F \<union> heap_rest h R"
    unfolding virtio_bytes_def virtio_own_def using S T by blast
qed

lemma virtio_idle_stable:
  assumes "virtio_idle cur dv seen base disk D A n st" and w: "same_outside (- virtio_own disk req D A U F) (smem st) m"
  shows "virtio_idle cur dv seen base disk D A n (set_heap st m h)"
proof -
  have sub: "region disk 32 \<inter> - virtio_own disk req D A U F = {}" "region A 2054 \<inter> - virtio_own disk req D A U F = {}"
    by (auto simp: virtio_own_def simp del: in_region)
  show ?thesis
    using assms(1) disk_frame [OF w sub(1)] avail_idx_frame [OF w sub(2)] by (simp add: virtio_idle_def) (simp add: set_heap_def)
qed

lemma virtio_device:
  fixes dv :: "'d virtio_device"
  assumes dev: "virtio_disk dv seen sectors base D A U" and ap: "apart_all [(disk, 32), (req, 17), (D, 48), (A, 2054), (U, 8198), (fiq_frame wfr, 256)]"
  shows "block_device (disk_register_block_device dv wfr req disk) sectors (virtio_own disk req D A U (fiq_frame wfr)) (virtio_idle cur dv seen base disk D A)"
proof
  fix h R
  let ?W = "virtio_own disk req D A U (fiq_frame wfr) \<union> heap_rest h R" and ?ready = "virtio_idle cur dv seen base disk D A"
  assume ta: "heap_table_apart h" and room: "heap_room h R 1" and off: "virtio_own disk req D A U (fiq_frame wfr) \<inter> heap_rest h R = {}"
  obtain i where i: "i < unat (blocks h)" "i \<notin> runs_taken R" "{..<i} \<subseteq> runs_taken R" using room by (rule first_free)
  show "block_serves (disk_register_block_device dv wfr req disk) sectors ?W (world ?ready h R)"
    unfolding block_serves_def
  proof (intro conjI allI impI; (elim conjE)?)
    fix n sec :: nat and ptr st
    assume r: "world ?ready h R (Suc n) st" and sec: "sec < 2 ^ 22" and ptr: "region ptr 512 \<inter> ?W = {}"
    have ok: "heap_ok (smem st) h R" using r by (simp add: world_def)
    note va = virtio_in_rest [OF ok ta ap off i]
    have "region ptr 512 \<inter> virtio_bytes disk req D A U (fiq_frame wfr) h i = {}" using ptr va(2) by blast
    from virtio_request [OF dev va(1) r [folded virtio_ready_world] sec this]
    obtain st' where st': "sector_read (disk_register_block_device dv wfr req disk) st ptr (int sec) = Some st'" "virtio_ready cur dv seen base disk D A h R n st'"
      "\<forall>i < 512. smem st' (ptr + of_nat i) = sectors sec i" "same_outside (region ptr 512 \<union> virtio_bytes disk req D A U (fiq_frame wfr) h i) (smem st) (smem st')" .
    moreover have "same_outside (region ptr 512 \<union> ?W) (smem st) (smem st')" by (rule same_outside_mono [OF st'(4)]) (use va(2) in blast)
    ultimately show "\<exists>st'. sector_read (disk_register_block_device dv wfr req disk) st ptr (int sec) = Some st' \<and> world ?ready h R n st' \<and>
        (\<forall>i < 512. smem st' (ptr + of_nat i) = sectors sec i) \<and> same_outside (region ptr 512 \<union> ?W) (smem st) (smem st')"
      unfolding virtio_ready_world by blast
  next
    fix n m and st :: "'d \<times> machine"
    assume r: "world ?ready h R n st" and w: "same_outside (- ?W) (smem st) m"
    have "same_outside (- virtio_own disk req D A U (fiq_frame wfr)) (smem st) m" by (rule same_outside_mono [OF w]) blast
    moreover have "?ready n st" using r by (simp add: world_def)
    ultimately have "?ready n (set_heap st m h)" by (rule virtio_idle_stable [rotated])
    moreover have "heap_ok m h R" by (rule heap_ok_off_rest [OF _ w]) (use r in \<open>auto simp: world_def\<close>)
    ultimately show "world ?ready h R n (set_smem st m)" using r by (simp add: world_def)
  qed
qed (rule virtio_idle_stable, simp_all add: virtio_idle_def set_regs_def smem_def)

interpretation virtio: block_device "disk_register_block_device dv wfr req disk" sectors "virtio_own disk req D A U (fiq_frame wfr)"
    "\<lambda>n st. (virtio_disk dv seen sectors base D A U \<and> apart_all [(disk, 32), (req, 17), (D, 48), (A, 2054), (U, 8198), (fiq_frame wfr, 256)]) \<and> virtio_idle cur dv seen base disk D A n st"
  for dv wfr req disk sectors D A U seen base cur
  by (rule block_device_if) (rule virtio_device; simp)

text \<open>
  C6. The virtio driver refines the contract of a block device: \<open>disk_block_read\<close> behind \<open>block_read\<close> returns, its loop over
  \<open>sync->done\<close> ended by the interrupt it has enabled, stores exactly the sector asked for at the pointer, and writes nothing
  else but the driver's own bytes and the free part of the heap; it is ready again for the next request, until 1024 requests
  were made, whatever others allocate or write elsewhere and however the interrupts were masked before. The hypotheses: after a
  notification the device serves a read as the virtio specification says and raises its line after finitely many steps, before
  the timer raises its own, and lowers it when acknowledged (\<open>virtio_disk\<close>); the interrupt controller
  is set up to deliver interrupt 79, as \<open>enable_gic\<close> leaves it, and no interrupt of the disk is pending at the call
  (\<open>virtio_idle\<close>); the queue, the request, the driver's structure and the stack below the loop lie at separate places.
\<close>
theorem virtio_block_device:
  assumes "virtio_disk dv seen sectors base D A U"
    and "apart_all [(disk, 32), (req, 17), (D, 48), (A, 2054), (U, 8198), (fiq_frame wfr, 256)]"
  shows "block_device (disk_register_block_device dv wfr req disk) sectors (virtio_own disk req D A U (fiq_frame wfr))
    (virtio_idle cur dv seen base disk D A)"
  by (rule virtio_device [OF assms])

text \<open>
  A device for examples: its state is the number of entries it has processed and its phase, 0 when idle, 2 when it
  was notified, 1 when it has served the request and its line is up. It serves the request one step after the notification,
  following the chain of the next entry.
\<close>

type_synonym example_dev = "u16 \<times> nat"

definition example_virtio :: "addr \<Rightarrow> addr \<Rightarrow> addr \<Rightarrow> (nat \<Rightarrow> nat \<Rightarrow> u8) \<Rightarrow> example_dev virtio_device" where
  "example_virtio base D A sectors = \<lparr>
     reg_read = \<lambda>d a. if a = base + 0x60 \<and> snd d = 1 then 1 else 0,
     reg_wr = \<lambda>d m a v.
       if a = base + 0x50 then ((fst d, 2), m)
       else if a = base + 0x64 then ((fst d, if v = 1 then 0 else snd d), m)
       else (d, m),
     dev_step = \<lambda>d m.
       if snd d = 2 then
         (let d0 = desc_at m D (unat (load16 m (fld A (4 + 2 * (unat (fst d) mod 1024)))));
              d1 = desc_at m D (unat (d_next d0)); d2 = desc_at m D (unat (d_next d1));
              sec = load64 m (fld (d_addr d0) 8)
          in ((fst d + 1, 1), \<lambda>p. if p \<in> region (d_addr d1) 512 then sectors (unat sec) (unat (p - d_addr d1))
                          else if p = d_addr d2 then 0 else m p))
       else (d, m),
     disk_line = \<lambda>d. snd d = 1,
     timer_line = \<lambda>d t. False\<rparr>"

definition example_seen :: "u16 \<Rightarrow> example_dev \<Rightarrow> bool" where
  "example_seen n d \<longleftrightarrow> fst d = n \<and> snd d \<le> 1"

lemma example_virtio_disk: "virtio_disk (example_virtio base D A sectors) example_seen sectors base D A U"
  unfolding virtio_disk_def
proof (intro conjI allI impI; (elim conjE)?)
  fix n and d :: example_dev and m req ptr and sec :: u64
  let ?dv = "example_virtio base D A sectors" and ?W = "region ptr 512 \<union> region (req + 16) 1 \<union> region U 8198"
  let ?stored = "\<lambda>m. \<forall>i < 512. m (ptr + of_nat i) = sectors (unat sec) i"
  assume n: "example_seen n d" and rq: "request_queued m D A n req ptr sec"
  have d2: "d_addr (desc_at m D 2) = req + 16" using rq unfolding request_queued_def by (metis desc.select_convs(1) desc.update_convs(4) desc.surjective)
  let ?m' = "\<lambda>p. if p \<in> region ptr 512 then sectors (unat sec) (unat (p - ptr)) else if p = req + 16 then 0 else m p"
  have "?m' (ptr + of_nat i) = sectors (unat sec) i" if "i < 512" for i using that by (simp add: unat_of_nat64)
  then have rc: "request_completes ?dv example_seen (n + 1) ?W ?stored (n + 1, 1) ?m'"
    by (intro request_served) (simp_all add: example_virtio_def example_seen_def del: in_region)
  have step: "dev_step ?dv (n, 2) m = ((n + 1, 1), ?m')"
    using rq d2 by (simp add: example_virtio_def request_queued_def Let_def cong: if_cong del: in_region)
  have out: "same_outside ?W m ?m'" by (auto simp: same_outside_def)
  have "request_completes ?dv example_seen (n + 1) ?W ?stored (n, 2) m"
    by (rule request_waits [OF _ _ step out rc]) (simp_all add: example_virtio_def)
  moreover have "reg_wr ?dv d m (base + 0x50) 0 = ((n, 2), m)" using n by (simp add: example_virtio_def example_seen_def)
  ultimately show "\<exists>d' m'. reg_wr ?dv d m (base + 0x50) 0 = (d', m') \<and> same_outside ?W m m' \<and>
      request_completes ?dv example_seen (n + 1) ?W ?stored d' m'"
    by (intro exI [of _ "(n, 2)"] exI [of _ m]) simp
next
  fix n and d :: example_dev
  assume "example_seen n d"
  then show "\<exists>d'. (\<forall>m. reg_wr (example_virtio base D A sectors) d m (base + 0x64) (reg_read (example_virtio base D A sectors) d (base + 0x60)) = (d', m)) \<and>
      example_seen n d' \<and> \<not> disk_line (example_virtio base D A sectors) d'"
    by (auto simp: example_virtio_def example_seen_def)
qed

definition example_wait :: wait_frame where
  \<comment> \<open>the waiting loop with 256 bytes of stack above 0x8200\<close>
  "example_wait = \<lparr>wait_pc = 0x40002000, wait_pstate = 0x5, wait_sp = 0x8300, wait_x = (\<lambda>i. of_nat i), lit_unhandled = 0x40003000\<rparr>"

definition example_virtio_mem :: mem where
  \<comment> \<open>the driver's structure at 0x8000 with the queue at 0x9000, 0xa000 and 0xc000\<close>
  "example_virtio_mem = store64 (store64 (store64 (\<lambda>_. 0) (fld 0x8000 0) 0xa003e00) (fld 0x8000 8) 0x9000) (fld 0x8000 16) 0xa000"

abbreviation example_machine :: machine where
  "example_machine \<equiv> \<lparr>kern = job_example\<lparr>kmem := example_virtio_mem, main_heap := example_heap\<rparr>, intc = example_gic, tim = example_timer,
     console = [], exceptions_context_switch_x30 = NULL\<rparr>"

abbreviation example_idle :: "(nat \<Rightarrow> nat \<Rightarrow> u8) \<Rightarrow> addr \<Rightarrow> nat \<Rightarrow> example_dev \<times> machine \<Rightarrow> bool" where
  "example_idle sectors cur \<equiv>
     virtio_idle cur (example_virtio 0xa003e00 0x9000 0xa000 sectors) example_seen 0xa003e00 0x8000 0x9000 0xa000"

lemma example_virtio_ready: "world (example_idle sectors NULL) example_heap {} 1024 ((0, 0), example_machine)"
proof -
  have low: "same_outside (region 0x8000 32) (\<lambda>_. 0) example_virtio_mem"
    unfolding example_virtio_mem_def
    by (rule same_outside_trans [OF store_fld_outside same_outside_trans [OF store_fld_outside store_fld_outside]]) simp_all
  have "heap_ok example_virtio_mem example_heap {}" by (rule heap_ok_frame [OF heap_ok_example low], rule regions_apart) simp_all
  moreover have "region 0xa000 2054 \<inter> region (0x8000 :: addr) 32 = {}" by (rule regions_apart) simp_all
  then have "get_avail_idx example_virtio_mem 0xa000 = 0"
    using avail_idx_frame [OF low, of "0xa000"] load_le_zero [of 2 "\<lambda>_. 0" "fld 0xa000 2"] by (simp add: get_avail_idx_def)
  moreover have "disk_mmio example_virtio_mem 0x8000 = 0xa003e00" "disk_descriptors example_virtio_mem 0x8000 = 0x9000"
    "disk_avail example_virtio_mem 0x8000 = 0xa000"
    by (simp_all add: example_virtio_mem_def disk_mmio_def disk_descriptors_def disk_avail_def load_store_le load_store_fld del: fld_0)
  moreover have "length (handlers example_gic) = 1024" "length (handler_params example_gic) = 1024" by (simp_all add: example_gic_def)
  ultimately show ?thesis
    using example_gic_delivers by (simp add: world_def heap_of_def virtio_idle_def smem_def example_seen_def example_virtio_def)
qed

theorem virtio_block_device_witness:
  "\<exists>st'. sector_read (disk_register_block_device (example_virtio 0xa003e00 0x9000 0xa000 (\<lambda>sec i. of_nat (sec + i))) example_wait 0x8100 0x8000)
      ((0, 0), example_machine) 0x20000 7 = Some st' \<and> smem st' 0x20005 = 12"
proof -
  let ?s = "\<lambda>sec i. of_nat (sec + i) :: u8" and ?W = "virtio_own 0x8000 0x8100 0x9000 0xa000 0xc000 0x8200"
  let ?b = "disk_register_block_device (example_virtio 0xa003e00 0x9000 0xa000 ?s) example_wait 0x8100 0x8000" and ?r = "example_idle ?s NULL"
  have ap: "apart_all [(0x8000 :: addr, 32), (0x8100, 17), (0x9000, 48), (0xa000, 2054), (0xc000, 8198), (0x8200, 256)]" by (simp add: regions_apart)
  have off: "?W \<inter> heap_rest example_heap {} = {}" "region 0x20000 512 \<inter> (?W \<union> heap_rest example_heap {}) = {}"
    unfolding virtio_own_def heap_rest_def table_bytes_def heap_bytes_def by (simp add: Int_Un_distrib Int_Un_distrib2 heap_extents_def regions_apart)+
  have ta: "heap_table_apart example_heap" unfolding heap_table_apart_def by (rule regions_apart) simp_all
  have room: "heap_room example_heap {} 1" unfolding heap_room_def by (rule exI [of _ 0]) (simp add: runs_taken_def)
  have fr: "fiq_frame example_wait = 0x8200" by (simp add: example_wait_def)
  have dev: "block_device ?b ?s ?W ?r"
    using virtio_block_device [OF example_virtio_disk, of "0x8000" "0x8100" "0x9000" "0xa000" "0xc000" example_wait] ap unfolding fr by blast
  have serves: "block_serves ?b ?s (?W \<union> heap_rest example_heap {}) (world ?r example_heap {})"
    by (rule block_device.serves [OF dev ta room off(1)])
  have rdy: "world ?r example_heap {} (Suc 1023) ((0, 0), example_machine)" using example_virtio_ready [of ?s] by simp
  have sec: "(7 :: nat) < 2 ^ 22" by simp
  have "\<exists>st'. sector_read ?b ((0, 0), example_machine) 0x20000 (int 7) = Some st' \<and> (\<forall>i < 512. smem st' (0x20000 + of_nat i) = ?s 7 i)"
    using serves rdy sec off(2) unfolding block_serves_def by blast
  then show ?thesis by (auto dest: spec [of _ 5])
qed

end
