(* ===== verification/Fatfs_Properties.thy ===== *)
theory Fatfs_Properties
  imports Virtio_Properties File_Source
begin

text \<open>
  Reading a file of a FAT disk, byte by byte through the buffer of its inode, as the loader of programs
  does: every byte is the byte of the file, on any driver that keeps the contract of a block device.
\<close>

section \<open>A file on the disk\<close>

definition fat_file :: "mem \<Rightarrow> addr \<Rightarrow> addr \<Rightarrow> addr \<Rightarrow> nat \<Rightarrow> nat \<Rightarrow> nat list \<Rightarrow> nat \<Rightarrow> bool" where
  \<comment> \<open>in a volume with \<open>k\<close> sectors of 512 bytes to the cluster whose data start at byte \<open>d\<close>, the entry \<open>e\<close> is a
    file of \<open>sz\<close> bytes in the clusters \<open>cl\<close>, chained by the table at \<open>t\<close>\<close>
  "fat_file m vol e t k d cl sz \<longleftrightarrow> h_bytes_per_sector m vol = 512 \<and> unat (h_sectors_per_cluster m vol) = k \<and> 0 < k \<and>
     unat (h_data_offset m vol) = d \<and> h_fat m vol = t \<and> unat (e_filesize_bytes m e) = sz \<and> sz < 2 ^ 31 \<and> sz \<le> 512 * k * length cl \<and>
     (cl \<noteq> [] \<longrightarrow> unat (e_starting_cluster m e) = cl ! 0) \<and>
     (\<forall>i. Suc i < length cl \<longrightarrow> load16 m (fld t (2 * cl ! i)) = of_nat (cl ! Suc i)) \<and>
     (\<forall>c \<in> set cl. 2 \<le> c \<and> c < 65536 \<and> d + 512 * k * (c - 1) + 1024 < 2 ^ 31)"

definition file_byte :: "(nat \<Rightarrow> nat \<Rightarrow> u8) \<Rightarrow> nat \<Rightarrow> nat \<Rightarrow> nat list \<Rightarrow> nat \<Rightarrow> u8" where
  "file_byte disk k d cl i = disk_byte disk (d + 512 * k * (cl ! (i div (512 * k)) - 2) + i mod (512 * k))"

definition fat_area :: "addr \<Rightarrow> addr \<Rightarrow> addr \<Rightarrow> addr set" where
  "fat_area vol e t = region vol 584 \<union> region e 32 \<union> region t 131072"

lemma fat_file_frame:
  assumes f: "fat_file m vol e t k d cl sz" and w: "same_outside X m m'" and ap: "fat_area vol e t \<inter> X = {}"
  shows "fat_file m' vol e t k d cl sz"
proof -
  have a: "region vol 584 \<inter> X = {}" "region e 32 \<inter> X = {}" "region t 131072 \<inter> X = {}" using ap by (auto simp: fat_area_def simp del: in_region)
  have "fld vol 13 \<notin> X" using fld_byte [of 13 584 vol] a(1) by (auto simp del: in_region)
  then have "h_sectors_per_cluster m' vol = h_sectors_per_cluster m vol" using same_outsideD [OF w] by (simp add: h_sectors_per_cluster_def)
  moreover have "load16 m' (fld t (2 * c)) = load16 m (fld t (2 * c))" if "c < 65536" for c
    by (rule load_frame [OF w a(3)]) (use that in simp_all)
  then have "load16 m' (fld t (2 * cl ! i)) = load16 m (fld t (2 * cl ! i))" if "Suc i < length cl" for i
    using f that nth_mem [of i cl] by (simp add: fat_file_def)
  moreover have "h_bytes_per_sector m' vol = h_bytes_per_sector m vol" "h_data_offset m' vol = h_data_offset m vol" "h_fat m' vol = h_fat m vol"
    "e_filesize_bytes m' e = e_filesize_bytes m e" "e_starting_cluster m' e = e_starting_cluster m e"
    by (simp_all add: h_bytes_per_sector_def h_data_offset_def h_fat_def e_filesize_bytes_def e_starting_cluster_def load_frame [OF w a(1)] load_frame [OF w a(2)])
  ultimately show ?thesis using f by (simp add: fat_file_def)
qed

lemma fat_skip_chain:
  assumes f: "fat_file m vol e t k d cl sz" and i: "j + i < length cl"
  shows "fat_skip m vol i (int (cl ! j)) = int (cl ! (j + i))"
  using i
proof (induction i arbitrary: j)
  case (Suc i)
  have j: "Suc j < length cl" using Suc.prems by simp
  have "cl ! Suc j < 65536" using f nth_mem [OF j] by (simp add: fat_file_def)
  then have "fat_entry m vol (int (cl ! j)) = int (cl ! Suc j)"
    using f j by (simp add: fat_file_def fat_entry_def fld_def uint_nat unat_of_nat take_bit_nat_eq_self)
  then show ?case using Suc.IH [of "Suc j"] Suc.prems by simp
qed simp

lemma fat_skip_start:
  assumes f: "fat_file m vol e t k d cl sz" and i: "i < length cl"
  shows "fat_skip m vol i (uint (e_starting_cluster m e)) = int (cl ! i)"
proof -
  have "unat (e_starting_cluster m e) = cl ! 0" using f i unfolding fat_file_def by fastforce
  then have "uint (e_starting_cluster m e) = int (cl ! 0)" by (simp only: uint_nat)
  then show ?thesis using fat_skip_chain [OF f, of 0 i] i by simp
qed

lemma cluster_bounds:
  assumes f: "fat_file m vol e t k d cl sz" and c: "c \<in> set cl"
  shows "k < 256" and "512 * k < 2 ^ 31" and "d + 512 * k * (c - 2) + 512 * k + 1024 < 2 ^ 31"
proof -
  show "k < 256" using f unsigned_less [of "h_sectors_per_cluster m vol"] by (auto simp: fat_file_def)
  then show "512 * k < 2 ^ 31" by simp
  have "2 \<le> c" "d + 512 * k * (c - 1) + 1024 < 2 ^ 31" using f c by (simp_all add: fat_file_def)
  moreover have "c - 1 = Suc (c - 2)" using calculation(1) by simp
  ultimately show "d + 512 * k * (c - 2) + 512 * k + 1024 < 2 ^ 31" by simp
qed

lemma fat_cluster_size: "fat_file m vol e t k d cl sz \<Longrightarrow> fat_get_cluster_size m vol = int (512 * k)"
  by (auto simp: fat_file_def fat_get_cluster_size_def uint_nat)

lemma cluster_offset:
  assumes f: "fat_file m vol e t k d cl sz" and c: "c \<in> set cl"
  shows "h_data_offset m vol + of_int (uint (h_sectors_per_cluster m vol) * uint (h_bytes_per_sector m vol)) * (of_nat c - 2) =
    of_nat (d + 512 * k * (c - 2))"
proof -
  have "2 \<le> c" and d: "h_data_offset m vol = of_nat d" using f c by (auto simp: fat_file_def)
  then have "(of_nat c - 2 :: u64) = of_nat (c - 2)" by simp
  moreover have "uint (h_sectors_per_cluster m vol) * uint (h_bytes_per_sector m vol) = int (512 * k)"
    using f by (auto simp: fat_file_def uint_nat)
  ultimately have "h_data_offset m vol + of_int (uint (h_sectors_per_cluster m vol) * uint (h_bytes_per_sector m vol)) * (of_nat c - 2) =
      of_nat d + of_nat (512 * k) * of_nat (c - 2)" using d by (simp only: of_int_of_nat_word)
  then show ?thesis by (simp only: of_nat_add of_nat_mult)
qed

definition requests :: "nat \<Rightarrow> nat \<Rightarrow> nat" where
  \<comment> \<open>requests to the driver for one cluster\<close>
  "requests k d = k + (if d mod 512 = 0 then 0 else 1)"

lemma fat_read_cluster_ok:
  assumes serves: "block_serves blk disk W' ready'" and f: "fat_file (smem st) vol e t k d cl sz" and c: "c \<in> set cl"
    and rdy: "ready' (n + requests k d) st" and ap: "region lb 512 \<inter> W' = {}" "region buf (512 * k) \<inter> (region lb 512 \<union> W') = {}"
  obtains st' where "fat_read_cluster blk lb st vol (of_int (int c)) (int (512 * k)) buf = Some st'" and "ready' n st'"
    and "copied disk st' buf (512 * k) (d + 512 * k * (c - 2))"
    and "same_outside (region buf (512 * k) \<union> region lb 512 \<union> W') (smem st) (smem st')"
proof -
  note b = cluster_bounds [OF f c]
  have k: "0 < k" using f by (simp add: fat_file_def)
  let ?o = "d + 512 * k * (c - 2)"
  have u: "unat (of_nat ?o :: u64) = ?o" "unat (of_nat (512 * k) :: u64) = 512 * k"
    by (rule unat_of_nat64; use b in simp)+
  have cd: "ceil_div (512 * k) 512 = k" by (simp add: ceil_div_def)
  have "?o mod 512 = d mod 512" by (simp add: mult.assoc)
  then have rdy': "ready' (n + ceil_div (unat (of_nat (512 * k) :: u64)) 512 + (if unat (of_nat ?o :: u64) mod 512 = 0 then 0 else 1)) st"
    using rdy unfolding u cd requests_def by (simp add: add.assoc)
  obtain st' where "fat_load_data blk lb st buf (of_nat ?o) (of_nat (512 * k)) = Some st'" "ready' n st'"
    "copied disk st' buf (512 * ceil_div (unat (of_nat (512 * k) :: u64)) 512) (unat (of_nat ?o :: u64))"
    "same_outside (region buf (512 * ceil_div (unat (of_nat (512 * k) :: u64)) 512) \<union> region lb 512 \<union> W') (smem st) (smem st')"
    by (rule fat_load_data_ok [OF serves ap(1) _ _ rdy']) (use ap(2) k b in \<open>simp_all only: u cd, simp_all\<close>)
  then show thesis using that [of st'] cluster_offset [OF f c] unfolding u cd fat_read_cluster_def Let_def of_int_of_nat_word by simp
qed

lemma file_byte_sector:
  assumes "i < 512"
  shows "file_byte disk k d cl (512 * j + i) = disk_byte disk (d + 512 * k * (cl ! (j div k) - 2) + (512 * (j mod k) + i))"
proof -
  have "(512 * j + i) div 512 = j" "(512 * j + i) mod 512 = i" using assms by simp_all
  then have "(512 * j + i) div (512 * k) = j div k" "(512 * j + i) mod (512 * k) = 512 * (j mod k) + i"
    by (simp_all add: div_mult2_eq mod_mult2_eq)
  then show ?thesis by (simp add: file_byte_def)
qed

lemma sector_words:
  assumes "0 < k" and "k < 256" and "512 * j < 2 ^ 31"
  defines "cs \<equiv> of_int (int (512 * k)) :: u64"
  shows "c_int ((of_int (512 * int j) :: u64) div cs) = int (j div k)" and "c_int ((of_int (512 * int j) :: u64) mod cs) = int (512 * (j mod k))"
    and "min_int 512 (c_int (cs - of_int (int (512 * (j mod k))))) = 512" and "c_int cs = int (512 * k)" and "unat cs = 512 * k"
proof -
  have o: "(of_int (512 * int j) :: u64) = of_nat (512 * j)" by simp
  have u: "unat (of_nat (512 * j) :: u64) = 512 * j" by (rule unat_of_nat64) (use assms(3) in simp)
  show cs: "unat cs = 512 * k" unfolding cs_def of_int_of_nat_word by (rule unat_of_nat64) (use assms(2) in simp)
  have m: "j mod k < k" using assms(1) by simp
  have s: "(512 * j) div (512 * k) = j div k" "(512 * j) mod (512 * k) = 512 * (j mod k)" by (simp, simp only: mult_mod_right)
  have "unat ((of_int (512 * int j) :: u64) div cs) = j div k" unfolding o unat_div64 u cs by (rule s)
  moreover have "j div k < 2 ^ 31" using assms(3) div_le_dividend [of j k] by linarith
  ultimately show "c_int ((of_int (512 * int j) :: u64) div cs) = int (j div k)" by (simp add: c_int_small)
  have "unat ((of_int (512 * int j) :: u64) mod cs) = 512 * (j mod k)" unfolding o unat_mod64 u cs by (rule s)
  moreover have "512 * (j mod k) < 2 ^ 31" using assms(2) m by simp
  ultimately show "c_int ((of_int (512 * int j) :: u64) mod cs) = int (512 * (j mod k))" by (simp add: c_int_small)
  show "c_int cs = int (512 * k)" using assms(2) cs by (simp add: c_int_small)
  have r: "unat (of_nat (512 * (j mod k)) :: u64) = 512 * (j mod k)" by (rule unat_of_nat64) (use m assms(2) in simp)
  have le: "(of_nat (512 * (j mod k)) :: u64) \<le> cs" unfolding word_le_nat_alt r cs using m by simp
  have "unat (cs - of_nat (512 * (j mod k))) = 512 * k - 512 * (j mod k)" using unat_sub [OF le] r cs by simp
  moreover have "512 \<le> 512 * k - 512 * (j mod k)" using m by simp
  ultimately have "c_int (cs - of_nat (512 * (j mod k))) \<ge> 512" using assms(2) by (subst c_int_small) simp_all
  then show "min_int 512 (c_int (cs - of_int (int (512 * (j mod k))))) = 512" unfolding of_int_of_nat_word by (simp add: min_int_def)
qed

lemma offset_loop_done: "fat_offset_loop blk lb st vol buf cs 0 out c = Some (st, 0, out, c)"
  by (subst fat_offset_loop.simps) simp

lemma st_memcpy_512:
  assumes "region src 512 \<inter> region ptr 512 = {}"
  obtains m where "st_memcpy st ptr src (of_int 512) = Some (set_heap st m (heap_of st))" and "\<forall>i < 512. m (ptr + of_nat i) = smem st (src + of_nat i)"
    and "same_outside (region ptr 512) (smem st) m"
proof -
  let ?m = "\<lambda>p. if p \<in> region ptr 512 then smem st (src + (p - ptr)) else smem st p"
  have "memcpy (smem st) ptr src 512 = Some (?m, ptr)" using memcpy_copy [of src 512 ptr "smem st"] assms by simp
  moreover have "same_outside (region ptr 512) (smem st) ?m" by (simp add: same_outside_def)
  moreover have "\<forall>i < 512. ?m (ptr + of_nat i) = smem st (src + of_nat i)" by (simp add: unat_of_nat64)
  ultimately show thesis using that [of ?m] by (simp add: st_memcpy_def)
qed

context block_device
begin

lemma fat_cluster_load:
  \<comment> \<open>the buffer from the heap and the cluster read into it\<close>
  assumes wd: "world ready h R (n + requests k d) st"
    and hp: "heap_table_apart h" "heap_room h R (ceil_div (512 * k) 4096 + 1)" "W \<inter> heap_rest h R = {}"
    and f: "fat_file (smem st) vol e t k d cl sz" and c: "c \<in> set cl"
    and ap: "region lb 512 \<inter> (W \<union> heap_rest h R) = {}" "fat_area vol e t \<inter> heap_rest h R = {}"
  defines "b \<equiv> ceil_div (512 * k) 4096"
  defines "h1 \<equiv> h\<lparr>free_blocks := free_blocks h - of_nat b\<rparr>"
  obtains i buf st1 st2 where "buf = heap_run_addr h i" and "(i, b) \<notin> R" and "region buf (512 * k) \<subseteq> heap_rest h R"
    and "heap_rest h1 (insert (i, b) R) \<subseteq> heap_rest h R"
    and "st_kalloc st (of_int (int (512 * k))) = Some (st1, buf)" and "fat_file (smem st1) vol e t k d cl sz"
    and "fat_read_cluster blk lb st1 vol (of_int (int c)) (int (512 * k)) buf = Some st2" and "world ready h1 (insert (i, b) R) n st2"
    and "copied disk st2 buf (512 * k) (d + 512 * k * (c - 2))" and "same_outside (region lb 512 \<union> W \<union> heap_rest h R) (smem st) (smem st2)"
proof -
  let ?F = "heap_rest h R" and ?cs = "of_int (int (512 * k)) :: u64"
  have st: "heap_of st = h" "heap_ok (smem st) h R" "ready (n + requests k d) st" using wd by (simp_all add: world_def)
  have cs: "unat ?cs = 512 * k" unfolding of_int_of_nat_word by (rule unat_of_nat64) (use cluster_bounds(1) [OF f c] in simp)
  have pos: "0 < unat ?cs" unfolding cs using f by (simp add: fat_file_def)
  obtain m1 i buf where a: "buf = heap_run_addr h i" "kalloc (smem st) h ?cs = Some (m1, h1, buf)" "buf \<noteq> NULL"
    "heap_ok m1 h1 (insert (i, b) R)" "(i, b) \<notin> R" "heap_room h (insert (i, b) R) 1"
    "region buf (4096 * b) \<subseteq> ?F" "heap_rest h (insert (i, b) R) = ?F - region buf (4096 * b)"
    "same_outside (?F - region buf (4096 * b)) (smem st) m1"
    using kalloc_space [OF st(2) hp(1) pos] hp(2) unfolding cs b_def h1_def by metis
  let ?st1 = "set_heap st m1 h1" and ?R = "insert (i, b) R"
  have buf: "region buf (512 * k) \<subseteq> region buf (4096 * b)" by (rule region_mono) (use ceil_div_ge [of 4096 "512 * k"] in \<open>simp add: b_def\<close>)
  have G: "heap_rest h1 ?R = ?F - region buf (4096 * b)" using a(8) by (simp add: h1_def)
  have W1: "same_outside (- W) (smem st) m1" by (rule same_outside_mono [OF a(9)]) (use hp(3) in blast)
  then have wd1: "world ready h1 ?R (n + requests k d) ?st1" using stable [OF st(3)] a(4) by (simp add: world_def)
  have f1: "fat_file (smem ?st1) vol e t k d cl sz" using fat_file_frame [OF f a(9)] ap(2) by (auto simp del: in_region)
  have "heap_table_apart h1" "heap_room h1 ?R 1" "W \<inter> heap_rest h1 ?R = {}" using hp(1,3) a(6) G by (auto simp: h1_def heap_table_apart_def heap_room_def)
  then have serves: "block_serves blk disk (W \<union> heap_rest h1 ?R) (world ready h1 ?R)" by (rule serves)
  have apl: "region lb 512 \<inter> (W \<union> heap_rest h1 ?R) = {}" "region buf (512 * k) \<inter> (region lb 512 \<union> (W \<union> heap_rest h1 ?R)) = {}"
    using ap(1) a(7) buf hp(3) unfolding G by blast+
  obtain st2 where r: "fat_read_cluster blk lb ?st1 vol (of_int (int c)) (int (512 * k)) buf = Some st2" "world ready h1 ?R n st2"
    "copied disk st2 buf (512 * k) (d + 512 * k * (c - 2))"
    "same_outside (region buf (512 * k) \<union> region lb 512 \<union> (W \<union> heap_rest h1 ?R)) (smem ?st1) (smem st2)"
    by (rule fat_read_cluster_ok [OF serves f1 c wd1 apl])
  have "same_outside (region lb 512 \<union> W \<union> ?F) (smem st) (smem st2)"
    by (rule same_outside_trans [OF same_outside_mono [OF a(9)] same_outside_mono [OF r(4) [unfolded heap_state(1)]]]) (use buf a(7) G in blast)+
  moreover have "st_kalloc st ?cs = Some (?st1, buf)" by (simp only: st_alloc st(1) a(2) option.map prod.case)
  ultimately show thesis using that [OF a(1,5) _ _ _ f1 r(1-3)] buf a(7) G by blast
qed

lemma fat_sector_load:
  assumes wd: "world ready h R (n + requests k d) st"
    and hp: "heap_table_apart h" "heap_room h R (ceil_div (512 * k) 4096 + 1)" "W \<inter> heap_rest h R = {}"
    and f: "fat_file (smem st) vol e t k d cl sz" and j: "512 * j < sz"
    and ap: "region lb 512 \<inter> (W \<union> heap_rest h R) = {}" "region ptr 512 \<inter> (region lb 512 \<union> W \<union> heap_rest h R) = {}" "fat_area vol e t \<inter> heap_rest h R = {}"
  obtains st' where "fat_read_entry_offset_size blk lb st vol e ptr (512 * int j) 512 = Some st'" and "world ready h R n st'"
    and "\<forall>i < 512. smem st' (ptr + of_nat i) = file_byte disk k d cl (512 * j + i)"
    and "same_outside (region ptr 512 \<union> region lb 512 \<union> W \<union> heap_rest h R) (smem st) (smem st')"
proof -
  let ?F = "heap_rest h R" and ?b = "ceil_div (512 * k) 4096"
  let ?h = "h\<lparr>free_blocks := free_blocks h - of_nat ?b\<rparr>"
  have sz: "sz \<le> 512 * k * length cl" "0 < k" and j31: "512 * j < 2 ^ 31" using f j by (simp_all add: fat_file_def)
  have "512 * j < 512 * (length cl * k)" using j sz(1) by (simp add: mult_ac)
  then have "j < length cl * k" by simp
  then have jk: "j div k < length cl" by (rule less_mult_imp_div_less)
  then have c: "cl ! (j div k) \<in> set cl" by simp
  note words = sector_words [OF sz(2) cluster_bounds(1) [OF f c] j31]
  obtain i buf st1 st2 where b: "buf = heap_run_addr h i" "(i, ?b) \<notin> R" "region buf (512 * k) \<subseteq> ?F" "heap_rest ?h (insert (i, ?b) R) \<subseteq> ?F"
    "st_kalloc st (of_int (int (512 * k))) = Some (st1, buf)" "fat_file (smem st1) vol e t k d cl sz"
    "fat_read_cluster blk lb st1 vol (of_int (int (cl ! (j div k)))) (int (512 * k)) buf = Some st2" "world ready ?h (insert (i, ?b) R) n st2"
    "copied disk st2 buf (512 * k) (d + 512 * k * (cl ! (j div k) - 2))" "same_outside (region lb 512 \<union> W \<union> ?F) (smem st) (smem st2)"
    using wd hp f c ap(1,3) by (rule fat_cluster_load)
  let ?o = "512 * (j mod k)" and ?R = "insert (i, ?b) R"
  have o: "?o + 512 \<le> 512 * k" using mod_less_divisor [OF sz(2), of j] by simp
  have src: "region (buf + of_nat ?o) 512 \<subseteq> region buf (512 * k)" by (rule region_sub [OF o]) (use cluster_bounds(1) [OF f c] in simp)
  have "region (buf + of_nat ?o) 512 \<inter> region ptr 512 = {}" using src b(3) ap(2) by blast
  then obtain m3 where m3: "st_memcpy st2 ptr (buf + of_nat ?o) (of_int 512) = Some (set_heap st2 m3 (heap_of st2))"
    "\<forall>i < 512. m3 (ptr + of_nat i) = smem st2 (buf + of_nat ?o + of_nat i)" "same_outside (region ptr 512) (smem st2) m3"
    by (rule st_memcpy_512)
  have h2: "heap_of st2 = ?h" using b(8) by (simp add: world_def)
  have wd3: "world ready ?h ?R n (set_heap st2 m3 ?h)" by (rule world_write [OF b(8) m3(3)]) (use ap(2) b(4) in blast)
  then have "heap_ok m3 ?h ?R" by (simp add: world_def)
  then obtain m4 where m4: "kfree m3 ?h buf = Some (m4, h)" "heap_ok m4 h R" "same_outside (table_bytes h) m3 m4"
    unfolding b(1) using b(2) by (rule kfree_space)
  have tF: "table_bytes h \<subseteq> ?F" by (rule table_in_rest)
  have "same_outside (- W) m3 m4" by (rule same_outside_mono [OF m4(3)]) (use tF hp(3) in blast)
  then have wd4: "world ready h R n (set_heap st2 m4 h)"
    using stable [of n "set_heap st2 m3 ?h" m4 h] wd3 m4(2) by (simp add: world_def)
  have sk: "fat_skip (smem st1) vol (nat (int (j div k))) (uint (e_starting_cluster (smem st1) e)) = int (cl ! (j div k))"
    using fat_skip_start [OF b(6) jk] by (simp only: nat_int)
  have run: "fat_read_entry_offset_size blk lb st vol e ptr (512 * int j) 512 = Some (set_heap st2 m4 h)"
    unfolding fat_read_entry_offset_size_def Let_def fat_cluster_size [OF f] b(5) prod.case bind.bind_lunit words(1-4) sk b(7)
      m3(1) [folded of_int_of_nat_word] diff_self offset_loop_done
    by (simp add: st_alloc h2 m4(1))
  have "smem (set_heap st2 m4 h) (ptr + of_nat i) = file_byte disk k d cl (512 * j + i)" if i: "i < 512" for i
  proof -
    have "ptr + of_nat i \<in> region ptr 512" by (rule region_offset) (use i in simp_all)
    then have "m4 (ptr + of_nat i) = m3 (ptr + of_nat i)" using ap(2) tF by (intro same_outsideD [OF m4(3)]) blast
    moreover have "m3 (ptr + of_nat i) = smem st2 (buf + of_nat (?o + i))" using m3(2) i by (simp add: add.assoc)
    moreover have "?o + i < 512 * k" using i o by linarith
    then have "smem st2 (buf + of_nat (?o + i)) = disk_byte disk (d + 512 * k * (cl ! (j div k) - 2) + (?o + i))" using b(9) unfolding copied_def by blast
    ultimately show ?thesis using file_byte_sector [OF i] by simp
  qed
  moreover have "same_outside (region ptr 512 \<union> region lb 512 \<union> W \<union> ?F) (smem st) m4"
    by (rule same_outside_trans [OF same_outside_trans [OF same_outside_mono [OF b(10)] same_outside_mono [OF m3(3)]] same_outside_mono [OF m4(3)]])
      (use tF in blast)+
  ultimately show thesis using that [OF run wd4] by simp
qed

end

section \<open>The inode's buffer\<close>

definition fat_open :: "mem \<Rightarrow> addr \<Rightarrow> addr \<Rightarrow> addr \<Rightarrow> nat \<Rightarrow> int \<Rightarrow> bool" where
  \<comment> \<open>the position and the sector in the buffer\<close>
  "fat_open m fi vol e pos li \<longleftrightarrow> fi_fat_handle m fi = vol \<and> fi_fat16_dir_entry m fi = e \<and> fi_position m fi = int pos \<and>
     fi_loaded_buffer_index m fi = li"

definition buffer_holds :: "(nat \<Rightarrow> nat \<Rightarrow> u8) \<Rightarrow> nat \<Rightarrow> nat \<Rightarrow> nat list \<Rightarrow> mem \<Rightarrow> addr \<Rightarrow> nat \<Rightarrow> bool" where
  "buffer_holds disk k d cl m fi j \<longleftrightarrow> (\<forall>i < 512. m (fld fi 16 + of_nat i) = file_byte disk k d cl (512 * j + i))"

lemma fat_open_frame:
  assumes w: "same_outside (region (fld fi 16) 512 \<union> X) m m'" and ap: "region fi 536 \<inter> X = {}"
  shows "fat_open m' fi vol e pos li = fat_open m fi vol e pos li"
proof -
  have off: "region (fld fi o') n \<inter> (region (fld fi 16) 512 \<union> X) = {}" if "o' + n \<le> 16 \<or> 528 \<le> o'" "o' + n \<le> 536" for o' n
    using fld_apart [of o' n 16 512 fi] fld_sub [of o' n 536 fi] ap that by fastforce
  have "load64 m' (fld fi 0) = load64 m (fld fi 0)" "load64 m' (fld fi 8) = load64 m (fld fi 8)"
    "load32 m' (fld fi 528) = load32 m (fld fi 528)" "load32 m' (fld fi 532) = load32 m (fld fi 532)"
    by (rule load_le_same_outside [OF w off]; simp)+
  then show ?thesis
    unfolding fat_open_def fi_fat_handle_def fi_fat16_dir_entry_def fi_position_def fi_loaded_buffer_index_def by simp
qed

lemma fat_open_store:
  assumes "fat_open m fi vol e pos li" and "j < 2 ^ 31"
  shows "fat_open (store32 m (fld fi 532) (of_nat j)) fi vol e pos (int j)" and "fat_open (store32 m (fld fi 528) (of_nat j)) fi vol e j li"
  using assms by (simp_all add: fat_open_def fi_fat_handle_def fi_fat16_dir_entry_def fi_position_def fi_loaded_buffer_index_def
      load_store_le load_store_fld sint_of_nat32 del: fld_0)

context block_device
begin

lemma fatfs_fill:
  assumes wd: "world ready h R (n + (if pos mod 512 = 0 then requests k d else 0)) st"
    and hp: "heap_table_apart h" "heap_room h R (ceil_div (512 * k) 4096 + 1)" "W \<inter> heap_rest h R = {}"
    and f: "fat_file (smem st) vol e t k d cl sz" and pos: "pos < sz"
    and op: "fat_open (smem st) fi vol e pos (int (ceil_div pos 512) - 1)" "pos mod 512 \<noteq> 0 \<Longrightarrow> buffer_holds disk k d cl (smem st) fi (pos div 512)"
    and ap: "region lb 512 \<inter> (W \<union> heap_rest h R) = {}" "region fi 536 \<inter> (region lb 512 \<union> W \<union> heap_rest h R) = {}"
      "fat_area vol e t \<inter> (region fi 536 \<union> region lb 512 \<union> W \<union> heap_rest h R) = {}"
  obtains st' where
    "(if int (pos div 512) \<noteq> fi_loaded_buffer_index (smem st) fi
      then fat_read_entry_offset_size blk lb (set_smem st (store32 (smem st) (fld fi 532) (of_int (int (pos div 512))))) vol e (fld fi 16) (512 * int (pos div 512)) 512
      else Some st) = Some st'"
    and "world ready h R n st'" and "fat_open (smem st') fi vol e pos (int (pos div 512))" and "buffer_holds disk k d cl (smem st') fi (pos div 512)"
    and "same_outside (region fi 536 \<union> region lb 512 \<union> W \<union> heap_rest h R) (smem st) (smem st')"
proof (cases "pos mod 512 = 0")
  case False
  then have "int (ceil_div pos 512) - 1 = int (pos div 512)" by (simp add: ceil_div_def)
  moreover have "fi_loaded_buffer_index (smem st) fi = int (ceil_div pos 512) - 1" using op(1) by (simp add: fat_open_def)
  ultimately show thesis using that [of st] False wd op by simp
next
  case True
  let ?F = "heap_rest h R" and ?j = "pos div 512"
  let ?m = "store32 (smem st) (fld fi 532) (of_nat ?j)"
  have sz: "sz < 2 ^ 31" using f by (simp add: fat_file_def)
  have j: "512 * ?j < sz" "?j < 2 ^ 31" using True pos sz by auto
  have w: "same_outside (region fi 536) (smem st) ?m" by (rule store_fld_outside) simp_all
  have buf: "region (fld fi 16) 512 \<subseteq> region fi 536" by (rule fld_sub) simp_all
  have st: "heap_of st = h" "world ready h R (n + requests k d) st" using wd True by (simp_all add: world_def)
  have wd0: "world ready h R (n + requests k d) (set_heap st ?m h)" by (rule world_write [OF st(2) w]) (use ap(2) in blast)
  have f0: "fat_file (smem (set_heap st ?m h)) vol e t k d cl sz" unfolding heap_state by (rule fat_file_frame [OF f w]) (use ap(3) in blast)
  have ap': "region (fld fi 16) 512 \<inter> (region lb 512 \<union> W \<union> ?F) = {}" "fat_area vol e t \<inter> ?F = {}" using ap(2,3) buf by blast+
  obtain st' where st': "fat_read_entry_offset_size blk lb (set_heap st ?m h) vol e (fld fi 16) (512 * int ?j) 512 = Some st'" "world ready h R n st'"
    "\<forall>i < 512. smem st' (fld fi 16 + of_nat i) = file_byte disk k d cl (512 * ?j + i)"
    "same_outside (region (fld fi 16) 512 \<union> region lb 512 \<union> W \<union> ?F) (smem (set_heap st ?m h)) (smem st')"
    using wd0 hp f0 j(1) ap(1) ap' by (rule fat_sector_load)
  have w': "same_outside (region (fld fi 16) 512 \<union> (region lb 512 \<union> W \<union> ?F)) ?m (smem st')" using st'(4) by (simp add: Un_assoc)
  have "fat_open ?m fi vol e pos (int ?j)" by (rule fat_open_store(1) [OF op(1) j(2)])
  then have "fat_open (smem st') fi vol e pos (int ?j)" using fat_open_frame [OF w' ap(2)] by simp
  moreover have "same_outside (region fi 536 \<union> region lb 512 \<union> W \<union> ?F) (smem st) (smem st')"
    by (rule same_outside_trans [OF same_outside_mono [OF w] same_outside_mono [OF w']]) (use buf in blast)+
  moreover have "int ?j \<noteq> fi_loaded_buffer_index (smem st) fi" using op(1) True by (simp add: fat_open_def ceil_div_def)
  ultimately show thesis using that [of st'] st'(1-3) st(1) by (simp add: buffer_holds_def)
qed

end

section \<open>Reading bytes\<close>

definition fat_reading ::
  "symbols \<Rightarrow> (nat \<Rightarrow> nat \<Rightarrow> u8) \<Rightarrow> addr \<Rightarrow> addr \<Rightarrow> addr \<Rightarrow> addr \<Rightarrow> addr \<Rightarrow> nat \<Rightarrow> nat \<Rightarrow> nat list \<Rightarrow> nat \<Rightarrow> nat \<Rightarrow> mem \<Rightarrow> bool" where
  \<comment> \<open>the inode is open on the file at a position: the sector of the byte before it is in the buffer\<close>
  "fat_reading sy disk inode fi vol e t k d cl sz pos m \<longleftrightarrow> i_impl_inode m inode = fi \<and> i_get m inode = sym_fatfs_get sy \<and>
     fat_file m vol e t k d cl sz \<and> fat_open m fi vol e pos (int (ceil_div pos 512) - 1) \<and>
     (pos mod 512 \<noteq> 0 \<longrightarrow> buffer_holds disk k d cl m fi (pos div 512))"

lemma ceil_div_Suc: "ceil_div (Suc pos) 512 = Suc (pos div 512)"
proof -
  obtain q r where "pos = 512 * q + r" "r < 512" by (metis mult_div_mod_eq mod_less_divisor zero_less_numeral)
  then show ?thesis by (cases "r = 511") (simp_all add: ceil_div_def)
qed

lemma buffer_kept:
  assumes "buffer_holds disk k d cl m fi j" and "same_outside X m m'" and "region (fld fi 16) 512 \<inter> X = {}"
  shows "buffer_holds disk k d cl m' fi j"
proof -
  have "m' (fld fi 16 + of_nat i) = m (fld fi 16 + of_nat i)" if "i < 512" for i
  proof (rule same_outsideD [OF assms(2)])
    have "fld fi 16 + of_nat i \<in> region (fld fi 16) 512" by (rule region_offset) (use that in simp_all)
    then show "fld fi 16 + of_nat i \<notin> X" using assms(3) by blast
  qed
  then show ?thesis using assms(1) by (simp add: buffer_holds_def)
qed

context block_device
begin

lemma fatfs_get_step:
  assumes wd: "world ready h R (n + (if pos mod 512 = 0 then requests k d else 0)) st"
    and hp: "heap_table_apart h" "heap_room h R (ceil_div (512 * k) 4096 + 1)" "W \<inter> heap_rest h R = {}"
    and rd: "fat_reading sy disk inode fi vol e t k d cl sz pos (smem st)" and pos: "pos < sz"
    and ap: "region (load_buffer fr) 512 \<inter> (W \<union> heap_rest h R) = {}" "region fi 536 \<inter> (region (load_buffer fr) 512 \<union> W \<union> heap_rest h R) = {}"
      "fat_area vol e t \<inter> (region fi 536 \<union> region (load_buffer fr) 512 \<union> W \<union> heap_rest h R) = {}"
      "region inode 40 \<inter> (region fi 536 \<union> region (load_buffer fr) 512 \<union> W \<union> heap_rest h R) = {}"
    and q: "q \<notin> region inode 40 \<union> region fi 536 \<union> fat_area vol e t \<union> W \<union> heap_rest h R"
  obtains st' where "fatfs_get blk fr st inode q = Some (st', 1)" and "world ready h R n st'"
    and "fat_reading sy disk inode fi vol e t k d cl sz (Suc pos) (smem st')" and "smem st' q = file_byte disk k d cl pos"
    and "same_outside ({q} \<union> region fi 536 \<union> region (load_buffer fr) 512 \<union> W \<union> heap_rest h R) (smem st) (smem st')"
proof -
  let ?F = "heap_rest h R" and ?j = "pos div 512" and ?lb = "load_buffer fr"
  let ?W = "region fi 536 \<union> region ?lb 512 \<union> W \<union> ?F"
  note r = rd [unfolded fat_reading_def]
  have f: "fat_file (smem st) vol e t k d cl sz" and op: "fat_open (smem st) fi vol e pos (int (ceil_div pos 512) - 1)"
    and bh: "pos mod 512 \<noteq> 0 \<Longrightarrow> buffer_holds disk k d cl (smem st) fi ?j" using r by simp_all
  have sz: "unat (e_filesize_bytes (smem st) e) = sz" "sz < 2 ^ 31" using f by (simp_all add: fat_file_def)
  obtain st1 where s: "(if int ?j \<noteq> fi_loaded_buffer_index (smem st) fi
      then fat_read_entry_offset_size blk ?lb (set_smem st (store32 (smem st) (fld fi 532) (of_int (int ?j)))) vol e (fld fi 16) (512 * int ?j) 512
      else Some st) = Some st1" "world ready h R n st1" "fat_open (smem st1) fi vol e pos (int ?j)" "buffer_holds disk k d cl (smem st1) fi ?j"
    "same_outside ?W (smem st) (smem st1)"
    using wd hp f pos op bh ap(1-3) by (rule fatfs_fill)
  let ?m = "(smem st1)(q := smem st1 (fld fi 16 + of_int (int (pos mod 512))))"
  let ?m' = "store32 ?m (fld fi 528) (of_nat (Suc pos))"
  have wq: "same_outside {q} (smem st1) ?m" by (rule same_outside_fun_upd) simp
  have wp: "same_outside (region (fld fi 528) 4) ?m ?m'" by (rule store_le_outside)
  have fp: "region (fld fi 528) 4 \<subseteq> region fi 536" "region (fld fi 16) 512 \<subseteq> region fi 536" "region (fld fi 16) 512 \<inter> region (fld fi 528) 4 = {}"
    by (rule fld_sub fld_apart; simp)+
  have w': "same_outside ({q} \<union> region (fld fi 528) 4) (smem st1) ?m'"
    by (rule same_outside_trans [OF same_outside_mono [OF wq] same_outside_mono [OF wp]]) blast+
  have all: "same_outside ({q} \<union> ?W) (smem st) ?m'"
    by (rule same_outside_trans [OF same_outside_mono [OF s(5)] same_outside_mono [OF w']]) (use fp(1) in blast)+
  have q1: "region inode 40 \<inter> ({q} \<union> ?W) = {}" "fat_area vol e t \<inter> ({q} \<union> ?W) = {}" "region fi 536 \<inter> {q} = {}" using ap(3,4) q by blast+
  have opm: "fat_open ?m fi vol e pos (int ?j)"
    using fat_open_frame [OF same_outside_mono [OF wq, of "region (fld fi 16) 512 \<union> {q}"] q1(3)] s(3) by blast
  then have op': "fat_open ?m' fi vol e (Suc pos) (int (ceil_div (Suc pos) 512) - 1)"
    unfolding ceil_div_Suc using fat_open_store(2) [OF opm, of "Suc pos"] pos sz(2) by simp
  have "Suc pos div 512 = ?j" if "Suc pos mod 512 \<noteq> 0" using that by (simp add: div_Suc)
  moreover have "buffer_holds disk k d cl ?m' fi ?j" by (rule buffer_kept [OF s(4) w']) (use fp(2,3) q1(3) in blast)
  moreover have "i_impl_inode ?m' inode = fi" "i_get ?m' inode = sym_fatfs_get sy"
    unfolding inode_frame [OF all q1(1)] using r by simp_all
  ultimately have rd': "fat_reading sy disk inode fi vol e t k d cl sz (Suc pos) ?m'"
    using op' fat_file_frame [OF f all q1(2)] by (simp add: fat_reading_def)
  have wd': "world ready h R n (set_heap st1 ?m' h)" by (rule world_write [OF s(2) w']) (use fp(1) q ap(2) in blast)
  have "q \<notin> region (fld fi 528) 4" using fp(1) q by blast
  then have "?m' q = smem st1 (fld fi 16 + of_nat (pos mod 512))" using same_outsideD [OF wp] by simp
  also have "\<dots> = file_byte disk k d cl (512 * ?j + pos mod 512)" using s(4) by (simp add: buffer_holds_def)
  finally have byte: "?m' q = file_byte disk k d cl pos" by simp
  have "\<not> e_filesize_bytes (smem st) e \<le> (of_int (int pos) :: u32)"
    using pos sz by (simp add: word_le_nat_alt unat_of_nat take_bit_nat_eq_self)
  moreover have "int_res (fi_position ?m fi + 1) = Some (int (Suc pos))" using opm pos sz(2) by (simp add: fat_open_def int_res_small)
  moreover have "heap_of st1 = h" using s(2) by (simp add: world_def)
  moreover have "int pos sdiv 512 = int ?j" "int pos smod 512 = int (pos mod 512)" by (simp_all add: sdiv_nonneg smod_nonneg zdiv_int zmod_int)
  moreover have "i_impl_inode (smem st) inode = fi" "fi_fat_handle (smem st) fi = vol" "fi_fat16_dir_entry (smem st) fi = e" "fi_position (smem st) fi = int pos"
    using r op by (simp_all add: fat_open_def)
  ultimately have run: "fatfs_get blk fr st inode q = Some (set_heap st1 ?m' h, 1)"
    unfolding fatfs_get_def Let_def using s(1) by (simp only: if_False bind.bind_lunit heap_state of_int_of_nat_word)
  show thesis using that [OF run wd'] rd' byte all by simp
qed

end

section \<open>Whole files\<close>

definition fat_own :: "addr \<Rightarrow> addr \<Rightarrow> addr \<Rightarrow> addr \<Rightarrow> addr \<Rightarrow> addr \<Rightarrow> addr set \<Rightarrow> addr set" where
  "fat_own inode fi lb vol e t X = region inode 40 \<union> region fi 536 \<union> region lb 512 \<union> fat_area vol e t \<union> X"

definition fat_apart :: "addr \<Rightarrow> addr \<Rightarrow> addr \<Rightarrow> addr \<Rightarrow> addr \<Rightarrow> addr \<Rightarrow> addr set \<Rightarrow> bool" where
  \<comment> \<open>the structures of the reader, and the bytes \<open>X\<close> of the driver and the free heap, are at separate places\<close>
  "fat_apart inode fi lb vol e t X \<longleftrightarrow> region lb 512 \<inter> X = {} \<and> region fi 536 \<inter> (region lb 512 \<union> X) = {} \<and>
     fat_area vol e t \<inter> (region fi 536 \<union> region lb 512 \<union> X) = {} \<and> region inode 40 \<inter> (region fi 536 \<union> region lb 512 \<union> X) = {}"

definition fat_at ::
  "symbols \<Rightarrow> 'd block \<Rightarrow> (nat \<Rightarrow> nat \<Rightarrow> u8) \<Rightarrow> addr set \<Rightarrow> (nat \<Rightarrow> 'd \<times> machine \<Rightarrow> bool) \<Rightarrow> fatfs_frame \<Rightarrow> heap \<Rightarrow> runs \<Rightarrow>
   addr \<Rightarrow> addr \<Rightarrow> addr \<Rightarrow> addr \<Rightarrow> addr \<Rightarrow> nat \<Rightarrow> nat \<Rightarrow> nat list \<Rightarrow> nat \<Rightarrow> nat \<Rightarrow> nat \<Rightarrow> 'd \<times> machine \<Rightarrow> bool" where
  "fat_at sy blk disk W ready fr h R inode fi vol e t k d cl sz n pos st \<longleftrightarrow>
     block_device blk disk W ready \<and> sym_fatfs_get sy \<noteq> sym_ramfs_get sy \<and>
     heap_table_apart h \<and> heap_room h R (ceil_div (512 * k) 4096 + 1) \<and> W \<inter> heap_rest h R = {} \<and>
     fat_apart inode fi (load_buffer fr) vol e t (W \<union> heap_rest h R) \<and> fat_reading sy disk inode fi vol e t k d cl sz pos (smem st) \<and>
     world ready h R (n + requests k d * (ceil_div sz 512 - ceil_div pos 512)) st"

lemma requests_left:
  assumes "pos < sz"
  shows "n + r * (ceil_div sz 512 - ceil_div pos 512) = n + r * (ceil_div sz 512 - ceil_div (Suc pos) 512) + (if pos mod 512 = 0 then r else 0)"
proof -
  obtain s where s: "sz = Suc s" "pos \<le> s" using assms by (cases sz) auto
  have le: "pos div 512 \<le> s div 512" using s(2) by (rule div_le_mono)
  show ?thesis
  proof (cases "pos mod 512 = 0")
    case True
    then have "ceil_div sz 512 - ceil_div pos 512 = Suc (ceil_div sz 512 - ceil_div (Suc pos) 512)"
      unfolding s(1) ceil_div_Suc using le by (simp add: ceil_div_def Suc_diff_le)
    then show ?thesis using True by simp
  next
    case False
    then have "ceil_div pos 512 = ceil_div (Suc pos) 512" unfolding ceil_div_Suc by (simp add: ceil_div_def)
    then show ?thesis using False by simp
  qed
qed

lemma fatfs_get_end:
  assumes "fat_reading sy disk inode fi vol e t k d cl sz sz (smem st)"
  shows "fatfs_get blk fr st inode q = Some (st, 0)"
proof -
  note r = assms [unfolded fat_reading_def fat_open_def fat_file_def]
  have "e_filesize_bytes (smem st) e \<le> (of_nat sz :: u32)"
    using r by (simp add: word_le_nat_alt unat_of_nat take_bit_nat_eq_self)
  then show ?thesis using r by (simp add: fatfs_get_def Let_def)
qed

interpretation fat_source: file_source sy blk fr inode "map (file_byte disk k d cl) [0..<sz]"
    "fat_own inode fi (load_buffer fr) vol e t (W \<union> heap_rest h R)" "fat_at sy blk disk W ready fr h R inode fi vol e t k d cl sz n"
  for sy and blk :: "'d block" and fr inode disk k d cl sz fi vol e t W h R ready n
proof
  fix pos q and st :: "'d \<times> machine"
  assume at: "fat_at sy blk disk W ready fr h R inode fi vol e t k d cl sz n pos st" and pos: "pos < length (map (file_byte disk k d cl) [0..<sz])"
    and q: "q \<notin> fat_own inode fi (load_buffer fr) vol e t (W \<union> heap_rest h R)"
  let ?lb = "load_buffer fr" and ?F = "heap_rest h R"
  note a = at [unfolded fat_at_def]
  have dev: "block_device blk disk W ready" and hp: "heap_table_apart h" "heap_room h R (ceil_div (512 * k) 4096 + 1)" "W \<inter> ?F = {}"
    and rd: "fat_reading sy disk inode fi vol e t k d cl sz pos (smem st)" and sy: "sym_fatfs_get sy \<noteq> sym_ramfs_get sy" using a by simp_all
  have ap: "region ?lb 512 \<inter> (W \<union> ?F) = {}" "region fi 536 \<inter> (region ?lb 512 \<union> W \<union> ?F) = {}"
    "fat_area vol e t \<inter> (region fi 536 \<union> region ?lb 512 \<union> W \<union> ?F) = {}" "region inode 40 \<inter> (region fi 536 \<union> region ?lb 512 \<union> W \<union> ?F) = {}"
    using a unfolding fat_apart_def Un_assoc by blast+
  have sz: "pos < sz" using pos by simp
  have wd: "world ready h R (n + requests k d * (ceil_div sz 512 - ceil_div (Suc pos) 512) + (if pos mod 512 = 0 then requests k d else 0)) st"
    using a unfolding requests_left [OF sz] by simp
  have q': "q \<notin> region inode 40 \<union> region fi 536 \<union> fat_area vol e t \<union> W \<union> ?F" using q by (simp add: fat_own_def del: in_region)
  obtain st' where st': "fatfs_get blk fr st inode q = Some (st', 1)"
    "world ready h R (n + requests k d * (ceil_div sz 512 - ceil_div (Suc pos) 512)) st'"
    "fat_reading sy disk inode fi vol e t k d cl sz (Suc pos) (smem st')" "smem st' q = file_byte disk k d cl pos"
    "same_outside ({q} \<union> region fi 536 \<union> region ?lb 512 \<union> W \<union> ?F) (smem st) (smem st')"
    using dev wd hp rd sz ap q' by (rule block_device.fatfs_get_step)
  have "fat_at sy blk disk W ready fr h R inode fi vol e t k d cl sz n (Suc pos) st'" using a st'(2,3) by (simp add: fat_at_def)
  moreover have "fs_inode_get sy blk fr st inode q = Some (st', 1)" using st'(1) rd sy by (simp add: fs_inode_get_def fat_reading_def)
  moreover have "same_outside ({q} \<union> fat_own inode fi ?lb vol e t (W \<union> ?F)) (smem st) (smem st')"
    by (rule same_outside_mono [OF st'(5)]) (auto simp: fat_own_def simp del: in_region)
  ultimately show "\<exists>st'. fs_inode_get sy blk fr st inode q = Some (st', 1) \<and>
      fat_at sy blk disk W ready fr h R inode fi vol e t k d cl sz n (Suc pos) st' \<and> smem st' q = map (file_byte disk k d cl) [0..<sz] ! pos \<and>
      same_outside ({q} \<union> fat_own inode fi (load_buffer fr) vol e t (W \<union> heap_rest h R)) (smem st) (smem st')"
    using st'(4) sz by auto
next
  fix q and st :: "'d \<times> machine"
  assume "fat_at sy blk disk W ready fr h R inode fi vol e t k d cl sz n (length (map (file_byte disk k d cl) [0..<sz])) st"
  then have a: "fat_reading sy disk inode fi vol e t k d cl sz sz (smem st)" "sym_fatfs_get sy \<noteq> sym_ramfs_get sy" by (simp_all add: fat_at_def)
  then show "fs_inode_get sy blk fr st inode q = Some (st, 0)"
    using fatfs_get_end [OF a(1)] by (simp add: fs_inode_get_def fat_reading_def)
qed (simp add: fat_at_def fat_reading_def fat_file_def)

lemma fat_reading_kept:
  assumes rd: "fat_reading sy disk inode fi vol e t k d cl sz pos m" and w: "same_outside X m m'"
    and ap: "region inode 40 \<inter> X = {}" "region fi 536 \<inter> X = {}" "fat_area vol e t \<inter> X = {}"
  shows "fat_reading sy disk inode fi vol e t k d cl sz pos m'"
proof -
  note r = rd [unfolded fat_reading_def]
  have "same_outside (region (fld fi 16) 512 \<union> X) m m'" by (rule same_outside_mono [OF w]) blast
  then have "fat_open m' fi vol e pos li = fat_open m fi vol e pos li" for li by (rule fat_open_frame [OF _ ap(2)])
  moreover have "region (fld fi 16) 512 \<subseteq> region fi 536" by (rule fld_sub) simp_all
  then have "region (fld fi 16) 512 \<inter> X = {}" using ap(2) by blast
  then have "buffer_holds disk k d cl m' fi j" if "buffer_holds disk k d cl m fi j" for j by (rule buffer_kept [OF that w])
  ultimately show ?thesis
    using r fat_file_frame [OF _ w ap(3)] inode_frame [OF w ap(1)] by (simp add: fat_reading_def)
qed

interpretation fat_disk_file: open_file sy blk fr inode "map (file_byte disk k d cl) [0..<sz]"
    "fat_own inode fi (load_buffer fr) vol e t (W \<union> heap_rest h R)"
    "\<lambda>pos st. (\<forall>n st. ready n st \<longrightarrow> current_job (kget st) = cur) \<and> fat_at sy blk disk W ready fr h R inode fi vol e t k d cl sz n pos st" cur
  for sy and blk :: "'d block" and fr inode disk k d cl sz fi vol e t W h R ready n cur
proof (rule open_file.intro [OF file_source_if [OF fat_source.file_source_axioms]], unfold_locales)
  fix pos m and st :: "'d \<times> machine"
  let ?own = "fat_own inode fi (load_buffer fr) vol e t (W \<union> heap_rest h R)"
  assume at: "(\<forall>n st. ready n st \<longrightarrow> current_job (kget st) = cur) \<and> fat_at sy blk disk W ready fr h R inode fi vol e t k d cl sz n pos st"
    and w: "same_outside (- ?own) (smem st) m"
  note a = at [unfolded fat_at_def]
  have dev: "block_device blk disk W ready" and wd: "world ready h R (n + requests k d * (ceil_div sz 512 - ceil_div pos 512)) st"
    and rd: "fat_reading sy disk inode fi vol e t k d cl sz pos (smem st)" using a by simp_all
  have h: "heap_of st = h" using wd by (simp add: world_def)
  have off: "region inode 40 \<inter> - ?own = {}" "region fi 536 \<inter> - ?own = {}" "fat_area vol e t \<inter> - ?own = {}" "- ?own \<inter> (W \<union> heap_rest h R) = {}"
    by (auto simp: fat_own_def simp del: in_region)
  have "fat_reading sy disk inode fi vol e t k d cl sz pos m" by (rule fat_reading_kept [OF rd w off(1-3)])
  moreover have "world ready h R (n + requests k d * (ceil_div sz 512 - ceil_div pos 512)) (set_smem st m)"
    using block_device.world_write [OF dev wd w off(4)] h by simp
  ultimately show "(\<forall>n st. ready n st \<longrightarrow> current_job (kget st) = cur) \<and> fat_at sy blk disk W ready fr h R inode fi vol e t k d cl sz n pos (set_smem st m)"
    using a by (simp add: fat_at_def)
next
  fix pos r and st :: "'d \<times> machine"
  assume at: "(\<forall>n st. ready n st \<longrightarrow> current_job (kget st) = cur) \<and> fat_at sy blk disk W ready fr h R inode fi vol e t k d cl sz n pos st"
  note a = at [unfolded fat_at_def]
  have "block_device blk disk W ready" "world ready h R (n + requests k d * (ceil_div sz 512 - ceil_div pos 512)) st" using a by simp_all
  then have "world ready h R (n + requests k d * (ceil_div sz 512 - ceil_div pos 512)) (set_regs st r)" by (rule block_device.world_regs)
  then show "(\<forall>n st. ready n st \<longrightarrow> current_job (kget st) = cur) \<and> fat_at sy blk disk W ready fr h R inode fi vol e t k d cl sz n pos (set_regs st r)"
    using a by (simp add: fat_at_def)
next
  fix pos and st :: "'d \<times> machine"
  assume "(\<forall>n st. ready n st \<longrightarrow> current_job (kget st) = cur) \<and> fat_at sy blk disk W ready fr h R inode fi vol e t k d cl sz n pos st"
  then show "current_job (kget st) = cur" unfolding fat_at_def world_def by blast
qed

text \<open>
  C5. A whole file of a FAT disk: on any block device that keeps its contract, the read loop of
  \<open>job_create_from_file\<close> over \<open>fatfs_get\<close> ends with the bytes of the file at the pointer, each of them the byte at
  its offset in the cluster that the chain of the file allocation table gives for it. It takes one
  cluster per 512 bytes read from the device, gives its buffers back to the heap and writes nothing but the
  destination, the inode's structure and local array, the driver's bytes and the free part of the heap.
\<close>
theorem fatfs_reads_file:
  assumes "block_device blk disk W ready" and "sym_fatfs_get sy \<noteq> sym_ramfs_get sy"
    and "heap_table_apart h" and "heap_room h R (ceil_div (512 * k) 4096 + 1)" and "W \<inter> heap_rest h R = {}"
    and "heap_of st = h" and "heap_ok (smem st) h R" and "ready (n + requests k d * ceil_div sz 512) st"
    and "fat_file (smem st) vol e t k d cl sz" and "i_impl_inode (smem st) inode = fi" and "i_get (smem st) inode = sym_fatfs_get sy"
    and "fat_open (smem st) fi vol e 0 (- 1)" and "fat_apart inode fi (load_buffer fr) vol e t (W \<union> heap_rest h R)"
    and "region q sz \<inter> fat_own inode fi (load_buffer fr) vol e t (W \<union> heap_rest h R) = {}"
  shows "\<exists>st'. job_read_loop sy blk fr st inode q = Some st' \<and> (\<forall>i < sz. smem st' (q + of_nat i) = file_byte disk k d cl i) \<and>
    ready n st' \<and> heap_of st' = h \<and> heap_ok (smem st') h R \<and> fi_position (smem st') fi = int sz \<and>
    same_outside (region q sz \<union> fat_own inode fi (load_buffer fr) vol e t (W \<union> heap_rest h R)) (smem st) (smem st')"
proof -
  have c0: "ceil_div 0 512 = 0" by (simp add: ceil_div_def)
  have "fat_at sy blk disk W ready fr h R inode fi vol e t k d cl sz n 0 st"
    using assms by (simp add: fat_at_def fat_reading_def world_def c0)
  then obtain st' where st': "job_read_loop sy blk fr st inode q = Some st'" "fat_at sy blk disk W ready fr h R inode fi vol e t k d cl sz n sz st'"
    "bytes_at (smem st') q (map (file_byte disk k d cl) [0..<sz])"
    "same_outside (region q sz \<union> fat_own inode fi (load_buffer fr) vol e t (W \<union> heap_rest h R)) (smem st) (smem st')"
    using fat_source.read_all [of sy blk disk W ready fr h R inode fi vol e t k d cl sz n st q] assms(14) by auto
  then show ?thesis by (simp add: fat_at_def world_def bytes_at_def fat_reading_def fat_open_def)
qed

section \<open>An example\<close>

definition example_fat_mem :: mem where
  \<comment> \<open>a volume at 0x10000 with the entry of a file of 600 bytes in clusters 2 and 3 at 0x11000, the table at 0x40000, and an
    inode at 0x12000 with its structure at 0x13000\<close>
  "example_fat_mem = store32 (store64 (store64 (store64 (store64 (store16 (store32 (store16 (store64 (store64 (store_le 1 (store16 example_virtio_mem
     (fld 0x10000 11) 512) (fld 0x10000 13) (1 :: u8)) (fld 0x10000 536) 0x40000) (fld 0x10000 568) 1024)
     (fld 0x11000 26) 2) (fld 0x11000 28) 600) (fld 0x40000 4) 3) (fld 0x12000 0) 0x13000) (fld 0x12000 8) 0x60)
     (fld 0x13000 0) 0x11000) (fld 0x13000 8) 0x10000) (fld 0x13000 532) (- 1)"

lemma example_fat_outside: "same_outside (region 0x10000 0x50000) example_virtio_mem example_fat_mem"
  unfolding example_fat_mem_def by (intro store_inside same_outside_refl; rule region_inside; simp add: fld_def)

lemmas example_loads = example_fat_mem_def example_virtio_mem_def fld_def load_store_le load_store_le_other regions_apart load_le_zero

lemma example_fat_fields:
  "fat_file example_fat_mem 0x10000 0x11000 0x40000 1 1024 [2, 3] 600" "i_impl_inode example_fat_mem 0x12000 = 0x13000" "i_get example_fat_mem 0x12000 = 0x60"
  "fat_open example_fat_mem 0x13000 0x10000 0x11000 0 (- 1)"
proof -
  show "i_impl_inode example_fat_mem 0x12000 = 0x13000" "i_get example_fat_mem 0x12000 = 0x60"
    by (simp_all add: i_impl_inode_def i_get_def example_loads)
  show "fat_open example_fat_mem 0x13000 0x10000 0x11000 0 (- 1)"
    by (simp add: fat_open_def fi_fat_handle_def fi_fat16_dir_entry_def fi_position_def fi_loaded_buffer_index_def example_loads)
  have "h_sectors_per_cluster example_fat_mem 0x10000 = 1" by (simp add: h_sectors_per_cluster_def example_fat_mem_def store_le_def fld_def)
  moreover have "load16 example_fat_mem (fld 0x40000 4) = 3" "h_bytes_per_sector example_fat_mem 0x10000 = 512" "h_data_offset example_fat_mem 0x10000 = 1024"
    "h_fat example_fat_mem 0x10000 = 0x40000" "e_filesize_bytes example_fat_mem 0x11000 = 600" "e_starting_cluster example_fat_mem 0x11000 = 2"
    by (simp_all add: h_bytes_per_sector_def h_data_offset_def h_fat_def e_filesize_bytes_def e_starting_cluster_def example_loads)
  ultimately show "fat_file example_fat_mem 0x10000 0x11000 0x40000 1 1024 [2, 3] 600"
    by (simp add: fat_file_def less_Suc_eq)
qed

abbreviation example_sectors :: "nat \<Rightarrow> nat \<Rightarrow> u8" where "example_sectors \<equiv> \<lambda>sec i. of_nat (sec + i)"

abbreviation example_disk_block :: "example_dev block" where
  "example_disk_block \<equiv> disk_register_block_device (example_virtio 0xa003e00 0x9000 0xa000 example_sectors) example_wait 0x8100 0x8000"

abbreviation example_fatfs_frame :: fatfs_frame where
  "example_fatfs_frame \<equiv> \<lparr>load_buffer = 0x14000, name_buffer = 0, ext_buffer = 0, handle_temp = 0, open_name = 0, open_ext = 0\<rparr>"

abbreviation example_fat_state :: "addr \<Rightarrow> example_dev \<times> machine" where
  \<comment> \<open>while the job \<open>cur\<close> runs\<close>
  "example_fat_state cur \<equiv> ((0, 0), example_machine\<lparr>kern := job_example\<lparr>kmem := example_fat_mem, main_heap := example_heap, current_job := cur\<rparr>\<rparr>)"

abbreviation example_driver :: "addr set" where "example_driver \<equiv> virtio_own 0x8000 0x8100 0x9000 0xa000 0xc000 0x8200"

lemma example_fat_space:
  "region 0x10000 0x50000 \<inter> (example_driver \<union> heap_rest example_heap {}) = {}" "example_driver \<inter> heap_rest example_heap {} = {}"
proof -
  have F: "heap_rest example_heap {} \<subseteq> region 0x1000 8 \<union> region 0x40200000 32768" by (auto simp: heap_rest_def table_bytes_def heap_bytes_def simp del: in_region)
  have W: "example_driver \<subseteq> region 0x8000 0x7000" unfolding virtio_own_def by (intro Un_least; rule region_inside; simp)
  have "region (0x10000 :: addr) 0x50000 \<inter> region 0x8000 0x7000 = {}" "region (0x10000 :: addr) 0x50000 \<inter> region 0x1000 8 = {}"
    "region (0x10000 :: addr) 0x50000 \<inter> region 0x40200000 32768 = {}" "region (0x8000 :: addr) 0x7000 \<inter> region 0x1000 8 = {}"
    "region (0x8000 :: addr) 0x7000 \<inter> region 0x40200000 32768 = {}" by (rule regions_apart; simp)+
  then show "region 0x10000 0x50000 \<inter> (example_driver \<union> heap_rest example_heap {}) = {}" "example_driver \<inter> heap_rest example_heap {} = {}" using W F by blast+
qed

lemma example_fat_own:
  assumes "region p n \<subseteq> region 0x10000 0x50000"
    and "apart_all [(p, n), (0x12000, 40), (0x13000, 536), (0x14000, 512), (0x10000, 584), (0x11000, 32), (0x40000, 131072)]"
  shows "region p n \<inter> fat_own 0x12000 0x13000 0x14000 0x10000 0x11000 0x40000 (example_driver \<union> heap_rest example_heap {}) = {}"
  using disj_sub [OF assms(1) example_fat_space(1)] assms(2) unfolding fat_own_def fat_area_def by (simp add: Int_Un_distrib)

lemma example_device: "block_device example_disk_block example_sectors example_driver (example_idle example_sectors cur)"
proof -
  have fr: "fiq_frame example_wait = 0x8200" by (simp add: example_wait_def)
  have "apart_all [(0x8000 :: addr, 32), (0x8100, 17), (0x9000, 48), (0xa000, 2054), (0xc000, 8198), (0x8200, 256)]" by (simp add: regions_apart)
  then show ?thesis
    using virtio_device [OF example_virtio_disk, of "0x8000" "0x8100" "0x9000" "0xa000" "0xc000" example_wait] unfolding fr by blast
qed

lemma example_fat_at:
  "fat_at example_symbols example_disk_block example_sectors example_driver (example_idle example_sectors cur) example_fatfs_frame
     example_heap {} 0x12000 0x13000 0x10000 0x11000 0x40000 1 1024 [2, 3] 600 1022 0 (example_fat_state cur)"
proof -
  let ?r = "example_idle example_sectors cur" and ?F = "heap_rest example_heap {}" and ?st = "example_fat_state cur"
  note dev = example_device [of cur]
  note B = example_fat_space
  have inB: "region 0x14000 512 \<subseteq> region (0x10000 :: addr) 0x50000" "region 0x13000 536 \<subseteq> region (0x10000 :: addr) 0x50000"
    "fat_area 0x10000 0x11000 0x40000 \<subseteq> region 0x10000 0x50000" "region 0x12000 40 \<subseteq> region (0x10000 :: addr) 0x50000"
    unfolding fat_area_def by (intro Un_least region_inside; simp)+
  have ap: "fat_apart 0x12000 0x13000 0x14000 0x10000 0x11000 0x40000 (example_driver \<union> ?F)"
    using disj_sub [OF inB(1) B(1)] disj_sub [OF inB(2) B(1)] disj_sub [OF inB(3) B(1)] disj_sub [OF inB(4) B(1)]
    unfolding fat_apart_def fat_area_def by (simp add: Int_Un_distrib Int_Un_distrib2 regions_apart)
  have ta: "heap_table_apart example_heap" unfolding heap_table_apart_def by (rule regions_apart) simp_all
  have room: "heap_room example_heap {} (ceil_div (512 * 1) 4096 + 1)" unfolding heap_room_def by (rule exI [of _ 0]) (simp add: runs_taken_def ceil_div_def)
  have ok: "heap_ok example_virtio_mem example_heap {}" "example_idle example_sectors NULL 1024 ((0, 0), example_machine)"
    using example_virtio_ready [of example_sectors] by (simp_all add: world_def smem_def)
  have "heap_ok example_fat_mem example_heap {}" by (rule heap_ok_off_rest [OF ok(1) example_fat_outside]) (use B in blast)
  moreover have "same_outside (- example_driver) (smem ((0, 0) :: example_dev, example_machine)) example_fat_mem"
    by (simp add: smem_def, rule same_outside_mono [OF example_fat_outside]) (use B in blast)
  then have "example_idle example_sectors NULL 1024 (set_heap ((0, 0), example_machine) example_fat_mem example_heap)"
    by (rule virtio_idle_stable [OF ok(2)])
  then have "?r 1024 ?st" by (simp add: virtio_idle_def) (simp add: set_heap_def smem_def)
  moreover have "smem ?st = example_fat_mem" "heap_of ?st = example_heap" by (simp_all add: smem_def heap_of_def)
  ultimately have "world ?r example_heap {} 1024 ?st" by (simp add: world_def)
  then have wd: "world ?r example_heap {} (1022 + requests 1 1024 * (ceil_div 600 512 - ceil_div 0 512)) ?st" by (simp add: requests_def ceil_div_def)
  have c0: "ceil_div 0 512 = 0" by (simp add: ceil_div_def)
  then have rd: "fat_reading example_symbols example_sectors 0x12000 0x13000 0x10000 0x11000 0x40000 1 1024 [2, 3] 600 0 (smem ?st)"
    using example_fat_fields by (simp add: fat_reading_def smem_def)
  show ?thesis unfolding fat_at_def fatfs_frame.select_convs fat_frame.select_convs by (intro conjI dev ta room B(2) ap rd wd) simp
qed

theorem fatfs_reads_file_witness:
  "\<exists>st'. job_read_loop example_symbols example_disk_block example_fatfs_frame (example_fat_state NULL) 0x12000 0x20000 = Some st' \<and> smem st' (0x20000 + 599) = 90"
proof -
  let ?own = "fat_own 0x12000 0x13000 0x14000 0x10000 0x11000 0x40000 (example_driver \<union> heap_rest example_heap {})"
  have "region 0x20000 600 \<inter> ?own = {}" by (rule example_fat_own) (simp_all add: region_inside regions_apart)
  then show ?thesis
    using example_fat_at [of NULL, unfolded fat_at_def fat_reading_def world_def]
      fatfs_reads_file [of example_disk_block example_sectors example_driver "example_idle example_sectors NULL" example_symbols
        example_heap "{}" 1 "example_fat_state NULL" 1022 1024 600 "0x10000" "0x11000" "0x40000" "[2, 3]" "0x12000" "0x13000" example_fatfs_frame "0x20000"]
    by (auto simp: file_byte_def disk_byte_def ceil_div_def dest: spec [of _ 599])
qed

end
