(* ===== verification/Inode_Pool.thy ===== *)
theory Inode_Pool
  imports Heap_Space Fs
begin

text \<open>
  What the two file systems share when they open a file: an inode from the slab of the inodes and a structure of
  their own from the kernel heap.
\<close>

section \<open>Inodes and heap blocks\<close>

definition fs_ok :: "kernel \<Rightarrow> runs \<Rightarrow> nat \<Rightarrow> bool" where
  \<comment> \<open>the heap is well formed with \<open>n\<close> free blocks in a row, and the slab of the inodes is not in its free part\<close>
  "fs_ok k R n \<longleftrightarrow> heap_ok (kmem k) (main_heap k) R \<and> heap_table_apart (main_heap k) \<and> heap_room (main_heap k) R n \<and>
     wf_slab (inode_slab k) \<and> object_size (inode_slab k) = 40 \<and> pool_bytes (inode_slab k) \<inter> heap_rest (main_heap k) R = {}"

lemma fs_ok_write:
  assumes "fs_ok k R n" and "same_outside A (kmem k) m" and "A \<inter> heap_rest (main_heap k) R = {}"
  shows "fs_ok (k\<lparr>kmem := m\<rparr>) R n"
  using assms heap_ok_frame [of "kmem k" "main_heap k" R A m] by (auto simp: fs_ok_def heap_rest_def table_bytes_def simp del: in_region)

lemma fs_kalloc:
  assumes ok: "fs_ok k R (Suc n)" and sz: "0 < unat sz" "unat sz \<le> 4096"
  obtains k1 R1 p where "k_kalloc k sz = Some (k1, p)" and "p \<noteq> NULL" and "fs_ok k1 R1 n" and "inode_slab k1 = inode_slab k"
    and "region p 4096 \<subseteq> heap_rest (main_heap k) R" and "heap_rest (main_heap k1) R1 \<subseteq> heap_rest (main_heap k) R - region p 4096"
    and "same_outside (heap_rest (main_heap k) R - region p 4096) (kmem k) (kmem k1)"
proof -
  note o = ok [unfolded fs_ok_def]
  obtain m1 h1 R1 p where a: "kalloc (kmem k) (main_heap k) sz = Some (m1, h1, p)" "p \<noteq> NULL" "heap_ok m1 h1 R1" "heap_table_apart h1"
    "heap_room h1 R1 n" "region p 4096 \<subseteq> heap_rest (main_heap k) R" "heap_rest h1 R1 \<subseteq> heap_rest (main_heap k) R - region p 4096"
    "same_outside (heap_rest (main_heap k) R - region p 4096) (kmem k) m1"
    using kalloc_block [OF _ _ sz] o by metis
  have "fs_ok (k\<lparr>kmem := m1, main_heap := h1\<rparr>) R1 n" using o a(3-5,7) by (auto simp: fs_ok_def simp del: in_region)
  then show thesis using that [of "k\<lparr>kmem := m1, main_heap := h1\<rparr>" p R1] a by (simp add: k_kalloc_def)
qed

lemma fs_inode_alloc:
  assumes ok: "fs_ok k R n" and room: "slab_live (kmem k) (inode_slab k) \<noteq> slab_slots (inode_slab k)"
  obtains k1 inode where "fs_allocate_inode k = Some (k1, inode)" and "fs_ok k1 R n" and "inode_slab k1 = inode_slab k" and "main_heap k1 = main_heap k"
    and "inode \<in> slab_slots (inode_slab k) - slab_live (kmem k) (inode_slab k)" and "inode \<noteq> NULL"
    and "slab_live (kmem k1) (inode_slab k) = insert inode (slab_live (kmem k) (inode_slab k))"
    and "same_outside (slab_header (inode_slab k)) (kmem k) (kmem k1)"
proof -
  have wf: "wf_slab (inode_slab k)" using ok by (simp add: fs_ok_def)
  obtain m1 inode where a: "slab_allocate (kmem k) (inode_slab k) = Some (m1, inode)" "inode \<in> slab_slots (inode_slab k)"
    "inode \<notin> slab_live (kmem k) (inode_slab k)" "inode \<noteq> NULL" "slab_live m1 (inode_slab k) = insert inode (slab_live (kmem k) (inode_slab k))"
    "same_outside (slab_header (inode_slab k)) (kmem k) m1"
    using slab_pool.alloc_someE [OF wf room] by metis
  have "fs_ok (k\<lparr>kmem := m1\<rparr>) R n"
    by (rule fs_ok_write [OF ok a(6)]) (use ok in \<open>auto simp: fs_ok_def pool_bytes_def simp del: in_region\<close>)
  then show thesis using that [of "k\<lparr>kmem := m1\<rparr>" inode] a by (simp add: fs_allocate_inode_def)
qed

lemma inode_region:
  assumes "fs_ok k R n" and "inode \<in> slab_slots (inode_slab k)"
  shows "region inode 40 \<inter> heap_rest (main_heap k) R = {}" and "region inode 40 \<inter> slab_header (inode_slab k) = {}"
proof -
  have o: "wf_slab (inode_slab k)" "object_size (inode_slab k) = 40" "pool_bytes (inode_slab k) \<inter> heap_rest (main_heap k) R = {}"
    using assms(1) by (simp_all add: fs_ok_def)
  show "region inode 40 \<inter> slab_header (inode_slab k) = {}" using slab_pool.objects_off_book [OF o(1) assms(2)] o(2) by simp
  have "region inode (unat (object_size (inode_slab k))) \<subseteq> pool_bytes (inode_slab k)"
    using assms(2) unfolding pool_bytes_def by blast
  then show "region inode 40 \<inter> heap_rest (main_heap k) R = {}" using o(2,3) by auto
qed

end
