(* ===== verification/Ramfs_Properties.thy ===== *)
theory Ramfs_Properties
  imports Inode_Pool File_Source
begin

text \<open>
  The file system in memory: what is written through one inode is read through another, and which
  files can be opened at all.
\<close>

section \<open>Open files\<close>

definition ram_open :: "mem \<Rightarrow> addr \<Rightarrow> addr \<Rightarrow> addr \<Rightarrow> nat \<Rightarrow> bool" where
  \<comment> \<open>the inode is open on the file \<open>f\<close> at a position\<close>
  "ram_open m inode ri f pos \<longleftrightarrow> i_impl_inode m inode = ri \<and> ri_ram_file m ri = f \<and> ri_position m ri = int pos"

definition ram_file :: "mem \<Rightarrow> addr \<Rightarrow> addr \<Rightarrow> nat \<Rightarrow> bool" where
  "ram_file m f c n \<longleftrightarrow> rf_content m f = c \<and> rf_content_alloc m f = 4096 \<and> rf_content_fill m f = int n"

lemma ram_frame:
  assumes w: "same_outside X m m'"
  shows "region inode 40 \<inter> X = {} \<Longrightarrow> i_impl_inode m' inode = i_impl_inode m inode \<and> i_get m' inode = i_get m inode \<and> i_put m' inode = i_put m inode"
    and "region ri 16 \<inter> X = {} \<Longrightarrow> ri_ram_file m' ri = ri_ram_file m ri \<and> ri_position m' ri = ri_position m ri"
    and "region f 56 \<inter> X = {} \<Longrightarrow> rf_content m' f = rf_content m f \<and> rf_content_alloc m' f = rf_content_alloc m f \<and> rf_content_fill m' f = rf_content_fill m f"
  by (simp_all add: i_impl_inode_def i_get_def i_put_def ri_ram_file_def ri_position_def rf_content_def rf_content_alloc_def rf_content_fill_def
      load_frame [OF w] del: fld_0)

lemma ri_store:
  assumes "n < 2 ^ 31"
  shows "ri_position (store32 m (fld ri 8) (of_nat n)) ri = int n" "ri_ram_file (store32 m (fld ri 8) v) ri = ri_ram_file m ri"
  using assms by (simp_all add: ri_position_def ri_ram_file_def load_store_le load_store_fld sint_of_nat32 del: fld_0)

lemma rf_store:
  assumes "n < 2 ^ 31"
  shows "rf_content_fill (store32 m (fld f 44) (of_nat n)) f = int n" "rf_content (store32 m (fld f 44) v) f = rf_content m f"
    "rf_content_alloc (store32 m (fld f 44) v) f = rf_content_alloc m f"
  using assms by (simp_all add: rf_content_fill_def rf_content_def rf_content_alloc_def load_store_le load_store_fld sint_of_nat32 del: fld_0)

lemma ramfs_put_step:
  assumes ap: "apart_all [(inode, 40), (ri, 16), (f, 56), (c, 4096)]" and op: "ram_open m inode ri f pos" and fi: "ram_file m f c n"
    and lim: "pos < 4096" "n < 2 ^ 31 - 1"
  obtains m' where "ramfs_put m inode ch = Some (m', 1)" and "ram_open m' inode ri f (Suc pos)" and "ram_file m' f c (Suc n)"
    and "m' (c + of_nat pos) = ch" and "same_outside ({c + of_nat pos} \<union> region ri 16 \<union> region f 56) m m'"
proof -
  let ?m1 = "m(c + of_nat pos := ch)"
  let ?m2 = "store32 ?m1 (fld ri 8) (of_nat (Suc pos))"
  let ?m3 = "store32 ?m2 (fld f 44) (of_nat (Suc n))"
  have cp: "c + of_nat pos \<in> region c 4096" by (rule region_offset) (use lim in simp_all)
  have d: "region inode 40 \<inter> {c + of_nat pos} = {}" "region ri 16 \<inter> {c + of_nat pos} = {}" "region f 56 \<inter> {c + of_nat pos} = {}"
    "region inode 40 \<inter> region ri 16 = {}" "region f 56 \<inter> region ri 16 = {}" "region inode 40 \<inter> region f 56 = {}" "region ri 16 \<inter> region f 56 = {}"
    "c + of_nat pos \<notin> region ri 16" "c + of_nat pos \<notin> region f 56"
    using ap cp by (auto simp del: in_region)
  have w1: "same_outside {c + of_nat pos} m ?m1" by (rule same_outside_fun_upd) simp
  have w2: "same_outside (region ri 16) ?m1 ?m2" by (rule store_fld_outside) simp_all
  have w3: "same_outside (region f 56) ?m2 ?m3" by (rule store_fld_outside) simp_all
  note f1 = ram_frame(1) [OF w1 d(1)] ram_frame(2) [OF w1 d(2)] ram_frame(3) [OF w1 d(3)]
  note f2 = ram_frame(1) [OF w2 d(4)] ram_frame(3) [OF w2 d(5)]
  note f3 = ram_frame(1) [OF w3 d(6)] ram_frame(2) [OF w3 d(7)]
  have p: "Suc pos < 2 ^ 31" "Suc n < 2 ^ 31" using lim by simp_all
  have i: "int_res (int pos + 1) = Some (int (Suc pos))" "int_res (int n + 1) = Some (int (Suc n))"
    using lim by (simp_all add: int_res_small)
  have m: "i_impl_inode m inode = ri" "ri_ram_file m ri = f" "ri_position m ri = int pos" "rf_content m f = c" "rf_content_alloc m f = 4096" "rf_content_fill m f = int n"
    using op fi by (simp_all add: ram_open_def ram_file_def)
  have run: "ramfs_put m inode ch = Some (?m3, 1)"
    unfolding ramfs_put_def Let_def using lim(1) m f1 f2 i by simp
  have "ram_open ?m3 inode ri f (Suc pos)" "ram_file ?m3 f c (Suc n)"
    using m f1 f2 f3 ri_store [OF p(1)] rf_store [OF p(2)] by (simp_all add: ram_open_def ram_file_def del: of_nat_Suc)
  moreover have "?m3 (c + of_nat pos) = ch" using same_outsideD [OF w3 d(9)] same_outsideD [OF w2 d(8)] by simp
  moreover have "same_outside ({c + of_nat pos} \<union> region ri 16 \<union> region f 56) m ?m3" (is "same_outside ?W _ _")
  proof -
    have "same_outside ?W m ?m1" by (rule same_outside_mono [OF w1]) blast
    also have "same_outside ?W ?m1 ?m2" by (rule same_outside_mono [OF w2]) blast
    also have "same_outside ?W ?m2 ?m3" by (rule same_outside_mono [OF w3]) blast
    finally show ?thesis .
  qed
  ultimately show thesis using that [OF run] by blast
qed

lemma ramfs_get_step:
  assumes ap: "apart_all [(inode, 40), (ri, 16), (f, 56), (c, 4096)]" and op: "ram_open m inode ri f pos" and fi: "ram_file m f c n"
    and lim: "pos < n" "n \<le> 4096" and q: "q \<notin> region inode 40 \<union> region ri 16 \<union> region f 56 \<union> region c 4096"
  obtains m' where "ramfs_get m inode q = Some (m', 1)" and "ram_open m' inode ri f (Suc pos)" and "ram_file m' f c n"
    and "m' q = m (c + of_nat pos)" and "same_outside ({q} \<union> region ri 16) m m'"
proof -
  let ?m1 = "m(q := m (c + of_nat pos))"
  let ?m2 = "store32 ?m1 (fld ri 8) (of_nat (Suc pos))"
  have d: "region inode 40 \<inter> {q} = {}" "region ri 16 \<inter> {q} = {}" "region f 56 \<inter> {q} = {}"
    "region inode 40 \<inter> region ri 16 = {}" "region f 56 \<inter> region ri 16 = {}" "q \<notin> region ri 16"
    using ap q by (auto simp del: in_region)
  have w1: "same_outside {q} m ?m1" by (rule same_outside_fun_upd) simp
  have w2: "same_outside (region ri 16) ?m1 ?m2" by (rule store_fld_outside) simp_all
  note f1 = ram_frame(1) [OF w1 d(1)] ram_frame(2) [OF w1 d(2)] ram_frame(3) [OF w1 d(3)]
  note f2 = ram_frame(1) [OF w2 d(4)] ram_frame(3) [OF w2 d(5)]
  have p: "Suc pos < 2 ^ 31" using lim by simp
  have i: "int_res (int pos + 1) = Some (int (Suc pos))" using lim by (simp add: int_res_small)
  have m: "i_impl_inode m inode = ri" "ri_ram_file m ri = f" "ri_position m ri = int pos" "rf_content m f = c" "rf_content_alloc m f = 4096" "rf_content_fill m f = int n"
    using op fi by (simp_all add: ram_open_def ram_file_def)
  have run: "ramfs_get m inode q = Some (?m2, 1)" unfolding ramfs_get_def Let_def using lim m f1 i by simp
  have "ram_open ?m2 inode ri f (Suc pos)" "ram_file ?m2 f c n"
    using m f1 f2 ri_store [OF p] by (simp_all add: ram_open_def ram_file_def del: of_nat_Suc)
  moreover have "?m2 q = m (c + of_nat pos)" using same_outsideD [OF w2 d(6)] by simp
  moreover have "same_outside ({q} \<union> region ri 16) m ?m2"
    by (rule same_outside_trans [OF same_outside_mono [OF w1] same_outside_mono [OF w2]]) blast+
  ultimately show thesis using that [OF run] by blast
qed

section \<open>Writing and reading whole files\<close>

primrec inode_write :: "symbols \<Rightarrow> 'd \<times> machine \<Rightarrow> addr \<Rightarrow> u8 list \<Rightarrow> ('d \<times> machine) option" where
  \<comment> \<open>a client that puts characters until one is refused\<close>
  "inode_write sy st inode [] = Some st"
| "inode_write sy st inode (ch # cs) =
     Option.bind (fs_inode_put sy st inode ch) (\<lambda>(st, r). if r = 1 then inode_write sy st inode cs else None)"

lemma inode_write_eq:
  assumes "apart_all [(w, 40), (wi, 16), (f, 56), (c, 4096)]" and "ram_open (smem st) w wi f pos" and "ram_file (smem st) f c pos"
    and "i_put (smem st) w = sym_ramfs_put sy" and "pos + length cs \<le> 4096"
  shows "\<exists>st'. inode_write sy st w cs = Some st' \<and> ram_file (smem st') f c (pos + length cs) \<and> bytes_at (smem st') (c + of_nat pos) cs \<and>
    same_outside (region (c + of_nat pos) (length cs) \<union> region wi 16 \<union> region f 56) (smem st) (smem st')"
  using assms(2-5)
proof (induction cs arbitrary: st pos)
  case Nil
  then show ?case by simp
next
  case (Cons ch cs)
  let ?q = "c + of_nat pos"
  have lim: "pos < 4096" "pos < 2 ^ 31 - 1" "Suc pos + length cs \<le> 4096" using Cons.prems(4) by simp_all
  have nx: "c + of_nat (Suc pos) = ?q + 1" by simp
  obtain m' where m': "ramfs_put (smem st) w ch = Some (m', 1)" "ram_open m' w wi f (Suc pos)" "ram_file m' f c (Suc pos)"
    "m' ?q = ch" "same_outside ({?q} \<union> region wi 16 \<union> region f 56) (smem st) m'"
    by (rule ramfs_put_step [OF assms(1) Cons.prems(1,2) lim(1,2)])
  have qc: "?q \<in> region c 4096" by (rule region_offset) (use lim in simp_all)
  have "region w 40 \<inter> ({?q} \<union> region wi 16 \<union> region f 56) = {}" using assms(1) qc by (auto simp del: in_region)
  then have p: "i_put m' w = sym_ramfs_put sy" using ram_frame(1) [OF m'(5)] Cons.prems(3) by simp
  obtain st' where st': "inode_write sy (set_smem st m') w cs = Some st'" "ram_file (smem st') f c (Suc pos + length cs)"
    "bytes_at (smem st') (?q + 1) cs" "same_outside (region (?q + 1) (length cs) \<union> region wi 16 \<union> region f 56) m' (smem st')"
    using Cons.IH [of "set_smem st m'" "Suc pos"] m'(2,3) p lim(3) unfolding smem_set nx by blast
  have "?q \<notin> region (?q + 1) (length cs)" by (rule not_in_region_next) (use lim in simp)
  moreover have "?q \<notin> region wi 16" "?q \<notin> region f 56" using assms(1) qc by (auto simp del: in_region)
  ultimately have "smem st' ?q = ch" using same_outsideD [OF st'(4), of ?q] m'(4) by blast
  moreover have "same_outside (region ?q (length (ch # cs)) \<union> region wi 16 \<union> region f 56) (smem st) (smem st')"
    by (rule same_outside_trans [OF same_outside_mono [OF m'(5)] same_outside_mono [OF st'(4)]])
      (auto simp: region_Suc simp del: in_region)
  ultimately show ?case using Cons.prems(3) m'(1) st'(1-3) by (simp add: fs_inode_put_def)
qed

definition ram_at :: "symbols \<Rightarrow> addr \<Rightarrow> addr \<Rightarrow> addr \<Rightarrow> addr \<Rightarrow> addr \<Rightarrow> u8 list \<Rightarrow> nat \<Rightarrow> 'd \<times> machine \<Rightarrow> bool" where
  \<comment> \<open>the inode is open at a position of a file with the given content\<close>
  "ram_at sy cur r ri f c cs pos st \<longleftrightarrow> apart_all [(r, 40), (ri, 16), (f, 56), (c, 4096)] \<and> ram_open (smem st) r ri f pos \<and>
     ram_file (smem st) f c (length cs) \<and> i_get (smem st) r = sym_ramfs_get sy \<and> length cs \<le> 4096 \<and> bytes_at (smem st) c cs \<and>
     current_job (kget st) = cur"

interpretation ram_source: file_source sy blk fr r cs "region r 40 \<union> region ri 16 \<union> region f 56 \<union> region c 4096" "ram_at sy cur r ri f c cs"
  for sy and blk :: "'d block" and fr r cs cur ri f c
proof
  fix pos q and st :: "'d \<times> machine"
  assume at: "ram_at sy cur r ri f c cs pos st" and pos: "pos < length cs" and q: "q \<notin> region r 40 \<union> region ri 16 \<union> region f 56 \<union> region c 4096"
  note a = at [unfolded ram_at_def]
  have ap: "apart_all [(r, 40), (ri, 16), (f, 56), (c, 4096)]" and len: "length cs \<le> 4096"
    and op: "ram_open (smem st) r ri f pos" and fc: "ram_file (smem st) f c (length cs)" using a by blast+
  obtain m' where m': "ramfs_get (smem st) r q = Some (m', 1)" "ram_open m' r ri f (Suc pos)" "ram_file m' f c (length cs)"
    "m' q = smem st (c + of_nat pos)" "same_outside ({q} \<union> region ri 16) (smem st) m'"
    by (rule ramfs_get_step [OF ap op fc pos len q])
  have "region r 40 \<inter> ({q} \<union> region ri 16) = {}" using ap q by (auto simp del: in_region)
  then have "i_get m' r = sym_ramfs_get sy" using inode_frame(2) [OF m'(5)] a by simp
  moreover have "region c (length cs) \<inter> ({q} \<union> region ri 16) = {}" using ap q region_mono [OF len, of c] by (auto simp del: in_region)
  then have "bytes_at m' c cs" using bytes_at_same_outside [OF m'(5)] a by simp
  ultimately have "ram_at sy cur r ri f c cs (Suc pos) (set_smem st m')" using a m'(2,3) by (simp add: ram_at_def)
  moreover have "m' q = cs ! pos" using a m'(4) pos by (simp add: bytes_at_def)
  moreover have "same_outside ({q} \<union> (region r 40 \<union> region ri 16 \<union> region f 56 \<union> region c 4096)) (smem st) m'"
    by (rule same_outside_mono [OF m'(5)]) blast
  ultimately show "\<exists>st'. fs_inode_get sy blk fr st r q = Some (st', 1) \<and> ram_at sy cur r ri f c cs (Suc pos) st' \<and> smem st' q = cs ! pos \<and>
      same_outside ({q} \<union> (region r 40 \<union> region ri 16 \<union> region f 56 \<union> region c 4096)) (smem st) (smem st')"
    using a m'(1) by (intro exI [of _ "set_smem st m'"]) (simp add: fs_inode_get_def)
next
  fix q and st :: "'d \<times> machine"
  assume "ram_at sy cur r ri f c cs (length cs) st"
  moreover from this have "ramfs_get (smem st) r q = Some (smem st, 0)"
    by (simp add: ram_at_def ramfs_get_def ram_open_def ram_file_def Let_def)
  moreover have "set_smem st (smem st) = st" by (simp add: set_smem_def smem_def)
  ultimately show "fs_inode_get sy blk fr st r q = Some (st, 0)" by (simp add: fs_inode_get_def ram_at_def)
qed (simp add: ram_at_def)

interpretation ram_file: open_file sy blk fr r cs "region r 40 \<union> region ri 16 \<union> region f 56 \<union> region c 4096" "ram_at sy cur r ri f c cs" cur
  for sy and blk :: "'d block" and fr r cs cur ri f c
proof
  fix pos m and st :: "'d \<times> machine"
  let ?X = "- (region r 40 \<union> region ri 16 \<union> region f 56 \<union> region c 4096)"
  assume at: "ram_at sy cur r ri f c cs pos st" and w: "same_outside ?X (smem st) m"
  note a = at [unfolded ram_at_def]
  have "region r 40 \<inter> ?X = {}" "region ri 16 \<inter> ?X = {}" "region f 56 \<inter> ?X = {}" "region c 4096 \<inter> ?X = {}" by blast+
  note fr = ram_frame(1) [OF w this(1)] ram_frame(2) [OF w this(2)] ram_frame(3) [OF w this(3)] and c = this(4)
  have "region c (length cs) \<inter> ?X = {}" using a c region_mono [of "length cs" 4096 c] by blast
  then have "bytes_at m c cs" using bytes_at_same_outside [OF w] a by simp
  then show "ram_at sy cur r ri f c cs pos (set_smem st m)" using a fr by (simp add: ram_at_def ram_open_def ram_file_def)
qed (simp_all add: ram_at_def)

section \<open>Opening a file\<close>

lemma ramfs_open_loop_stuck:
  "ramfs_open_loop sy k filename ptr = Some r \<Longrightarrow> ptr \<noteq> NULL \<Longrightarrow> strcmp (kmem k) filename (fld ptr 0) = Some d \<Longrightarrow> d = 0"
  by (induction sy k filename ptr r rule: ramfs_open_loop.raw_induct [rotated, consumes 1, case_names step])
    (simp split: if_splits)

section \<open>New inodes\<close>

lemma ramfs_allocate_inode_ok:
  assumes ok: "fs_ok k R (Suc n)" and room: "slab_live (kmem k) (inode_slab k) \<noteq> slab_slots (inode_slab k)"
  obtains k' R' inode ri where "ramfs_allocate_inode sy k f = Some (k', inode)" and "fs_ok k' R' n" and "inode_slab k' = inode_slab k"
    and "inode \<in> slab_slots (inode_slab k) - slab_live (kmem k) (inode_slab k)"
    and "slab_live (kmem k') (inode_slab k) = insert inode (slab_live (kmem k) (inode_slab k))"
    and "ram_open (kmem k') inode ri f 0" and "i_get (kmem k') inode = sym_ramfs_get sy" and "i_put (kmem k') inode = sym_ramfs_put sy"
    and "region ri 16 \<subseteq> heap_rest (main_heap k) R" and "heap_rest (main_heap k') R' \<subseteq> heap_rest (main_heap k) R - region ri 16"
    and "same_outside (heap_rest (main_heap k) R \<union> slab_header (inode_slab k) \<union> region inode 40) (kmem k) (kmem k')"
proof -
  let ?s = "inode_slab k" and ?F = "heap_rest (main_heap k) R"
  obtain k1 inode where a: "fs_allocate_inode k = Some (k1, inode)" "fs_ok k1 R (Suc n)" "inode_slab k1 = ?s" "main_heap k1 = main_heap k"
    "inode \<in> slab_slots ?s - slab_live (kmem k) ?s" "inode \<noteq> NULL" "slab_live (kmem k1) ?s = insert inode (slab_live (kmem k) ?s)"
    "same_outside (slab_header ?s) (kmem k) (kmem k1)"
    using ok room by (rule fs_inode_alloc)
  obtain k2 R2 ri where b: "k_kalloc k1 16 = Some (k2, ri)" "ri \<noteq> NULL" "fs_ok k2 R2 n" "inode_slab k2 = inode_slab k1"
    "region ri 4096 \<subseteq> heap_rest (main_heap k1) R" "heap_rest (main_heap k2) R2 \<subseteq> heap_rest (main_heap k1) R - region ri 4096"
    "same_outside (heap_rest (main_heap k1) R - region ri 4096) (kmem k1) (kmem k2)"
    by (rule fs_kalloc [OF a(2), of 16]) simp_all
  have F: "heap_rest (main_heap k1) R = ?F" by (simp add: a(4))
  have ri: "region ri 16 \<subseteq> region ri 4096" by (rule region_mono) simp
  have slot: "inode \<in> slab_slots ?s" using a(5) by blast
  note ino = inode_region [OF ok slot]
  let ?m3 = "store64 (store64 (store64 (store64 (kmem k2) (fld inode 0) ri) (fld inode 24) (sym_ramfs_close sy)) (fld inode 8) (sym_ramfs_get sy)) (fld inode 16) (sym_ramfs_put sy)"
  let ?m4 = "store32 (store64 ?m3 (fld ri 0) f) (fld ri 8) 0"
  have w3: "same_outside (region inode 40) (kmem k2) ?m3"
    by (intro same_outside_trans [OF _ store_fld_outside] same_outside_refl) simp_all
  have w4: "same_outside (region ri 16) ?m3 ?m4"
    by (intro same_outside_trans [OF _ store_fld_outside] same_outside_refl) simp_all
  have ap: "region inode 40 \<inter> region ri 16 = {}" using ino(1) b(5) ri unfolding F by blast
  have i3: "i_impl_inode ?m3 inode = ri" "i_get ?m3 inode = sym_ramfs_get sy" "i_put ?m3 inode = sym_ramfs_put sy"
    by (simp_all add: i_impl_inode_def i_get_def i_put_def load_store_le load_store_fld del: fld_0)
  have i4: "ri_ram_file ?m4 ri = f" "ri_position ?m4 ri = 0"
    by (simp_all add: ri_ram_file_def ri_position_def load_store_le load_store_fld del: fld_0)
  note fr = ram_frame(1) [OF w4 ap]
  let ?k = "k2\<lparr>kmem := ?m4\<rparr>"
  have run: "ramfs_allocate_inode sy k f = Some (?k, inode)" using a(1) b(1) by (simp add: ramfs_allocate_inode_def Let_def del: fld_0)
  have w: "same_outside (region inode 40 \<union> region ri 16) (kmem k2) ?m4"
    by (rule same_outside_trans [OF same_outside_mono [OF w3] same_outside_mono [OF w4]]) blast+
  have sub: "heap_rest (main_heap k2) R2 \<subseteq> ?F - region ri 16" using b(6) ri unfolding F by blast
  have okk: "fs_ok ?k R2 n" by (rule fs_ok_write [OF b(3) w]) (use sub ino(1) in blast)
  have hdr: "slab_header ?s \<inter> ?F = {}" using ok by (auto simp: fs_ok_def pool_bytes_def simp del: in_region)
  have wf: "wf_slab ?s" using ok by (simp add: fs_ok_def)
  have all: "same_outside (?F \<union> region inode 40) (kmem k1) ?m4"
    by (rule same_outside_trans [OF same_outside_mono [OF b(7)] same_outside_mono [OF w]]) (use b(5) ri in \<open>unfold F, blast+\<close>)
  have "slab_live ?m4 ?s = slab_live (kmem k1) ?s"
    by (rule slab_pool.live_frame [OF wf all]) (use hdr ino(2) in blast)
  then have live: "slab_live (kmem ?k) ?s = insert inode (slab_live (kmem k) ?s)" using a(7) by simp
  have "same_outside (?F \<union> slab_header ?s \<union> region inode 40) (kmem k) ?m4"
    by (rule same_outside_trans [OF same_outside_mono [OF a(8)] same_outside_mono [OF all]]) blast+
  then have "same_outside (?F \<union> slab_header ?s \<union> region inode 40) (kmem k) (kmem ?k)" by simp
  moreover have "inode_slab ?k = ?s" using a(3) b(4) by simp
  moreover have "ram_open (kmem ?k) inode ri f 0" using i3 i4 fr by (simp add: ram_open_def)
  moreover have "i_get (kmem ?k) inode = sym_ramfs_get sy" "i_put (kmem ?k) inode = sym_ramfs_put sy" using i3 fr by simp_all
  moreover have "region ri 16 \<subseteq> ?F" using b(5) ri unfolding F by blast
  moreover have "heap_rest (main_heap ?k) R2 \<subseteq> ?F - region ri 16" using sub by simp
  ultimately show thesis using that [OF run okk _ a(5) live] by blast
qed

lemma ram_file_init:
  shows "ram_file (store32 (store32 (store64 m (fld f 32) c) (fld f 40) 4096) (fld f 44) 0) f c 0" (is "ram_file ?m f c 0")
    and "same_outside (region (fld f 32) 24) m (store32 (store32 (store64 m (fld f 32) c) (fld f 40) 4096) (fld f 44) 0)"
proof -
  have f24: "fld f 40 = fld (fld f 32) 8" "fld f 44 = fld (fld f 32) 12" "fld f 32 = fld (fld f 32) 0" by (simp_all add: fld_def)
  show "same_outside (region (fld f 32) 24) m ?m"
    unfolding f24(1,2) by (subst (2) f24(3)) (intro same_outside_trans [OF _ store_fld_outside] same_outside_refl; simp)
  show "ram_file ?m f c 0"
    by (simp add: ram_file_def rf_content_def rf_content_alloc_def rf_content_fill_def load_store_le load_store_fld sint_of_nat32 [of 4096, simplified])
qed

lemma ramfs_new_file:
  assumes ok: "fs_ok k R (Suc (Suc n))"
    and fs: "fs_arguments (kmem k) fs = rfs" "rfs_head (kmem k) rfs = NULL" and name: "str_at (kmem k) filename s" "length s < 32"
    and ap: "region rfs 8 \<inter> region filename (Suc (length s)) = {}"
    and off: "(region rfs 8 \<union> region filename (Suc (length s))) \<inter> heap_rest (main_heap k) R = {}"
  obtains k' R' f c where "ramfs_create_internal sy k fs filename = ramfs_allocate_inode sy k' f" and "fs_ok k' R' n" and "inode_slab k' = inode_slab k"
    and "ram_file (kmem k') f c 0" and "f \<noteq> NULL" and "rfs_head (kmem k') rfs = f" and "str_at (kmem k') f s"
    and "region f 56 \<inter> region c 4096 = {}" and "region f 56 \<union> region c 4096 \<subseteq> heap_rest (main_heap k) R"
    and "heap_rest (main_heap k') R' \<subseteq> heap_rest (main_heap k) R - (region f 56 \<union> region c 4096)"
    and "same_outside (heap_rest (main_heap k) R \<union> region rfs 8) (kmem k) (kmem k')"
proof -
  let ?s = "inode_slab k" and ?F = "heap_rest (main_heap k) R" and ?N = "region filename (Suc (length s))"
  have rf: "region rfs 8 \<inter> ?F = {}" "?N \<inter> ?F = {}" "?N \<inter> region rfs 8 = {}" using off ap by auto
  obtain k1 R1 f where a: "k_kalloc k 56 = Some (k1, f)" "f \<noteq> NULL" "fs_ok k1 R1 (Suc n)" "inode_slab k1 = ?s"
    "region f 4096 \<subseteq> ?F" "heap_rest (main_heap k1) R1 \<subseteq> ?F - region f 4096" "same_outside (?F - region f 4096) (kmem k) (kmem k1)"
    by (rule fs_kalloc [OF ok, of 56]) simp_all
  have f56: "region f 56 \<subseteq> region f 4096" by (rule region_mono) simp
  let ?m2 = "store64 (store64 (kmem k1) (fld rfs 0) f) (fld f 48) NULL"
  have w2: "same_outside (region rfs 8 \<union> region f 56) (kmem k1) ?m2"
    by (rule same_outside_trans [OF same_outside_mono [OF store_fld_outside] same_outside_mono [OF store_fld_outside]]) auto
  have w12: "same_outside (?F \<union> region rfs 8) (kmem k) ?m2"
    by (rule same_outside_trans [OF same_outside_mono [OF a(7)] same_outside_mono [OF w2]]) (use a(5) f56 in blast)+
  have "?N \<inter> (?F \<union> region rfs 8) = {}" using rf by blast
  then have n2: "str_at ?m2 filename s" using str_at_same_outside [OF w12] name by simp
  have nf: "?N \<inter> region f (Suc (length s)) = {}"
    using rf(2) a(5) region_mono [of "Suc (length s)" 4096 f] name(2) by auto
  obtain m3 where m3: "strcpy ?m2 (fld f 0) filename = Some (m3, fld f 0 + of_nat (length s))" "str_at m3 (fld f 0) s"
    "same_outside (region f (Suc (length s))) ?m2 m3"
    using strcpy_str_at [OF n2, of "fld f 0"] nf name(2) by auto
  have f32: "region f (Suc (length s)) \<subseteq> region f 32" "region f 32 \<subseteq> region f 56" by (rule region_mono; use name(2) in simp)+
  have w3: "same_outside (region rfs 8 \<union> region f 56) (kmem k1) m3"
    by (rule same_outside_trans [OF w2 same_outside_mono [OF m3(3)]]) (use f32 in blast)
  let ?k3 = "k1\<lparr>kmem := m3\<rparr>"
  have ok3: "fs_ok ?k3 R1 (Suc n)" by (rule fs_ok_write [OF a(3) w3]) (use a(6) f56 rf(1) in blast)
  obtain k4 R4 c where c: "k_kalloc ?k3 4096 = Some (k4, c)" "c \<noteq> NULL" "fs_ok k4 R4 n" "inode_slab k4 = inode_slab ?k3"
    "region c 4096 \<subseteq> heap_rest (main_heap ?k3) R1" "heap_rest (main_heap k4) R4 \<subseteq> heap_rest (main_heap ?k3) R1 - region c 4096"
    "same_outside (heap_rest (main_heap ?k3) R1 - region c 4096) (kmem ?k3) (kmem k4)"
    by (rule fs_kalloc [OF ok3, of 4096]) simp_all
  let ?m5 = "store32 (store32 (store64 (kmem k4) (fld f 32) c) (fld f 40) 4096) (fld f 44) 0"
  note rfile = ram_file_init(1) [of "kmem k4" f c] and w5 = ram_file_init(2) [of f "kmem k4" c]
  have F3: "heap_rest (main_heap ?k3) R1 = heap_rest (main_heap k1) R1" by simp
  have sub32: "region (fld f 32) 24 \<subseteq> region f 56" "region f 32 \<inter> region (fld f 32) 24 = {}"
    using fld_sub [of 32 24 56 f] fld_apart [of 0 32 32 24 f] by simp_all
  have fF: "region f 56 \<inter> heap_rest (main_heap k1) R1 = {}" using a(6) f56 by blast
  have ok5: "fs_ok (k4\<lparr>kmem := ?m5\<rparr>) R4 n"
    by (rule fs_ok_write [OF c(3) w5]) (use c(6) fF sub32 in \<open>unfold F3, blast\<close>)
  have w35: "same_outside (heap_rest (main_heap k1) R1 \<union> region (fld f 32) 24) m3 ?m5"
    by (rule same_outside_trans [OF same_outside_mono [OF c(7) [simplified]] same_outside_mono [OF w5]]) blast+
  have w13: "same_outside (region f 56) (store64 (kmem k1) (fld rfs 0) f) m3"
    by (rule same_outside_trans [OF store_fld_outside same_outside_mono [OF m3(3)]]) (use f32 in auto)
  have ap1: "region rfs 8 \<inter> region f 56 = {}" "region rfs 8 \<inter> (heap_rest (main_heap k1) R1 \<union> region (fld f 32) 24) = {}"
    using rf(1) a(5,6) f56 sub32(1) by blast+
  have head: "rfs_head ?m5 rfs = f"
    by (simp add: rfs_head_def load_frame [OF w35 ap1(2)] load_frame [OF w13 ap1(1)] load_store_le del: fld_0)
  have "region f (Suc (length s)) \<inter> (heap_rest (main_heap k1) R1 \<union> region (fld f 32) 24) = {}" using f32 fF sub32(2) by blast
  then have str: "str_at ?m5 f s" using str_at_same_outside [OF w35] m3(2) name(2) by simp
  have cF: "region c 4096 \<subseteq> heap_rest (main_heap k1) R1" "heap_rest (main_heap k1) R1 \<subseteq> ?F - region f 56"
    "heap_rest (main_heap k4) R4 \<subseteq> heap_rest (main_heap k1) R1 - region c 4096" "region f 56 \<subseteq> ?F"
    using c(5,6) a(5,6) f56 unfolding F3 by blast+
  have w25: "same_outside (?F \<union> region rfs 8) ?m2 ?m5"
    by (rule same_outside_trans [OF same_outside_mono [OF m3(3)] same_outside_mono [OF w35]]) (use f32 cF(2,4) sub32(1) in blast)+
  have run: "ramfs_create_internal sy k fs filename = ramfs_allocate_inode sy (k4\<lparr>kmem := ?m5\<rparr>) f"
    using fs a(1) m3(1) c(1) by (simp add: ramfs_create_internal_def)
  show thesis
  proof (rule that [OF run ok5 _ _ a(2)])
    show "same_outside (?F \<union> region rfs 8) (kmem k) (kmem (k4\<lparr>kmem := ?m5\<rparr>))" using same_outside_trans [OF w12 w25] by simp
    show "heap_rest (main_heap (k4\<lparr>kmem := ?m5\<rparr>)) R4 \<subseteq> ?F - (region f 56 \<union> region c 4096)" using cF by auto
  qed (use rfile head str cF a(4) c(4) in \<open>auto simp del: in_region\<close>)
qed

lemma ramfs_create_ok:
  assumes ok: "fs_ok k R (Suc (Suc (Suc n)))" and room: "slab_live (kmem k) (inode_slab k) \<noteq> slab_slots (inode_slab k)"
    and fs: "fs_arguments (kmem k) fs = rfs" "rfs_head (kmem k) rfs = NULL" and name: "str_at (kmem k) filename s" "length s < 32"
    and ap: "region rfs 8 \<inter> region filename (Suc (length s)) = {}"
    and off: "(region rfs 8 \<union> region filename (Suc (length s))) \<inter> (heap_rest (main_heap k) R \<union> pool_bytes (inode_slab k)) = {}"
  obtains k' R' inode ri f c where "ramfs_create_internal sy k fs filename = Some (k', inode)" and "fs_ok k' R' n" and "inode_slab k' = inode_slab k"
    and "inode \<in> slab_slots (inode_slab k) - slab_live (kmem k) (inode_slab k)"
    and "slab_live (kmem k') (inode_slab k) = insert inode (slab_live (kmem k) (inode_slab k))"
    and "ram_open (kmem k') inode ri f 0" and "i_get (kmem k') inode = sym_ramfs_get sy" and "i_put (kmem k') inode = sym_ramfs_put sy"
    and "ram_file (kmem k') f c 0" and "f \<noteq> NULL" and "rfs_head (kmem k') rfs = f" and "str_at (kmem k') f s"
    and "apart_all [(inode, 40), (ri, 16), (f, 56), (c, 4096)]" and "region ri 16 \<union> region f 56 \<union> region c 4096 \<subseteq> heap_rest (main_heap k) R"
    and "heap_rest (main_heap k') R' \<subseteq> heap_rest (main_heap k) R - (region ri 16 \<union> region f 56 \<union> region c 4096)"
    and "same_outside (heap_rest (main_heap k) R \<union> pool_bytes (inode_slab k) \<union> region rfs 8) (kmem k) (kmem k')"
proof -
  let ?s = "inode_slab k" and ?F = "heap_rest (main_heap k) R"
  have off1: "(region rfs 8 \<union> region filename (Suc (length s))) \<inter> ?F = {}" "region rfs 8 \<inter> pool_bytes ?s = {}" using off by blast+
  obtain k1 R1 f c where a: "ramfs_create_internal sy k fs filename = ramfs_allocate_inode sy k1 f" "fs_ok k1 R1 (Suc n)" "inode_slab k1 = ?s"
    "ram_file (kmem k1) f c 0" "f \<noteq> NULL" "rfs_head (kmem k1) rfs = f" "str_at (kmem k1) f s" "region f 56 \<inter> region c 4096 = {}"
    "region f 56 \<union> region c 4096 \<subseteq> ?F" "heap_rest (main_heap k1) R1 \<subseteq> ?F - (region f 56 \<union> region c 4096)"
    "same_outside (?F \<union> region rfs 8) (kmem k) (kmem k1)"
    using ok fs name ap off1(1) by (rule ramfs_new_file)
  let ?G = "heap_rest (main_heap k1) R1"
  have wf: "wf_slab ?s" and pF: "pool_bytes ?s \<inter> ?F = {}" using ok by (simp_all add: fs_ok_def)
  have hp: "slab_header ?s \<subseteq> pool_bytes ?s" by (simp add: pool_bytes_def)
  have live: "slab_live (kmem k1) ?s = slab_live (kmem k) ?s"
    by (rule slab_pool.live_frame [OF wf a(11)]) (use hp pF off1(2) in blast)
  then have room1: "slab_live (kmem k1) (inode_slab k1) \<noteq> slab_slots (inode_slab k1)" using room a(3) by simp
  obtain k2 R2 inode ri where b: "ramfs_allocate_inode sy k1 f = Some (k2, inode)" "fs_ok k2 R2 n" "inode_slab k2 = inode_slab k1"
    "inode \<in> slab_slots (inode_slab k1) - slab_live (kmem k1) (inode_slab k1)"
    "slab_live (kmem k2) (inode_slab k1) = insert inode (slab_live (kmem k1) (inode_slab k1))"
    "ram_open (kmem k2) inode ri f 0" "i_get (kmem k2) inode = sym_ramfs_get sy" "i_put (kmem k2) inode = sym_ramfs_put sy"
    "region ri 16 \<subseteq> ?G" "heap_rest (main_heap k2) R2 \<subseteq> ?G - region ri 16"
    "same_outside (?G \<union> slab_header (inode_slab k1) \<union> region inode 40) (kmem k1) (kmem k2)"
    using a(2) room1 by (rule ramfs_allocate_inode_ok)
  have ip: "region inode 40 \<subseteq> pool_bytes ?s" using b(4) a(3) ok by (auto simp: pool_bytes_def fs_ok_def simp del: in_region)
  have w: "same_outside (?G \<union> pool_bytes ?s) (kmem k1) (kmem k2)" by (rule same_outside_mono [OF b(11)]) (use ip hp a(3) in auto)
  have off2: "region f 56 \<inter> (?G \<union> pool_bytes ?s) = {}" "region rfs 8 \<inter> (?G \<union> pool_bytes ?s) = {}" using a(9,10) pF off1 by blast+
  have f32: "region f (Suc (length s)) \<subseteq> region f 56" by (rule region_mono) (use name(2) in simp)
  have keep: "ram_file (kmem k2) f c 0" "rfs_head (kmem k2) rfs = f"
    using a(4,6) ram_frame(3) [OF w off2(1)] by (simp_all add: ram_file_def rfs_head_def load_frame [OF w off2(2)] del: fld_0)
  have str: "str_at (kmem k2) f s" using str_at_same_outside [OF w, of f s] off2(1) f32 a(7) name(2) by auto
  have "region inode 40 \<inter> region ri 16 = {}" "region inode 40 \<inter> region f 56 = {}" "region inode 40 \<inter> region c 4096 = {}"
    "region ri 16 \<inter> region f 56 = {}" "region ri 16 \<inter> region c 4096 = {}" using a(9,10) b(9) ip pF by blast+
  then have apart: "apart_all [(inode, 40), (ri, 16), (f, 56), (c, 4096)]" using a(8) by simp
  have all: "same_outside (?F \<union> pool_bytes ?s \<union> region rfs 8) (kmem k) (kmem k2)"
    by (rule same_outside_trans [OF same_outside_mono [OF a(11)] same_outside_mono [OF w]]) (use a(10) in blast)+
  have "inode \<in> slab_slots ?s - slab_live (kmem k) ?s" "slab_live (kmem k2) ?s = insert inode (slab_live (kmem k) ?s)" "inode_slab k2 = ?s"
    using b(3-5) live a(3) by simp_all
  moreover have "region ri 16 \<union> region f 56 \<union> region c 4096 \<subseteq> ?F" "heap_rest (main_heap k2) R2 \<subseteq> ?F - (region ri 16 \<union> region f 56 \<union> region c 4096)"
    using a(9,10) b(9,10) by blast+
  moreover have "ramfs_create_internal sy k fs filename = Some (k2, inode)" using a(1) b(1) by simp
  ultimately show thesis using that [OF _ b(2) _ _ _ b(6-8) keep(1) a(5) keep(2) str apart _ _ all] by metis
qed

lemma ramfs_open_eq:
  assumes "rfs_head (kmem k) (fs_arguments (kmem k) filesystem) = head"
    and "head \<noteq> NULL \<Longrightarrow> str_at (kmem k) filename s \<and> str_at (kmem k) head t"
  shows "ramfs_open_internal sy k filesystem filename =
    (if head = NULL then Some (k, NULL) else if s = t then ramfs_allocate_inode sy k head else None)"
proof (cases "head = NULL")
  case True
  then show ?thesis using assms(1) by (simp add: ramfs_open_internal_def Let_def ramfs_open_loop.simps)
next
  case False
  then obtain d where d: "strcmp (kmem k) filename (fld head 0) = Some d" "d = 0 \<longleftrightarrow> s = t"
    using strcmp_str_at [of "kmem k" filename s head t] assms(2) by auto
  have o: "ramfs_open_internal sy k filesystem filename = ramfs_open_loop sy k filename head"
    using assms(1) by (simp add: ramfs_open_internal_def Let_def)
  show ?thesis
  proof (cases "d = 0")
    case True
    then show ?thesis using False d unfolding o by (subst ramfs_open_loop.simps) simp
  next
    case ne: False
    then have "ramfs_open_loop sy k filename head = None"
      using ramfs_open_loop_stuck [OF _ False d(1)] by (metis option.exhaust)
    then show ?thesis using False ne d(2) by (simp add: o)
  qed
qed

lemma two_left: "2 \<le> card (A - L) \<Longrightarrow> insert w L \<noteq> A"
  using card_mono [of "{w}" "A - L"] by auto

lemma ram_write_read:
  assumes apw: "apart_all [(w, 40), (wi, 16), (f, 56), (c, 4096)]" and apr: "apart_all [(r, 40), (ri, 16), (f, 56), (c, 4096)]"
    and wr: "(region r 40 \<union> region ri 16) \<inter> region wi 16 = {}"
    and opw: "ram_open (smem st) w wi f 0" "i_put (smem st) w = sym_ramfs_put sy"
    and opr: "ram_open (smem st) r ri f 0" "i_get (smem st) r = sym_ramfs_get sy"
    and rf: "ram_file (smem st) f c 0" and len: "length cs \<le> 4096"
    and q: "region q (length cs) \<inter> (region r 40 \<union> region ri 16 \<union> region f 56 \<union> region c 4096) = {}"
  shows "\<exists>st1 st2. inode_write sy st w cs = Some st1 \<and> job_read_loop sy blk fr st1 r q = Some st2 \<and> bytes_at (smem st2) q cs"
proof -
  have "0 + length cs \<le> 4096" using len by simp
  with apw opw(1) rf opw(2) obtain st1 where st1: "inode_write sy st w cs = Some st1" "ram_file (smem st1) f c (0 + length cs)"
    "bytes_at (smem st1) (c + of_nat 0) cs" "same_outside (region (c + of_nat 0) (length cs) \<union> region wi 16 \<union> region f 56) (smem st) (smem st1)"
    using inode_write_eq by blast
  have cl: "region (c + of_nat 0) (length cs) \<subseteq> region c 4096" using region_mono [OF len] by simp
  have "region r 40 \<inter> (region (c + of_nat 0) (length cs) \<union> region wi 16 \<union> region f 56) = {}"
    "region ri 16 \<inter> (region (c + of_nat 0) (length cs) \<union> region wi 16 \<union> region f 56) = {}"
    using apr wr cl by (auto simp del: in_region)
  from ram_frame(1) [OF st1(4) this(1)] ram_frame(2) [OF st1(4) this(2)] have "ram_open (smem st1) r ri f 0" "i_get (smem st1) r = sym_ramfs_get sy"
    using opr by (simp_all add: ram_open_def)
  then have "ram_at sy (current_job (kget st1)) r ri f c cs 0 st1" using apr st1(2,3) len by (simp add: ram_at_def)
  then show ?thesis using ram_source.read_all [of sy "current_job (kget st1)" r ri f c cs st1 q blk fr] q st1(1) by blast
qed

lemma ramfs_create_open:
  assumes ok: "fs_ok k R 4" and room: "2 \<le> card (slab_slots (inode_slab k) - slab_live (kmem k) (inode_slab k))"
    and fs: "fs_create (kmem k) fs = sym_ramfs_create_internal sy" "fs_open (kmem k) fs = sym_ramfs_open_internal sy"
      "fs_arguments (kmem k) fs = rfs" "rfs_head (kmem k) rfs = NULL"
    and name: "str_at (kmem k) filename s" "length s < 32" and ap: "apart_all [(fs, 24), (rfs, 8), (filename, Suc (length s))]"
    and off: "(region rfs 8 \<union> region filename (Suc (length s))) \<inter> (heap_rest (main_heap k) R \<union> pool_bytes (inode_slab k)) = {}"
      "region fs 24 \<inter> (heap_rest (main_heap k) R \<union> pool_bytes (inode_slab k)) = {}"
  obtains k1 w wi k2 r ri f c where "call_create sy k fs filename = Some (k1, w)" and "call_open sy fr k1 fs filename = Some (k2, r)" and "w \<noteq> r"
    and "apart_all [(w, 40), (wi, 16), (f, 56), (c, 4096)]" and "apart_all [(r, 40), (ri, 16), (f, 56), (c, 4096)]"
    and "(region r 40 \<union> region ri 16) \<inter> region wi 16 = {}" and "ram_open (kmem k2) w wi f 0" and "i_put (kmem k2) w = sym_ramfs_put sy"
    and "ram_open (kmem k2) r ri f 0" and "i_get (kmem k2) r = sym_ramfs_get sy" and "ram_file (kmem k2) f c 0"
    and "region r 40 \<union> region ri 16 \<union> region f 56 \<union> region c 4096 \<subseteq> heap_rest (main_heap k) R \<union> pool_bytes (inode_slab k)"
proof -
  let ?s = "inode_slab k" and ?F = "heap_rest (main_heap k) R"
  have wf: "wf_slab ?s" and sz: "object_size ?s = 40" and pF: "pool_bytes ?s \<inter> ?F = {}" using ok by (simp_all add: fs_ok_def)
  have four: "fs_ok k R (Suc (Suc (Suc (Suc 0))))" using ok by (simp add: numeral_eq_Suc)
  have r0: "slab_live (kmem k) ?s \<noteq> slab_slots ?s" using room by auto
  have ap': "region rfs 8 \<inter> region filename (Suc (length s)) = {}" using ap by simp
  obtain k1 R1 w wi f c where a: "ramfs_create_internal sy k fs filename = Some (k1, w)" "fs_ok k1 R1 (Suc 0)" "inode_slab k1 = ?s"
    "w \<in> slab_slots ?s - slab_live (kmem k) ?s" "slab_live (kmem k1) ?s = insert w (slab_live (kmem k) ?s)"
    "ram_open (kmem k1) w wi f 0" "i_get (kmem k1) w = sym_ramfs_get sy" "i_put (kmem k1) w = sym_ramfs_put sy"
    "ram_file (kmem k1) f c 0" "f \<noteq> NULL" "rfs_head (kmem k1) rfs = f" "str_at (kmem k1) f s"
    "apart_all [(w, 40), (wi, 16), (f, 56), (c, 4096)]" "region wi 16 \<union> region f 56 \<union> region c 4096 \<subseteq> ?F"
    "heap_rest (main_heap k1) R1 \<subseteq> ?F - (region wi 16 \<union> region f 56 \<union> region c 4096)"
    "same_outside (?F \<union> pool_bytes ?s \<union> region rfs 8) (kmem k) (kmem k1)"
    using four r0 fs(3,4) name ap' off(1) by (rule ramfs_create_ok)
  let ?G = "heap_rest (main_heap k1) R1"
  have r1: "slab_live (kmem k1) (inode_slab k1) \<noteq> slab_slots (inode_slab k1)" unfolding a(3,5) by (rule two_left [OF room])
  obtain k2 R2 r ri where b: "ramfs_allocate_inode sy k1 f = Some (k2, r)" "fs_ok k2 R2 0" "inode_slab k2 = inode_slab k1"
    "r \<in> slab_slots (inode_slab k1) - slab_live (kmem k1) (inode_slab k1)"
    "slab_live (kmem k2) (inode_slab k1) = insert r (slab_live (kmem k1) (inode_slab k1))"
    "ram_open (kmem k2) r ri f 0" "i_get (kmem k2) r = sym_ramfs_get sy" "i_put (kmem k2) r = sym_ramfs_put sy"
    "region ri 16 \<subseteq> ?G" "heap_rest (main_heap k2) R2 \<subseteq> ?G - region ri 16"
    "same_outside (?G \<union> slab_header (inode_slab k1) \<union> region r 40) (kmem k1) (kmem k2)"
    using a(2) r1 by (rule ramfs_allocate_inode_ok)
  let ?W = "?G \<union> slab_header ?s \<union> region r 40"
  have w2: "same_outside ?W (kmem k1) (kmem k2)" using b(11) a(3) by simp
  have slots: "w \<in> slab_slots ?s" "r \<in> slab_slots ?s" "w \<noteq> r" using a(3-5) b(4) by auto
  have pools: "region w 40 \<subseteq> pool_bytes ?s" "region r 40 \<subseteq> pool_bytes ?s" "slab_header ?s \<subseteq> pool_bytes ?s"
    using slots sz by (auto simp: pool_bytes_def simp del: in_region)
  have wr: "region w 40 \<inter> region r 40 = {}" "region w 40 \<inter> slab_header ?s = {}"
    using slab_pool.objects_apart [OF wf slots] slab_pool.objects_off_book [OF wf slots(1)] by (simp_all add: sz)
  have ri: "region ri 16 \<subseteq> ?F - (region wi 16 \<union> region f 56 \<union> region c 4096)" using b(9) a(15) by blast
  have offW: "region w 40 \<inter> ?W = {}" "region wi 16 \<inter> ?W = {}" "region f 56 \<inter> ?W = {}" using wr pools pF a(14,15) by blast+
  have keep: "ram_open (kmem k2) w wi f 0" "i_put (kmem k2) w = sym_ramfs_put sy" "ram_file (kmem k2) f c 0"
    using a(6,8,9) ram_frame(1) [OF w2 offW(1)] ram_frame(2) [OF w2 offW(2)] ram_frame(3) [OF w2 offW(3)] by (simp_all add: ram_open_def ram_file_def)
  have "region w 40 \<inter> region ri 16 = {}" "region r 40 \<inter> region ri 16 = {}" "region r 40 \<inter> region f 56 = {}" "region r 40 \<inter> region c 4096 = {}"
    "region ri 16 \<inter> region f 56 = {}" "region ri 16 \<inter> region c 4096 = {}" "region r 40 \<inter> region wi 16 = {}" "region ri 16 \<inter> region wi 16 = {}"
    using pools pF ri a(14) by blast+
  then have ap2: "apart_all [(r, 40), (ri, 16), (f, 56), (c, 4096)]" "(region r 40 \<union> region ri 16) \<inter> region wi 16 = {}" using a(13) by auto
  have offc: "region fs 24 \<inter> (?F \<union> pool_bytes ?s \<union> region rfs 8) = {}" "region filename (Suc (length s)) \<inter> (?F \<union> pool_bytes ?s \<union> region rfs 8) = {}"
    using off ap by auto
  have fs1: "fs_open (kmem k1) fs = sym_ramfs_open_internal sy" "fs_arguments (kmem k1) fs = rfs"
    using fs(2,3) by (simp_all add: fs_open_def fs_arguments_def load_frame [OF a(16) offc(1)] del: fld_0)
  have "str_at (kmem k1) filename s" using str_at_same_outside [OF a(16) offc(2)] name by simp
  then have "ramfs_open_internal sy k1 fs filename = Some (k2, r)"
    using ramfs_open_eq [of k1 fs f filename s s sy] fs1(2) a(10-12) b(1) by simp
  then have "call_open sy fr k1 fs filename = Some (k2, r)" "call_create sy k fs filename = Some (k1, w)"
    using fs1(1) fs(1) a(1) by (simp_all add: call_open_def call_create_def)
  moreover have "region r 40 \<union> region ri 16 \<union> region f 56 \<union> region c 4096 \<subseteq> ?F \<union> pool_bytes ?s" using pools(2) ri a(14) by blast
  ultimately show thesis using that slots(3) a(13) ap2 keep b(6,7) by metis
qed

text \<open>
  C11. A file of the file system in memory from its creation to the last byte read: with four free blocks
  in the heap and two free inodes, creating a file in an empty file system and opening it by the
  same name give two inodes; the bytes written through the first, at most a block of them, are the
  bytes that the read loop of \<open>job_create_from_file\<close> gets through the second, and that loop ends.
\<close>
theorem ramfs_create_open_write_read:
  assumes ok: "fs_ok (kget st) R 4" and room: "2 \<le> card (slab_slots (inode_slab (kget st)) - slab_live (smem st) (inode_slab (kget st)))"
    and fs: "fs_create (smem st) fs = sym_ramfs_create_internal sy" "fs_open (smem st) fs = sym_ramfs_open_internal sy"
      "fs_arguments (smem st) fs = rfs" "rfs_head (smem st) rfs = NULL"
    and name: "str_at (smem st) filename s" "length s < 32" and len: "length cs \<le> 4096"
    and ap: "apart_all [(fs, 24), (rfs, 8), (filename, Suc (length s))]"
    and off: "(region fs 24 \<union> region rfs 8 \<union> region filename (Suc (length s)) \<union> region q (length cs)) \<inter>
      (heap_rest (main_heap (kget st)) R \<union> pool_bytes (inode_slab (kget st))) = {}"
  shows "\<exists>k1 w k2 r st1 st2. call_create sy (kget st) fs filename = Some (k1, w) \<and> call_open sy fr k1 fs filename = Some (k2, r) \<and> w \<noteq> r \<and>
    inode_write sy (kput st k2) w cs = Some st1 \<and> job_read_loop sy blk fr st1 r q = Some st2 \<and> bytes_at (smem st2) q cs"
proof -
  let ?k = "kget st"
  have m: "smem st = kmem ?k" by (simp add: kget_def smem_def)
  have m2: "smem (kput st k2) = kmem k2" for k2 by (simp add: kput_def smem_def)
  have "(region rfs 8 \<union> region filename (Suc (length s))) \<inter> (heap_rest (main_heap ?k) R \<union> pool_bytes (inode_slab ?k)) = {}"
    "region fs 24 \<inter> (heap_rest (main_heap ?k) R \<union> pool_bytes (inode_slab ?k)) = {}" using off by blast+
  with ok room [unfolded m] fs [unfolded m] name [unfolded m] ap obtain k1 w wi k2 r ri f c where
    o: "call_create sy ?k fs filename = Some (k1, w)" "call_open sy fr k1 fs filename = Some (k2, r)" "w \<noteq> r"
      "apart_all [(w, 40), (wi, 16), (f, 56), (c, 4096)]" "apart_all [(r, 40), (ri, 16), (f, 56), (c, 4096)]"
      "(region r 40 \<union> region ri 16) \<inter> region wi 16 = {}" "ram_open (kmem k2) w wi f 0" "i_put (kmem k2) w = sym_ramfs_put sy"
      "ram_open (kmem k2) r ri f 0" "i_get (kmem k2) r = sym_ramfs_get sy" "ram_file (kmem k2) f c 0"
      "region r 40 \<union> region ri 16 \<union> region f 56 \<union> region c 4096 \<subseteq> heap_rest (main_heap ?k) R \<union> pool_bytes (inode_slab ?k)"
    by (rule ramfs_create_open)
  have q: "region q (length cs) \<inter> (region r 40 \<union> region ri 16 \<union> region f 56 \<union> region c 4096) = {}" using off o(12) by blast
  have "\<exists>st1 st2. inode_write sy (kput st k2) w cs = Some st1 \<and> job_read_loop sy blk fr st1 r q = Some st2 \<and> bytes_at (smem st2) q cs"
    by (rule ram_write_read [OF o(4-6) _ _ _ _ _ len q]) (use o(7-11) in \<open>simp_all add: m2\<close>)
  then show ?thesis using o(1-3) by blast
qed


abbreviation example_inodes :: slab where
  "example_inodes \<equiv> \<lparr>starting_address = 0x8000, max_store = 4, object_size = 40, header_size = 40\<rparr>"

abbreviation example_fs_kernel :: kernel where
  \<comment> \<open>an empty file system at 0x3000 and the name \<open>a\<close> at 0x3200\<close>
  "example_fs_kernel \<equiv> job_example\<lparr>kmem := store64 (store64 (store64 ((\<lambda>_. 0)(0x3200 := 97)) (fld 0x3000 16) 0x3100) (fld 0x3000 8) 0x50) (fld 0x3000 0) 0x40,
     main_heap := example_heap, inode_slab := example_inodes\<rparr>"

lemma example_fs_ok:
  "fs_ok example_fs_kernel {} 4" "2 \<le> card (slab_slots example_inodes - slab_live (kmem example_fs_kernel) example_inodes)"
  "pool_bytes example_inodes \<subseteq> region 0x8000 200" "heap_rest example_heap {} \<subseteq> region 0x1000 8 \<union> region 0x40200000 32768"
proof -
  have wf: "wf_slab example_inodes"
    by (simp add: wf_slab_def slab_zone_ok_def slab_span_def slab_get_header_size_def slab_align_to_object_def c_int_small Let_def)
  show pool: "pool_bytes example_inodes \<subseteq> region 0x8000 200" using pool_bytes_zone [OF wf, of 200] by (simp add: slab_zone_bytes_def)
  show rest: "heap_rest example_heap {} \<subseteq> region 0x1000 8 \<union> region 0x40200000 32768"
    by (auto simp: heap_rest_def table_bytes_def heap_bytes_def simp del: in_region)
  have "slab_live (kmem example_fs_kernel) example_inodes = {}"
    by (simp add: slab_live_def slab_used_def slab_bit_def store_le_def fld_def)
  moreover have "card (slab_slots example_inodes) = 4" using card_image [OF slab_slot_addr_inj [OF wf]] by (simp add: slab_slots_def)
  ultimately show "2 \<le> card (slab_slots example_inodes - slab_live (kmem example_fs_kernel) example_inodes)" by simp
  have w: "same_outside (region 0x3000 0x300) (\<lambda>_. 0) (kmem example_fs_kernel)"
    by (simp only: kernel.simps, intro same_outside_trans [OF _ store_fld_outside]) auto
  have heap: "heap_ok (kmem example_fs_kernel) example_heap {}"
    by (rule heap_ok_frame [OF heap_ok_example w]) (simp, rule regions_apart; simp)
  have "heap_table_apart example_heap" unfolding heap_table_apart_def by (rule regions_apart) simp_all
  moreover have "heap_room example_heap {} 4" unfolding heap_room_def by (rule exI [of _ 0]) (simp add: runs_taken_def)
  moreover have "region 0x8000 200 \<inter> region (0x1000 :: addr) 8 = {}" "region 0x8000 200 \<inter> region (0x40200000 :: addr) 32768 = {}" by (rule regions_apart; simp)+
  ultimately show "fs_ok example_fs_kernel {} 4" using heap wf pool rest by (simp add: fs_ok_def del: in_region) blast
qed

theorem ramfs_create_open_write_read_witness:
  "\<forall>mach :: machine. \<forall>fr. \<forall>blk :: unit block. \<exists>k1 w k2 r st1 st2. call_create example_symbols example_fs_kernel 0x3000 0x3200 = Some (k1, w) \<and>
    call_open example_symbols fr k1 0x3000 0x3200 = Some (k2, r) \<and> w \<noteq> r \<and>
    inode_write example_symbols ((), mach\<lparr>kern := k2\<rparr>) w [1, 2, 3] = Some st1 \<and>
    job_read_loop example_symbols blk fr st1 r 0x5000 = Some st2 \<and> bytes_at (smem st2) 0x5000 [1, 2, 3]"
proof (intro allI)
  fix mach :: machine and fr and blk :: "unit block"
  obtain k where kd: "k = example_fs_kernel" by simp
  let ?st = "((), mach\<lparr>kern := k\<rparr>) :: unit \<times> machine"
  have k: "kget ?st = k" "smem ?st = kmem k" "\<And>k'. kput ?st k' = ((), mach\<lparr>kern := k'\<rparr>)"
    by (simp_all add: kget_def smem_def kput_def)
  have s: "main_heap k = example_heap" "inode_slab k = example_inodes" by (simp_all add: kd)
  have str: "str_at (kmem k) 0x3200 [97]" by (simp add: kd store_le_def fld_def)
  have fs: "fs_create (kmem k) 0x3000 = 0x50" "fs_open (kmem k) 0x3000 = 0x40" "fs_arguments (kmem k) 0x3000 = 0x3100" "rfs_head (kmem k) 0x3100 = NULL"
    by (simp_all add: kd fs_create_def fs_open_def fs_arguments_def rfs_head_def load_le_def store_le_def fld_def)
  let ?A = "region 0x3000 24 \<union> region 0x3100 8 \<union> region 0x3200 2 \<union> region 0x5000 3 :: addr set"
  have "?A \<inter> region 0x1000 8 = {}" "?A \<inter> region 0x40200000 32768 = {}" "?A \<inter> region 0x8000 200 = {}"
    unfolding Int_Un_distrib2 Un_empty by (intro conjI regions_apart; simp)+
  then have off: "?A \<inter> (heap_rest example_heap {} \<union> pool_bytes example_inodes) = {}" using example_fs_ok(3,4) by blast
  have ap: "apart_all [(0x3000 :: addr, 24), (0x3100, 8), (0x3200, 2)]" by (simp add: regions_apart)
  note ok = example_fs_ok(1,2) [folded kd]
  show "\<exists>k1 w k2 r st1 st2. call_create example_symbols example_fs_kernel 0x3000 0x3200 = Some (k1, w) \<and>
    call_open example_symbols fr k1 0x3000 0x3200 = Some (k2, r) \<and> w \<noteq> r \<and>
    inode_write example_symbols ((), mach\<lparr>kern := k2\<rparr>) w [1, 2, 3] = Some st1 \<and>
    job_read_loop example_symbols blk fr st1 r 0x5000 = Some st2 \<and> bytes_at (smem st2) 0x5000 [1, 2, 3]"
    using ramfs_create_open_write_read [where st = ?st and s = "[97]" and rfs = "0x3100" and R = "{}" and sy = example_symbols and fs = "0x3000"
        and filename = "0x3200" and cs = "[1, 2, 3]" and q = "0x5000" and fr = fr and blk = blk] ok fs str off ap
    unfolding k s kd [symmetric] by (simp add: numeral_2_eq_2 numeral_3_eq_3)
qed

text \<open>
  C40. Opening a file of the file system in memory, with a free inode and a free block. With no file at all it gives NULL and
  changes nothing. The name of the first file of the list gives a fresh inode that is open on this file at position 0 with the
  functions of this file system. Any other name, be it the name of a later file or of no file, is searched for
  ever: every comparison returns, but the loop does not go on to the next file.
\<close>
theorem ramfs_open_first_only:
  assumes "fs_ok k R 1" and "slab_live (kmem k) (inode_slab k) \<noteq> slab_slots (inode_slab k)"
    and "rfs_head (kmem k) (fs_arguments (kmem k) filesystem) = head"
    and "head \<noteq> NULL \<Longrightarrow> str_at (kmem k) filename s \<and> str_at (kmem k) head t"
  shows "if head = NULL then ramfs_open_internal sy k filesystem filename = Some (k, NULL)
    else if s = t then \<exists>k' R' inode ri. ramfs_open_internal sy k filesystem filename = Some (k', inode) \<and> inode \<noteq> NULL \<and>
      inode \<notin> slab_live (kmem k) (inode_slab k) \<and> slab_live (kmem k') (inode_slab k') = insert inode (slab_live (kmem k) (inode_slab k)) \<and>
      ram_open (kmem k') inode ri head 0 \<and> i_get (kmem k') inode = sym_ramfs_get sy \<and> i_put (kmem k') inode = sym_ramfs_put sy \<and> fs_ok k' R' 0
    else (\<exists>d. strcmp (kmem k) filename head = Some d \<and> d \<noteq> 0) \<and> ramfs_open_internal sy k filesystem filename = None"
proof -
  have one: "fs_ok k R (Suc 0)" using assms(1) by simp
  obtain k' R' inode ri where a: "ramfs_allocate_inode sy k head = Some (k', inode)" "fs_ok k' R' 0" "inode_slab k' = inode_slab k"
    "inode \<in> slab_slots (inode_slab k) - slab_live (kmem k) (inode_slab k)"
    "slab_live (kmem k') (inode_slab k) = insert inode (slab_live (kmem k) (inode_slab k))"
    "ram_open (kmem k') inode ri head 0" "i_get (kmem k') inode = sym_ramfs_get sy" "i_put (kmem k') inode = sym_ramfs_put sy"
    "region ri 16 \<subseteq> heap_rest (main_heap k) R" "heap_rest (main_heap k') R' \<subseteq> heap_rest (main_heap k) R - region ri 16"
    "same_outside (heap_rest (main_heap k) R \<union> slab_header (inode_slab k) \<union> region inode 40) (kmem k) (kmem k')"
    using one assms(2) by (rule ramfs_allocate_inode_ok)
  have "wf_slab (inode_slab k)" using one by (simp add: fs_ok_def)
  then have "inode \<noteq> NULL" using slab_pool.slots_not_NULL a(4) by blast
  moreover have "\<exists>d. strcmp (kmem k) filename head = Some d \<and> (d = 0 \<longleftrightarrow> s = t)" if "head \<noteq> NULL"
    using strcmp_str_at [of "kmem k" filename s head t] assms(4) [OF that] by auto
  ultimately show ?thesis using ramfs_open_eq [OF assms(3,4), of sy] a by auto
qed

definition ramfs_files_mem :: mem where
  \<comment> \<open>the file system at 0x3000 has one file, \<open>b\<close>; the strings \<open>a\<close> at 0x3200 and \<open>b\<close> at 0x3210\<close>
  "ramfs_files_mem = store64 (store64 ((\<lambda>_. 0)(0x3200 := 97, 0x3210 := 98, 0x4000 := 98)) (fld 0x3000 16) 0x3100) (fld 0x3100 0) 0x4000"

theorem ramfs_open_first_only_witness:
  "\<forall>sy. ramfs_open_internal sy (example_fs_kernel\<lparr>kmem := ramfs_files_mem\<rparr>) 0x3000 0x3200 = None \<and>
    (\<exists>k' inode ri. ramfs_open_internal sy (example_fs_kernel\<lparr>kmem := ramfs_files_mem\<rparr>) 0x3000 0x3210 = Some (k', inode) \<and>
      inode \<noteq> NULL \<and> ram_open (kmem k') inode ri 0x4000 0) \<and>
    ramfs_open_internal sy example_fs_kernel 0x3000 0x3200 = Some (example_fs_kernel, NULL)"
proof
  fix sy
  let ?k = "example_fs_kernel\<lparr>kmem := ramfs_files_mem\<rparr>" and ?W = "region (0x3000 :: addr) 0x2000"
  have "heap_room example_heap {} 1" unfolding heap_room_def by (rule exI [of _ 0]) (simp add: runs_taken_def)
  then have one: "fs_ok example_fs_kernel {} 1" using example_fs_ok(1) by (simp add: fs_ok_def)
  have "same_outside ?W (\<lambda>_. 0) ramfs_files_mem"
    unfolding ramfs_files_mem_def by (intro store_inside; (rule region_inside)?) (auto simp: same_outside_def fld_def)
  moreover have "same_outside ?W (\<lambda>_. 0) (kmem example_fs_kernel)"
    by (simp only: kernel.simps, intro store_inside; (rule region_inside)?) (auto simp: same_outside_def fld_def)
  ultimately have w: "same_outside ?W (kmem example_fs_kernel) ramfs_files_mem" by (simp add: same_outside_def)
  have "?W \<inter> (region 0x1000 8 \<union> region 0x40200000 32768) = {}" by (simp add: Int_Un_distrib regions_apart)
  then have ok: "fs_ok ?k {} 1" by (intro fs_ok_write [OF one w]) (use example_fs_ok(4) in auto)
  have "slab_live ramfs_files_mem example_inodes = {}" by (simp add: slab_live_def slab_used_def slab_bit_def ramfs_files_mem_def store_le_def fld_def)
  then have room: "slab_live (kmem ?k) (inode_slab ?k) \<noteq> slab_slots (inode_slab ?k)" by (simp add: slab_slots_def lessThan_empty_iff)
  have room0: "slab_live (kmem example_fs_kernel) (inode_slab example_fs_kernel) \<noteq> slab_slots (inode_slab example_fs_kernel)"
    using example_fs_ok(2) by auto
  have fs: "rfs_head (kmem ?k) (fs_arguments (kmem ?k) 0x3000) = 0x4000"
    by (simp add: ramfs_files_mem_def fs_arguments_def rfs_head_def load_le_def store_le_def fld_def)
  have fs0: "rfs_head (kmem example_fs_kernel) (fs_arguments (kmem example_fs_kernel) 0x3000) = NULL"
    by (simp add: fs_arguments_def rfs_head_def load_le_def store_le_def fld_def)
  have str: "str_at (kmem ?k) 0x3200 [97]" "str_at (kmem ?k) 0x3210 [98]" "str_at (kmem ?k) 0x4000 [98]"
    by (simp_all add: ramfs_files_mem_def store_le_def fld_def)
  have "ramfs_open_internal sy ?k 0x3000 0x3200 = None"
    using ramfs_open_first_only [OF ok room fs, of "0x3200" "[97]" "[98]" sy] str by simp
  moreover have "\<exists>k' inode ri. ramfs_open_internal sy ?k 0x3000 0x3210 = Some (k', inode) \<and> inode \<noteq> NULL \<and> ram_open (kmem k') inode ri 0x4000 0"
    using ramfs_open_first_only [OF ok room fs, of "0x3210" "[98]" "[98]" sy] str by auto
  moreover have "ramfs_open_internal sy example_fs_kernel 0x3000 0x3200 = Some (example_fs_kernel, NULL)"
    using ramfs_open_first_only [OF one room0 fs0, of "0x3200" "[97]" "[98]" sy] by simp
  ultimately show "ramfs_open_internal sy ?k 0x3000 0x3200 = None \<and>
      (\<exists>k' inode ri. ramfs_open_internal sy ?k 0x3000 0x3210 = Some (k', inode) \<and> inode \<noteq> NULL \<and> ram_open (kmem k') inode ri 0x4000 0) \<and>
      ramfs_open_internal sy example_fs_kernel 0x3000 0x3200 = Some (example_fs_kernel, NULL)" by blast
qed

end
