(* ===== verification/Program_Input.thy ===== *)
theory Program_Input
  imports System_Calls Fatfs_Properties Ramfs_Properties
begin

text \<open>
  Files from the side of a user program: the path of a byte from the disk, through the driver, the file
  system, the handler and the pushed registers, to the result of \<open>sys_read\<close>.
\<close>

section \<open>Properties\<close>

text \<open>
  C8. A program that calls \<open>sys_read\<close> \<open>n\<close> times on an open descriptor receives the next \<open>n\<close> bytes of the file in their order, as
  long as the file has them, whatever the file system that provides it. Every call comes back behind its instruction
  with the other registers unchanged, and the descriptor stays open, at the next position.
\<close>
theorem user_reads_open_file:
  assumes "open_file sy blk (fatfs_frame.truncate f) inode src own at job" and "at pos st" and "pos + n \<le> length src"
    and "0 \<le> fd" and "fd < 8" and "job_get_file (smem st) job fd = inode" and "inode \<noteq> NULL" and "calls_apart f x30 job own"
  shows "\<exists>x' st'. user_read n (svc sy blk lf f junk (fld x30 256) ret pst) (x, st) fd = Some ((x', st'), take n (drop pos src)) \<and>
    (\<forall>i \<in> {1..30}. x' i = x i) \<and> at (pos + n) st' \<and> job_get_file (smem st') job fd = inode"
  by (rule open_file.user_read_bytes [OF assms(1) refl assms(4,5,8,7,2,3,6)])

abbreviation example_kernel_frame :: kernel_frame where
  "example_kernel_frame \<equiv> \<lparr>load_buffer = 0x14000, name_buffer = 0, ext_buffer = 0, handle_temp = 0, open_name = 0, open_ext = 0,
     elf_local = 0, char_local = 0x16000, page_slab_ptr = 0, kernel_paging_ptr = 0, disk_local = 0, req_local = 0, block_global = 0,
     lit_init_elf = 0, lit_init = 0, lit_syscall = 0\<rparr>"

definition example_job_mem :: mem where
  \<comment> \<open>the job at 0x15000 has the inode of the example of the FAT file system open under descriptor 0\<close>
  "example_job_mem = store64 (store32 example_fat_mem (fld 0x15000 376) 1) (fld 0x15000 312) 0x12000"

lemma example_job_outside: "same_outside (region 0x15000 392) example_fat_mem example_job_mem"
  unfolding example_job_mem_def by (rule same_outside_trans [OF store_fld_outside store_fld_outside]) simp_all

lemma example_job_file: "job_get_file example_job_mem 0x15000 0 = 0x12000"
  by (simp add: job_get_file_def get_count_def get_file_def example_job_mem_def load_store_le load_store_fld)

abbreviation example_own :: "addr set" where
  "example_own \<equiv> fat_own 0x12000 0x13000 0x14000 0x10000 0x11000 0x40000 (example_driver \<union> heap_rest example_heap {})"

definition example_open :: "nat \<Rightarrow> example_dev \<times> machine \<Rightarrow> bool" where
  "example_open pos st \<longleftrightarrow>
     (\<forall>n st. example_idle example_sectors 0x15000 n (st :: example_dev \<times> machine) \<longrightarrow> current_job (kget st) = 0x15000) \<and>
     fat_at example_symbols example_disk_block example_sectors example_driver (example_idle example_sectors 0x15000)
       example_fatfs_frame example_heap {} 0x12000 0x13000 0x10000 0x11000 0x40000 1 1024 [2, 3] 600 1022 pos st"

abbreviation example_content :: "u8 list" where "example_content \<equiv> map (file_byte example_sectors 1 1024 [2, 3]) [0..<600]"

definition example_reader :: "example_dev \<times> machine" where
  "example_reader = set_smem (example_fat_state 0x15000) example_job_mem"

lemma example_open_file:
  "open_file example_symbols example_disk_block (fatfs_frame.truncate example_kernel_frame) 0x12000 example_content example_own example_open 0x15000"
  using fat_disk_file.open_file_axioms [of example_symbols example_disk_block example_fatfs_frame "0x12000" example_sectors 1 1024 "[2, 3]" 600 "0x13000" "0x10000" "0x11000"
      "0x40000" example_driver example_heap "{}" "example_idle example_sectors 0x15000" "0x15000" 1022]
  by (simp add: example_open_def [abs_def] fatfs_frame.defs)

lemma example_places:
  "region 0x15000 392 \<inter> example_own = {}" "calls_apart example_kernel_frame 0x17000 0x15000 example_own"
proof -
  show job: "region 0x15000 392 \<inter> example_own = {}" by (rule example_fat_own) (simp_all add: region_inside regions_apart)
  have x: "region 0x17000 256 \<inter> example_own = {}" by (rule example_fat_own) (simp_all add: region_inside regions_apart)
  have "region 0x16000 1 \<inter> example_own = {}" by (rule example_fat_own) (simp_all add: region_inside regions_apart)
  moreover have c: "0x16000 \<in> region (0x16000 :: addr) 1" by simp
  ultimately have "0x16000 \<notin> example_own" by blast
  moreover have "region 0x17000 256 \<inter> region (0x16000 :: addr) 1 = {}" "region 0x17000 256 \<inter> region (0x15000 :: addr) 392 = {}"
    "region 0x16000 1 \<inter> region (0x15000 :: addr) 392 = {}" by (rule regions_apart; simp)+
  ultimately show "calls_apart example_kernel_frame 0x17000 0x15000 example_own"
    unfolding calls_apart_def kernel_frame.select_convs using job x c by blast
qed

lemma example_reader_open: "example_open 0 example_reader" "job_get_file (smem example_reader) 0x15000 0 = 0x12000"
proof -
  have "same_outside (- example_own) (smem (example_fat_state 0x15000)) example_job_mem"
    unfolding smem_def by simp (rule same_outside_mono [OF example_job_outside], use example_places(1) in blast)
  moreover have "example_open 0 (example_fat_state 0x15000)" unfolding example_open_def using example_fat_at by (simp add: virtio_idle_def kget_def)
  ultimately show "example_open 0 example_reader" unfolding example_reader_def using open_file.write_elsewhere [OF example_open_file] by blast
  show "job_get_file (smem example_reader) 0x15000 0 = 0x12000" unfolding example_reader_def smem_set by (rule example_job_file)
qed

theorem user_reads_open_file_witness:
  "\<forall>lf junk ret pst. \<exists>x' st' cs. user_read 600 (svc example_symbols example_disk_block lf example_kernel_frame junk (fld 0x17000 256) ret pst)
      (of_nat, example_reader) 0 = Some ((x', st'), cs) \<and> cs ! 599 = 90 \<and> x' 7 = 7"
proof (intro allI)
  fix lf junk ret pst
  have "\<exists>x' st'. user_read 600 (svc example_symbols example_disk_block lf example_kernel_frame junk (fld 0x17000 256) ret pst) (of_nat, example_reader) 0 =
      Some ((x', st'), take 600 (drop 0 example_content)) \<and> (\<forall>i \<in> {1..30}. x' i = of_nat i) \<and> example_open (0 + 600) st' \<and> job_get_file (smem st') 0x15000 0 = 0x12000"
    by (rule user_reads_open_file [OF example_open_file example_reader_open(1) _ _ _ example_reader_open(2) _ example_places(2)]) simp_all
  moreover have "take 600 (drop 0 example_content) ! 599 = 90" by (simp add: file_byte_def disk_byte_def)
  ultimately show "\<exists>x' st' cs. user_read 600 (svc example_symbols example_disk_block lf example_kernel_frame junk (fld 0x17000 256) ret pst)
      (of_nat, example_reader) 0 = Some ((x', st'), cs) \<and> cs ! 599 = 90 \<and> x' 7 = 7" by fastforce
qed

text \<open>
  C12. \<open>sys_read\<close> when there is no byte. On a descriptor that is not open the program receives 255, the error -1 of the kernel as a
  \<open>char\<close>, which is also what a byte 255 of a file gives. At the end of the file it receives what the
  local variable of the handler happens to hold, since the handler does not look at the result of \<open>fs_inode_get\<close>: after a
  read this is again the last byte, and the end is never reported.
\<close>
theorem sys_read_without_byte:
  assumes "job_get_current (kget st) = job" and "calls_apart f x30 job own"
  shows "(is_int fd \<and> (fd < 0 \<or> get_count (smem st) job \<le> fd) \<longrightarrow>
      (\<exists>x' st'. sys_read (svc sy blk lf f junk (fld x30 256) ret pst) (x, st) fd = Some ((x', st'), 255) \<and>
        (\<forall>i \<in> {1..30}. x' i = x i) \<and> same_outside (region x30 256) (smem st) (smem st'))) \<and>
    (open_file sy blk (fatfs_frame.truncate f) inode src own at job \<and> at (length src) st \<and> 0 \<le> fd \<and> fd < 8 \<and>
      job_get_file (smem st) job fd = inode \<and> inode \<noteq> NULL \<longrightarrow>
      (\<exists>x' st'. sys_read (svc sy blk lf f junk (fld x30 256) ret pst) (x, st) fd = Some ((x', st'), smem st (char_local f)) \<and> at (length src) st'))"
proof (intro conjI impI; elim conjE)
  assume fd: "is_int fd" "fd < 0 \<or> get_count (smem st) job \<le> fd"
  have "region x30 256 \<inter> region job 392 = {}" using assms(2) unfolding calls_apart_def by blast
  then obtain x' st' where "sys_read (svc sy blk lf f junk (fld x30 256) ret pst) (x, st) fd = Some ((x', st'), 255)"
    "\<forall>i \<in> {1..30}. x' i = x i" "same_outside (region x30 256) (smem st) (smem st')" by (rule sys_read_closed [OF fd assms(1)])
  then show "\<exists>x' st'. sys_read (svc sy blk lf f junk (fld x30 256) ret pst) (x, st) fd = Some ((x', st'), 255) \<and>
      (\<forall>i \<in> {1..30}. x' i = x i) \<and> same_outside (region x30 256) (smem st) (smem st')"
    by blast
next
  assume o: "open_file sy blk (fatfs_frame.truncate f) inode src own at job" "at (length src) st" "0 \<le> fd" "fd < 8"
    "job_get_file (smem st) job fd = inode" "inode \<noteq> NULL"
  obtain x' st' where "sys_read (svc sy blk lf f junk (fld x30 256) ret pst) (x, st) fd = Some ((x', st'), smem st (char_local f))" "at (length src) st'"
    by (rule open_file.sys_read_end [OF o(1,2) refl o(3-6) assms(2)])
  then show "\<exists>x' st'. sys_read (svc sy blk lf f junk (fld x30 256) ret pst) (x, st) fd = Some ((x', st'), smem st (char_local f)) \<and> at (length src) st'"
    by blast
qed

theorem sys_read_without_byte_witness:
  "\<forall>lf junk ret pst. (\<exists>x' st'. sys_read (svc example_symbols example_disk_block lf example_kernel_frame junk (fld 0x17000 256) ret pst) (of_nat, example_reader) 3 =
      Some ((x', st'), 255)) \<and>
    (\<exists>x1 st1 cs x' st'. user_read 600 (svc example_symbols example_disk_block lf example_kernel_frame junk (fld 0x17000 256) ret pst) (of_nat, example_reader) 0 =
      Some ((x1, st1), cs) \<and> sys_read (svc example_symbols example_disk_block lf example_kernel_frame junk (fld 0x17000 256) ret pst) (x1, st1) 0 =
      Some ((x', st'), smem st1 0x16000))"
proof (intro allI)
  fix lf junk ret pst
  let ?sv = "svc example_symbols example_disk_block lf example_kernel_frame junk (fld 0x17000 256) ret pst"
  have cur: "job_get_current (kget example_reader) = 0x15000"
    by (rule open_file.current_job [OF example_open_file example_reader_open(1)])
  have "get_count (smem example_reader) 0x15000 = 1"
    unfolding example_reader_def smem_set by (simp add: get_count_def example_job_mem_def load_store_le load_store_fld)
  moreover have "is_int 3" by (simp add: is_int_def)
  ultimately have bad: "\<exists>x' st'. sys_read ?sv (of_nat, example_reader) 3 = Some ((x', st'), 255) \<and> (\<forall>i \<in> {1..30}. x' i = of_nat i) \<and>
      same_outside (region 0x17000 256) (smem example_reader) (smem st')"
    by (intro sys_read_without_byte [OF cur example_places(2), THEN conjunct1, THEN mp]) simp
  obtain x1 st1 where s: "user_read 600 ?sv (of_nat, example_reader) 0 = Some ((x1, st1), take 600 (drop 0 example_content))" "example_open (0 + 600) st1"
    "job_get_file (smem st1) 0x15000 0 = 0x12000"
    using open_file.user_read_bytes [OF example_open_file refl _ _ example_places(2) _ example_reader_open(1) _ example_reader_open(2),
        where n = 600 and x = of_nat and lf = lf and junk = junk and ret = ret and pst = pst] by auto
  have at: "example_open (length example_content) st1" using s(2) by simp
  have cur1: "job_get_current (kget st1) = 0x15000" by (rule open_file.current_job [OF example_open_file at])
  have "\<exists>x' st'. sys_read ?sv (x1, st1) 0 = Some ((x', st'), smem st1 (char_local example_kernel_frame)) \<and> example_open (length example_content) st'"
    by (rule sys_read_without_byte [OF cur1 example_places(2), where inode = "0x12000", THEN conjunct2, THEN mp]) (intro conjI example_open_file at s(3); simp)
  then show "(\<exists>x' st'. sys_read ?sv (of_nat, example_reader) 3 = Some ((x', st'), 255)) \<and>
      (\<exists>x1 st1 cs x' st'. user_read 600 ?sv (of_nat, example_reader) 0 = Some ((x1, st1), cs) \<and> sys_read ?sv (x1, st1) 0 = Some ((x', st'), smem st1 0x16000))"
    using bad s(1) by (intro conjI) (blast, auto)
qed

end
