(* ===== verification/Fat_Properties.thy ===== *)
theory Fat_Properties
  imports Fat
begin

text \<open>
  The names of a FAT directory and the search for a file, with the properties of the reader.
\<close>

section \<open>Names\<close>

definition fat_name_of :: "nat \<Rightarrow> u8 list \<Rightarrow> u8 list" where
  \<comment> \<open>a name as a directory entry holds it: upper case, padded with spaces\<close>
  "fat_name_of dim s = map fat_char_get_uppercase s @ replicate (dim - length s) 0x20"

lemma fat_name_of_length: "length s \<le> dim \<Longrightarrow> length (fat_name_of dim s) = dim"
  by (simp add: fat_name_of_def)

lemma fat_upper_loop_eq:
  assumes "str_at m src s" and "region src (Suc (length s)) \<inter> region dest (length s) = {}" and "length s < 2 ^ 64 - 1"
  shows "\<exists>m'. fat_upper_loop m dest src = Some (m', dest + of_nat (length s)) \<and>
    bytes_at m' dest (map fat_char_get_uppercase s) \<and> same_outside (region dest (length s)) m m'"
  using assms
proof (induction s arbitrary: m dest src)
  case Nil
  then show ?case by (subst fat_upper_loop.simps) simp
next
  case (Cons b s)
  let ?m = "m(dest := fat_char_get_uppercase b)"
  have apart: "region (src + 1) (Suc (length s)) \<inter> region (dest + 1) (length s) = {}"
    and dest: "region (src + 1) (Suc (length s)) \<inter> {dest} = {}"
    using Cons.prems(2) by (auto simp: region_Suc [of src "Suc n" for n] region_Suc [of dest])
  have "str_at ?m (src + 1) s"
    using Cons.prems str_at_same_outside [OF same_outside_fun_upd [of dest "{dest}"] dest] by simp
  moreover have "length s < 2 ^ 64 - 1" using Cons.prems(3) by simp
  ultimately obtain m' where m': "fat_upper_loop ?m (dest + 1) (src + 1) = Some (m', dest + 1 + of_nat (length s))"
    "bytes_at m' (dest + 1) (map fat_char_get_uppercase s)" "same_outside (region (dest + 1) (length s)) ?m m'"
    using Cons.IH [of ?m "src + 1" "dest + 1"] apart by blast
  have "m' dest = fat_char_get_uppercase b"
    using same_outsideD [OF m'(3) not_in_region_next] Cons.prems(3) by simp
  moreover have "same_outside (region dest (length (b # s))) m m'"
    using m'(3) by (auto simp: same_outside_def region_Suc [of dest])
  ultimately show ?case
    using Cons.prems(1) m'(1,2) by (subst fat_upper_loop.simps) (auto simp: add.assoc)
qed

lemma fat_pad_loop_eq: "unat dest + k < 2 ^ 64 \<Longrightarrow> fat_pad_loop m dest (dest + of_nat k) = fill dest k 0x20 m"
proof (induction k arbitrary: dest m)
  case 0
  then show ?case by (subst fat_pad_loop.simps) (auto simp: fill_def)
next
  case (Suc k)
  have "dest < dest + of_nat (Suc k)" using ptr_index(1) [of dest "Suc k" 0 "Suc k"] Suc.prems by simp
  moreover have "unat (dest + 1) + k < 2 ^ 64" using Suc.prems by (simp add: unat_add64)
  then have "fat_pad_loop (m(dest := 0x20)) (dest + 1) (dest + 1 + of_nat k) = fill (dest + 1) k 0x20 (m(dest := 0x20))"
    by (rule Suc.IH)
  moreover have "fill (dest + 1) k 0x20 (m(dest := 0x20)) = fill dest (Suc k) 0x20 m"
    by (rule ext) (auto simp: fill_def region_Suc simp del: in_region)
  ultimately show ?case by (subst fat_pad_loop.simps) (simp add: add.assoc)
qed

lemma fat_uppercase_and_pad_eq:
  assumes s: "str_at m src s" "length s \<le> dim" and ap: "region src (Suc (length s)) \<inter> region dest dim = {}"
    and dim: "dim < 2 ^ 31" "unat dest + dim < 2 ^ 64"
  shows "\<exists>m'. fat_uppercase_and_pad m dest src (int dim) = Some m' \<and> bytes_at m' dest (fat_name_of dim s) \<and>
    same_outside (region dest dim) m m'"
proof -
  let ?k = "dim - length s" and ?e = "dest + of_nat (length s)"
  have split: "region dest dim = region dest (length s) \<union> region ?e ?k"
    using region_add [of "length s" ?k dest] s(2) dim by simp
  obtain m1 where m1: "fat_upper_loop m dest src = Some (m1, ?e)" "bytes_at m1 dest (map fat_char_get_uppercase s)"
    "same_outside (region dest (length s)) m m1"
    using fat_upper_loop_eq [OF s(1), of dest] ap dim s(2) unfolding split by auto
  have e: "unat ?e + ?k < 2 ^ 64" using dim s(2) by (simp add: unat_add64 unat_of_nat64)
  have last: "dest + of_int (int dim) = ?e + of_nat ?k" using s(2) by simp
  have w: "same_outside (region ?e ?k) m1 (fill ?e ?k 0x20 m1)" by (simp add: same_outside_def fill_def)
  have "bytes_at (fill ?e ?k 0x20 m1) dest (map fat_char_get_uppercase s)"
    using bytes_at_same_outside [OF w, of dest "map fat_char_get_uppercase s"] m1(2)
      region_offsets_apart [of 0 "length s" "length s" ?k dest] s(2) dim by simp
  moreover have "bytes_at (fill ?e ?k 0x20 m1) ?e (replicate ?k 0x20)"
    unfolding bytes_at_def fill_def using dim by (simp add: unat_of_nat64)
  moreover have "same_outside (region dest dim) m (fill ?e ?k 0x20 m1)"
    using same_outside_mono [OF m1(3), of "region dest dim"] same_outside_mono [OF w, of "region dest dim"] split
    by (blast intro: same_outside_trans)
  ultimately show ?thesis
    unfolding fat_uppercase_and_pad_def Let_def last
    using s dim m1(1) fat_pad_loop_eq [OF e] by (simp add: strlen_str_at fat_name_of_def bytes_at_append)
qed

lemma fat_char_array_compare_loop_0:
  "i \<le> n \<Longrightarrow> fat_char_array_compare_loop m a b (int n) (int i) = 0 \<longleftrightarrow> (\<forall>j. i \<le> j \<and> j < n \<longrightarrow> m (a + of_nat j) = m (b + of_nat j))"
proof (induction "n - i" arbitrary: i)
  case 0
  then show ?case by (subst fat_char_array_compare_loop.simps) auto
next
  case (Suc k)
  have IH: "fat_char_array_compare_loop m a b (int n) (int (Suc i)) = 0 \<longleftrightarrow> (\<forall>j. Suc i \<le> j \<and> j < n \<longrightarrow> m (a + of_nat j) = m (b + of_nat j))"
    by (rule Suc.hyps(1)) (use Suc.hyps(2) in simp_all)
  have i: "i < n" using Suc.hyps(2) by simp
  then have "fat_char_array_compare_loop m a b (int n) (int i) = 0 \<longleftrightarrow>
      m (a + of_nat i) = m (b + of_nat i) \<and> fat_char_array_compare_loop m a b (int n) (int (Suc i)) = 0"
    by (subst fat_char_array_compare_loop.simps) (simp add: add.commute word_uint_eq_iff)
  then show ?case unfolding IH using i le_eq_less_or_eq [of i] by (auto simp: Suc_le_eq)
qed

lemma fat_char_array_compare_0:
  assumes "bytes_at m a s"
  shows "fat_char_array_compare m a b (int (length s)) = 0 \<longleftrightarrow> bytes_at m b s"
  using fat_char_array_compare_loop_0 [of 0 "length s" m a b] assms
  by (auto simp: fat_char_array_compare_def bytes_at_def)


section \<open>The directory\<close>

definition entry_named :: "mem \<Rightarrow> addr \<Rightarrow> u8 list \<Rightarrow> u8 list \<Rightarrow> nat \<Rightarrow> bool" where
  \<comment> \<open>entry \<open>i\<close> of the directory has this name and extension\<close>
  "entry_named m h name ext i \<longleftrightarrow> bytes_at m (h_entries m h + of_nat (32 * i)) (fat_name_of 8 name) \<and>
     bytes_at m (h_entries m h + of_nat (32 * i) + 8) (fat_name_of 3 ext)"

definition lookup_entry :: "mem \<Rightarrow> addr \<Rightarrow> u8 list \<Rightarrow> u8 list \<Rightarrow> addr" where
  \<comment> \<open>the first entry of that name, or NULL\<close>
  "lookup_entry m h name ext =
     (case find (entry_named m h name ext) [0..<unat (h_possible_root_entries m h)] of
        None \<Rightarrow> NULL | Some i \<Rightarrow> h_entries m h + of_nat (32 * i))"

lemma fat_find_loop_eq:
  assumes "bytes_at m nb (fat_name_of 8 name)" "length name \<le> 8" and "bytes_at m eb (fat_name_of 3 ext)" "length ext \<le> 3"
  shows "i \<le> unat (h_possible_root_entries m h) \<Longrightarrow> fat_find_loop m h nb eb (int i) =
    (case find (entry_named m h name ext) [i..<unat (h_possible_root_entries m h)] of
       None \<Rightarrow> NULL | Some i \<Rightarrow> h_entries m h + of_nat (32 * i))"
proof (induction "unat (h_possible_root_entries m h) - i" arbitrary: i)
  case 0
  then have "\<not> int i < uint (h_possible_root_entries m h)" by (simp only: uint_nat of_nat_less_iff)
  with 0 show ?case by (subst fat_find_loop.simps) simp
next
  case (Suc k)
  let ?n = "unat (h_possible_root_entries m h)" and ?e = "h_entries m h + of_nat (32 * i)"
  have lt: "i < ?n" using Suc.hyps(2) by simp
  then have lt': "int i < uint (h_possible_root_entries m h)" by (simp only: uint_nat of_nat_less_iff)
  have IH: "fat_find_loop m h nb eb (int (Suc i)) = (case find (entry_named m h name ext) [Suc i..<?n] of
       None \<Rightarrow> NULL | Some i \<Rightarrow> h_entries m h + of_nat (32 * i))"
    by (rule Suc.hyps(1)) (use Suc.hyps(2) in simp_all)
  have cmp: "fat_char_array_compare m nb ?e 8 = 0 \<longleftrightarrow> bytes_at m ?e (fat_name_of 8 name)"
    "fat_char_array_compare m eb (?e + 8) 3 = 0 \<longleftrightarrow> bytes_at m (?e + 8) (fat_name_of 3 ext)"
    using fat_char_array_compare_0 [OF assms(1), of ?e] fat_char_array_compare_0 [OF assms(3), of "?e + 8"] assms(2,4)
    by (simp_all add: fat_name_of_length)
  have off: "h_entries m h + of_int (32 * int i) = ?e" by simp
  have "fat_find_loop m h nb eb (int i) = (if entry_named m h name ext i then ?e else fat_find_loop m h nb eb (int (Suc i)))"
    by (subst fat_find_loop.simps) (simp only: Let_def off cmp entry_named_def, simp add: lt' add.commute)
  then show ?case unfolding IH using lt by (simp add: upt_conv_Cons)
qed

definition directory_bytes :: "mem \<Rightarrow> addr \<Rightarrow> addr set" where
  \<comment> \<open>the handle and the entries it points to\<close>
  "directory_bytes m h = region h 584 \<union> region (h_entries m h) (32 * unat (h_possible_root_entries m h))"

lemma lookup_entry_frame:
  assumes w: "same_outside R m m'" and ap: "directory_bytes m h \<inter> R = {}" and len: "length name \<le> 8" "length ext \<le> 3"
  shows "lookup_entry m' h name ext = lookup_entry m h name ext"
proof -
  let ?K = "unat (h_possible_root_entries m h)" and ?E = "h_entries m h"
  have apR: "region (fld h i) k \<inter> R = {}" if "i + k \<le> 584" for i k
    using fld_sub [OF that, of h] ap by (auto simp: directory_bytes_def)
  have hK: "h_possible_root_entries m' h = h_possible_root_entries m h" "h_entries m' h = ?E"
    unfolding h_possible_root_entries_def h_entries_def by (rule load_le_same_outside [OF w apR]; simp)+
  have K: "32 * ?K < 2 ^ 64" using unsigned_less [of "h_possible_root_entries m h", where ?'a = nat] by simp
  have "entry_named m' h name ext i = entry_named m h name ext i" if "i < ?K" for i
  proof -
    have sub: "region (?E + of_nat (32 * i) + of_nat o') n \<subseteq> region ?E (32 * ?K)" if "o' + n \<le> 32" for o' n
      using region_sub [of "32 * i + o'" n "32 * ?K" ?E] that \<open>i < ?K\<close> K by (simp add: add.assoc)
    have "region (?E + of_nat (32 * i)) 8 \<inter> R = {}" "region (?E + of_nat (32 * i) + 8) 3 \<inter> R = {}"
      using sub [of 0 8] sub [of 8 3] ap by (auto simp: directory_bytes_def)
    then show ?thesis
      using bytes_at_same_outside [OF w, of _ "fat_name_of 8 name"] bytes_at_same_outside [OF w, of _ "fat_name_of 3 ext"] len
      by (simp add: entry_named_def hK fat_name_of_length)
  qed
  then have "find (entry_named m' h name ext) [0..<?K] = find (entry_named m h name ext) [0..<?K]"
    by (intro find_cong) simp_all
  then show ?thesis unfolding lookup_entry_def hK by (simp only:)
qed

lemma fat_get_entry_eq:
  assumes "str_at m name s" and "str_at m ext t" and "length s \<le> 8" and "length t \<le> 3"
    and "unat (name_buffer f) + 8 < 2 ^ 64" and "unat (ext_buffer f) + 3 < 2 ^ 64"
    and "apart_all [(name, Suc (length s)), (name_buffer f, 8), (ext_buffer f, 3)]"
    and "apart_all [(ext, Suc (length t)), (name_buffer f, 8), (ext_buffer f, 3)]"
    and "directory_bytes m h \<inter> (region (name_buffer f) 8 \<union> region (ext_buffer f) 3) = {}"
  shows "\<exists>m'. fat_get_entry_by_file f m h name ext = Some (m', lookup_entry m h s t) \<and>
    same_outside (region (name_buffer f) 8 \<union> region (ext_buffer f) 3) m m'"
proof -
  let ?N = "region (name_buffer f) 8" and ?X = "region (ext_buffer f) 3"
  obtain m1 where m1: "fat_uppercase_and_pad m (ext_buffer f) ext 3 = Some m1" "bytes_at m1 (ext_buffer f) (fat_name_of 3 t)"
    "same_outside ?X m m1"
    using fat_uppercase_and_pad_eq [OF assms(2,4), of "ext_buffer f"] assms(6,8) by auto
  have s1: "str_at m1 name s"
    using str_at_same_outside [OF m1(3), of name s] assms(1,3,7) by simp
  obtain m2 where m2: "fat_uppercase_and_pad m1 (name_buffer f) name 8 = Some m2" "bytes_at m2 (name_buffer f) (fat_name_of 8 s)"
    "same_outside ?N m1 m2"
    using fat_uppercase_and_pad_eq [OF s1 assms(3), of "name_buffer f"] assms(5,7) by auto
  have x2: "bytes_at m2 (ext_buffer f) (fat_name_of 3 t)"
    using bytes_at_same_outside [OF m2(3), of "ext_buffer f" "fat_name_of 3 t"] m1(2) assms(4,7)
    by (simp add: fat_name_of_length Int_commute)
  have w: "same_outside (?N \<union> ?X) m m2"
    using same_outside_mono [OF m1(3), of "?N \<union> ?X"] same_outside_mono [OF m2(3), of "?N \<union> ?X"]
    by (blast intro: same_outside_trans)
  have "fat_find_loop m2 h (name_buffer f) (ext_buffer f) 0 = lookup_entry m2 h s t"
    using fat_find_loop_eq [OF m2(2) assms(3) x2 assms(4), of 0 h] by (simp add: lookup_entry_def)
  also have "\<dots> = lookup_entry m h s t" by (rule lookup_entry_frame [OF w assms(9,3,4)])
  finally show ?thesis
    using m1(1) m2(1) w by (simp add: fat_get_entry_by_file_def fat_get_fat_name_def fat_get_fat_extension_def)
qed

section \<open>Properties\<close>

text \<open>
  C37. Reading a stretch of a disk: on a block device that serves its sectors, \<open>fat_load_data\<close> of \<open>n\<close> bytes at a
  byte offset returns, and \<open>ptr\<close> then holds the disk's bytes from that offset on, whatever the
  alignment of the offset. The length is rounded up: the memory receives 512 times \<open>\<lceil>n / 512\<rceil>\<close> bytes, up
  to 511 more than were asked for. Nothing else changes but the sector buffer and the driver's bytes.
\<close>
theorem fat_load_data_copies:
  fixes offset n :: u64
  assumes "block_serves blk disk W ready" and "region buffer 512 \<inter> W = {}"
    and "0 < unat n" and "unat offset + unat n + 1024 < 2 ^ 31"
    and "ready (k + ceil_div (unat n) 512 + (if unat offset mod 512 = 0 then 0 else 1)) st"
    and "region ptr (512 * ceil_div (unat n) 512) \<inter> (region buffer 512 \<union> W) = {}"
  shows "\<exists>st'. fat_load_data blk buffer st ptr offset n = Some st' \<and> ready k st' \<and>
    (\<forall>i < 512 * ceil_div (unat n) 512. smem st' (ptr + of_nat i) = disk_byte disk (unat offset + i)) \<and>
    same_outside (region ptr (512 * ceil_div (unat n) 512) \<union> region buffer 512 \<union> W) (smem st) (smem st')"
proof -
  obtain st' where "fat_load_data blk buffer st ptr offset n = Some st'" "ready k st'"
    "copied disk st' ptr (512 * ceil_div (unat n) 512) (unat offset)"
    "same_outside (region ptr (512 * ceil_div (unat n) 512) \<union> region buffer 512 \<union> W) (smem st) (smem st')"
    using assms by (rule fat_load_data_ok)
  then show ?thesis unfolding copied_def by blast
qed

abbreviation example_disk :: "nat \<Rightarrow> nat \<Rightarrow> u8" where
  "example_disk sec i \<equiv> of_nat (sec + i)"

abbreviation example_block :: "unit block" where
  \<comment> \<open>a disk whose sectors are copied to memory at once\<close>
  "example_block \<equiv> \<lparr>b_read = \<lambda>d s p n a. Some (d, s\<lparr>kern := (kern s)\<lparr>kmem :=
       \<lambda>q. if q \<in> region p 512 then example_disk (unat n) (unat (q - p)) else kmem (kern s) q\<rparr>\<rparr>, 0),
     b_write = \<lambda>d s p n a. None, sector_size = 512, args = NULL, read_only = True\<rparr>"

lemma example_block_serves: "block_serves example_block example_disk {} (\<lambda>_ _. True)"
  unfolding block_serves_def sector_read_def block_read_def
  by (auto simp: smem_def same_outside_def unat_of_nat64)

theorem fat_load_data_copies_witness:
  "\<forall>s. \<exists>st'. fat_load_data example_block 0x1000 ((), s) 0x2000 100 700 = Some st' \<and>
    smem st' 0x2000 = 100 \<and> smem st' (0x2000 + 1023) = 2 + 99"
proof
  fix s
  have c: "ceil_div 700 512 = 2" by (simp add: ceil_div_def)
  have "region (0x2000 :: addr) 1024 \<inter> region 0x1000 512 = {}" by (rule regions_apart) simp_all
  then obtain st' where "fat_load_data example_block 0x1000 ((), s) 0x2000 100 700 = Some st'"
    "\<forall>i < 1024. smem st' (0x2000 + of_nat i) = disk_byte example_disk (100 + i)"
    using fat_load_data_copies [OF example_block_serves, where buffer = "0x1000" and n = 700 and offset = 100 and st = "((), s)" and ptr = "0x2000"] by (auto simp: c)
  then show "\<exists>st'. fat_load_data example_block 0x1000 ((), s) 0x2000 100 700 = Some st' \<and>
    smem st' 0x2000 = 100 \<and> smem st' (0x2000 + 1023) = 2 + 99"
    by (auto simp: disk_byte_def dest: spec [of _ 0] spec [of _ 1023])
qed

text \<open>
  C38. Opening a file of the root directory: for a name of at most 8 and an extension of at most 3 characters,
  \<open>fat_get_entry_by_file\<close> returns the first entry whose name field is the name in upper case padded with
  spaces and whose extension field is the extension likewise, and NULL when no entry has both;
  only its two local arrays are written.
\<close>
theorem fat_get_entry_by_file_finds:
  assumes "str_at m name s" and "str_at m ext t" and "length s \<le> 8" and "length t \<le> 3"
    and "unat (name_buffer f) + 8 < 2 ^ 64" and "unat (ext_buffer f) + 3 < 2 ^ 64"
    and "apart_all [(name, Suc (length s)), (name_buffer f, 8), (ext_buffer f, 3)]"
    and "apart_all [(ext, Suc (length t)), (name_buffer f, 8), (ext_buffer f, 3)]"
    and "directory_bytes m h \<inter> (region (name_buffer f) 8 \<union> region (ext_buffer f) 3) = {}"
  shows "\<exists>m'. fat_get_entry_by_file f m h name ext = Some (m', lookup_entry m h s t) \<and>
    same_outside (region (name_buffer f) 8 \<union> region (ext_buffer f) 3) m m'"
  by (rule fat_get_entry_eq [OF assms])

abbreviation example_directory :: mem where
  \<comment> \<open>a handle at 0x10000 with a directory of two entries at 0x20000, the second one \<open>A.TXT\<close>, and the strings \<open>a\<close>, \<open>txt\<close>\<close>
  "example_directory \<equiv> store64 (store16 ((\<lambda>_. 0)(0x30000 := 0x61, 0x30010 := 0x74, 0x30011 := 0x78, 0x30012 := 0x74,
     0x20020 := 0x41, 0x20021 := 0x20, 0x20022 := 0x20, 0x20023 := 0x20, 0x20024 := 0x20, 0x20025 := 0x20,
     0x20026 := 0x20, 0x20027 := 0x20, 0x20028 := 0x54, 0x20029 := 0x58, 0x2002a := 0x54))
     (fld 0x10000 17) 2) (fld 0x10000 560) 0x20000"

theorem fat_get_entry_by_file_finds_witness:
  "\<exists>m'. fat_get_entry_by_file \<lparr>load_buffer = 0x1000, name_buffer = 0x40000, ext_buffer = 0x40010\<rparr>
    example_directory 0x10000 0x30000 0x30010 = Some (m', 0x20020)"
proof -
  let ?f = "\<lparr>load_buffer = 0x1000, name_buffer = 0x40000, ext_buffer = 0x40010\<rparr> :: fat_frame" and ?m = example_directory
  have str: "str_at ?m 0x30000 [0x61]" "str_at ?m 0x30010 [0x74, 0x78, 0x74]" by (simp_all add: store_le_def fld_def)
  have h: "h_possible_root_entries ?m 0x10000 = 2" "h_entries ?m 0x10000 = 0x20000"
    by (simp_all add: h_possible_root_entries_def h_entries_def load_store_le load_store_fld)
  have "region (0x10000 :: addr) 584 \<inter> region 0x40000 8 = {}" "region (0x10000 :: addr) 584 \<inter> region 0x40010 3 = {}"
    "region (0x20000 :: addr) 64 \<inter> region 0x40000 8 = {}" "region (0x20000 :: addr) 64 \<inter> region 0x40010 3 = {}"
    by (rule regions_apart; simp)+
  then have ap: "directory_bytes ?m 0x10000 \<inter> (region (name_buffer ?f) 8 \<union> region (ext_buffer ?f) 3) = {}"
    by (simp add: directory_bytes_def h Int_Un_distrib Int_Un_distrib2)
  have aps: "apart_all [(0x30000 :: addr, Suc (length [0x61 :: u8])), (name_buffer ?f, 8), (ext_buffer ?f, 3)]"
    "apart_all [(0x30010 :: addr, Suc (length [0x74 :: u8, 0x78, 0x74])), (name_buffer ?f, 8), (ext_buffer ?f, 3)]"
    by (simp_all add: regions_apart)
  have seven: "replicate 7 (0x20 :: u8) = [0x20, 0x20, 0x20, 0x20, 0x20, 0x20, 0x20]"
    by (simp add: numeral_eq_Suc del: take_bit_numeral_numeral)
  have names: "fat_name_of 8 [0x61] = [0x41, 0x20, 0x20, 0x20, 0x20, 0x20, 0x20, 0x20]"
    "fat_name_of 3 [0x74, 0x78, 0x74] = [0x54, 0x58, 0x54]"
    by (simp_all add: fat_name_of_def fat_char_get_uppercase_def seven)
  have "\<not> entry_named ?m 0x10000 [0x61] [0x74, 0x78, 0x74] 0" "entry_named ?m 0x10000 [0x61] [0x74, 0x78, 0x74] 1"
    unfolding entry_named_def h names by (simp_all add: store_le_def fld_def)
  then have "lookup_entry ?m 0x10000 [0x61] [0x74, 0x78, 0x74] = 0x20020"
    by (simp add: lookup_entry_def h upt_rec)
  then show ?thesis
    using fat_get_entry_by_file_finds [OF str _ _ _ _ aps ap] by auto
qed

end
