(* ===== verification/Fatfs_Open.thy ===== *)
theory Fatfs_Open
  imports Fatfs_Properties Fat_Properties Inode_Pool
begin

text \<open>
  Opening a file of a FAT disk by its name: \<open>fatfs_open\<close> splits the name, finds the directory entry and sets up an inode at the
  first byte.
\<close>

section \<open>The name\<close>

definition readable_path :: "kernel \<Rightarrow> addr set \<Rightarrow> addr \<Rightarrow> u8 list \<Rightarrow> bool" where
  \<comment> \<open>the string can be read through the translation tables, whatever \<open>X\<close> holds\<close>
  "readable_path k X va p \<longleftrightarrow> (\<forall>m. same_outside X (kmem k) m \<longrightarrow> (\<forall>i \<le> length p. vread (k\<lparr>kmem := m\<rparr>) (va + of_nat i) = Some ((p @ [0]) ! i)))"

lemma fatfs_split_loop_eq:
  assumes rd: "\<And>m i. same_outside X m0 m \<Longrightarrow> i \<le> length s \<Longrightarrow> vread (k\<lparr>kmem := m\<rparr>) (va + of_nat i) = Some ((s @ [stop]) ! i)"
    and m: "same_outside X m0 m" and s: "stop \<notin> set s" and sub: "region (fld dest index) (length s) \<subseteq> X" and len: "index + length s < 2 ^ 64"
  shows "\<exists>m'. fatfs_split_loop (k\<lparr>kmem := m\<rparr>) stop dest index va = Some (k\<lparr>kmem := m'\<rparr>, index + length s, va + of_nat (length s)) \<and>
    bytes_at m' (fld dest index) s \<and> same_outside (region (fld dest index) (length s)) m m'"
  using assms
proof (induction s arbitrary: m index va)
  case Nil
  have "vread (k\<lparr>kmem := m\<rparr>) va = Some stop" using Nil.prems(1) [OF Nil.prems(2), of 0] by simp
  then show ?case by (intro exI [of _ m]) (subst fatfs_split_loop.simps, simp)
next
  case (Cons c s)
  let ?m = "m(fld dest index := c)"
  have c: "vread (k\<lparr>kmem := m\<rparr>) va = Some c" using Cons.prems(1) [OF Cons.prems(2), of 0] by simp
  have nx: "fld dest (Suc index) = fld dest index + 1" by (simp add: fld_def)
  have r: "region (fld dest index) (length (c # s)) = insert (fld dest index) (region (fld dest (Suc index)) (length s))"
    by (simp add: region_Suc nx del: in_region)
  have w: "same_outside {fld dest index} m ?m" by (rule same_outside_fun_upd) simp
  have rd: "vread (k\<lparr>kmem := m1\<rparr>) (va + 1 + of_nat i) = Some ((s @ [stop]) ! i)" if "same_outside X m0 m1" "i \<le> length s" for m1 i
    using Cons.prems(1) [OF that(1), of "Suc i"] that(2) by (simp add: add.assoc)
  have m1: "same_outside X m0 ?m" by (rule same_outside_trans [OF Cons.prems(2) same_outside_mono [OF w]]) (use Cons.prems(4) r in blast)
  have cond: "stop \<notin> set s" "region (fld dest (Suc index)) (length s) \<subseteq> X" "Suc index + length s < 2 ^ 64"
    using Cons.prems(3-5) r by simp_all
  obtain m' where m': "fatfs_split_loop (k\<lparr>kmem := ?m\<rparr>) stop dest (Suc index) (va + 1) = Some (k\<lparr>kmem := m'\<rparr>, Suc index + length s, va + 1 + of_nat (length s))"
    "bytes_at m' (fld dest (Suc index)) s" "same_outside (region (fld dest (Suc index)) (length s)) ?m m'"
    using Cons.IH [OF rd m1 cond] by blast
  have "fld dest index \<notin> region (fld dest (Suc index)) (length s)"
    unfolding nx by (rule not_in_region_next) (use Cons.prems(5) in simp)
  then have "m' (fld dest index) = c" using same_outsideD [OF m'(3)] by simp
  moreover have "same_outside (region (fld dest index) (length (c # s))) m m'"
    unfolding r by (rule same_outside_trans [OF same_outside_mono [OF w] same_outside_mono [OF m'(3)]]) blast+
  ultimately show ?case
    using c m'(1,2) Cons.prems(3) by (subst fatfs_split_loop.simps) (auto simp: nx add.assoc)
qed

lemma fatfs_split_name:
  \<comment> \<open>the loop and the terminator after it\<close>
  assumes rd: "\<And>m i. same_outside X m0 m \<Longrightarrow> i \<le> length s \<Longrightarrow> vread (k\<lparr>kmem := m\<rparr>) (va + of_nat i) = Some ((s @ [stop]) ! i)"
    and m: "same_outside X m0 m" and s: "stop \<notin> set s" "0 \<notin> set s" "length s < 10" and sub: "region dest 10 \<subseteq> X"
  obtains m' where "fatfs_split_loop (k\<lparr>kmem := m\<rparr>) stop dest 0 va = Some (k\<lparr>kmem := m'\<rparr>, length s, va + of_nat (length s))"
    and "str_at (m'(fld dest (length s) := 0)) dest s" and "same_outside (region dest 10) m (m'(fld dest (length s) := 0))"
proof -
  have r: "region (fld dest 0) (length s) \<subseteq> region dest 10" using region_mono [of "length s" 10 dest] s(3) by simp
  obtain m' where m': "fatfs_split_loop (k\<lparr>kmem := m\<rparr>) stop dest 0 va = Some (k\<lparr>kmem := m'\<rparr>, 0 + length s, va + of_nat (length s))"
    "bytes_at m' (fld dest 0) s" "same_outside (region (fld dest 0) (length s)) m m'"
    using fatfs_split_loop_eq [OF rd m s(1), of dest 0] r sub s(3) by auto
  let ?e = "fld dest (length s)"
  have e: "?e \<in> region dest 10" by (rule fld_byte) (use s(3) in simp_all)
  have w: "same_outside {?e} m' (m'(?e := 0))" by (rule same_outside_fun_upd) simp
  have "?e \<notin> region dest (length s)" using s(3) by (simp add: fld_def unat_of_nat64)
  then have "bytes_at (m'(?e := 0)) dest s" using m'(2) bytes_at_same_outside [OF w, of dest s] s(3) by simp
  then have "str_at (m'(?e := 0)) dest s" using s(2) by (simp add: str_at_def bytes_at_append fld_def)
  moreover have "same_outside (region dest 10) m (m'(?e := 0))"
    by (rule same_outside_trans [OF same_outside_mono [OF m'(3) r] same_outside_mono [OF w]]) (use e in blast)
  ultimately show thesis using that m'(1) by simp
qed

section \<open>The new inode\<close>

fun sets_apart :: "addr set list \<Rightarrow> bool" where
  "sets_apart [] \<longleftrightarrow> True"
| "sets_apart (A # As) \<longleftrightarrow> (\<forall>B \<in> set As. A \<inter> B = {}) \<and> sets_apart As"

lemma sets_apart_mono: "list_all2 (\<subseteq>) As Bs \<Longrightarrow> sets_apart Bs \<Longrightarrow> sets_apart As"
proof (induction rule: list_all2_induct)
  case (Cons A As B Bs)
  have "A \<inter> C = {}" if C: "C \<in> set As" for C
  proof -
    obtain i where "i < length As" "C = As ! i" using C by (auto simp: in_set_conv_nth)
    then have "C \<subseteq> Bs ! i" "Bs ! i \<in> set Bs" using list_all2_nthD [OF Cons.hyps(2)] list_all2_lengthD [OF Cons.hyps(2)] by auto
    moreover from this(2) have "B \<inter> Bs ! i = {}" using Cons.prems by simp
    ultimately show ?thesis using Cons.hyps(1) by blast
  qed
  then show ?case using Cons by simp
qed simp

lemma fat_open_init:
  fixes m :: mem and fi vol e :: addr
  defines "m' \<equiv> store32 (store32 (store64 (store64 m (fld fi 8) vol) (fld fi 0) e) (fld fi 528) 0) (fld fi 532) (- 1)"
  shows "fat_open m' fi vol e 0 (- 1)" and "same_outside (region fi 536) m m'"
proof -
  show "same_outside (region fi 536) m m'" unfolding m'_def by (intro same_outside_trans [OF _ store_fld_outside] same_outside_refl; simp)
  show "fat_open m' fi vol e 0 (- 1)"
    unfolding m'_def fat_open_def fi_fat_handle_def fi_fat16_dir_entry_def fi_position_def fi_loaded_buffer_index_def
    by (simp add: load_store_le load_store_fld del: fld_0)
qed

lemma fat_inode_init:
  fixes m :: mem and inode cl g l :: addr
  defines "m' \<equiv> store64 (store64 (store64 (store64 m (fld inode 24) cl) (fld inode 8) g) (fld inode 16) NULL) (fld inode 32) l"
  shows "i_get m' inode = g" and "i_impl_inode m' inode = i_impl_inode m inode" and "same_outside (region inode 40) m m'"
proof -
  show "same_outside (region inode 40) m m'" unfolding m'_def by (intro same_outside_trans [OF _ store_fld_outside] same_outside_refl; simp)
  show "i_get m' inode = g" "i_impl_inode m' inode = i_impl_inode m inode"
    unfolding m'_def i_get_def i_impl_inode_def by (simp_all add: load_store_le load_store_fld del: fld_0)
qed

lemma directory_bytes_frame:
  assumes w: "same_outside X m m'" and ap: "directory_bytes m h \<inter> X = {}"
  shows "directory_bytes m' h = directory_bytes m h"
proof -
  have "region h 584 \<inter> X = {}" using ap unfolding directory_bytes_def by blast
  note l = load_frame [OF w this]
  show ?thesis by (simp add: directory_bytes_def h_entries_def h_possible_root_entries_def l)
qed

definition fat_inode_fill :: "symbols \<Rightarrow> kernel \<Rightarrow> addr \<Rightarrow> addr \<Rightarrow> addr \<Rightarrow> (kernel \<times> addr) option" where
  \<comment> \<open>the second half of \<open>fatfs_open\<close>, once the entry is known\<close>
  "fat_inode_fill sy k inode fat_handle entry = do {
     (k, fat_inode) \<leftarrow> k_kalloc k sizeof_fat_inode;
     let m = store64 (kmem k) (fld inode 0) fat_inode;
     let m = store64 m (fld fat_inode 8) fat_handle;
     let m = store64 m (fld fat_inode 0) entry;
     let m = store32 m (fld fat_inode 528) 0;
     let m = store32 m (fld fat_inode 532) (- 1);
     let m = store64 m (fld inode 24) (sym_fatfs_close sy);
     let m = store64 m (fld inode 8) (sym_fatfs_get sy);
     let m = store64 m (fld inode 16) NULL;
     let m = store64 m (fld inode 32) (sym_fatfs_left sy);
     Some (k\<lparr>kmem := m\<rparr>, inode)
   }"

lemma fat_inode_fill_ok:
  assumes ok: "fs_ok k R (Suc n)" and io: "region inode 40 \<inter> heap_rest (main_heap k) R = {}"
  obtains k' R' fi where "fat_inode_fill sy k inode vol e = Some (k', inode)" and "fs_ok k' R' n"
    and "fat_open (kmem k') fi vol e 0 (- 1)" and "i_impl_inode (kmem k') inode = fi" and "i_get (kmem k') inode = sym_fatfs_get sy"
    and "region fi 536 \<subseteq> heap_rest (main_heap k) R" and "heap_rest (main_heap k') R' \<subseteq> heap_rest (main_heap k) R - region fi 536"
    and "k' = k\<lparr>kmem := kmem k', main_heap := main_heap k'\<rparr>" and "same_outside (heap_rest (main_heap k) R \<union> region inode 40) (kmem k) (kmem k')"
proof -
  let ?F = "heap_rest (main_heap k) R"
  obtain k1 R1 fi where b: "k_kalloc k 536 = Some (k1, fi)" "fi \<noteq> NULL" "fs_ok k1 R1 n" "inode_slab k1 = inode_slab k"
    "region fi 4096 \<subseteq> ?F" "heap_rest (main_heap k1) R1 \<subseteq> ?F - region fi 4096" "same_outside (?F - region fi 4096) (kmem k) (kmem k1)"
    by (rule fs_kalloc [OF ok, of 536]) simp_all
  have k1: "k1 = k\<lparr>kmem := kmem k1, main_heap := main_heap k1\<rparr>" using b(1) by (auto simp: k_kalloc_def split: Option.bind_splits prod.splits)
  have fi: "region fi 536 \<subseteq> region fi 4096" by (rule region_mono) simp
  have io': "region inode 40 \<inter> region fi 536 = {}" using io b(5) fi by blast
  let ?m7 = "store64 (kmem k1) (fld inode 0) fi"
  let ?m8 = "store32 (store32 (store64 (store64 ?m7 (fld fi 8) vol) (fld fi 0) e) (fld fi 528) 0) (fld fi 532) (- 1)"
  let ?m9 = "store64 (store64 (store64 (store64 ?m8 (fld inode 24) (sym_fatfs_close sy)) (fld inode 8) (sym_fatfs_get sy)) (fld inode 16) NULL) (fld inode 32) (sym_fatfs_left sy)"
  note m8 = fat_open_init [where m = ?m7 and fi = fi and vol = vol and e = e] and m9 = fat_inode_init [where m = ?m8 and inode = inode and cl = "sym_fatfs_close sy" and g = "sym_fatfs_get sy" and l = "sym_fatfs_left sy"]
  have w7: "same_outside (region inode 40) (kmem k1) ?m7" by (rule store_fld_outside) simp_all
  have "i_impl_inode ?m7 inode = fi" by (simp add: i_impl_inode_def load_store_le del: fld_0)
  then have im: "i_impl_inode ?m9 inode = fi" unfolding m9(2) inode_frame(1) [OF m8(2) io'] .
  have op: "fat_open ?m9 fi vol e 0 (- 1)"
    using fat_open_frame [OF same_outside_mono [OF m9(3)], of fi "region inode 40"] m8(1) io' by blast
  note w = same_outside_join [OF same_outside_join [OF w7 m8(2)] m9(3)]
  let ?k = "k1\<lparr>kmem := ?m9\<rparr>"
  have "fs_ok ?k R1 n" by (rule fs_ok_write [OF b(3) w]) (use b(6) fi io in blast)
  moreover have "fat_inode_fill sy k inode vol e = Some (?k, inode)" using b(1) by (simp add: fat_inode_fill_def)
  moreover have "same_outside (?F \<union> region inode 40) (kmem k) ?m9"
    using same_outside_join [OF b(7) w] by (rule same_outside_mono) (use b(5) fi in blast)
  moreover have "region fi 536 \<subseteq> ?F" "heap_rest (main_heap ?k) R1 \<subseteq> ?F - region fi 536" using b(5,6) fi by auto
  moreover have "?k = k\<lparr>kmem := kmem ?k, main_heap := main_heap ?k\<rparr>" by (subst k1) simp
  ultimately show thesis using that [of ?k R1 fi] op im m9(1) by simp
qed

lemma fatfs_open_entry:
  \<comment> \<open>the inode, the two parts of the name and the entry\<close>
  assumes ok: "fs_ok k R (Suc n)" and room: "slab_live (kmem k) (inode_slab k) \<noteq> slab_slots (inode_slab k)"
    and vol: "fs_arguments (kmem k) filesystem = vol"
    and path: "readable_path k X va (s @ [0x2e] @ x)" and X: "slab_header (inode_slab k) \<union> region (open_name f) 10 \<union> region (open_ext f) 10 \<subseteq> X"
    and s: "0x2e \<notin> set s" "0 \<notin> set s" "length s \<le> 8" and x: "0 \<notin> set x" "length x \<le> 3"
    and lim: "unat (name_buffer f) + 8 < 2 ^ 64" "unat (ext_buffer f) + 3 < 2 ^ 64"
    and ap: "sets_apart [region (open_name f) 10, region (open_ext f) 10, region (name_buffer f) 8, region (ext_buffer f) 3,
      pool_bytes (inode_slab k), directory_bytes (kmem k) vol, heap_rest (main_heap k) R]"
  obtains inode m where "fatfs_open sy f k filesystem va = fat_inode_fill sy (k\<lparr>kmem := m\<rparr>) inode vol (lookup_entry (kmem k) vol s x)"
    and "inode \<in> slab_slots (inode_slab k)" and "inode \<noteq> NULL"
    and "same_outside (slab_header (inode_slab k) \<union> region (open_name f) 10 \<union> region (open_ext f) 10 \<union> region (name_buffer f) 8 \<union> region (ext_buffer f) 3) (kmem k) m"
proof -
  let ?s = "inode_slab k" and ?F = "heap_rest (main_heap k) R" and ?P = "pool_bytes (inode_slab k)"
  let ?N = "region (open_name f) 10" and ?E = "region (open_ext f) 10" and ?nb = "region (name_buffer f) 8" and ?eb = "region (ext_buffer f) 3"
  let ?D = "directory_bytes (kmem k) vol"
  have hp: "slab_header ?s \<subseteq> ?P" by (simp add: pool_bytes_def)
  have d: "?N \<inter> ?E = {}" "?N \<inter> ?nb = {}" "?N \<inter> ?eb = {}" "?N \<inter> ?P = {}" "?N \<inter> ?D = {}" "?N \<inter> ?F = {}" "?E \<inter> ?nb = {}" "?E \<inter> ?eb = {}" "?E \<inter> ?P = {}"
    "?E \<inter> ?D = {}" "?E \<inter> ?F = {}" "?nb \<inter> ?eb = {}" "?nb \<inter> ?P = {}" "?nb \<inter> ?D = {}" "?nb \<inter> ?F = {}" "?eb \<inter> ?P = {}" "?eb \<inter> ?D = {}"
    "?eb \<inter> ?F = {}" "?P \<inter> ?D = {}" "?P \<inter> ?F = {}" "?D \<inter> ?F = {}" using ap by (simp_all del: in_region)
  obtain k1 inode where a: "fs_allocate_inode k = Some (k1, inode)" "fs_ok k1 R (Suc n)" "inode_slab k1 = ?s" "main_heap k1 = main_heap k"
    "inode \<in> slab_slots ?s - slab_live (kmem k) ?s" "inode \<noteq> NULL" "slab_live (kmem k1) ?s = insert inode (slab_live (kmem k) ?s)"
    "same_outside (slab_header ?s) (kmem k) (kmem k1)"
    using ok room by (rule fs_inode_alloc)
  have k1: "k1 = k\<lparr>kmem := kmem k1\<rparr>" using a(1) by (auto simp: fs_allocate_inode_def split: Option.bind_splits prod.splits)
  have rd: "vread (k\<lparr>kmem := m\<rparr>) (va + of_nat i) = Some (((s @ [0x2e] @ x) @ [0]) ! i)" if "same_outside X (kmem k) m" "i \<le> length (s @ [0x2e] @ x)" for m i
    using path that unfolding readable_path_def by blast
  have w1: "same_outside X (kmem k) (kmem k1)" by (rule same_outside_mono [OF a(8)]) (use X in blast)
  have rs: "vread (k\<lparr>kmem := m\<rparr>) (va + of_nat i) = Some ((s @ [0x2e]) ! i)" if "same_outside X (kmem k) m" "i \<le> length s" for m i
    using rd [OF that(1), of i] that(2) by (auto simp: nth_append)
  have "region (open_name f) 10 \<subseteq> X" "region (open_ext f) 10 \<subseteq> X" using X by blast+
  note XNE = this
  obtain m2 where m2: "fatfs_split_loop (k\<lparr>kmem := kmem k1\<rparr>) 0x2e (open_name f) 0 va = Some (k\<lparr>kmem := m2\<rparr>, length s, va + of_nat (length s))"
    "str_at (m2(fld (open_name f) (length s) := 0)) (open_name f) s" "same_outside ?N (kmem k1) (m2(fld (open_name f) (length s) := 0))"
    using fatfs_split_name [OF rs w1 s(1,2) _ XNE(1)] s(3) by auto
  let ?m3 = "m2(fld (open_name f) (length s) := 0)" and ?v = "va + of_nat (length s) + 1"
  have w3: "same_outside X (kmem k) ?m3" by (rule same_outside_trans [OF w1 same_outside_mono [OF m2(3) XNE(1)]])
  have rx: "vread (k\<lparr>kmem := m\<rparr>) (?v + of_nat i) = Some ((x @ [0]) ! i)" if "same_outside X (kmem k) m" "i \<le> length x" for m i
    using rd [OF that(1), of "length s + 1 + i"] that(2) by (simp add: nth_append ac_simps split: if_splits)
  obtain m4 where m4: "fatfs_split_loop (k\<lparr>kmem := ?m3\<rparr>) 0 (open_ext f) 0 ?v = Some (k\<lparr>kmem := m4\<rparr>, length x, ?v + of_nat (length x))"
    "str_at (m4(fld (open_ext f) (length x) := 0)) (open_ext f) x" "same_outside ?E ?m3 (m4(fld (open_ext f) (length x) := 0))"
    using fatfs_split_name [OF rx w3 x(1) x(1) _ XNE(2)] x(2) by auto
  let ?m5 = "m4(fld (open_ext f) (length x) := 0)"
  have sub: "region (open_name f) (Suc (length s)) \<subseteq> ?N" "region (open_ext f) (Suc (length x)) \<subseteq> ?E" by (rule region_mono; use s(3) x(2) in simp)+
  have "str_at ?m5 (open_name f) s"
    using m2(2) s(3) by (subst str_at_same_outside [OF m4(3)]) (use sub(1) d(1) in auto)
  note str = this m4(2)
  let ?W5 = "slab_header ?s \<union> ?N \<union> ?E"
  have w5: "same_outside ?W5 (kmem k) ?m5"
    by (rule same_outside_trans [OF same_outside_mono [OF a(8)] same_outside_trans [OF same_outside_mono [OF m2(3)] same_outside_mono [OF m4(3)]]]) blast+
  have DW: "?D \<inter> ?W5 = {}" using d(5,10,19) hp by blast
  have dir: "directory_bytes ?m5 vol = ?D" and look: "lookup_entry ?m5 vol s x = lookup_entry (kmem k) vol s x"
    using directory_bytes_frame [OF w5 DW] lookup_entry_frame [OF w5 DW s(3) x(2)] by simp_all
  have aps: "apart_all [(open_name f, Suc (length s)), (name_buffer f, 8), (ext_buffer f, 3)]" "apart_all [(open_ext f, Suc (length x)), (name_buffer f, 8), (ext_buffer f, 3)]"
    using d(2,3,7,8,12) sub by (auto simp del: in_region)
  have "directory_bytes ?m5 vol \<inter> (?nb \<union> ?eb) = {}" unfolding dir using d(14,17) by blast
  then obtain m6 where m6: "fat_get_entry_by_file (fat_frame.truncate f) ?m5 vol (open_name f) (open_ext f) = Some (m6, lookup_entry (kmem k) vol s x)"
    "same_outside (?nb \<union> ?eb) ?m5 m6"
    using fat_get_entry_eq [OF str s(3) x(2), of "fat_frame.truncate f" vol] lim aps unfolding look by (auto simp: fat_frame.defs)
  have w6: "same_outside (?W5 \<union> ?nb \<union> ?eb) (kmem k) m6"
    by (rule same_outside_trans [OF same_outside_mono [OF w5] same_outside_mono [OF m6(2)]]) blast+
  have "fatfs_open sy f k filesystem va = fat_inode_fill sy (k\<lparr>kmem := m6\<rparr>) inode vol (lookup_entry (kmem k) vol s x)"
    using vol a(1) m2(1) m4(1) m6(1) k1 by (simp add: fatfs_open_def fat_inode_fill_def)
  then show thesis using that w6 a(5,6) by blast
qed

lemma fatfs_open_ok:
  assumes ok: "fs_ok k R (Suc n)" and room: "slab_live (kmem k) (inode_slab k) \<noteq> slab_slots (inode_slab k)"
    and vol: "fs_arguments (kmem k) filesystem = vol"
    and path: "readable_path k X va (s @ [0x2e] @ x)" and X: "slab_header (inode_slab k) \<union> region (open_name f) 10 \<union> region (open_ext f) 10 \<subseteq> X"
    and s: "0x2e \<notin> set s" "0 \<notin> set s" "length s \<le> 8" and x: "0 \<notin> set x" "length x \<le> 3"
    and lim: "unat (name_buffer f) + 8 < 2 ^ 64" "unat (ext_buffer f) + 3 < 2 ^ 64"
    and ap: "sets_apart [region (open_name f) 10, region (open_ext f) 10, region (name_buffer f) 8, region (ext_buffer f) 3,
      pool_bytes (inode_slab k), directory_bytes (kmem k) vol, heap_rest (main_heap k) R]"
  obtains k' R' inode fi where "fatfs_open sy f k filesystem va = Some (k', inode)" and "fs_ok k' R' n" and "inode \<noteq> NULL"
    and "fat_open (kmem k') fi vol (lookup_entry (kmem k) vol s x) 0 (- 1)" and "i_impl_inode (kmem k') inode = fi" and "i_get (kmem k') inode = sym_fatfs_get sy"
    and "region fi 536 \<subseteq> heap_rest (main_heap k) R" and "heap_rest (main_heap k') R' \<subseteq> heap_rest (main_heap k) R - region fi 536"
    and "region inode 40 \<subseteq> pool_bytes (inode_slab k)" and "k' = k\<lparr>kmem := kmem k', main_heap := main_heap k'\<rparr>"
    and "same_outside (heap_rest (main_heap k) R \<union> pool_bytes (inode_slab k) \<union> region (open_name f) 10 \<union> region (open_ext f) 10 \<union>
      region (name_buffer f) 8 \<union> region (ext_buffer f) 3) (kmem k) (kmem k')"
proof -
  let ?F = "heap_rest (main_heap k) R" and ?P = "pool_bytes (inode_slab k)"
  let ?W = "slab_header (inode_slab k) \<union> region (open_name f) 10 \<union> region (open_ext f) 10 \<union> region (name_buffer f) 8 \<union> region (ext_buffer f) 3"
  obtain inode m where a: "fatfs_open sy f k filesystem va = fat_inode_fill sy (k\<lparr>kmem := m\<rparr>) inode vol (lookup_entry (kmem k) vol s x)"
    "inode \<in> slab_slots (inode_slab k)" "inode \<noteq> NULL" "same_outside ?W (kmem k) m"
    by (rule fatfs_open_entry [OF assms])
  have hp: "slab_header (inode_slab k) \<subseteq> ?P" by (simp add: pool_bytes_def)
  have ip: "region inode 40 \<subseteq> ?P" using a(2) ok by (auto simp: pool_bytes_def fs_ok_def simp del: in_region)
  have F: "region (open_name f) 10 \<inter> ?F = {}" "region (open_ext f) 10 \<inter> ?F = {}" "region (name_buffer f) 8 \<inter> ?F = {}" "region (ext_buffer f) 3 \<inter> ?F = {}" "?P \<inter> ?F = {}"
    using ap by (simp_all del: in_region)
  have ok': "fs_ok (k\<lparr>kmem := m\<rparr>) R (Suc n)" by (rule fs_ok_write [OF ok a(4)]) (use F hp in blast)
  have io: "region inode 40 \<inter> heap_rest (main_heap (k\<lparr>kmem := m\<rparr>)) R = {}" using ip F(5) by auto
  obtain k' R' fi where b: "fat_inode_fill sy (k\<lparr>kmem := m\<rparr>) inode vol (lookup_entry (kmem k) vol s x) = Some (k', inode)" "fs_ok k' R' n"
    "fat_open (kmem k') fi vol (lookup_entry (kmem k) vol s x) 0 (- 1)" "i_impl_inode (kmem k') inode = fi" "i_get (kmem k') inode = sym_fatfs_get sy"
    "region fi 536 \<subseteq> heap_rest (main_heap (k\<lparr>kmem := m\<rparr>)) R" "heap_rest (main_heap k') R' \<subseteq> heap_rest (main_heap (k\<lparr>kmem := m\<rparr>)) R - region fi 536"
    "k' = k\<lparr>kmem := m\<rparr>\<lparr>kmem := kmem k', main_heap := main_heap k'\<rparr>"
    "same_outside (heap_rest (main_heap (k\<lparr>kmem := m\<rparr>)) R \<union> region inode 40) (kmem (k\<lparr>kmem := m\<rparr>)) (kmem k')"
    by (rule fat_inode_fill_ok [OF ok' io])
  have "same_outside (?F \<union> region inode 40) m (kmem k')" using b(9) by simp
  from same_outside_join [OF a(4) this]
  have "same_outside (?F \<union> ?P \<union> region (open_name f) 10 \<union> region (open_ext f) 10 \<union> region (name_buffer f) 8 \<union> region (ext_buffer f) 3) (kmem k) (kmem k')"
    by (rule same_outside_mono) (use hp ip in blast)
  then show thesis using that [of k' inode R' fi] a(1,3) b(1-8) ip by simp
qed

end
