(* ===== verification/Program_Open.thy ===== *)
theory Program_Open
  imports System_Calls Fatfs_Open
begin

text \<open>
  A user program that opens a file of the disk by its name and reads it: the composition of \<open>sys_open\<close>, the
  handler, \<open>fatfs_open\<close> and the table of descriptors with the reads.
\<close>

declare heap_state(4) [simp del]

section \<open>The handler of the call\<close>

definition open_places :: "kernel_frame \<Rightarrow> addr \<Rightarrow> addr \<Rightarrow> addr \<Rightarrow> slab \<Rightarrow> addr set \<Rightarrow> addr set \<Rightarrow> addr set \<Rightarrow> bool" where
  \<comment> \<open>the pushed registers, the job, the local variables, the file system, the slab of the inodes, the volume \<open>V\<close>, the
    driver's bytes \<open>W\<close> and the free heap \<open>F\<close> are at separate places\<close>
  "open_places f x30 job fs s V W F \<longleftrightarrow> sets_apart [region x30 256, region job 392, {char_local f}, region (open_name f) 10, region (open_ext f) 10,
     region (name_buffer f) 8, region (ext_buffer f) 3, region (load_buffer f) 512, region fs 24, pool_bytes s, V, W, F]"

definition named_file :: "kernel \<Rightarrow> addr set \<Rightarrow> addr \<Rightarrow> u8 list \<Rightarrow> u8 list \<Rightarrow> bool" where
  \<comment> \<open>the string at \<open>va\<close> is a name of at most 8 and an extension of at most 3 characters with the dot between them\<close>
  "named_file k X va s x \<longleftrightarrow> readable_path k X va (s @ [0x2e] @ x) \<and> 0x2e \<notin> set s \<and> 0 \<notin> set s \<and> length s \<le> 8 \<and> 0 \<notin> set x \<and> length x \<le> 3"

lemma named_file_step:
  assumes "named_file k X va s x" and w: "same_outside X (kmem k) m" and r: "SCTLR_EL1 r = SCTLR_EL1 (regs k)" "TTBR0_EL1 r = TTBR0_EL1 (regs k)"
  shows "named_file (k\<lparr>regs := r, kmem := m\<rparr>) X va s x"
proof -
  have "vread (k\<lparr>regs := r, kmem := m'\<rparr>) p = vread (k\<lparr>kmem := m'\<rparr>) p" for m' p using r by (simp add: vread_def)
  moreover have "same_outside X (kmem k) m'" if "same_outside X m m'" for m' using w that by (rule same_outside_trans)
  ultimately show ?thesis using assms(1) by (simp add: named_file_def readable_path_def)
qed

definition open_ready :: "symbols \<Rightarrow> kernel_frame \<Rightarrow> addr \<Rightarrow> addr \<Rightarrow> u8 list \<Rightarrow> u8 list \<Rightarrow> addr \<Rightarrow> addr set \<Rightarrow> addr set \<Rightarrow> addr list \<Rightarrow> int \<Rightarrow> runs \<Rightarrow> nat \<Rightarrow> kernel \<Rightarrow> bool" where
  \<comment> \<open>there is room for an inode and for \<open>n\<close> blocks more than its structure needs, the main file system is the FAT volume \<open>vol\<close>, and the
    current job has \<open>fds\<close> open\<close>
  "open_ready sy f x30 va s x vol V W fds c R n k \<longleftrightarrow> fs_ok k R (Suc n) \<and> slab_live (kmem k) (inode_slab k) \<noteq> slab_slots (inode_slab k) \<and>
     fs_open (kmem k) (main_filesystem k) = sym_fatfs_open sy \<and> sym_fatfs_open sy \<noteq> sym_ramfs_open_internal sy \<and>
     fs_arguments (kmem k) (main_filesystem k) = vol \<and> directory_bytes (kmem k) vol \<subseteq> V \<and>
     named_file k (region x30 256 \<union> slab_header (inode_slab k) \<union> region (open_name f) 10 \<union> region (open_ext f) 10) va s x \<and>
     unat (name_buffer f) + 8 < 2 ^ 64 \<and> unat (ext_buffer f) + 3 < 2 ^ 64 \<and>
     open_places f x30 (current_job k) (main_filesystem k) (inode_slab k) V W (heap_rest (main_heap k) R) \<and>
     files_ok (job_at (kmem k) (current_job k)) fds c \<and> c < 8"

lemma open_ready_entry:
  assumes r: "open_ready sy f x30 va s x vol V W fds c R n k" and w: "same_outside (region x30 256) (kmem k) m"
    and reg: "SCTLR_EL1 r = SCTLR_EL1 (regs k)" "TTBR0_EL1 r = TTBR0_EL1 (regs k)"
  shows "open_ready sy f x30 va s x vol V W fds c R n (k\<lparr>regs := r, kmem := m\<rparr>)" and "lookup_entry m vol s x = lookup_entry (kmem k) vol s x"
proof -
  let ?X = "region x30 256" and ?fs = "main_filesystem k"
  note o = r [unfolded open_ready_def]
  have ap: "?X \<inter> heap_rest (main_heap k) R = {}" "?X \<inter> pool_bytes (inode_slab k) = {}" "region ?fs 24 \<inter> ?X = {}" "region (current_job k) 392 \<inter> ?X = {}" "V \<inter> ?X = {}"
    using o unfolding open_places_def by (simp_all add: Int_commute del: in_region)
  have hdr: "?X \<inter> slab_header (inode_slab k) = {}" using ap(2) by (auto simp: pool_bytes_def simp del: in_region)
  have "slab_live m (inode_slab k) = slab_live (kmem k) (inode_slab k)" by (rule slab_pool.live_frame [OF _ w hdr]) (use o in \<open>simp add: fs_ok_def\<close>)
  moreover have "fs_ok (k\<lparr>kmem := m\<rparr>) R (Suc n)" by (rule fs_ok_write [OF _ w ap(1)]) (use o in simp)
  then have "fs_ok (k\<lparr>regs := r, kmem := m\<rparr>) R (Suc n)" by (simp add: fs_ok_def)
  moreover have D: "directory_bytes (kmem k) vol \<inter> ?X = {}" using o ap(5) by blast
  moreover have "fs_open m ?fs = fs_open (kmem k) ?fs" "fs_arguments m ?fs = fs_arguments (kmem k) ?fs"
    unfolding fs_open_def fs_arguments_def by (rule load_frame [OF w ap(3)]; simp)+
  moreover have "named_file (k\<lparr>regs := r, kmem := m\<rparr>) (?X \<union> slab_header (inode_slab k) \<union> region (open_name f) 10 \<union> region (open_ext f) 10) va s x"
    by (rule named_file_step [OF _ same_outside_mono [OF w] reg]) (use o in auto)
  ultimately show "open_ready sy f x30 va s x vol V W fds c R n (k\<lparr>regs := r, kmem := m\<rparr>)"
    using o directory_bytes_frame [OF w D] job_at_frame [OF w ap(4)] by (simp add: open_ready_def)
  show "lookup_entry m vol s x = lookup_entry (kmem k) vol s x"
    by (rule lookup_entry_frame [OF w D]) (use o in \<open>simp_all add: named_file_def\<close>)
qed

definition open_writes :: "kernel_frame \<Rightarrow> kernel \<Rightarrow> runs \<Rightarrow> addr set" where
  "open_writes f k R = heap_rest (main_heap k) R \<union> pool_bytes (inode_slab k) \<union> region (open_name f) 10 \<union> region (open_ext f) 10 \<union>
     region (name_buffer f) 8 \<union> region (ext_buffer f) 3 \<union> region (current_job k) 392"

definition just_opened :: "symbols \<Rightarrow> addr \<Rightarrow> addr \<Rightarrow> addr list \<Rightarrow> int \<Rightarrow> runs \<Rightarrow> nat \<Rightarrow> kernel \<Rightarrow> kernel \<Rightarrow> runs \<Rightarrow> addr \<Rightarrow> addr \<Rightarrow> bool" where
  \<comment> \<open>from \<open>k\<close> to \<open>k'\<close> an inode and its structure \<open>fi\<close> were taken, set to the first byte of the entry \<open>e\<close>, and made the last descriptor\<close>
  "just_opened sy vol e fds c R n k k' R' inode fi \<longleftrightarrow> fs_ok k' R' n \<and> inode \<noteq> NULL \<and> fat_open (kmem k') fi vol e 0 (- 1) \<and>
     i_impl_inode (kmem k') inode = fi \<and> i_get (kmem k') inode = sym_fatfs_get sy \<and> region fi 536 \<subseteq> heap_rest (main_heap k) R \<and>
     heap_rest (main_heap k') R' \<subseteq> heap_rest (main_heap k) R - region fi 536 \<and> region inode 40 \<subseteq> pool_bytes (inode_slab k) \<and>
     files_ok (job_at (kmem k') (current_job k)) (fds @ [inode]) (c + 1)"

lemma internal_open_ok:
  assumes r: "open_ready sy f x30 va s x vol V W fds c R n k" and reg: "REG (kmem k) x30 0 = va"
  obtains k' R' inode fi m where "exceptions_internal_open sy f k x30 = Some k'" and "just_opened sy vol (lookup_entry (kmem k) vol s x) fds c R n k k' R' inode fi"
    and "k' = k\<lparr>kmem := set_REG m x30 0 (of_nat (length fds)), main_heap := main_heap k'\<rparr>" and "same_outside (open_writes f k R) (kmem k) m"
proof -
  let ?F = "heap_rest (main_heap k) R" and ?P = "pool_bytes (inode_slab k)" and ?job = "current_job k" and ?f = "fatfs_frame.truncate f"
  let ?Y = "?F \<union> ?P \<union> region (open_name f) 10 \<union> region (open_ext f) 10 \<union> region (name_buffer f) 8 \<union> region (ext_buffer f) 3"
  let ?Z = "region x30 256 \<union> region ?job 392" and ?fs = "main_filesystem k"
  note o' = r [unfolded open_ready_def]
  have pl: "open_places f x30 ?job ?fs (inode_slab k) V W ?F" and V: "directory_bytes (kmem k) vol \<subseteq> V"
    and ok: "fs_ok k R (Suc n)" and room: "slab_live (kmem k) (inode_slab k) \<noteq> slab_slots (inode_slab k)" and arg: "fs_arguments (kmem k) ?fs = vol"
    and files: "files_ok (job_at (kmem k) ?job) fds c" "c < 8"
    using o' by simp_all
  have ap: "sets_apart [region (open_name ?f) 10, region (open_ext ?f) 10, region (name_buffer ?f) 8, region (ext_buffer ?f) 3, ?P, directory_bytes (kmem k) vol, ?F]"
  proof (rule sets_apart_mono)
    show "sets_apart [region (open_name ?f) 10, region (open_ext ?f) 10, region (name_buffer ?f) 8, region (ext_buffer ?f) 3, ?P, V, ?F]"
      using pl unfolding open_places_def by (simp add: fatfs_frame.defs del: in_region)
  qed (use V in simp)
  have JY: "region ?job 392 \<inter> ?Y = {}" using pl unfolding open_places_def by (simp add: Int_Un_distrib del: in_region)
  have ZF: "?Z \<inter> (?F \<union> ?P) = {}" using pl unfolding open_places_def by (simp add: Int_Un_distrib Int_Un_distrib2 del: in_region)
  have XJ: "region ?job 392 \<inter> region x30 256 = {}" using pl unfolding open_places_def by (simp add: Int_commute del: in_region)
  let ?X = "region x30 256 \<union> slab_header (inode_slab k) \<union> region (open_name f) 10 \<union> region (open_ext f) 10"
  have X: "slab_header (inode_slab k) \<union> region (open_name ?f) 10 \<union> region (open_ext ?f) 10 \<subseteq> ?X" by (auto simp: fatfs_frame.defs simp del: in_region)
  obtain k1 R1 inode fi where o: "fatfs_open sy ?f k ?fs va = Some (k1, inode)" "fs_ok k1 R1 n" "inode \<noteq> NULL"
    "fat_open (kmem k1) fi vol (lookup_entry (kmem k) vol s x) 0 (- 1)" "i_impl_inode (kmem k1) inode = fi" "i_get (kmem k1) inode = sym_fatfs_get sy"
    "region fi 536 \<subseteq> ?F" "heap_rest (main_heap k1) R1 \<subseteq> ?F - region fi 536" "region inode 40 \<subseteq> ?P" "k1 = k\<lparr>kmem := kmem k1, main_heap := main_heap k1\<rparr>"
    "same_outside (heap_rest (main_heap k) R \<union> pool_bytes (inode_slab k) \<union> region (open_name ?f) 10 \<union> region (open_ext ?f) 10 \<union>
      region (name_buffer ?f) 8 \<union> region (ext_buffer ?f) 3) (kmem k) (kmem k1)"
    by (rule fatfs_open_ok [OF ok room arg _ X _ _ _ _ _ _ _ ap, of va s x sy]) (use o' in \<open>simp_all add: named_file_def fatfs_frame.defs\<close>)
  have w1: "same_outside ?Y (kmem k) (kmem k1)" using o(11) by (simp add: fatfs_frame.defs)
  have cur: "current_job k1 = ?job" by (subst o(10)) simp
  have "files_ok (job_at (kmem k1) ?job) fds c" using files(1) job_at_frame [OF w1 JY] by simp
  then obtain m where m: "job_add_file (kmem k1) ?job inode = Some (m, int (length fds))"
    "job_at m ?job = (job_at (kmem k1) ?job)\<lparr>j_files := (j_files (job_at (kmem k1) ?job))[length fds := inode], j_count := c + 1\<rparr>"
    "files_ok (job_at m ?job) (if inode = NULL then fds else fds @ [inode]) (c + 1)" "same_outside (job_fields ?job) (kmem k1) m"
    using files(2) by (rule job_add_file_ok)
  let ?m = "set_REG m x30 0 (of_nat (length fds))" and ?A = "region ?job 392 \<union> region x30 256"
  let ?k = "k1\<lparr>kmem := ?m\<rparr>"
  have wm: "same_outside (region ?job 392) (kmem k1) m" by (rule same_outside_mono [OF m(4) job_fields_sub])
  have w: "same_outside ?A (kmem k1) ?m" by (rule same_outside_join [OF wm set_REG_outside])
  have A: "region fi 536 \<inter> ?A = {}" "region inode 40 \<inter> ?A = {}" "?A \<inter> heap_rest (main_heap k1) R1 = {}" using o(7-9) ZF by blast+
  have "fs_ok ?k R1 n" by (rule fs_ok_write [OF o(2) w A(3)])
  moreover have "exceptions_internal_open sy f k x30 = Some ?k"
    using o' reg o(1) m(1) cur by (simp add: exceptions_internal_open_def call_open_def fs_filesystem_getmain_def job_get_current_def)
  moreover have "fat_open ?m fi vol (lookup_entry (kmem k) vol s x) 0 (- 1)"
    using fat_open_frame [OF same_outside_mono [OF w] A(1)] o(4) by blast
  moreover have "i_impl_inode ?m inode = fi" "i_get ?m inode = sym_fatfs_get sy" using inode_frame [OF w A(2)] o(5,6) by simp_all
  moreover have "files_ok (job_at ?m ?job) (fds @ [inode]) (c + 1)" using m(3) o(3) job_at_frame [OF set_REG_outside XJ] by simp
  moreover have "?k = k\<lparr>kmem := ?m, main_heap := main_heap ?k\<rparr>" by (subst o(10)) simp
  moreover have "same_outside (?Y \<union> region ?job 392) (kmem k) m" by (rule same_outside_join [OF w1 wm])
  ultimately show thesis using that [of ?k R1 inode fi m] o(3,7-9) by (simp add: just_opened_def open_writes_def)
qed

section \<open>The call\<close>

lemma lookup_entry_inside:
  assumes "lookup_entry m vol s x \<noteq> NULL"
  shows "region (lookup_entry m vol s x) 32 \<subseteq> directory_bytes m vol"
proof -
  let ?n = "unat (h_possible_root_entries m vol)"
  obtain i where i: "find (entry_named m vol s x) [0..<?n] = Some i" "lookup_entry m vol s x = h_entries m vol + of_nat (32 * i)"
    using assms by (auto simp: lookup_entry_def split: option.splits)
  have "i < ?n" using i(1) by (auto simp: find_Some_iff)
  moreover have "?n < 65536" using unsigned_less [of "h_possible_root_entries m vol", where ?'a = nat] by simp
  ultimately have "region (h_entries m vol + of_nat (32 * i)) 32 \<subseteq> region (h_entries m vol) (32 * ?n)" by (intro region_sub) simp_all
  then show ?thesis unfolding i(2) directory_bytes_def by blast
qed

lemma open_placesD:
  assumes "open_places f x30 job fs s V W F"
  shows "sets_apart [region x30 256, region job 392, {char_local f}, region (load_buffer f) 512, pool_bytes s, V, W, F]"
    and "V \<inter> (F \<union> pool_bytes s \<union> region (open_name f) 10 \<union> region (open_ext f) 10 \<union> region (name_buffer f) 8 \<union> region (ext_buffer f) 3 \<union>
      region job 392 \<union> region x30 256) = {}"
    and "W \<inter> (F \<union> pool_bytes s \<union> region (open_name f) 10 \<union> region (open_ext f) 10 \<union> region (name_buffer f) 8 \<union> region (ext_buffer f) 3 \<union>
      region job 392 \<union> region x30 256) = {}"
  using assms unfolding open_places_def by (simp_all add: Int_Un_distrib Int_commute del: in_region)

lemma opened_apart:
  assumes d: "sets_apart [X, J, C, L, P, V, W, F]" and s: "fi \<subseteq> F" "F' \<subseteq> F - fi" "i \<subseteq> P" "a \<subseteq> V"
  shows "fi \<inter> (L \<union> (W \<union> F')) = {}" and "i \<inter> (fi \<union> L \<union> (W \<union> F')) = {}" and "L \<inter> (W \<union> F') = {}" and "W \<inter> F' = {}"
    and "a \<inter> (fi \<union> L \<union> (W \<union> F')) = {}" and "X \<inter> (i \<union> fi \<union> L \<union> a \<union> (W \<union> F') \<union> J \<union> C) = {}" and "(i \<union> fi \<union> L \<union> a \<union> (W \<union> F')) \<inter> (J \<union> C) = {}"
    and "C \<inter> J = {}"
proof -
  have d: "L \<inter> F = {}" "L \<inter> W = {}" "W \<inter> F = {}" "L \<inter> P = {}" "P \<inter> W = {}" "P \<inter> F = {}" "L \<inter> V = {}" "V \<inter> W = {}" "V \<inter> F = {}"
    "X \<inter> (J \<union> C \<union> L \<union> P \<union> V \<union> W \<union> F) = {}" "J \<inter> C = {}" "(J \<union> C) \<inter> (L \<union> P \<union> V \<union> W \<union> F) = {}"
    using d by (simp_all add: Int_Un_distrib Int_Un_distrib2)
  show "fi \<inter> (L \<union> (W \<union> F')) = {}" using d(1,3) s(1,2) by blast
  show "i \<inter> (fi \<union> L \<union> (W \<union> F')) = {}" using d(4,5,6) s(1-3) by blast
  show "L \<inter> (W \<union> F') = {}" using d(1,2) s(2) by blast
  show "W \<inter> F' = {}" using d(3) s(2) by blast
  show "a \<inter> (fi \<union> L \<union> (W \<union> F')) = {}" using d(7,8,9) s(1,2,4) by blast
  have "i \<union> fi \<union> L \<union> a \<union> (W \<union> F') \<subseteq> L \<union> P \<union> V \<union> W \<union> F" using s by blast
  then show "X \<inter> (i \<union> fi \<union> L \<union> a \<union> (W \<union> F') \<union> J \<union> C) = {}" "(i \<union> fi \<union> L \<union> a \<union> (W \<union> F')) \<inter> (J \<union> C) = {}" using d(10,12) by blast+
  show "C \<inter> J = {}" using d(11) by blast
qed

lemma fat_at_opened:
  \<comment> \<open>what the handler leaves is an open file at its first byte\<close>
  assumes dev: "block_device blk disk W ready" and sy: "sym_fatfs_get sy \<noteq> sym_ramfs_get sy"
    and r: "open_ready sy f x30 va s x vol (directory_bytes m vol \<union> region t 131072) W fds c R n k" and n: "n = ceil_div (512 * kc) 4096 + 1"
    and e: "lookup_entry m vol s x = e" "e \<noteq> NULL" and fat: "fat_file m vol e t kc d cl sz"
    and jo: "just_opened sy vol e fds c R n k k' R' inode fi" and w': "same_outside (open_writes f k R \<union> region x30 256) m (kmem k')"
    and rdy: "ready (N + requests kc d * ceil_div sz 512) st" and st: "smem st = kmem k'" "heap_of st = main_heap k'"
  shows "fat_at sy blk disk W ready (fatfs_frame.truncate f) (main_heap k') R' inode fi vol e t kc d cl sz N 0 st"
    and "calls_apart f x30 (current_job k) (fat_own inode fi (load_buffer (fatfs_frame.truncate f)) vol e t (W \<union> heap_rest (main_heap k') R'))"
proof -
  let ?F = "heap_rest (main_heap k) R" and ?P = "pool_bytes (inode_slab k)" and ?job = "region (current_job k) 392" and ?x = "region x30 256"
  let ?V = "directory_bytes m vol \<union> region t 131072" and ?F' = "heap_rest (main_heap k') R'" and ?lb = "region (load_buffer f) 512"
  note o = r [unfolded open_ready_def] and j = jo [unfolded just_opened_def]
  have fi: "region fi 536 \<subseteq> ?F" "?F' \<subseteq> ?F - region fi 536" and i: "region inode 40 \<subseteq> ?P" using j by simp_all
  have area: "fat_area vol e t \<subseteq> ?V" using lookup_entry_inside [of m vol s x] e unfolding fat_area_def directory_bytes_def by blast
  have "open_places f x30 (current_job k) (main_filesystem k) (inode_slab k) ?V W ?F" using o by (elim conjE)
  note d = open_placesD(1) [OF this] and V = open_placesD(2) [OF this]
  have fat': "fat_file (kmem k') vol e t kc d cl sz" by (rule fat_file_frame [OF fat w']) (use area V in \<open>unfold open_writes_def, blast\<close>)
  note own = opened_apart [OF d fi i area]
  have lb: "load_buffer (fatfs_frame.truncate f) = load_buffer f" by (simp add: fatfs_frame.defs)
  have "fat_apart inode fi (load_buffer f) vol e t (W \<union> ?F')" unfolding fat_apart_def by (intro conjI own)
  moreover have "fat_reading sy disk inode fi vol e t kc d cl sz 0 (kmem k')" using fat' j by (simp add: fat_reading_def ceil_div_def)
  moreover have "heap_table_apart (main_heap k')" "heap_room (main_heap k') R' n" "heap_ok (kmem k') (main_heap k') R'" using j by (simp_all add: fs_ok_def)
  moreover have "ceil_div 0 512 = 0" by (simp add: ceil_div_def)
  ultimately show "fat_at sy blk disk W ready (fatfs_frame.truncate f) (main_heap k') R' inode fi vol e t kc d cl sz N 0 st"
    using dev sy own(4) rdy st unfolding fat_at_def world_def lb n by simp
  show "calls_apart f x30 (current_job k) (fat_own inode fi (load_buffer (fatfs_frame.truncate f)) vol e t (W \<union> ?F'))"
    using own(6-8) unfolding lb calls_apart_def fat_own_def by (intro conjI) (simp_all only: Un_assoc, simp)
qed

lemma kput_heap: "k' = (kget st)\<lparr>kmem := m, main_heap := h\<rparr> \<Longrightarrow> kput st k' = set_heap st m h"
  by (simp add: kput_def kget_def set_heap_def)

lemma handle_open:
  assumes r: "open_ready sy f x30 va s x vol V W fds c R n (kget st)" and fr: "frame_at m x30 (xs(0 := va))" and w: "same_outside (region x30 256) (smem st) m"
  obtains k k' R' inode fi r' where "exceptions_handle_syscall sy blk lf f junk 20 (set_smem (svc_entry ret pst 20 st) m) x30 =
      Some (set_regs (set_heap st (kmem k') (main_heap k')) r', True)"
    and "frame_at (kmem k') x30 (xs(0 := of_nat (length fds)))" and "open_ready sy f x30 va s x vol V W fds c R n k" and "current_job k = current_job (kget st)"
    and "just_opened sy vol (lookup_entry (smem st) vol s x) fds c R n k k' R' inode fi" and "same_outside (open_writes f k R \<union> region x30 256) (smem st) (kmem k')"
proof -
  let ?st = "set_smem (svc_entry ret pst 20 st) m" and ?fd = "of_nat (length fds) :: u64"
  obtain k where k: "k = (kget st)\<lparr>regs := (regs (kget st))\<lparr>ELR_EL1 := ret 20, SPSR_EL1 := pst\<rparr>, kmem := m\<rparr>" by simp
  have kst: "kget ?st = k" and km: "kmem k = m" by (simp_all add: k svc_entry_def)
  have wk: "same_outside (region x30 256) (kmem (kget st)) m" using w by (simp add: smem_def kget_def)
  have rk: "open_ready sy f x30 va s x vol V W fds c R n k" unfolding k by (rule open_ready_entry [OF r wk]) simp_all
  have look: "lookup_entry (kmem k) vol s x = lookup_entry (smem st) vol s x"
    using open_ready_entry(2) [OF r wk, of "regs (kget st)"] by (simp add: k smem_def kget_def)
  have reg: "REG (kmem k) x30 0 = va" using frame_REG [OF fr] by (simp add: k)
  obtain k' R' inode fi m2 where o: "exceptions_internal_open sy f k x30 = Some k'" "just_opened sy vol (lookup_entry (kmem k) vol s x) fds c R n k k' R' inode fi"
    "k' = k\<lparr>kmem := set_REG m2 x30 0 ?fd, main_heap := main_heap k'\<rparr>" "same_outside (open_writes f k R) (kmem k) m2"
    by (rule internal_open_ok [OF rk reg])
  have m': "kmem k' = set_REG m2 x30 0 ?fd" by (subst o(3)) simp
  have "open_places f x30 (current_job k) (main_filesystem k) (inode_slab k) V W (heap_rest (main_heap k) R)" using rk by (simp add: open_ready_def)
  then have "region x30 256 \<inter> open_writes f k R = {}" unfolding open_places_def open_writes_def by (simp add: Int_Un_distrib del: in_region)
  then have "frame_at m2 x30 (xs(0 := va))" using frame_at_kept [OF fr] o(4) unfolding km by blast
  then have fr': "frame_at (kmem k') x30 (xs(0 := ?fd))" using set_REG_frame [of m2 x30 "xs(0 := va)" ?fd] by (simp add: m')
  have w': "same_outside (open_writes f k R \<union> region x30 256) (smem st) (kmem k')"
    unfolding m' using same_outside_join [OF same_outside_join [OF w o(4) [unfolded km]] set_REG_outside] by (rule same_outside_mono) blast
  have kk: "k' = (kget ?st)\<lparr>kmem := kmem k', main_heap := main_heap k'\<rparr>" unfolding kst using o(3) m' by simp
  let ?s2 = "set_heap (svc_entry ret pst 20 st) (kmem k') (main_heap k')"
  have s2: "kput ?st k' = ?s2" using kput_heap [OF kk] by (simp add: set_heap_def set_smem_def)
  let ?r2 = "(regs (kget ?s2))\<lparr>ELR_EL1 := ELR_EL1 (regs (kget ?st)), SPSR_EL1 := SPSR_EL1 (regs (kget ?st))\<rparr>"
  have "exceptions_handle_syscall sy blk lf f junk 20 ?st x30 = Some (set_regs ?s2 ?r2, True)"
    using o(1) unfolding exceptions_handle_syscall_def kst [symmetric] by (simp add: s2 kput_regs del: kget_set)
  moreover have "set_regs ?s2 ?r2 = set_regs (set_heap st (kmem k') (main_heap k')) ?r2" by (simp add: set_regs_def set_heap_def svc_entry_def)
  ultimately show thesis using that [of k' ?r2 k R' inode fi] fr' rk o(2) [unfolded look] w' by (simp add: k)
qed

lemma sys_open_run:
  assumes r: "open_ready sy f x30 va s x vol V W fds c R n (kget st)"
    and opened: "\<And>k k' R' inode fi r. \<lbrakk>open_ready sy f x30 va s x vol V W fds c R n k; current_job k = current_job (kget st);
        just_opened sy vol (lookup_entry (smem st) vol s x) fds c R n k k' R' inode fi; same_outside (open_writes f k R \<union> region x30 256) (smem st) (kmem k')\<rbrakk>
      \<Longrightarrow> P (set_regs (set_heap st (kmem k') (main_heap k')) r)"
  shows "\<exists>x' st'. sys_open (svc sy blk lf f junk (fld x30 256) ret pst) (xs, st) va = Some ((x', st'), int (length fds)) \<and> (\<forall>i \<in> {1..30}. x' i = xs i) \<and> P st'"
proof -
  let ?fd = "of_nat (length fds) :: u64" and ?l = "length fds"
  have l: "?l < 8" using r by (auto simp: open_ready_def files_ok_def)
  let ?Q = "\<lambda>x2 st2. x2 = xs(0 := ?fd) \<and> P st2"
  have "\<exists>x' x2 st2. svc sy blk lf f junk (fld x30 256) ret pst 20 (xs(0 := va), st) = Some (x', st2) \<and> (\<forall>i \<le> 30. x' i = x2 i) \<and> ?Q x2 st2"
  proof (rule svc_run)
    fix m
    assume e: "frame_at m x30 (xs(0 := va))" "same_outside (region x30 256) (smem st) m"
    obtain k k' R' inode fi r' where o: "exceptions_handle_syscall sy blk lf f junk 20 (set_smem (svc_entry ret pst 20 st) m) x30 =
        Some (set_regs (set_heap st (kmem k') (main_heap k')) r', True)"
      "frame_at (kmem k') x30 (xs(0 := ?fd))" "open_ready sy f x30 va s x vol V W fds c R n k" "current_job k = current_job (kget st)"
      "just_opened sy vol (lookup_entry (smem st) vol s x) fds c R n k k' R' inode fi" "same_outside (open_writes f k R \<union> region x30 256) (smem st) (kmem k')"
      by (rule handle_open [OF r e])
    moreover have "P (set_regs (set_heap st (kmem k') (main_heap k')) r')" by (rule opened [OF o(3-6)])
    ultimately show "\<exists>st2 x2. exceptions_handle_syscall sy blk lf f junk 20 (set_smem (svc_entry ret pst 20 st) m) x30 = Some (st2, True) \<and>
        frame_at (smem st2) x30 x2 \<and> ?Q x2 st2"
      by (intro exI [of _ "set_regs (set_heap st (kmem k') (main_heap k')) r'"] exI [of _ "xs(0 := ?fd)"]) simp
  qed
  then obtain x' st2 where "svc sy blk lf f junk (fld x30 256) ret pst 20 (xs(0 := va), st) = Some (x', st2)"
    "\<forall>i \<le> 30. x' i = (xs(0 := ?fd)) i" "P st2" by auto
  moreover have "c_int ?fd = int ?l" using l c_int_small [of ?fd] by (simp add: unat_of_nat64)
  ultimately show ?thesis by (intro exI [of _ x'] exI [of _ st2]) (simp add: sys_open_def)
qed

lemma sys_open_opens:
  assumes dev: "block_device blk disk W ready" and cur: "\<forall>i st. ready i st \<longrightarrow> current_job (kget st) = job" and sy: "sym_fatfs_get sy \<noteq> sym_ramfs_get sy"
    and o: "open_ready sy f x30 va s x vol (directory_bytes (smem st) vol \<union> region t 131072) W fds c R (ceil_div (512 * k) 4096 + 1) (kget st)"
    and rdy: "ready (requests k d * ceil_div sz 512) st" and e: "e = lookup_entry (smem st) vol s x" and fat: "e \<noteq> NULL \<Longrightarrow> fat_file (smem st) vol e t k d cl sz"
  obtains x1 st1 where "sys_open (svc sy blk lf f junk (fld x30 256) ret pst) (xs, st) va = Some ((x1, st1), int (length fds))" and "\<forall>i \<in> {1..30}. x1 i = xs i"
    and "e \<noteq> NULL \<longrightarrow> (\<exists>h R' inode fi. fat_at sy blk disk W ready (fatfs_frame.truncate f) h R' inode fi vol e t k d cl sz 0 0 st1 \<and>
      calls_apart f x30 job (fat_own inode fi (load_buffer (fatfs_frame.truncate f)) vol e t (W \<union> heap_rest h R')) \<and>
      inode \<noteq> NULL \<and> job_get_file (smem st1) job (int (length fds)) = inode)"
proof -
  let ?fd = "int (length fds)" and ?sv = "svc sy blk lf f junk (fld x30 256) ret pst" and ?N = "ceil_div (512 * k) 4096 + 1"
  let ?V = "directory_bytes (smem st) vol \<union> region t 131072"
  let ?P = "\<lambda>st1. e \<noteq> NULL \<longrightarrow> (\<exists>h R' inode fi. fat_at sy blk disk W ready (fatfs_frame.truncate f) h R' inode fi vol e t k d cl sz 0 0 st1 \<and>
      calls_apart f x30 job (fat_own inode fi (load_buffer (fatfs_frame.truncate f)) vol e t (W \<union> heap_rest h R')) \<and>
      inode \<noteq> NULL \<and> job_get_file (smem st1) job ?fd = inode)"
  have "\<exists>x' st'. sys_open ?sv (xs, st) va = Some ((x', st'), ?fd) \<and> (\<forall>i \<in> {1..30}. x' i = xs i) \<and> ?P st'"
  proof (rule sys_open_run [OF o], rule impI)
    fix k1 k' R' inode fi r
    assume p: "open_ready sy f x30 va s x vol ?V W fds c R ?N k1" "current_job k1 = current_job (kget st)"
      "just_opened sy vol (lookup_entry (smem st) vol s x) fds c R ?N k1 k' R' inode fi"
      "same_outside (open_writes f k1 R \<union> region x30 256) (smem st) (kmem k')" and ne: "e \<noteq> NULL"
    let ?st = "set_regs (set_heap st (kmem k') (main_heap k')) r"
    have job: "current_job k1 = job" using p(2) cur rdy by simp
    have "open_places f x30 (current_job k1) (main_filesystem k1) (inode_slab k1) ?V W (heap_rest (main_heap k1) R)" using p(1) by (simp add: open_ready_def)
    from open_placesD(3) [OF this] have "open_writes f k1 R \<union> region x30 256 \<subseteq> - W" unfolding open_writes_def by blast
    then have "ready (0 + requests k d * ceil_div sz 512) ?st"
      using block_device.regs_free [OF dev block_device.stable [OF dev rdy same_outside_mono [OF p(4)]]] by simp
    note at = fat_at_opened [OF dev sy p(1) refl e [symmetric] ne _ p(3) [folded e] p(4) this]
    have "fat_at sy blk disk W ready (fatfs_frame.truncate f) (main_heap k') R' inode fi vol e t k d cl sz 0 0 ?st \<and>
      calls_apart f x30 job (fat_own inode fi (load_buffer (fatfs_frame.truncate f)) vol e t (W \<union> heap_rest (main_heap k') R'))"
      using at fat ne job by simp
    moreover have "job_get_file (smem ?st) job ?fd = inode" using p(3) files_ok_get [of "kmem k'" job "fds @ [inode]" "c + 1" ?fd] job by (simp add: just_opened_def)
    ultimately show "\<exists>h R' inode fi. fat_at sy blk disk W ready (fatfs_frame.truncate f) h R' inode fi vol e t k d cl sz 0 0 ?st \<and>
        calls_apart f x30 job (fat_own inode fi (load_buffer (fatfs_frame.truncate f)) vol e t (W \<union> heap_rest h R')) \<and>
        inode \<noteq> NULL \<and> job_get_file (smem ?st) job ?fd = inode" using p(3) unfolding just_opened_def by blast
  qed
  then show thesis using that by blast
qed

section \<open>Properties\<close>

text \<open>
  C7. A program opens a file of the disk by its name and reads it. With a descriptor, an inode and heap blocks free, \<open>sys_open\<close> of a name
  with an extension returns the lowest free descriptor with the other registers unchanged; if the directory has the
  name, \<open>n\<close> calls of \<open>sys_read\<close> on that descriptor then return the first \<open>n\<close> bytes of the file, those
  that the chain of clusters gives for it on the disk. The descriptor is returned even if the directory has no such name.
\<close>
theorem user_opens_and_reads:
  assumes "block_device blk disk W ready" and "\<forall>i st. ready i st \<longrightarrow> current_job (kget st) = job" and "sym_fatfs_get sy \<noteq> sym_ramfs_get sy"
    and "open_ready sy f x30 va s x vol (directory_bytes (smem st) vol \<union> region t 131072) W fds c R (ceil_div (512 * k) 4096 + 1) (kget st)"
    and "ready (requests k d * ceil_div sz 512) st" and "e = lookup_entry (smem st) vol s x"
    and "e \<noteq> NULL \<Longrightarrow> fat_file (smem st) vol e t k d cl sz \<and> n \<le> sz"
  shows "\<exists>x1 st1. sys_open (svc sy blk lf f junk (fld x30 256) ret pst) (xs, st) va = Some ((x1, st1), int (length fds)) \<and> (\<forall>i \<in> {1..30}. x1 i = xs i) \<and>
    (e \<noteq> NULL \<longrightarrow> (\<exists>x' st'. user_read n (svc sy blk lf f junk (fld x30 256) ret pst) (x1, st1) (int (length fds)) =
        Some ((x', st'), map (file_byte disk k d cl) [0..<n]) \<and> (\<forall>i \<in> {1..30}. x' i = xs i)))"
proof -
  let ?fd = "int (length fds)" and ?sv = "svc sy blk lf f junk (fld x30 256) ret pst"
  have l: "0 \<le> ?fd" "?fd < 8" using assms(4) by (auto simp: open_ready_def files_ok_def)
  have fat: "fat_file (smem st) vol e t k d cl sz" if "e \<noteq> NULL" using assms(7) that by simp
  obtain x1 st1 where s1: "sys_open ?sv (xs, st) va = Some ((x1, st1), ?fd)" "\<forall>i \<in> {1..30}. x1 i = xs i"
    "e \<noteq> NULL \<longrightarrow> (\<exists>h R' inode fi. fat_at sy blk disk W ready (fatfs_frame.truncate f) h R' inode fi vol e t k d cl sz 0 0 st1 \<and>
      calls_apart f x30 job (fat_own inode fi (load_buffer (fatfs_frame.truncate f)) vol e t (W \<union> heap_rest h R')) \<and>
      inode \<noteq> NULL \<and> job_get_file (smem st1) job ?fd = inode)"
    by (rule sys_open_opens [OF assms(1-6) fat])
  have "\<exists>x' st'. user_read n ?sv (x1, st1) ?fd = Some ((x', st'), map (file_byte disk k d cl) [0..<n]) \<and> (\<forall>i \<in> {1..30}. x' i = xs i)" if e: "e \<noteq> NULL"
  proof -
    obtain h R' inode fi where at: "fat_at sy blk disk W ready (fatfs_frame.truncate f) h R' inode fi vol e t k d cl sz 0 0 st1"
      "calls_apart f x30 job (fat_own inode fi (load_buffer (fatfs_frame.truncate f)) vol e t (W \<union> heap_rest h R'))"
      "inode \<noteq> NULL" "job_get_file (smem st1) job ?fd = inode" using s1(3) e by blast
    have n: "0 + n \<le> length (map (file_byte disk k d cl) [0..<sz])" using assms(7) e by simp
    have "take n (drop 0 (map (file_byte disk k d cl) [0..<sz])) = map (file_byte disk k d cl) [0..<n]" using n by (simp add: take_map)
    then show ?thesis
      using open_file.user_read_bytes [OF fat_disk_file.open_file_axioms refl l at(2,3) _ n at(4), where lf = lf and junk = junk and ret = ret and pst = pst and x = x1] at(1) assms(2) s1(2)
      by metis
  qed
  then show ?thesis using s1(1,2) by blast
qed

section \<open>An example\<close>

lemma readable_physical:
  assumes "SCTLR_EL1 (regs k) AND 1 = 0" and "bytes_at (kmem k) va (p @ [0])" and "region va (Suc (length p)) \<inter> X = {}" and "length p < 2 ^ 32"
  shows "readable_path k X va p"
  unfolding readable_path_def
proof (intro allI impI)
  fix m i
  assume w: "same_outside X (kmem k) m" and i: "i \<le> length p"
  have "va + of_nat i \<in> region va (Suc (length p))" by (rule region_offset) (use i assms(4) in simp_all)
  then have "m (va + of_nat i) = kmem k (va + of_nat i)" using same_outsideD [OF w] assms(3) by blast
  then show "vread (k\<lparr>kmem := m\<rparr>) (va + of_nat i) = Some ((p @ [0]) ! i)" using assms(1,2) i by (simp add: vread_def bytes_at_def)
qed

definition example_open_mem :: mem where
  \<comment> \<open>the volume of the earlier example with the directory at 0x11000, in which the file is \<open>A.TXT\<close>, the file system at 0x18000 and the
    string \<open>a.txt\<close> at 0x18100\<close>
  "example_open_mem = store64 (store64 (store64 (store_le 1 (store16 (store64 (store64 (store16 example_fat_mem (fld 0x10000 17) 1)
     (fld 0x10000 560) 0x11000) (fld 0x11000 0) 0x2020202020202041) (fld 0x11000 8) 0x5854) (fld 0x11000 10) (0x54 :: u8))
     (fld 0x18000 0) 0x90) (fld 0x18000 16) 0x10000) (fld 0x18100 0) 0x7478742e61"

abbreviation example_open_slab :: slab where
  "example_open_slab \<equiv> \<lparr>starting_address = 0x19000, max_store = 4, object_size = 40, header_size = 40\<rparr>"

abbreviation example_open_frame :: kernel_frame where
  "example_open_frame \<equiv> \<lparr>load_buffer = 0x14000, name_buffer = 0x1a000, ext_buffer = 0x1a100, handle_temp = 0, open_name = 0x1a200, open_ext = 0x1a300,
     elf_local = 0, char_local = 0x16000, page_slab_ptr = 0, kernel_paging_ptr = 0, disk_local = 0, req_local = 0, block_global = 0,
     lit_init_elf = 0, lit_init = 0, lit_syscall = 0\<rparr>"

abbreviation example_open_kernel :: kernel where
  "example_open_kernel \<equiv> job_example\<lparr>kmem := example_open_mem, main_heap := example_heap, current_job := 0x15000, inode_slab := example_open_slab,
     main_filesystem := 0x18000\<rparr>"

abbreviation example_open_state :: "example_dev \<times> machine" where
  "example_open_state \<equiv> ((0, 0), example_machine\<lparr>kern := example_open_kernel\<rparr>)"

lemma example_open_outside: "same_outside (region 0x10000 0x50000) example_virtio_mem example_open_mem"
  unfolding example_open_mem_def by (intro store_inside example_fat_outside; rule region_inside; simp add: fld_def)

lemma example_open_untouched:
  "same_outside (- region 0x15000 392) (\<lambda>_. 0) example_open_mem" "same_outside (- region 0x19000 40) (\<lambda>_. 0) example_open_mem"
  unfolding example_open_mem_def example_fat_mem_def example_virtio_mem_def disjoint_eq_subset_Compl [symmetric]
  by (intro store_inside same_outside_refl; unfold disjoint_eq_subset_Compl [symmetric]; rule regions_apart; simp add: fld_def)+

lemmas example_open_loads = example_open_mem_def example_loads

lemma example_open_bytes:
  "bytes_at example_open_mem 0x11000 [0x41, 0x20, 0x20, 0x20, 0x20, 0x20, 0x20, 0x20]" "bytes_at example_open_mem 0x11008 [0x54, 0x58, 0x54]"
  "bytes_at example_open_mem 0x18100 [0x61, 0x2e, 0x74, 0x78, 0x74, 0]"
  by (simp_all add: example_open_mem_def store_le_def fld_def drop_bit_eq_div unsigned_minus_1_eq_mask mask_eq_exp_minus_1)

lemma example_open_fields:
  "h_entries example_open_mem 0x10000 = 0x11000" "h_possible_root_entries example_open_mem 0x10000 = 1"
  "fs_open example_open_mem 0x18000 = 0x90" "fs_arguments example_open_mem 0x18000 = 0x10000"
  by (simp_all add: h_entries_def h_possible_root_entries_def fs_open_def fs_arguments_def example_open_loads)

lemma example_open_fat: "fat_file example_open_mem 0x10000 0x11000 0x40000 1 1024 [2, 3] 600"
proof -
  have "h_sectors_per_cluster example_open_mem 0x10000 = 1" by (simp add: h_sectors_per_cluster_def example_open_mem_def example_fat_mem_def store_le_def fld_def)
  moreover have "load16 example_open_mem (fld 0x40000 4) = 3" "h_bytes_per_sector example_open_mem 0x10000 = 512" "h_data_offset example_open_mem 0x10000 = 1024"
    "h_fat example_open_mem 0x10000 = 0x40000" "e_filesize_bytes example_open_mem 0x11000 = 600" "e_starting_cluster example_open_mem 0x11000 = 2"
    by (simp_all add: h_bytes_per_sector_def h_data_offset_def h_fat_def e_filesize_bytes_def e_starting_cluster_def example_open_loads)
  ultimately show ?thesis by (simp add: fat_file_def less_Suc_eq)
qed

lemma example_open_lookup: "lookup_entry example_open_mem 0x10000 [0x61] [0x74, 0x78, 0x74] = 0x11000"
proof -
  have seven: "replicate 7 (0x20 :: u8) = [0x20, 0x20, 0x20, 0x20, 0x20, 0x20, 0x20]" by (simp add: numeral_eq_Suc del: take_bit_numeral_numeral)
  have "fat_name_of 8 [0x61] = [0x41, 0x20, 0x20, 0x20, 0x20, 0x20, 0x20, 0x20]" "fat_name_of 3 [0x74, 0x78, 0x74] = [0x54, 0x58, 0x54]"
    by (simp_all add: fat_name_of_def fat_char_get_uppercase_def seven)
  then have "entry_named example_open_mem 0x10000 [0x61] [0x74, 0x78, 0x74] 0" using example_open_bytes(1,2) by (simp add: entry_named_def example_open_fields)
  then show ?thesis by (simp add: lookup_entry_def example_open_fields)
qed

lemma example_open_pool:
  "fs_ok example_open_kernel {} 3" "slab_live example_open_mem example_open_slab \<noteq> slab_slots example_open_slab" "pool_bytes example_open_slab \<subseteq> region 0x19000 200"
proof -
  have wf: "wf_slab example_open_slab"
    by (simp add: wf_slab_def slab_zone_ok_def slab_span_def slab_get_header_size_def slab_align_to_object_def c_int_small Let_def)
  show pool: "pool_bytes example_open_slab \<subseteq> region 0x19000 200" using pool_bytes_zone [OF wf, of 200] by (simp add: slab_zone_bytes_def)
  have "slab_live example_open_mem example_open_slab = slab_live (\<lambda>_. 0) example_open_slab"
    by (rule slab_pool.live_frame [OF wf example_open_untouched(2)]) (simp add: slab_header_def)
  also have "\<dots> = {}" by (simp add: slab_live_def slab_used_def slab_bit_def)
  finally show "slab_live example_open_mem example_open_slab \<noteq> slab_slots example_open_slab" by (simp add: slab_slots_def lessThan_empty_iff)
  have ok: "heap_ok example_virtio_mem example_heap {}" using example_virtio_ready [of example_sectors] by (simp add: world_def smem_def)
  have "heap_ok example_open_mem example_heap {}" by (rule heap_ok_off_rest [OF ok example_open_outside]) (use example_fat_space(1) in blast)
  moreover have "heap_table_apart example_heap" unfolding heap_table_apart_def by (rule regions_apart) simp_all
  moreover have "heap_room example_heap {} 3" unfolding heap_room_def by (rule exI [of _ 0]) (simp add: runs_taken_def)
  moreover have "region 0x19000 200 \<subseteq> region (0x10000 :: addr) 0x50000" by (rule region_inside) simp_all
  then have "pool_bytes example_open_slab \<inter> heap_rest example_heap {} = {}" using pool example_fat_space(1) by blast
  ultimately show "fs_ok example_open_kernel {} 3" using wf by (simp add: fs_ok_def)
qed

lemma example_open_places:
  "open_places example_open_frame 0x17000 0x15000 0x18000 example_open_slab (directory_bytes example_open_mem 0x10000 \<union> region 0x40000 131072) example_driver (heap_rest example_heap {})"
proof -
  have F: "heap_rest example_heap {} \<subseteq> region 0x1000 8 \<union> region 0x40200000 32768" by (auto simp: heap_rest_def table_bytes_def heap_bytes_def simp del: in_region)
  have W: "example_driver \<subseteq> region 0x8000 0x7000" unfolding virtio_own_def by (intro Un_least; rule region_inside; simp)
  have C: "{0x16000} \<subseteq> region (0x16000 :: addr) 1" by simp
  have "sets_apart [region (0x17000 :: addr) 256, region 0x15000 392, region 0x16000 1, region 0x1a200 10, region 0x1a300 10, region 0x1a000 8, region 0x1a100 3,
      region 0x14000 512, region 0x18000 24, region 0x19000 200, region 0x10000 584 \<union> region 0x11000 32 \<union> region 0x40000 131072, region 0x8000 0x7000,
      region 0x1000 8 \<union> region 0x40200000 32768]"
    by (simp add: Int_Un_distrib Int_Un_distrib2 regions_apart)
  moreover have "directory_bytes example_open_mem 0x10000 = region 0x10000 584 \<union> region 0x11000 32" by (simp add: directory_bytes_def example_open_fields)
  ultimately show ?thesis
    unfolding open_places_def fatfs_frame.select_convs fat_frame.select_convs kernel_frame.select_convs
    by (elim sets_apart_mono [rotated]) (use F W C example_open_pool(3) in simp)
qed

lemma example_open_ready:
  "open_ready example_symbols example_open_frame 0x17000 0x18100 [0x61] [0x74, 0x78, 0x74] 0x10000 (directory_bytes example_open_mem 0x10000 \<union> region 0x40000 131072)
     example_driver [] 0 {} 2 example_open_kernel"
proof -
  let ?X = "region 0x17000 256 \<union> slab_header example_open_slab \<union> region 0x1a200 10 \<union> region 0x1a300 10 :: addr set"
  have "region (0x18100 :: addr) 6 \<inter> ?X = {}" by (simp add: slab_header_def Int_Un_distrib regions_apart)
  moreover have "Suc (length ([0x61] @ [0x2e] @ [0x74, 0x78, 0x74 :: u8])) = 6" by simp
  ultimately have "region (0x18100 :: addr) (Suc (length ([0x61] @ [0x2e] @ [0x74, 0x78, 0x74 :: u8]))) \<inter> ?X = {}" by (simp only:)
  then have "readable_path example_open_kernel ?X 0x18100 ([0x61] @ [0x2e] @ [0x74, 0x78, 0x74])"
    by (rule readable_physical [rotated 2]) (use example_open_bytes(3) in simp_all)
  then have "named_file example_open_kernel ?X 0x18100 [0x61] [0x74, 0x78, 0x74]" by (simp add: named_file_def)
  moreover have "job_at example_open_mem 0x15000 = job_at (\<lambda>_. 0) 0x15000" by (rule job_at_frame [OF example_open_untouched(1)]) simp
  moreover have "files_ok (job_at (\<lambda>_. 0) 0x15000) [] 0"
  proof -
    have "get_file (\<lambda>_. 0) 0x15000 = (\<lambda>_. NULL)" by (simp add: get_file_def [abs_def] load_le_zero)
    then show ?thesis by (simp add: files_ok_def job_at_def get_count_def load_le_zero map_replicate_const)
  qed
  ultimately show ?thesis
    using example_open_pool(1,2) example_open_places example_open_fields by (simp add: open_ready_def del: in_region)
qed

theorem user_opens_and_reads_witness:
  "\<forall>lf junk ret pst. \<exists>x1 st1 x' st' cs. sys_open (svc example_symbols example_disk_block lf example_open_frame junk (fld 0x17000 256) ret pst)
      (of_nat, example_open_state) 0x18100 = Some ((x1, st1), 0) \<and>
    user_read 600 (svc example_symbols example_disk_block lf example_open_frame junk (fld 0x17000 256) ret pst) (x1, st1) 0 = Some ((x', st'), cs) \<and>
    cs ! 599 = 90 \<and> x' 7 = 7"
proof (intro allI)
  fix lf junk ret pst
  let ?r = "example_idle example_sectors 0x15000"
  let ?sv = "svc example_symbols example_disk_block lf example_open_frame junk (fld 0x17000 256) ret pst"
  note dev = example_device [of "0x15000"]
  have cur: "\<forall>i st. ?r i st \<longrightarrow> current_job (kget st) = 0x15000" by (simp add: virtio_idle_def kget_def)
  have "example_idle example_sectors NULL 1024 ((0, 0), example_machine)" using example_virtio_ready [of example_sectors] by (simp add: world_def)
  moreover have "same_outside (- example_driver) (smem ((0, 0) :: example_dev, example_machine)) example_open_mem"
    by (simp add: smem_def, rule same_outside_mono [OF example_open_outside]) (use example_fat_space(1) in blast)
  ultimately have "example_idle example_sectors NULL 1024 (set_heap ((0, 0), example_machine) example_open_mem example_heap)"
    by (rule virtio_idle_stable)
  then have "?r 2 example_open_state" by (auto simp: virtio_idle_def set_heap_def smem_def)
  then have rdy: "?r (requests 1 1024 * ceil_div 600 512) example_open_state" by (simp add: requests_def ceil_div_def numeral_2_eq_2)
  have k: "kget example_open_state = example_open_kernel" "smem example_open_state = example_open_mem" by (simp_all add: kget_def smem_def)
  have two: "ceil_div (512 * 1) 4096 + 1 = 2" by (simp add: ceil_div_def)
  have ready: "open_ready example_symbols example_open_frame 0x17000 0x18100 [0x61] [0x74, 0x78, 0x74] 0x10000
      (directory_bytes (smem example_open_state) 0x10000 \<union> region 0x40000 131072) example_driver [] 0 {} (ceil_div (512 * 1) 4096 + 1) (kget example_open_state)"
    unfolding k two by (rule example_open_ready)
  have e: "0x11000 = lookup_entry (smem example_open_state) 0x10000 [0x61] [0x74, 0x78, 0x74]" unfolding k by (rule example_open_lookup [symmetric])
  have "\<exists>x1 st1. sys_open ?sv (of_nat, example_open_state) 0x18100 = Some ((x1, st1), int (length ([] :: addr list))) \<and> (\<forall>i \<in> {1..30}. x1 i = of_nat i) \<and>
    ((0x11000 :: addr) \<noteq> NULL \<longrightarrow> (\<exists>x' st'. user_read 600 ?sv (x1, st1) (int (length ([] :: addr list))) =
      Some ((x', st'), map (file_byte example_sectors 1 1024 [2, 3]) [0..<600]) \<and> (\<forall>i \<in> {1..30}. x' i = of_nat i)))"
    by (rule user_opens_and_reads [OF dev cur _ ready rdy e]) (use example_open_fat in \<open>simp_all add: smem_def\<close>)
  then obtain x1 st1 x' st' where "sys_open ?sv (of_nat, example_open_state) 0x18100 = Some ((x1, st1), 0)" "x' 7 = 7"
    "user_read 600 ?sv (x1, st1) 0 = Some ((x', st'), map (file_byte example_sectors 1 1024 [2, 3]) [0..<600])" by fastforce
  moreover have "map (file_byte example_sectors 1 1024 [2, 3]) [0..<600] ! 599 = 90" by (simp add: file_byte_def disk_byte_def)
  ultimately show "\<exists>x1 st1 x' st' cs. sys_open ?sv (of_nat, example_open_state) 0x18100 = Some ((x1, st1), 0) \<and>
    user_read 600 ?sv (x1, st1) 0 = Some ((x', st'), cs) \<and> cs ! 599 = 90 \<and> x' 7 = 7" by metis
qed

end
