(* ===== verification/Program_Output.thy ===== *)
theory Program_Output
  imports System_Calls
begin

text \<open>
  The log of user programs and their end: the system calls 11 and 10 from the program's side.
\<close>

section \<open>Strings of a user program\<close>

definition kernel_half :: "addr set" where
  "kernel_half = {p. p < JOB_BASE_USER}"

definition user_text :: "kernel \<Rightarrow> addr \<Rightarrow> u8 list \<Rightarrow> bool" where
  \<comment> \<open>the program's string is readable through its translation tables\<close>
  "user_text k va s \<longleftrightarrow> 0 \<notin> set s \<and> length s < 2 ^ 31 \<and> region va (Suc (length s)) \<inter> kernel_half = {} \<and>
     (\<forall>i \<le> length s. vread k (va + of_nat i) = Some ((s @ [0]) ! i))"

lemma vstrlen_loop_text:
  assumes "\<forall>i \<le> length s. vread k (va + of_nat i) = Some ((s @ [0]) ! i)" and "0 \<notin> set s" and "n + length s < 2 ^ 31"
  shows "vstrlen_loop k va (int n) = Some (int (n + length s))"
  using assms
proof (induction s arbitrary: va n)
  case Nil
  then show ?case by (subst vstrlen_loop.simps) simp
next
  case (Cons c s)
  have "vread k va = Some c" using Cons.prems(1) [rule_format, of 0] by simp
  moreover have "vread k (va + 1 + of_nat i) = Some ((s @ [0]) ! i)" if "i \<le> length s" for i
    using Cons.prems(1) [rule_format, of "Suc i"] that by (simp add: add.assoc)
  then have "vstrlen_loop k (va + 1) (int (Suc n)) = Some (int (Suc n + length s))" using Cons.prems(2,3) by (intro Cons.IH) simp_all
  moreover have "int_res (int n + 1) = Some (int (Suc n))" using Cons.prems(3) by (simp add: int_res_small)
  ultimately show ?case using Cons.prems(2) by (subst vstrlen_loop.simps) simp
qed

lemma vstrlen_text: "user_text k va s \<Longrightarrow> vstrlen k va = Some (int (length s))"
  using vstrlen_loop_text [of s k va 0] by (simp add: user_text_def vstrlen_def)

definition log_view :: "kernel \<Rightarrow> mem" where
  \<comment> \<open>the memory as the log function sees it\<close>
  "log_view k = (\<lambda>va. if va < JOB_BASE_USER then kmem k va else (case vread k va of None \<Rightarrow> 0 | Some c \<Rightarrow> c))"

lemma log_view_kernel: "same_outside (- kernel_half) (kmem k) (log_view k)"
  by (simp add: same_outside_def kernel_half_def log_view_def)

lemma log_view_text:
  assumes "user_text k va s"
  shows "str_at (log_view k) va s"
proof -
  note u = assms [unfolded user_text_def]
  have "log_view k (va + of_nat i) = (s @ [0]) ! i" if "i \<le> length s" for i
  proof -
    have "va + of_nat i \<in> region va (Suc (length s))" by (rule region_offset) (use that u in simp_all)
    then have "\<not> va + of_nat i < JOB_BASE_USER" using u by (auto simp: kernel_half_def simp del: in_region)
    then show ?thesis using u that by (simp add: log_view_def)
  qed
  then show ?thesis using u by (simp add: str_at_def bytes_at_def)
qed

section \<open>The log\<close>

definition syscall_format :: "u8 list" where
  \<comment> \<open>the literal of the handler: percent s in quotes, a colon, a space, percent s in quotes\<close>
  "syscall_format = [0x27, 0x25, 0x73, 0x27, 0x3a, 0x20, 0x27, 0x25, 0x73, 0x27]"

definition program_line :: "u8 list \<Rightarrow> u8 list \<Rightarrow> u8 list" where
  "program_line name s = [0x27] @ name @ [0x27, 0x3a, 0x20, 0x27] @ s @ [0x27]"

lemma syscall_format_len: "Suc (length syscall_format) = 11" "length syscall_format = 10"
  by (simp_all add: syscall_format_def)

lemma program_line_ref: "fmt_ref syscall_format [Str name, Str s] = Some (program_line name s)"
  by (simp add: syscall_format_def program_line_def)

definition syslog_area :: "nat \<Rightarrow> nat \<Rightarrow> log_frame \<Rightarrow> kernel_frame \<Rightarrow> addr \<Rightarrow> addr set" where
  \<comment> \<open>all that the log reads or writes in the kernel\<close>
  "syslog_area B L lf f job = klogf_bytes B L lf \<union> region (lit_syscall f) 11 \<union> region job 392 \<union> region (lit_prefix lf) 6 \<union> region (lit_newline lf) 2"

definition syslog_ready :: "nat \<Rightarrow> nat \<Rightarrow> log_frame \<Rightarrow> kernel_frame \<Rightarrow> mem \<Rightarrow> addr \<Rightarrow> u8 list \<Rightarrow> bool" where
  \<comment> \<open>the literals and the name of the job are in place, and with the buffers of the log in the kernel's half of the
    address space, at separate places; \<open>L\<close> and \<open>B\<close> are as in \<open>klogf_bytes\<close>\<close>
  "syslog_ready B L lf f m job name \<longleftrightarrow>
     log_frame_ok B lf m (klogf_buffer lf) L \<and> 40 \<le> L \<and> L < 2 ^ 31 \<and> B < 2 ^ 31 \<and>
     (\<forall>p \<in> region (klogf_buffer lf + 40) (L - 40). m p = 0) \<and>
     str_at m (lit_syscall f) syscall_format \<and> str_at m job name \<and> length name < 30 \<and>
     (region (lit_syscall f) 11 \<union> region job 392) \<inter> klogf_bytes B L lf = {} \<and>
     syslog_area B L lf f job \<subseteq> kernel_half"

lemma syslog_ready_frame:
  assumes "syslog_ready B L lf f m job name" and w: "same_outside X m m'"
    and off: "X \<inter> syslog_area B L lf f job = {}"
  shows "syslog_ready B L lf f m' job name"
proof -
  note r = assms(1) [unfolded syslog_ready_def log_frame_ok_def] and ap = off [unfolded syslog_area_def]
  have "region job (Suc (length name)) \<subseteq> region job 392" by (rule region_mono) (use r in simp)
  then have "region job (Suc (length name)) \<inter> X = {}" using ap by blast
  then have "str_at m' job name = str_at m job name" by (rule str_at_same_outside [OF w]) (use r in simp)
  moreover have "str_at m' (lit_syscall f) syscall_format = str_at m (lit_syscall f) syscall_format"
    by (rule str_at_same_outside [OF w]) (use ap in \<open>auto simp: syscall_format_len simp del: in_region\<close>)
  moreover have "str_at m' (lit_prefix lf) prefix_format = str_at m (lit_prefix lf) prefix_format"
    by (rule str_at_same_outside [OF w]) (use ap in \<open>auto simp: prefix_format_len simp del: in_region\<close>)
  moreover have two: "Suc (length [0x0a :: u8]) = 2" by simp
  moreover have "str_at m' (lit_newline lf) [0x0a] = str_at m (lit_newline lf) [0x0a]"
    by (rule str_at_same_outside [OF w]) (use ap in \<open>unfold two, blast\<close>, simp)
  moreover have "m' p = 0" if "p \<in> region (klogf_buffer lf + 40) (L - 40)" for p
  proof -
    have "region (klogf_buffer lf + of_nat 40) (L - 40) \<subseteq> region (klogf_buffer lf) L" by (rule region_sub) (use r in simp_all)
    then have "p \<in> klogf_bytes B L lf" using that by (auto simp: klogf_bytes_def sp_written_def simp del: in_region)
    then have "p \<notin> X" using ap by blast
    then show ?thesis using same_outsideD [OF w] r that by simp
  qed
  ultimately show ?thesis using r unfolding syslog_ready_def log_frame_ok_def by blast
qed

lemma internal_log_prints:
  assumes rdy: "syslog_ready B L lf f (smem st) (job_get_current (kget st)) name" and ut: "user_text (kget st) (REG (smem st) x30 0) s"
    and d: "length (num_str 10 (unat (timer_read_systemcounter_usec (tim (snd st))))) \<le> 11"
    and len: "length (program_line name s) < L" "length (klog_text (tim (snd st)) (program_line name s)) < B"
  obtains m where "exceptions_internal_log lf f st x30 =
      Some (fst st, (snd st)\<lparr>kern := (kget st)\<lparr>kmem := m\<rparr>, console := console (snd st) @ klog_text (tim (snd st)) (program_line name s)\<rparr>)"
    and "str_at m (klogf_buffer lf) (program_line name s)" and "same_outside (klogf_bytes B L lf) (smem st) m"
proof -
  let ?k = "kget st" and ?v = "log_view (kget st)" and ?job = "job_get_current (kget st)" and ?msg = "REG (smem st) x30 0" and ?V = "klogf_bytes B L lf"
  note r = rdy [unfolded syslog_ready_def] and u = ut [unfolded user_text_def]
  have km: "kmem ?k = smem st" by (simp add: kget_def smem_def)
  have area: "syslog_area B L lf f ?job \<subseteq> kernel_half" using r by (elim conjE)
  then have half: "?V \<subseteq> kernel_half" unfolding syslog_area_def by blast
  have off: "(region (lit_syscall f) 11 \<union> region ?job 392) \<inter> ?V = {}" using r by (elim conjE)
  have "syslog_ready B L lf f ?v ?job name"
    by (rule syslog_ready_frame [OF rdy log_view_kernel [of ?k, unfolded km]]) (use area in blast)
  note v = this [unfolded syslog_ready_def]
  have ms: "region ?msg (Suc (length s)) \<inter> kernel_half = {}" using u by (elim conjE)
  have nm: "region ?job (Suc (length name)) \<subseteq> region ?job 392" by (rule region_mono) (use r in simp)
  have "region ?job (Suc (length name)) \<inter> ?V = {}" using nm off by blast
  moreover have "region ?msg (Suc (length s)) \<inter> ?V = {}" using ms half by blast
  moreover have "str_at ?v ?job name" "length name < 2 ^ 31" "length s < 2 ^ 31" using v u by simp_all
  ultimately have args: "list_all2 (arg_at ?v ?V) [Str name, Str s] [fld ?job 0, ?msg]" using log_view_text [OF ut] by simp
  have fmt: "region (lit_syscall f) (Suc (length syscall_format)) \<inter> ?V = {}" unfolding syscall_format_len(1) by (rule disj_sub [OF _ off]) blast
  have vl: "log_frame_ok B lf ?v (klogf_buffer lf) L" "40 \<le> L" "L < 2 ^ 31" "B < 2 ^ 31"
    "\<forall>p \<in> region (klogf_buffer lf + 40) (L - 40). ?v p = 0" "str_at ?v (lit_syscall f) syscall_format" by (rule v [THEN conjunct1] | insert v, elim conjE, assumption)+
  obtain m where m: "klogf lf (tim (snd st)) ?v (console (snd st)) (lit_syscall f) [fld ?job 0, ?msg] =
      Some (m, console (snd st) @ klog_text (tim (snd st)) (program_line name s))" "str_at m (klogf_buffer lf) (program_line name s)"
    "same_outside ?V ?v m"
    by (rule klogf_eq [OF vl fmt _ args program_line_ref len(1) d len(2)]) (simp add: syscall_format_len)
  let ?m = "\<lambda>p. if p < JOB_BASE_USER then m p else kmem ?k p"
  have "?m p = smem st p" if "p \<notin> ?V" for p
    using same_outsideD [OF m(3) that] km by (simp add: log_view_def)
  then have w: "same_outside ?V (smem st) ?m" by (simp add: same_outside_def)
  have "region (klogf_buffer lf) (Suc (length (program_line name s))) \<subseteq> region (klogf_buffer lf) L" by (rule region_mono) (use len(1) in simp)
  then have b: "region (klogf_buffer lf) (Suc (length (program_line name s))) \<inter> - kernel_half = {}"
    using half by (auto simp: klogf_bytes_def sp_written_def simp del: in_region)
  have "same_outside (- kernel_half) m ?m" by (simp add: same_outside_def kernel_half_def)
  then have "str_at ?m (klogf_buffer lf) (program_line name s) = str_at m (klogf_buffer lf) (program_line name s)"
    by (rule str_at_same_outside [OF _ b]) (use len(1) r in simp)
  moreover have "exceptions_internal_log lf f st x30 =
      Some (fst st, (snd st)\<lparr>kern := ?k\<lparr>kmem := ?m\<rparr>, console := console (snd st) @ klog_text (tim (snd st)) (program_line name s)\<rparr>)"
    using m(1) vstrlen_text [OF ut] km by (simp add: exceptions_internal_log_def log_view_def Let_def)
  ultimately show thesis using that [of ?m] m(2) w by blast
qed

lemma user_text_regs: "user_text (k\<lparr>regs := (regs k)\<lparr>ELR_EL1 := a, SPSR_EL1 := b\<rparr>\<rparr>) va s = user_text k va s"
  by (simp add: user_text_def vread_def)

lemma sys_log_prints:
  assumes rdy: "syslog_ready B L lf f (smem st) job name" and cur: "job_get_current (kget st) = job"
    and readable: "\<forall>m. same_outside (region x30 256) (smem st) m \<longrightarrow> user_text ((kget st)\<lparr>kmem := m\<rparr>) msg s"
    and ap: "region x30 256 \<inter> syslog_area B L lf f job = {}"
    and d: "length (num_str 10 (unat (timer_read_systemcounter_usec (tim (snd st))))) \<le> 11"
    and len: "length (program_line name s) < L" "length (klog_text (tim (snd st)) (program_line name s)) < B"
  obtains x' st' where "sys_log (svc sy blk lf f junk (fld x30 256) ret pst) (x, st) msg = Some (x', st')" and "\<forall>i \<in> {1..30}. x' i = x i"
    and "console (snd st') = console (snd st) @ klog_text (tim (snd st)) (program_line name s)"
    and "kget st' = (kget st)\<lparr>kmem := smem st', regs := regs (kget st')\<rparr>" and "str_at (smem st') (klogf_buffer lf) (program_line name s)"
    and "same_outside (region x30 256 \<union> klogf_bytes B L lf) (smem st) (smem st')"
proof -
  let ?V = "klogf_bytes B L lf" and ?line = "program_line name s"
  let ?Q = "\<lambda>x2 st2. x2 = x(0 := msg) \<and> console (snd st2) = console (snd st) @ klog_text (tim (snd st)) ?line \<and>
    kget st2 = (kget st)\<lparr>kmem := smem st2, regs := regs (kget st2)\<rparr> \<and> str_at (smem st2) (klogf_buffer lf) ?line \<and>
    same_outside (region x30 256 \<union> ?V) (smem st) (smem st2)"
  have "\<exists>x' x2 st2. svc sy blk lf f junk (fld x30 256) ret pst 11 (x(0 := msg), st) = Some (x', st2) \<and> (\<forall>i \<le> 30. x' i = x2 i) \<and> ?Q x2 st2"
  proof (rule svc_run)
    fix m
    assume fr: "frame_at m x30 (x(0 := msg))" and w: "same_outside (region x30 256) (smem st) m"
    let ?st = "set_smem (svc_entry ret pst 11 st) m"
    have st: "smem ?st = m" "job_get_current (kget ?st) = job" "tim (snd ?st) = tim (snd st)" "console (snd ?st) = console (snd st)"
      using cur by (simp_all add: job_get_current_def svc_entry_def) (simp_all add: set_smem_def set_regs_def)
    have rdy1: "syslog_ready B L lf f (smem ?st) (job_get_current (kget ?st)) name" unfolding st by (rule syslog_ready_frame [OF rdy w ap])
    let ?k = "(kget st)\<lparr>kmem := m\<rparr>"
    have "kget ?st = ?k\<lparr>regs := (regs ?k)\<lparr>ELR_EL1 := ret 11, SPSR_EL1 := pst\<rparr>\<rparr>" by (simp add: svc_entry_def)
    then have "user_text (kget ?st) msg s" using readable w by (simp only: user_text_regs)
    then have ut: "user_text (kget ?st) (REG (smem ?st) x30 0) s" using frame_REG [OF fr] by simp
    obtain m1 where m1: "exceptions_internal_log lf f ?st x30 =
        Some (fst ?st, (snd ?st)\<lparr>kern := (kget ?st)\<lparr>kmem := m1\<rparr>, console := console (snd ?st) @ klog_text (tim (snd ?st)) ?line\<rparr>)"
      "str_at m1 (klogf_buffer lf) ?line" "same_outside ?V (smem ?st) m1"
      by (rule internal_log_prints [OF rdy1 ut]) (use d len in \<open>simp_all only: st\<close>)
    let ?st1 = "(fst ?st, (snd ?st)\<lparr>kern := (kget ?st)\<lparr>kmem := m1\<rparr>, console := console (snd ?st) @ klog_text (tim (snd ?st)) ?line\<rparr>)"
    let ?st2 = "set_regs ?st1 ((regs (kget ?st1))\<lparr>ELR_EL1 := ELR_EL1 (regs (kget ?st)), SPSR_EL1 := SPSR_EL1 (regs (kget ?st))\<rparr>)"
    have "exceptions_handle_syscall sy blk lf f junk 11 ?st x30 = Some (?st2, True)"
      using m1(1) by (simp add: exceptions_handle_syscall_def kput_regs del: kget_set)
    moreover have m2: "smem ?st2 = m1" by (simp add: smem_def set_regs_def)
    moreover have "frame_at m1 x30 (x(0 := msg))"
      by (rule frame_at_kept [OF fr m1(3) [unfolded st(1)]]) (use ap in \<open>unfold syslog_area_def, blast\<close>)
    moreover have "same_outside (region x30 256 \<union> ?V) (smem st) m1"
      by (rule same_outside_trans [OF same_outside_mono [OF w] same_outside_mono [OF m1(3) [unfolded st(1)]]]) blast+
    moreover have "console (snd ?st2) = console (snd st) @ klog_text (tim (snd st)) ?line" using st(3,4) by (simp add: set_regs_def)
    moreover have "kget ?st2 = (kget st)\<lparr>kmem := m1, regs := regs (kget ?st2)\<rparr>" by (simp add: kget_def svc_entry_def set_smem_def set_regs_def)
    ultimately show "\<exists>st2 x2. exceptions_handle_syscall sy blk lf f junk 11 ?st x30 = Some (st2, True) \<and> frame_at (smem st2) x30 x2 \<and> ?Q x2 st2"
      using m1(2) by (intro exI [of _ ?st2] exI [of _ "x(0 := msg)"]) simp
  qed
  then obtain x' st2 where "svc sy blk lf f junk (fld x30 256) ret pst 11 (x(0 := msg), st) = Some (x', st2)" "\<forall>i \<le> 30. x' i = (x(0 := msg)) i"
    "?Q (x(0 := msg)) st2" by blast
  then show thesis using that [of x' st2] by (simp add: sys_log_def)
qed

section \<open>The end of a program\<close>

lemma jobs_heap_set_regs: "jobs_heap (k\<lparr>regs := r\<rparr>) R js = jobs_heap k R js"
  by (simp add: jobs_heap_def)

lemma svc_exit:
  assumes inv: "jobs_heap (kget st) R (c # rest)" and ap: "region x30 256 \<inter> ring_bytes (kget st) = {}"
  obtains x' st' where "svc sy blk lf f junk (fld x30 256) ret pst 10 (x, st) = Some (x', st')" and "jobs_heap (kget st') R (c # rest)"
    and "get_status (smem st') c = TERMINATED" and "\<forall>j \<in> set rest. job_at (smem st') j = job_at (smem st) j"
    and "console (snd st') = console (snd st)" and "same_outside (region x30 256 \<union> region c 392) (smem st) (smem st')"
proof -
  let ?Q = "\<lambda>x2 st2. jobs_heap (kget st2) R (c # rest) \<and> get_status (smem st2) c = TERMINATED \<and>
    (\<forall>j \<in> set rest. job_at (smem st2) j = job_at (smem st) j) \<and> console (snd st2) = console (snd st) \<and>
    same_outside (region x30 256 \<union> region c 392) (smem st) (smem st2)"
  have km: "kmem (kget st) = smem st" for st :: "'a \<times> machine" by (simp add: kget_def smem_def)
  have "\<exists>x' x2 st2. svc sy blk lf f junk (fld x30 256) ret pst 10 (x, st) = Some (x', st2) \<and> (\<forall>i \<le> 30. x' i = x2 i) \<and> ?Q x2 st2"
  proof (rule svc_run)
    fix m
    assume fr: "frame_at m x30 x" and w: "same_outside (region x30 256) (smem st) m"
    let ?st = "set_smem (svc_entry ret pst 10 st) m"
    note off = jobs_heap_off [OF inv w [folded km] ap]
    have k: "kget ?st = ((kget st)\<lparr>kmem := m\<rparr>)\<lparr>regs := regs (kget ?st)\<rparr>" by (simp add: svc_entry_def)
    have inv1: "jobs_heap (kget ?st) R (c # rest)" using off(2) by (subst k) (simp only: jobs_heap_set_regs)
    note t = job_terminate_ring [OF inv1]
    let ?k = "job_terminate (kget ?st)"
    let ?st2 = "set_regs (kput ?st ?k) ((regs ?k)\<lparr>ELR_EL1 := ELR_EL1 (regs (kget ?st)), SPSR_EL1 := SPSR_EL1 (regs (kget ?st))\<rparr>)"
    have kp: "kget (kput st k) = k" for st :: "'a \<times> machine" and k by (simp add: kget_def kput_def)
    have run: "exceptions_handle_syscall sy blk lf f junk 10 ?st x30 = Some (?st2, True)"
      by (simp add: exceptions_handle_syscall_def flip: kput_regs) (simp add: kp Let_def)
    have sm: "smem ?st2 = kmem ?k" by (simp add: smem_def kput_def set_regs_def)
    have cur: "current_job (kget ?st) = c" by (rule jobs_heap_current [OF inv1])
    have wc: "same_outside (region c 392) m (kmem ?k)"
      using same_outside_mono [OF set_outside(1) [of c m TERMINATED] job_fields_sub] cur by (simp add: job_terminate_def)
    have c: "region c 392 \<subseteq> ring_bytes (kget st)" by (rule job_in_ring(1) [OF inv]) simp
    have fr2: "frame_at (kmem ?k) x30 x" by (rule frame_at_kept [OF fr wc]) (use c ap in blast)
    have "jobs_heap (kget ?st2) R (c # rest)" using t(1) by (simp add: kp jobs_heap_set_regs)
    moreover have "get_status (smem ?st2) c = TERMINATED" unfolding sm by (rule t(2))
    moreover have "\<forall>j \<in> set rest. job_at (smem ?st2) j = job_at (smem st) j"
      unfolding sm using t(3) off(1) by (simp add: km)
    moreover have "console (snd ?st2) = console (snd st)" by (simp add: set_regs_def kput_def set_smem_def svc_entry_def)
    moreover have "same_outside (region x30 256 \<union> region c 392) (smem st) (smem ?st2)"
      unfolding sm by (rule same_outside_trans [OF same_outside_mono [OF w] same_outside_mono [OF wc]]) blast+
    ultimately show "\<exists>st2 x2. exceptions_handle_syscall sy blk lf f junk 10 ?st x30 = Some (st2, True) \<and> frame_at (smem st2) x30 x2 \<and> ?Q x2 st2"
      using run fr2 sm by metis
  qed
  then show thesis using that by blast
qed

section \<open>The program hello\<close>

text \<open>
  The run of \<open>hello\<close> when \<open>klogf\<close> uses \<open>L\<close> bytes from its array on and \<open>klog\<close> uses \<open>B\<close>. For \<open>L\<close> above 40 or \<open>B\<close> above
  50 this assumes that the bytes behind the arrays belong to nothing else and that those behind the first are zero.
\<close>
lemma hello_run:
  assumes "jobs_heap (kget st) R (c # rest)" and "syslog_ready B L lf f (smem st) c name"
    and "\<forall>m. same_outside (region x30 256) (smem st) m \<longrightarrow> user_text ((kget st)\<lparr>kmem := m\<rparr>) msg s"
    and "region x30 256 \<inter> (syslog_area B L lf f c \<union> ring_bytes (kget st)) = {}" and "klogf_bytes B L lf \<inter> ring_bytes (kget st) = {}"
    and "length (num_str 10 (unat (timer_read_systemcounter_usec (tim (snd st))))) \<le> 11"
    and "length (program_line name s) < L" and "length (klog_text (tim (snd st)) (program_line name s)) < B"
  shows "\<exists>x' st'. start_program (hello_main msg) (svc sy blk lf f junk (fld x30 256) ret pst) (x, st) = Some (x', st') \<and>
    console (snd st') = console (snd st) @ klog_text (tim (snd st)) (program_line name s) \<and>
    jobs_heap (kget st') R (c # rest) \<and> get_status (smem st') c = TERMINATED \<and> (\<forall>j \<in> set rest. job_at (smem st') j = job_at (smem st) j) \<and>
    str_at (smem st') (klogf_buffer lf) (program_line name s)"
proof -
  let ?sv = "svc sy blk lf f junk (fld x30 256) ret pst" and ?V = "klogf_bytes B L lf"
  have km: "kmem (kget st) = smem st" by (simp add: kget_def smem_def)
  have cur: "job_get_current (kget st) = c" using jobs_heap_current [OF assms(1)] by (simp add: job_get_current_def)
  have ap: "region x30 256 \<inter> syslog_area B L lf f c = {}" "(region x30 256 \<union> ?V) \<inter> ring_bytes (kget st) = {}" using assms(4,5) by blast+
  obtain x1 st1 where l: "sys_log ?sv (x, st) msg = Some (x1, st1)" "\<forall>i \<in> {1..30}. x1 i = x i"
    "console (snd st1) = console (snd st) @ klog_text (tim (snd st)) (program_line name s)"
    "kget st1 = (kget st)\<lparr>kmem := smem st1, regs := regs (kget st1)\<rparr>" "str_at (smem st1) (klogf_buffer lf) (program_line name s)"
    "same_outside (region x30 256 \<union> ?V) (smem st) (smem st1)"
    by (rule sys_log_prints [OF assms(2) cur assms(3) ap(1) assms(6-8)])
  note off = jobs_heap_off [OF assms(1) l(6) [folded km] ap(2)]
  have inv1: "jobs_heap (kget st1) R (c # rest)" using off(2) by (subst l(4)) (simp add: jobs_heap_def)
  have ring1: "ring_bytes (kget st1) = ring_bytes (kget st)" by (subst l(4)) (simp add: ring_bytes_def)
  have ap1: "region x30 256 \<inter> ring_bytes (kget st1) = {}" unfolding ring1 using ap(2) by blast
  obtain x2 st2 where e: "?sv 10 (x1, st1) = Some (x2, st2)" "jobs_heap (kget st2) R (c # rest)" "get_status (smem st2) c = TERMINATED"
    "\<forall>j \<in> set rest. job_at (smem st2) j = job_at (smem st1) j" "console (snd st2) = console (snd st1)"
    "same_outside (region x30 256 \<union> region c 392) (smem st1) (smem st2)"
    by (rule svc_exit [OF inv1 ap1])
  have c: "region c 392 \<subseteq> ring_bytes (kget st)" by (rule job_in_ring(1) [OF assms(1)]) simp
  have "region (klogf_buffer lf) (Suc (length (program_line name s))) \<subseteq> region (klogf_buffer lf) L" by (rule region_mono) (use assms(7) in simp)
  then have V: "region (klogf_buffer lf) (Suc (length (program_line name s))) \<subseteq> ?V" by (auto simp: klogf_bytes_def sp_written_def simp del: in_region)
  have "?V \<inter> (region x30 256 \<union> region c 392) = {}" using ap(1) assms(5) c unfolding syslog_area_def by blast
  then have "region (klogf_buffer lf) (Suc (length (program_line name s))) \<inter> (region x30 256 \<union> region c 392) = {}" using V by blast
  then have "str_at (smem st2) (klogf_buffer lf) (program_line name s)"
    using l(5) assms(2,7) by (subst str_at_same_outside [OF e(6)]) (simp_all add: syslog_ready_def)
  moreover have "start_program (hello_main msg) ?sv (x, st) = Some (x2, st2)" using l(1) e(1) by (simp add: start_program_def hello_main_def)
  moreover have "\<forall>j \<in> set rest. job_at (smem st2) j = job_at (smem st) j" using e(4) off(1) by (simp add: km)
  ultimately show ?thesis using e(2,3,5) l(3) by (intro exI [of _ x2] exI [of _ st2]) simp
qed

text \<open>
  The line of this program, started as \<open>hello.elf\<close>, has 42 characters, and \<open>klogf\<close> writes it into an array of 40 bytes: the byte
  behind the array becomes a byte of the line.
\<close>
lemma hello_overruns:
  assumes "jobs_heap (kget st) R (c # rest)" and "syslog_ready B L lf f (smem st) c (map of_char ''hello.elf'')"
    and "\<forall>m. same_outside (region x30 256) (smem st) m \<longrightarrow> user_text ((kget st)\<lparr>kmem := m\<rparr>) msg (map of_char ''Hello from spawned process!'')"
    and "region x30 256 \<inter> (syslog_area B L lf f c \<union> ring_bytes (kget st)) = {}" and "klogf_bytes B L lf \<inter> ring_bytes (kget st) = {}"
    and "length (num_str 10 (unat (timer_read_systemcounter_usec (tim (snd st))))) \<le> 11" and "42 < L" and "64 < B"
  shows "\<exists>x' st'. start_program (hello_main msg) (svc sy blk lf f junk (fld x30 256) ret pst) (x, st) = Some (x', st') \<and>
    smem st' (klogf_buffer lf + 40) = of_char (CHR ''!'')"
proof -
  let ?line = "program_line (map of_char ''hello.elf'') (map of_char ''Hello from spawned process!'')"
  have len: "length ?line < L" "length (klog_text (tim (snd st)) ?line) < B"
    using assms(6-8) by (simp_all add: program_line_def klog_text_def)
  obtain x' st' where r: "start_program (hello_main msg) (svc sy blk lf f junk (fld x30 256) ret pst) (x, st) = Some (x', st')"
    "str_at (smem st') (klogf_buffer lf) ?line"
    using hello_run [OF assms(1-6) len, of sy blk junk ret pst x] by blast
  have "smem st' (klogf_buffer lf + of_nat 40) = (?line @ [0]) ! 40"
    using r(2) unfolding str_at_def bytes_at_def by (elim conjE) (erule allE [of _ 40], simp add: program_line_def)
  then have "smem st' (klogf_buffer lf + 40) = of_char (CHR ''!'')" by (simp add: program_line_def)
  with r(1) show ?thesis by blast
qed

section \<open>Properties\<close>

text \<open>
  C9. The program \<open>hello\<close>, from \<open>_start\<close> to its end, when its line fits the arrays of the log: the system call 11 prints the time,
  the name of the job and the program's text on the serial port and comes back behind the instruction; the system call 10
  makes the job TERMINATED; the ring of the jobs stays well formed and no other job changes. The hypotheses: the line is
  shorter than the 40 bytes of the array in \<open>klogf\<close>, the line with the time is shorter than the 50 bytes of the array in \<open>klog\<close>
  and the time has at most eleven digits; these arrays, the literals and the job lie at separate places below the user's half of
  the address space, off the pushed registers and the ring; the text is readable through the translation tables.
  (The line of this program under the name \<open>hello.elf\<close> is too long: \<open>hello_overruns\<close>.)
\<close>
theorem hello_prints_and_exits:
  assumes "jobs_heap (kget st) R (c # rest)" and "syslog_ready 50 40 lf f (smem st) c name"
    and "\<forall>m. same_outside (region x30 256) (smem st) m \<longrightarrow> user_text ((kget st)\<lparr>kmem := m\<rparr>) msg s"
    and "region x30 256 \<inter> (syslog_area 50 40 lf f c \<union> ring_bytes (kget st)) = {}" and "klogf_bytes 50 40 lf \<inter> ring_bytes (kget st) = {}"
    and "unat (timer_read_systemcounter_usec (tim (snd st))) < 10 ^ 11"
    and "length (program_line name s) < 40" and "length (klog_text (tim (snd st)) (program_line name s)) < 50"
  shows "\<exists>x' st'. start_program (hello_main msg) (svc sy blk lf f junk (fld x30 256) ret pst) (x, st) = Some (x', st') \<and>
    console (snd st') = console (snd st) @ klog_text (tim (snd st)) (program_line name s) \<and>
    jobs_heap (kget st') R (c # rest) \<and> get_status (smem st') c = TERMINATED \<and> (\<forall>j \<in> set rest. job_at (smem st') j = job_at (smem st) j)"
proof -
  have "length (num_str 10 (unat (timer_read_systemcounter_usec (tim (snd st))))) \<le> 11"
    using rdigits_length [OF assms(6)] by (simp add: num_str_def)
  from hello_run [OF assms(1-5) this assms(7,8), of sy blk junk ret pst x] show ?thesis by blast
qed

section \<open>An example\<close>

definition put_bytes :: "addr \<times> u8 list \<Rightarrow> mem \<Rightarrow> mem" where
  "put_bytes b m = (\<lambda>p. if p \<in> region (fst b) (length (snd b)) then snd b ! unat (p - fst b) else m p)"

lemma put_bytes_outside: "same_outside (region (fst b) (length (snd b))) m (put_bytes b m)"
  by (simp add: put_bytes_def same_outside_def)

lemma put_bytes_at: "length (snd b) < 2 ^ 64 \<Longrightarrow> bytes_at (put_bytes b m) (fst b) (snd b)"
  by (simp add: bytes_at_def put_bytes_def unat_of_nat64)

lemma put_all:
  assumes "apart_all (map (map_prod id length) bs)" and "\<forall>b \<in> set bs. length (snd b) < 2 ^ 64" and "\<forall>b \<in> set bs. region (fst b) (length (snd b)) \<subseteq> X"
  shows "(\<forall>b \<in> set bs. bytes_at (foldr put_bytes bs m) (fst b) (snd b)) \<and> same_outside X m (foldr put_bytes bs m)"
  using assms
proof (induction bs)
  case (Cons b bs)
  let ?m = "foldr put_bytes bs m"
  have IH: "\<forall>b \<in> set bs. bytes_at ?m (fst b) (snd b)" "same_outside X m ?m" using Cons by simp_all
  have "bytes_at (put_bytes b ?m) (fst c) (snd c)" if "c \<in> set bs" for c
  proof -
    have "region (fst c) (length (snd c)) \<inter> region (fst b) (length (snd b)) = {}" using Cons.prems(1) that by (auto simp del: in_region)
    then have "bytes_at (put_bytes b ?m) (fst c) (snd c) = bytes_at ?m (fst c) (snd c)"
      by (rule bytes_at_same_outside [OF put_bytes_outside]) (use Cons.prems(2) that in \<open>auto intro: less_imp_le\<close>)
    then show ?thesis using IH(1) that by simp
  qed
  moreover have "same_outside X m (put_bytes b ?m)"
    by (rule same_outside_trans [OF IH(2) same_outside_mono [OF put_bytes_outside]]) (use Cons.prems(3) in simp)
  ultimately show ?case using put_bytes_at [of b ?m] Cons.prems(2) by simp
qed simp

abbreviation hello_name :: "u8 list" where "hello_name \<equiv> map of_char ''h.elf''"

abbreviation hello_text :: "u8 list" where "hello_text \<equiv> map of_char ''Hello from spawned process!''"

abbreviation hello_frame :: log_frame where
  "hello_frame \<equiv> \<lparr>klog_buffer = 0x50001000, klog_prefix = 0x50002000, klogf_buffer = 0x50003000, sprintf_buffer = 0x50004000,
     digits_buffer = 0x50005000, lit_prefix = 0x50006000, lit_newline = 0x50007000\<rparr>"

definition hello_literals :: "(addr \<times> u8 list) list" where
  "hello_literals = [(0x50006000, prefix_format @ [0]), (0x50007000, [0x0a, 0]), (0x50008000, syscall_format @ [0]), (0x80001000, hello_text @ [0])]"

lemma hello_literals_mem:
  fixes m :: mem
  obtains m' where "str_at m' 0x50006000 prefix_format" and "str_at m' 0x50007000 [0x0a]" and "str_at m' 0x50008000 syscall_format"
    and "str_at m' 0x80001000 hello_text"
    and "same_outside (region 0x50000000 0x40000000) m m'"
proof -
  let ?m = "foldr put_bytes hello_literals m"
  have "apart_all (map (map_prod id length) hello_literals)" by (simp add: hello_literals_def prefix_format_def syscall_format_def regions_apart)
  moreover have "\<forall>b \<in> set hello_literals. length (snd b) < 2 ^ 64" by (simp add: hello_literals_def prefix_format_def syscall_format_def)
  moreover have "\<forall>b \<in> set hello_literals. region (fst b) (length (snd b)) \<subseteq> region 0x50000000 0x40000000"
    by (simp add: hello_literals_def prefix_format_def syscall_format_def region_inside)
  ultimately have a: "\<forall>b \<in> set hello_literals. bytes_at ?m (fst b) (snd b)" "same_outside (region 0x50000000 0x40000000) m ?m"
    using put_all [of hello_literals] by blast+
  have "0 \<notin> set prefix_format" "0 \<notin> set syscall_format" by (simp_all add: prefix_format_def syscall_format_def)
  then show thesis using a that [of ?m] by (simp add: hello_literals_def str_at_def)
qed

lemma region_half: "unat a + n \<le> 0x80000000 \<Longrightarrow> region a n \<subseteq> kernel_half"
  by (auto simp: region_unat kernel_half_def word_less_nat_alt simp del: in_region)

lemma hello_job:
  obtains k a b where "jobs_heap k job_example_runs [a, b]" and "regs k = example_regs" and "str_at (kmem k) a hello_name"
    and "str_at (kmem k) 0x50006000 prefix_format" and "str_at (kmem k) 0x50007000 [0x0a]" and "str_at (kmem k) 0x50008000 syscall_format"
    and "str_at (kmem k) 0x80001000 hello_text"
    and "region a 392 \<subseteq> region 0x40200000 1960" and "ring_bytes k \<subseteq> region 0x40200000 1960 \<union> region 0x1000 8"
proof -
  obtain k a b where k: "jobs_heap k job_example_runs [a, b]" "job_slab k = job_example_slab"
    "get_status (kmem k) a = RUNNING" "get_status (kmem k) b = RUNNING" "files_ok (job_at (kmem k) b) [] 0"
    "j_x (job_at (kmem k) b) = replicate 31 0" "main_heap k = main_heap job_example"
    by (rule two_jobs)
  have pool: "pool_bytes job_example_slab \<subseteq> region 0x40200000 1960"
    using pool_bytes_zone [OF job_example_slots(2), of 1960] by (simp add: slab_zone_bytes_def)
  then have ring: "ring_bytes k \<subseteq> region 0x40200000 1960 \<union> region 0x1000 8" using k(2,7) by (auto simp: ring_bytes_def simp del: in_region)
  have "region a 392 \<subseteq> ring_bytes k" "region a 392 \<inter> region 0x1000 8 = {}" using job_in_ring(1,3) [OF k(1), of a] k(7) by simp_all
  then have a: "region a 392 \<subseteq> region 0x40200000 1960" using ring by blast
  obtain m where m: "str_at m 0x50006000 prefix_format" "str_at m 0x50007000 [0x0a]" "str_at m 0x50008000 syscall_format"
    "str_at m 0x80001000 hello_text" "same_outside (region 0x50000000 0x40000000) (kmem k) m"
    by (rule hello_literals_mem)
  let ?n = "hello_name @ [0]"
  let ?m = "put_bytes (a, ?n) m" and ?N = "region a 6"
  have far: "region (0x50000000 :: addr) 0x40000000 \<inter> region 0x40200000 1960 = {}" "region (0x50000000 :: addr) 0x40000000 \<inter> region 0x1000 8 = {}"
    by (rule regions_apart; simp)+
  then have off: "region 0x50000000 0x40000000 \<inter> ring_bytes k = {}" using ring by blast
  note j1 = jobs_heap_off [OF k(1) m(5) off]
  have n: "length ?n = 6" by simp
  have w: "same_outside ?N m ?m" using put_bytes_outside [of "(a, ?n)" m] unfolding fst_conv snd_conv n .
  have N: "?N \<subseteq> region a 392" by (rule region_mono) simp
  note ra = job_in_ring [OF j1(2), of a]
  have "get_next ?m j = get_next m j \<and> get_paging ?m j = get_paging m j" if "j \<in> {a, b}" for j
  proof (cases "j = a")
    case True
    have "region (fld a 384) 8 \<inter> region (fld a 0) 6 = {}" "region (fld a 304) 8 \<inter> region (fld a 0) 6 = {}" by (rule fld_apart; simp)+
    then have "load64 ?m (fld a 384) = load64 m (fld a 384)" "load64 ?m (fld a 304) = load64 m (fld a 304)"
      by (intro load_le_same_outside [OF w]; simp)+
    then show ?thesis using True by (simp add: get_next_def get_paging_def)
  next
    case False
    then have "region j 392 \<inter> ?N = {}" using ra(4) [of j] that N by auto
    then have "job_at ?m j = job_at m j" by (rule job_at_frame [OF w])
    then show ?thesis by (simp add: job_at_sel)
  qed
  then have "jobs_heap ((k\<lparr>kmem := m\<rparr>)\<lparr>kmem := ?m\<rparr>) job_example_runs [a, b]"
    by (intro jobs_heap_write [OF j1(2), where A = ?N]) (use w N ra(2,3) in \<open>auto simp del: in_region\<close>)
  then have "jobs_heap (k\<lparr>kmem := ?m, regs := example_regs\<rparr>) job_example_runs [a, b]" by (simp add: jobs_heap_def)
  moreover have "bytes_at ?m a ?n" using put_bytes_at [of "(a, ?n)" m] by simp
  then have "str_at ?m a hello_name" by (simp add: str_at_def)
  moreover have Nf: "region (0x50000000 :: addr) 0x40000000 \<inter> ?N = {}" using far(1) a N by blast
  have kept: "str_at ?m p s" if "str_at m p s" "region p (Suc (length s)) \<subseteq> region 0x50000000 0x40000000" "length s < 2 ^ 31" for p s
    using that(1) disj_sub [OF that(2) Nf] that(3) by (subst str_at_same_outside [OF w]) simp_all
  have "str_at ?m 0x50006000 prefix_format" "str_at ?m 0x50007000 [0x0a]" "str_at ?m 0x50008000 syscall_format" "str_at ?m 0x80001000 hello_text"
    using kept [OF m(1)] kept [OF m(2)] kept [OF m(3)] kept [OF m(4)] by (simp_all add: prefix_format_len syscall_format_len region_inside)
  moreover have "ring_bytes (k\<lparr>kmem := ?m, regs := example_regs\<rparr>) = ring_bytes k" by (simp add: ring_bytes_def)
  ultimately show thesis by (intro that [of "k\<lparr>kmem := ?m, regs := example_regs\<rparr>" a b]) (use a ring in simp_all)
qed

abbreviation hello_timer :: timer where
  \<comment> \<open>1.5 seconds after the start, at the frequency of the emulated machine\<close>
  "hello_timer \<equiv> \<lparr>CNTFRQ_EL0 = 62500000, CNTP_CTL_EL0 = 0, CNTP_TVAL_EL0 = 0, CNTPCT_EL0 = 93000000\<rparr>"

lemma hello_usec: "timer_read_systemcounter_usec hello_timer = 1500000"
  by (simp add: timer_read_systemcounter_usec_def timer_getfrequency_def timer_read_systemcounter_def)

lemma hello_area:
  assumes "region a 392 \<subseteq> region 0x40200000 1960"
  shows "klogf_bytes 50 40 hello_frame \<subseteq> region 0x50001000 0x5000" and "syslog_area 50 40 hello_frame (f\<lparr>lit_syscall := 0x50008000\<rparr>) a \<subseteq> region 0x50001000 0xf000 \<union> region 0x40200000 1960"
    and "syslog_area 50 40 hello_frame (f\<lparr>lit_syscall := 0x50008000\<rparr>) a \<subseteq> kernel_half" and "(region 0x50008000 11 \<union> region a 392) \<inter> klogf_bytes 50 40 hello_frame = {}"
proof -
  show kb: "klogf_bytes 50 40 hello_frame \<subseteq> region 0x50001000 0x5000"
    by (simp add: klogf_bytes_def sp_written_def sp_bufs_def region_inside)
  have "region (0x50001000 :: addr) 0x5000 \<subseteq> region 0x50001000 0xf000" by (rule region_inside) simp_all
  moreover have "region (0x50008000 :: addr) 11 \<subseteq> region 0x50001000 0xf000" "region (0x50006000 :: addr) 6 \<subseteq> region 0x50001000 0xf000"
    "region (0x50007000 :: addr) 2 \<subseteq> region 0x50001000 0xf000" by (rule region_inside; simp)+
  ultimately show area: "syslog_area 50 40 hello_frame (f\<lparr>lit_syscall := 0x50008000\<rparr>) a \<subseteq> region 0x50001000 0xf000 \<union> region 0x40200000 1960"
    using kb assms unfolding syslog_area_def by (simp del: in_region) blast
  have "region (0x50001000 :: addr) 0xf000 \<subseteq> kernel_half" "region (0x40200000 :: addr) 1960 \<subseteq> kernel_half" by (rule region_half; simp)+
  then show "syslog_area 50 40 hello_frame (f\<lparr>lit_syscall := 0x50008000\<rparr>) a \<subseteq> kernel_half" using area by blast
  have "region (0x50008000 :: addr) 11 \<inter> region 0x50001000 0x5000 = {}" "region (0x40200000 :: addr) 1960 \<inter> region 0x50001000 0x5000 = {}" by (rule regions_apart; simp)+
  then show "(region 0x50008000 11 \<union> region a 392) \<inter> klogf_bytes 50 40 hello_frame = {}" using kb assms by blast
qed

theorem hello_prints_and_exits_witness:
  "\<forall>sy (blk :: unit block) f junk ret pst. \<exists>st x' st'.
    start_program (hello_main 0x80001000) (svc sy blk hello_frame (f\<lparr>lit_syscall := 0x50008000\<rparr>) junk (fld 0x41000000 256) ret pst) (\<lambda>_. 0, st) = Some (x', st') \<and>
    console (snd st') = klog_text hello_timer (program_line hello_name hello_text) \<and> get_status (smem st') (current_job (kget st)) = TERMINATED"
proof (intro allI)
  fix sy junk ret pst and f :: kernel_frame and blk :: "unit block"
  let ?f = "f\<lparr>lit_syscall := 0x50008000\<rparr>" and ?x = "0x41000000 :: addr"
  obtain k a b where k: "jobs_heap k job_example_runs [a, b]" "regs k = example_regs" "str_at (kmem k) a hello_name"
    "str_at (kmem k) 0x50006000 prefix_format" "str_at (kmem k) 0x50007000 [0x0a]" "str_at (kmem k) 0x50008000 syscall_format"
    "str_at (kmem k) 0x80001000 hello_text"
    "region a 392 \<subseteq> region 0x40200000 1960" "ring_bytes k \<subseteq> region 0x40200000 1960 \<union> region 0x1000 8"
    by (rule hello_job)
  let ?st = "((), \<lparr>kern = k, intc = example_gic, tim = hello_timer, console = [], exceptions_context_switch_x30 = NULL\<rparr>)"
  have st: "kget ?st = k" "smem ?st = kmem k" "tim (snd ?st) = hello_timer" "console (snd ?st) = []" by (simp_all add: kget_def smem_def)
  note area = hello_area(1,4) [OF k(8)] hello_area(2,3) [OF k(8), where f = f]
  have "apart_all [(0x50001000, 50), (0x50002000, 15), (0x50004000, 100), (0x50005000, 50), (0x50006000, 6), (0x50007000, 2), (0x50003000 :: addr, 40)]"
    by (simp add: regions_apart)
  then have "log_frame_ok 50 hello_frame (kmem k) (klogf_buffer hello_frame) 40" using k(4,5) by (simp add: log_frame_ok_def del: apart_all.simps)
  then have rdy: "syslog_ready 50 40 hello_frame ?f (smem ?st) a hello_name"
    unfolding syslog_ready_def st using k(3,6) area(2,4) by (simp add: del: str_at_Cons)
  have frame: "region ?x 256 \<inter> region 0x50001000 0xf000 = {}" "region ?x 256 \<inter> region 0x40200000 1960 = {}" "region ?x 256 \<inter> region 0x1000 8 = {}"
    "region 0x80001000 28 \<inter> region ?x 256 = {}" "region (0x50001000 :: addr) 0x5000 \<inter> region 0x40200000 1960 = {}" "region (0x50001000 :: addr) 0x5000 \<inter> region 0x1000 8 = {}"
    by (rule regions_apart; simp)+
  have ap: "region ?x 256 \<inter> (syslog_area 50 40 hello_frame ?f a \<union> ring_bytes (kget ?st)) = {}" "klogf_bytes 50 40 hello_frame \<inter> ring_bytes (kget ?st) = {}"
    unfolding st using frame area(1,3) k(9) by blast+
  have user: "region (0x80001000 :: addr) 28 \<inter> kernel_half = {}"
    by (auto simp: region_unat kernel_half_def word_less_nat_alt simp del: in_region)
  have len: "length hello_text = 27" by simp
  have "user_text ((kget ?st)\<lparr>kmem := m\<rparr>) 0x80001000 hello_text" if w: "same_outside (region ?x 256) (smem ?st) m" for m
  proof -
    have "str_at m 0x80001000 hello_text = str_at (kmem k) 0x80001000 hello_text"
      by (rule str_at_same_outside [OF w [unfolded st]]) (simp_all only: len, use frame(4) in simp_all)
    then have "bytes_at m 0x80001000 (hello_text @ [0])" "0 \<notin> set hello_text" using k(7) unfolding str_at_def by blast+
    then show ?thesis unfolding user_text_def len bytes_at_def st using user k(2) by (simp add: vread_def len less_Suc_eq_le del: list.map)
  qed
  then have ut: "\<forall>m. same_outside (region ?x 256) (smem ?st) m \<longrightarrow> user_text ((kget ?st)\<lparr>kmem := m\<rparr>) 0x80001000 hello_text" by blast
  have digits: "num_str 10 1500000 = [0x31, 0x35, 0x30, 0x30, 0x30, 0x30, 0x30]" by (simp add: num_str_def rdigits.simps digit_char_def)
  have lens: "unat (timer_read_systemcounter_usec (tim (snd ?st))) < 10 ^ 11" "length (program_line hello_name hello_text) < 40"
    "length (klog_text (tim (snd ?st)) (program_line hello_name hello_text)) < 50"
    by (simp_all add: st hello_usec digits program_line_def klog_text_def)
  have inv: "jobs_heap (kget ?st) job_example_runs (a # [b])" using k(1) st by simp
  have cur: "current_job k = a" by (rule jobs_heap_current [OF k(1)])
  from hello_prints_and_exits [OF inv rdy ut ap lens, of sy blk junk ret pst "\<lambda>_. 0"]
  obtain x' st' where r: "start_program (hello_main 0x80001000) (svc sy blk hello_frame ?f junk (fld ?x 256) ret pst) (\<lambda>_. 0, ?st) = Some (x', st')"
    "console (snd st') = console (snd ?st) @ klog_text (tim (snd ?st)) (program_line hello_name hello_text)"
    "get_status (smem st') a = TERMINATED" by blast
  show "\<exists>st x' st'.
      start_program (hello_main 0x80001000) (svc sy blk hello_frame ?f junk (fld ?x 256) ret pst) (\<lambda>_. 0, st) = Some (x', st') \<and>
      console (snd st') = klog_text hello_timer (program_line hello_name hello_text) \<and> get_status (smem st') (current_job (kget st)) = TERMINATED"
    using r(1-3) cur st by (intro exI [of _ ?st] exI [of _ x'] exI [of _ st']) (simp del: list.map)
qed

end
