(* ===== verification/Spec2Isabelle.thy ===== *)
theory Spec2Isabelle
  imports Process_Properties Program_Input Program_Open Program_Output
begin

text \<open>
  A verification library for a small kernel for 64-bit ARM (AArch64, one core, the QEMU virt board). This
  theory collects the component theories; each of them opens with what it holds.

  \<^bold>\<open>The program.\<close> \<open>kernel/start.c\<close> builds the kernel heap, the page tables, the interrupt controller, the
  timer, the disk and the file system, starts the first user program from the disk and returns to
  user mode. From then on the kernel runs on exceptions only: the timer interrupt switches to the next
  process (\<open>mp/sched.c\<close>, \<open>mp/job.c\<close>), a system call opens and reads files, starts programs or ends the process
  (\<open>exceptions/exceptions.c\<close>), which user programs issue through the wrappers under \<open>userspace\<close>. Everything dynamic comes from two allocators: the block heap (\<open>alloc/heap.c\<close>, behind
  \<open>kalloc\<close> and \<open>kfree\<close> of \<open>sysutils.c\<close>) and slabs of equal-sized objects (\<open>alloc/slab.c\<close>) for page tables, jobs, inodes and
  user pages. Programs are read by the ELF reader (\<open>elf/elf.c\<close>) from files of the FAT reader (\<open>fs/fat.c\<close>, \<open>fs/fat_fs.c\<close>),
  which gets its sectors through the block layer (\<open>device/block.c\<close>) from the virtio driver (\<open>device/virtioblk.c\<close>).

  \<^bold>\<open>How C is modelled.\<close> \<open>C_Prelude\<close>, \<open>C_Memory\<close>. The memory is a total map from 64-bit addresses to bytes;
  structures are bytes at the offsets the ABI gives them, read and written by \<open>load_le\<close> and \<open>store_le\<close> at \<open>fld p offset\<close>, so
  aliasing and overruns are those of the code. Unsigned C types are words of their width; \<open>int\<close> is a HOL
  integer with \<open>int_res\<close> at each operation that can overflow and \<open>c_int\<close> at each conversion. A function that may not
  return, or whose behaviour C leaves undefined, has the result \<open>None\<close>; loops that may not end are partial functions,
  so that an equation with \<open>Some\<close> is also a statement of termination, and no fuel is used anywhere.
  State outside the memory is in records: \<open>kernel\<close> (static variables, system registers), \<open>machine\<close> (with interrupt controller,
  timer, console) and the state of the disk. Local arrays, string literals and symbols of the linker are addresses passed
  as arguments (the \<open>frame\<close> records, \<open>symbols\<close>).

  \<^bold>\<open>Allocators.\<close> \<open>Alloc_Interface\<close> states the two contracts as the locales \<open>object_pool\<close> and \<open>byte_heap\<close>, with the
  clients' lemmas. \<open>Slab_Alloc\<close> models \<open>alloc/slab.c\<close> and interprets the first one on it: the abstract state is the set of
  slots in use, an allocation takes the highest free slot; on a full slab the C code shifts by a negative amount, so the
  allocation is modelled twice, as C defines it and as the AArch64 instruction executes it. \<open>Heap_Alloc\<close> models \<open>alloc/heap.c\<close> and interprets the second one: the abstract state is the set of runs of blocks,
  an allocation is first fit. \<open>Sysutils\<close> (\<open>sysutils.c\<close>) carries the contract over to \<open>kalloc\<close>, \<open>kzalloc\<close>, \<open>kfree\<close>, and
  \<open>Kernel_Pools\<close> builds slabs in heap memory.

  \<^bold>\<open>Strings and console.\<close> \<open>C_String\<close> models \<open>string.c\<close> and \<open>math.c\<close> against lists of characters (copies, comparison as the
  lexicographic order, the word-wise \<open>memset\<close> against the byte-wise one). \<open>Console\<close> models \<open>timer/timer.c\<close>, \<open>uart.c\<close> and \<open>log.c\<close>:
  numerals, the formatter against a reference interpreter of format strings, and the fixed buffers of \<open>klog\<close> and \<open>klogf\<close>.

  \<^bold>\<open>Paging.\<close> \<open>Paging\<close> models \<open>mm/paging.c\<close>: entries, tables from a slab, insertion of mappings, the control registers, and a model
  of the hardware's table walk. \<open>Page_Tables\<close> relates the bytes to a tree of tables and proves that mapping a page makes the
  walk translate that page and changes no other translation; \<open>Process_Paging\<close> does this for whole address spaces.

  \<^bold>\<open>Processes.\<close> \<open>Job\<close> models \<open>mp/job.c\<close>. \<open>Job_Ring\<close> is the invariant: the jobs in use are exactly those of a ring linked by
  \<open>next\<close> from \<open>current_job\<close>; \<open>Job_Properties\<close> proves what creation, deletion and the choice of the next job do to the ring, and when
  that choice ends. \<open>Gic\<close> is the interrupt controller (\<open>gic/gic.c\<close>). \<open>Sched\<close> composes \<open>mp/sched.c\<close>, the entry code of
  \<open>exceptions.asm\<close> and \<open>timer/timer.c\<close>: a timer interrupt saves one process and resumes another.
  \<open>Process\<close> is \<open>job_create_from_file\<close>; \<open>Elf\<close> and \<open>Elf_Properties\<close> model \<open>elf/elf.c\<close> and \<open>elf/filebuffer.c\<close> and show that parsing gives the
  headers of the file and that freeing gives the heap back. \<open>Process_Properties\<close> shows that an address space
  made after the start maps the kernel and fresh pages only, disjoint from those of other processes, and that the loaded image is the
  program's segment. \<open>Exceptions\<close> models \<open>exceptions/exceptions.c\<close> and \<open>start.c\<close>; \<open>Exceptions_Properties\<close> follows the exit of a
  process through the next switches, \<open>Boot\<close> shows that the pools the start makes satisfy the invariants above.

  \<^bold>\<open>Disk and files.\<close> \<open>Virtio\<close> models \<open>device/virtioblk.c\<close> and \<open>device/block.c\<close> with the device as a parameter: its register reads,
  what a register write and the passing of time do to it and to the memory, and its interrupt line. The loop in which the driver waits for
  a request ends only by an interrupt, which is taken when the mask in \<open>DAIF\<close> and the interrupt controller (\<open>gic_delivers\<close>) let it through, by \<open>currentelx_fiq\<close> of
  \<open>exceptions.asm\<close> and \<open>exceptions_handle_fiq\<close>. \<open>Fat\<close> models \<open>fs/fat.c\<close>, \<open>Fs\<close> models \<open>fs/fs.c\<close>, \<open>fs/ram_fs.c\<close> and \<open>fs/fat_fs.c\<close>, with
  calls through function pointers. Two locales are the interfaces between them. \<open>Block_Interface\<close> has \<open>block_device\<close>: what a file system expects
  of the driver below it, stated for every heap, since driver and file system share one (\<open>Heap_Space\<close> has the lemmas on its free part);
  \<open>Virtio_Properties\<close> interprets it on the virtio driver, for a device that follows the virtio specification and raises its interrupt before the next
  timer tick; that the driver's wait ends is proved by induction over the steps of the device (\<open>request_completes\<close>). \<open>File_Source\<close> has
  \<open>file_source\<close>: what the reader of a whole file expects of an inode, and \<open>open_file\<close>, which extends it by what a process needs that keeps a file open;
  \<open>Ramfs_Properties\<close> interprets both on the file system in memory and \<open>Fatfs_Properties\<close> on the FAT file system over any block device.
  \<open>Fat_Properties\<close> has the search for a directory entry and the copying of disk bytes, \<open>Fatfs_Properties\<close> the bytes of a whole
  file along its chain of clusters, \<open>Ramfs_Properties\<close> a file in memory from creation to the last byte read. \<open>Inode_Pool\<close> has what both file systems do
  to open a file, a slot of the slab of the inodes and a block of the heap, and \<open>Fatfs_Open\<close> the opening by name on the FAT disk.

  \<^bold>\<open>User programs.\<close> \<open>Userspace\<close> models \<open>userspace/sys.c\<close>, \<open>runtime.c\<close>, \<open>hello.c\<close> and \<open>init.c\<close> over the system call instruction, and that instruction
  as the entry code of \<open>exceptions.asm\<close> around \<open>exceptions_distributor\<close>. \<open>System_Calls\<close> proves once, for every provider of \<open>open_file\<close>, what a
  read gives the program; \<open>Program_Input\<close> states it, with the errors, and runs it on a file of a FAT disk behind the virtio driver.
  \<open>Program_Open\<close> composes the opening by name with the reads.
  \<open>Program_Output\<close> follows the program \<open>hello\<close> from its start code over the log line to its termination, for lines that fit the arrays of the log;
  the line of the program under its own file name does not, and is a lemma of its own.

  \<^bold>\<open>Bounds.\<close> The invariant of the heap allows 524288 blocks (2 GiB), so that a byte offset fits the C \<open>int\<close> it is
  computed in; a slab must lie below \<open>2 ^ 48\<close> and span less than \<open>2 ^ 31\<close> bytes for the same reason. The start uses 65536 blocks.
  Requests to the disk are limited to the 1024 that the ring can hold before the index error of the
  driver shows.

  \<^bold>\<open>Not modelled.\<close> The linker scripts; \<open>start.asm\<close>, which sets the stack pointer and
  calls \<open>start\<close>; functions that only print (\<open>fat_debug_info\<close>, \<open>debug_job\<close>, \<open>sysutils_log_free_heap\<close>), and the calls of \<open>klog\<close> inside
  other components, which touch no state of theirs. An interrupt is taken between two instructions of a user
  program or in a round of the busy wait of the disk driver; at other points the kernel runs with interrupts masked, but for the start up to its
  first request to the disk, which is modelled without interrupts. Stack frames of the C functions are not laid out: local arrays are at given addresses, so an
  overrun hits whatever the hypotheses put behind them and not a return address; a property whose text could overrun an array
  says so in its hypotheses. A translation fault inside the kernel has no result and is not followed into a nested exception. Caches
  and the TLB are not part of the memory.
\<close>

end
